(* ===== verification/Prelude.thy ===== *)
theory Prelude
  imports Main "HOL-Library.Multiset"
begin

text \<open>
  What every component shares: the exceptions of the program as values, the sequencing of
  fallible computations, and Python's lists, slices, stable sorting and integer division, with
  the lemmas that the components use.
\<close>

section \<open>Exceptions as values\<close>

text \<open>
  An exception is its class (messages are not modelled). A fallible function returns
  \<open>Inl\<close> of the exception that leaves it, or \<open>Inr\<close> of its result.
\<close>

datatype py_error =
    AssertionError
  | ValueError
  | IndexError
  | KeyError
  | TypeError
  | ZeroDivisionError
  | NotImplementedError
  | RuntimeError
  | AttributeError
  | FileNotFoundError
  | OtherError nat

type_synonym 'a res = "py_error + 'a"

named_theorems py_simps "equations of the Python prelude"
named_theorems slice_simps "slices, chunks and index selections"

definition bind_res :: "'a res \<Rightarrow> ('a \<Rightarrow> 'b res) \<Rightarrow> 'b res" where
  "bind_res r f = (case r of Inl e \<Rightarrow> Inl e | Inr x \<Rightarrow> f x)"

lemma bind_res_Inl [simp, py_simps]: "bind_res (Inl e) f = Inl e"
  by (simp add: bind_res_def)

lemma bind_res_Inr [simp, py_simps]: "bind_res (Inr x) f = f x"
  by (simp add: bind_res_def)

lemma bind_res_eq_Inr: "bind_res r f = Inr y \<longleftrightarrow> (\<exists>x. r = Inr x \<and> f x = Inr y)"
  by (cases r) auto

lemma bind_res_assoc: "bind_res (bind_res r f) g = bind_res r (\<lambda>x. bind_res (f x) g)"
  by (cases r) auto

text \<open>\<open>assert b\<close> before the rest of a body.\<close>

definition py_assert :: "bool \<Rightarrow> 'a res \<Rightarrow> 'a res" where
  "py_assert b r = (if b then r else Inl AssertionError)"

lemma py_assert_simps [simp, py_simps]:
  "py_assert True r = r" "py_assert False r = Inl AssertionError"
  by (simp_all add: py_assert_def)

lemma py_assert_eq_Inr: "py_assert b r = Inr y \<longleftrightarrow> b \<and> r = Inr y"
  by (simp add: py_assert_def)

text \<open>A fallible function over a list, left to right, stopping at the first exception.\<close>

fun map_res :: "('a \<Rightarrow> 'b res) \<Rightarrow> 'a list \<Rightarrow> 'b list res" where
  "map_res f [] = Inr []"
| "map_res f (x # xs) = bind_res (f x) (\<lambda>y. bind_res (map_res f xs) (\<lambda>ys. Inr (y # ys)))"

lemma map_res_cong: "xs = ys \<Longrightarrow> (\<And>x. x \<in> set ys \<Longrightarrow> f x = g x) \<Longrightarrow> map_res f xs = map_res g ys"
  by (induction ys arbitrary: xs) auto

lemma map_res_Inr: "(\<And>x. x \<in> set xs \<Longrightarrow> f x = Inr (g x)) \<Longrightarrow> map_res f xs = Inr (map g xs)"
  by (induction xs) auto

lemma map_res_map [simp]: "map_res f (map g xs) = map_res (\<lambda>x. f (g x)) xs"
  by (induction xs) auto

lemma map_res_eq_Inr_length: "map_res f xs = Inr ys \<Longrightarrow> length ys = length xs"
  by (induction xs arbitrary: ys) (auto simp: bind_res_eq_Inr)

lemma map_res_eq_Inr_nth:
  "map_res f xs = Inr ys \<Longrightarrow> i < length xs \<Longrightarrow> f (xs ! i) = Inr (ys ! i)"
  by (induction xs arbitrary: ys i) (auto simp: bind_res_eq_Inr nth_Cons split: nat.splits)

text \<open>Indexing with Python's rule: a negative index counts from the end.\<close>

definition py_get :: "'a list \<Rightarrow> int \<Rightarrow> 'a res" where
  "py_get xs i =
     (if - int (length xs) \<le> i \<and> i < int (length xs)
      then Inr (xs ! nat (if i < 0 then i + int (length xs) else i)) else Inl IndexError)"

lemma py_get_nat [simp, py_simps]: "i < length xs \<Longrightarrow> py_get xs (int i) = Inr (xs ! i)"
  by (simp add: py_get_def Let_def)

section \<open>Slices\<close>

text \<open>
  \<open>xs[a:b]\<close> with step 1: each bound is clamped into \<open>0..len(xs)\<close> after a negative one has
  been counted from the end. \<open>None\<close> is a bound left out.
\<close>

definition slice_bound :: "nat \<Rightarrow> int \<Rightarrow> nat" where
  "slice_bound n i = (if i < 0 then nat (int n + i) else min n (nat i))"

definition py_slice :: "int option \<Rightarrow> int option \<Rightarrow> 'a list \<Rightarrow> 'a list" where
  "py_slice a b xs =
     (let n = length xs;
          lo = (case a of None \<Rightarrow> 0 | Some i \<Rightarrow> slice_bound n i);
          hi = (case b of None \<Rightarrow> n | Some i \<Rightarrow> slice_bound n i)
      in take (hi - lo) (drop lo xs))"

lemma slice_bound_nat [simp]: "slice_bound n (int i) = min n i"
  by (simp add: slice_bound_def)

lemma slice_bound_le: "slice_bound n i \<le> n"
  by (auto simp: slice_bound_def)

lemma py_slice_prefix [slice_simps]: "py_slice None (Some (int i)) xs = take i xs"
  by (simp add: py_slice_def Let_def min_def)

lemma py_slice_suffix [slice_simps]: "py_slice (Some (int i)) None xs = drop i xs"
  by (simp add: py_slice_def Let_def min_def)

lemma py_slice_nat [slice_simps]:
  "py_slice (Some (int i)) (Some (int j)) xs = take (j - i) (drop i xs)"
  by (simp add: py_slice_def Let_def min_def)

lemma py_slice_last [slice_simps]:
  "0 < i \<Longrightarrow> py_slice (Some (- int i)) None xs = drop (length xs - i) xs"
proof -
  assume "0 < i"
  then have "slice_bound (length xs) (- int i) = length xs - i"
    by (auto simp: slice_bound_def)
  then show ?thesis by (simp add: py_slice_def Let_def)
qed

lemma py_slice_butlast [slice_simps]:
  "0 < i \<Longrightarrow> py_slice None (Some (- int i)) xs = take (length xs - i) xs"
proof -
  assume "0 < i"
  then have "slice_bound (length xs) (- int i) = length xs - i"
    by (auto simp: slice_bound_def)
  then show ?thesis by (simp add: py_slice_def Let_def)
qed

lemma length_py_slice_le: "length (py_slice a b xs) \<le> length xs"
  by (simp add: py_slice_def Let_def)

text \<open>\<open>[xs[i:i+n] for i in range(0, len(xs), n)]\<close>, for a positive \<open>n\<close>.\<close>

function chunks_of :: "nat \<Rightarrow> 'a list \<Rightarrow> 'a list list" where
  "chunks_of n xs = (if n = 0 \<or> xs = [] then [] else take n xs # chunks_of n (drop n xs))"
  by pat_completeness auto
termination
  by (relation "measure (\<lambda>(n, xs). length xs)") auto

declare chunks_of.simps [simp del]

lemma chunks_of_Nil [simp]: "chunks_of n [] = []"
  by (simp add: chunks_of.simps)

lemma concat_chunks_of [slice_simps]: "0 < n \<Longrightarrow> concat (chunks_of n xs) = xs"
proof (induction n xs rule: chunks_of.induct)
  case (1 n xs)
  then show ?case by (cases "xs = []") (simp_all add: chunks_of.simps [of n xs])
qed

lemma length_chunks_of: "0 < n \<Longrightarrow> length (chunks_of n xs) = (length xs + n - 1) div n"
proof (induction n xs rule: chunks_of.induct)
  case (1 n xs)
  show ?case
  proof (cases "xs = []")
    case True
    with \<open>0 < n\<close> show ?thesis by simp
  next
    case False
    then have "0 < length xs" by simp
    have rec: "length (chunks_of n (drop n xs)) = (length xs - n + n - 1) div n"
      using 1 False by simp
    have "(length xs + n - 1) div n = Suc ((length xs - n + n - 1) div n)"
    proof (cases "n \<le> length xs")
      case True
      then have "length xs + n - 1 = (length xs - n + n - 1) + n"
        using \<open>0 < n\<close> by simp
      with \<open>0 < n\<close> show ?thesis by (metis div_add_self2 add.commute less_numeral_extra(3) Suc_eq_plus1)
    next
      case False
      have "(length xs + n - 1) div n = 1"
      proof (rule div_nat_eqI)
        show "n * 1 \<le> length xs + n - 1" using \<open>0 < length xs\<close> by linarith
        show "length xs + n - 1 < n * Suc 1" using False \<open>0 < n\<close> by simp
      qed
      with False \<open>0 < n\<close> show ?thesis by simp
    qed
    with rec \<open>xs \<noteq> []\<close> \<open>0 < n\<close> show ?thesis by (simp add: chunks_of.simps [of n xs])
  qed
qed

lemma nth_chunks_of: "i < length (chunks_of n xs) \<Longrightarrow> chunks_of n xs ! i = take n (drop (n * i) xs)"
proof (induction n xs arbitrary: i rule: chunks_of.induct)
  case (1 n xs)
  show ?case
  proof (cases "n = 0 \<or> xs = []")
    case True
    then show ?thesis using 1(2) by (simp add: chunks_of.simps [of n xs])
  next
    case False
    show ?thesis
    proof (cases i)
      case 0
      then show ?thesis using False by (simp add: chunks_of.simps [of n xs])
    next
      case (Suc j)
      then have "j < length (chunks_of n (drop n xs))" using 1(2) False by (simp add: chunks_of.simps [of n xs])
      from 1(1) [OF False this] show ?thesis using False Suc
        by (simp add: chunks_of.simps [of n xs] add.commute)
    qed
  qed
qed

lemma chunks_of_bounds: "c \<in> set (chunks_of n xs) \<Longrightarrow> c \<noteq> [] \<and> length c \<le> n"
proof (induction n xs rule: chunks_of.induct)
  case (1 n xs)
  then show ?case by (auto simp: chunks_of.simps [of n xs] split: if_splits)
qed

lemma chunks_of_all_full:
  "0 < n \<Longrightarrow> length xs mod n = 0 \<Longrightarrow> c \<in> set (chunks_of n xs) \<Longrightarrow> length c = n"
proof (induction n xs rule: chunks_of.induct)
  case (1 n xs)
  show ?case
  proof (cases "xs = []")
    case True
    with 1 show ?thesis by simp
  next
    case False
    then have le: "n \<le> length xs" using 1 by (metis length_greater_0_conv linorder_not_less mod_less not_less0)
    then have "length (drop n xs) mod n = 0" using 1 by (simp add: le_mod_geq)
    then show ?thesis using 1 False le by (auto simp: chunks_of.simps [of n xs] split: if_splits)
  qed
qed

lemma length_concat_uniform: "\<forall>c\<in>set cs. length c = n \<Longrightarrow> length (concat cs) = length cs * n"
  by (induction cs) auto

lemma distinct_concat_same:
  assumes "distinct (concat xss)" "a < length xss" "b < length xss" "x \<in> set (xss ! a)" "x \<in> set (xss ! b)"
  shows "xss ! b = xss ! a"
proof (rule ccontr)
  assume ne: "xss ! b \<noteq> xss ! a"
  then have "a \<noteq> b" by auto
  have "set (xss ! a) \<inter> set (xss ! b) = {}"
    using assms(1-3) ne unfolding distinct_concat_iff by (metis nth_mem)
  then show False using assms(4,5) by auto
qed

section \<open>Stable sorting\<close>

text \<open>
  \<open>sorted(xs)\<close> compares with \<open><\<close> only (\<open>__lt__\<close>) and is stable; with \<open>reverse=True\<close>
  elements that compare equal keep their order, as if the list were reversed, sorted and reversed.
\<close>

fun insert_by :: "('a \<Rightarrow> 'a \<Rightarrow> bool) \<Rightarrow> 'a \<Rightarrow> 'a list \<Rightarrow> 'a list" where
  "insert_by lt x [] = [x]"
| "insert_by lt x (y # ys) = (if lt x y then x # y # ys else y # insert_by lt x ys)"

definition py_sorted :: "('a \<Rightarrow> 'a \<Rightarrow> bool) \<Rightarrow> 'a list \<Rightarrow> 'a list" where
  "py_sorted lt xs = fold (insert_by lt) xs []"

definition py_sorted_rev :: "('a \<Rightarrow> 'a \<Rightarrow> bool) \<Rightarrow> 'a list \<Rightarrow> 'a list" where
  "py_sorted_rev lt xs = rev (py_sorted lt (rev xs))"

lemma mset_insert_by [simp]: "mset (insert_by lt x ys) = add_mset x (mset ys)"
  by (induction ys) auto

lemma mset_fold_insert_by: "mset (fold (insert_by lt) xs ys) = mset xs + mset ys"
  by (induction xs arbitrary: ys) auto

lemma mset_py_sorted [simp]: "mset (py_sorted lt xs) = mset xs"
  by (simp add: py_sorted_def mset_fold_insert_by)

lemma mset_py_sorted_rev [simp]: "mset (py_sorted_rev lt xs) = mset xs"
  by (simp add: py_sorted_rev_def)

lemma set_py_sorted [simp]: "set (py_sorted lt xs) = set xs"
  by (metis mset_py_sorted set_mset_mset)

lemma set_py_sorted_rev [simp]: "set (py_sorted_rev lt xs) = set xs"
  by (metis mset_py_sorted_rev set_mset_mset)

lemma length_py_sorted [simp]: "length (py_sorted lt xs) = length xs"
  by (metis mset_py_sorted size_mset)

lemma length_py_sorted_rev [simp]: "length (py_sorted_rev lt xs) = length xs"
  by (metis mset_py_sorted_rev size_mset)

text \<open>The result is ordered when \<open>lt\<close> is a strict weak order.\<close>

definition weak_order :: "('a \<Rightarrow> 'a \<Rightarrow> bool) \<Rightarrow> bool" where
  "weak_order lt \<longleftrightarrow> (\<forall>x y. lt x y \<longrightarrow> \<not> lt y x) \<and> (\<forall>x y z. \<not> lt x y \<longrightarrow> \<not> lt y z \<longrightarrow> \<not> lt x z)"

lemma weak_order_asym: "weak_order lt \<Longrightarrow> lt x y \<Longrightarrow> \<not> lt y x"
  unfolding weak_order_def by blast

lemma weak_order_trans: "weak_order lt \<Longrightarrow> \<not> lt x y \<Longrightarrow> \<not> lt y z \<Longrightarrow> \<not> lt x z"
  unfolding weak_order_def by blast

lemma set_insert_by [simp]: "set (insert_by lt x ys) = insert x (set ys)"
  by (induction ys) auto

lemma sorted_insert_by:
  assumes "weak_order lt"
  shows "sorted_wrt (\<lambda>a b. \<not> lt b a) ys \<Longrightarrow> sorted_wrt (\<lambda>a b. \<not> lt b a) (insert_by lt x ys)"
proof (induction ys)
  case Nil
  then show ?case by simp
next
  case (Cons y ys)
  show ?case
  proof (cases "lt x y")
    case True
    then have "\<not> lt y x" using assms by (rule weak_order_asym [rotated])
    moreover have "\<forall>z\<in>set ys. \<not> lt z x"
      using Cons.prems \<open>\<not> lt y x\<close> weak_order_trans [OF assms] by auto
    ultimately show ?thesis using Cons.prems True by simp
  next
    case False
    then show ?thesis using Cons by auto
  qed
qed

lemma sorted_py_sorted:
  assumes "weak_order lt"
  shows "sorted_wrt (\<lambda>a b. \<not> lt b a) (py_sorted lt xs)"
proof -
  have "sorted_wrt (\<lambda>a b. \<not> lt b a) ys \<Longrightarrow> sorted_wrt (\<lambda>a b. \<not> lt b a) (fold (insert_by lt) xs ys)" for ys
    by (induction xs arbitrary: ys) (simp_all add: sorted_insert_by [OF assms])
  then show ?thesis by (simp add: py_sorted_def)
qed

lemma sorted_py_sorted_rev:
  assumes "weak_order lt"
  shows "sorted_wrt (\<lambda>a b. \<not> lt a b) (py_sorted_rev lt xs)"
  using sorted_py_sorted [OF assms, of "rev xs"] by (simp add: py_sorted_rev_def sorted_wrt_rev)

section \<open>Permutations of index ranges\<close>

text \<open>\<open>is_index_perm n is\<close>: the list \<open>is\<close> holds each of \<open>0..n-1\<close> exactly once.\<close>

definition is_index_perm :: "nat \<Rightarrow> nat list \<Rightarrow> bool" where
  "is_index_perm n is \<longleftrightarrow> mset is = mset [0..<n]"

lemma index_perm_set: "is_index_perm n is \<Longrightarrow> set is = {..<n}"
  by (metis is_index_perm_def atLeast_upt set_mset_mset)

lemma index_perm_length: "is_index_perm n is \<Longrightarrow> length is = n"
  by (metis is_index_perm_def diff_zero length_upt size_mset)

lemma index_perm_distinct: "is_index_perm n is \<Longrightarrow> distinct is"
  by (metis is_index_perm_def distinct_upt mset_eq_imp_distinct_iff)

lemma index_permI: "distinct is \<Longrightarrow> set is = {..<n} \<Longrightarrow> is_index_perm n is"
  unfolding is_index_perm_def by (metis atLeast_upt distinct_upt set_eq_iff_mset_eq_distinct)

lemma index_perm_upt: "is_index_perm n [0..<n]"
  by (simp add: is_index_perm_def)

lemma index_perm_nth_less: "is_index_perm n is \<Longrightarrow> i < n \<Longrightarrow> is ! i < n"
  using index_perm_set index_perm_length nth_mem by fastforce

end
