(* ===== verification/Heapq.thy ===== *)
theory Heapq
  imports Prelude
begin

text \<open>
  Python's \<open>heapq\<close> over a list, with an arbitrary \<open>__lt__\<close>: the array heap that
  \<open>verl/utils/seqlen_balancing.py\<close> keeps its partition states in. The two sift loops of the
  standard library move a hole; here the moved item is swapped along, which visits the same
  positions and leaves the same list.
\<close>

definition swap_at :: "nat \<Rightarrow> nat \<Rightarrow> 'a list \<Rightarrow> 'a list" where
  "swap_at i j xs = xs[i := xs ! j, j := xs ! i]"

lemma length_swap_at [simp]: "length (swap_at i j xs) = length xs"
  by (simp add: swap_at_def)

lemma mset_swap_at: "i < length xs \<Longrightarrow> j < length xs \<Longrightarrow> mset (swap_at i j xs) = mset xs"
  by (simp add: swap_at_def mset_swap)

text \<open>\<open>_siftdown(heap, 0, pos)\<close>: towards the root while the item is smaller than its parent.\<close>

fun sift_to_root :: "('a \<Rightarrow> 'a \<Rightarrow> bool) \<Rightarrow> nat \<Rightarrow> 'a list \<Rightarrow> 'a list" where
  "sift_to_root lt pos h =
     (if pos = 0 then h
      else let parent = (pos - 1) div 2
           in if lt (h ! pos) (h ! parent) then sift_to_root lt parent (swap_at pos parent h) else h)"

declare sift_to_root.simps [simp del]

text \<open>
  The first loop of \<open>_siftup(heap, 0)\<close>: to a leaf, always into the smaller child; the result is
  the list and the leaf position, from which \<open>_siftdown\<close> then moves the item back up.
\<close>

function sift_to_leaf :: "('a \<Rightarrow> 'a \<Rightarrow> bool) \<Rightarrow> nat \<Rightarrow> 'a list \<Rightarrow> 'a list \<times> nat" where
  "sift_to_leaf lt pos h =
     (let child = 2 * pos + 1
      in if child < length h
         then let c = (if child + 1 < length h \<and> \<not> lt (h ! child) (h ! (child + 1))
                       then child + 1 else child)
              in sift_to_leaf lt c (swap_at pos c h)
         else (h, pos))"
  by pat_completeness auto
termination
  by (relation "measure (\<lambda>(lt, pos, h). length h - pos)") (auto split: if_splits)

declare sift_to_leaf.simps [simp del]

definition heappush :: "('a \<Rightarrow> 'a \<Rightarrow> bool) \<Rightarrow> 'a list \<Rightarrow> 'a \<Rightarrow> 'a list" where
  "heappush lt h x = sift_to_root lt (length h) (h @ [x])"

definition heappop :: "('a \<Rightarrow> 'a \<Rightarrow> bool) \<Rightarrow> 'a list \<Rightarrow> ('a \<times> 'a list) res" where
  "heappop lt h =
     (if h = [] then Inl IndexError
      else let lastelt = last h; h' = butlast h
           in if h' = [] then Inr (lastelt, [])
              else let (h1, pos) = sift_to_leaf lt 0 (h'[0 := lastelt])
                   in Inr (hd h', sift_to_root lt pos h1))"

section \<open>The heap holds what was pushed\<close>

lemma sift_to_root_mset: "pos < length h \<Longrightarrow> mset (sift_to_root lt pos h) = mset h"
proof (induction lt pos h rule: sift_to_root.induct)
  case (1 lt pos h)
  then show ?case
    by (auto simp: sift_to_root.simps [of lt pos h] Let_def mset_swap_at)
qed

lemma sift_to_leaf_mset:
  "pos < length h \<Longrightarrow>
   mset (fst (sift_to_leaf lt pos h)) = mset h \<and> snd (sift_to_leaf lt pos h) < length h"
proof (induction lt pos h rule: sift_to_leaf.induct)
  case (1 lt pos h)
  show ?case
  proof (cases "2 * pos + 1 < length h")
    case False
    then show ?thesis using 1 by (simp add: sift_to_leaf.simps [of lt pos h] Let_def)
  next
    case True
    define c where "c = (if 2 * pos + 1 + 1 < length h \<and> \<not> lt (h ! (2 * pos + 1)) (h ! (2 * pos + 1 + 1))
      then 2 * pos + 1 + 1 else 2 * pos + 1)"
    have c: "c < length h" using True by (simp add: c_def)
    have step: "sift_to_leaf lt pos h = sift_to_leaf lt c (swap_at pos c h)"
      using True by (simp add: sift_to_leaf.simps [of lt pos h] Let_def c_def)
    have "mset (fst (sift_to_leaf lt c (swap_at pos c h))) = mset (swap_at pos c h) \<and>
      snd (sift_to_leaf lt c (swap_at pos c h)) < length (swap_at pos c h)"
      using "1.IH" [OF refl True c_def] c by simp
    then show ?thesis using step c \<open>pos < length h\<close> by (simp add: mset_swap_at)
  qed
qed

lemma mset_heappush [simp]: "mset (heappush lt h x) = add_mset x (mset h)"
  by (simp add: heappush_def sift_to_root_mset)

lemma length_heappush [simp]: "length (heappush lt h x) = Suc (length h)"
  by (metis mset_heappush size_add_mset size_mset)

lemma heappop_Inr:
  assumes "h \<noteq> []"
  obtains x h' where "heappop lt h = Inr (x, h')" "mset h = add_mset x (mset h')"
    "length h = Suc (length h')"
proof (cases "butlast h = []")
  case True
  then have "h = [last h]" using assms by (metis append_butlast_last_id append_Nil)
  then have "mset h = add_mset (last h) (mset [])" "length h = Suc (length [])"
    by (metis mset.simps list.size(3,4) One_nat_def add.commute plus_1_eq_Suc)+
  then show ?thesis using True assms that [of "last h" "[]"] by (simp add: heappop_def Let_def)
next
  case False
  define h0 where "h0 = (butlast h)[0 := last h]"
  obtain h1 pos where h1: "sift_to_leaf lt 0 h0 = (h1, pos)" by fastforce
  have "0 < length h0"
    using False by (simp only: h0_def length_list_update length_greater_0_conv not_False_eq_True)
  then have m1: "mset h1 = mset h0" and pos: "pos < length h1"
    using sift_to_leaf_mset [of 0 h0 lt] h1 by (simp_all) (metis size_mset)
  let ?h' = "sift_to_root lt pos h1"
  have pop: "heappop lt h = Inr (hd (butlast h), ?h')"
    using assms False h1 by (simp add: heappop_def Let_def h0_def)
  obtain y ys where bl: "butlast h = y # ys" using False by (cases "butlast h") auto
  have "h = (y # ys) @ [last h]" using assms bl by (metis append_butlast_last_id)
  then have mh: "mset h = add_mset y (mset (ys @ [last h]))"
    by (metis append_Cons mset.simps(2))
  have "mset ?h' = mset h0" using sift_to_root_mset [OF pos] m1 by simp
  also have "\<dots> = mset (ys @ [last h])" by (simp add: h0_def bl)
  finally have "mset h = add_mset (hd (butlast h)) (mset ?h')" using mh bl by simp
  moreover from this have "length h = Suc (length ?h')" by (metis size_add_mset size_mset)
  ultimately show ?thesis using pop that by blast
qed

lemma heappop_eq_Inr:
  assumes "heappop lt h = Inr (x, h')"
  shows "mset h = add_mset x (mset h') \<and> length h = Suc (length h')"
proof -
  have "h \<noteq> []" using assms by (auto simp: heappop_def)
  then obtain y h'' where "heappop lt h = Inr (y, h'')" "mset h = add_mset y (mset h'')"
    "length h = Suc (length h'')" by (rule heappop_Inr)
  then show ?thesis using assms by simp
qed

end
