(* ===== verification/SeqlenBalancing.thy ===== *)
theory SeqlenBalancing
  imports Heapq Complex_Main "HOL-Library.Product_Lexorder" "HOL-Library.List_Lexorder"
begin

text \<open>
  \<open>verl/utils/seqlen_balancing.py\<close>: the Karmarkar-Karp and greedy partitioners, the checked
  entry point, the micro-batch rearrangement built on it and the inverse index map that restores
  the batch order. Sequence lengths are Python integers (\<open>int\<close>), indices and partition counts
  are \<open>nat\<close>; a \<open>TensorDict\<close> is the list of its rows.
\<close>

section \<open>Workload\<close>

definition calculate_workload :: "int \<Rightarrow> int" where
  "calculate_workload seqlen = 24576 * seqlen + seqlen ^ 2"

definition ceildiv :: "int \<Rightarrow> int \<Rightarrow> int res" where
  "ceildiv a b = (if b = 0 then Inl ZeroDivisionError else Inr (- (a div (- b))))"

definition roundup_divisible :: "int \<Rightarrow> int \<Rightarrow> int res" where
  "roundup_divisible a b =
     (if b = 0 then Inl ZeroDivisionError else Inr (((a + b - 1) div b) * b))"

section \<open>Sets and states of the differencing method\<close>

record kk_set =
  kk_sum :: int
  kk_items :: "(nat \<times> int) list"

definition kk_empty :: kk_set where
  "kk_empty = \<lparr>kk_sum = 0, kk_items = []\<rparr>"

definition kk_add :: "kk_set \<Rightarrow> nat \<times> int \<Rightarrow> kk_set" where
  "kk_add s it = s\<lparr>kk_items := kk_items s @ [it], kk_sum := kk_sum s + snd it\<rparr>"

definition kk_merge :: "kk_set \<Rightarrow> kk_set \<Rightarrow> kk_set" where
  "kk_merge s other = fold (\<lambda>it s. kk_add s it) (kk_items other) s"

text \<open>Python compares the item lists lexicographically, and each item as a tuple \<open>(idx, val)\<close>.\<close>

definition kk_set_less :: "kk_set \<Rightarrow> kk_set \<Rightarrow> bool" where
  "kk_set_less a b =
     (if kk_sum a \<noteq> kk_sum b then kk_sum a < kk_sum b
      else if length (kk_items a) \<noteq> length (kk_items b)
           then length (kk_items a) < length (kk_items b)
      else kk_items a < kk_items b)"

text \<open>
  A \<open>State\<close> is its \<open>sets\<close>, kept in decreasing order; \<open>k\<close> is their number. The constructor puts
  item \<open>i\<close> into set \<open>i\<close>, which raises when there are more items than sets.
\<close>

type_synonym kk_state = "kk_set list"

definition kk_state_init :: "(nat \<times> int) list \<Rightarrow> nat \<Rightarrow> kk_state res" where
  "kk_state_init items k =
     py_assert (length items = 1 \<or> length items = k)
       (if k < length items then Inl IndexError
        else Inr (py_sorted_rev kk_set_less
               (map (kk_add kk_empty) items @ replicate (k - length items) kk_empty)))"

definition kk_state_merge :: "kk_state \<Rightarrow> kk_state \<Rightarrow> kk_state" where
  "kk_state_merge s other =
     py_sorted_rev kk_set_less
       (map (\<lambda>i. kk_merge (s ! i) (other ! (length s - 1 - i))) [0..<length s])"

definition kk_spread :: "kk_state \<Rightarrow> int" where
  "kk_spread s = kk_sum (hd s) - kk_sum (last s)"

definition kk_state_less :: "kk_state \<Rightarrow> kk_state \<Rightarrow> bool" where
  "kk_state_less a b =
     (if kk_spread a \<noteq> kk_spread b then kk_spread a > kk_spread b
      else kk_set_less (hd b) (hd a))"

definition kk_partitions :: "kk_state \<Rightarrow> nat list list" where
  "kk_partitions s = map (\<lambda>x. map fst (kk_items x)) s"

section \<open>The partitioners\<close>

definition sorted_lens :: "int list \<Rightarrow> (nat \<times> int) list" where
  "sorted_lens seqlen_list =
     map (\<lambda>(l, i). (i, l)) (sort (zip seqlen_list [0..<length seqlen_list]))"

text \<open>
  The \<open>while len(states_pq) > 1\<close> loop: two pops, a merge, a push.
\<close>

function kk_loop :: "kk_state list \<Rightarrow> kk_state list" where
  "kk_loop pq =
     (if 1 < length pq then
        (case heappop kk_state_less pq of
           Inl e \<Rightarrow> pq
         | Inr (s0, pq1) \<Rightarrow>
             (case heappop kk_state_less pq1 of
                Inl e \<Rightarrow> pq
              | Inr (s1, pq2) \<Rightarrow> kk_loop (heappush kk_state_less pq2 (kk_state_merge s0 s1))))
      else pq)"
  by pat_completeness auto
termination
  by (relation "measure length") (auto dest!: heappop_eq_Inr)

declare kk_loop.simps [simp del]

definition karmarkar_karp :: "int list \<Rightarrow> nat \<Rightarrow> bool \<Rightarrow> nat list list res" where
  "karmarkar_karp seqlen_list k equal_size =
     (let n = length seqlen_list; items = sorted_lens seqlen_list in
      if equal_size \<and> k = 0 then Inl ZeroDivisionError
      else py_assert (equal_size \<longrightarrow> n mod k = 0)
        (bind_res (map_res (\<lambda>its. kk_state_init its k)
                     (if equal_size then chunks_of k items else map (\<lambda>it. [it]) items))
          (\<lambda>states.
             let pq = kk_loop (fold (\<lambda>s pq. heappush kk_state_less pq s) states [])
             in if pq = [] then Inl IndexError
                else let ps = kk_partitions (hd pq)
                     in py_assert (equal_size \<longrightarrow> (\<forall>p\<in>set ps. length p * k = n)) (Inr ps))))"

text \<open>The index of the first smallest sum, as the inner loop of the greedy partitioner finds it.\<close>

definition argmin_first :: "int list \<Rightarrow> nat" where
  "argmin_first psums =
     fold (\<lambda>j m. if psums ! j < psums ! m then j else m) [1..<length psums] 0"

fun greedy_loop :: "(int \<times> nat) list \<Rightarrow> nat list list \<Rightarrow> int list \<Rightarrow> nat list list" where
  "greedy_loop [] parts psums = parts"
| "greedy_loop ((l, i) # rest) parts psums =
     (let m = argmin_first psums
      in greedy_loop rest (parts[m := parts ! m @ [i]]) (psums[m := psums ! m + l]))"

definition greedy_partition :: "int list \<Rightarrow> nat \<Rightarrow> bool \<Rightarrow> nat list list res" where
  "greedy_partition seqlen_list k equal_size =
     (let n = length seqlen_list;
          bias = (if equal_size then sum_list seqlen_list + 1 else 0);
          items = map (\<lambda>(l, i). (l + bias, i)) (zip seqlen_list [0..<n])
      in if k = 0 \<and> items \<noteq> [] then Inl TypeError
         else let parts = greedy_loop items (replicate k []) (replicate k 0)
              in py_assert (equal_size \<longrightarrow> (\<forall>p\<in>set parts. length p * k = n)) (Inr parts))"

definition check_and_sort_partitions :: "nat \<Rightarrow> nat \<Rightarrow> nat list list \<Rightarrow> nat list list res" where
  "check_and_sort_partitions n k partitions =
     py_assert (length partitions = k)
       (py_assert (\<forall>p\<in>set partitions. 0 < length p)
          (py_assert (\<Union> (set ` set partitions) = set [0..<n]) (Inr (map sort partitions))))"

definition get_seqlen_balanced_partitions :: "int list \<Rightarrow> nat \<Rightarrow> bool \<Rightarrow> nat list list res" where
  "get_seqlen_balanced_partitions seqlen_list k equal_size =
     py_assert (k \<le> length seqlen_list)
       (bind_res (karmarkar_karp seqlen_list k equal_size)
          (check_and_sort_partitions (length seqlen_list) k))"

section \<open>Karmarkar-Karp: the state invariant\<close>

lemma weak_order_kk_set_less: "weak_order kk_set_less"
  unfolding weak_order_def kk_set_less_def by (auto split: if_splits)

definition kk_set_ok :: "kk_set \<Rightarrow> bool" where
  "kk_set_ok x \<longleftrightarrow> kk_sum x = sum_list (map snd (kk_items x)) \<and> (\<forall>it\<in>set (kk_items x). 0 \<le> snd it)"

definition kk_inv :: "nat \<Rightarrow> kk_state \<Rightarrow> bool" where
  "kk_inv k s \<longleftrightarrow> length s = k \<and> (\<forall>x\<in>set s. kk_set_ok x) \<and>
     sorted_wrt (\<lambda>a b. \<not> kk_set_less a b) s \<and>
     ((\<forall>x\<in>set s. kk_items x \<noteq> []) \<or> (\<forall>x\<in>set s. length (kk_items x) \<le> 1))"

definition kk_state_items :: "kk_state \<Rightarrow> (nat \<times> int) multiset" where
  "kk_state_items s = mset (concat (map kk_items s))"

lemma kk_add_items [simp]: "kk_items (kk_add s it) = kk_items s @ [it]"
  by (simp add: kk_add_def)

lemma kk_add_sum [simp]: "kk_sum (kk_add s it) = kk_sum s + snd it"
  by (simp add: kk_add_def)

lemma kk_merge_items [simp]: "kk_items (kk_merge s t) = kk_items s @ kk_items t"
proof -
  have "kk_items (fold (\<lambda>it s. kk_add s it) its s) = kk_items s @ its" for its s
    by (induction its arbitrary: s) simp_all
  then show ?thesis by (simp add: kk_merge_def)
qed

lemma kk_merge_sum [simp]: "kk_sum (kk_merge s t) = kk_sum s + sum_list (map snd (kk_items t))"
proof -
  have "kk_sum (fold (\<lambda>it s. kk_add s it) its s) = kk_sum s + sum_list (map snd its)" for its s
    by (induction its arbitrary: s) simp_all
  then show ?thesis by (simp add: kk_merge_def)
qed

lemma kk_set_ok_merge: "kk_set_ok x \<Longrightarrow> kk_set_ok y \<Longrightarrow> kk_set_ok (kk_merge x y)"
  by (auto simp: kk_set_ok_def)

lemma kk_set_ok_sum_nonneg: "kk_set_ok x \<Longrightarrow> 0 \<le> kk_sum x"
  unfolding kk_set_ok_def by (auto intro!: sum_list_nonneg)

text \<open>In a decreasing state of non-negative items the empty sets come last.\<close>

lemma kk_nonempty_before:
  assumes "kk_inv k s" "i \<le> j" "j < k" "kk_items (s ! j) \<noteq> []"
  shows "kk_items (s ! i) \<noteq> []"
proof (cases "i = j")
  case True
  with assms show ?thesis by simp
next
  case False
  show ?thesis
  proof
    assume e: "kk_items (s ! i) = []"
    have ij: "i < j" "j < length s" using False assms by (auto simp: kk_inv_def)
    then have ok: "kk_set_ok (s ! i)" "kk_set_ok (s ! j)"
      using assms(1) by (auto simp: kk_inv_def)
    have "\<not> kk_set_less (s ! i) (s ! j)"
      using assms(1) ij by (auto simp: kk_inv_def sorted_wrt_iff_nth_less)
    moreover have "kk_sum (s ! i) = 0" using ok(1) e by (simp add: kk_set_ok_def)
    moreover have "0 \<le> kk_sum (s ! j)" using ok(2) by (rule kk_set_ok_sum_nonneg)
    ultimately show False using e assms(4) by (auto simp: kk_set_less_def split: if_splits)
  qed
qed

lemma kk_state_init_inv:
  assumes "length its = 1 \<or> length its = k" "0 < k" "\<forall>it\<in>set its. 0 \<le> snd it"
  obtains s where "kk_state_init its k = Inr s" "kk_inv k s" "kk_state_items s = mset its"
    "length its = k \<Longrightarrow> \<forall>x\<in>set s. length (kk_items x) = 1"
proof -
  have le: "length its \<le> k" using assms by auto
  define raw where "raw = map (kk_add kk_empty) its @ replicate (k - length its) kk_empty"
  define s where "s = py_sorted_rev kk_set_less raw"
  have init: "kk_state_init its k = Inr s"
    using assms le by (auto simp: kk_state_init_def s_def raw_def)
  have set_s: "set s = set raw" by (simp add: s_def)
  have raw_items: "\<forall>x\<in>set raw. length (kk_items x) \<le> 1 \<and> kk_set_ok x"
    using assms(3) by (auto simp: raw_def kk_empty_def kk_set_ok_def)
  have "kk_inv k s"
    unfolding kk_inv_def
  proof (intro conjI)
    show "length s = k" using le by (simp add: s_def raw_def)
    show "\<forall>x\<in>set s. kk_set_ok x" using raw_items set_s by auto
    show "sorted_wrt (\<lambda>a b. \<not> kk_set_less a b) s"
      unfolding s_def by (rule sorted_py_sorted_rev [OF weak_order_kk_set_less])
    show "(\<forall>x\<in>set s. kk_items x \<noteq> []) \<or> (\<forall>x\<in>set s. length (kk_items x) \<le> 1)"
      using raw_items set_s by auto
  qed
  moreover have "kk_state_items s = mset its"
  proof -
    have "kk_state_items s = mset (concat (map kk_items raw))"
      unfolding kk_state_items_def mset_concat by (simp add: s_def flip: sum_mset_sum_list)
    also have "\<dots> = mset its"
      by (simp add: raw_def kk_empty_def comp_def map_replicate_const) 
    finally show ?thesis .
  qed
  moreover have "\<forall>x\<in>set s. length (kk_items x) = 1" if "length its = k"
    using that by (auto simp: set_s raw_def kk_empty_def)
  ultimately show thesis using init that by blast
qed

lemma kk_state_merge_set:
  "set (kk_state_merge s t) = (\<lambda>i. kk_merge (s ! i) (t ! (length s - 1 - i))) ` {..<length s}"
  by (auto simp: kk_state_merge_def)

lemma kk_state_items_py_sorted_rev:
  "kk_state_items (py_sorted_rev lt xs) = kk_state_items xs"
  unfolding kk_state_items_def mset_concat by (simp flip: sum_mset_sum_list)

lemma rev_map_upt: "map (\<lambda>i. f (t ! (length t - 1 - i))) [0..<length t] = map f (rev t)"
  by (rule nth_equalityI) (simp_all add: rev_nth)

lemma map_upt_nth: "map (\<lambda>i. f (s ! i)) [0..<length s] = map f s"
  by (rule nth_equalityI) simp_all

lemma kk_state_items_alt: "kk_state_items s = sum_list (map (\<lambda>x. mset (kk_items x)) s)"
  by (simp add: kk_state_items_def mset_concat comp_def)

lemma kk_state_items_merge:
  assumes "length t = length s"
  shows "kk_state_items (kk_state_merge s t) = kk_state_items s + kk_state_items t"
proof -
  let ?f = "\<lambda>x. mset (kk_items x)"
  have "kk_state_items (kk_state_merge s t) =
      sum_list (map (\<lambda>i. ?f (s ! i) + ?f (t ! (length t - 1 - i))) [0..<length s])"
    unfolding kk_state_merge_def kk_state_items_py_sorted_rev
    by (simp add: kk_state_items_alt comp_def assms)
  also have "\<dots> = sum_list (map (\<lambda>i. ?f (s ! i)) [0..<length s]) +
      sum_list (map (\<lambda>i. ?f (t ! (length t - 1 - i))) [0..<length t])"
    unfolding assms by (rule sum_list_addf)
  also have "\<dots> = sum_list (map ?f s) + sum_list (map ?f (rev t))"
    unfolding map_upt_nth [of ?f s] rev_map_upt [of ?f t] ..
  also have "sum_list (map ?f (rev t)) = sum_list (map ?f t)"
    by (simp add: rev_map [symmetric] sum_list_rev)
  finally show ?thesis by (simp add: kk_state_items_alt)
qed

lemma kk_state_merge_shape:
  assumes "kk_inv k s" "kk_inv k t"
  shows "(\<forall>x\<in>set (kk_state_merge s t). kk_items x \<noteq> []) \<or>
    (\<forall>x\<in>set (kk_state_merge s t). length (kk_items x) \<le> 1)"
proof -
  have len: "length s = k" "length t = k" using assms by (auto simp: kk_inv_def)
  have items: "set (kk_state_merge s t) = (\<lambda>i. kk_merge (s ! i) (t ! (k - 1 - i))) ` {..<k}"
    using len by (simp add: kk_state_merge_set)
  consider (full_s) "\<forall>x\<in>set s. kk_items x \<noteq> []" | (full_t) "\<forall>x\<in>set t. kk_items x \<noteq> []"
    | (small) "\<forall>x\<in>set s. length (kk_items x) \<le> 1" "\<forall>x\<in>set t. length (kk_items x) \<le> 1"
    using assms by (auto simp: kk_inv_def)
  then show ?thesis
  proof cases
    case full_s
    then show ?thesis using len by (simp add: items)
  next
    case full_t
    then have "\<forall>i<k. kk_items (t ! (k - 1 - i)) \<noteq> []" using len by simp
    then show ?thesis by (simp add: items)
  next
    case small
    show ?thesis
    proof (cases "\<exists>i<k. kk_items (s ! i) \<noteq> [] \<and> kk_items (t ! (k - 1 - i)) \<noteq> []")
      case True
      then obtain i where i: "i < k" "kk_items (s ! i) \<noteq> []" "kk_items (t ! (k - 1 - i)) \<noteq> []"
        by blast
      have "kk_items (s ! j) \<noteq> [] \<or> kk_items (t ! (k - 1 - j)) \<noteq> []" if "j < k" for j
      proof (cases "j \<le> i")
        case True
        then show ?thesis using kk_nonempty_before [OF assms(1) _ \<open>i < k\<close> i(2)] by blast
      next
        case False
        then have "kk_items (t ! (k - 1 - j)) \<noteq> []"
          using kk_nonempty_before [OF assms(2) _ _ i(3), of "k - 1 - j"] i(1) by simp
        then show ?thesis ..
      qed
      then show ?thesis by (simp add: items)
    next
      case False
      have "length (kk_items (s ! i)) \<le> 1" "length (kk_items (t ! (k - 1 - i))) \<le> 1" if "i < k" for i
        using small len that by simp_all
      then have "length (kk_items (s ! i)) + length (kk_items (t ! (k - 1 - i))) \<le> 1" if "i < k" for i
        using False that by (metis One_nat_def add.right_neutral add_0 list.size(3))
      then show ?thesis by (simp add: items)
    qed
  qed
qed

lemma kk_state_merge_inv:
  assumes "kk_inv k s" "kk_inv k t"
  shows "kk_inv k (kk_state_merge s t)"
  unfolding kk_inv_def
proof (intro conjI)
  have len: "length s = k" "length t = k" using assms by (auto simp: kk_inv_def)
  then show "length (kk_state_merge s t) = k" by (simp add: kk_state_merge_def)
  show "\<forall>x\<in>set (kk_state_merge s t). kk_set_ok x"
    using assms len by (auto simp: kk_state_merge_set kk_inv_def intro!: kk_set_ok_merge)
  show "sorted_wrt (\<lambda>a b. \<not> kk_set_less a b) (kk_state_merge s t)"
    unfolding kk_state_merge_def by (rule sorted_py_sorted_rev [OF weak_order_kk_set_less])
  show "(\<forall>x\<in>set (kk_state_merge s t). kk_items x \<noteq> []) \<or>
    (\<forall>x\<in>set (kk_state_merge s t). length (kk_items x) \<le> 1)"
    by (rule kk_state_merge_shape [OF assms])
qed

text \<open>All sets of a state have the same size: kept by merging, and so by the loop.\<close>

definition kk_uniform :: "kk_state \<Rightarrow> bool" where
  "kk_uniform s \<longleftrightarrow> (\<exists>m. \<forall>x\<in>set s. length (kk_items x) = m)"

lemma kk_uniform_merge:
  assumes "kk_uniform s" "kk_uniform t" "length t = length s"
  shows "kk_uniform (kk_state_merge s t)"
proof -
  obtain a b where "\<forall>x\<in>set s. length (kk_items x) = a" "\<forall>x\<in>set t. length (kk_items x) = b"
    using assms by (auto simp: kk_uniform_def)
  then have "\<forall>x\<in>set (kk_state_merge s t). length (kk_items x) = a + b"
    using assms(3) by (auto simp: kk_state_merge_set)
  then show ?thesis by (auto simp: kk_uniform_def)
qed

lemma kk_loop_correct:
  assumes "pq \<noteq> []" "\<forall>s\<in>set pq. kk_inv k s" "eq \<longrightarrow> (\<forall>s\<in>set pq. kk_uniform s)"
  obtains s where "kk_loop pq = [s]" "kk_inv k s" "eq \<longrightarrow> kk_uniform s"
    "kk_state_items s = (\<Sum>s\<in>#mset pq. kk_state_items s)"
proof -
  have "\<exists>s. kk_loop pq = [s] \<and> kk_inv k s \<and> (eq \<longrightarrow> kk_uniform s) \<and>
    kk_state_items s = (\<Sum>s\<in>#mset pq. kk_state_items s)"
    using assms
  proof (induction pq rule: kk_loop.induct)
    case (1 pq)
    show ?case
    proof (cases "1 < length pq")
      case False
      then obtain s where "pq = [s]" using "1.prems"(1) by (cases pq) auto
      then show ?thesis using "1.prems" by (simp add: kk_loop.simps)
    next
      case True
      obtain s0 pq1 where p0: "heappop kk_state_less pq = Inr (s0, pq1)"
        "mset pq = add_mset s0 (mset pq1)" "length pq = Suc (length pq1)"
        using "1.prems"(1) by (rule heappop_Inr)
      have "pq1 \<noteq> []" using True p0(3) by auto
      then obtain s1 pq2 where p1: "heappop kk_state_less pq1 = Inr (s1, pq2)"
        "mset pq1 = add_mset s1 (mset pq2)" by (rule heappop_Inr)
      let ?m = "kk_state_merge s0 s1" and ?pq = "heappush kk_state_less pq2 (kk_state_merge s0 s1)"
      have elems: "set_mset (mset pq) = insert s0 (insert s1 (set pq2))" using p0(2) p1(2) by simp
      then have sets: "set pq = insert s0 (insert s1 (set pq2))" by simp
      have "set_mset (mset ?pq) = insert ?m (set pq2)" by simp
      then have sets': "set ?pq = insert ?m (set pq2)" by (simp only: set_mset_mset)
      have inv: "kk_inv k s0" "kk_inv k s1" using "1.prems"(2) sets by auto
      then have lens: "length s1 = length s0" by (simp add: kk_inv_def)
      have step: "kk_loop pq = kk_loop ?pq"
        using True p0(1) p1(1) by (simp add: kk_loop.simps [of pq])
      have "?pq \<noteq> []" using sets' by auto
      moreover have "\<forall>s\<in>set ?pq. kk_inv k s"
        using "1.prems"(2) sets sets' kk_state_merge_inv [OF inv] by auto
      moreover have "eq \<longrightarrow> (\<forall>s\<in>set ?pq. kk_uniform s)"
        using "1.prems"(3) sets sets' kk_uniform_merge [OF _ _ lens] by auto
      ultimately obtain s where s: "kk_loop ?pq = [s]" "kk_inv k s" "eq \<longrightarrow> kk_uniform s"
        "kk_state_items s = (\<Sum>s\<in>#mset ?pq. kk_state_items s)"
        using "1.IH" [OF True p0(1) refl p1(1) refl] by blast
      have "(\<Sum>s\<in>#mset ?pq. kk_state_items s) = (\<Sum>s\<in>#mset pq. kk_state_items s)"
        using p0(2) p1(2) by (simp add: kk_state_items_merge [OF lens])
      then show ?thesis using s step by auto
    qed
  qed
  then show thesis using that by blast
qed

section \<open>The contract of a partitioner\<close>

text \<open>
  What the callers rely on: for non-negative values and \<open>1 \<le> k \<le> n\<close> (and \<open>k\<close> dividing \<open>n\<close> when
  equal sizes are asked for) a partitioner returns \<open>k\<close> lists that hold every index once.
\<close>

definition partition_input :: "int list \<Rightarrow> nat \<Rightarrow> bool \<Rightarrow> bool" where
  "partition_input w k eq \<longleftrightarrow>
     0 < k \<and> k \<le> length w \<and> (\<forall>l\<in>set w. 0 \<le> l) \<and> (eq \<longrightarrow> length w mod k = 0)"

definition is_partition :: "nat \<Rightarrow> nat \<Rightarrow> bool \<Rightarrow> nat list list \<Rightarrow> bool" where
  "is_partition n k eq ps \<longleftrightarrow>
     length ps = k \<and> is_index_perm n (concat ps) \<and> (eq \<longrightarrow> (\<forall>p\<in>set ps. length p = n div k))"

locale partitioner =
  fixes part :: "int list \<Rightarrow> nat \<Rightarrow> bool \<Rightarrow> nat list list res"
  assumes part_correct:
    "partition_input w k eq \<Longrightarrow> \<exists>ps. part w k eq = Inr ps \<and> is_partition (length w) k eq ps"

locale nonempty_partitioner = partitioner +
  assumes part_nonempty: "partition_input w k eq \<Longrightarrow> part w k eq = Inr ps \<Longrightarrow> [] \<notin> set ps"
begin

lemma check_and_sort_succeeds:
  assumes "partition_input w k eq"
  obtains ps where "part w k eq = Inr ps" "is_partition (length w) k eq ps" "[] \<notin> set ps"
    "bind_res (part w k eq) (check_and_sort_partitions (length w) k) = Inr (map sort ps)"
proof -
  obtain ps where ps: "part w k eq = Inr ps" "is_partition (length w) k eq ps"
    using part_correct [OF assms] by blast
  have ne: "[] \<notin> set ps" by (rule part_nonempty [OF assms ps(1)])
  have "\<Union> (set ` set ps) = {..<length w}"
    using ps(2) index_perm_set by (metis is_partition_def set_concat)
  then have "check_and_sort_partitions (length w) k ps = Inr (map sort ps)"
    using ps(2) ne by (auto simp: check_and_sort_partitions_def is_partition_def py_assert_def)
  then show thesis using that ps ne by simp
qed

end

lemma mset_concat_map_sort: "mset (concat (map sort ps)) = mset (concat ps)"
  by (simp add: mset_concat comp_def)

lemma is_partition_map_sort: "is_partition n k eq ps \<Longrightarrow> is_partition n k eq (map sort ps)"
  by (auto simp: is_partition_def is_index_perm_def mset_concat_map_sort)

subsection \<open>Karmarkar-Karp\<close>

lemma sorted_lens_idx: "mset (map fst (sorted_lens w)) = mset [0..<length w]"
proof -
  have "map fst (sorted_lens w) = map snd (sort (zip w [0..<length w]))"
    by (simp add: sorted_lens_def comp_def case_prod_beta)
  then have "mset (map fst (sorted_lens w)) = mset (map snd (zip w [0..<length w]))"
    by (simp only: mset_map mset_sort)
  then show ?thesis by (simp only: map_snd_zip length_upt diff_zero)
qed

lemma length_sorted_lens [simp]: "length (sorted_lens w) = length w"
  by (simp add: sorted_lens_def)

lemma sorted_lens_vals: "it \<in> set (sorted_lens w) \<Longrightarrow> snd it \<in> set w"
  by (auto simp: sorted_lens_def dest: set_zip_leftD)

lemma set_fold_heappush:
  "mset (fold (\<lambda>s pq. heappush lt pq s) xs h) = mset xs + mset h"
  by (induction xs arbitrary: h) simp_all

lemma kk_state_sizes: "size (kk_state_items s) = sum_list (map (\<lambda>x. length (kk_items x)) s)"
  by (simp add: kk_state_items_def length_concat comp_def)

lemma kk_final_nonempty:
  assumes "kk_inv k s" "k \<le> size (kk_state_items s)" "x \<in> set s"
  shows "kk_items x \<noteq> []"
proof (cases "\<forall>x\<in>set s. kk_items x \<noteq> []")
  case True
  then show ?thesis using assms(3) by blast
next
  case False
  then have small: "\<forall>x\<in>set s. length (kk_items x) \<le> 1" using assms(1) by (auto simp: kk_inv_def)
  show ?thesis
  proof
    assume e: "kk_items x = []"
    obtain as bs where s: "s = as @ x # bs" using assms(3) by (meson split_list)
    have bound: "(\<And>y. y \<in> set ys \<Longrightarrow> length (kk_items y) \<le> 1) \<Longrightarrow>
      sum_list (map (\<lambda>x. length (kk_items x)) ys) \<le> length ys" for ys
      by (induction ys) fastforce+
    have "sum_list (map (\<lambda>x. length (kk_items x)) as) \<le> length as"
      "sum_list (map (\<lambda>x. length (kk_items x)) bs) \<le> length bs"
      using small s by (auto intro!: bound)
    then have "size (kk_state_items s) < length s"
      using e by (simp add: kk_state_sizes s)
    then show False using assms(1,2) by (simp add: kk_inv_def)
  qed
qed

lemma kk_final_uniform:
  assumes "kk_uniform s" "length s = k" "p \<in> set (kk_partitions s)"
  shows "length p * k = size (kk_state_items s)"
proof -
  obtain m where m: "\<forall>x\<in>set s. length (kk_items x) = m" using assms(1) by (auto simp: kk_uniform_def)
  then have "map (\<lambda>x. length (kk_items x)) s = replicate k m"
    using assms(2) by (auto intro: replicate_eqI)
  then have "size (kk_state_items s) = k * m" by (simp add: kk_state_sizes sum_list_replicate)
  moreover have "length p = m" using assms(3) m by (auto simp: kk_partitions_def)
  ultimately show ?thesis by simp
qed

lemma karmarkar_karp_partition:
  assumes "partition_input w k eq"
  obtains ps where "karmarkar_karp w k eq = Inr ps" "is_partition (length w) k eq ps" "[] \<notin> set ps"
proof -
  let ?n = "length w" and ?items = "sorted_lens w"
  have k: "0 < k" "k \<le> ?n" and eqk: "eq \<longrightarrow> ?n mod k = 0" and nonneg: "\<forall>l\<in>set w. 0 \<le> l"
    using assms by (auto simp: partition_input_def)
  define groups where "groups = (if eq then chunks_of k ?items else map (\<lambda>it. [it]) ?items)"
  have conc: "concat groups = ?items"
    using k by (simp add: groups_def concat_chunks_of concat_map_singleton)
  have lens: "length g = (if eq then k else 1)" if g: "g \<in> set groups" for g
  proof (cases eq)
    case True
    then show ?thesis using g eqk k chunks_of_all_full [of k ?items g] by (simp add: groups_def)
  next
    case False
    then show ?thesis using g by (auto simp: groups_def)
  qed
  define init where "init = (\<lambda>g. projr (kk_state_init g k))"
  have gnn: "\<forall>it\<in>set g. 0 \<le> snd it" if "g \<in> set groups" for g
    using that conc nonneg sorted_lens_vals by (metis (no_types) UN_I set_concat)
  have one: "kk_state_init g k = Inr (init g) \<and> kk_inv k (init g) \<and>
      kk_state_items (init g) = mset g \<and> (eq \<longrightarrow> kk_uniform (init g))" if g: "g \<in> set groups" for g
  proof -
    obtain s where "kk_state_init g k = Inr s" "kk_inv k s" "kk_state_items s = mset g"
      "length g = k \<Longrightarrow> \<forall>x\<in>set s. length (kk_items x) = 1"
      using kk_state_init_inv [of g k] lens [OF g] k(1) gnn [OF g] by (metis (full_types))
    then show ?thesis using lens [OF g] by (auto simp: init_def kk_uniform_def)
  qed
  have states: "map_res (\<lambda>g. kk_state_init g k) groups = Inr (map init groups)"
    using one by (intro map_res_Inr) auto
  define pq where "pq = fold (\<lambda>s pq. heappush kk_state_less pq s) (map init groups) []"
  have mpq: "mset pq = mset (map init groups)" unfolding pq_def set_fold_heappush by simp
  then have spq: "set pq = init ` set groups" by (metis list.set_map set_mset_mset)
  have "groups \<noteq> []" using conc k by (metis concat.simps(1) le_zero_eq length_sorted_lens less_irrefl list.size(3))
  then have "pq \<noteq> []" using mpq by auto
  moreover have "\<forall>s\<in>set pq. kk_inv k s" "eq \<longrightarrow> (\<forall>s\<in>set pq. kk_uniform s)"
    using one spq by auto
  ultimately obtain s where s: "kk_loop pq = [s]" "kk_inv k s" "eq \<longrightarrow> kk_uniform s"
    "kk_state_items s = (\<Sum>s\<in>#mset pq. kk_state_items s)" by (rule kk_loop_correct)
  have "(\<Sum>s\<in>#mset pq. kk_state_items s) = sum_list (map mset groups)"
    unfolding mpq using one by (simp add: sum_mset_sum_list comp_def flip: mset_map) (metis (mono_tags, lifting) map_eq_conv)
  then have items: "kk_state_items s = mset ?items" using s(4) conc by (metis mset_concat)
  then have size: "size (kk_state_items s) = ?n" by simp
  let ?ps = "kk_partitions s"
  have lenps: "length ?ps = k" using s(2) by (simp add: kk_partitions_def kk_inv_def)
  have unif: "eq \<longrightarrow> (\<forall>p\<in>set ?ps. length p * k = ?n)"
    using kk_final_uniform [of s k] s(2,3) size by (auto simp: kk_inv_def)
  have kk: "karmarkar_karp w k eq = Inr ?ps"
    using k eqk states s(1) unif
    by (simp add: karmarkar_karp_def Let_def flip: groups_def pq_def)
  have "concat ?ps = map fst (concat (map kk_items s))"
    by (simp add: kk_partitions_def map_concat comp_def)
  then have "is_index_perm ?n (concat ?ps)"
    using items sorted_lens_idx [of w] unfolding is_index_perm_def kk_state_items_def
    by (simp only: mset_map)
  moreover have "eq \<longrightarrow> (\<forall>p\<in>set ?ps. length p = ?n div k)"
    using unif k(1) by (metis nonzero_mult_div_cancel_right less_numeral_extra(3))
  ultimately have "is_partition ?n k eq ?ps"
    using lenps by (simp add: is_partition_def)
  moreover have "[] \<notin> set ?ps"
    using kk_final_nonempty [OF s(2)] size k(2) by (auto simp: kk_partitions_def)
  ultimately show thesis using kk by (intro that)
qed

interpretation kk: nonempty_partitioner karmarkar_karp
proof unfold_locales
  fix w k eq
  assume "partition_input w k eq"
  then show "\<exists>ps. karmarkar_karp w k eq = Inr ps \<and> is_partition (length w) k eq ps"
    by (rule karmarkar_karp_partition) blast
next
  fix w k eq ps
  assume "partition_input w k eq" "karmarkar_karp w k eq = Inr ps"
  then show "[] \<notin> set ps"
    by (metis karmarkar_karp_partition sum.inject(2))
qed

subsection \<open>The greedy partitioner\<close>

lemma argmin_first_least:
  assumes "psums \<noteq> []"
  shows "argmin_first psums < length psums \<and> (\<forall>j<length psums. psums ! argmin_first psums \<le> psums ! j)"
proof -
  let ?step = "\<lambda>j m. if psums ! j < psums ! m then j else m"
  have "n < length psums \<Longrightarrow> fold ?step [1..<Suc n] 0 < Suc n \<and>
      (\<forall>j<Suc n. psums ! fold ?step [1..<Suc n] 0 \<le> psums ! j)" for n
  proof (induction n)
    case 0
    then show ?case by simp
  next
    case (Suc n)
    then show ?case by (auto simp: less_Suc_eq)
  qed
  from this [of "length psums - 1"] assms show ?thesis
    by (simp add: argmin_first_def)
qed

lemma mset_concat_update:
  "m < length ps \<Longrightarrow> mset (concat (ps[m := ps ! m @ [i]])) = add_mset i (mset (concat ps))"
proof (induction ps arbitrary: m)
  case Nil
  then show ?case by simp
next
  case (Cons p ps)
  then show ?case by (cases m) auto
qed

lemma greedy_loop_perm:
  "length psums = length parts \<Longrightarrow> parts \<noteq> [] \<Longrightarrow>
   length (greedy_loop items parts psums) = length parts \<and>
   mset (concat (greedy_loop items parts psums)) = mset (map snd items) + mset (concat parts)"
proof (induction items parts psums rule: greedy_loop.induct)
  case (1 parts psums)
  then show ?case by simp
next
  case (2 l i rest parts psums)
  have m: "argmin_first psums < length parts"
    using "2.prems" argmin_first_least [of psums] by (metis length_0_conv)
  then have "length (psums[argmin_first psums := psums ! argmin_first psums + l]) =
      length (parts[argmin_first psums := parts ! argmin_first psums @ [i]])"
    "parts[argmin_first psums := parts ! argmin_first psums @ [i]] \<noteq> []" using "2.prems" by auto
  from "2.IH" [OF refl this] m show ?case
    by (simp add: Let_def mset_concat_update)
qed

text \<open>
  With the bias, the count of items dominates each sum: sum \<open>j\<close> is \<open>bias\<close> times the count plus
  a remainder that, together with all values still to come, stays below the bias. So the smallest
  sum belongs to a partition with the fewest items, and the counts never differ by more than one.
\<close>

definition greedy_inv :: "int \<Rightarrow> int list \<Rightarrow> nat list list \<Rightarrow> int list \<Rightarrow> bool" where
  "greedy_inv B rem parts psums \<longleftrightarrow>
     length psums = length parts \<and>
     (\<forall>j<length parts. 0 \<le> psums ! j - int (length (parts ! j)) * B \<and>
        psums ! j - int (length (parts ! j)) * B + sum_list rem < B) \<and>
     (\<exists>c. \<forall>j<length parts. length (parts ! j) = c \<or> length (parts ! j) = Suc c)"

lemma greedy_inv_step:
  assumes inv: "greedy_inv B (l # rem) parts psums" and ne: "parts \<noteq> []"
    and nn: "0 \<le> l" "\<forall>x\<in>set rem. 0 \<le> x"
  defines "m \<equiv> argmin_first psums"
  shows "greedy_inv B rem (parts[m := parts ! m @ [i]]) (psums[m := psums ! m + (l + B)])"
proof -
  have len: "length psums = length parts" using inv by (simp add: greedy_inv_def)
  have "psums \<noteq> []" using len ne by auto
  then have m: "m < length parts" "\<forall>j<length parts. psums ! m \<le> psums ! j"
    using argmin_first_least [of psums] len by (simp_all add: m_def)
  have rem: "0 \<le> sum_list rem" using nn(2) by (auto intro: sum_list_nonneg)
  let ?v = "\<lambda>j. psums ! j - int (length (parts ! j)) * B"
  have v: "0 \<le> ?v j" "?v j + l + sum_list rem < B" if "j < length parts" for j
    using inv that by (auto simp: greedy_inv_def)
  obtain c where c: "\<forall>j<length parts. length (parts ! j) = c \<or> length (parts ! j) = Suc c"
    using inv by (auto simp: greedy_inv_def)
  have least: "length (parts ! m) \<le> length (parts ! j)" if j: "j < length parts" for j
  proof (rule ccontr)
    assume "\<not> ?thesis"
    then have "int (length (parts ! m)) \<ge> int (length (parts ! j)) + 1" by simp
    moreover have "0 < B" using v [OF m(1)] nn(1) rem by linarith
    ultimately have "(int (length (parts ! j)) + 1) * B \<le> int (length (parts ! m)) * B"
      by (intro mult_right_mono) auto
    then have "int (length (parts ! j)) * B + B \<le> int (length (parts ! m)) * B"
      by (simp add: distrib_right)
    moreover have "psums ! m \<le> psums ! j" using m(2) j by blast
    ultimately show False using v [OF m(1)] v [OF j] nn(1) rem by linarith
  qed
  let ?parts = "parts[m := parts ! m @ [i]]"
  have cnt: "length (?parts ! j) = length (parts ! j) + (if j = m then 1 else 0)"
    if "j < length parts" for j using that m(1) by (simp add: nth_list_update)
  define c' where "c' = length (parts ! m)"
  have "length (?parts ! j) = c' \<or> length (?parts ! j) = Suc c'" if j: "j < length parts" for j
    using least [OF j] cnt [OF j] c [rule_format, OF j] c [rule_format, OF m(1)] by (auto simp: c'_def split: if_splits)
  then have "\<exists>c. \<forall>j<length ?parts. length (?parts ! j) = c \<or> length (?parts ! j) = Suc c" by auto
  moreover have "0 \<le> psums[m := psums ! m + (l + B)] ! j - int (length (?parts ! j)) * B \<and>
      psums[m := psums ! m + (l + B)] ! j - int (length (?parts ! j)) * B + sum_list rem < B"
    if j: "j < length ?parts" for j
    using v [of j] j m(1) nn(1) len by (auto simp: nth_list_update distrib_right)
  ultimately show ?thesis using len by (simp add: greedy_inv_def)
qed

lemma greedy_loop_inv:
  "greedy_inv B (map fst items) parts psums \<Longrightarrow> parts \<noteq> [] \<Longrightarrow> \<forall>x\<in>set items. 0 \<le> fst x \<Longrightarrow>
   \<exists>c. \<forall>p\<in>set (greedy_loop (map (\<lambda>(l, i). (l + B, i)) items) parts psums).
     length p = c \<or> length p = Suc c"
proof (induction items arbitrary: parts psums)
  case Nil
  then show ?case by (auto simp: greedy_inv_def all_set_conv_all_nth)
next
  case (Cons x items)
  obtain l i where x: "x = (l, i)" by fastforce
  show ?case
    using Cons.IH [OF greedy_inv_step [of B l "map fst items" parts psums i]] Cons.prems
    by (simp add: x Let_def)
qed

lemma near_equal_sizes:
  assumes "\<forall>p\<in>set ps. length p = c \<or> length p = Suc c" "length (concat ps) = m * length ps" "p \<in> set ps"
  shows "length p = m"
proof -
  let ?L = "\<lambda>qs. sum_list (map length qs)"
  have lo: "c * length qs \<le> ?L qs" if "\<forall>p\<in>set qs. length p = c \<or> length p = Suc c" for qs :: "'a list list"
    using that by (induction qs) auto
  have hi: "?L qs \<le> Suc c * length qs" if "\<forall>p\<in>set qs. length p = c \<or> length p = Suc c" for qs :: "'a list list"
    using that by (induction qs) auto
  obtain as bs where ps: "ps = as @ p # bs" using assms(3) by (meson split_list)
  have tot: "?L as + length p + ?L bs = m * (length as + 1 + length bs)"
    using assms(2) by (simp add: ps length_concat)
  have b: "c * length as \<le> ?L as" "c * length bs \<le> ?L bs" "?L as \<le> Suc c * length as"
    "?L bs \<le> Suc c * length bs" using assms(1) lo hi by (auto simp: ps)
  have p: "length p = c \<or> length p = Suc c" using assms(1,3) by blast
  let ?n = "length as + 1 + length bs"
  have low: "c * ?n \<le> m * ?n" and up: "m * ?n \<le> Suc c * ?n"
    using tot b p by (auto simp: algebra_simps)
  have "c \<le> m" "m \<le> Suc c" using low up by (simp_all only: mult_le_cancel2)
  moreover have "m \<noteq> c" if "length p = Suc c"
    using tot b that by (auto simp: algebra_simps)
  moreover have "m \<noteq> Suc c" if "length p = c"
    using tot b that by (auto simp: algebra_simps)
  ultimately show ?thesis using p by linarith
qed

lemma greedy_partition_correct:
  assumes "partition_input w k eq"
  shows "\<exists>ps. greedy_partition w k eq = Inr ps \<and> is_partition (length w) k eq ps"
proof -
  let ?n = "length w"
  have k: "0 < k" and eqk: "eq \<longrightarrow> ?n mod k = 0" and nonneg: "\<forall>l\<in>set w. 0 \<le> l"
    using assms by (auto simp: partition_input_def)
  define B where "B = (if eq then sum_list w + 1 else 0)"
  define items where "items = map (\<lambda>(l, i). (l + B, i)) (zip w [0..<?n])"
  define parts where "parts = greedy_loop items (replicate k []) (replicate k 0)"
  have "length parts = k \<and> mset (concat parts) = mset (map snd items)"
    using greedy_loop_perm [of "replicate k 0" "replicate k []" items] k by (simp add: parts_def)
  moreover have "map snd items = [0..<?n]"
    by (simp add: items_def comp_def case_prod_beta)
  ultimately have lenp: "length parts = k" and perm: "is_index_perm ?n (concat parts)"
    by (simp_all only: is_index_perm_def)
  have sizes: "length p = ?n div k" if eq "p \<in> set parts" for p
  proof -
    have fst_zip: "map fst (zip w [0..<?n]) = w" by simp
    have "greedy_inv B (map fst (zip w [0..<?n])) (replicate k []) (replicate k 0)"
      using that(1) nonneg by (simp add: greedy_inv_def B_def fst_zip)
    moreover have "\<forall>x\<in>set (zip w [0..<?n]). 0 \<le> fst x"
      using nonneg by (auto dest: set_zip_leftD)
    ultimately obtain c where "\<forall>p\<in>set parts. length p = c \<or> length p = Suc c"
      using greedy_loop_inv [of B "zip w [0..<?n]" "replicate k []" "replicate k 0"] k
      by (auto simp: parts_def items_def)
    moreover have "length (concat parts) = (?n div k) * length parts"
      using index_perm_length [OF perm] eqk that(1) lenp by auto
    ultimately show ?thesis using that(2) by (rule near_equal_sizes)
  qed
  have "eq \<longrightarrow> (\<forall>p\<in>set parts. length p * k = ?n)"
    using sizes eqk by (auto simp: mod_eq_0_iff_dvd)
  then have "greedy_partition w k eq = Inr parts"
    using k by (simp add: greedy_partition_def Let_def parts_def items_def B_def)
  then show ?thesis using lenp perm sizes by (simp add: is_partition_def)
qed

interpretation greedy: partitioner greedy_partition
  by unfold_locales (rule greedy_partition_correct)

lemma sort_eq_Nil: "[] = sort xs \<longleftrightarrow> xs = []"
  by (metis length_0_conv length_sort)

interpretation balanced: nonempty_partitioner get_seqlen_balanced_partitions
proof unfold_locales
  fix w :: "int list" and k eq
  assume inp: "partition_input w k eq"
  then obtain ps where ps: "is_partition (length w) k eq ps"
    "bind_res (karmarkar_karp w k eq) (check_and_sort_partitions (length w) k) = Inr (map sort ps)"
    by (rule kk.check_and_sort_succeeds)
  then show "\<exists>ps. get_seqlen_balanced_partitions w k eq = Inr ps \<and> is_partition (length w) k eq ps"
    using inp is_partition_map_sort [OF ps(1)]
    by (simp add: get_seqlen_balanced_partitions_def partition_input_def)
next
  fix w :: "int list" and k eq ps
  assume "get_seqlen_balanced_partitions w k eq = Inr ps"
  then obtain qs where "\<forall>p\<in>set qs. p \<noteq> []" "ps = map sort qs"
    by (auto simp: get_seqlen_balanced_partitions_def check_and_sort_partitions_def
        py_assert_eq_Inr bind_res_eq_Inr)
  then show "[] \<notin> set ps" by (auto simp: sort_eq_Nil)
qed

lemma balanced_partitions_sorted:
  "get_seqlen_balanced_partitions w k eq = Inr ps \<Longrightarrow> p \<in> set ps \<Longrightarrow> sorted p"
  by (auto simp: get_seqlen_balanced_partitions_def check_and_sort_partitions_def
      py_assert_eq_Inr bind_res_eq_Inr)

end
