(* ===== verification/MicroBatches.thy ===== *)
theory MicroBatches
  imports SeqlenBalancing
begin

text \<open>
  The callers of the partitioner in \<open>verl/utils/seqlen_balancing.py\<close>: dynamic micro-batches,
  the inverse index map that puts their outputs back into batch order, partitions that keep the
  samples of one prompt together, and the imbalance log. A \<open>TensorDict\<close> is its rows with the
  effective length of each; \<open>torch.distributed\<close> is a parameter.
\<close>

section \<open>Micro-batches\<close>

record 'r micro_input =
  mi_rows :: "'r list"
  mi_nested :: bool
  mi_mask_width :: int
  mi_seqlens :: "int list"

text \<open>\<open>xs[::2]\<close>, \<open>xs[1::2]\<close> and \<open>xs[::n]\<close>.\<close>

fun evens :: "'a list \<Rightarrow> 'a list" where
  "evens [] = []"
| "evens [x] = [x]"
| "evens (x # y # xs) = x # evens xs"

definition odds :: "'a list \<Rightarrow> 'a list" where
  "odds xs = evens (tl xs)"

definition py_step :: "nat \<Rightarrow> 'a list \<Rightarrow> 'a list" where
  "py_step n xs = map hd (chunks_of n xs)"

definition bubble_order :: "'a list \<Rightarrow> 'a list" where
  "bubble_order xs = rev (evens xs) @ odds xs"

text \<open>Sorting key of a micro-batch: its workload, then its first index.\<close>

definition partition_key :: "nat \<Rightarrow> int list \<Rightarrow> nat list \<Rightarrow> int \<times> nat" where
  "partition_key group_size workloads p =
     (if 1 < group_size
      then sum_list (map (\<lambda>i. workloads ! (i div group_size)) (py_step group_size p))
      else sum_list (map (\<lambda>i. workloads ! i) p),
      if p = [] then 0 else hd p)"

definition expand_groups :: "nat \<Rightarrow> nat list \<Rightarrow> nat list" where
  "expand_groups group_size gs =
     concat (map (\<lambda>g. [g * group_size ..< g * group_size + group_size]) gs)"

definition num_micro_batches ::
  "int \<Rightarrow> nat \<Rightarrow> int \<Rightarrow> bool \<Rightarrow> bool \<Rightarrow> (int \<Rightarrow> int) option \<Rightarrow> int option \<Rightarrow> int option \<Rightarrow> int res"
where
  "num_micro_batches total_seqlen num_groups max_token_len dist_initialized same_micro_num_in_dp
     dp_group num_batches_divided_by min_num_micro_batch =
   bind_res (ceildiv total_seqlen max_token_len) (\<lambda>c.
     let n0 = min (int num_groups) c;
         n1 = (case min_num_micro_batch of None \<Rightarrow> n0 | Some m \<Rightarrow> max m n0);
         n2 = (case dp_group of
                 Some all_reduce_max \<Rightarrow>
                   if dist_initialized \<and> same_micro_num_in_dp then all_reduce_max n1 else n1
               | None \<Rightarrow> n1)
     in (case num_batches_divided_by of
           None \<Rightarrow> Inr n2
         | Some d \<Rightarrow> roundup_divisible n2 d))"

definition max_seq_len_of :: "'r micro_input \<Rightarrow> int res" where
  "max_seq_len_of batch =
     (if mi_nested batch
      then (if mi_seqlens batch = [] then Inl ValueError else Inr (Max (set (mi_seqlens batch))))
      else Inr (mi_mask_width batch))"

definition micro_batch_indices :: "int list \<Rightarrow> nat \<Rightarrow> nat \<Rightarrow> bool \<Rightarrow> nat list list res" where
  "micro_batch_indices seqlens group_size k use_dynamic_bsz_balance =
     (let per_sample = map calculate_workload seqlens;
          workloads = (if 1 < group_size then map sum_list (chunks_of group_size per_sample)
                       else per_sample)
      in bind_res (get_seqlen_balanced_partitions workloads k False) (\<lambda>ps.
           let idx = (if 1 < group_size then map (expand_groups group_size) ps else ps)
           in Inr (if use_dynamic_bsz_balance
                   then bubble_order (py_sorted_rev
                          (\<lambda>p q. partition_key group_size workloads p < partition_key group_size workloads q) idx)
                   else idx)))"

definition rearrange_micro_batches ::
  "'r micro_input \<Rightarrow> int \<Rightarrow> bool \<Rightarrow> (int \<Rightarrow> int) option \<Rightarrow> int option \<Rightarrow> bool \<Rightarrow> int option \<Rightarrow> bool \<Rightarrow> nat
   \<Rightarrow> ('r list list \<times> nat list list) res"
where
  "rearrange_micro_batches batch max_token_len dist_initialized dp_group num_batches_divided_by
     same_micro_num_in_dp min_num_micro_batch use_dynamic_bsz_balance force_group_size =
   bind_res (max_seq_len_of batch) (\<lambda>max_seq_len.
   py_assert (max_seq_len \<le> max_token_len)
   (let seqlens = mi_seqlens batch; batch_size = length seqlens in
    if force_group_size = 0 then Inl ZeroDivisionError
    else py_assert (batch_size mod force_group_size = 0)
     (let num_groups = batch_size div force_group_size in
      bind_res (num_micro_batches (sum_list seqlens) num_groups max_token_len dist_initialized
                  same_micro_num_in_dp dp_group num_batches_divided_by min_num_micro_batch)
        (\<lambda>n. py_assert (n \<le> int num_groups)
          (bind_res (micro_batch_indices seqlens force_group_size (nat n) use_dynamic_bsz_balance)
            (\<lambda>idx. Inr (map (map (\<lambda>i. mi_rows batch ! i)) idx, idx)))))))"

section \<open>Restoring the order\<close>

definition get_reverse_idx :: "nat list \<Rightarrow> nat list res" where
  "get_reverse_idx idx_map =
     (if \<exists>j\<in>set idx_map. length idx_map \<le> j then Inl IndexError
      else Inr (fold (\<lambda>(i, j) r. r[j := i]) (zip [0..<length idx_map] idx_map) idx_map))"

definition restore_dynamic_batch :: "'r list \<Rightarrow> nat list list \<Rightarrow> 'r list res" where
  "restore_dynamic_batch data batch_idx_list =
     (let indices = concat batch_idx_list
      in py_assert (length indices = length data)
           (bind_res (get_reverse_idx indices) (\<lambda>revert. Inr (map (\<lambda>i. data ! i) revert))))"

section \<open>Partitions by prompt\<close>

text \<open>
  The grouping loop: finished groups, then the uid, indices and seqsum of the group being built.
\<close>

fun uid_groups_loop ::
  "(nat \<times> int \<times> 'u) list \<Rightarrow> (nat list \<times> int) list \<Rightarrow> 'u option \<Rightarrow> nat list \<Rightarrow> int \<Rightarrow> (nat list \<times> int) list"
where
  "uid_groups_loop [] groups cur idxs seqsum =
     (if idxs \<noteq> [] then groups @ [(idxs, seqsum)] else groups)"
| "uid_groups_loop ((i, seqlen, uid) # rest) groups cur idxs seqsum =
     (if Some uid \<noteq> cur
      then uid_groups_loop rest (if idxs \<noteq> [] then groups @ [(idxs, seqsum)] else groups)
             (Some uid) [i] seqlen
      else uid_groups_loop rest groups cur (idxs @ [i]) (seqsum + seqlen))"

definition uid_groups :: "int list \<Rightarrow> 'u list \<Rightarrow> (nat list \<times> int) list" where
  "uid_groups seqlen_list uid_list =
     uid_groups_loop (zip [0..<length seqlen_list] (zip seqlen_list uid_list)) [] None [] 0"

definition get_group_balanced_partitions :: "int list \<Rightarrow> 'u list \<Rightarrow> nat \<Rightarrow> nat list list res" where
  "get_group_balanced_partitions seqlen_list uid_list k =
     py_assert (length seqlen_list = length uid_list)
     (let groups = uid_groups seqlen_list uid_list
      in py_assert (k \<le> length groups)
        (bind_res (get_seqlen_balanced_partitions
             (map (\<lambda>g. sum_list (map (\<lambda>i. calculate_workload (seqlen_list ! i)) (fst g))) groups) k True)
          (\<lambda>gps. Inr (map (\<lambda>gp. sort (concat (map (\<lambda>g. fst (groups ! g)) gp))) gps))))"

section \<open>The imbalance log\<close>

record unbalance_log =
  ub_min :: int
  ub_max :: int
  ub_minmax_diff :: int
  ub_balanced_min :: int
  ub_balanced_max :: int
  ub_mean :: rat

definition log_seqlen_unbalance :: "int list \<Rightarrow> nat list list \<Rightarrow> unbalance_log res" where
  "log_seqlen_unbalance seqlen_list partitions =
     (if partitions = [] then Inl ZeroDivisionError
      else let batch_size = length seqlen_list div length partitions in
        if batch_size = 0 then Inl ValueError
        else let psums = map sum_list (chunks_of batch_size seqlen_list);
                 balanced = map (\<lambda>p. sum_list (map (\<lambda>i. seqlen_list ! i) p)) partitions
             in if \<exists>p\<in>set partitions. \<exists>i\<in>set p. length seqlen_list \<le> i then Inl IndexError
                else Inr \<lparr>ub_min = Min (set psums), ub_max = Max (set psums),
                     ub_minmax_diff = Max (set psums) - Min (set psums),
                     ub_balanced_min = Min (set balanced), ub_balanced_max = Max (set balanced),
                     ub_mean = of_int (sum_list psums) / of_nat (length partitions)\<rparr>)"

section \<open>The indices of the micro-batches\<close>

lemma evens_Cons: "evens (y # xs) = y # evens (tl xs)"
  by (cases xs) simp_all

lemma mset_evens: "mset (evens xs) + mset (odds xs) = mset xs"
  by (induction xs rule: evens.induct) (auto simp: odds_def evens_Cons)

lemma mset_bubble_order [simp]: "mset (bubble_order xs) = mset xs"
  using mset_evens [of xs] by (simp add: bubble_order_def)

lemma set_bubble_order [simp]: "set (bubble_order xs) = set xs"
  by (metis mset_bubble_order set_mset_mset)

lemma mset_concat_cong: "mset xss = mset yss \<Longrightarrow> mset (concat xss) = mset (concat yss)"
  by (metis mset_concat mset_map sum_mset_sum_list)

lemma mset_expand_groups:
  "mset (expand_groups g xs) = (\<Sum>x\<in>#mset xs. mset [x * g..<x * g + g])"
  by (simp only: expand_groups_def mset_concat map_map comp_def sum_mset_sum_list [symmetric] mset_map)

lemma expand_groups_upt: "expand_groups g [0..<m] = [0..<m * g]"
proof (induction m)
  case 0
  then show ?case by (simp add: expand_groups_def)
next
  case (Suc m)
  have "[0..<m * g] @ [m * g..<m * g + g] = [0..<m * g + g]"
    by (metis le_add1 less_eq_nat.simps(1) upt_add_eq_append)
  then show ?case using Suc by (simp add: expand_groups_def add.commute)
qed

lemma expand_groups_perm: "is_index_perm m xs \<Longrightarrow> is_index_perm (m * g) (expand_groups g xs)"
  unfolding is_index_perm_def by (metis expand_groups_upt mset_expand_groups)

lemma concat_map_expand_groups: "concat (map (expand_groups g) ps) = expand_groups g (concat ps)"
  by (induction ps) (simp_all add: expand_groups_def)

lemma length_expand_groups [simp]: "length (expand_groups g xs) = length xs * g"
  by (induction xs) (simp_all add: expand_groups_def)

lemma workload_nonneg: "0 \<le> l \<Longrightarrow> 0 \<le> calculate_workload l"
  by (simp add: calculate_workload_def)

lemma karmarkar_karp_zero: "karmarkar_karp w 0 False \<noteq> Inr ps"
proof (cases "sorted_lens w")
  case Nil
  then show ?thesis by (simp add: karmarkar_karp_def kk_loop.simps Let_def)
next
  case (Cons it its)
  then show ?thesis by (simp add: karmarkar_karp_def kk_state_init_def Let_def)
qed

lemma balanced_positive: "get_seqlen_balanced_partitions w k False = Inr ps \<Longrightarrow> 0 < k \<and> k \<le> length w"
  using karmarkar_karp_zero
  by (auto simp: get_seqlen_balanced_partitions_def py_assert_eq_Inr bind_res_eq_Inr intro!: gr0I)

definition group_count :: "int list \<Rightarrow> nat \<Rightarrow> nat" where
  "group_count seqlens g = length seqlens div g"

lemma micro_workloads:
  assumes "\<forall>l\<in>set seqlens. 0 \<le> l" "0 < g" "length seqlens mod g = 0"
  defines "w \<equiv> (if 1 < g then map sum_list (chunks_of g (map calculate_workload seqlens))
                else map calculate_workload seqlens)"
  shows "length w * g = length seqlens" "\<forall>l\<in>set w. 0 \<le> l"
proof -
  have nn: "\<forall>l\<in>set (map calculate_workload seqlens). 0 \<le> l" using assms(1) workload_nonneg by auto
  have "length (concat (chunks_of g (map calculate_workload seqlens))) = length seqlens"
    using assms(2) by (simp add: concat_chunks_of)
  moreover have "\<forall>c\<in>set (chunks_of g (map calculate_workload seqlens)). length c = g"
    using chunks_of_all_full [of g "map calculate_workload seqlens"] assms(2,3) by simp
  ultimately have "length (chunks_of g (map calculate_workload seqlens)) * g = length seqlens"
    by (metis length_concat_uniform)
  then show "length w * g = length seqlens" using assms(2) by (auto simp: w_def)
  have "0 \<le> sum_list c" if "c \<in> set (chunks_of g (map calculate_workload seqlens))" for c
  proof (rule sum_list_nonneg)
    fix x assume "x \<in> set c"
    then have "x \<in> set (concat (chunks_of g (map calculate_workload seqlens)))" using that by auto
    then show "0 \<le> x" using nn assms(2) by (auto simp: concat_chunks_of)
  qed
  then show "\<forall>l\<in>set w. 0 \<le> l" using nn by (auto simp: w_def)
qed

definition good_indices :: "nat \<Rightarrow> nat \<Rightarrow> nat \<Rightarrow> nat list list \<Rightarrow> bool" where
  "good_indices n g k idx \<longleftrightarrow> length idx = k \<and> is_index_perm n (concat idx) \<and> [] \<notin> set idx \<and>
     (\<forall>p\<in>set idx. \<exists>gs. p = expand_groups g gs)"

lemma expand_groups_one: "expand_groups (Suc 0) gs = gs"
  by (induction gs) (simp_all add: expand_groups_def)

lemma micro_batch_indices_correct:
  assumes nn: "\<forall>l\<in>set seqlens. 0 \<le> l" and g: "0 < g" "length seqlens mod g = 0"
    and k: "0 < k" "k * g \<le> length seqlens"
  obtains idx where "micro_batch_indices seqlens g k bal = Inr idx" "good_indices (length seqlens) g k idx"
proof -
  define w where "w = (if 1 < g then map sum_list (chunks_of g (map calculate_workload seqlens))
                else map calculate_workload seqlens)"
  have w: "length w * g = length seqlens" "\<forall>l\<in>set w. 0 \<le> l"
    using micro_workloads [OF nn g] by (simp_all add: w_def)
  have "partition_input w k False" using k w g(1) by (auto simp: partition_input_def) (metis mult_le_cancel2)
  then obtain ps where ps: "get_seqlen_balanced_partitions w k False = Inr ps"
    "is_partition (length w) k False ps" "[] \<notin> set ps"
    using balanced.part_correct balanced.part_nonempty by blast
  define idx where "idx = (if 1 < g then map (expand_groups g) ps else ps)"
  have idx: "idx = map (expand_groups g) ps"
    using g(1) expand_groups_one by (cases "g = 1") (auto simp: idx_def map_idI)
  have "good_indices (length seqlens) g k idx"
    using ps(2,3) g(1) expand_groups_perm [of "length w" "concat ps" g]
    by (auto simp: good_indices_def idx concat_map_expand_groups is_partition_def w(1))
      (metis length_0_conv length_expand_groups mult_is_0 not_less_zero)
  then have good: "good_indices (length seqlens) g k idx'" if "mset idx' = mset idx" for idx'
    using that mset_concat_cong [OF that] mset_eq_setD [OF that] mset_eq_length [OF that]
    by (simp add: good_indices_def is_index_perm_def)
  have "micro_batch_indices seqlens g k bal =
      Inr (if bal then bubble_order (py_sorted_rev (\<lambda>p q. partition_key g w p < partition_key g w q) idx)
           else idx)"
    unfolding micro_batch_indices_def Let_def w_def [symmetric] ps(1) bind_res_Inr idx_def ..
  then show thesis using that good by (cases bal) simp_all
qed

lemma micro_batch_indices_Inr:
  assumes nn: "\<forall>l\<in>set seqlens. 0 \<le> l" and g: "0 < g" "length seqlens mod g = 0"
    and idx: "micro_batch_indices seqlens g k bal = Inr idx"
  shows "good_indices (length seqlens) g k idx"
proof -
  define w where "w = (if 1 < g then map sum_list (chunks_of g (map calculate_workload seqlens))
                else map calculate_workload seqlens)"
  obtain ps where "get_seqlen_balanced_partitions w k False = Inr ps"
    using idx by (auto simp: micro_batch_indices_def Let_def bind_res_eq_Inr w_def)
  then have "0 < k" "k \<le> length w" using balanced_positive by blast+
  moreover have "length w * g = length seqlens" using micro_workloads(1) [OF nn g] by (simp add: w_def)
  ultimately have "0 < k" "k * g \<le> length seqlens" by (simp, metis mult_le_mono1)
  then show ?thesis using micro_batch_indices_correct [OF nn g] idx by (metis sum.inject(2))
qed

definition micro_input_ok :: "'r micro_input \<Rightarrow> bool" where
  "micro_input_ok b \<longleftrightarrow> length (mi_rows b) = length (mi_seqlens b) \<and> (\<forall>l\<in>set (mi_seqlens b). 0 \<le> l)"

lemma rearrange_Inr:
  assumes "micro_input_ok b"
    and "rearrange_micro_batches b ml di dp nb same mn bal g = Inr (mbs, idx)"
  shows "0 < g \<and> length (mi_seqlens b) mod g = 0 \<and> mbs = map (map (\<lambda>i. mi_rows b ! i)) idx \<and>
    good_indices (length (mi_rows b)) g (length idx) idx"
proof -
  have g: "0 < g" "length (mi_seqlens b) mod g = 0"
    using assms(2) by (auto simp: rearrange_micro_batches_def bind_res_eq_Inr py_assert_eq_Inr Let_def split: if_splits)
  obtain k where "micro_batch_indices (mi_seqlens b) g k bal = Inr idx"
    and mbs: "mbs = map (map (\<lambda>i. mi_rows b ! i)) idx"
    using assms(2) by (auto simp: rearrange_micro_batches_def bind_res_eq_Inr py_assert_eq_Inr Let_def split: if_splits)
  then have "good_indices (length (mi_rows b)) g k idx"
    using micro_batch_indices_Inr g assms(1) by (metis micro_input_ok_def)
  then show ?thesis using g mbs by (auto simp: good_indices_def)
qed

section \<open>The inverse index map\<close>

lemma reverse_fold_nth:
  "distinct xs \<Longrightarrow> \<forall>j\<in>set xs. j < length r \<Longrightarrow> i < length xs \<Longrightarrow>
   fold (\<lambda>(i, j) r. r[j := i]) (zip [s..<s + length xs] xs) r ! (xs ! i) = s + i"
proof (induction xs arbitrary: s i r)
  case Nil
  then show ?case by simp
next
  case (Cons x xs)
  have keep: "x \<notin> set ys \<Longrightarrow> fold (\<lambda>(i, j) r. r[j := i]) (zip zs ys) r ! x = r ! x" for zs ys and r :: "nat list"
    by (induction zs ys arbitrary: r rule: list_induct2') auto
  have zip: "zip [s..<s + length (x # xs)] (x # xs) = (s, x) # zip [Suc s..<Suc s + length xs] xs"
    by (simp add: upt_conv_Cons del: upt_Suc)
  show ?case
  proof (cases i)
    case 0
    then show ?thesis using Cons.prems by (simp only: zip) (simp add: keep)
  next
    case (Suc j)
    have "fold (\<lambda>(i, j) r. r[j := i]) (zip [Suc s..<Suc s + length xs] xs) (r[x := s]) ! (xs ! j) = Suc s + j"
      using Cons.prems Suc by (intro Cons.IH) auto
    then show ?thesis using Suc by (simp only: zip) simp
  qed
qed

lemma get_reverse_idx_perm:
  assumes "is_index_perm n xs"
  obtains r where "get_reverse_idx xs = Inr r" "length r = n" "\<forall>i<n. r ! (xs ! i) = i"
    "\<forall>j<n. r ! j < n \<and> xs ! (r ! j) = j"
proof -
  have len: "length xs = n" and set: "set xs = {..<n}" and dist: "distinct xs"
    using index_perm_length [OF assms] index_perm_set [OF assms] index_perm_distinct [OF assms] .
  define r where "r = fold (\<lambda>(i, j) r. r[j := i]) (zip [0..<length xs] xs) xs"
  have run: "get_reverse_idx xs = Inr r"
    using len set by (auto simp: get_reverse_idx_def r_def)
  have inv: "\<forall>i<n. r ! (xs ! i) = i"
    using reverse_fold_nth [of xs xs _ 0] len set dist by (auto simp: r_def)
  have lenr: "length r = n"
  proof -
    have "length (fold (\<lambda>(i, j) r. r[j := i]) ps (r0 :: nat list)) = length r0" for ps r0
      by (induction ps arbitrary: r0) auto
    then show ?thesis by (simp add: r_def len)
  qed
  have "r ! j < n \<and> xs ! (r ! j) = j" if "j < n" for j
  proof -
    have "j \<in> set xs" using that set by simp
    then obtain i where "i < n" "xs ! i = j" using len by (auto simp: in_set_conv_nth)
    then show ?thesis using inv by metis
  qed
  then show thesis using run lenr inv that by blast
qed

lemma restore_selected:
  assumes "is_index_perm (length rows) (concat idx)"
  shows "restore_dynamic_batch (concat (map (map (\<lambda>i. rows ! i)) idx)) idx = Inr rows"
proof -
  let ?n = "length rows" and ?xs = "concat idx"
  obtain r where r: "get_reverse_idx ?xs = Inr r" "length r = ?n"
    "\<forall>j<?n. r ! j < ?n \<and> ?xs ! (r ! j) = j"
    using get_reverse_idx_perm [OF assms] by metis
  have data: "concat (map (map (\<lambda>i. rows ! i)) idx) = map (\<lambda>i. rows ! i) ?xs"
    by (simp add: map_concat)
  have len: "length ?xs = ?n" using assms by (rule index_perm_length)
  have "map (\<lambda>i. map (\<lambda>i. rows ! i) ?xs ! i) r = rows"
    using r len by (intro nth_equalityI) auto
  then show ?thesis using r(1) unfolding data by (simp add: restore_dynamic_batch_def)
qed

section \<open>Success and the number of micro-batches\<close>

lemma ceildiv_spec:
  assumes "0 < b" "ceildiv a b = Inr c"
  shows "(c - 1) * b < a \<and> a \<le> c * b"
proof -
  have c: "c = - (a div (- b))" using assms by (simp add: ceildiv_def)
  have eq: "a = c * b + a mod (- b)"
    unfolding c by (metis div_mult_mod_eq minus_mult_commute)
  have "- b < a mod (- b)" "a mod (- b) \<le> 0"
    using assms(1) neg_mod_bound [of "- b" a] neg_mod_sign [of "- b" a] by auto
  then show ?thesis using eq by (auto simp: algebra_simps)
qed

lemma rearrange_succeeds:
  fixes b :: "'r micro_input"
  assumes ok: "micro_input_ok b" and ml: "0 < ml" "\<not> mi_nested b" "mi_mask_width b \<le> ml"
    and g: "0 < g" "length (mi_seqlens b) mod g = 0" and pos: "0 < sum_list (mi_seqlens b)"
  obtains mbs idx where "rearrange_micro_batches b ml di None None same None bal g = Inr (mbs, idx)"
    "int (length mbs) = min (int (length (mi_seqlens b) div g)) (- (sum_list (mi_seqlens b) div (- ml)))"
proof -
  let ?T = "sum_list (mi_seqlens b)" and ?G = "length (mi_seqlens b) div g"
  let ?n = "min (int ?G) (- (?T div (- ml)))"
  have ne: "mi_seqlens b \<noteq> []" using pos by auto
  have cd: "ceildiv ?T ml = Inr (- (?T div (- ml)))" using ml by (simp add: ceildiv_def)
  have "?T \<le> (- (?T div (- ml))) * ml" using ceildiv_spec [OF ml(1) cd] by blast
  then have "0 < - (?T div (- ml))" using pos ml(1) by (metis less_le_trans zero_less_mult_pos2)
  moreover have "g \<le> length (mi_seqlens b)"
    using ne g by (metis length_greater_0_conv linorder_not_less mod_less neq0_conv)
  then have "0 < ?G" using g(1) by (simp add: div_greater_zero_iff)
  ultimately have n: "0 < nat ?n" "int (nat ?n) = ?n" by auto
  have "nat ?n * g \<le> ?G * g" by (intro mult_le_mono1) auto
  also have "\<dots> = length (mi_seqlens b)" using g(2) by auto
  finally have kg: "nat ?n * g \<le> length (mi_seqlens b)" .
  obtain idx where idx: "micro_batch_indices (mi_seqlens b) g (nat ?n) bal = Inr idx"
    "good_indices (length (mi_seqlens b)) g (nat ?n) idx"
    using micro_batch_indices_correct [OF _ g n(1) kg] ok by (metis micro_input_ok_def)
  have "rearrange_micro_batches b ml di None None same None bal g =
      Inr (map (map (\<lambda>i. mi_rows b ! i)) idx, idx)"
    using ml g idx(1) cd
    by (simp add: rearrange_micro_batches_def max_seq_len_of_def num_micro_batches_def Let_def)
  then show thesis using that idx(2) n(2) by (simp add: good_indices_def)
qed

section \<open>Groups of one prompt\<close>

definition contiguous :: "'u list \<Rightarrow> bool" where
  "contiguous uids \<longleftrightarrow> (\<forall>i m j. i \<le> m \<longrightarrow> m \<le> j \<longrightarrow> j < length uids \<longrightarrow>
     uids ! i = uids ! j \<longrightarrow> uids ! m = uids ! i)"

text \<open>
  The loop invariant after \<open>s\<close> samples: the groups and the one being built list \<open>0..s-1\<close> in
  order, and two samples with one uid lie in one group.
\<close>

definition uid_inv :: "'u list \<Rightarrow> nat \<Rightarrow> (nat list \<times> int) list \<Rightarrow> 'u option \<Rightarrow> nat list \<Rightarrow> bool" where
  "uid_inv uids s groups cur idxs \<longleftrightarrow>
     concat (map fst groups) @ idxs = [0..<s] \<and> (\<forall>g\<in>set groups. fst g \<noteq> []) \<and>
     (idxs = [] \<longleftrightarrow> s = 0) \<and> (\<forall>i\<in>set idxs. cur = Some (uids ! i)) \<and> (s = 0 \<longrightarrow> cur = None) \<and>
     (\<forall>i j. i < j \<longrightarrow> j < s \<longrightarrow> uids ! i = uids ! j \<longrightarrow>
        (i \<in> set idxs \<and> j \<in> set idxs) \<or> (\<exists>g\<in>set groups. i \<in> set (fst g) \<and> j \<in> set (fst g)))"

lemma uid_inv_last:
  assumes "uid_inv uids s groups cur idxs" "0 < s"
  shows "s - 1 \<in> set idxs" "s \<notin> set idxs"
proof -
  have e: "concat (map fst groups) @ idxs = [0..<s]" and ne: "idxs \<noteq> []"
    using assms by (auto simp: uid_inv_def)
  have "last idxs = last [0..<s]" using e ne by (metis last_appendR)
  then have "last idxs = s - 1" using assms(2) by simp
  then show "s - 1 \<in> set idxs" using ne by (metis last_in_set)
  have "set idxs \<subseteq> set [0..<s]" using e by (metis set_append sup_ge2)
  then show "s \<notin> set idxs" by auto
qed

lemma uid_inv_disjoint:
  assumes "uid_inv uids s groups cur idxs" "g \<in> set groups" "i \<in> set (fst g)"
  shows "i \<notin> set idxs"
proof -
  have "distinct (concat (map fst groups) @ idxs)"
    using assms(1) by (simp add: uid_inv_def)
  then show ?thesis using assms(2,3) by auto
qed

lemma uid_inv_step_same:
  assumes inv: "uid_inv uids s groups (Some u) idxs" and c: "contiguous uids"
    and s: "s < length uids" "uids ! s = u"
  shows "uid_inv uids (Suc s) groups (Some u) (idxs @ [s])"
proof -
  have "0 < s" using inv by (auto simp: uid_inv_def intro: gr0I)
  note last = uid_inv_last [OF inv this]
  have in_idxs: "i \<in> set idxs" if i: "i < s" "uids ! i = u" for i
  proof (cases "i = s - 1")
    case True
    then show ?thesis using last by simp
  next
    case False
    then have "i < s - 1" using i(1) by simp
    moreover have "uids ! (s - 1) = u"
      using inv last(1) by (auto simp: uid_inv_def)
    ultimately have "(i \<in> set idxs \<and> s - 1 \<in> set idxs) \<or> (\<exists>g\<in>set groups. i \<in> set (fst g) \<and> s - 1 \<in> set (fst g))"
      using inv i(2) \<open>0 < s\<close> unfolding uid_inv_def by (metis diff_less zero_less_one)
    then show ?thesis using uid_inv_disjoint [OF inv] last(1) by blast
  qed
  show ?thesis
    unfolding uid_inv_def
  proof (intro conjI allI impI)
    fix i j assume ij: "i < j" "j < Suc s" "uids ! i = uids ! j"
    show "(i \<in> set (idxs @ [s]) \<and> j \<in> set (idxs @ [s])) \<or> (\<exists>g\<in>set groups. i \<in> set (fst g) \<and> j \<in> set (fst g))"
    proof (cases "j = s")
      case True
      then show ?thesis using in_idxs [of i] ij s(2) by simp
    next
      case False
      then have "j < s" using ij(2) by simp
      then have "(i \<in> set idxs \<and> j \<in> set idxs) \<or> (\<exists>g\<in>set groups. i \<in> set (fst g) \<and> j \<in> set (fst g))"
        using inv ij(1,3) by (simp add: uid_inv_def)
      then show ?thesis by auto
    qed
  qed (use inv s(2) in \<open>auto simp: uid_inv_def simp flip: append_assoc\<close>)
qed

lemma uid_inv_step_new:
  assumes inv: "uid_inv uids s groups cur idxs" and c: "contiguous uids"
    and s: "s < length uids" "Some (uids ! s) \<noteq> cur"
  shows "uid_inv uids (Suc s) (if idxs \<noteq> [] then groups @ [(idxs, acc)] else groups) (Some (uids ! s)) [s]"
proof -
  have fresh: "uids ! i \<noteq> uids ! s" if i: "i < s" for i
  proof
    assume "uids ! i = uids ! s"
    moreover have "i \<le> s - 1" "s - 1 \<le> s" using i by auto
    ultimately have "uids ! (s - 1) = uids ! s" using c s(1) unfolding contiguous_def by metis
    moreover have "cur = Some (uids ! (s - 1))"
      using inv uid_inv_last(1) [OF inv] i by (auto simp: uid_inv_def)
    ultimately show False using s(2) by simp
  qed
  show ?thesis
    unfolding uid_inv_def
  proof (intro conjI allI impI)
    fix i j assume ij: "i < j" "j < Suc s" "uids ! i = uids ! j"
    then have "j \<noteq> s" using fresh [of i] by auto
    then have "j < s" using ij(2) by simp
    then have "(i \<in> set idxs \<and> j \<in> set idxs) \<or> (\<exists>g\<in>set groups. i \<in> set (fst g) \<and> j \<in> set (fst g))"
      using inv ij(1,3) by (simp add: uid_inv_def)
    then show "(i \<in> set [s] \<and> j \<in> set [s]) \<or>
        (\<exists>g\<in>set (if idxs \<noteq> [] then groups @ [(idxs, acc)] else groups). i \<in> set (fst g) \<and> j \<in> set (fst g))"
      by auto
  qed (use inv in \<open>auto simp: uid_inv_def\<close>)
qed

lemma uid_groups_loop_correct:
  assumes c: "contiguous uids" and len: "length lens = length uids"
  shows "uid_inv uids s groups cur idxs \<Longrightarrow>
    rest = drop s (zip [0..<length uids] (zip lens uids)) \<Longrightarrow> s \<le> length uids \<Longrightarrow>
    \<exists>gs idxs' acc' cur'. uid_groups_loop rest groups cur idxs acc =
       (if idxs' \<noteq> [] then gs @ [(idxs', acc')] else gs) \<and> uid_inv uids (length uids) gs cur' idxs'"
proof (induction rest arbitrary: s groups cur idxs acc)
  case Nil
  then have "s = length uids" using len by simp
  then show ?case using Nil.prems(1) by auto
next
  case (Cons x rest)
  let ?items = "zip [0..<length uids] (zip lens uids)"
  have s: "s < length uids"
    using Cons.prems(2) len by (metis drop_all length_upt length_zip linorder_not_less list.discI min.idem diff_zero)
  have "s < length ?items" using s len by simp
  then have "x # rest = ?items ! s # drop (Suc s) ?items"
    using Cons.prems(2) by (simp only: Cons_nth_drop_Suc)
  then have x: "x = (s, lens ! s, uids ! s)" and rest: "rest = drop (Suc s) ?items"
    using s len by simp_all
  show ?case
  proof (cases "Some (uids ! s) = cur")
    case True
    have "uid_inv uids (Suc s) groups cur (idxs @ [s])"
      using uid_inv_step_same [of uids s groups "uids ! s" idxs] Cons.prems(1) c s True by simp
    from Cons.IH [OF this rest] s True show ?thesis by (simp add: x)
  next
    case False
    from Cons.IH [OF uid_inv_step_new [OF Cons.prems(1) c s False] rest] s False
    show ?thesis by (simp add: x)
  qed
qed

lemma uid_groups_correct:
  assumes "contiguous uids" "length lens = length uids"
  shows "concat (map fst (uid_groups lens uids)) = [0..<length uids]"
    and "\<And>i j. i < j \<Longrightarrow> j < length uids \<Longrightarrow> uids ! i = uids ! j \<Longrightarrow>
      \<exists>g\<in>set (uid_groups lens uids). i \<in> set (fst g) \<and> j \<in> set (fst g)"
proof -
  have "uid_inv uids 0 [] None []" by (simp add: uid_inv_def)
  from uid_groups_loop_correct [OF assms this, of _ 0] assms(2)
  obtain gs idxs acc cur where r: "uid_groups lens uids = (if idxs \<noteq> [] then gs @ [(idxs, acc)] else gs)"
    "uid_inv uids (length uids) gs cur idxs"
    by (auto simp: uid_groups_def)
  show "concat (map fst (uid_groups lens uids)) = [0..<length uids]"
    using r by (auto simp: uid_inv_def)
  fix i j assume "i < j" "j < length uids" "uids ! i = uids ! j"
  then have "(i \<in> set idxs \<and> j \<in> set idxs) \<or> (\<exists>g\<in>set gs. i \<in> set (fst g) \<and> j \<in> set (fst g))"
    using r(2) by (simp add: uid_inv_def)
  then show "\<exists>g\<in>set (uid_groups lens uids). i \<in> set (fst g) \<and> j \<in> set (fst g)"
    using r(1) by auto
qed

lemma mset_concat_sorted_parts:
  "mset (concat (map (\<lambda>gp. sort (concat (map f gp))) gps)) = mset (concat (map f (concat gps)))"
  by (induction gps) simp_all

text \<open>
  A partition of the groups is a partition of the samples in which the samples of one group
  stay together, because each index is in one group only.
\<close>

lemma same_group_same_partition:
  assumes conc: "concat (map fst gs) = [0..<n]"
    and same: "\<And>i j. i < j \<Longrightarrow> j < n \<Longrightarrow> uids ! i = uids ! j \<Longrightarrow> \<exists>g\<in>set gs. i \<in> set (fst g) \<and> j \<in> set (fst g)"
    and perm: "mset (concat gps) = mset [0..<length gs]"
    and ps: "ps = map (\<lambda>gp. sort (concat (map (\<lambda>g. fst (gs ! g)) gp))) gps"
    and ij: "i < n" "j < n" "uids ! i = uids ! j" "p \<in> set ps" "i \<in> set p"
  shows "j \<in> set p"
proof -
  obtain gp where gp: "gp \<in> set gps" "p = sort (concat (map (\<lambda>g. fst (gs ! g)) gp))"
    using ij(4) ps by auto
  then obtain a where a: "a \<in> set gp" "i \<in> set (fst (gs ! a))" using ij(5) by auto
  have "a \<in> set (concat gps)" using gp(1) a(1) by auto
  then have alt: "a < length gs" using perm by (metis atLeast_upt lessThan_iff set_mset_mset)
  have "i = j \<or> (\<exists>g\<in>set gs. i \<in> set (fst g) \<and> j \<in> set (fst g))"
    using same ij(1-3) by (metis linorder_neqE_nat)
  moreover have "gs ! b = gs ! a \<or> fst (gs ! b) = fst (gs ! a)" if b: "b < length gs" "i \<in> set (fst (gs ! b))" for b
  proof -
    have "distinct (concat (map fst gs))" using conc by simp
    then have "fst (gs ! b) = fst (gs ! a)"
      using distinct_concat_same [of "map fst gs" a b i] a(2) b alt by simp
    then show ?thesis ..
  qed
  ultimately have "j \<in> set (fst (gs ! a))" using a(2) by (metis in_set_conv_nth)
  then show ?thesis using a(1) gp(2) by auto
qed

section \<open>Properties\<close>

text \<open>C2. For \<open>1 \<le> k \<le> n\<close> non-negative lengths (\<open>k\<close> dividing \<open>n\<close> if equal sizes are asked for)
  the balanced partitioner always returns: none of its assertions fails, in particular no
  partition is empty. The result is \<open>k\<close> non-empty sorted lists that together hold each index
  exactly once, all of size \<open>n / k\<close> when \<open>equal_size\<close> is set.\<close>

theorem balanced_partitions_total:
  assumes "0 < k" "k \<le> length w" "\<forall>l\<in>set w. 0 \<le> l" "eq \<longrightarrow> length w mod k = 0"
  shows "\<exists>ps. get_seqlen_balanced_partitions w k eq = Inr ps \<and> length ps = k \<and>
    (\<forall>p\<in>set ps. p \<noteq> [] \<and> sorted p \<and> (eq \<longrightarrow> length p = length w div k)) \<and>
    mset (concat ps) = mset [0..<length w]"
proof -
  have inp: "partition_input w k eq" using assms by (simp add: partition_input_def)
  obtain ps where ps: "get_seqlen_balanced_partitions w k eq = Inr ps" "is_partition (length w) k eq ps"
    using balanced.part_correct [OF inp] by blast
  then show ?thesis
    using balanced.part_nonempty [OF inp ps(1)] balanced_partitions_sorted [OF ps(1)]
    unfolding is_partition_def is_index_perm_def by metis
qed

theorem balanced_partitions_total_witness:
  "\<exists>ps. get_seqlen_balanced_partitions [5, 3, 9, 1, 7, 7] 3 True = Inr ps \<and> length ps = 3 \<and>
    (\<forall>p\<in>set ps. p \<noteq> [] \<and> sorted p \<and> (True \<longrightarrow> length p = length [5, 3, 9, 1, 7, 7 :: int] div 3)) \<and>
    mset (concat ps) = mset [0..<length [5, 3, 9, 1, 7, 7 :: int]]"
  by (rule balanced_partitions_total) simp_all

text \<open>C3. Splitting a batch into micro-batches and restoring the concatenated outputs gives back the
  original rows in their original order, for every setting of the data-parallel group, the
  divisibility, the minimum count, the balancing order and the group size under which the split
  succeeds.\<close>

theorem micro_batches_roundtrip:
  assumes "length (mi_rows b) = length (mi_seqlens b)" "\<forall>l\<in>set (mi_seqlens b). 0 \<le> l"
    and "rearrange_micro_batches b ml di dp nb same mn bal g = Inr (mbs, idx)"
  shows "restore_dynamic_batch (concat mbs) idx = Inr (mi_rows b)"
proof -
  have "micro_input_ok b" using assms(1,2) by (simp add: micro_input_ok_def)
  from rearrange_Inr [OF this assms(3)] show ?thesis
    using restore_selected by (metis good_indices_def)
qed

definition sample_batch :: "nat micro_input" where
  "sample_batch = \<lparr>mi_rows = [10, 20, 30], mi_nested = False, mi_mask_width = 3, mi_seqlens = [3, 3, 3]\<rparr>"

lemma sample_batch_split:
  "rearrange_micro_batches sample_batch 5 False None None True None True 1 = Inr ([[10, 20], [30]], [[0, 1], [2]])"
  by code_simp

theorem micro_batches_roundtrip_witness:
  "restore_dynamic_batch (concat [[10, 20], [30]]) [[0, 1], [2]] = Inr [10, 20, 30 :: nat]"
proof -
  have "restore_dynamic_batch (concat [[10, 20], [30]]) [[0, 1], [2]] = Inr (mi_rows sample_batch)"
    by (rule micro_batches_roundtrip [OF _ _ sample_batch_split]) (simp_all add: sample_batch_def)
  then show ?thesis by (simp add: sample_batch_def)
qed

text \<open>Without data-parallel synchronisation and without a forced count, a batch of non-negative
  lengths with at least one token, none wider than the budget, is always split: into the smaller
  of the number of sample groups and the total token count over the budget, rounded up. No
  micro-batch is empty and each is a union of whole groups of consecutive samples.\<close>

theorem rearrange_splits:
  fixes b :: "'r micro_input"
  assumes "length (mi_rows b) = length (mi_seqlens b)" "\<forall>l\<in>set (mi_seqlens b). 0 \<le> l"
    and "0 < ml" "\<not> mi_nested b" "mi_mask_width b \<le> ml"
    and "0 < g" "length (mi_seqlens b) mod g = 0" "0 < sum_list (mi_seqlens b)"
  shows "\<exists>mbs idx. rearrange_micro_batches b ml di None None same None bal g = Inr (mbs, idx) \<and>
    int (length mbs) = min (int (length (mi_seqlens b) div g)) \<lceil>rat_of_int (sum_list (mi_seqlens b)) / rat_of_int ml\<rceil> \<and>
    (\<forall>mb\<in>set mbs. mb \<noteq> []) \<and> (\<forall>p\<in>set idx. \<exists>gs. p = expand_groups g gs)"
proof -
  have ok: "micro_input_ok b" using assms(1,2) by (simp add: micro_input_ok_def)
  obtain mbs idx where r: "rearrange_micro_batches b ml di None None same None bal g = Inr (mbs, idx)"
    "int (length mbs) = min (int (length (mi_seqlens b) div g)) (- (sum_list (mi_seqlens b) div (- ml)))"
    by (rule rearrange_succeeds [OF ok assms(3-8)])
  have "\<lceil>rat_of_int (sum_list (mi_seqlens b)) / rat_of_int ml\<rceil> = - (sum_list (mi_seqlens b) div (- ml))"
    by (simp add: ceiling_divide_eq_div div_minus_right)
  moreover have "good_indices (length (mi_rows b)) g (length idx) idx" "mbs = map (map (\<lambda>i. mi_rows b ! i)) idx"
    using rearrange_Inr [OF ok r(1)] by blast+
  ultimately show ?thesis using r by (auto simp: good_indices_def)
qed

theorem rearrange_splits_witness:
  "\<exists>mbs idx. rearrange_micro_batches sample_batch 5 False None None True None True 1 = Inr (mbs, idx) \<and>
    int (length mbs) = min (int (length (mi_seqlens sample_batch) div 1))
      \<lceil>rat_of_int (sum_list (mi_seqlens sample_batch)) / rat_of_int 5\<rceil> \<and>
    (\<forall>mb\<in>set mbs. mb \<noteq> []) \<and> (\<forall>p\<in>set idx. \<exists>gs. p = expand_groups 1 gs)"
  by (rule rearrange_splits) (simp_all add: sample_batch_def)

text \<open>The budget bounds the number of micro-batches, not their size: the documentation calls
  \<open>max_token_len\<close> the largest sum of attention masks of a micro-batch, yet three samples of
  three tokens under a budget of five are split in two, and one part holds six tokens.\<close>

theorem micro_batch_may_exceed_budget:
  "\<exists>mbs idx. rearrange_micro_batches sample_batch 5 False None None True None True 1 = Inr (mbs, idx) \<and>
    (\<exists>p\<in>set idx. 5 < sum_list (map (\<lambda>i. mi_seqlens sample_batch ! i) p))"
  unfolding sample_batch_split by (simp add: sample_batch_def)

text \<open>When the samples of each prompt are stored next to each other, the prompt-preserving
  partitioner's \<open>k\<close> lists hold every sample index once, and two samples of one prompt are always
  in the same list.\<close>

theorem group_partitions_keep_prompts:
  assumes "contiguous uids" "\<forall>l\<in>set lens. 0 \<le> l"
    and "get_group_balanced_partitions lens uids k = Inr ps"
  shows "length ps = k \<and> mset (concat ps) = mset [0..<length lens] \<and>
    (\<forall>i j p. i < length lens \<longrightarrow> j < length lens \<longrightarrow> uids ! i = uids ! j \<longrightarrow> p \<in> set ps \<longrightarrow> i \<in> set p \<longrightarrow> j \<in> set p)"
proof -
  define gs where "gs = uid_groups lens uids"
  define w where "w = map (\<lambda>g. sum_list (map (\<lambda>i. calculate_workload (lens ! i)) (fst g))) gs"
  have len: "length lens = length uids" and k: "k \<le> length gs"
    using assms(3) by (auto simp: get_group_balanced_partitions_def py_assert_eq_Inr Let_def gs_def)
  note groups = uid_groups_correct [OF assms(1) len, folded gs_def]
  obtain gps where gps: "get_seqlen_balanced_partitions w k True = Inr gps"
    "ps = map (\<lambda>gp. sort (concat (map (\<lambda>g. fst (gs ! g)) gp))) gps"
    using assms(3)
    by (auto simp: get_group_balanced_partitions_def py_assert_eq_Inr Let_def bind_res_eq_Inr gs_def w_def)
  have idx: "\<forall>g\<in>set gs. \<forall>i\<in>set (fst g). i < length uids"
  proof (intro ballI)
    fix g i assume "g \<in> set gs" "i \<in> set (fst g)"
    then have "i \<in> set (concat (map fst gs))" by auto
    then show "i < length uids" unfolding groups(1) by simp
  qed
  have "\<forall>l\<in>set w. 0 \<le> l"
    unfolding w_def using idx assms(2) len by (auto intro!: sum_list_nonneg workload_nonneg)
  moreover have "0 < k \<and> length w mod k = 0"
    using gps(1) by (auto simp: get_seqlen_balanced_partitions_def karmarkar_karp_def py_assert_eq_Inr
        bind_res_eq_Inr Let_def split: if_splits)
  ultimately have "partition_input w k True" using k by (simp add: partition_input_def w_def)
  then have part: "is_partition (length gs) k True gps"
    using balanced.part_correct gps(1) by (metis length_map sum.inject(2) w_def)
  then have perm: "mset (concat gps) = mset [0..<length gs]" and lenk: "length gps = k"
    by (simp_all add: is_partition_def is_index_perm_def)
  have "mset (concat ps) = mset (concat (map (\<lambda>g. fst (gs ! g)) (concat gps)))"
    unfolding gps(2) by (rule mset_concat_sorted_parts)
  also have "\<dots> = mset (concat (map (\<lambda>g. fst (gs ! g)) [0..<length gs]))"
    using perm by (intro mset_concat_cong) (simp only: mset_map)
  also have "map (\<lambda>g. fst (gs ! g)) [0..<length gs] = map fst gs"
    by (rule map_upt_nth)
  also have "mset (concat (map fst gs)) = mset [0..<length lens]"
    using groups(1) len by simp
  finally have all: "mset (concat ps) = mset [0..<length lens]" .
  have together: "j \<in> set p" if "i < length lens" "j < length lens" "uids ! i = uids ! j" "p \<in> set ps" "i \<in> set p" for i j p
  proof (rule same_group_same_partition [OF groups(1) _ perm gps(2) _ _ that(3-5)])
    fix i j assume "i < j" "j < length uids" "uids ! i = uids ! j"
    then show "\<exists>g\<in>set gs. i \<in> set (fst g) \<and> j \<in> set (fst g)" by (rule groups(2))
  qed (use that len in simp_all)
  have "length ps = k" using gps(2) lenk by simp
  then show ?thesis using all together by blast
qed

theorem group_partitions_keep_prompts_witness:
  "\<exists>ps. get_group_balanced_partitions [3, 4, 5, 6] [7, 7, 8, 8 :: nat] 2 = Inr ps \<and> length ps = 2 \<and>
    mset (concat ps) = mset [0..<length [3, 4, 5, 6 :: int]] \<and>
    (\<forall>i j p. i < length [3, 4, 5, 6 :: int] \<longrightarrow> j < length [3, 4, 5, 6 :: int] \<longrightarrow>
      [7, 7, 8, 8 :: nat] ! i = [7, 7, 8, 8] ! j \<longrightarrow> p \<in> set ps \<longrightarrow> i \<in> set p \<longrightarrow> j \<in> set p)"
proof (rule exI [of _ "[[2, 3], [0, 1]]"], rule conjI)
  show run: "get_group_balanced_partitions [3, 4, 5, 6] [7, 7, 8, 8 :: nat] 2 = Inr [[2, 3], [0, 1]]"
    by code_simp
  have apart: "contiguous [7, 7, 8, 8 :: nat]"
    unfolding contiguous_def by (auto simp: nth_Cons less_Suc_eq_0_disj split: nat.splits)
  show "length [[2, 3], [0, 1 :: nat]] = 2 \<and> mset (concat [[2, 3], [0, 1 :: nat]]) = mset [0..<length [3, 4, 5, 6 :: int]] \<and>
    (\<forall>i j p. i < length [3, 4, 5, 6 :: int] \<longrightarrow> j < length [3, 4, 5, 6 :: int] \<longrightarrow>
      [7, 7, 8, 8 :: nat] ! i = [7, 7, 8, 8] ! j \<longrightarrow> p \<in> set [[2, 3], [0, 1]] \<longrightarrow> i \<in> set p \<longrightarrow> j \<in> set p)"
    by (rule group_partitions_keep_prompts [OF apart _ run]) simp
qed

text \<open>With equal sizes asked for and \<open>k\<close> dividing the number of non-negative lengths, the greedy
  partitioner's bias makes its final assertion hold: it returns \<open>k\<close> lists of \<open>n / k\<close> indices that
  hold every index once.\<close>

theorem greedy_equal_sizes:
  assumes "0 < k" "k \<le> length w" "\<forall>l\<in>set w. 0 \<le> l" "length w mod k = 0"
  shows "\<exists>ps. greedy_partition w k True = Inr ps \<and> length ps = k \<and>
    (\<forall>p\<in>set ps. length p = length w div k) \<and> mset (concat ps) = mset [0..<length w]"
  using greedy.part_correct [of w k True] assms
  by (auto simp: partition_input_def is_partition_def is_index_perm_def)

theorem greedy_equal_sizes_witness:
  "\<exists>ps. greedy_partition [5, 3, 9, 1, 7, 7] 3 True = Inr ps \<and> length ps = 3 \<and>
    (\<forall>p\<in>set ps. length p = length [5, 3, 9, 1, 7, 7 :: int] div 3) \<and>
    mset (concat ps) = mset [0..<length [5, 3, 9, 1, 7, 7 :: int]]"
  by (rule greedy_equal_sizes) simp_all

end
