(* ===== verification/PyString.thy ===== *)
theory PyString
  imports Prelude
begin

text \<open>
  Python strings as lists of characters. A \<open>char\<close> is one of the 256 code points of Latin-1, on
  which \<open>strip\<close>, \<open>lower\<close> and \<open>split\<close> below are exactly Python's; strings with other code points are
  outside the model.
\<close>

section \<open>Characters\<close>

abbreviation code_point :: "char \<Rightarrow> nat" where
  "code_point c \<equiv> of_char c"

definition py_isspace :: "char \<Rightarrow> bool" where
  "py_isspace c =
     (let n = code_point c
      in (9 \<le> n \<and> n \<le> 13) \<or> (28 \<le> n \<and> n \<le> 32) \<or> n = 133 \<or> n = 160)"

definition lower_char :: "char \<Rightarrow> char" where
  "lower_char c =
     (let n = code_point c
      in if (65 \<le> n \<and> n \<le> 90) \<or> (192 \<le> n \<and> n \<le> 222 \<and> n \<noteq> 215) then char_of (n + 32) else c)"

definition py_isdigit :: "char \<Rightarrow> bool" where
  "py_isdigit c = (let n = code_point c in 48 \<le> n \<and> n \<le> 57)"

definition ascii_letter :: "char \<Rightarrow> bool" where
  "ascii_letter c = (let n = code_point c in (65 \<le> n \<and> n \<le> 90) \<or> (97 \<le> n \<and> n \<le> 122))"

section \<open>Methods of \<open>str\<close>\<close>

definition py_lower :: "string \<Rightarrow> string" where
  "py_lower s = map lower_char s"

definition py_lstrip :: "string \<Rightarrow> string" where
  "py_lstrip s = dropWhile py_isspace s"

definition py_rstrip :: "string \<Rightarrow> string" where
  "py_rstrip s = rev (dropWhile py_isspace (rev s))"

definition py_strip :: "string \<Rightarrow> string" where
  "py_strip s = py_rstrip (py_lstrip s)"

text \<open>\<open>s.strip(chars)\<close>.\<close>

definition py_strip_chars :: "char list \<Rightarrow> string \<Rightarrow> string" where
  "py_strip_chars cs s =
     rev (dropWhile (\<lambda>c. c \<in> set cs) (rev (dropWhile (\<lambda>c. c \<in> set cs) s)))"

fun py_startswith :: "string \<Rightarrow> string \<Rightarrow> bool" where
  "py_startswith s [] = True"
| "py_startswith [] (p # ps) = False"
| "py_startswith (c # cs) (p # ps) = (c = p \<and> py_startswith cs ps)"

definition py_endswith :: "string \<Rightarrow> string \<Rightarrow> bool" where
  "py_endswith s p = py_startswith (rev s) (rev p)"

text \<open>\<open>sub in s\<close>, and \<open>find\<close> and \<open>rfind\<close> with \<open>None\<close> for \<open>-1\<close>.\<close>

fun py_in :: "string \<Rightarrow> string \<Rightarrow> bool" where
  "py_in sub [] = (sub = [])"
| "py_in sub (c # cs) = (py_startswith (c # cs) sub \<or> py_in sub cs)"

fun py_find :: "string \<Rightarrow> string \<Rightarrow> nat option" where
  "py_find sub [] = (if sub = [] then Some 0 else None)"
| "py_find sub (c # cs) =
     (if py_startswith (c # cs) sub then Some 0 else map_option Suc (py_find sub cs))"

fun py_rfind :: "string \<Rightarrow> string \<Rightarrow> nat option" where
  "py_rfind sub [] = (if sub = [] then Some 0 else None)"
| "py_rfind sub (c # cs) =
     (case py_rfind sub cs of
        Some i \<Rightarrow> Some (Suc i)
      | None \<Rightarrow> if py_startswith (c # cs) sub then Some 0 else None)"

text \<open>
  \<open>s.split(sep)\<close> and \<open>s.replace(old, new)\<close>, for a non-empty separator or pattern; the second
  argument of \<open>split_at\<close> collects the current piece, reversed.
\<close>

function split_at :: "string \<Rightarrow> string \<Rightarrow> string \<Rightarrow> string list" where
  "split_at sep cur s =
     (case s of
        [] \<Rightarrow> [rev cur]
      | c # cs \<Rightarrow> if sep \<noteq> [] \<and> py_startswith s sep
                  then rev cur # split_at sep [] (drop (length sep) s)
                  else split_at sep (c # cur) cs)"
  by pat_completeness auto
termination
  by (relation "measure (\<lambda>(sep, cur, s). length s)") auto

declare split_at.simps [simp del]

lemma split_at_Nil [simp]: "split_at sep cur [] = [rev cur]"
  by (simp add: split_at.simps)

lemma split_at_Cons:
  "split_at sep cur (c # cs) =
     (if sep \<noteq> [] \<and> py_startswith (c # cs) sep
      then rev cur # split_at sep [] (drop (length sep) (c # cs))
      else split_at sep (c # cur) cs)"
  by (simp add: split_at.simps [of sep cur "c # cs"])

definition py_split :: "string \<Rightarrow> string \<Rightarrow> string list" where
  "py_split sep s = split_at sep [] s"

fun py_join :: "string \<Rightarrow> string list \<Rightarrow> string" where
  "py_join sep [] = []"
| "py_join sep [x] = x"
| "py_join sep (x # y # ys) = x @ sep @ py_join sep (y # ys)"

definition py_replace :: "string \<Rightarrow> string \<Rightarrow> string \<Rightarrow> string" where
  "py_replace old new s = py_join new (py_split old s)"

text \<open>\<open>s.split()\<close>: the maximal runs of characters that are not white space.\<close>

fun split_ws_loop :: "string \<Rightarrow> string \<Rightarrow> string list" where
  "split_ws_loop cur [] = (if cur = [] then [] else [rev cur])"
| "split_ws_loop cur (c # cs) =
     (if py_isspace c
      then (if cur = [] then split_ws_loop [] cs else rev cur # split_ws_loop [] cs)
      else split_ws_loop (c # cur) cs)"

definition py_split_ws :: "string \<Rightarrow> string list" where
  "py_split_ws s = split_ws_loop [] s"

text \<open>The decimal form of a natural number and of an integer.\<close>

fun str_nat :: "nat \<Rightarrow> string" where
  "str_nat n = (if n < 10 then [char_of (48 + n)] else str_nat (n div 10) @ [char_of (48 + n mod 10)])"

declare str_nat.simps [simp del]

definition str_int :: "int \<Rightarrow> string" where
  "str_int i = (if i < 0 then CHR ''-'' # str_nat (nat (- i)) else str_nat (nat i))"

section \<open>Laws\<close>

named_theorems str_simps "laws of the string methods"

lemma py_startswith_iff: "py_startswith s p \<longleftrightarrow> (\<exists>t. s = p @ t)"
  by (induction s p rule: py_startswith.induct) auto

lemma py_startswith_append [simp, str_simps]: "py_startswith (p @ t) p"
  by (auto simp: py_startswith_iff)

lemma py_startswith_drop: "py_startswith s p \<Longrightarrow> s = p @ drop (length p) s"
  by (auto simp: py_startswith_iff)

lemma py_startswith_take: "py_startswith s p \<longleftrightarrow> length p \<le> length s \<and> take (length p) s = p"
  by (induction s p rule: py_startswith.induct) auto

lemma py_in_iff: "py_in sub s \<longleftrightarrow> (\<exists>a b. s = a @ sub @ b)"
proof (induction s)
  case Nil
  then show ?case by auto
next
  case (Cons c cs)
  have "(\<exists>a b. c # cs = a @ sub @ b) \<longleftrightarrow> (\<exists>b. c # cs = sub @ b) \<or> (\<exists>a b. cs = a @ sub @ b)"
    by (metis append_Cons append_Nil list.exhaust list.inject)
  then show ?case by (simp add: Cons py_startswith_iff)
qed

lemma py_in_append: "py_in sub s \<Longrightarrow> py_in sub (a @ s @ b)"
  by (metis append.assoc py_in_iff)

lemma py_in_refl [simp, str_simps]: "py_in s s"
  by (metis append.right_neutral append_Nil py_in_iff)

lemma py_find_Some: "py_find sub s = Some i \<Longrightarrow> i + length sub \<le> length s \<and> take (length sub) (drop i s) = sub"
  by (induction s arbitrary: i) (auto simp: py_startswith_take split: if_splits)

lemma py_find_None: "py_find sub s = None \<longleftrightarrow> \<not> py_in sub s"
  by (induction s) auto

lemma py_rfind_None: "py_rfind sub s = None \<longleftrightarrow> \<not> py_in sub s"
  by (induction s) (auto split: option.splits)

lemma py_rfind_Some: "py_rfind sub s = Some i \<Longrightarrow> i + length sub \<le> length s \<and> take (length sub) (drop i s) = sub"
  by (induction s arbitrary: i) (auto simp: py_startswith_take split: if_splits option.splits)

lemma dropWhile_idem [simp]: "dropWhile P (dropWhile P xs) = dropWhile P xs"
  by (induction xs) auto

lemma py_lstrip_idem [simp, str_simps]: "py_lstrip (py_lstrip s) = py_lstrip s"
  by (simp add: py_lstrip_def)

lemma py_rstrip_idem [simp, str_simps]: "py_rstrip (py_rstrip s) = py_rstrip s"
  by (simp add: py_rstrip_def)

lemma py_rstrip_prefix: "\<exists>t. s = py_rstrip s @ t \<and> (\<forall>c\<in>set t. py_isspace c)"
proof -
  have "rev s = takeWhile py_isspace (rev s) @ dropWhile py_isspace (rev s)" by simp
  then have "s = py_rstrip s @ rev (takeWhile py_isspace (rev s))"
    unfolding py_rstrip_def by (metis rev_append rev_rev_ident)
  moreover have "\<forall>c\<in>set (rev (takeWhile py_isspace (rev s))). py_isspace c"
    by (auto dest: set_takeWhileD)
  ultimately show ?thesis by blast
qed

lemma py_lstrip_rstrip: "py_lstrip (py_rstrip (py_lstrip s)) = py_rstrip (py_lstrip s)"
proof -
  obtain t where t: "py_lstrip s = py_rstrip (py_lstrip s) @ t" using py_rstrip_prefix by blast
  show ?thesis
  proof (cases "py_rstrip (py_lstrip s)")
    case Nil
    then show ?thesis by (simp add: py_lstrip_def)
  next
    case (Cons c cs)
    then have "hd (py_lstrip s) = c" "py_lstrip s \<noteq> []" using t by (metis append_Cons list.sel(1), auto)
    then have "\<not> py_isspace c" by (metis hd_dropWhile py_lstrip_def)
    then show ?thesis using Cons by (simp add: py_lstrip_def)
  qed
qed

lemma py_strip_idem [simp, str_simps]: "py_strip (py_strip s) = py_strip s"
  by (simp add: py_strip_def py_lstrip_rstrip)

lemma py_strip_Nil [simp, str_simps]: "py_strip [] = []"
  by (simp add: py_strip_def py_lstrip_def py_rstrip_def)

lemma length_py_strip: "length (py_strip s) \<le> length s"
proof -
  have "length (py_rstrip s) \<le> length s" for s
    using length_dropWhile_le [of py_isspace "rev s"] by (simp add: py_rstrip_def)
  then show ?thesis
    unfolding py_strip_def py_lstrip_def by (meson le_trans length_dropWhile_le)
qed

lemma split_at_nonempty [simp]: "split_at sep cur s \<noteq> []"
  by (induction sep cur s rule: split_at.induct) (subst split_at.simps, simp split: list.split)

lemma py_join_Cons: "ys \<noteq> [] \<Longrightarrow> py_join sep (x # ys) = x @ sep @ py_join sep ys"
  by (cases ys) simp_all

lemma join_split_at: "sep \<noteq> [] \<Longrightarrow> py_join sep (split_at sep cur s) = rev cur @ s"
proof (induction sep cur s rule: split_at.induct)
  case (1 sep cur s)
  show ?case
  proof (cases s)
    case Nil
    then show ?thesis by (simp add: split_at.simps)
  next
    case (Cons c cs)
    show ?thesis
    proof (cases "py_startswith s sep")
      case True
      then have "py_join sep (split_at sep cur s) = rev cur @ sep @ drop (length sep) s"
        using "1.IH"(1) [OF Cons] "1.prems" Cons by (simp add: split_at_Cons py_join_Cons del: drop_Cons)
      then show ?thesis using py_startswith_drop [OF True] by simp
    next
      case False
      then show ?thesis using "1.IH"(2) [OF Cons] "1.prems" Cons by (simp add: split_at_Cons)
    qed
  qed
qed

lemma join_split [simp, str_simps]: "sep \<noteq> [] \<Longrightarrow> py_join sep (py_split sep s) = s"
  by (simp add: py_split_def join_split_at)

lemma split_ws_loop_no_space:
  "\<forall>c\<in>set cur. \<not> py_isspace c \<Longrightarrow> w \<in> set (split_ws_loop cur s) \<Longrightarrow> w \<noteq> [] \<and> (\<forall>c\<in>set w. \<not> py_isspace c)"
proof (induction s arbitrary: cur)
  case Nil
  then show ?case by (auto split: if_splits)
next
  case (Cons c cs)
  show ?case
  proof (cases "py_isspace c")
    case True
    then have "w = rev cur \<and> cur \<noteq> [] \<or> w \<in> set (split_ws_loop [] cs)"
      using Cons.prems(2) by (simp split: if_splits)
    then show ?thesis using Cons.IH [of "[]"] Cons.prems(1) by (elim disjE) simp_all
  next
    case False
    then have "w \<in> set (split_ws_loop (c # cur) cs)" using Cons.prems(2) by simp
    moreover have "\<forall>d\<in>set (c # cur). \<not> py_isspace d" using Cons.prems(1) False by simp
    ultimately show ?thesis by (rule Cons.IH [rotated])
  qed
qed

lemma split_ws_words: "w \<in> set (py_split_ws s) \<Longrightarrow> w \<noteq> [] \<and> (\<forall>c\<in>set w. \<not> py_isspace c)"
  unfolding py_split_ws_def by (rule split_ws_loop_no_space) simp_all

lemma split_ws_loop_word:
  "\<forall>c\<in>set w. \<not> py_isspace c \<Longrightarrow> split_ws_loop cur (w @ s) = split_ws_loop (rev w @ cur) s"
  by (induction w arbitrary: cur) auto

lemma split_ws_first:
  assumes "w \<noteq> []" "\<forall>c\<in>set w. \<not> py_isspace c" "py_isspace c"
  shows "py_split_ws (w @ c # t) = w # py_split_ws t"
proof -
  have "split_ws_loop [] (w @ c # t) = split_ws_loop (rev w @ []) (c # t)"
    by (rule split_ws_loop_word [OF assms(2)])
  then show ?thesis using assms(1,3) by (simp add: py_split_ws_def)
qed

lemma split_ws_join:
  "\<forall>w\<in>set ws. w \<noteq> [] \<and> (\<forall>c\<in>set w. \<not> py_isspace c) \<Longrightarrow> py_split_ws (py_join '' '' ws) = ws"
proof (induction ws)
  case Nil
  then show ?case by (simp add: py_split_ws_def)
next
  case (Cons w ws)
  show ?case
  proof (cases "ws = []")
    case True
    have "split_ws_loop [] (w @ []) = split_ws_loop (rev w @ []) []"
      by (rule split_ws_loop_word) (use Cons.prems in auto)
    then have "py_split_ws (w @ []) = [w]" using Cons.prems by (simp add: py_split_ws_def)
    then show ?thesis using True by simp
  next
    case False
    have "py_isspace (CHR 0x20)" by (simp add: py_isspace_def)
    then have "py_split_ws (w @ CHR 0x20 # py_join '' '' ws) = w # py_split_ws (py_join '' '' ws)"
      using Cons.prems by (intro split_ws_first) auto
    then show ?thesis using Cons False by (simp add: py_join_Cons)
  qed
qed

text \<open>The first occurrence of a pattern whose first character does not come back in it.\<close>

lemma startswith_inside:
  assumes "py_startswith (a @ (c # cs) @ b) (c # cs)" "c \<notin> set cs" "a \<noteq> []"
  shows "py_startswith a (c # cs)"
proof (rule ccontr)
  assume no: "\<not> py_startswith a (c # cs)"
  obtain t where t: "a @ (c # cs) @ b = (c # cs) @ t" using assms(1) by (auto simp: py_startswith_iff)
  then have "(\<exists>u. c # cs = a @ u) \<or> (\<exists>u. a = (c # cs) @ u)" by (metis append_eq_append_conv2)
  then obtain u where u: "c # cs = a @ u" using no by (auto simp: py_startswith_iff)
  then have "u \<noteq> []" using no by (auto simp: py_startswith_iff)
  moreover have "(c # cs) @ b = u @ t" using t u by simp
  ultimately have "hd u = c" by (metis append_Cons hd_append2 list.sel(1))
  moreover have "set u \<subseteq> set cs" using u assms(3) by (cases a) auto
  ultimately show False using \<open>u \<noteq> []\<close> assms(2) by (metis list.set_sel(1) subset_iff)
qed

lemma py_find_first:
  "c \<notin> set cs \<Longrightarrow> \<not> py_in (c # cs) a \<Longrightarrow> py_find (c # cs) (a @ (c # cs) @ b) = Some (length a)"
proof (induction a)
  case Nil
  then show ?case by simp
next
  case (Cons x a)
  have "\<not> py_startswith ((x # a) @ (c # cs) @ b) (c # cs)"
    using Cons.prems startswith_inside [of "x # a" c cs b] by auto
  then show ?case using Cons by simp
qed

lemma py_in_rev: "py_in (rev p) (rev s) = py_in p s"
  by (metis append.assoc py_in_iff rev_append rev_rev_ident)

lemma py_in_skip: "set w \<inter> set p = {} \<Longrightarrow> p \<noteq> [] \<Longrightarrow> py_in p (w @ s) = py_in p s"
proof (induction w)
  case (Cons c w)
  then have "\<not> py_startswith (c # w @ s) p" by (cases p) auto
  then show ?case using Cons by simp
qed simp

lemma py_in_skip_end: "set w \<inter> set p = {} \<Longrightarrow> p \<noteq> [] \<Longrightarrow> py_in p (s @ w) = py_in p s"
  using py_in_skip [of "rev w" "rev p" "rev s"] py_in_rev [of p "s @ w"] py_in_rev [of p s] by simp

lemma dropWhile_all: "(\<forall>x\<in>set w. P x) \<Longrightarrow> dropWhile P (w @ s) = dropWhile P s"
  by (induction w) auto

lemma py_strip_around:
  assumes "\<forall>c\<in>set w. py_isspace c" "\<forall>c\<in>set w'. py_isspace c" "s \<noteq> []" "\<not> py_isspace (hd s)" "\<not> py_isspace (last s)"
  shows "py_strip (w @ s @ w') = s"
proof -
  have "py_lstrip (w @ s @ w') = s @ w'"
    using assms(1,3,4) unfolding py_lstrip_def by (subst dropWhile_all) (auto, cases s, auto)
  moreover have "dropWhile py_isspace (rev w' @ rev s) = rev s"
    using assms(2,3,5) by (subst dropWhile_all) (auto, cases s rule: rev_cases, auto)
  ultimately show ?thesis by (simp add: py_strip_def py_rstrip_def)
qed

section \<open>\<open>str.format\<close> with named fields\<close>

text \<open>
  \<open>s.format(name=value, ...)\<close> with the values in the map \<open>env\<close>. Text is copied, doubled braces are
  escapes, a field is replaced, and the leftmost fault is the one raised. A field with an attribute,
  an index, a conversion or a format specification is outside the model (\<open>OtherError 0\<close>); no template
  of the program has one.
\<close>

definition open_brace :: char where "open_brace = CHR 0x7B"
definition close_brace :: char where "close_brace = CHR 0x7D"

definition fmt_unsupported :: "string \<Rightarrow> bool" where
  "fmt_unsupported name = (\<exists>c\<in>set name. c \<in> set [open_brace, CHR ''!'', CHR '':'', CHR ''.'', CHR 0x5B])"

definition fmt_lookup :: "(string \<rightharpoonup> string) \<Rightarrow> string \<Rightarrow> string res" where
  "fmt_lookup env name =
     (if fmt_unsupported name then Inl (OtherError 0)
      else if list_all py_isdigit name then Inl IndexError
      else case env name of None \<Rightarrow> Inl KeyError | Some v \<Rightarrow> Inr v)"

function py_format :: "(string \<rightharpoonup> string) \<Rightarrow> string \<Rightarrow> string res" where
  "py_format env s =
     (case s of
        [] \<Rightarrow> Inr []
      | c # cs \<Rightarrow>
          if c = open_brace then
            (case cs of
               [] \<Rightarrow> Inl ValueError
             | d # ds \<Rightarrow>
                 if d = open_brace then bind_res (py_format env ds) (\<lambda>r. Inr (open_brace # r))
                 else if close_brace \<notin> set cs then Inl ValueError
                 else bind_res (fmt_lookup env (takeWhile (\<lambda>x. x \<noteq> close_brace) cs))
                        (\<lambda>v. bind_res (py_format env (tl (dropWhile (\<lambda>x. x \<noteq> close_brace) cs)))
                          (\<lambda>r. Inr (v @ r))))
          else if c = close_brace then
            (case cs of
               [] \<Rightarrow> Inl ValueError
             | d # ds \<Rightarrow>
                 if d = close_brace then bind_res (py_format env ds) (\<lambda>r. Inr (close_brace # r))
                 else Inl ValueError)
          else bind_res (py_format env cs) (\<lambda>r. Inr (c # r)))"
  by pat_completeness auto
termination
proof (relation "measure (\<lambda>(env, s). length s)")
  fix env :: "string \<rightharpoonup> string" and s :: string and c cs
  assume "s = c # cs"
  moreover have "length (tl (dropWhile (\<lambda>x. x \<noteq> close_brace) cs)) \<le> length cs"
    by (metis diff_le_self dual_order.trans length_dropWhile_le length_tl)
  ultimately show "((env, tl (dropWhile (\<lambda>x. x \<noteq> close_brace) cs)), env, s) \<in> measure (\<lambda>(env, s). length s)"
    by simp
qed auto

declare py_format.simps [simp del]

definition no_brace :: "string \<Rightarrow> bool" where
  "no_brace s = list_all (\<lambda>c. c \<noteq> open_brace \<and> c \<noteq> close_brace) s"

named_theorems fmt_simps "equations of str.format"

lemma brace_neq [simp]: "open_brace \<noteq> close_brace" "close_brace \<noteq> open_brace"
  by (simp_all add: open_brace_def close_brace_def)

lemma py_format_Nil [simp, fmt_simps]: "py_format env [] = Inr []"
  by (simp add: py_format.simps)

lemma py_format_text [fmt_simps]:
  "no_brace s \<Longrightarrow> py_format env (s @ t) = bind_res (py_format env t) (\<lambda>r. Inr (s @ r))"
proof (induction s)
  case Nil
  then show ?case by (cases "py_format env t") simp_all
next
  case (Cons c s)
  then have "py_format env ((c # s) @ t) = bind_res (py_format env (s @ t)) (\<lambda>r. Inr (c # r))"
    by (subst py_format.simps) (simp add: no_brace_def)
  moreover have "no_brace s" using Cons.prems by (simp add: no_brace_def)
  ultimately show ?case using Cons.IH by (simp add: bind_res_assoc)
qed

lemma py_format_plain: "no_brace s \<Longrightarrow> py_format env s = Inr s"
  using py_format_text [of s env "[]"] by simp

lemma py_format_field [fmt_simps]:
  assumes "name \<noteq> []" "no_brace name"
  shows "py_format env (open_brace # name @ close_brace # t) =
    bind_res (fmt_lookup env name) (\<lambda>v. bind_res (py_format env t) (\<lambda>r. Inr (v @ r)))"
proof -
  have "takeWhile (\<lambda>x. x \<noteq> close_brace) (name @ close_brace # t) = name"
    "dropWhile (\<lambda>x. x \<noteq> close_brace) (name @ close_brace # t) = close_brace # t"
    using assms(2) by (auto simp: no_brace_def list_all_iff takeWhile_append2 dropWhile_append2)
  moreover obtain d ds where "name = d # ds" "d \<noteq> open_brace"
    using assms by (cases name) (auto simp: no_brace_def)
  ultimately show ?thesis by (subst py_format.simps) simp
qed

lemma py_format_escape [fmt_simps]:
  "py_format env (open_brace # open_brace # t) = bind_res (py_format env t) (\<lambda>r. Inr (open_brace # r))"
  "py_format env (close_brace # close_brace # t) = bind_res (py_format env t) (\<lambda>r. Inr (close_brace # r))"
  by (subst py_format.simps, simp)+

end
