(* ===== verification/TokenTemplate.thy ===== *)
theory TokenTemplate
  imports PyString
begin

text \<open>
  Templates over token identifiers (\<open>TokenTemplate\<close> of \<open>recurrent/utils.py\<close>) and the tokenizer the
  agents use. The tokenizer is a third-party object: it is a record of the functions the program
  calls, and what a property needs of it is a hypothesis of that property.
\<close>

section \<open>The tokenizer\<close>

text \<open>
  \<open>tok_encode\<close> is \<open>encode(text, add_special_tokens=False)\<close>, \<open>tok_decode b\<close> is
  \<open>decode(ids, skip_special_tokens=b)\<close>, and \<open>tok_chat\<close> is \<open>apply_chat_template\<close> to text with a generation
  prompt, over the (role, content) pairs of a conversation.
\<close>

record tokenizer =
  tok_encode :: "string \<Rightarrow> int list"
  tok_decode :: "bool \<Rightarrow> int list \<Rightarrow> string"
  tok_chat :: "(string \<times> string) list \<Rightarrow> string"
  tok_pad :: int
  tok_eos :: int

definition chat_template :: "tokenizer \<Rightarrow> bool \<Rightarrow> string" where
  "chat_template tok system =
     (if system
      then tok_chat tok [(''system'', open_brace # ''system'' @ [close_brace]),
                         (''user'', open_brace # ''message'' @ [close_brace])]
      else tok_chat tok [(''user'', open_brace # ''message'' @ [close_brace])])"

section \<open>Templates\<close>

record token_template =
  tt_keywords :: "string list"
  tt_sections :: "int list list"
  tt_last :: "int list"

text \<open>
  \<open>re.split\<close> with the pattern of one group of letters in braces: the texts between the fields at the
  even places, the field names at the odd ones.
\<close>

definition field_at :: "string \<Rightarrow> string option" where
  "field_at s =
     (case s of
        [] \<Rightarrow> None
      | c # cs \<Rightarrow>
          (let name = takeWhile ascii_letter cs
           in if c = open_brace \<and> name \<noteq> [] \<and> py_startswith (drop (length name) cs) [close_brace]
              then Some name else None))"

function split_fields :: "string \<Rightarrow> string \<Rightarrow> string list" where
  "split_fields cur s =
     (case s of
        [] \<Rightarrow> [rev cur]
      | c # cs \<Rightarrow>
          (case field_at s of
             Some name \<Rightarrow> rev cur # name # split_fields [] (drop (Suc (length name)) cs)
           | None \<Rightarrow> split_fields (c # cur) cs))"
  by pat_completeness auto
termination
  by (relation "measure (\<lambda>(cur, s). length s)") auto

declare split_fields.simps [simp del]

text \<open>The two kinds of parts, over all but the last one (\<open>enumerate(parts[:-1])\<close>).\<close>

fun text_parts :: "'a list \<Rightarrow> 'a list" where
  "text_parts (x # y # zs) = x # text_parts zs"
| "text_parts xs = xs"

fun keyword_parts :: "'a list \<Rightarrow> 'a list" where
  "keyword_parts (x # y # zs) = y # keyword_parts zs"
| "keyword_parts xs = []"

definition template_init :: "tokenizer \<Rightarrow> string \<Rightarrow> token_template res" where
  "template_init tok template =
     (let parts = split_fields [] template;
          keywords = keyword_parts (butlast parts);
          sections = map (tok_encode tok) (text_parts (butlast parts))
      in py_assert (length keywords = length sections)
           (Inr \<lparr>tt_keywords = keywords, tt_sections = sections, tt_last = tok_encode tok (last parts)\<rparr>))"

definition template_length :: "token_template \<Rightarrow> nat" where
  "template_length t = sum_list (map length (tt_sections t)) + length (tt_last t)"

text \<open>The loop of \<open>format\<close> over \<open>enumerate(self.keywords)\<close>, from index \<open>i\<close> on.\<close>

fun template_loop :: "token_template \<Rightarrow> (string \<rightharpoonup> int list) \<Rightarrow> nat \<Rightarrow> string list \<Rightarrow> int list res" where
  "template_loop t kwargs i [] = Inr (tt_last t)"
| "template_loop t kwargs i (k # ks) =
     (case kwargs k of
        None \<Rightarrow> Inl KeyError
      | Some v \<Rightarrow>
          bind_res (py_get (tt_sections t) (int i))
            (\<lambda>s. bind_res (template_loop t kwargs (Suc i) ks) (\<lambda>r. Inr (s @ v @ r))))"

definition template_format :: "token_template \<Rightarrow> (string \<rightharpoonup> int list) \<Rightarrow> int list res" where
  "template_format t kwargs = template_loop t kwargs 0 (tt_keywords t)"

section \<open>Correctness\<close>

lemma split_fields_Nil [simp]: "split_fields cur [] = [rev cur]"
  by (simp add: split_fields.simps)

lemma split_fields_nonempty [simp]: "split_fields cur s \<noteq> []"
proof (induction cur s rule: split_fields.induct)
  case (1 cur s)
  then show ?case by (subst split_fields.simps) (auto split: list.split option.split)
qed

lemma odd_length_split_fields: "odd (length (split_fields cur s))"
proof (induction cur s rule: split_fields.induct)
  case (1 cur s)
  then show ?case by (subst split_fields.simps) (auto split: list.split option.split)
qed

lemma length_parts: "even (length xs) \<Longrightarrow> length (text_parts xs) = length (keyword_parts xs)"
  by (induction xs rule: text_parts.induct) auto

lemma template_init_succeeds: "\<exists>t. template_init tok template = Inr t"
proof -
  have "even (length (butlast (split_fields [] template)))"
    using odd_length_split_fields [of "[]" template] by simp
  then show ?thesis by (simp add: template_init_def Let_def length_parts)
qed

text \<open>The keyword loop does not depend on the place it starts at, but on the sections from there on.\<close>

fun interleave :: "(string \<rightharpoonup> int list) \<Rightarrow> string list \<Rightarrow> int list list \<Rightarrow> int list \<Rightarrow> int list res" where
  "interleave kwargs [] ss l = Inr l"
| "interleave kwargs (k # ks) [] l = (case kwargs k of None \<Rightarrow> Inl KeyError | Some v \<Rightarrow> Inl IndexError)"
| "interleave kwargs (k # ks) (s # ss) l =
     (case kwargs k of
        None \<Rightarrow> Inl KeyError
      | Some v \<Rightarrow> bind_res (interleave kwargs ks ss l) (\<lambda>r. Inr (s @ v @ r)))"

lemma template_loop_interleave:
  "template_loop t kwargs i ks = interleave kwargs ks (drop i (tt_sections t)) (tt_last t)"
proof (induction ks arbitrary: i)
  case Nil
  then show ?case by simp
next
  case (Cons k ks)
  show ?case
  proof (cases "i < length (tt_sections t)")
    case True
    then have "drop i (tt_sections t) = tt_sections t ! i # drop (Suc i) (tt_sections t)"
      by (simp add: Cons_nth_drop_Suc)
    with True Cons show ?thesis by (simp split: option.split)
  next
    case False
    then show ?thesis by (simp add: py_get_def split: option.split)
  qed
qed

text \<open>
  A template whose braces all belong to fields: then \<open>str.format\<close> sees the same fields as the regular
  expression does.
\<close>

definition plain_template :: "string \<Rightarrow> bool" where
  "plain_template s = list_all no_brace (text_parts (split_fields [] s))"


lemma split_fields_cur:
  "split_fields cur s = (rev cur @ hd (split_fields [] s)) # tl (split_fields [] s)"
proof (induction s arbitrary: cur rule: length_induct)
  case (1 s)
  show ?case
  proof (cases s)
    case Nil
    then show ?thesis by simp
  next
    case (Cons c cs)
    show ?thesis
    proof (cases "field_at s")
      case None
      then have step: "split_fields a s = split_fields (c # a) cs" for a
        using Cons by (subst split_fields.simps) simp
      have "split_fields a cs = (rev a @ hd (split_fields [] cs)) # tl (split_fields [] cs)" for a
        by (rule "1.IH" [rule_format]) (simp add: Cons)
      from this [of "c # cur"] this [of "[c]"] show ?thesis unfolding step by simp
    next
      case (Some name)
      then have "split_fields a s = rev a # name # split_fields [] (drop (Suc (length name)) cs)" for a
        using Cons by (subst split_fields.simps) simp
      then show ?thesis by simp
    qed
  qed
qed

lemma split_fields_text:
  "field_at (c # cs) = None \<Longrightarrow>
    split_fields [] (c # cs) = (c # hd (split_fields [] cs)) # tl (split_fields [] cs)"
  using split_fields_cur [of "[c]" cs] by (subst split_fields.simps) simp

lemma split_fields_field:
  "field_at (c # cs) = Some name \<Longrightarrow>
    split_fields [] (c # cs) = [] # name # split_fields [] (drop (Suc (length name)) cs)"
  by (subst split_fields.simps) simp

lemma ascii_letter_char: "ascii_letter c \<Longrightarrow> c \<noteq> open_brace \<and> c \<noteq> close_brace \<and> \<not> py_isdigit c \<and> \<not> fmt_unsupported [c]"
  by (auto simp: ascii_letter_def open_brace_def close_brace_def py_isdigit_def fmt_unsupported_def Let_def)

lemma field_at_Some:
  assumes "field_at s = Some name"
  shows "s = open_brace # name @ close_brace # drop (Suc (length name)) (tl s)"
    "name \<noteq> []" "no_brace name" "\<not> fmt_unsupported name" "\<not> list_all py_isdigit name"
proof -
  obtain c cs where s: "s = c # cs" using assms by (cases s) (auto simp: field_at_def)
  have n: "name = takeWhile ascii_letter cs" "c = open_brace" "name \<noteq> []"
    "py_startswith (drop (length name) cs) [close_brace]"
    using assms by (auto simp: field_at_def s Let_def split: if_splits)
  have cs: "cs = name @ drop (length name) cs"
    using n(1) by (metis append_eq_conv_conj takeWhile_dropWhile_id)
  have d: "drop (length name) cs = close_brace # drop (Suc (length name)) cs"
    using n(4) py_startswith_drop [OF n(4)] by (simp add: drop_drop add.commute)
  show "s = open_brace # name @ close_brace # drop (Suc (length name)) (tl s)"
    using n(2) s cs d by simp
  have letters: "\<forall>c\<in>set name. ascii_letter c" using n(1) set_takeWhileD by metis
  show "name \<noteq> []" by (rule n(3))
  show "no_brace name" using letters ascii_letter_char by (auto simp: no_brace_def list_all_iff)
  show "\<not> fmt_unsupported name" using letters ascii_letter_char by (auto simp: fmt_unsupported_def)
  show "\<not> list_all py_isdigit name" using letters ascii_letter_char n(3) by (cases name) auto
qed

text \<open>The parts of a template put together again, with the fields looked up.\<close>

fun render_parts :: "(string \<rightharpoonup> string) \<Rightarrow> string list \<Rightarrow> string res" where
  "render_parts env (x # k # ps) =
     (case env k of
        None \<Rightarrow> Inl KeyError
      | Some v \<Rightarrow> bind_res (render_parts env ps) (\<lambda>r. Inr (x @ v @ r)))"
| "render_parts env [x] = Inr x"
| "render_parts env [] = Inr []"

lemma render_parts_prefix:
  "ps \<noteq> [] \<Longrightarrow> render_parts env ((c # hd ps) # tl ps) = bind_res (render_parts env ps) (\<lambda>r. Inr (c # r))"
  by (cases "(env, ps)" rule: render_parts.cases) (auto simp: bind_res_assoc split: option.split)

lemma no_brace_Cons: "no_brace (c # s) \<longleftrightarrow> no_brace [c] \<and> no_brace s"
  by (auto simp: no_brace_def)

lemma py_format_render:
  "list_all no_brace (text_parts (split_fields [] s)) \<Longrightarrow> py_format env s = render_parts env (split_fields [] s)"
proof (induction s rule: length_induct)
  case (1 s)
  show ?case
  proof (cases s)
    case Nil
    then show ?thesis by simp
  next
    case (Cons c cs)
    show ?thesis
    proof (cases "field_at s")
      case None
      note sp = split_fields_text [OF None [unfolded Cons]]
      obtain p ps where p: "split_fields [] cs = p # ps" by (cases "split_fields [] cs") auto
      have "list_all no_brace (text_parts (p # ps)) \<and> no_brace [c]"
        using "1.prems" no_brace_Cons [of c p] unfolding Cons sp p by (cases ps) auto
      then have "py_format env cs = render_parts env (p # ps)" "no_brace [c]"
        using 1 Cons p by auto
      then show ?thesis
        using py_format_text [of "[c]" env cs] render_parts_prefix [of "p # ps" env c]
        unfolding Cons sp p by simp
    next
      case (Some name)
      note f = field_at_Some [OF Some] and sp = split_fields_field [OF Some [unfolded Cons]]
      define rest where "rest = drop (Suc (length name)) cs"
      have "list_all no_brace (text_parts (split_fields [] rest))"
        using "1.prems" unfolding Cons sp rest_def by simp
      moreover have "length rest < length s" by (simp add: rest_def Cons)
      ultimately have ih: "py_format env rest = render_parts env (split_fields [] rest)"
        using 1 by blast
      have "s = open_brace # name @ close_brace # rest" using f(1) by (simp add: rest_def Cons)
      then have "py_format env s = bind_res (fmt_lookup env name) (\<lambda>v. bind_res (py_format env rest) (\<lambda>r. Inr (v @ r)))"
        using py_format_field [OF f(2,3)] by simp
      also have "fmt_lookup env name = (case env name of None \<Rightarrow> Inl KeyError | Some v \<Rightarrow> Inr v)"
        using f(4,5) by (simp add: fmt_lookup_def)
      finally show ?thesis unfolding Cons sp rest_def [symmetric]
        by (simp add: ih split: option.split)
    qed
  qed
qed

lemma render_interleave:
  assumes "\<And>s. dec (enc s) = s" "\<And>a b. dec (a @ b) = dec a @ dec b"
  shows "odd (length ps) \<Longrightarrow>
    render_parts (\<lambda>k. map_option dec (kwargs k)) ps =
    bind_res (interleave kwargs (keyword_parts (butlast ps)) (map enc (text_parts (butlast ps))) (enc (last ps)))
      (\<lambda>ids. Inr (dec ids))"
proof (induction ps rule: keyword_parts.induct)
  case (1 x y zs)
  then have "zs \<noteq> []" "odd (length zs)" by auto
  then show ?case using 1 by (simp add: assms bind_res_assoc split: option.split)
qed (simp_all add: assms)

text \<open>What the class promises: with a tokenizer that gets back every text it encoded and decodes
  a concatenation piece by piece, a template whose braces all belong to fields is filled over token
  identifiers exactly as \<open>str.format\<close> fills it over text: decoding the result is the formatted
  text, and a missing keyword is a \<open>KeyError\<close> of both.\<close>

theorem token_template_format:
  assumes "\<And>s. tok_decode tok b (tok_encode tok s) = s"
    and "\<And>x y. tok_decode tok b (x @ y) = tok_decode tok b x @ tok_decode tok b y"
    and "plain_template template" "template_init tok template = Inr t"
  shows "bind_res (template_format t kwargs) (\<lambda>ids. Inr (tok_decode tok b ids)) =
    py_format (\<lambda>k. map_option (tok_decode tok b) (kwargs k)) template"
proof -
  let ?ps = "split_fields [] template"
  have "tt_keywords t = keyword_parts (butlast ?ps)" "tt_sections t = map (tok_encode tok) (text_parts (butlast ?ps))"
    "tt_last t = tok_encode tok (last ?ps)"
    using assms(4) by (auto simp: template_init_def Let_def py_assert_eq_Inr)
  then have "bind_res (template_format t kwargs) (\<lambda>ids. Inr (tok_decode tok b ids)) =
    render_parts (\<lambda>k. map_option (tok_decode tok b) (kwargs k)) ?ps"
    using render_interleave [OF assms(1,2) odd_length_split_fields [of "[]" template], of kwargs]
    by (simp add: template_format_def template_loop_interleave)
  also have "\<dots> = py_format (\<lambda>k. map_option (tok_decode tok b) (kwargs k)) template"
    using assms(3) by (simp add: py_format_render plain_template_def)
  finally show ?thesis .
qed

text \<open>A tokenizer of one identifier per character, for concrete runs.\<close>

definition char_tokenizer :: tokenizer where
  "char_tokenizer = \<lparr>tok_encode = map (\<lambda>c. int (code_point c)),
     tok_decode = (\<lambda>b ids. map (\<lambda>i. char_of (nat i)) (filter (\<lambda>i. 0 \<le> i) ids)),
     tok_chat = (\<lambda>ms. concat (map (\<lambda>(r, c). r @ '': '' @ c) ms)), tok_pad = - 1, tok_eos = - 2\<rparr>"

lemma char_tokenizer_roundtrip: "tok_decode char_tokenizer b (tok_encode char_tokenizer s) = s"
  by (induction s) (simp_all add: char_tokenizer_def)

lemma char_tokenizer_append:
  "tok_decode char_tokenizer b (x @ y) = tok_decode char_tokenizer b x @ tok_decode char_tokenizer b y"
  by (simp add: char_tokenizer_def)

definition sample_template :: string where
  "sample_template = ''Solve '' @ open_brace # ''problem'' @ close_brace # '' now''"

theorem token_template_format_witness:
  "\<exists>t. bind_res (template_format t [''problem'' \<mapsto> [49, 43, 49]]) (\<lambda>ids. Inr (tok_decode char_tokenizer True ids)) =
    py_format (\<lambda>k. map_option (tok_decode char_tokenizer True) ([''problem'' \<mapsto> [49, 43, 49]] k)) sample_template \<and>
    py_format (\<lambda>k. map_option (tok_decode char_tokenizer True) ([''problem'' \<mapsto> [49, 43, 49]] k)) sample_template
      = Inr ''Solve 1+1 now''"
proof -
  obtain t where t: "template_init char_tokenizer sample_template = Inr t"
    using template_init_succeeds by blast
  have "plain_template sample_template" by code_simp
  from token_template_format [OF char_tokenizer_roundtrip char_tokenizer_append this t]
  have "bind_res (template_format t [''problem'' \<mapsto> [49, 43, 49]]) (\<lambda>ids. Inr (tok_decode char_tokenizer True ids)) =
    py_format (\<lambda>k. map_option (tok_decode char_tokenizer True) ([''problem'' \<mapsto> [49, 43, 49]] k)) sample_template" .
  moreover have "py_format (\<lambda>k. map_option (tok_decode char_tokenizer True) ([''problem'' \<mapsto> [49, 43, 49]] k)) sample_template
      = Inr ''Solve 1+1 now''"
    by code_simp
  ultimately show ?thesis by blast
qed

text \<open>The equality the class documents fails for a template with escaped braces: \<open>str.format\<close>
  halves them and the token template keeps them.\<close>

theorem token_template_escapes_differ:
  "\<exists>t. template_init char_tokenizer ''{{}}'' = Inr t \<and>
    bind_res (template_format t Map.empty) (\<lambda>ids. Inr (tok_decode char_tokenizer True ids)) = Inr ''{{}}'' \<and>
    py_format Map.empty ''{{}}'' = Inr ''{}''"
proof (intro exI conjI)
  show "template_init char_tokenizer ''{{}}'' =
    Inr \<lparr>tt_keywords = [], tt_sections = [], tt_last = [123, 123, 125, 125]\<rparr>"
    by code_simp
qed code_simp+

end
