(* ===== verification/TensorUtils.thy ===== *)
theory TensorUtils
  imports TokenTemplate
begin

text \<open>
  The tensor helpers of \<open>recurrent/utils.py\<close>: padding a list of token sequences to a rectangle and
  back, masks and positions, the index pattern that spreads padding rows over the workers, and the
  index arithmetic of the final turns. A one-dimensional tensor is a list, a two-dimensional one the
  list of its rows.
\<close>

section \<open>Padding to a rectangle\<close>

definition pad_target :: "nat \<Rightarrow> int option \<Rightarrow> nat" where
  "pad_target response_length max_length =
     (case max_length of
        None \<Rightarrow> response_length
      | Some m \<Rightarrow> if int response_length < m then nat m else response_length)"

definition pad_row :: "bool \<Rightarrow> 'a \<Rightarrow> nat \<Rightarrow> 'a list \<Rightarrow> 'a list" where
  "pad_row left_pad pad n xs =
     (let fill = replicate (n - length xs) pad in if left_pad then fill @ xs else xs @ fill)"

text \<open>\<open>max()\<close> of no lengths is a \<open>ValueError\<close>.\<close>

definition pad_tensor_list_to_length :: "'a list list \<Rightarrow> 'a \<Rightarrow> int option \<Rightarrow> bool \<Rightarrow> 'a list list res" where
  "pad_tensor_list_to_length response pad max_length left_pad =
     (if response = [] then Inl ValueError
      else let n = pad_target (Max (set (map length response))) max_length
           in Inr (map (pad_row left_pad pad n) response))"

text \<open>The mask of \<open>return_mask=True\<close>, for a target length \<open>n\<close>.\<close>

definition mask_row :: "bool \<Rightarrow> nat \<Rightarrow> 'a list \<Rightarrow> bool list" where
  "mask_row left_pad n xs =
     (let k = n - length xs
      in if left_pad then replicate k False @ replicate (n - k) True
         else if 0 < k then replicate (n - k) True @ replicate k False else replicate n True)"

definition pad_tensor_list_with_mask ::
  "'a list list \<Rightarrow> 'a \<Rightarrow> int option \<Rightarrow> bool \<Rightarrow> ('a list list \<times> bool list list) res" where
  "pad_tensor_list_with_mask response pad max_length left_pad =
     bind_res (pad_tensor_list_to_length response pad max_length left_pad)
       (\<lambda>padded.
          let n = pad_target (Max (set (map length response))) max_length
          in Inr (padded, map (mask_row left_pad n) response))"

text \<open>\<open>unpad\<close> keeps the tokens that are neither padding nor, if asked, the end of the sequence.\<close>

definition unpad_row :: "tokenizer \<Rightarrow> bool \<Rightarrow> int list \<Rightarrow> int list" where
  "unpad_row tok remove_eos xs =
     filter (\<lambda>x. x \<noteq> tok_pad tok \<and> (remove_eos \<longrightarrow> x \<noteq> tok_eos tok)) xs"

definition unpad :: "tokenizer \<Rightarrow> int list list \<Rightarrow> bool \<Rightarrow> int list list" where
  "unpad tok rows remove_eos = map (unpad_row tok remove_eos) rows"

definition create_attention_mask :: "int list list \<Rightarrow> int \<Rightarrow> int list list" where
  "create_attention_mask input_ids pad = map (map (\<lambda>x. if x \<noteq> pad then 1 else 0)) input_ids"

fun cumsum :: "int \<Rightarrow> int list \<Rightarrow> int list" where
  "cumsum a [] = []"
| "cumsum a (x # xs) = (a + x) # cumsum (a + x) xs"

definition create_position_ids :: "int list list \<Rightarrow> int list list" where
  "create_position_ids attention_mask = map (\<lambda>row. map (\<lambda>c. max (c - 1) 0) (cumsum 0 row)) attention_mask"

section \<open>Padding spread over the groups\<close>

definition no_padding_mask :: "nat \<Rightarrow> nat \<Rightarrow> bool list" where
  "no_padding_mask bsz group_nums =
     (let group_size = bsz div group_nums + 1; remainder = bsz mod group_nums
      in map (\<lambda>i. i div group_size < remainder \<or> i mod group_size \<noteq> 0) [0..<group_nums * group_size])"

definition graceful_padding :: "nat \<Rightarrow> nat \<Rightarrow> (int list \<times> bool list) res" where
  "graceful_padding bsz group_nums =
     (if group_nums = 0 then Inl ZeroDivisionError
      else if bsz mod group_nums = 0 then Inr (map int [0..<bsz], replicate bsz True)
      else let keep = no_padding_mask bsz group_nums;
               padding_index = map (\<lambda>c. c - 1) (cumsum 0 (map of_bool keep))
           in Inr (map2 (\<lambda>i b. if b then i else - 1) padding_index keep, keep))"

section \<open>Indices of the final turns\<close>

text \<open>\<open>torch.unique\<close>, and the reverse of an array of distinct indices.\<close>

definition torch_unique :: "int list \<Rightarrow> int list" where
  "torch_unique xs = sort (remdups xs)"

fun first_index :: "'a \<Rightarrow> 'a list \<Rightarrow> nat" where
  "first_index x [] = 0"
| "first_index x (y # ys) = (if x = y then 0 else Suc (first_index x ys))"

definition reverse_indices :: "int list \<Rightarrow> nat list res" where
  "reverse_indices t =
     (let unique = torch_unique t
      in py_assert (length unique = length t) (Inr (map (\<lambda>u. first_index u t) unique)))"

text \<open>Selection by a boolean mask.\<close>

definition mask_select :: "bool list \<Rightarrow> 'a list \<Rightarrow> 'a list" where
  "mask_select keep xs = map snd (filter fst (zip keep xs))"

definition clip_long_string :: "string \<Rightarrow> int \<Rightarrow> string" where
  "clip_long_string s max_length =
     (if \<not> max_length < int (length s) then s
      else let mark = [CHR 0x0A, CHR 0x0A] @ ''...(truncated)'' @ [CHR 0x0A, CHR 0x0A];
               target_len = max_length - int (length mark)
           in py_slice None (Some (target_len div 2)) s @ mark @ py_slice (Some ((- target_len) div 2)) None s)"

text \<open>The message of a completion: a textual stop reason is put back behind the content.\<close>

record choice =
  ch_role :: string
  ch_content :: string
  ch_finish :: string
  ch_stop :: "string option"

record chat_message =
  cm_role :: string
  cm_content :: string
  cm_finished :: bool

definition choice_msg :: "choice \<Rightarrow> chat_message" where
  "choice_msg c =
     \<lparr>cm_role = ch_role c,
      cm_content = ch_content c @ (case ch_stop c of Some s \<Rightarrow> s | None \<Rightarrow> []),
      cm_finished = (ch_finish c = ''stop'')\<rparr>"


section \<open>Correctness of the padding\<close>

lemma length_cumsum [simp]: "length (cumsum a xs) = length xs"
  by (induction xs arbitrary: a) auto

lemma length_pad_row [simp]: "length xs \<le> n \<Longrightarrow> length (pad_row l p n xs) = n"
  by (simp add: pad_row_def Let_def)

lemma pad_target_ge: "m \<le> pad_target m ml"
  by (auto simp: pad_target_def split: option.split)

lemma pad_tensor_list_Inr:
  assumes "pad_tensor_list_to_length response pad ml l = Inr rows"
  shows "\<exists>n. rows = map (pad_row l pad n) response \<and> n = pad_target (Max (set (map length response))) ml \<and>
    (\<forall>xs\<in>set response. length xs \<le> n)"
proof -
  have "length xs \<le> Max (set (map length response))" if "xs \<in> set response" for xs
    using that by (intro Max_ge) auto
  then have "\<forall>xs\<in>set response. length xs \<le> pad_target (Max (set (map length response))) ml"
    using pad_target_ge le_trans by blast
  then show ?thesis using assms by (auto simp: pad_tensor_list_to_length_def Let_def split: if_splits)
qed

lemma filter_id: "(\<And>x. x \<in> set xs \<Longrightarrow> P x) \<Longrightarrow> filter P xs = xs"
  by (induction xs) auto

lemma unpad_row_pad_row:
  assumes "tok_pad tok \<notin> set xs" "e \<longrightarrow> tok_eos tok \<notin> set xs"
  shows "unpad_row tok e (pad_row l (tok_pad tok) n xs) = xs"
proof -
  have "filter (\<lambda>x. x \<noteq> tok_pad tok \<and> (e \<longrightarrow> x \<noteq> tok_eos tok)) xs = xs"
    using assms by (intro filter_id) auto
  then show ?thesis by (simp add: unpad_row_def pad_row_def Let_def)
qed

lemma mask_select_append [slice_simps]:
  "length ks = length xs \<Longrightarrow> mask_select (ks @ ks') (xs @ xs') = mask_select ks xs @ mask_select ks' xs'"
  by (simp add: mask_select_def)

lemma mask_select_True [simp, slice_simps]: "mask_select (replicate n True) xs = take n xs"
  by (induction n arbitrary: xs) (auto simp: mask_select_def zip_Cons1 split: list.split)

lemma mask_select_False [simp, slice_simps]: "mask_select (replicate n False) xs = []"
  by (auto simp: mask_select_def filter_empty_conv set_zip)

lemma mask_row_selects:
  "length xs \<le> n \<Longrightarrow> mask_select (mask_row l n xs) (pad_row l p n xs) = xs \<and> length (mask_row l n xs) = n"
  by (auto simp: mask_row_def pad_row_def Let_def mask_select_append)

lemma cumsum_zeros: "cumsum a (replicate n 0 @ xs) = replicate n a @ cumsum a xs"
  by (induction n) auto

lemma cumsum_append: "cumsum a (xs @ ys) = cumsum a xs @ cumsum (a + sum_list xs) ys"
  by (induction xs arbitrary: a) (auto simp: add.assoc)

lemma cumsum_ones: "cumsum a (replicate n 1) = map (\<lambda>i. a + 1 + int i) [0..<n]"
proof (induction n arbitrary: a)
  case (Suc n)
  then show ?case by (simp add: map_upt_Suc algebra_simps del: upt_Suc)
qed simp

lemma position_ids_left_pad:
  assumes "p \<notin> set xs" "length xs \<le> n"
  shows "create_position_ids (create_attention_mask [pad_row True p n xs] p) =
    [replicate (n - length xs) 0 @ map int [0..<length xs]]"
proof -
  have "map (\<lambda>x. if x \<noteq> p then 1 else 0) xs = replicate (length xs) (1 :: int)"
    using assms(1) by (induction xs) auto
  then show ?thesis
    by (simp add: create_position_ids_def create_attention_mask_def pad_row_def Let_def cumsum_zeros cumsum_ones)
qed

section \<open>Correctness of the group padding\<close>

lemma mask_select_Cons: "mask_select (b # ks) (x # xs) = (if b then x # mask_select ks xs else mask_select ks xs)"
  by (simp add: mask_select_def)

lemma mask_select_cumsum:
  "mask_select ks (map (\<lambda>c. c - 1) (cumsum a (map of_bool ks))) =
    map (\<lambda>i. a + int i) [0..<length (filter (\<lambda>b. b) ks)]"
proof (induction ks arbitrary: a)
  case Nil
  then show ?case by (simp add: mask_select_def)
next
  case (Cons b ks)
  show ?case
  proof (cases b)
    case True
    have "map (\<lambda>i. a + int i) [0..<Suc (length (filter (\<lambda>b. b) ks))] = a # map (\<lambda>i. a + 1 + int i) [0..<length (filter (\<lambda>b. b) ks)]"
      by (subst map_upt_Suc) (simp add: algebra_simps)
    then show ?thesis using Cons [of "a + 1"] True by (simp add: mask_select_Cons del: upt_Suc)
  next
    case False
    then show ?thesis using Cons [of a] by (simp add: mask_select_Cons)
  qed
qed

lemma mask_select_map2:
  "mask_select ks (map2 (\<lambda>i b. if b then i else z) xs ks) = mask_select ks xs"
proof (induction ks arbitrary: xs)
  case Nil
  then show ?case by (simp add: mask_select_def)
next
  case (Cons b ks)
  then show ?case by (cases xs) (auto simp: mask_select_Cons mask_select_def)
qed

lemma upt_block: "[n * s..<n * s + s] = map (\<lambda>j. n * s + j) [0..<s]"
  by (simp add: map_add_upt add.commute)

lemma count_block:
  fixes s :: nat
  assumes "0 < s"
  shows "length (filter (\<lambda>i. i div s < r \<or> i mod s \<noteq> 0) [n * s..<n * s + s]) = (if n < r then s else s - 1)"
proof -
  have "filter (\<lambda>i. i div s < r \<or> i mod s \<noteq> 0) [n * s..<n * s + s] =
    map (\<lambda>j. n * s + j) (filter (\<lambda>j. n < r \<or> j \<noteq> 0) [0..<s])"
    unfolding upt_block filter_map o_def using assms by (intro arg_cong [of _ _ "map _"] filter_cong) auto
  moreover have "length (filter (\<lambda>j. j \<noteq> 0) [0..<s]) = s - 1"
    using assms by (simp add: upt_conv_Cons filter_id del: upt_Suc)
  ultimately show ?thesis by simp
qed

lemma count_no_padding:
  fixes s :: nat
  assumes "0 < s"
  shows "length (filter (\<lambda>i. i div s < r \<or> i mod s \<noteq> 0) [0..<n * s]) = n * (s - 1) + min n r"
proof (induction n)
  case 0
  then show ?case by simp
next
  case (Suc n)
  have "[0..<Suc n * s] = [0..<n * s] @ [n * s..<n * s + s]"
    by (metis add.commute mult_Suc upt_add_eq_append zero_le)
  then have "length (filter (\<lambda>i. i div s < r \<or> i mod s \<noteq> 0) [0..<Suc n * s]) =
    n * (s - 1) + min n r + (if n < r then s else s - 1)"
    using Suc count_block [OF assms, of r n] by simp
  then show ?case using assms by (cases s) auto
qed

lemma no_padding_count:
  assumes "0 < g"
  shows "length (filter (\<lambda>b. b) (no_padding_mask bsz g)) = bsz"
proof -
  have "length (filter (\<lambda>b. b) (no_padding_mask bsz g)) =
    length (filter (\<lambda>i. i div (bsz div g + 1) < bsz mod g \<or> i mod (bsz div g + 1) \<noteq> 0) [0..<g * (bsz div g + 1)])"
    by (simp add: no_padding_mask_def Let_def filter_map o_def)
  also have "\<dots> = g * (bsz div g + 1 - 1) + min g (bsz mod g)"
    by (rule count_no_padding) simp
  also have "\<dots> = bsz" using assms by (simp add: min_absorb2 less_imp_le)
  finally show ?thesis .
qed

lemma graceful_padding_Inr:
  assumes "graceful_padding bsz g = Inr (idx, ks)"
  shows "0 < g \<and> length idx = length ks \<and> mask_select ks idx = map int [0..<bsz] \<and>
    length (filter (\<lambda>b. b) ks) = bsz \<and> length ks mod g = 0 \<and>
    (\<forall>i<length ks. \<not> ks ! i \<longrightarrow> idx ! i = - 1)"
proof (cases "bsz mod g = 0")
  case True
  then show ?thesis using assms by (auto simp: graceful_padding_def split: if_splits)
next
  case False
  then have g: "0 < g" and ks: "ks = no_padding_mask bsz g"
    and idx: "idx = map2 (\<lambda>i b. if b then i else - 1) (map (\<lambda>c. c - 1) (cumsum 0 (map of_bool ks))) ks"
    using assms by (auto simp: graceful_padding_def Let_def split: if_splits)
  have "mask_select ks idx = map int [0..<length (filter (\<lambda>b. b) ks)]"
    unfolding idx mask_select_map2 by (simp add: mask_select_cumsum)
  moreover have "length (filter (\<lambda>b. b) ks) = bsz" unfolding ks by (rule no_padding_count [OF g])
  moreover have "length ks = g * (bsz div g + 1)" by (simp add: ks no_padding_mask_def Let_def)
  ultimately show ?thesis using g by (simp add: idx)
qed

lemma graceful_padding_succeeds: "0 < g \<Longrightarrow> \<exists>idx ks. graceful_padding bsz g = Inr (idx, ks)"
  by (auto simp: graceful_padding_def Let_def)

text \<open>Every group of consecutive rows has at most one padding row, and it is the group's first.\<close>

lemma graceful_padding_groups:
  assumes "0 < g" "bsz mod g \<noteq> 0" "i < g * (bsz div g + 1)"
  shows "no_padding_mask bsz g ! i \<longleftrightarrow> i div (bsz div g + 1) < bsz mod g \<or> i mod (bsz div g + 1) \<noteq> 0"
  using assms by (simp add: no_padding_mask_def Let_def)

section \<open>Correctness of the reversed indices\<close>

lemma first_index_nth: "x \<in> set xs \<Longrightarrow> first_index x xs < length xs \<and> xs ! first_index x xs = x"
  by (induction xs) auto

lemma reverse_indices_Inr:
  assumes "reverse_indices t = Inr idx"
  shows "distinct t \<and> map (\<lambda>i. t ! i) idx = sort t \<and> is_index_perm (length t) idx"
proof -
  have len: "length (remdups t) = length t" and idx: "idx = map (\<lambda>u. first_index u t) (sort (remdups t))"
    using assms by (auto simp: reverse_indices_def torch_unique_def Let_def py_assert_eq_Inr)
  have d: "distinct t" using len by (metis length_remdups_eq distinct_remdups)
  then have idx': "idx = map (\<lambda>u. first_index u t) (sort t)" using idx by (simp add: distinct_remdups_id)
  have nth: "map (\<lambda>i. t ! i) idx = sort t"
    unfolding idx' map_map by (intro map_idI) (simp add: first_index_nth)
  have "inj_on (\<lambda>u. first_index u t) (set t)"
    by (metis (no_types, lifting) first_index_nth inj_onI)
  then have "distinct idx" unfolding idx' using d by (simp add: distinct_map)
  moreover have "set idx \<subseteq> {..<length t}" unfolding idx' by (auto simp: first_index_nth)
  moreover have "card {..<length t} = length idx" by (simp add: idx')
  ultimately have "set idx = {..<length t}"
    by (metis card_subset_eq distinct_card finite_lessThan)
  then show ?thesis using d nth \<open>distinct idx\<close> by (simp add: index_permI)
qed

lemma reverse_indices_perm:
  assumes "mset t = mset (map int [0..<n])"
  shows "\<exists>idx. reverse_indices t = Inr idx \<and> map (\<lambda>i. t ! i) idx = map int [0..<n]"
proof -
  have "distinct (map int [0..<n])" by (simp add: distinct_map)
  then have d: "distinct t" using assms by (metis mset_eq_imp_distinct_iff)
  then obtain idx where r: "reverse_indices t = Inr idx"
    by (auto simp: reverse_indices_def torch_unique_def Let_def distinct_remdups_id)
  have "sorted (map int [0..<n])" by (simp add: sorted_iff_nth_mono)
  then have "sort t = map int [0..<n]" using assms by (metis properties_for_sort)
  then show ?thesis using reverse_indices_Inr [OF r] r by auto
qed


text \<open>Padding a non-empty list of token sequences, on either side and to any asked length, gives a
  rectangle at least as wide as asked, its mask selects the original tokens, and \<open>unpad\<close> gives back
  the sequences, if none of them holds the padding token (or, when it is removed too, the end
  token).\<close>

theorem pad_unpad_roundtrip:
  assumes "response \<noteq> []" "\<forall>xs\<in>set response. tok_pad tok \<notin> set xs \<and> (e \<longrightarrow> tok_eos tok \<notin> set xs)"
  shows "\<exists>rows masks n. pad_tensor_list_with_mask response (tok_pad tok) ml left = Inr (rows, masks) \<and>
    (\<forall>row\<in>set rows. length row = n) \<and> (\<forall>m. ml = Some m \<longrightarrow> m \<le> int n) \<and>
    map2 mask_select masks rows = response \<and> unpad tok rows e = response"
proof -
  define n where "n = pad_target (Max (set (map length response))) ml"
  have r: "pad_tensor_list_to_length response (tok_pad tok) ml left = Inr (map (pad_row left (tok_pad tok) n) response)"
    using assms(1) by (simp add: pad_tensor_list_to_length_def Let_def n_def)
  have len: "\<forall>xs\<in>set response. length xs \<le> n"
    using pad_tensor_list_Inr [OF r] by (auto simp: n_def)
  have "map2 mask_select (map (mask_row left n) response) (map (pad_row left (tok_pad tok) n) response) = response"
    using len by (auto simp: zip_map_map zip_same_conv_map mask_row_selects intro!: map_idI)
  moreover have "unpad tok (map (pad_row left (tok_pad tok) n) response) e = response"
    using assms(2) by (auto simp: unpad_def unpad_row_pad_row intro!: map_idI)
  moreover have "\<forall>m. ml = Some m \<longrightarrow> m \<le> int n" by (simp add: n_def pad_target_def)
  ultimately show ?thesis
    using r len unfolding pad_tensor_list_with_mask_def n_def [symmetric] bind_res_Inr
    by (intro exI [of _ "map (pad_row left (tok_pad tok) n) response"] exI [of _ "map (mask_row left n) response"] exI [of _ n])
      (auto simp: Let_def n_def)
qed

theorem pad_unpad_roundtrip_witness:
  "\<exists>rows masks n. pad_tensor_list_with_mask [[5, 6, 7], [], [8]] (tok_pad char_tokenizer) (Some 4) True = Inr (rows, masks) \<and>
    (\<forall>row\<in>set rows. length row = n) \<and> (\<forall>m. Some 4 = Some m \<longrightarrow> m \<le> int n) \<and>
    map2 mask_select masks rows = [[5, 6, 7], [], [8]] \<and> unpad char_tokenizer rows True = [[5, 6, 7], [], [8]]"
  by (rule pad_unpad_roundtrip) (simp_all add: char_tokenizer_def)

end
