(* ===== verification/DataProto.thy ===== *)
theory DataProto
  imports TensorUtils MicroBatches "HOL-Library.AList"
begin

text \<open>
  The batch container of \<open>verl/protocol.py\<close>: named columns of rows (the tensors, split along their
  first dimension), named columns of objects (the NumPy arrays) and meta information. A Python
  dictionary is an association list in insertion order, updated by \<open>AList.update\<close>.
\<close>

section \<open>The data\<close>

type_synonym 'a cols = "(string \<times> 'a list) list"

record 't tensor_dict =
  td_size :: nat
  td_cols :: "'t cols"

text \<open>
  Meta information. The key \<open>metrics\<close> may hold a dictionary or a list of dictionaries, whose leaves
  become lists when workers are merged; other values are only compared.
\<close>

datatype 'm metric = Leaf 'm | Leaves "'m metric list"

datatype ('v, 'm) meta_value =
    MetaNone
  | MetaBool bool
  | MetaVal 'v
  | MetaDict "(string \<times> 'm metric) list"
  | MetaDicts "(string \<times> 'm metric) list list"

type_synonym ('v, 'm) meta = "(string \<times> ('v, 'm) meta_value) list"

record ('t, 'n, 'v, 'm) data_proto =
  dp_batch :: "'t tensor_dict option"
  dp_non :: "'n cols"
  dp_meta :: "('v, 'm) meta"

definition metrics_key :: string where "metrics_key = ''metrics''"
definition auto_padding_key :: string where "auto_padding_key = ''_verl_auto_padding''"

text \<open>\<open>TensorDict(source, batch_size)\<close>: every column has the batch size.\<close>

definition make_td :: "'t cols \<Rightarrow> nat \<Rightarrow> 't tensor_dict res" where
  "make_td cols n =
     (if list_all (\<lambda>(k, c). length c = n) cols then Inr \<lparr>td_size = n, td_cols = cols\<rparr> else Inl RuntimeError)"

text \<open>The constructor, with \<open>check_consistency\<close>.\<close>

definition check_consistency :: "'t tensor_dict option \<Rightarrow> 'n cols \<Rightarrow> bool" where
  "check_consistency batch non =
     (case batch of None \<Rightarrow> True | Some td \<Rightarrow> list_all (\<lambda>(k, c). length c = td_size td) non)"

definition make_dp :: "'t tensor_dict option \<Rightarrow> 'n cols \<Rightarrow> ('v, 'm) meta \<Rightarrow> ('t, 'n, 'v, 'm) data_proto res" where
  "make_dp batch non meta =
     py_assert (check_consistency batch non) (Inr \<lparr>dp_batch = batch, dp_non = non, dp_meta = meta\<rparr>)"

definition dp_len :: "('t, 'n, 'v, 'm) data_proto \<Rightarrow> nat" where
  "dp_len d =
     (case dp_batch d of
        Some td \<Rightarrow> td_size td
      | None \<Rightarrow> (case dp_non d of [] \<Rightarrow> 0 | (k, c) # cs \<Rightarrow> length c))"

text \<open>\<open>from_dict\<close> with one batch dimension.\<close>

definition from_dict :: "'t cols \<Rightarrow> 'n cols \<Rightarrow> ('v, 'm) meta \<Rightarrow> bool \<Rightarrow> ('t, 'n, 'v, 'm) data_proto res" where
  "from_dict tensors non meta auto_padding =
     (case tensors of
        [] \<Rightarrow> make_dp None non (if auto_padding then AList.update auto_padding_key (MetaBool True) meta else meta)
      | (k, c) # cs \<Rightarrow>
          py_assert (list_all (\<lambda>(k', c'). length c' = length c) cs)
            (make_dp (Some \<lparr>td_size = length c, td_cols = tensors\<rparr>) non
               (if auto_padding then AList.update auto_padding_key (MetaBool True) meta else meta)))"

datatype ('t, 'n) array = Tensor "'t list" | NdArray "'n list"

definition from_single_dict ::
  "(string \<times> ('t, 'n) array) list \<Rightarrow> ('v, 'm) meta \<Rightarrow> bool \<Rightarrow> ('t, 'n, 'v, 'm) data_proto res" where
  "from_single_dict data meta auto_padding =
     from_dict (concat (map (\<lambda>(k, v). case v of Tensor c \<Rightarrow> [(k, c)] | NdArray c \<Rightarrow> []) data))
       (concat (map (\<lambda>(k, v). case v of Tensor c \<Rightarrow> [] | NdArray c \<Rightarrow> [(k, c)]) data)) meta auto_padding"

section \<open>Selecting rows\<close>

definition map_cols :: "('a list \<Rightarrow> 'b list) \<Rightarrow> 'a cols \<Rightarrow> 'b cols" where
  "map_cols f cols = map (\<lambda>(k, c). (k, f c)) cols"

definition map_cols_res :: "('a list \<Rightarrow> 'b list res) \<Rightarrow> 'a cols \<Rightarrow> 'b cols res" where
  "map_cols_res f cols = map_res (\<lambda>(k, c). bind_res (f c) (\<lambda>c'. Inr (k, c'))) cols"

text \<open>Fancy indexing: integers, negative ones from the end, or a mask of the full length.\<close>

datatype indices = Ints "int list" | Mask "bool list"

definition fancy_index :: "indices \<Rightarrow> 'a list \<Rightarrow> 'a list res" where
  "fancy_index idx xs =
     (case idx of
        Ints is \<Rightarrow> map_res (py_get xs) is
      | Mask ks \<Rightarrow> if length ks = length xs then Inr (mask_select ks xs) else Inl IndexError)"

definition indices_size :: "indices \<Rightarrow> nat" where
  "indices_size idx = (case idx of Ints is \<Rightarrow> length is | Mask ks \<Rightarrow> length (filter (\<lambda>b. b) ks))"

definition dp_select_idxs :: "indices \<Rightarrow> ('t, 'n, 'v, 'm) data_proto \<Rightarrow> ('t, 'n, 'v, 'm) data_proto res" where
  "dp_select_idxs idx d =
     bind_res
       (case dp_batch d of
          None \<Rightarrow> Inr None
        | Some td \<Rightarrow> bind_res (map_cols_res (fancy_index idx) (td_cols td))
                       (\<lambda>cols. bind_res (make_td cols (indices_size idx)) (\<lambda>td'. Inr (Some td'))))
       (\<lambda>batch. bind_res (map_cols_res (fancy_index idx) (dp_non d))
         (\<lambda>non. make_dp batch non (dp_meta d)))"

text \<open>A slice with a positive step (\<open>None\<close> for 1).\<close>

definition slice_rows :: "int option \<Rightarrow> int option \<Rightarrow> nat option \<Rightarrow> 'a list \<Rightarrow> 'a list" where
  "slice_rows start stop step xs =
     (case step of None \<Rightarrow> py_slice start stop xs | Some s \<Rightarrow> py_step s (py_slice start stop xs))"

definition dp_slice ::
  "int option \<Rightarrow> int option \<Rightarrow> nat option \<Rightarrow> ('t, 'n, 'v, 'm) data_proto \<Rightarrow> ('t, 'n, 'v, 'm) data_proto res" where
  "dp_slice start stop step d =
     (if step = Some 0 then Inl ValueError
      else make_dp
        (map_option (\<lambda>td. \<lparr>td_size = length (slice_rows start stop step [0..<td_size td]),
                           td_cols = map_cols (slice_rows start stop step) (td_cols td)\<rparr>) (dp_batch d))
        (map_cols (slice_rows start stop step) (dp_non d)) (dp_meta d))"

text \<open>\<open>reorder\<close> (in place; a batch without tensors cannot be indexed).\<close>

definition dp_reorder :: "int list \<Rightarrow> ('t, 'n, 'v, 'm) data_proto \<Rightarrow> ('t, 'n, 'v, 'm) data_proto res" where
  "dp_reorder idx d =
     (case dp_batch d of
        None \<Rightarrow> Inl TypeError
      | Some td \<Rightarrow>
          bind_res (map_cols_res (fancy_index (Ints idx)) (td_cols td))
            (\<lambda>cols. bind_res (map_cols_res (fancy_index (Ints idx)) (dp_non d))
              (\<lambda>non. Inr (d\<lparr>dp_batch := Some \<lparr>td_size = length idx, td_cols = cols\<rparr>, dp_non := non\<rparr>))))"

text \<open>\<open>indexing_proto\<close> and \<open>final_batch\<close> of \<open>recurrent/utils.py\<close>.\<close>

definition indexing_proto :: "('t, 'n, 'v, 'm) data_proto \<Rightarrow> indices \<Rightarrow> ('t, 'n, 'v, 'm) data_proto res" where
  "indexing_proto d idx =
     (case dp_batch d of
        None \<Rightarrow> Inl AttributeError
      | Some td \<Rightarrow>
          bind_res (map_cols_res (fancy_index idx) (td_cols td))
            (\<lambda>tensors. bind_res (map_cols_res (fancy_index idx) (dp_non d))
              (\<lambda>non. from_dict tensors non (dp_meta d) False)))"

definition final_batch ::
  "('t, 'n, 'v, 'm) data_proto \<Rightarrow> bool list \<Rightarrow> int list \<Rightarrow> ('t, 'n, 'v, 'm) data_proto res" where
  "final_batch d final_mask sample_index =
     bind_res (indexing_proto d (Mask final_mask))
       (\<lambda>final_output. bind_res (fancy_index (Mask final_mask) sample_index)
         (\<lambda>final_index. bind_res (reverse_indices final_index)
           (\<lambda>rev_idx. dp_reorder (map int rev_idx) final_output)))"


section \<open>Selecting columns\<close>

text \<open>\<open>TensorDict.select\<close> of keys that must exist, in the order asked.\<close>

definition td_select :: "string list \<Rightarrow> 't tensor_dict \<Rightarrow> 't tensor_dict res" where
  "td_select keys td =
     bind_res (map_res (\<lambda>k. case map_of (td_cols td) k of None \<Rightarrow> Inl KeyError | Some c \<Rightarrow> Inr (k, c)) (remdups keys))
       (\<lambda>cols. Inr (td\<lparr>td_cols := cols\<rparr>))"

definition dp_select ::
  "string list option \<Rightarrow> string list option \<Rightarrow> string list option \<Rightarrow>
   ('t, 'n, 'v, 'm) data_proto \<Rightarrow> ('t, 'n, 'v, 'm) data_proto res" where
  "dp_select batch_keys non_keys meta_keys d =
     bind_res
       (case batch_keys of
          None \<Rightarrow> Inr (dp_batch d)
        | Some ks \<Rightarrow> (case dp_batch d of
                        None \<Rightarrow> Inl AttributeError
                      | Some td \<Rightarrow> bind_res (td_select ks td) (\<lambda>td'. Inr (Some td'))))
       (\<lambda>batch. make_dp batch
          (case non_keys of None \<Rightarrow> dp_non d | Some ks \<Rightarrow> filter (\<lambda>(k, c). k \<in> set ks) (dp_non d))
          (case meta_keys of None \<Rightarrow> dp_meta d | Some ks \<Rightarrow> filter (\<lambda>(k, v). k \<in> set ks) (dp_meta d)))"

text \<open>Popping keys from a dictionary, one after another: the popped items and what is left.\<close>

fun pop_keys :: "string list \<Rightarrow> (string \<times> 'a) list \<Rightarrow> ((string \<times> 'a) list \<times> (string \<times> 'a) list) res" where
  "pop_keys [] d = Inr ([], d)"
| "pop_keys (k # ks) d =
     (case map_of d k of
        None \<Rightarrow> Inl AssertionError
      | Some v \<Rightarrow> bind_res (pop_keys ks (AList.delete k d)) (\<lambda>(popped, rest). Inr ((k, v) # popped, rest)))"

definition dp_pop ::
  "string list \<Rightarrow> string list \<Rightarrow> string list \<Rightarrow> ('t, 'n, 'v, 'm) data_proto \<Rightarrow>
   (('t, 'n, 'v, 'm) data_proto \<times> ('t, 'n, 'v, 'm) data_proto) res" where
  "dp_pop batch_keys non_keys meta_keys d =
     bind_res
       (case dp_batch d of
          None \<Rightarrow> if batch_keys = [] then Inr ([], None) else Inl AttributeError
        | Some td \<Rightarrow> bind_res (pop_keys batch_keys (td_cols td))
                       (\<lambda>(popped, rest). Inr (popped, Some (td\<lparr>td_cols := rest\<rparr>))))
       (\<lambda>(tensors, batch). bind_res (pop_keys non_keys (dp_non d))
         (\<lambda>(non_tensors, non). bind_res (pop_keys meta_keys (dp_meta d))
           (\<lambda>(meta_info, meta). bind_res (from_dict tensors non_tensors meta_info False)
             (\<lambda>out. Inr (out, \<lparr>dp_batch = batch, dp_non = non, dp_meta = meta\<rparr>)))))"

section \<open>Union\<close>

fun union_cols :: "'a cols \<Rightarrow> 'a cols \<Rightarrow> 'a cols res" where
  "union_cols d1 [] = Inr d1"
| "union_cols d1 ((k, c) # d2) =
     (case map_of d1 k of
        None \<Rightarrow> union_cols (AList.update k c d1) d2
      | Some c' \<Rightarrow> py_assert (c' = c) (union_cols d1 d2))"

definition union_tensor_dict :: "'t tensor_dict \<Rightarrow> 't tensor_dict \<Rightarrow> 't tensor_dict res" where
  "union_tensor_dict td1 td2 =
     py_assert (td_size td1 = td_size td2)
       (bind_res (union_cols (td_cols td1) (td_cols td2)) (\<lambda>cols. Inr (td1\<lparr>td_cols := cols\<rparr>)))"

text \<open>\<open>union_two_dict\<close>, and \<open>union_numpy_dict\<close>, which has the same shape.\<close>

fun union_two_dict :: "(string \<times> 'a) list \<Rightarrow> (string \<times> 'a) list \<Rightarrow> (string \<times> 'a) list res" where
  "union_two_dict d1 [] = Inr d1"
| "union_two_dict d1 ((k, v) # d2) =
     (case map_of d1 k of
        None \<Rightarrow> union_two_dict (AList.update k v d1) d2
      | Some v' \<Rightarrow> py_assert (v = v') (union_two_dict (AList.update k v d1) d2))"

definition dp_union ::
  "('t, 'n, 'v, 'm) data_proto \<Rightarrow> ('t, 'n, 'v, 'm) data_proto \<Rightarrow> ('t, 'n, 'v, 'm) data_proto res" where
  "dp_union a b =
     (case (dp_batch a, dp_batch b) of
        (Some td1, Some td2) \<Rightarrow>
          bind_res (union_tensor_dict td1 td2)
            (\<lambda>td. bind_res (union_two_dict (dp_non a) (dp_non b))
              (\<lambda>non. bind_res (union_two_dict (dp_meta a) (dp_meta b))
                (\<lambda>meta. Inr \<lparr>dp_batch = Some td, dp_non = non, dp_meta = meta\<rparr>)))
      | _ \<Rightarrow> Inl AttributeError)"

section \<open>Concatenation\<close>

text \<open>\<open>list_of_dict_to_dict_of_list\<close>: the keys are those of the first dictionary.\<close>

fun append_items :: "(string \<times> 'a list) list \<Rightarrow> (string \<times> 'a) list \<Rightarrow> (string \<times> 'a list) list res" where
  "append_items out [] = Inr out"
| "append_items out ((k, x) # xs) =
     (case map_of out k of
        None \<Rightarrow> Inl AssertionError
      | Some l \<Rightarrow> append_items (AList.update k (l @ [x]) out) xs)"

fun append_dicts :: "(string \<times> 'a list) list \<Rightarrow> (string \<times> 'a) list list \<Rightarrow> (string \<times> 'a list) list res" where
  "append_dicts out [] = Inr out"
| "append_dicts out (d # ds) = bind_res (append_items out d) (\<lambda>out'. append_dicts out' ds)"

definition list_of_dict_to_dict_of_list :: "(string \<times> 'a) list list \<Rightarrow> (string \<times> 'a list) list res" where
  "list_of_dict_to_dict_of_list ds =
     (case ds of [] \<Rightarrow> Inr [] | d # _ \<Rightarrow> append_dicts (map (\<lambda>(k, x). (k, [])) d) ds)"

text \<open>\<open>torch.cat\<close> of tensor dictionaries, which must have the same keys.\<close>

definition td_cat :: "'t tensor_dict list \<Rightarrow> 't tensor_dict res" where
  "td_cat tds =
     (case tds of
        [] \<Rightarrow> Inl RuntimeError
      | td # _ \<Rightarrow>
          if list_all (\<lambda>x. set (map fst (td_cols x)) = set (map fst (td_cols td))) tds
          then Inr \<lparr>td_size = sum_list (map td_size tds),
                    td_cols = map (\<lambda>(k, c). (k, concat (map (\<lambda>x. the (map_of (td_cols x) k)) tds))) (td_cols td)\<rparr>
          else Inl KeyError)"

text \<open>
  The loop over the meta information of one part: the merged items so far and the metrics
  collected so far, \<open>None\<close> for a metrics value that is no dictionary.
\<close>

fun merge_meta ::
  "('v, 'm) meta \<times> (string \<times> 'm metric) list option list \<Rightarrow> ('v, 'm) meta \<Rightarrow>
   (('v, 'm) meta \<times> (string \<times> 'm metric) list option list) res" where
  "merge_meta (merged, metrics) [] = Inr (merged, metrics)"
| "merge_meta (merged, metrics) ((k, v) # kvs) =
     (if k = metrics_key
      then merge_meta (merged,
             metrics @ (case v of
                          MetaNone \<Rightarrow> []
                        | MetaDicts ds \<Rightarrow> map Some ds
                        | MetaDict d \<Rightarrow> [Some d]
                        | _ \<Rightarrow> [None])) kvs
      else case map_of merged k of
             None \<Rightarrow> merge_meta (AList.update k v merged, metrics) kvs
           | Some v' \<Rightarrow> py_assert (v' = v) (merge_meta (merged, metrics) kvs))"

fun merge_metas ::
  "('v, 'm) meta \<times> (string \<times> 'm metric) list option list \<Rightarrow> ('v, 'm) meta list \<Rightarrow>
   (('v, 'm) meta \<times> (string \<times> 'm metric) list option list) res" where
  "merge_metas acc [] = Inr acc"
| "merge_metas acc (m # ms) = bind_res (merge_meta acc m) (\<lambda>acc'. merge_metas acc' ms)"

definition merge_meta_infos :: "('v, 'm) meta list \<Rightarrow> ('v, 'm) meta res" where
  "merge_meta_infos metas =
     bind_res (merge_metas ([], []) metas)
       (\<lambda>(merged, metrics).
          if metrics = [] then Inr merged
          else if None \<in> set metrics then Inl AttributeError
          else bind_res (list_of_dict_to_dict_of_list (map the metrics))
                 (\<lambda>m. Inr (AList.update metrics_key (MetaDict (map (\<lambda>(k, l). (k, Leaves l)) m)) merged)))"

definition dp_concat :: "('t, 'n, 'v, 'm) data_proto list \<Rightarrow> ('t, 'n, 'v, 'm) data_proto res" where
  "dp_concat ds =
     (case ds of
        [] \<Rightarrow> Inl IndexError
      | d # _ \<Rightarrow>
          bind_res
            (case dp_batch d of
               None \<Rightarrow> Inr None
             | Some _ \<Rightarrow>
                 if list_all (\<lambda>x. dp_batch x \<noteq> None) ds
                 then bind_res (td_cat (map (\<lambda>x. the (dp_batch x)) ds)) (\<lambda>td. Inr (Some td))
                 else Inl TypeError)
            (\<lambda>batch. bind_res (list_of_dict_to_dict_of_list (map dp_non ds))
              (\<lambda>non. bind_res (merge_meta_infos (map dp_meta ds))
                (\<lambda>meta. make_dp batch (map (\<lambda>(k, cs). (k, concat cs)) non) meta))))"

section \<open>Splitting\<close>

text \<open>\<open>is_padding_enabled\<close>; \<open>auto\<close> is the process-wide setting.\<close>

definition is_padding_enabled :: "bool \<Rightarrow> ('t, 'n, 'v, 'm) data_proto \<Rightarrow> bool" where
  "is_padding_enabled auto d =
     ((case map_of (dp_meta d) auto_padding_key of
         None \<Rightarrow> False | Some MetaNone \<Rightarrow> False | Some (MetaBool b) \<Rightarrow> b | Some _ \<Rightarrow> True) \<or> auto)"

text \<open>
  \<open>TensorDict.chunk\<close> splits into pieces of the size rounded up, so it may return fewer pieces than
  asked; on an empty batch the piece size is 0 and the library's answer is outside the model.
\<close>

definition td_chunk :: "nat \<Rightarrow> 't tensor_dict \<Rightarrow> 't tensor_dict list res" where
  "td_chunk n td =
     (if n = 0 then Inl ValueError
      else if td_size td = 0 then Inl (OtherError 0)
      else let size = (td_size td + n - 1) div n
           in Inr (map (\<lambda>rows. \<lparr>td_size = length rows, td_cols = map_cols (\<lambda>c. map (\<lambda>i. c ! i) rows) (td_cols td)\<rparr>)
                       (chunks_of size [0..<td_size td])))"

text \<open>\<open>np.array_split\<close>, at given sizes (the last piece takes the rest) and into a number of pieces.\<close>

fun split_sizes :: "nat list \<Rightarrow> 'a list \<Rightarrow> 'a list list" where
  "split_sizes [] xs = []"
| "split_sizes [n] xs = [xs]"
| "split_sizes (n # m # ns) xs = take n xs # split_sizes (m # ns) (drop n xs)"

definition array_split :: "nat \<Rightarrow> 'a list \<Rightarrow> 'a list list res" where
  "array_split n xs =
     (if n = 0 then Inl ValueError
      else let q = length xs div n; r = length xs mod n
           in Inr (split_sizes (replicate r (q + 1) @ replicate (n - r) q) xs))"

definition dp_chunk :: "bool \<Rightarrow> nat \<Rightarrow> ('t, 'n, 'v, 'm) data_proto \<Rightarrow> ('t, 'n, 'v, 'm) data_proto list res" where
  "dp_chunk auto chunks d =
     (if \<not> is_padding_enabled auto d \<and> chunks = 0 then Inl ZeroDivisionError
      else py_assert (is_padding_enabled auto d \<or> dp_len d mod chunks = 0)
        (bind_res
          (case dp_batch d of
             None \<Rightarrow> Inr (replicate chunks None)
           | Some td \<Rightarrow> bind_res (td_chunk chunks td) (\<lambda>tds. Inr (map Some tds)))
          (\<lambda>batches. bind_res
            (map_res (\<lambda>(k, c).
                bind_res (if dp_batch d = None then array_split chunks c
                          else Inr (split_sizes (map (\<lambda>b. td_size (the b)) batches) c))
                  (\<lambda>pieces. py_assert (length pieces = chunks) (Inr (k, pieces)))) (dp_non d))
            (\<lambda>nons. map_res (\<lambda>i.
                bind_res (py_get batches (int i))
                  (\<lambda>b. make_dp b (map (\<lambda>(k, pieces). (k, pieces ! i)) nons) (dp_meta d)))
              [0..<chunks]))))"

text \<open>\<open>split\<close>: \<open>range\<close> with step 0 is a \<open>ValueError\<close>.\<close>

definition dp_split :: "nat \<Rightarrow> ('t, 'n, 'v, 'm) data_proto \<Rightarrow> ('t, 'n, 'v, 'm) data_proto list res" where
  "dp_split split_size d =
     (if split_size = 0 then Inl ValueError
      else map_res (\<lambda>i. dp_slice (Some (int i)) (Some (int (i + split_size))) None d)
             (filter (\<lambda>i. i mod split_size = 0) [0..<dp_len d]))"

section \<open>Repetition\<close>

definition repeat_rows :: "nat \<Rightarrow> bool \<Rightarrow> 'a list \<Rightarrow> 'a list" where
  "repeat_rows n il xs = (if il then concat (map (replicate n) xs) else concat (replicate n xs))"

definition dp_repeat :: "nat \<Rightarrow> bool \<Rightarrow> ('t, 'n, 'v, 'm) data_proto \<Rightarrow> ('t, 'n, 'v, 'm) data_proto res" where
  "dp_repeat n il d =
     bind_res
       (case dp_batch d of
          None \<Rightarrow> Inr None
        | Some td \<Rightarrow> bind_res (make_td (map_cols (repeat_rows n il) (td_cols td)) (td_size td * n)) (\<lambda>td'. Inr (Some td')))
       (\<lambda>batch. make_dp batch (map_cols (repeat_rows n il) (dp_non d)) (dp_meta d))"

text \<open>
  \<open>repeat_interleave\<close> and \<open>np.repeat\<close> with one count per row; a single count is used for all rows,
  another number of counts is an error of the library.
\<close>

definition repeat_counts :: "py_error \<Rightarrow> nat list \<Rightarrow> 'a list \<Rightarrow> 'a list res" where
  "repeat_counts err ns xs =
     (if length ns = length xs then Inr (concat (map2 replicate ns xs))
      else if length ns = 1 then Inr (concat (map (replicate (hd ns)) xs))
      else Inl err)"

definition dp_sample_level_repeat :: "nat list \<Rightarrow> ('t, 'n, 'v, 'm) data_proto \<Rightarrow> ('t, 'n, 'v, 'm) data_proto res" where
  "dp_sample_level_repeat ns d =
     bind_res
       (case dp_batch d of
          None \<Rightarrow> Inr None
        | Some td \<Rightarrow> bind_res (map_cols_res (repeat_counts RuntimeError ns) (td_cols td))
                       (\<lambda>cols. bind_res (make_td cols (sum_list ns)) (\<lambda>td'. Inr (Some td'))))
       (\<lambda>batch. bind_res (map_cols_res (repeat_counts ValueError ns) (dp_non d))
         (\<lambda>non. make_dp batch non (dp_meta d)))"

section \<open>Padding\<close>

definition dp_padding :: "nat \<Rightarrow> bool \<Rightarrow> ('t, 'n, 'v, 'm) data_proto \<Rightarrow> ('t, 'n, 'v, 'm) data_proto res" where
  "dp_padding padding_size first d =
     (if padding_size = 0 then Inr d
      else bind_res (dp_select_idxs (Ints [if first then 0 else int (dp_len d) - 1]) d)
        (\<lambda>cand. bind_res (dp_repeat padding_size True cand)
          (\<lambda>part. bind_res (dp_concat [d, part])
            (\<lambda>p. Inr (d\<lparr>dp_batch := dp_batch p, dp_non := dp_non p\<rparr>)))))"

function padding_protos :: "nat \<Rightarrow> ('t, 'n, 'v, 'm) data_proto \<Rightarrow> ('t, 'n, 'v, 'm) data_proto list res" where
  "padding_protos remaining d =
     (if remaining = 0 \<or> dp_len d = 0 then Inr []
      else let take_size = min remaining (dp_len d)
           in bind_res (dp_slice None (Some (int take_size)) None d)
                (\<lambda>p. bind_res (padding_protos (remaining - take_size) d) (\<lambda>ps. Inr (p # ps))))"
  by pat_completeness auto
termination
  by (relation "measure (\<lambda>(r, d). r)") auto

declare padding_protos.simps [simp del]

definition pad_dataproto_to_divisor ::
  "('t, 'n, 'v, 'm) data_proto \<Rightarrow> nat \<Rightarrow> (('t, 'n, 'v, 'm) data_proto \<times> nat) res" where
  "pad_dataproto_to_divisor d size_divisor =
     (if size_divisor = 0 then Inl ZeroDivisionError
      else if dp_len d mod size_divisor = 0 then Inr (d, 0)
      else let pad_size = size_divisor - dp_len d mod size_divisor
           in bind_res (padding_protos pad_size d)
                (\<lambda>ps. bind_res (dp_concat (d # ps)) (\<lambda>p. Inr (p, pad_size))))"

definition unpad_dataproto :: "('t, 'n, 'v, 'm) data_proto \<Rightarrow> nat \<Rightarrow> ('t, 'n, 'v, 'm) data_proto res" where
  "unpad_dataproto d pad_size =
     (if pad_size \<noteq> 0 then dp_slice None (Some (- int pad_size)) None d else Inr d)"


section \<open>Reshaping\<close>

text \<open>
  \<open>fold_batch_dim\<close> makes every row a list of consecutive rows, \<open>unfold_batch_dim\<close> flattens the two
  dimensions. A view with an inferred dimension is impossible on an empty batch (\<open>RuntimeError\<close>).
\<close>

definition fold_batch_dim ::
  "('t, 'n, 'v, 'm) data_proto \<Rightarrow> nat \<Rightarrow> ('t list, 'n list, 'v, 'm) data_proto res" where
  "fold_batch_dim d new_batch_size =
     (case dp_batch d of
        None \<Rightarrow> Inl AttributeError
      | Some td \<Rightarrow>
          if new_batch_size = 0 then Inl ZeroDivisionError
          else py_assert (td_size td mod new_batch_size = 0)
            (if td_size td = 0 then Inl RuntimeError
             else let k = td_size td div new_batch_size
                  in make_dp (Some \<lparr>td_size = new_batch_size, td_cols = map_cols (chunks_of k) (td_cols td)\<rparr>)
                       (map_cols (chunks_of k) (dp_non d)) (dp_meta d)))"

definition unfold_batch_dim ::
  "('t list, 'n list, 'v, 'm) data_proto \<Rightarrow> ('t, 'n, 'v, 'm) data_proto res" where
  "unfold_batch_dim d =
     (case dp_batch d of
        None \<Rightarrow> Inl AttributeError
      | Some td \<Rightarrow>
          (let cols = map_cols concat (td_cols td);
               n = (case cols of [] \<Rightarrow> td_size td | (k, c) # _ \<Rightarrow> length c)
           in make_dp (Some \<lparr>td_size = n, td_cols = cols\<rparr>) (map_cols concat (dp_non d)) (dp_meta d)))"

text \<open>
  \<open>unfold_column_chunks\<close> on matrices: every row is cut into \<open>n\<close> rows by a row-major reshape, whose
  number of elements must fit; the other columns are repeated.
\<close>

definition unfold_rows :: "py_error \<Rightarrow> nat \<Rightarrow> 'a list list \<Rightarrow> 'a list list res" where
  "unfold_rows err n c =
     (let w = (case c of [] \<Rightarrow> 0 | row # _ \<Rightarrow> length row)
      in if n = 0 then Inl ZeroDivisionError
         else if w mod n \<noteq> 0 then Inl err
         else if w = 0 then Inr (replicate (length c * n) [])
         else Inr (chunks_of (w div n) (concat c)))"

definition unfold_column_chunks ::
  "nat \<Rightarrow> string list option \<Rightarrow> ('a list, 'b list, 'v, 'm) data_proto \<Rightarrow> ('a list, 'b list, 'v, 'm) data_proto res" where
  "unfold_column_chunks n split_keys d =
     bind_res
       (case dp_batch d of
          None \<Rightarrow> Inr None
        | Some td \<Rightarrow>
            bind_res (map_res (\<lambda>(k, c).
                bind_res (if split_keys \<noteq> None \<and> k \<in> set (the split_keys) then unfold_rows RuntimeError n c
                          else Inr (repeat_rows n True c)) (\<lambda>c'. Inr (k, c'))) (td_cols td))
              (\<lambda>cols. bind_res (make_td cols (td_size td * n)) (\<lambda>td'. Inr (Some td'))))
       (\<lambda>batch. bind_res (map_res (\<lambda>(k, c).
            case split_keys of
              None \<Rightarrow> Inl TypeError
            | Some ks \<Rightarrow> bind_res (if k \<in> set ks then unfold_rows ValueError n c else Inr (repeat_rows n True c))
                           (\<lambda>c'. Inr (k, c'))) (dp_non d))
         (\<lambda>non. make_dp batch non (dp_meta d)))"

section \<open>Futures and the dispatch wrapper\<close>

text \<open>
  A future holds references to the workers' outputs and, after \<open>chunk\<close>, which of how many pieces it
  stands for; \<open>ray_get\<close> is the store that resolves a reference.
\<close>

record 'r dp_future =
  fut_refs :: "'r list"
  fut_dispatch :: "(nat \<times> nat) option"

definition future_concat :: "'r list \<Rightarrow> 'r dp_future" where
  "future_concat refs = \<lparr>fut_refs = refs, fut_dispatch = None\<rparr>"

definition future_chunk :: "nat \<Rightarrow> 'r dp_future \<Rightarrow> 'r dp_future list" where
  "future_chunk chunks f = map (\<lambda>i. f\<lparr>fut_dispatch := Some (i, chunks)\<rparr>) [0..<chunks]"

definition future_get ::
  "bool \<Rightarrow> ('r \<Rightarrow> ('t, 'n, 'v, 'm) data_proto) \<Rightarrow> 'r dp_future \<Rightarrow> ('t, 'n, 'v, 'm) data_proto res" where
  "future_get auto ray_get f =
     bind_res (dp_concat (map ray_get (fut_refs f)))
       (\<lambda>out. case fut_dispatch f of
          None \<Rightarrow> Inr out
        | Some (i, chunks) \<Rightarrow> bind_res (dp_chunk auto chunks out) (\<lambda>cs. py_get cs (int i)))"

text \<open>The values \<open>BatchData\<close> wraps; the metadata of the transfer queue is third-party.\<close>

datatype ('t, 'n, 'v, 'm, 'r) batch_item =
    ProtoItem "('t, 'n, 'v, 'm) data_proto"
  | FutureItem "'r dp_future"
  | RefItem 'r
  | OtherItem

definition is_chunkable :: "('t, 'n, 'v, 'm, 'r) batch_item \<Rightarrow> bool" where
  "is_chunkable x = (case x of ProtoItem _ \<Rightarrow> True | FutureItem _ \<Rightarrow> True | RefItem _ \<Rightarrow> False | OtherItem \<Rightarrow> False)"

definition is_concatable :: "('t, 'n, 'v, 'm, 'r) batch_item list \<Rightarrow> bool" where
  "is_concatable xs =
     (case xs of
        [] \<Rightarrow> False
      | x # _ \<Rightarrow> (case x of ProtoItem _ \<Rightarrow> True | FutureItem _ \<Rightarrow> False | RefItem _ \<Rightarrow> True | OtherItem \<Rightarrow> False))"

definition batch_chunk ::
  "bool \<Rightarrow> nat \<Rightarrow> ('t, 'n, 'v, 'm, 'r) batch_item \<Rightarrow> ('t, 'n, 'v, 'm, 'r) batch_item list res" where
  "batch_chunk auto chunks x =
     (case x of
        ProtoItem d \<Rightarrow> bind_res (dp_chunk auto chunks d) (\<lambda>ds. Inr (map ProtoItem ds))
      | FutureItem f \<Rightarrow> Inr (map FutureItem (future_chunk chunks f))
      | RefItem _ \<Rightarrow> Inl AttributeError
      | OtherItem \<Rightarrow> Inl AttributeError)"

text \<open>Lists of mixed kinds do not occur and are outside the model.\<close>

fun the_protos :: "('t, 'n, 'v, 'm, 'r) batch_item list \<Rightarrow> ('t, 'n, 'v, 'm) data_proto list option" where
  "the_protos [] = Some []"
| "the_protos (ProtoItem d # xs) = map_option (Cons d) (the_protos xs)"
| "the_protos (x # xs) = None"

fun the_refs :: "('t, 'n, 'v, 'm, 'r) batch_item list \<Rightarrow> 'r list option" where
  "the_refs [] = Some []"
| "the_refs (RefItem r # xs) = map_option (Cons r) (the_refs xs)"
| "the_refs (x # xs) = None"

definition batch_concat ::
  "('t, 'n, 'v, 'm, 'r) batch_item list \<Rightarrow> ('t, 'n, 'v, 'm, 'r) batch_item res" where
  "batch_concat xs =
     (case xs of
        [] \<Rightarrow> Inl ValueError
      | x # _ \<Rightarrow>
          (case x of
             ProtoItem _ \<Rightarrow> (case the_protos xs of
                               None \<Rightarrow> Inl (OtherError 0)
                             | Some ds \<Rightarrow> bind_res (dp_concat ds) (\<lambda>d. Inr (ProtoItem d)))
           | RefItem _ \<Rightarrow> (case the_refs xs of
                             None \<Rightarrow> Inl (OtherError 0)
                           | Some rs \<Rightarrow> Inr (FutureItem (future_concat rs)))
           | FutureItem _ \<Rightarrow> Inl AttributeError
           | OtherItem \<Rightarrow> Inl AttributeError))"

end
