(* ===== verification/DataProtoRows.thy ===== *)
theory DataProtoRows
  imports DataProto
begin

text \<open>
  What the operations of \<open>DataProto\<close> do to its rows: slicing, selection, concatenation, splitting,
  padding and their round trips, with the interface of a batch that can be split and put together.
\<close>

section \<open>Rows\<close>

text \<open>
  The abstract batch: \<open>take_rows idx d\<close> holds the rows of \<open>d\<close> at the places \<open>idx\<close>. The operations on
  rows are index arithmetic: each is shown to be a \<open>take_rows\<close>.
\<close>

definition pick :: "nat list \<Rightarrow> 'a list \<Rightarrow> 'a list" where
  "pick idx c = map (\<lambda>i. c ! i) idx"

definition take_rows :: "nat list \<Rightarrow> ('t, 'n, 'v, 'm) data_proto \<Rightarrow> ('t, 'n, 'v, 'm) data_proto" where
  "take_rows idx d =
     \<lparr>dp_batch = map_option (\<lambda>td. \<lparr>td_size = length idx, td_cols = map_cols (pick idx) (td_cols td)\<rparr>) (dp_batch d),
      dp_non = map_cols (pick idx) (dp_non d), dp_meta = dp_meta d\<rparr>"

definition cols_ok :: "nat \<Rightarrow> 'a cols \<Rightarrow> bool" where
  "cols_ok n cols \<longleftrightarrow> distinct (map fst cols) \<and> (\<forall>(k, c)\<in>set cols. length c = n)"

definition wf_dp :: "('t, 'n, 'v, 'm) data_proto \<Rightarrow> bool" where
  "wf_dp d \<longleftrightarrow>
     (\<forall>td. dp_batch d = Some td \<longrightarrow> cols_ok (td_size td) (td_cols td)) \<and>
     cols_ok (dp_len d) (dp_non d) \<and> distinct (map fst (dp_meta d))"

lemma length_pick [simp]: "length (pick idx c) = length idx"
  by (simp add: pick_def)

lemma pick_pick: "\<forall>i\<in>set is. i < length js \<Longrightarrow> pick is (pick js c) = pick (pick is js) c"
  by (simp add: pick_def)

lemma pick_upt [simp]: "pick [0..<length c] c = c"
  by (simp add: pick_def map_nth)

lemma pick_append: "pick (a @ b) c = pick a c @ pick b c"
  by (simp add: pick_def)

lemma pick_concat: "pick (concat iss) c = concat (map (\<lambda>is. pick is c) iss)"
  by (simp add: pick_def map_concat)

lemma map_fst_map_cols [simp]: "map fst (map_cols f cols) = map fst cols"
  by (auto simp: map_cols_def)

lemma fst_image_map_cols [simp]: "fst ` set (map_cols f cols) = fst ` set cols"
  by (metis list.set_map map_fst_map_cols)

lemma map_cols_cong: "(\<And>k c. (k, c) \<in> set cols \<Longrightarrow> f c = g c) \<Longrightarrow> map_cols f cols = map_cols g cols"
  by (auto simp: map_cols_def)

lemma map_cols_ident: "(\<And>k c. (k, c) \<in> set cols \<Longrightarrow> f c = c) \<Longrightarrow> map_cols f cols = cols"
  by (auto simp: map_cols_def intro!: map_idI)

lemma map_cols_map_cols [simp]: "map_cols f (map_cols g cols) = map_cols (\<lambda>c. f (g c)) cols"
  by (simp add: map_cols_def split_def)

lemma map_of_map_cols: "map_of (map_cols f cols) k = map_option f (map_of cols k)"
  by (simp add: map_cols_def map_of_map)

lemma set_map_cols: "(k, c) \<in> set (map_cols f cols) \<longleftrightarrow> (\<exists>c'. (k, c') \<in> set cols \<and> c = f c')"
  by (auto simp: map_cols_def)

lemma cols_ok_map: "cols_ok n cols \<Longrightarrow> (\<And>c. length (f c) = m) \<Longrightarrow> cols_ok m (map_cols f cols)"
  by (auto simp: cols_ok_def set_map_cols)

lemma dp_len_take_rows:
  "dp_batch d \<noteq> None \<or> dp_non d \<noteq> [] \<Longrightarrow> dp_len (take_rows idx d) = length idx"
  by (auto simp: dp_len_def take_rows_def map_cols_def split: option.split list.split)

lemma wf_take_rows: "wf_dp d \<Longrightarrow> wf_dp (take_rows idx d)"
proof -
  assume w: "wf_dp d"
  have "cols_ok (dp_len (take_rows idx d)) (dp_non (take_rows idx d))"
  proof (cases "dp_batch d = None \<and> dp_non d = []")
    case True
    then show ?thesis by (simp add: take_rows_def map_cols_def cols_ok_def)
  next
    case False
    then have "dp_len (take_rows idx d) = length idx" by (intro dp_len_take_rows) auto
    then show ?thesis using w by (auto simp: wf_dp_def take_rows_def intro: cols_ok_map)
  qed
  then show ?thesis using w by (auto simp: wf_dp_def take_rows_def intro!: cols_ok_map)
qed

lemma cols_ok_lengths: "cols_ok n cols \<Longrightarrow> (k, c) \<in> set cols \<Longrightarrow> length c = n"
  by (auto simp: cols_ok_def)

lemma take_rows_all: "wf_dp d \<Longrightarrow> take_rows [0..<dp_len d] d = d"
proof -
  assume w: "wf_dp d"
  have "map_cols (pick [0..<dp_len d]) (dp_non d) = dp_non d"
    using w by (intro map_cols_ident) (metis cols_ok_lengths pick_upt wf_dp_def)
  moreover have "map_cols (pick [0..<td_size td]) (td_cols td) = td_cols td \<and> dp_len d = td_size td"
    if "dp_batch d = Some td" for td
    using w that by (auto intro!: map_cols_ident simp: dp_len_def) (metis cols_ok_lengths pick_upt wf_dp_def)
  ultimately show ?thesis by (cases "dp_batch d") (auto simp: take_rows_def)
qed

lemma take_rows_take_rows:
  "\<forall>i\<in>set is. i < length js \<Longrightarrow> take_rows is (take_rows js d) = take_rows (pick is js) d"
  by (cases "dp_batch d") (simp_all add: take_rows_def pick_pick)

section \<open>Selection and slices\<close>

lemma py_step_map: "py_step n (map f xs) = map f (py_step n xs)"
proof (induction n xs rule: chunks_of.induct)
  case (1 n xs)
  show ?case
  proof (cases "n = 0 \<or> xs = []")
    case True
    then show ?thesis by (auto simp: py_step_def chunks_of.simps)
  next
    case False
    have unfold: "py_step n ys = hd (take n ys) # py_step n (drop n ys)" if "ys \<noteq> []" for ys :: "'x list"
      using False that by (simp add: py_step_def chunks_of.simps [of n ys])
    have "hd (take n (map f xs)) = f (hd (take n xs))"
      using False by (cases xs; cases n) auto
    then show ?thesis using 1 False by (simp add: unfold drop_map)
  qed
qed

lemma slice_rows_map: "slice_rows a b s (map f xs) = map f (slice_rows a b s xs)"
  by (auto simp: slice_rows_def py_slice_def Let_def drop_map take_map py_step_map split: option.split)

lemma slice_rows_pick: "slice_rows a b s c = pick (slice_rows a b s [0..<length c]) c"
proof -
  have "slice_rows a b s (map ((!) c) [0..<length c]) = map ((!) c) (slice_rows a b s [0..<length c])"
    by (rule slice_rows_map)
  then show ?thesis by (simp only: map_nth pick_def)
qed

lemma make_dp_ok: "check_consistency b n \<Longrightarrow> make_dp b n m = Inr \<lparr>dp_batch = b, dp_non = n, dp_meta = m\<rparr>"
  by (simp add: make_dp_def)

lemma wf_dp_td: "wf_dp d \<Longrightarrow> dp_batch d = Some td \<Longrightarrow> cols_ok (td_size td) (td_cols td) \<and> cols_ok (td_size td) (dp_non d)"
  by (auto simp: wf_dp_def dp_len_def)

lemma check_take_rows: "check_consistency (dp_batch (take_rows idx d)) (dp_non (take_rows idx d))"
  by (auto simp: check_consistency_def take_rows_def list_all_iff map_cols_def split: option.split)

lemma make_dp_take_rows:
  "make_dp (dp_batch (take_rows idx d)) (dp_non (take_rows idx d)) (dp_meta d) = Inr (take_rows idx d)"
  using check_take_rows [of idx d] by (subst make_dp_ok) (auto simp: take_rows_def)

lemma dp_slice_take_rows:
  assumes "wf_dp d" "s \<noteq> Some 0"
  shows "dp_slice a b s d = Inr (take_rows (slice_rows a b s [0..<dp_len d]) d)"
proof -
  let ?idx = "slice_rows a b s [0..<dp_len d]"
  have non: "map_cols (slice_rows a b s) (dp_non d) = map_cols (pick ?idx) (dp_non d)"
    using assms(1) by (intro map_cols_cong) (metis cols_ok_lengths slice_rows_pick wf_dp_def)
  have "map_cols (slice_rows a b s) (td_cols td) = map_cols (pick ?idx) (td_cols td) \<and> dp_len d = td_size td"
    if "dp_batch d = Some td" for td
    using assms(1) that by (auto intro!: map_cols_cong simp: dp_len_def) (metis cols_ok_lengths slice_rows_pick wf_dp_def)
  then have "map_option (\<lambda>td. \<lparr>td_size = length (slice_rows a b s [0..<td_size td]),
      td_cols = map_cols (slice_rows a b s) (td_cols td)\<rparr>) (dp_batch d) = dp_batch (take_rows ?idx d)"
    by (cases "dp_batch d") (auto simp: take_rows_def)
  then show ?thesis
    using make_dp_take_rows [of ?idx d] assms(2) non by (simp add: dp_slice_def take_rows_def)
qed

lemma map_cols_res_Inr:
  "(\<And>k c. (k, c) \<in> set cols \<Longrightarrow> f c = Inr (g c)) \<Longrightarrow> map_cols_res f cols = Inr (map_cols g cols)"
  unfolding map_cols_res_def map_cols_def by (rule map_res_Inr) auto

lemma fancy_index_nat: "\<forall>i\<in>set is. i < length c \<Longrightarrow> fancy_index (Ints (map int is)) c = Inr (pick is c)"
  by (induction "is") (simp_all add: fancy_index_def pick_def)

text \<open>The places a mask keeps.\<close>

definition mask_places :: "bool list \<Rightarrow> nat list" where
  "mask_places ks = filter (\<lambda>i. ks ! i) [0..<length ks]"

lemma mask_select_places: "length ks = length c \<Longrightarrow> mask_select ks c = pick (mask_places ks) c"
proof (induction ks arbitrary: c rule: rev_induct)
  case Nil
  then show ?case by (simp add: mask_select_def pick_def mask_places_def)
next
  case (snoc k ks)
  then obtain c' x where c: "c = c' @ [x]" "length c' = length ks"
    by (metis length_append_singleton length_Suc_conv_rev)
  have pl: "mask_places (ks @ [k]) = mask_places ks @ (if k then [length ks] else [])"
    by (auto simp: mask_places_def nth_append intro!: filter_cong)
  have "pick (mask_places ks) (c' @ [x]) = pick (mask_places ks) c'"
    using c(2) by (auto simp: pick_def mask_places_def nth_append)
  moreover have "mask_select [k] [x] = (if k then [x] else [])" by (simp add: mask_select_def)
  ultimately show ?case
    using snoc c by (auto simp: mask_select_append pl pick_append pick_def nth_append)
qed

lemma length_mask_places: "length (mask_places ks) = length (filter (\<lambda>b. b) ks)"
proof (induction ks rule: rev_induct)
  case (snoc k ks)
  have "filter (\<lambda>i. (ks @ [k]) ! i) [0..<length ks] = filter (\<lambda>i. ks ! i) [0..<length ks]"
    by (intro filter_cong) (auto simp: nth_append)
  with snoc show ?case by (simp add: mask_places_def)
qed (simp add: mask_places_def)

lemma select_take_rows:
  assumes "wf_dp d" "\<And>c :: 't list. length c = dp_len d \<Longrightarrow> fancy_index idx c = Inr (pick is c)"
    "\<And>c :: 'n list. length c = dp_len d \<Longrightarrow> fancy_index idx c = Inr (pick is c)" "indices_size idx = length is"
  shows "dp_select_idxs idx (d :: ('t, 'n, 'v, 'm) data_proto) = Inr (take_rows is d)"
proof -
  have non: "map_cols_res (fancy_index idx) (dp_non d) = Inr (map_cols (pick is) (dp_non d))"
    using assms(1) by (intro map_cols_res_Inr assms(3)) (metis cols_ok_lengths wf_dp_def)
  have td: "map_cols_res (fancy_index idx) (td_cols td) = Inr (map_cols (pick is) (td_cols td))"
    if "dp_batch d = Some td" for td
    using assms(1) that by (intro map_cols_res_Inr assms(2)) (auto simp: dp_len_def dest: wf_dp_td cols_ok_lengths)
  have "make_td (map_cols (pick is) cols) (length is) = Inr \<lparr>td_size = length is, td_cols = map_cols (pick is) cols\<rparr>"
    for cols :: "'t cols" by (auto simp: make_td_def list_all_iff map_cols_def)
  then have "(case dp_batch d of None \<Rightarrow> Inr None
    | Some td \<Rightarrow> bind_res (map_cols_res (fancy_index idx) (td_cols td))
        (\<lambda>cols. bind_res (make_td cols (indices_size idx)) (\<lambda>td'. Inr (Some td')))) = Inr (dp_batch (take_rows is d))"
    using td assms(4) by (cases "dp_batch d") (simp_all add: take_rows_def)
  then show ?thesis
    using non make_dp_take_rows [of "is" d] by (simp add: dp_select_idxs_def take_rows_def)
qed

lemma select_ints: "wf_dp d \<Longrightarrow> \<forall>i\<in>set is. i < dp_len d \<Longrightarrow> dp_select_idxs (Ints (map int is)) d = Inr (take_rows is d)"
  by (rule select_take_rows) (simp_all add: fancy_index_nat indices_size_def)

lemma select_mask: "wf_dp d \<Longrightarrow> length ks = dp_len d \<Longrightarrow> dp_select_idxs (Mask ks) d = Inr (take_rows (mask_places ks) d)"
  by (rule select_take_rows) (simp_all add: fancy_index_def mask_select_places indices_size_def length_mask_places)

section \<open>Concatenation\<close>

lemma update_prefix: "k \<notin> fst ` set pre \<Longrightarrow> AList.update k v (pre @ (k, w) # out) = pre @ (k, v) # out"
  by (induction pre) auto

lemma map_of_prefix: "k \<notin> fst ` set pre \<Longrightarrow> map_of (pre @ (k, w) # out) k = Some w"
  by (induction pre) auto

lemma append_items_prefix:
  "map fst out = map fst d \<Longrightarrow> distinct (map fst pre @ map fst d) \<Longrightarrow>
    append_items (pre @ out) d = Inr (pre @ map2 (\<lambda>(k, l) (k', x). (k, l @ [x])) out d)"
proof (induction d arbitrary: pre out)
  case Nil
  then show ?case by simp
next
  case (Cons a d)
  obtain k x where a: "a = (k, x)" by (cases a)
  then obtain l out' where out: "out = (k, l) # out'" "map fst out' = map fst d"
    using Cons.prems(1) by (cases out) auto
  have "k \<notin> fst ` set pre" using Cons.prems(2) a by auto
  then have "append_items (pre @ out) (a # d) = append_items ((pre @ [(k, l @ [x])]) @ out') d"
    by (simp add: a out map_of_prefix update_prefix del: map_of_append)
  also have "\<dots> = Inr ((pre @ [(k, l @ [x])]) @ map2 (\<lambda>(k, l) (k', x). (k, l @ [x])) out' d)"
    using Cons.prems(2) a out by (intro Cons.IH) auto
  finally show ?case by (simp add: a out)
qed

lemma append_items_same:
  "map fst out = map fst d \<Longrightarrow> distinct (map fst d) \<Longrightarrow>
    append_items out d = Inr (map2 (\<lambda>(k, l) (k', x). (k, l @ [x])) out d)"
  using append_items_prefix [of out d "[]"] by simp

lemma append_dicts_same:
  assumes "distinct (map fst cols)"
  shows "append_dicts (map (\<lambda>(k, c). (k, g c)) cols) (map (\<lambda>f. map (\<lambda>(k, c). (k, f c)) cols) fs) =
    Inr (map (\<lambda>(k, c). (k, g c @ map (\<lambda>f. f c) fs)) cols)"
proof (induction fs arbitrary: g)
  case Nil
  then show ?case by simp
next
  case (Cons f fs)
  have "map2 (\<lambda>(k, l) (k', x). (k, l @ [x])) (map (\<lambda>(k, c). (k, g c)) cols) (map (\<lambda>(k, c). (k, f c)) cols) =
    map (\<lambda>(k, c). (k, g c @ [f c])) cols"
    by (induction cols) auto
  moreover have "map fst (map (\<lambda>(k, c). (k, g c)) cols) = map fst (map (\<lambda>(k, c). (k, f c)) cols)"
    "distinct (map fst (map (\<lambda>(k, c). (k, f c)) cols))"
    using assms by (simp_all add: comp_def split_def)
  ultimately have "append_items (map (\<lambda>(k, c). (k, g c)) cols) (map (\<lambda>(k, c). (k, f c)) cols) =
    Inr (map (\<lambda>(k, c). (k, g c @ [f c])) cols)"
    by (simp add: append_items_same)
  then show ?case using Cons [of "\<lambda>c. g c @ [f c]"] by simp
qed

lemma dict_of_lists_same:
  assumes "distinct (map fst cols)" "fs \<noteq> []"
  shows "list_of_dict_to_dict_of_list (map (\<lambda>f. map (\<lambda>(k, c). (k, f c)) cols) fs) =
    Inr (map (\<lambda>(k, c). (k, map (\<lambda>f. f c) fs)) cols)"
proof -
  obtain f fs' where "fs = f # fs'" using assms(2) by (cases fs) auto
  then have "list_of_dict_to_dict_of_list (map (\<lambda>f. map (\<lambda>(k, c). (k, f c)) cols) fs) =
    append_dicts (map (\<lambda>(k, c). (k, (\<lambda>_. []) c)) cols) (map (\<lambda>f. map (\<lambda>(k, c). (k, f c)) cols) fs)"
    by (simp add: list_of_dict_to_dict_of_list_def split_def o_def)
  then show ?thesis using append_dicts_same [OF assms(1), of "\<lambda>_. []" fs] by simp
qed

lemma merge_meta_new:
  "distinct (map fst m @ map fst acc) \<Longrightarrow> metrics_key \<notin> fst ` set m \<Longrightarrow>
    merge_meta (acc, ms) m = Inr (acc @ m, ms)"
proof (induction m arbitrary: acc)
  case Nil
  then show ?case by simp
next
  case (Cons a m)
  obtain k v where a: "a = (k, v)" by (cases a)
  have k: "k \<notin> fst ` set acc" "k \<noteq> metrics_key" using Cons.prems a by auto
  then have "map_of acc k = None" by (simp add: map_of_eq_None_iff)
  moreover have "AList.update k v acc = acc @ [(k, v)]" using k(1) by (induction acc) auto
  ultimately show ?case using Cons k by (simp add: a)
qed

lemma merge_meta_seen:
  "(\<And>k v. (k, v) \<in> set m \<Longrightarrow> map_of acc k = Some v) \<Longrightarrow> metrics_key \<notin> fst ` set m \<Longrightarrow>
    merge_meta (acc, ms) m = Inr (acc, ms)"
  by (induction m) force+

lemma merge_metas_same:
  assumes "distinct (map fst m)" "metrics_key \<notin> fst ` set m"
  shows "merge_metas (m, []) (replicate n m) = Inr (m, [])"
proof (induction n)
  case (Suc n)
  have "merge_meta (m, []) m = Inr (m, [])"
    using assms by (intro merge_meta_seen) auto
  then show ?case using Suc by simp
qed simp

lemma merge_meta_infos_same:
  assumes "distinct (map fst m)" "metrics_key \<notin> fst ` set m" "0 < n"
  shows "merge_meta_infos (replicate n m) = Inr m"
proof -
  obtain n' where "n = Suc n'" using assms(3) by (cases n) auto
  then show ?thesis
    using merge_meta_new [of m "[]" "[]"] merge_metas_same [OF assms(1,2), of n'] assms(1,2)
    by (simp add: merge_meta_infos_def)
qed

definition no_metrics :: "('t, 'n, 'v, 'm) data_proto \<Rightarrow> bool" where
  "no_metrics d \<longleftrightarrow> metrics_key \<notin> fst ` set (dp_meta d)"

lemma td_cat_take_rows:
  assumes "distinct (map fst cols)" "iss \<noteq> []"
  shows "td_cat (map (\<lambda>is. \<lparr>td_size = length is, td_cols = map_cols (pick is) cols\<rparr>) iss) =
    Inr \<lparr>td_size = length (concat iss), td_cols = map_cols (pick (concat iss)) cols\<rparr>"
proof -
  obtain js jss where iss: "iss = js # jss" using assms(2) by (cases iss) auto
  have "concat (map (\<lambda>is. the (map_of (map_cols (pick is) cols) k)) iss) = pick (concat iss) c"
    if "(k, c) \<in> set cols" for k c
    using that assms(1) by (simp add: map_of_map_cols pick_concat)
  then have "map (\<lambda>(k, c). (k, concat (map (\<lambda>is. the (map_of (map_cols (pick is) cols) k)) iss))) (map_cols (pick js) cols) =
    map_cols (pick (concat iss)) cols"
    by (auto simp: map_cols_def)
  then show ?thesis by (simp add: td_cat_def iss list_all_iff o_def length_concat)
qed

lemma concat_take_rows:
  assumes "wf_dp d" "no_metrics d" "iss \<noteq> []"
  shows "dp_concat (map (\<lambda>is. take_rows is d) iss) = Inr (take_rows (concat iss) d)"
proof -
  obtain js jss where iss: "iss = js # jss" using assms(3) by (cases iss) auto
  have batch: "(case dp_batch (take_rows js d) of None \<Rightarrow> Inr None
      | Some _ \<Rightarrow> if list_all (\<lambda>x. dp_batch x \<noteq> None) (map (\<lambda>is. take_rows is d) iss)
          then bind_res (td_cat (map (\<lambda>x. the (dp_batch x)) (map (\<lambda>is. take_rows is d) iss))) (\<lambda>td. Inr (Some td))
          else Inl TypeError) = Inr (dp_batch (take_rows (concat iss) d))"
  proof (cases "dp_batch d")
    case None
    then show ?thesis by (simp add: take_rows_def)
  next
    case (Some td)
    then have "distinct (map fst (td_cols td))" using assms(1) by (auto simp: wf_dp_def cols_ok_def)
    from td_cat_take_rows [OF this assms(3)] show ?thesis using Some
      by (simp add: take_rows_def list_all_iff o_def)
  qed
  have "distinct (map fst (dp_non d))" using assms(1) by (auto simp: wf_dp_def cols_ok_def)
  then have "list_of_dict_to_dict_of_list (map (\<lambda>f. map (\<lambda>(k, c). (k, f c)) (dp_non d)) (map pick iss)) =
      Inr (map (\<lambda>(k, c). (k, map (\<lambda>f. f c) (map pick iss))) (dp_non d))"
    using assms(3) by (intro dict_of_lists_same) auto
  then have non: "list_of_dict_to_dict_of_list (map dp_non (map (\<lambda>is. take_rows is d) iss)) =
      Inr (map (\<lambda>(k, c). (k, map (\<lambda>is. pick is c) iss)) (dp_non d))"
    by (simp add: take_rows_def map_cols_def o_def)
  have "map (\<lambda>(k, cs). (k, concat cs)) (map (\<lambda>(k, c). (k, map (\<lambda>is. pick is c) iss)) (dp_non d)) =
      dp_non (take_rows (concat iss) d)"
    by (auto simp: take_rows_def map_cols_def pick_concat)
  moreover have "map dp_meta (map (\<lambda>is. take_rows is d) iss) = replicate (length iss) (dp_meta d)"
    by (simp add: take_rows_def o_def map_replicate_const)
  then have "merge_meta_infos (map dp_meta (map (\<lambda>is. take_rows is d) iss)) = Inr (dp_meta d)"
    using assms merge_meta_infos_same [of "dp_meta d" "length iss"] by (simp add: wf_dp_def no_metrics_def)
  ultimately show ?thesis
    using batch non make_dp_take_rows [of "concat iss" d] unfolding dp_concat_def iss by simp
qed


section \<open>Splitting\<close>

lemma chunks_of_map: "chunks_of n (map f xs) = map (map f) (chunks_of n xs)"
proof (induction n xs rule: chunks_of.induct)
  case (1 n xs)
  then show ?case
    by (cases "n = 0 \<or> xs = []") (auto simp: chunks_of.simps [of n xs] chunks_of.simps [of n "map f xs"] take_map drop_map)
qed

lemma chunks_of_pick: "chunks_of q c = map (\<lambda>rows. pick rows c) (chunks_of q [0..<length c])"
  using chunks_of_map [of q "(!) c" "[0..<length c]"] by (simp add: map_nth pick_def)

lemma split_sizes_replicate:
  "0 < q \<Longrightarrow> 0 < n \<Longrightarrow> length xs = n * q \<Longrightarrow> split_sizes (replicate n q) xs = chunks_of q xs"
proof (induction n arbitrary: xs)
  case (Suc n)
  show ?case
  proof (cases n)
    case 0
    then show ?thesis using Suc.prems by (auto simp: chunks_of.simps [of q xs])
  next
    case (Suc m)
    then have "split_sizes (replicate n q) (drop q xs) = chunks_of q (drop q xs)"
      using Suc.prems by (intro Suc.IH) auto
    then show ?thesis using Suc Suc.prems by (auto simp: chunks_of.simps [of q xs])
  qed
qed simp

lemma length_chunks_exact: "0 < q \<Longrightarrow> length xs = n * q \<Longrightarrow> length (chunks_of q xs) = n"
  by (simp add: length_chunks_of div_mult_self3 flip: add_diff_assoc)

definition even_chunks :: "nat \<Rightarrow> nat \<Rightarrow> nat list list" where
  "even_chunks n len = chunks_of (len div n) [0..<len]"

lemma even_chunks:
  assumes "0 < n" "0 < len" "len mod n = 0"
  shows "length (even_chunks n len) = n" "concat (even_chunks n len) = [0..<len]"
    "\<forall>rows\<in>set (even_chunks n len). length rows = len div n" "0 < len div n" "len = n * (len div n)"
proof -
  show *: "len = n * (len div n)" using assms(3) by (metis add.right_neutral mult_div_mod_eq)
  show q: "0 < len div n" using assms by (simp add: div_greater_zero_iff dvd_imp_le mod_eq_0_iff_dvd)
  show "length (even_chunks n len) = n"
    unfolding even_chunks_def by (rule length_chunks_exact [OF q]) (metis * diff_zero length_upt)
  show "concat (even_chunks n len) = [0..<len]" using q by (simp add: even_chunks_def concat_chunks_of)
  have "n * (len div n) mod (len div n) = 0" by simp
  then have "length [0..<len] mod (len div n) = 0" by (metis * diff_zero length_upt)
  from chunks_of_all_full [OF q this] show "\<forall>rows\<in>set (even_chunks n len). length rows = len div n"
    unfolding even_chunks_def by (rule ballI)
qed

lemma td_chunk_even:
  assumes "0 < n" "0 < td_size td" "td_size td mod n = 0"
  shows "td_chunk n td = Inr (map (\<lambda>rows. \<lparr>td_size = length rows, td_cols = map_cols (pick rows) (td_cols td)\<rparr>)
    (even_chunks n (td_size td)))"
proof -
  define q where "q = td_size td div n"
  have n: "td_size td = n * q" using even_chunks(5) [OF assms] by (simp only: q_def)
  have "(td_size td + n - 1) div n = q"
    using assms(1) by (intro div_nat_eqI) (auto simp: n algebra_simps)
  then have "(td_size td + n - 1) div n = td_size td div n" by (simp only: q_def)
  then show ?thesis using assms by (simp add: td_chunk_def even_chunks_def pick_def [abs_def])
qed

lemma dp_chunk_take_rows:
  fixes d :: "('t, 'n, 'v, 'm) data_proto"
  assumes "wf_dp d" "0 < n" "0 < dp_len d" "dp_len d mod n = 0"
  shows "dp_chunk auto n d = Inr (map (\<lambda>rows. take_rows rows d) (even_chunks n (dp_len d)))"
proof -
  let ?len = "dp_len d" and ?ec = "even_chunks n (dp_len d)"
  note ec = even_chunks [OF assms(2-4)]
  define batches where "batches = map (\<lambda>rows. dp_batch (take_rows rows d)) ?ec"
  have batch: "(case dp_batch d of None \<Rightarrow> Inr (replicate n None)
      | Some td \<Rightarrow> bind_res (td_chunk n td) (\<lambda>tds. Inr (map Some tds))) = Inr batches"
  proof (cases "dp_batch d")
    case None
    then show ?thesis using ec(1) by (simp add: batches_def take_rows_def map_replicate_const)
  next
    case (Some td)
    then have "?len = td_size td" by (simp add: dp_len_def)
    then show ?thesis using Some td_chunk_even [of n td] assms by (simp add: batches_def take_rows_def)
  qed
  have sizes: "map (\<lambda>b. td_size (the b)) batches = replicate n (?len div n)" if "dp_batch d \<noteq> None"
  proof -
    have "map (\<lambda>b. td_size (the b)) batches = map length ?ec"
      using that by (auto simp: batches_def take_rows_def)
    also have "\<dots> = replicate n (?len div n)" using ec(1,3) by (intro replicate_eqI) auto
    finally show ?thesis .
  qed
  have piece: "(if dp_batch d = None then array_split n c
      else Inr (split_sizes (map (\<lambda>b. td_size (the b)) batches) c)) = Inr (map (\<lambda>rows. pick rows c) ?ec)"
    if "length c = ?len" for c :: "'n list"
  proof -
    have "split_sizes (replicate n (?len div n)) c = chunks_of (?len div n) c"
      using ec(4,5) assms(2) that by (intro split_sizes_replicate) auto
    also have "\<dots> = map (\<lambda>rows. pick rows c) ?ec" by (subst chunks_of_pick) (simp add: that even_chunks_def)
    finally show ?thesis using sizes that assms(2,4) by (auto simp: array_split_def)
  qed
  have non: "map_res (\<lambda>(k, c). bind_res (if dp_batch d = None then array_split n c
        else Inr (split_sizes (map (\<lambda>b. td_size (the b)) batches) c))
      (\<lambda>pieces. py_assert (length pieces = n) (Inr (k, pieces)))) (dp_non d) =
    Inr (map (\<lambda>(k, c). (k, map (\<lambda>rows. pick rows c) ?ec)) (dp_non d))"
  proof (rule map_res_Inr)
    fix x assume x: "x \<in> set (dp_non d)"
    obtain k c where kc: "x = (k, c)" by (cases x)
    then have "length c = ?len" using assms(1) x by (auto simp: wf_dp_def cols_ok_def)
    then show "(case x of (k, c) \<Rightarrow> bind_res (if dp_batch d = None then array_split n c
        else Inr (split_sizes (map (\<lambda>b. td_size (the b)) batches) c))
      (\<lambda>pieces. py_assert (length pieces = n) (Inr (k, pieces)))) = Inr (case x of (k, c) \<Rightarrow> (k, map (\<lambda>rows. pick rows c) ?ec))"
      using piece ec(1) by (simp add: kc)
  qed
  have last: "map_res (\<lambda>i. bind_res (py_get batches (int i))
      (\<lambda>b. make_dp b (map (\<lambda>(k, pieces). (k, pieces ! i)) (map (\<lambda>(k, c). (k, map (\<lambda>rows. pick rows c) ?ec)) (dp_non d))) (dp_meta d)))
      [0..<n] = Inr (map (\<lambda>i. take_rows (?ec ! i) d) [0..<n])"
  proof (rule map_res_Inr)
    fix i assume "i \<in> set [0..<n]"
    then have i: "i < length batches" "i < length ?ec" using ec(1) by (simp_all add: batches_def)
    have "map (\<lambda>(k, pieces). (k, pieces ! i)) (map (\<lambda>(k, c). (k, map (\<lambda>rows. pick rows c) ?ec)) (dp_non d)) =
      dp_non (take_rows (?ec ! i) d)"
      using i by (auto simp: take_rows_def map_cols_def)
    moreover have "batches ! i = dp_batch (take_rows (?ec ! i) d)" using i by (simp add: batches_def)
    ultimately show "bind_res (py_get batches (int i))
      (\<lambda>b. make_dp b (map (\<lambda>(k, pieces). (k, pieces ! i)) (map (\<lambda>(k, c). (k, map (\<lambda>rows. pick rows c) ?ec)) (dp_non d))) (dp_meta d)) =
      Inr (take_rows (?ec ! i) d)"
      using i make_dp_take_rows [of "?ec ! i" d] by simp
  qed
  have "map (\<lambda>i. take_rows (?ec ! i) d) [0..<n] = map (\<lambda>rows. take_rows rows d) ?ec"
    using ec(1) by (intro nth_equalityI) auto
  then show ?thesis using batch non last assms by (simp add: dp_chunk_def)
qed


section \<open>The interface of a splittable batch\<close>

text \<open>
  What the dispatch code needs of a batch: a batch whose size the number of pieces divides splits
  into that many pieces of equal size, and putting the pieces together gives the batch back.
\<close>

locale splittable =
  fixes size_of :: "'d \<Rightarrow> nat" and good :: "'d \<Rightarrow> bool"
    and chunk :: "nat \<Rightarrow> 'd \<Rightarrow> 'd list res" and concat_all :: "'d list \<Rightarrow> 'd res"
  assumes chunk_even: "\<lbrakk>good d; 0 < n; 0 < size_of d; size_of d mod n = 0\<rbrakk> \<Longrightarrow>
      \<exists>ds. chunk n d = Inr ds \<and> length ds = n \<and> (\<forall>x\<in>set ds. good x \<and> size_of x = size_of d div n)"
    and concat_chunk: "\<lbrakk>good d; 0 < n; 0 < size_of d; size_of d mod n = 0; chunk n d = Inr ds\<rbrakk> \<Longrightarrow> concat_all ds = Inr d"
begin

text \<open>Work that leaves every piece as it is: dispatching, working and collecting is the identity.\<close>

lemma chunk_map_concat:
  assumes "good d" "0 < n" "0 < size_of d" "size_of d mod n = 0" "\<And>x. f x = Inr x"
  shows "bind_res (chunk n d) (\<lambda>ds. bind_res (map_res f ds) concat_all) = Inr d"
proof -
  obtain ds where ds: "chunk n d = Inr ds" using chunk_even [OF assms(1-4)] by blast
  have "map_res f ds = Inr (map (\<lambda>x. x) ds)" by (rule map_res_Inr) (rule assms(5))
  then show ?thesis using ds concat_chunk [OF assms(1-4) ds] by simp
qed

lemma chunk_sizes:
  assumes "good d" "0 < n" "0 < size_of d" "size_of d mod n = 0" "chunk n d = Inr ds"
  shows "length ds = n \<and> sum_list (map size_of ds) = size_of d"
proof -
  obtain ds' where ds': "chunk n d = Inr ds'" "length ds' = n" "\<forall>x\<in>set ds'. size_of x = size_of d div n"
    using chunk_even [OF assms(1-4)] by blast
  then have ds: "length ds = n" "\<forall>x\<in>set ds. size_of x = size_of d div n" using assms(5) by auto
  have "map size_of ds = map (\<lambda>_. size_of d div n) ds" using ds(2) by (intro map_cong) auto
  then have "sum_list (map size_of ds) = sum_list (map (\<lambda>_. size_of d div n) ds)" by (rule arg_cong)
  also have "\<dots> = n * (size_of d div n)" using ds(1) by (simp add: sum_list_triv)
  finally have "sum_list (map size_of ds) = n * (size_of d div n)" .
  with ds(1) assms(4) show ?thesis by (metis add.right_neutral mult_div_mod_eq)
qed

end

definition dp_good :: "('t, 'n, 'v, 'm) data_proto \<Rightarrow> bool" where
  "dp_good d \<longleftrightarrow> wf_dp d \<and> no_metrics d"

lemma no_metrics_take_rows [simp]: "no_metrics (take_rows idx d) = no_metrics d"
  by (simp add: no_metrics_def take_rows_def)

lemma dp_good_take_rows: "dp_good d \<Longrightarrow> dp_good (take_rows idx d)"
  by (simp add: dp_good_def wf_take_rows)

lemma dp_len_pos: "0 < dp_len d \<Longrightarrow> dp_batch d \<noteq> None \<or> dp_non d \<noteq> []"
  by (auto simp: dp_len_def split: option.splits list.splits)

lemma dp_len_take [simp]: "0 < dp_len d \<Longrightarrow> dp_len (take_rows idx d) = length idx"
  by (rule dp_len_take_rows) (rule dp_len_pos)

interpretation proto: splittable dp_len dp_good "dp_chunk auto" dp_concat for auto
proof
  fix d :: "('t, 'n, 'v, 'm) data_proto" and n
  assume a: "dp_good d" "0 < n" "0 < dp_len d" "dp_len d mod n = 0"
  note ec = even_chunks [OF a(2-4)]
  have chunk: "dp_chunk auto n d = Inr (map (\<lambda>rows. take_rows rows d) (even_chunks n (dp_len d)))"
    using a by (intro dp_chunk_take_rows) (simp_all add: dp_good_def)
  have all: "\<forall>x\<in>set (map (\<lambda>rows. take_rows rows d) (even_chunks n (dp_len d))). dp_good x \<and> dp_len x = dp_len d div n"
  proof
    fix x assume "x \<in> set (map (\<lambda>rows. take_rows rows d) (even_chunks n (dp_len d)))"
    then obtain rows where "rows \<in> set (even_chunks n (dp_len d))" "x = take_rows rows d" by auto
    then show "dp_good x \<and> dp_len x = dp_len d div n" using a(1,3) ec(3) by (simp add: dp_good_take_rows)
  qed
  have "length (map (\<lambda>rows. take_rows rows d) (even_chunks n (dp_len d))) = n" by (simp only: length_map ec(1))
  with chunk all show "\<exists>ds. dp_chunk auto n d = Inr ds \<and> length ds = n \<and> (\<forall>x\<in>set ds. dp_good x \<and> dp_len x = dp_len d div n)"
    by blast
  fix ds assume "dp_chunk auto n d = Inr ds"
  then have "ds = map (\<lambda>rows. take_rows rows d) (even_chunks n (dp_len d))" using chunk by simp
  moreover have "even_chunks n (dp_len d) \<noteq> []" using ec(1) a(2) by auto
  ultimately have "dp_concat ds = Inr (take_rows (concat (even_chunks n (dp_len d))) d)"
    using a(1) concat_take_rows unfolding dp_good_def by blast
  then show "dp_concat ds = Inr d" using a(1) ec(2) by (simp add: take_rows_all dp_good_def)
qed

section \<open>Padding to a divisor\<close>

lemma slice_prefix_rows: "slice_rows None (Some (int m)) None [0..<n] = [0..<min m n]"
  by (simp add: slice_rows_def py_slice_prefix min_def)

lemma padding_protos_rows:
  assumes "wf_dp d" "0 < dp_len d"
  shows "\<exists>iss. padding_protos r d = Inr (map (\<lambda>is. take_rows is d) iss) \<and>
    concat iss = map (\<lambda>j. j mod dp_len d) [0..<r]"
proof (induction r rule: less_induct)
  case (less r)
  show ?case
  proof (cases "r = 0")
    case True
    then show ?thesis by (auto simp: padding_protos.simps)
  next
    case False
    define t where "t = min r (dp_len d)"
    have t: "0 < t" "t \<le> r" "t \<le> dp_len d" using False assms(2) by (auto simp: t_def)
    obtain iss where iss: "padding_protos (r - t) d = Inr (map (\<lambda>is. take_rows is d) iss)"
      "concat iss = map (\<lambda>j. j mod dp_len d) [0..<r - t]"
      using less.IH [of "r - t"] t False by auto
    have slice: "dp_slice None (Some (int t)) None d = Inr (take_rows [0..<t] d)"
      using dp_slice_take_rows [OF assms(1), of None None "Some (int t)"] t(3)
      by (simp add: slice_prefix_rows min_absorb1)
    have "padding_protos r d = Inr (map (\<lambda>is. take_rows is d) ([0..<t] # iss))"
      using False assms(2) slice iss(1) by (simp add: padding_protos.simps [of r d] Let_def t_def [symmetric])
    moreover have "concat ([0..<t] # iss) = map (\<lambda>j. j mod dp_len d) [0..<r]"
    proof (cases "r \<le> dp_len d")
      case True
      then have "t = r" by (simp add: t_def)
      moreover have "map (\<lambda>j. j mod dp_len d) [0..<r] = [0..<r]" using True by (auto intro!: map_idI)
      ultimately show ?thesis using iss(2) by simp
    next
      case False
      then have tl: "t = dp_len d" by (simp add: t_def)
      then have "map (\<lambda>j. j mod dp_len d) [0..<r] = map (\<lambda>j. j mod dp_len d) [0..<t] @ map (\<lambda>j. j mod dp_len d) [t..<r]"
        using t(2) by (metis le_add_diff_inverse map_append upt_add_eq_append zero_le)
      also have "map (\<lambda>j. j mod dp_len d) [0..<t] = [0..<t]" using tl by (auto intro!: map_idI)
      also have "map (\<lambda>j. j mod dp_len d) [t..<r] = map (\<lambda>j. j mod dp_len d) [0..<r - t]"
        using t(2) tl by (auto intro!: nth_equalityI)
      finally show ?thesis using iss(2) by simp
    qed
    ultimately show ?thesis by blast
  qed
qed

lemma pad_rows:
  assumes "dp_good d" "0 < k" "0 < dp_len d"
  shows "\<exists>p. pad_dataproto_to_divisor d k = Inr (take_rows (map (\<lambda>j. j mod dp_len d) [0..<dp_len d + p]) d, p) \<and>
    (dp_len d + p) mod k = 0 \<and> p < k"
proof (cases "dp_len d mod k = 0")
  case True
  have "map (\<lambda>j. j mod dp_len d) [0..<dp_len d] = [0..<dp_len d]" by (auto intro!: map_idI)
  then show ?thesis using True assms by (simp add: pad_dataproto_to_divisor_def take_rows_all dp_good_def)
next
  case False
  define p where "p = k - dp_len d mod k"
  have pk: "p < k" "(dp_len d + p) mod k = 0"
  proof -
    show "p < k" using False assms(2) by (simp add: p_def)
    have "dp_len d mod k < k" using assms(2) by simp
    moreover have "dp_len d = k * (dp_len d div k) + dp_len d mod k" by simp
    ultimately have "dp_len d + p = k * (dp_len d div k) + k" unfolding p_def by linarith
    then show "(dp_len d + p) mod k = 0" by simp
  qed
  obtain iss where iss: "padding_protos p d = Inr (map (\<lambda>is. take_rows is d) iss)"
    "concat iss = map (\<lambda>j. j mod dp_len d) [0..<p]"
    using padding_protos_rows assms unfolding dp_good_def by blast
  have "d # map (\<lambda>is. take_rows is d) iss = map (\<lambda>is. take_rows is d) ([0..<dp_len d] # iss)"
    using assms(1) by (simp add: take_rows_all dp_good_def)
  then have "dp_concat (d # map (\<lambda>is. take_rows is d) iss) = Inr (take_rows (concat ([0..<dp_len d] # iss)) d)"
    using concat_take_rows [of d "[0..<dp_len d] # iss"] assms(1) by (simp add: dp_good_def)
  moreover have "concat ([0..<dp_len d] # iss) = map (\<lambda>j. j mod dp_len d) [0..<dp_len d + p]"
    using iss(2) by (auto intro!: nth_equalityI simp: nth_append le_mod_geq)
  ultimately show ?thesis using pk False assms(2) iss(1)
    by (intro exI [of _ p]) (simp add: pad_dataproto_to_divisor_def p_def [symmetric] Let_def)
qed


section \<open>The final turns\<close>

lemma from_dict_take_rows:
  assumes "dp_batch d = Some td" "td_cols td \<noteq> []"
  shows "from_dict (map_cols (pick is) (td_cols td)) (map_cols (pick is) (dp_non d)) (dp_meta d) False = Inr (take_rows is d)"
proof -
  obtain k c cs where cols: "td_cols td = (k, c) # cs" using assms(2) by (cases "td_cols td") auto
  have "make_dp (dp_batch (take_rows is d)) (dp_non (take_rows is d)) (dp_meta d) = Inr (take_rows is d)"
    by (rule make_dp_take_rows)
  then have "make_dp (Some \<lparr>td_size = length is, td_cols = map_cols (pick is) (td_cols td)\<rparr>)
      (map_cols (pick is) (dp_non d)) (dp_meta d) = Inr (take_rows is d)"
    using assms(1) by (simp add: take_rows_def)
  moreover have "list_all (\<lambda>(k', c'). length c' = length (pick is c)) (map_cols (pick is) cs)"
    by (auto simp: list_all_iff map_cols_def)
  moreover have "map_cols (pick is) (td_cols td) = (k, pick is c) # map_cols (pick is) cs"
    by (simp add: cols map_cols_def)
  ultimately show ?thesis by (simp add: from_dict_def)
qed

lemma indexing_proto_mask:
  assumes "wf_dp d" "dp_batch d = Some td" "td_cols td \<noteq> []" "length ks = dp_len d"
  shows "indexing_proto d (Mask ks) = Inr (take_rows (mask_places ks) d)"
proof -
  have len: "dp_len d = td_size td" using assms(2) by (simp add: dp_len_def)
  have "map_cols_res (fancy_index (Mask ks)) (td_cols td) = Inr (map_cols (pick (mask_places ks)) (td_cols td))"
    using wf_dp_td [OF assms(1,2)] assms(4) len
    by (intro map_cols_res_Inr) (auto simp: fancy_index_def cols_ok_def mask_select_places)
  moreover have "map_cols_res (fancy_index (Mask ks)) (dp_non d) = Inr (map_cols (pick (mask_places ks)) (dp_non d))"
    using wf_dp_td [OF assms(1,2)] assms(4) len
    by (intro map_cols_res_Inr) (auto simp: fancy_index_def cols_ok_def mask_select_places)
  ultimately show ?thesis using from_dict_take_rows [OF assms(2,3)] by (simp add: indexing_proto_def assms(2))
qed

lemma reorder_take_rows:
  assumes "wf_dp d" "dp_batch d = Some td" "\<forall>i\<in>set is. i < dp_len d"
  shows "dp_reorder (map int is) d = Inr (take_rows is d)"
proof -
  have len: "dp_len d = td_size td" using assms(2) by (simp add: dp_len_def)
  have "map_cols_res (fancy_index (Ints (map int is))) (td_cols td) = Inr (map_cols (pick is) (td_cols td))"
    using wf_dp_td [OF assms(1,2)] assms(3) len
    by (intro map_cols_res_Inr fancy_index_nat) (auto simp: cols_ok_def)
  moreover have "map_cols_res (fancy_index (Ints (map int is))) (dp_non d) = Inr (map_cols (pick is) (dp_non d))"
    using wf_dp_td [OF assms(1,2)] assms(3) len
    by (intro map_cols_res_Inr fancy_index_nat) (auto simp: cols_ok_def)
  ultimately show ?thesis by (simp add: dp_reorder_def assms(2) take_rows_def)
qed

lemma mask_places_less: "i \<in> set (mask_places ks) \<Longrightarrow> i < length ks \<and> ks ! i"
  by (simp add: mask_places_def)

text \<open>C8. When the rows marked final carry each sample number \<open>0..n-1\<close> once, in any order,
  \<open>final_batch\<close> returns \<open>n\<close> rows of the batch, and row \<open>i\<close> is a final row of sample \<open>i\<close>.\<close>

theorem final_batch_correct:
  assumes "wf_dp d" "dp_batch d = Some td" "td_cols td \<noteq> []"
    and "length final_mask = dp_len d" "length sample_index = dp_len d"
    and "mset (mask_select final_mask sample_index) = mset (map int [0..<n])"
  shows "\<exists>idx. final_batch d final_mask sample_index = Inr (take_rows idx d) \<and> length idx = n \<and>
    (\<forall>i<n. idx ! i < dp_len d \<and> final_mask ! (idx ! i) \<and> sample_index ! (idx ! i) = int i)"
proof -
  let ?pl = "mask_places final_mask"
  have fi: "mask_select final_mask sample_index = pick ?pl sample_index"
    using assms(4,5) by (intro mask_select_places) simp
  obtain rev_idx where r: "reverse_indices (pick ?pl sample_index) = Inr rev_idx"
    "map (\<lambda>i. pick ?pl sample_index ! i) rev_idx = map int [0..<n]"
    using reverse_indices_perm assms(6) unfolding fi by blast
  have bound: "\<forall>i\<in>set rev_idx. i < length ?pl"
    using reverse_indices_Inr [OF r(1)] index_perm_set by fastforce
  have len: "length rev_idx = n" using r(2) by (metis length_map length_upt diff_zero)
  define e where "e = take_rows ?pl d"
  have e: "wf_dp e" "dp_batch e \<noteq> None" "dp_len e = length ?pl"
    using assms(1,2) wf_take_rows [of d ?pl] dp_len_take_rows [of d ?pl] by (auto simp: e_def take_rows_def)
  then have "dp_reorder (map int rev_idx) e = Inr (take_rows rev_idx e)"
    using bound reorder_take_rows by fastforce
  then have "final_batch d final_mask sample_index = Inr (take_rows (pick rev_idx ?pl) d)"
    using indexing_proto_mask [OF assms(1-4)] r(1) bound fi assms(4,5)
    by (simp add: final_batch_def fancy_index_def e_def take_rows_take_rows)
  moreover have "\<forall>i<n. pick rev_idx ?pl ! i < dp_len d \<and> final_mask ! (pick rev_idx ?pl ! i) \<and>
    sample_index ! (pick rev_idx ?pl ! i) = int i"
  proof (intro allI impI)
    fix i assume i: "i < n"
    then have p: "?pl ! (rev_idx ! i) \<in> set ?pl" using bound len by auto
    have "map (\<lambda>i. pick ?pl sample_index ! i) rev_idx ! i = int i" using r(2) i by simp
    then have "sample_index ! (?pl ! (rev_idx ! i)) = int i" using bound len i by (simp add: pick_def)
    then show "pick rev_idx ?pl ! i < dp_len d \<and> final_mask ! (pick rev_idx ?pl ! i) \<and>
      sample_index ! (pick rev_idx ?pl ! i) = int i"
      using mask_places_less [OF p] assms(4) i len by (simp add: pick_def)
  qed
  ultimately show ?thesis using len by (intro exI [of _ "pick rev_idx ?pl"]) simp
qed

definition sample_proto :: "(nat, nat, nat, nat) data_proto" where
  "sample_proto = \<lparr>dp_batch = Some \<lparr>td_size = 3, td_cols = [(''ids'', [10, 11, 12])]\<rparr>,
     dp_non = [(''uid'', [0, 1, 2])], dp_meta = [(''step'', MetaVal 7)]\<rparr>"

lemma sample_proto_good: "dp_good sample_proto" "dp_len sample_proto = 3"
  by (simp_all add: dp_good_def wf_dp_def no_metrics_def sample_proto_def cols_ok_def dp_len_def metrics_key_def)

theorem final_batch_correct_witness:
  "\<exists>idx. final_batch sample_proto [False, True, True] [0, 1, 0] = Inr (take_rows idx sample_proto) \<and> length idx = 2 \<and>
    (\<forall>i<2. idx ! i < dp_len sample_proto \<and> [False, True, True] ! (idx ! i) \<and> [0, 1, 0 :: int] ! (idx ! i) = int i)"
proof (rule final_batch_correct)
  show "wf_dp sample_proto" using sample_proto_good(1) by (simp add: dp_good_def)
  show "dp_batch sample_proto = Some \<lparr>td_size = 3, td_cols = [(''ids'', [10, 11, 12])]\<rparr>" by (simp add: sample_proto_def)
  show "mset (mask_select [False, True, True] [0, 1, 0]) = mset (map int [0..<2])"
    by (simp add: mask_select_def numeral_2_eq_2)
qed (simp_all add: sample_proto_good)

section \<open>Round trips of the container\<close>

text \<open>A batch without worker metrics, of a size the number of pieces divides, splits into that
  many pieces of equal size, and concatenating the pieces gives the same batch: the same columns in
  the same order with the same rows, and the same meta information.\<close>

theorem chunk_concat_roundtrip:
  assumes "dp_good d" "0 < n" "0 < dp_len d" "dp_len d mod n = 0"
  shows "\<exists>ds. dp_chunk auto n d = Inr ds \<and> length ds = n \<and> (\<forall>x\<in>set ds. dp_len x = dp_len d div n) \<and>
    dp_concat ds = Inr d"
  using proto.chunk_even [OF assms, of auto] proto.concat_chunk [OF assms, of auto] by blast

theorem chunk_concat_roundtrip_witness:
  "\<exists>ds. dp_chunk False 3 sample_proto = Inr ds \<and> length ds = 3 \<and>
    (\<forall>x\<in>set ds. dp_len x = dp_len sample_proto div 3) \<and> dp_concat ds = Inr sample_proto"
  by (rule chunk_concat_roundtrip) (simp_all add: sample_proto_good)

lemma mod_rows_pick:
  "0 < n \<Longrightarrow> pick [0..<n] (map (\<lambda>j. j mod n) [0..<n + p]) = [0..<n]"
  by (auto simp: pick_def intro!: nth_equalityI)

text \<open>C7. Padding a non-empty batch to a divisor adds fewer rows than the divisor, makes the size a
  multiple of it, repeats the rows cyclically from the first, and is undone by \<open>unpad\<close>.\<close>

theorem pad_unpad_dataproto:
  assumes "dp_good d" "0 < k" "0 < dp_len d"
  shows "\<exists>p n. pad_dataproto_to_divisor d k = Inr (p, n) \<and> n < k \<and> dp_len p = dp_len d + n \<and>
    dp_len p mod k = 0 \<and> p = take_rows (map (\<lambda>j. j mod dp_len d) [0..<dp_len d + n]) d \<and>
    unpad_dataproto p n = Inr d"
proof -
  obtain n where n: "pad_dataproto_to_divisor d k = Inr (take_rows (map (\<lambda>j. j mod dp_len d) [0..<dp_len d + n]) d, n)"
    "(dp_len d + n) mod k = 0" "n < k"
    by (rule exE [OF pad_rows [OF assms]], elim conjE)
  define p where "p = take_rows (map (\<lambda>j. j mod dp_len d) [0..<dp_len d + n]) d"
  have len: "dp_len p = dp_len d + n" using assms(3) by (simp add: p_def)
  have whole: "take_rows [0..<dp_len d] p = d"
  proof -
    have "take_rows [0..<dp_len d] p = take_rows (pick [0..<dp_len d] (map (\<lambda>j. j mod dp_len d) [0..<dp_len d + n])) d"
      unfolding p_def by (rule take_rows_take_rows) simp
    then show ?thesis using assms by (simp add: mod_rows_pick take_rows_all dp_good_def)
  qed
  have "unpad_dataproto p n = Inr d"
  proof (cases "n = 0")
    case True
    have "wf_dp p" using assms(1) by (simp add: p_def wf_take_rows dp_good_def)
    then have "p = d" by (metis True add_0_right len take_rows_all whole)
    then show ?thesis using True by (simp add: unpad_dataproto_def)
  next
    case False
    have "wf_dp p" using assms(1) by (simp add: p_def wf_take_rows dp_good_def)
    moreover have "slice_rows None (Some (- int n)) None [0..<dp_len p] = [0..<dp_len d]"
      using False len by (simp add: slice_rows_def py_slice_butlast)
    ultimately show ?thesis using False whole dp_slice_take_rows [of p None None "Some (- int n)"]
      by (simp add: unpad_dataproto_def)
  qed
  then show ?thesis
    using n len by (intro exI [of _ p] exI [of _ n]) (simp add: p_def [symmetric])
qed

theorem pad_unpad_dataproto_witness:
  "\<exists>p n. pad_dataproto_to_divisor sample_proto 4 = Inr (p, n) \<and> n < 4 \<and> dp_len p = dp_len sample_proto + n \<and>
    dp_len p mod 4 = 0 \<and> p = take_rows (map (\<lambda>j. j mod dp_len sample_proto) [0..<dp_len sample_proto + n]) sample_proto \<and>
    unpad_dataproto p n = Inr sample_proto"
  by (rule pad_unpad_dataproto) (simp_all add: sample_proto_good)

text \<open>With metrics in the meta information the round trip fails: padding concatenates the batch
  with copies of its own rows, and the merge of meta information counts the metrics of every copy,
  so that unpadding leaves a batch with other metrics than before.\<close>

theorem padding_duplicates_metrics:
  "\<exists>p d'. pad_dataproto_to_divisor (sample_proto\<lparr>dp_meta := [(metrics_key, MetaDict [(''loss'', Leaf 5)])]\<rparr>) 2 = Inr (p, 1) \<and>
    unpad_dataproto p 1 = Inr d' \<and>
    dp_meta d' = [(metrics_key, MetaDict [(''loss'', Leaves [Leaf 5, Leaf 5])])]"
proof (intro exI conjI)
  let ?m = "[(metrics_key, MetaDict [(''loss'', Leaves [Leaf 5, Leaf 5])])] :: (nat, nat) meta"
  show "pad_dataproto_to_divisor (sample_proto\<lparr>dp_meta := [(metrics_key, MetaDict [(''loss'', Leaf 5)])]\<rparr>) 2 =
    Inr (\<lparr>dp_batch = Some \<lparr>td_size = 4, td_cols = [(''ids'', [10, 11, 12, 10])]\<rparr>,
      dp_non = [(''uid'', [0, 1, 2, 0])], dp_meta = ?m\<rparr>, 1)"
    by code_simp
  show "unpad_dataproto \<lparr>dp_batch = Some \<lparr>td_size = 4, td_cols = [(''ids'', [10, 11, 12, 10 :: nat])]\<rparr>,
      dp_non = [(''uid'', [0, 1, 2, 0 :: nat])], dp_meta = ?m\<rparr> 1 =
    Inr \<lparr>dp_batch = Some \<lparr>td_size = 3, td_cols = [(''ids'', [10, 11, 12])]\<rparr>,
      dp_non = [(''uid'', [0, 1, 2])], dp_meta = ?m\<rparr>"
    by code_simp
qed simp


section \<open>Columns taken out and put back\<close>

lemma pop_keys_Inr:
  "pop_keys ks d = Inr (p, r) \<Longrightarrow> distinct (map fst d) \<Longrightarrow>
    map fst p = ks \<and> distinct ks \<and> set ks \<subseteq> fst ` set d \<and> distinct (map fst r) \<and>
    fst ` set r = fst ` set d - set ks \<and>
    (\<forall>k. map_of d k = (if k \<in> set ks then map_of p k else map_of r k))"
proof (induction ks arbitrary: d p r)
  case Nil
  then show ?case by simp
next
  case (Cons k ks)
  obtain v p' where v: "map_of d k = Some v" "pop_keys ks (AList.delete k d) = Inr (p', r)" "p = (k, v) # p'"
    using Cons.prems(1) by (auto simp: bind_res_eq_Inr split: option.splits)
  have "distinct (map fst (AList.delete k d))" using Cons.prems(2) by (rule distinct_delete)
  note ih = Cons.IH [OF v(2) this]
  have del: "fst ` set (AList.delete k d) = fst ` set d - {k}" by (simp add: delete_keys flip: dom_map_of_conv_image_fst) (auto simp: delete_conv')
  have k: "k \<in> fst ` set d" using v(1) by (metis domI dom_map_of_conv_image_fst)
  have "k \<notin> set ks" using ih del by auto
  moreover have "map_of d k' = (if k' \<in> set (k # ks) then map_of p k' else map_of r k')" for k'
  proof (cases "k' = k")
    case True
    then show ?thesis using v by simp
  next
    case False
    then have "map_of d k' = map_of (AList.delete k d) k'" by (simp add: delete_conv')
    also have "\<dots> = (if k' \<in> set ks then map_of p' k' else map_of r k')" using ih by blast
    finally show ?thesis using False v(3) by simp
  qed
  ultimately show ?case using ih v(3) del k by auto
qed

lemma update_fresh: "k \<notin> fst ` set d \<Longrightarrow> AList.update k v d = d @ [(k, v)]"
  by (induction d) auto

lemma union_cols_fresh:
  "distinct (map fst r @ map fst p) \<Longrightarrow> union_cols r p = Inr (r @ p)"
proof (induction p arbitrary: r)
  case (Cons a p)
  obtain k c where a: "a = (k, c)" by (cases a)
  then have "k \<notin> fst ` set r" using Cons.prems by auto
  moreover from this have "map_of r k = None" by (simp add: map_of_eq_None_iff)
  moreover have "union_cols (r @ [(k, c)]) p = Inr ((r @ [(k, c)]) @ p)"
    using Cons.prems a by (intro Cons.IH) auto
  ultimately show ?case by (simp add: a update_fresh)
qed simp

lemma union_dict_fresh:
  "distinct (map fst r @ map fst p) \<Longrightarrow> union_two_dict r p = Inr (r @ p)"
proof (induction p arbitrary: r)
  case (Cons a p)
  obtain k c where a: "a = (k, c)" by (cases a)
  then have "k \<notin> fst ` set r" using Cons.prems by auto
  moreover from this have "map_of r k = None" by (simp add: map_of_eq_None_iff)
  moreover have "union_two_dict (r @ [(k, c)]) p = Inr ((r @ [(k, c)]) @ p)"
    using Cons.prems a by (intro Cons.IH) auto
  ultimately show ?case by (simp add: a update_fresh)
qed simp

text \<open>Two dictionaries with the same items, whatever their order.\<close>

definition same_dict :: "(string \<times> 'a) list \<Rightarrow> (string \<times> 'a) list \<Rightarrow> bool" where
  "same_dict a b \<longleftrightarrow> distinct (map fst a) \<and> distinct (map fst b) \<and> map_of a = map_of b"

lemma pop_union_dict:
  assumes "pop_keys ks d = Inr (p, r)" "distinct (map fst d)"
  shows "distinct (map fst r @ map fst p)" "same_dict (r @ p) d"
proof -
  note pk = pop_keys_Inr [OF assms]
  show dist: "distinct (map fst r @ map fst p)" using pk by auto
  have "map_of (r @ p) k = map_of d k" for k
  proof (cases "k \<in> set ks")
    case True
    then have "k \<notin> fst ` set r" using pk by auto
    then have "map_of r k = None" by (simp add: map_of_eq_None_iff)
    then show ?thesis using pk True by (simp add: map_add_def split: option.split)
  next
    case False
    then have "k \<notin> fst ` set p" using pk by (metis list.set_map)
    then have "map_of p k = None" by (simp add: map_of_eq_None_iff)
    then show ?thesis using pk False by (simp add: map_add_def split: option.split)
  qed
  then show "same_dict (r @ p) d" using dist assms(2) by (auto simp: same_dict_def)
qed

text \<open>Popping some columns (at least one tensor) from a batch and uniting what is left with what
  was popped gives back the batch: the same size and, up to the order of the keys, the same tensors,
  arrays and meta information.\<close>

theorem pop_union_roundtrip:
  assumes "wf_dp d" "dp_batch d = Some td" "ks \<noteq> []" "dp_pop ks ns ms d = Inr (out, rest)"
  shows "\<exists>u tu. dp_union rest out = Inr u \<and> dp_batch u = Some tu \<and> td_size tu = td_size td \<and>
    same_dict (td_cols tu) (td_cols td) \<and> same_dict (dp_non u) (dp_non d) \<and> same_dict (dp_meta u) (dp_meta d)"
proof -
  have dist: "distinct (map fst (td_cols td))" "distinct (map fst (dp_non d))" "distinct (map fst (dp_meta d))"
    using assms(1,2) by (auto simp: wf_dp_def cols_ok_def)
  obtain tp tr np nr mp mr where pops: "pop_keys ks (td_cols td) = Inr (tp, tr)" "pop_keys ns (dp_non d) = Inr (np, nr)"
    "pop_keys ms (dp_meta d) = Inr (mp, mr)" "from_dict tp np mp False = Inr out"
    "rest = \<lparr>dp_batch = Some (td\<lparr>td_cols := tr\<rparr>), dp_non = nr, dp_meta = mr\<rparr>"
    using assms(4) by (auto simp: dp_pop_def assms(2) bind_res_eq_Inr)
  note pt = pop_keys_Inr [OF pops(1) dist(1)]
  obtain k c cs where tp: "tp = (k, c) # cs" using pt assms(3) by (cases tp) auto
  have out: "out = \<lparr>dp_batch = Some \<lparr>td_size = length c, td_cols = tp\<rparr>, dp_non = np, dp_meta = mp\<rparr>"
    using pops(4) by (auto simp: from_dict_def tp make_dp_def py_assert_eq_Inr)
  have "map_of (td_cols td) k = Some c" using pt tp by force
  then have "length c = td_size td"
    using assms(1,2) by (auto simp: wf_dp_def cols_ok_def dest!: map_of_SomeD)
  then have "dp_union rest out = Inr \<lparr>dp_batch = Some (td\<lparr>td_cols := tr @ tp\<rparr>), dp_non = nr @ np, dp_meta = mr @ mp\<rparr>"
    using pop_union_dict(1) [OF pops(1) dist(1)] pop_union_dict(1) [OF pops(2) dist(2)] pop_union_dict(1) [OF pops(3) dist(3)]
    by (simp add: dp_union_def union_tensor_dict_def union_cols_fresh union_dict_fresh out pops(5))
  then show ?thesis
    using pop_union_dict(2) [OF pops(1) dist(1)] pop_union_dict(2) [OF pops(2) dist(2)] pop_union_dict(2) [OF pops(3) dist(3)]
    by auto
qed

theorem pop_union_roundtrip_witness:
  "\<exists>u tu. dp_union (sample_proto\<lparr>dp_batch := Some \<lparr>td_size = 3, td_cols = []\<rparr>\<rparr>)
      \<lparr>dp_batch = Some \<lparr>td_size = 3, td_cols = [(''ids'', [10, 11, 12])]\<rparr>, dp_non = [], dp_meta = []\<rparr> = Inr u \<and>
    dp_batch u = Some tu \<and> td_size tu = td_size \<lparr>td_size = 3, td_cols = [(''ids'', [10, 11, 12 :: nat])]\<rparr> \<and>
    same_dict (td_cols tu) (td_cols \<lparr>td_size = 3, td_cols = [(''ids'', [10, 11, 12])]\<rparr>) \<and>
    same_dict (dp_non u) (dp_non sample_proto) \<and> same_dict (dp_meta u) (dp_meta sample_proto)"
proof (rule pop_union_roundtrip)
  show "wf_dp sample_proto" using sample_proto_good(1) by (simp add: dp_good_def)
  show "dp_batch sample_proto = Some \<lparr>td_size = 3, td_cols = [(''ids'', [10, 11, 12])]\<rparr>" by (simp add: sample_proto_def)
  show "dp_pop [''ids''] [] [] sample_proto = Inr
    (\<lparr>dp_batch = Some \<lparr>td_size = 3, td_cols = [(''ids'', [10, 11, 12])]\<rparr>, dp_non = [], dp_meta = []\<rparr>,
     sample_proto\<lparr>dp_batch := Some \<lparr>td_size = 3, td_cols = []\<rparr>\<rparr>)"
    by code_simp
qed simp

section \<open>Folding, futures and column chunks\<close>

lemma fold_unfold:
  assumes "wf_dp d" "dp_batch d = Some td" "td_cols td \<noteq> []" "0 < n" "0 < td_size td" "td_size td mod n = 0"
  shows "\<exists>e. fold_batch_dim d n = Inr e \<and> dp_len e = n \<and> unfold_batch_dim e = Inr d"
proof -
  define k where "k = td_size td div n"
  have size: "td_size td = n * k" unfolding k_def by (rule even_chunks(5) [OF assms(4-6)])
  have k: "0 < k" unfolding k_def by (rule even_chunks(4) [OF assms(4-6)])
  define e where "e = \<lparr>dp_batch = Some \<lparr>td_size = n, td_cols = map_cols (chunks_of k) (td_cols td)\<rparr>,
    dp_non = map_cols (chunks_of k) (dp_non d), dp_meta = dp_meta d\<rparr>"
  note ok = wf_dp_td [OF assms(1,2)]
  have "list_all (\<lambda>(q, c). length c = n) (map_cols (chunks_of k) (dp_non d))"
    using ok size k by (auto simp: list_all_iff set_map_cols cols_ok_def intro!: length_chunks_exact)
  then have fold: "fold_batch_dim d n = Inr e"
    using assms(4-6) by (simp add: fold_batch_dim_def assms(2) e_def make_dp_def check_consistency_def k_def [symmetric])
  have td: "map_cols concat (map_cols (chunks_of k) (td_cols td)) = td_cols td"
    "map_cols concat (map_cols (chunks_of k) (dp_non d)) = dp_non d"
    using k by (simp_all add: concat_chunks_of map_cols_ident)
  obtain q c cs where cols: "td_cols td = (q, c) # cs" using assms(3) by (cases "td_cols td") auto
  then have "length c = td_size td" using ok by (auto simp: cols_ok_def)
  moreover have "list_all (\<lambda>(q, c). length c = td_size td) (dp_non d)" using ok by (auto simp: list_all_iff cols_ok_def)
  moreover have "td = \<lparr>td_size = td_size td, td_cols = (q, c) # cs\<rparr>" using cols by simp
  ultimately have "unfold_batch_dim e = Inr d"
    using td assms(2) by (simp add: unfold_batch_dim_def e_def cols make_dp_def check_consistency_def)
  moreover have "dp_len e = n" by (simp add: e_def dp_len_def)
  ultimately show ?thesis using fold by blast
qed

text \<open>Waiting on the pieces of a future gives the pieces of the batch the future stands for: when
  the workers' outputs concatenate to a good batch, resolving the chunks of the future one by one is
  the same as chunking the concatenated batch.\<close>

theorem future_chunks:
  assumes "dp_concat (map ray_get refs) = Inr d" "dp_good d" "0 < n" "0 < dp_len d" "dp_len d mod n = 0"
  shows "map_res (future_get auto ray_get) (future_chunk n (future_concat refs)) = dp_chunk auto n d"
proof -
  obtain ds where ds: "dp_chunk auto n d = Inr ds" "length ds = n"
    using proto.chunk_even [OF assms(2-5)] by blast
  have "map_res (\<lambda>i. future_get auto ray_get (future_concat refs\<lparr>fut_dispatch := Some (i, n)\<rparr>)) [0..<n] =
    Inr (map (\<lambda>i. ds ! i) [0..<n])"
    by (rule map_res_Inr) (use assms(1) ds in \<open>auto simp: future_get_def future_concat_def\<close>)
  moreover have "map (\<lambda>i. ds ! i) [0..<n] = ds" using ds(2) map_nth by blast
  ultimately show ?thesis using ds by (simp add: future_chunk_def)
qed

theorem future_chunks_witness:
  "map_res (future_get False (\<lambda>r :: nat. sample_proto)) (future_chunk 3 (future_concat [0])) = dp_chunk False 3 sample_proto"
proof (rule future_chunks)
  show "dp_concat (map (\<lambda>r :: nat. sample_proto) [0]) = Inr sample_proto" by code_simp
qed (simp_all add: sample_proto_good)

text \<open>Without split keys \<open>unfold_column_chunks\<close> is documented to repeat every column, but on a
  batch with arrays it always fails, looking a key up in no list.\<close>

theorem unfold_column_chunks_no_keys:
  "dp_batch d = None \<Longrightarrow> dp_non d \<noteq> [] \<Longrightarrow> unfold_column_chunks n None d = Inl TypeError"
  by (cases "dp_non d") (auto simp: unfold_column_chunks_def)

end
