(* ===== verification/MemoryConfig.thy ===== *)
theory MemoryConfig
  imports TensorUtils Complex_Main
begin

text \<open>
  The configuration of the memory agents, the budgets and items of their datasets, their templates
  and the text that merges chunk memories (\<open>recurrent/impls/memory.py\<close>, and the dataset of
  \<open>recurrent/impls/async_memory.py\<close>, which computes the same).
\<close>

section \<open>Configuration\<close>

record memory_config =
  max_prompt_length :: int
  chunk_size :: nat
  max_memorization_length :: int
  max_chunks :: int
  max_final_response_length :: int
  max_passes :: int
  max_merge_length :: int
  chunk_parallelism_per_sample :: int
  no_new_info_marker :: string

definition max_raw_input_length :: "memory_config \<Rightarrow> int" where
  "max_raw_input_length c = max_prompt_length c + int (chunk_size c) + max_merge_length c"

definition max_raw_merge_input_length :: "memory_config \<Rightarrow> int" where
  "max_raw_merge_input_length c = max_prompt_length c + max_chunks c * max_memorization_length c"

definition gen_pad_to :: "memory_config \<Rightarrow> int" where
  "gen_pad_to c = max (max (max_memorization_length c) (max_merge_length c)) (max_final_response_length c)"

section \<open>The dataset\<close>

text \<open>\<open>math.ceil(a / b)\<close>; the float quotient is exact for the lengths that occur.\<close>

definition ceil_div :: "int \<Rightarrow> nat \<Rightarrow> int res" where
  "ceil_div a b = (if b = 0 then Inl ZeroDivisionError else Inr (- ((- a) div int b)))"

text \<open>
  The constructor's budgets: the number of chunks and the prompt length it stores in the
  configurations, from the two values it is given.
\<close>

definition memory_budgets :: "string \<Rightarrow> nat \<Rightarrow> int option \<Rightarrow> int option \<Rightarrow> (int \<times> int) res" where
  "memory_budgets truncation csize old_max_chunks old_max_prompt_length =
     (if truncation \<noteq> ''middle'' then Inl ValueError
      else case (old_max_chunks, old_max_prompt_length) of
          (Some _, Some l) \<Rightarrow> bind_res (ceil_div l csize) (\<lambda>n. Inr (n, n * int csize))
        | (None, Some l) \<Rightarrow> bind_res (ceil_div l csize) (\<lambda>n. Inr (n, n * int csize))
        | (Some n, None) \<Rightarrow> Inr (n, n * int csize)
        | (None, None) \<Rightarrow> Inl ValueError)"

text \<open>\<open>postprocess_data\<close> of \<open>verl/utils/torch_functional.py\<close>, on the one row the datasets pass.\<close>

definition pad_sequence_to_length :: "'a list \<Rightarrow> int \<Rightarrow> 'a \<Rightarrow> bool \<Rightarrow> 'a list" where
  "pad_sequence_to_length xs max_seq_len pad left_pad =
     (if max_seq_len \<le> int (length xs) then xs
      else let fill = replicate (nat (max_seq_len - int (length xs))) pad
           in if left_pad then fill @ xs else xs @ fill)"

definition truncate_row :: "string \<Rightarrow> int \<Rightarrow> 'a list \<Rightarrow> 'a list res" where
  "truncate_row truncation max_length xs =
     (if truncation = ''left'' then Inr (py_slice (Some (- max_length)) None xs)
      else if truncation = ''right'' then Inr (py_slice None (Some max_length) xs)
      else if truncation = ''middle'' then
        (let left_half = max_length div 2; right_half = max_length - left_half
         in Inr (py_slice None (Some left_half) xs @ py_slice (Some (- right_half)) None xs))
      else Inl NotImplementedError)"

definition postprocess_data ::
  "int list \<Rightarrow> int list \<Rightarrow> int \<Rightarrow> int \<Rightarrow> bool \<Rightarrow> string \<Rightarrow> (int list \<times> int list) res" where
  "postprocess_data input_ids attention_mask max_length pad left_pad truncation =
     py_assert (truncation \<in> set [''left'', ''right'', ''middle'', ''error''])
       (let n = int (length input_ids)
        in if n < max_length
           then Inr (pad_sequence_to_length input_ids max_length pad left_pad,
                     pad_sequence_to_length attention_mask max_length 0 left_pad)
           else if max_length < n
           then bind_res (truncate_row truncation max_length input_ids)
                  (\<lambda>ids. bind_res (truncate_row truncation max_length attention_mask) (\<lambda>mask. Inr (ids, mask)))
           else Inr (input_ids, attention_mask))"

text \<open>
  An item of the data frame (its chat is one message or more) and the row the dataset makes of it,
  but for the random identifier.
\<close>

record data_item =
  di_chat :: "string list"
  di_context :: string
  di_index :: "int option"

record memory_row =
  mr_context_ids :: "int list"
  mr_context_length :: int
  mr_prompt :: string
  mr_index :: int

definition memory_getitem :: "tokenizer \<Rightarrow> int \<Rightarrow> string \<Rightarrow> data_item \<Rightarrow> memory_row res" where
  "memory_getitem tok prompt_length truncation item =
     bind_res (py_get (di_chat item) 0)
       (\<lambda>content.
          let input_ids = tok_encode tok (py_strip (di_context item))
          in bind_res (postprocess_data input_ids (replicate (length input_ids) 1) prompt_length (tok_pad tok) False truncation)
               (\<lambda>(ids, mask).
                  Inr \<lparr>mr_context_ids = ids, mr_context_length = sum_list mask, mr_prompt = py_strip content,
                       mr_index = (case di_index item of None \<Rightarrow> 0 | Some i \<Rightarrow> i)\<rparr>))"

section \<open>Templates\<close>

abbreviation newline :: char where "newline \<equiv> CHR 0x0A"

definition fmt_field :: "string \<Rightarrow> string" where
  "fmt_field name = open_brace # name @ [close_brace]"

definition TEMPLATE_CHUNK :: string where
  "TEMPLATE_CHUNK =
     ''You are presented with a problem, a section of an article, and a global memory summarizing previously gathered information. Please read the section carefully and determine whether the section contains new information relevant to answering the problem beyond what is already in the global memory. First, output your judgment in the format <check>yes</check> if there is new information, or <check>no</check> if there is none. Then, if there is new information, extract and list the key details.'' @
     [newline, newline] @
     ''<problem>'' @
     [newline] @
     fmt_field ''prompt'' @
     [newline] @
     ''</problem>'' @
     [newline, newline] @
     ''<memory>'' @
     [newline] @
     fmt_field ''memory'' @
     [newline] @
     ''</memory>'' @
     [newline, newline] @
     ''<section>'' @
     [newline] @
     fmt_field ''chunk'' @
     [newline] @
     ''</section>'' @
     [newline, newline] @
     ''Your response:'' @
     [newline]"

definition TEMPLATE_MERGE :: string where
  "TEMPLATE_MERGE =
     ''You are presented with a problem and key information extracted from multiple sections of an article. Please consolidate all the information into a single comprehensive memory. Remove redundancies and organize the information clearly, retaining all details relevant to answering the problem.'' @
     [newline, newline] @
     ''<problem>'' @
     [newline] @
     fmt_field ''prompt'' @
     [newline] @
     ''</problem>'' @
     [newline, newline] @
     ''<extracted_information>'' @
     [newline] @
     fmt_field ''memories'' @
     [newline] @
     ''</extracted_information>'' @
     [newline, newline] @
     ''Consolidated memory:'' @
     [newline]"

definition TEMPLATE_FINAL_BOXED :: string where
  "TEMPLATE_FINAL_BOXED =
     ''You are presented with a problem and a previous memory. Please answer the problem based on the previous memory and put the answer in '' @
     [CHR 0x5C] @
     ''boxed'' @
     [open_brace, open_brace] @
     [close_brace, close_brace] @
     ''.'' @
     [newline, newline] @
     ''<problem>'' @
     [newline] @
     fmt_field ''prompt'' @
     [newline] @
     ''</problem>'' @
     [newline, newline] @
     ''<memory>'' @
     [newline] @
     fmt_field ''memory'' @
     [newline] @
     ''</memory>'' @
     [newline, newline] @
     ''Your answer:'' @
     [newline]"

definition NO_MEMORY :: string where
  "NO_MEMORY = ''No previous memory''"

definition PREVIOUS_MEMORY_LABEL :: string where
  "PREVIOUS_MEMORY_LABEL = ''[Previous Memory]:''"

text \<open>\<open>SECTION_LABEL_TEMPLATE.format(idx=i)\<close>.\<close>

definition section_label :: "nat \<Rightarrow> string" where
  "section_label i = ''[Section '' @ str_nat i @ '']:''"

section \<open>Merging memories\<close>

text \<open>The loop over the new memories, numbered from \<open>i\<close>: one part per memory that is not blank.\<close>

fun merge_parts :: "nat \<Rightarrow> string option list \<Rightarrow> string list" where
  "merge_parts i [] = []"
| "merge_parts i (m # ms) =
     (case m of
        None \<Rightarrow> merge_parts (i + 1) ms
      | Some mem \<Rightarrow>
          if py_strip mem = [] then merge_parts (i + 1) ms
          else (section_label i @ [newline] @ py_strip mem) # merge_parts (i + 1) ms)"

definition previous_part :: "string option \<Rightarrow> string list" where
  "previous_part previous =
     (case previous of
        None \<Rightarrow> []
      | Some p \<Rightarrow> if p \<noteq> [] \<and> py_strip p \<noteq> [] \<and> py_strip p \<noteq> NO_MEMORY
                  then [PREVIOUS_MEMORY_LABEL @ [newline] @ py_strip p] else [])"

definition build_merge_memories :: "string option \<Rightarrow> string option list \<Rightarrow> string" where
  "build_merge_memories previous new_memories =
     (let parts = previous_part previous @ merge_parts 1 new_memories
      in if parts \<noteq> [] then py_join [newline, newline] parts else NO_MEMORY)"

section \<open>Laws\<close>

lemma py_format_fmt_field:
  assumes "name \<noteq> []" "no_brace name" "\<not> fmt_unsupported name" "\<not> list_all py_isdigit name" "env name = Some v"
  shows "py_format env (fmt_field name @ t) = bind_res (py_format env t) (\<lambda>r. Inr (v @ r))"
  using assms by (simp add: fmt_field_def py_format_field fmt_lookup_def)

definition fmt_name :: "string \<Rightarrow> bool" where
  "fmt_name name = (name \<noteq> [] \<and> no_brace name \<and> \<not> fmt_unsupported name \<and> \<not> list_all py_isdigit name)"

text \<open>A template made of texts and fields, and its rendering.\<close>

datatype seg = Text string | Field string | Brace bool

fun seg_string :: "seg \<Rightarrow> string" where
  "seg_string (Text s) = s"
| "seg_string (Field n) = fmt_field n"
| "seg_string (Brace b) = (if b then [open_brace, open_brace] else [close_brace, close_brace])"

fun seg_render :: "(string \<rightharpoonup> string) \<Rightarrow> seg \<Rightarrow> string" where
  "seg_render env (Text s) = s"
| "seg_render env (Field n) = the (env n)"
| "seg_render env (Brace b) = (if b then [open_brace] else [close_brace])"

fun seg_ok :: "(string \<rightharpoonup> string) \<Rightarrow> seg \<Rightarrow> bool" where
  "seg_ok env (Text s) = no_brace s"
| "seg_ok env (Field n) = (fmt_name n \<and> env n \<noteq> None)"
| "seg_ok env (Brace b) = True"

lemma py_format_segs:
  "list_all (seg_ok env) segs \<Longrightarrow> py_format env (concat (map seg_string segs)) = Inr (concat (map (seg_render env) segs))"
proof (induction segs)
  case (Cons s segs)
  then show ?case
    by (cases s) (auto simp: py_format_text py_format_fmt_field fmt_name_def py_format_escape)
qed simp


definition template_chunk_segs :: "seg list" where
  "template_chunk_segs =
    [Text (''You are presented with a problem, a section of an article, and a global memory summarizing previously gathered information. Please read the section carefully and determine whether the section contains new information relevant to answering the problem beyond what is already in the global memory. First, output your judgment in the format <check>yes</check> if there is new information, or <check>no</check> if there is none. Then, if there is new information, extract and list the key details.'' @ [newline, newline] @ ''<problem>'' @ [newline]),
     Field ''prompt'',
     Text ([newline] @ ''</problem>'' @ [newline, newline] @ ''<memory>'' @ [newline]),
     Field ''memory'',
     Text ([newline] @ ''</memory>'' @ [newline, newline] @ ''<section>'' @ [newline]),
     Field ''chunk'',
     Text ([newline] @ ''</section>'' @ [newline, newline] @ ''Your response:'' @ [newline])]"

lemma template_chunk_format: "\<exists>s. py_format [''prompt'' \<mapsto> pr0, ''memory'' \<mapsto> me1, ''chunk'' \<mapsto> ch2] TEMPLATE_CHUNK = Inr s"
proof -
  have t: "TEMPLATE_CHUNK = concat (map seg_string template_chunk_segs)"
    by (simp add: TEMPLATE_CHUNK_def template_chunk_segs_def)
  have ok: "list_all (seg_ok [''prompt'' \<mapsto> pr0, ''memory'' \<mapsto> me1, ''chunk'' \<mapsto> ch2]) template_chunk_segs"
    by (simp add: template_chunk_segs_def no_brace_def open_brace_def close_brace_def fmt_name_def fmt_unsupported_def py_isdigit_def)
  show ?thesis unfolding t by (rule exI) (rule py_format_segs [OF ok])
qed

definition template_merge_segs :: "seg list" where
  "template_merge_segs =
    [Text (''You are presented with a problem and key information extracted from multiple sections of an article. Please consolidate all the information into a single comprehensive memory. Remove redundancies and organize the information clearly, retaining all details relevant to answering the problem.'' @ [newline, newline] @ ''<problem>'' @ [newline]),
     Field ''prompt'',
     Text ([newline] @ ''</problem>'' @ [newline, newline] @ ''<extracted_information>'' @ [newline]),
     Field ''memories'',
     Text ([newline] @ ''</extracted_information>'' @ [newline, newline] @ ''Consolidated memory:'' @ [newline])]"

lemma template_merge_format: "\<exists>s. py_format [''prompt'' \<mapsto> pr0, ''memories'' \<mapsto> me1] TEMPLATE_MERGE = Inr s"
proof -
  have t: "TEMPLATE_MERGE = concat (map seg_string template_merge_segs)"
    by (simp add: TEMPLATE_MERGE_def template_merge_segs_def)
  have ok: "list_all (seg_ok [''prompt'' \<mapsto> pr0, ''memories'' \<mapsto> me1]) template_merge_segs"
    by (simp add: template_merge_segs_def no_brace_def open_brace_def close_brace_def fmt_name_def fmt_unsupported_def py_isdigit_def)
  show ?thesis unfolding t by (rule exI) (rule py_format_segs [OF ok])
qed

definition template_final_boxed_segs :: "seg list" where
  "template_final_boxed_segs =
    [Text (''You are presented with a problem and a previous memory. Please answer the problem based on the previous memory and put the answer in '' @ [CHR 0x5C] @ ''boxed''),
     Brace True,
     Brace False,
     Text (''.'' @ [newline, newline] @ ''<problem>'' @ [newline]),
     Field ''prompt'',
     Text ([newline] @ ''</problem>'' @ [newline, newline] @ ''<memory>'' @ [newline]),
     Field ''memory'',
     Text ([newline] @ ''</memory>'' @ [newline, newline] @ ''Your answer:'' @ [newline])]"

lemma template_final_boxed_format: "\<exists>s. py_format [''prompt'' \<mapsto> pr0, ''memory'' \<mapsto> me1] TEMPLATE_FINAL_BOXED = Inr s"
proof -
  have t: "TEMPLATE_FINAL_BOXED = concat (map seg_string template_final_boxed_segs)"
    by (simp add: TEMPLATE_FINAL_BOXED_def template_final_boxed_segs_def)
  have ok: "list_all (seg_ok [''prompt'' \<mapsto> pr0, ''memory'' \<mapsto> me1]) template_final_boxed_segs"
    by (simp add: template_final_boxed_segs_def no_brace_def open_brace_def close_brace_def fmt_name_def fmt_unsupported_def py_isdigit_def)
  show ?thesis unfolding t by (rule exI) (rule py_format_segs [OF ok])
qed

lemma nat_int_list: "0 \<le> k \<Longrightarrow> \<exists>m. k = int m"
  by (metis nat_0_le)

lemma ceil_div_bounds:
  assumes "ceil_div a b = Inr n"
  shows "0 < b \<and> n = \<lceil>rat_of_int a / rat_of_int (int b)\<rceil> \<and> a \<le> n * int b \<and> n * int b < a + int b"
proof -
  have b: "0 < b" and n: "n = - ((- a) div int b)" using assms by (auto simp: ceil_div_def split: if_splits)
  have "n = \<lceil>rat_of_int a / rat_of_int (int b)\<rceil>" unfolding n by (simp only: ceiling_divide_eq_div)
  moreover have "(- a) div int b * int b + (- a) mod int b = - a" by simp
  moreover have "0 \<le> (- a) mod int b" "(- a) mod int b < int b" using b by simp_all
  moreover have "n * int b = - ((- a) div int b * int b)" by (simp add: n)
  ultimately show ?thesis using b by linarith
qed

lemma ceil_div_mono:
  assumes "ceil_div a b = Inr n" "a \<le> m * int b"
  shows "n \<le> m"
proof -
  have b1: "0 < int b" using ceil_div_bounds [OF assms(1)] by simp
  have b2: "n * int b < a + int b" using ceil_div_bounds [OF assms(1)] by blast
  have "(m + 1) * int b = m * int b + int b" by (simp add: algebra_simps)
  then have "n * int b < (m + 1) * int b" using assms(2) b2 by linarith
  then show ?thesis using b1 by (simp add: mult_less_cancel_right)
qed

lemma middle_row:
  assumes "0 < ml" "ml < int (length xs)"
  shows "truncate_row ''middle'' ml xs =
    Inr (take (nat ml div 2) xs @ drop (length xs - (nat ml - nat ml div 2)) xs)"
proof -
  define m where "m = nat ml"
  have m: "ml = int m" using assms(1) by (simp add: m_def)
  have half: "ml div 2 = int (m div 2)" by (simp add: m)
  have r: "ml - ml div 2 = int (m - m div 2)" by (simp add: m half of_nat_diff)
  have pos: "0 < m - m div 2" using assms(1) m by auto
  have "py_slice None (Some (ml div 2)) xs = take (m div 2) xs" by (simp only: half py_slice_prefix)
  moreover have "py_slice (Some (- (ml - ml div 2))) None xs = drop (length xs - (m - m div 2)) xs"
    by (simp only: r py_slice_last [OF pos])
  ultimately show ?thesis by (simp add: truncate_row_def m_def Let_def)
qed

lemma length_middle: "m < length xs \<Longrightarrow> length (take (m div 2) xs @ drop (length xs - (m - m div 2)) xs) = m"
  by simp

text \<open>The row of a context under a positive budget, and the places its mask counts.\<close>

definition fitted_ids :: "tokenizer \<Rightarrow> nat \<Rightarrow> int list \<Rightarrow> int list" where
  "fitted_ids tok n ids =
     (if length ids \<le> n then ids @ replicate (n - length ids) (tok_pad tok)
      else take (n div 2) ids @ drop (length ids - (n - n div 2)) ids)"

lemma length_fitted_ids [simp]: "length (fitted_ids tok n ids) = n"
  by (auto simp: fitted_ids_def)

lemma postprocess_middle:
  assumes "0 < n"
  shows "\<exists>mask. postprocess_data ids (replicate (length ids) 1) (int n) (tok_pad tok) False ''middle'' =
    Inr (fitted_ids tok n ids, mask) \<and> sum_list mask = int (min (length ids) n)"
proof (cases "length ids" n rule: linorder_cases)
  case less
  then show ?thesis
    by (simp add: postprocess_data_def Let_def pad_sequence_to_length_def fitted_ids_def sum_list_replicate nat_diff_distrib)
next
  case equal
  then show ?thesis by (simp add: postprocess_data_def fitted_ids_def sum_list_replicate)
next
  case greater
  let ?cut = "\<lambda>xs. take (n div 2) xs @ drop (length xs - (n - n div 2)) xs"
  have "truncate_row ''middle'' (int n) ids = Inr (?cut ids)"
    "truncate_row ''middle'' (int n) (replicate (length ids) (1 :: int)) = Inr (?cut (replicate (length ids) 1))"
    using middle_row [of "int n" ids] middle_row [of "int n" "replicate (length ids) (1 :: int)"] greater assms by simp_all
  moreover have "sum_list (?cut (replicate (length ids) (1 :: int))) = int n"
  proof -
    have "n div 2 \<le> length ids" "length ids - (length ids - (n - n div 2)) = n - n div 2" using greater by linarith+
    then show ?thesis by (simp add: sum_list_replicate min_def of_nat_diff)
  qed
  ultimately show ?thesis using greater by (simp add: postprocess_data_def fitted_ids_def)
qed

lemma memory_getitem_row:
  assumes "0 < n" "di_chat item = content # rest" "ids = tok_encode tok (py_strip (di_context item))"
  shows "memory_getitem tok (int n) ''middle'' item =
    Inr \<lparr>mr_context_ids = fitted_ids tok n ids, mr_context_length = int (min (length ids) n),
         mr_prompt = py_strip content, mr_index = (case di_index item of None \<Rightarrow> 0 | Some i \<Rightarrow> i)\<rparr>"
proof -
  obtain mask where "postprocess_data ids (replicate (length ids) 1) (int n) (tok_pad tok) False ''middle'' =
      Inr (fitted_ids tok n ids, mask)" "sum_list mask = int (min (length ids) n)"
    using postprocess_middle [OF assms(1)] by blast
  then show ?thesis by (simp add: memory_getitem_def py_get_def assms(2) assms(3) [symmetric])
qed

section \<open>Correctness\<close>

text \<open>C9. The two datasets' budgets fit the agents: with a positive chunk size and at least one chunk
  allowed, every item with a message has exactly \<open>max_chunks\<close> times \<open>chunk_size\<close> token places, the
  configured prompt length is rounded up by less than a chunk, and the context fills no more than
  \<open>max_chunks\<close> chunks. A context that fits is kept whole and padded on the right; a longer one loses
  its middle.\<close>

theorem dataset_item_fits:
  assumes "memory_budgets truncation cs mc mpl = Inr (n, pl)" "0 < cs" "0 < n" "di_chat item \<noteq> []"
  shows "\<exists>row ids k. memory_getitem tok pl truncation item = Inr row \<and> ids = tok_encode tok (py_strip (di_context item)) \<and>
    pl = n * int cs \<and> (\<forall>l. mpl = Some l \<longrightarrow> l \<le> pl \<and> pl < l + int cs) \<and>
    int (length (mr_context_ids row)) = pl \<and> mr_context_length row = min (int (length ids)) pl \<and>
    ceil_div (mr_context_length row) cs = Inr k \<and> k \<le> n \<and>
    (if int (length ids) \<le> pl
     then mr_context_ids row = ids @ replicate (nat pl - length ids) (tok_pad tok)
     else mr_context_ids row = take (nat pl div 2) ids @ drop (length ids - (nat pl - nat pl div 2)) ids)"
proof -
  have mid: "truncation = ''middle''" and pl: "pl = n * int cs"
    and mpl: "\<forall>l. mpl = Some l \<longrightarrow> ceil_div l cs = Inr n"
    using assms(1) by (auto simp: memory_budgets_def bind_res_eq_Inr split: if_splits option.splits)
  have budget: "\<forall>l. mpl = Some l \<longrightarrow> l \<le> pl \<and> pl < l + int cs" using mpl ceil_div_bounds pl by blast
  have "0 < pl" using pl assms(2,3) by simp
  then obtain m where m: "pl = int m" "0 < m" by (metis zero_less_imp_eq_int)
  obtain content rest where chat: "di_chat item = content # rest" using assms(4) by (cases "di_chat item") auto
  define ids where "ids = tok_encode tok (py_strip (di_context item))"
  define row where "row = \<lparr>mr_context_ids = fitted_ids tok m ids, mr_context_length = int (min (length ids) m),
    mr_prompt = py_strip content, mr_index = (case di_index item of None \<Rightarrow> 0 | Some i \<Rightarrow> i)\<rparr>"
  have item: "memory_getitem tok pl truncation item = Inr row"
    using memory_getitem_row [OF m(2) chat refl] by (simp add: mid m(1) row_def ids_def)
  obtain k where k: "ceil_div (mr_context_length row) cs = Inr k" using assms(2) by (simp add: ceil_div_def)
  then have "k \<le> n" using ceil_div_mono [OF k, of n] pl m(1) by (simp add: row_def)
  moreover have "n * int cs = int m" using pl m(1) by simp
  ultimately show ?thesis using item k budget
    by (intro exI [of _ row] exI [of _ ids] exI [of _ k]) (simp add: m(1) row_def ids_def fitted_ids_def)
qed

theorem dataset_item_fits_witness:
  "\<exists>row ids k. memory_getitem char_tokenizer 6 ''middle'' \<lparr>di_chat = [''q''], di_context = '' abcdefgh '', di_index = None\<rparr> = Inr row \<and>
    ids = tok_encode char_tokenizer (py_strip (di_context \<lparr>di_chat = [''q''], di_context = '' abcdefgh '', di_index = None\<rparr>)) \<and>
    6 = (2 :: int) * int 3 \<and> (\<forall>l. Some 5 = Some l \<longrightarrow> l \<le> 6 \<and> 6 < l + int 3) \<and>
    int (length (mr_context_ids row)) = 6 \<and> mr_context_length row = min (int (length ids)) 6 \<and>
    ceil_div (mr_context_length row) 3 = Inr k \<and> k \<le> 2 \<and>
    (if int (length ids) \<le> 6
     then mr_context_ids row = ids @ replicate (nat 6 - length ids) (tok_pad char_tokenizer)
     else mr_context_ids row = take (nat 6 div 2) ids @ drop (length ids - (nat 6 - nat 6 div 2)) ids)"
  by (rule dataset_item_fits [where mc = "Some 9"]) (simp_all add: memory_budgets_def ceil_div_def)

lemma py_in_join: "x \<in> set parts \<Longrightarrow> py_in x (py_join sep parts)"
proof (induction parts)
  case (Cons a parts)
  show ?case
  proof (cases "parts = []")
    case True
    then show ?thesis using Cons.prems by simp
  next
    case False
    then have join: "py_join sep (a # parts) = a @ sep @ py_join sep parts" by (rule py_join_Cons)
    show ?thesis
    proof (cases "x = a")
      case True
      have "py_in a ([] @ a @ (sep @ py_join sep parts))" by (rule py_in_append) simp
      then show ?thesis using True join by simp
    next
      case False
      then have "py_in x (py_join sep parts)" using Cons by simp
      then have "py_in x ((a @ sep) @ py_join sep parts @ [])" by (rule py_in_append)
      then show ?thesis using join by simp
    qed
  qed
qed simp

lemma merge_parts_contain: "Some m \<in> set ms \<Longrightarrow> py_strip m \<noteq> [] \<Longrightarrow> \<exists>j. section_label j @ [newline] @ py_strip m \<in> set (merge_parts i ms)"
proof (induction ms arbitrary: i)
  case (Cons a ms)
  show ?case
  proof (cases "a = Some m")
    case True
    then show ?thesis using Cons.prems(2) by auto
  next
    case False
    then have "Some m \<in> set ms" using Cons.prems(1) by simp
    then obtain j where "section_label j @ [newline] @ py_strip m \<in> set (merge_parts (i + 1) ms)"
      using Cons.IH Cons.prems(2) by blast
    then have "section_label j @ [newline] @ py_strip m \<in> set (merge_parts i (a # ms))"
      by (cases a) simp_all
    then show ?thesis by blast
  qed
qed simp

lemma py_in_part: "py_in (label @ [c] @ x) s \<Longrightarrow> py_in x s"
proof -
  assume "py_in (label @ [c] @ x) s"
  then obtain a b where "s = a @ (label @ [c] @ x) @ b" by (auto simp: py_in_iff)
  then have "s = (a @ label @ [c]) @ x @ b" by simp
  then show ?thesis by (metis py_in_iff)
qed

lemma build_merge_part: "x \<in> set (previous_part p @ merge_parts 1 ms) \<Longrightarrow> py_in x (build_merge_memories p ms)"
proof -
  assume x: "x \<in> set (previous_part p @ merge_parts 1 ms)"
  then have "previous_part p @ merge_parts 1 ms \<noteq> []" by auto
  then have "build_merge_memories p ms = py_join [newline, newline] (previous_part p @ merge_parts 1 ms)"
    by (simp add: build_merge_memories_def)
  then show ?thesis using py_in_join [OF x] by simp
qed

text \<open>C10. Merging loses no memory: every new memory that is not blank, and the previous memory unless
  it is blank or the marker of no memory, is part of the merge text, without its surrounding white
  space.\<close>

theorem merge_keeps_memories:
  "(\<forall>m. Some m \<in> set new_memories \<longrightarrow> py_strip m \<noteq> [] \<longrightarrow> py_in (py_strip m) (build_merge_memories previous new_memories)) \<and>
   (\<forall>p. previous = Some p \<longrightarrow> py_strip p \<noteq> [] \<longrightarrow> py_strip p \<noteq> NO_MEMORY \<longrightarrow>
      py_in (py_strip p) (build_merge_memories previous new_memories))"
proof (intro conjI allI impI)
  fix m assume m: "Some m \<in> set new_memories" "py_strip m \<noteq> []"
  obtain j where "section_label j @ [newline] @ py_strip m \<in> set (merge_parts 1 new_memories)"
    using merge_parts_contain [OF m] by blast
  then have "py_in (section_label j @ [newline] @ py_strip m) (build_merge_memories previous new_memories)"
    by (intro build_merge_part) simp
  then show "py_in (py_strip m) (build_merge_memories previous new_memories)"
    by (rule py_in_part)
next
  fix p assume p: "previous = Some p" "py_strip p \<noteq> []" "py_strip p \<noteq> NO_MEMORY"
  then have "p \<noteq> []" by (auto simp: py_strip_def py_lstrip_def py_rstrip_def)
  then have "PREVIOUS_MEMORY_LABEL @ [newline] @ py_strip p \<in> set (previous_part previous)"
    using p by (simp add: previous_part_def)
  then have "py_in (PREVIOUS_MEMORY_LABEL @ [newline] @ py_strip p) (build_merge_memories previous new_memories)"
    by (intro build_merge_part) simp
  then show "py_in (py_strip p) (build_merge_memories previous new_memories)"
    by (rule py_in_part)
qed

theorem merge_keeps_memories_witness:
  "py_in ''x=1'' (build_merge_memories (Some '' y=2 '') [None, Some ''x=1''])"
proof -
  have "py_strip ''x=1'' = ''x=1''" by code_simp
  then show ?thesis
    using merge_keeps_memories [of "[None, Some ''x=1'']" "Some '' y=2 ''"] by auto
qed

end
