(* ===== verification/MemoryAgent.thy ===== *)
theory MemoryAgent
  imports MemoryConfig DataProtoRows
begin

text \<open>
  The batched memory agent of \<open>recurrent/impls/memory.py\<close>: a state machine over the phases chunk,
  merge and final. The state of the Python object is a record; \<open>action\<close> and \<open>update\<close> return the changed
  record with their result. The messages are token sequences, the memories the tokens the model
  returned, as in the source. Logging is left out.
\<close>

section \<open>Agent and batch\<close>

record memory_agent =
  ag_config :: memory_config
  ag_tok :: tokenizer
  ag_chat :: string
  ag_max_chunk_input :: int
  ag_max_merge_input :: int
  ag_max_final_input :: int
  ag_max_input :: int

record memory_batch =
  mb_ids :: "int list list"
  mb_len :: "nat list"
  mb_prompt :: "string list"

abbreviation mb_size :: "memory_batch \<Rightarrow> nat" where
  "mb_size b \<equiv> length (mb_len b)"

definition encode_user_message :: "tokenizer \<Rightarrow> string \<Rightarrow> string \<Rightarrow> int list res" where
  "encode_user_message tok chat content =
     bind_res (py_format [''message'' \<mapsto> content] chat) (\<lambda>s. Inr (tok_encode tok s))"

text \<open>The constructor: the input budgets of the three phases. \<open>max()\<close> of no labels is a \<open>ValueError\<close>.\<close>

definition memory_agent_init :: "tokenizer \<Rightarrow> memory_config \<Rightarrow> memory_agent res" where
  "memory_agent_init tok cfg =
     (let chat = chat_template tok False;
          enc = (\<lambda>env t. bind_res (py_format env t) (encode_user_message tok chat))
      in bind_res (enc [''prompt'' \<mapsto> [], ''memory'' \<mapsto> [], ''chunk'' \<mapsto> []] TEMPLATE_CHUNK) (\<lambda>c.
         bind_res (enc [''prompt'' \<mapsto> [], ''memories'' \<mapsto> []] TEMPLATE_MERGE) (\<lambda>m.
         bind_res (enc [''prompt'' \<mapsto> [], ''memory'' \<mapsto> []] TEMPLATE_FINAL_BOXED) (\<lambda>f.
         if max_chunks cfg \<le> 0 then Inl ValueError
         else let label_len = Max (set (map (\<lambda>i. length (tok_encode tok ([newline, newline] @ section_label (i + 1) @ [newline])))
                                           [0..<nat (max_chunks cfg)]));
                  previous_label_len = length (tok_encode tok (PREVIOUS_MEMORY_LABEL @ [newline]));
                  chunk_input = max_raw_input_length cfg + int (length c);
                  merge_input = max_raw_merge_input_length cfg + max_chunks cfg * int label_len
                                + int previous_label_len + int (length m);
                  final_input = max_prompt_length cfg + max_merge_length cfg + int (length f)
              in Inr \<lparr>ag_config = cfg, ag_tok = tok, ag_chat = chat, ag_max_chunk_input = chunk_input,
                      ag_max_merge_input = merge_input, ag_max_final_input = final_input,
                      ag_max_input = max (max chunk_input merge_input) final_input\<rparr>))))"

section \<open>State\<close>

datatype phase = Chunk | Merge | Final

record memory_state =
  ms_phase :: phase
  ms_step :: nat
  ms_pass_num :: nat
  ms_chunk_step :: nat
  ms_global_memory :: "int list option list"
  ms_chunk_memories :: "int list option list list"
  ms_is_done :: bool
  ms_converged :: "bool list"
  ms_sample_pass_used :: "int list"
  ms_active_mask :: "bool list"
  ms_merge_mask :: "bool list"
  ms_final_mask_list :: "bool list list"
  ms_sample_index_list :: "nat list list"

definition memory_start :: "memory_batch \<Rightarrow> memory_state" where
  "memory_start b =
     \<lparr>ms_phase = Chunk, ms_step = 0, ms_pass_num = 0, ms_chunk_step = 0,
      ms_global_memory = replicate (mb_size b) None, ms_chunk_memories = [], ms_is_done = False,
      ms_converged = replicate (mb_size b) False, ms_sample_pass_used = replicate (mb_size b) (- 1),
      ms_active_mask = [], ms_merge_mask = [], ms_final_mask_list = [], ms_sample_index_list = []\<rparr>"

text \<open>The padding targets and the generation limit \<open>action\<close> returns with its messages.\<close>

record action_meta =
  am_input_pad_to :: int
  am_pad_to :: int
  am_max_tokens :: int

section \<open>Helpers\<close>

definition decode_text :: "tokenizer \<Rightarrow> int list option \<Rightarrow> string" where
  "decode_text tok value = (case value of None \<Rightarrow> NO_MEMORY | Some ids \<Rightarrow> py_strip (tok_decode tok True ids))"

definition is_no_new_info :: "memory_agent \<Rightarrow> int list \<Rightarrow> bool" where
  "is_no_new_info a response =
     py_in (py_lower (no_new_info_marker (ag_config a))) (py_lower (tok_decode (ag_tok a) True response))"

definition check_pass_convergence :: "memory_batch \<Rightarrow> memory_state \<Rightarrow> memory_state" where
  "check_pass_convergence b st =
     (let fresh = (\<lambda>i. \<not> ms_converged st ! i \<and> \<not> (\<exists>cm\<in>set (ms_chunk_memories st). cm ! i \<noteq> None))
      in st\<lparr>ms_converged := map (\<lambda>i. ms_converged st ! i \<or> fresh i) [0..<mb_size b],
            ms_sample_pass_used :=
              map (\<lambda>i. if fresh i \<and> ms_sample_pass_used st ! i < 0 then int (ms_pass_num st) + 1
                       else ms_sample_pass_used st ! i) [0..<mb_size b]\<rparr>)"

definition finalize_sample_pass_used :: "nat \<Rightarrow> memory_state \<Rightarrow> memory_state" where
  "finalize_sample_pass_used final_pass st =
     st\<lparr>ms_sample_pass_used := map (\<lambda>p. if p < 0 then int (max final_pass 1) else p) (ms_sample_pass_used st)\<rparr>"

definition chunk_active :: "memory_agent \<Rightarrow> memory_batch \<Rightarrow> memory_state \<Rightarrow> bool list" where
  "chunk_active a b st =
     map2 (\<lambda>l c. ms_chunk_step st * chunk_size (ag_config a) < l \<and> \<not> c) (mb_len b) (ms_converged st)"

text \<open>What every action appends to the lists it keeps for the trainer.\<close>

definition record_turn :: "nat list \<Rightarrow> bool \<Rightarrow> memory_state \<Rightarrow> memory_state" where
  "record_turn sample_index final st =
     st\<lparr>ms_final_mask_list := ms_final_mask_list st @ [replicate (length sample_index) final],
        ms_sample_index_list := ms_sample_index_list st @ [sample_index]\<rparr>"

section \<open>Actions\<close>

definition chunk_slice :: "nat \<Rightarrow> nat \<Rightarrow> 'a list \<Rightarrow> 'a list" where
  "chunk_slice n step ids = py_slice (Some (int (n * step))) (Some (int (n * (step + 1)))) ids"

definition chunk_message :: "memory_agent \<Rightarrow> memory_batch \<Rightarrow> memory_state \<Rightarrow> nat \<Rightarrow> int list res" where
  "chunk_message a b st i =
     (let chunk = chunk_slice (chunk_size (ag_config a)) (ms_chunk_step st) (mb_ids b ! i)
      in bind_res
           (py_format [''prompt'' \<mapsto> mb_prompt b ! i,
                       ''memory'' \<mapsto> decode_text (ag_tok a) (ms_global_memory st ! i),
                       ''chunk'' \<mapsto> tok_decode (ag_tok a) False (filter (\<lambda>x. x \<noteq> tok_pad (ag_tok a)) chunk)] TEMPLATE_CHUNK)
           (encode_user_message (ag_tok a) (ag_chat a)))"

definition merge_message :: "memory_agent \<Rightarrow> memory_batch \<Rightarrow> memory_state \<Rightarrow> nat \<Rightarrow> int list res" where
  "merge_message a b st i =
     (let new_memories = map (\<lambda>cm. Some (decode_text (ag_tok a) (cm ! i))) (filter (\<lambda>cm. cm ! i \<noteq> None) (ms_chunk_memories st));
          previous = (case ms_global_memory st ! i of None \<Rightarrow> None | Some m \<Rightarrow> Some (decode_text (ag_tok a) (Some m)))
      in bind_res
           (py_format [''prompt'' \<mapsto> mb_prompt b ! i, ''memories'' \<mapsto> build_merge_memories previous new_memories] TEMPLATE_MERGE)
           (encode_user_message (ag_tok a) (ag_chat a)))"

definition final_message :: "memory_agent \<Rightarrow> memory_batch \<Rightarrow> memory_state \<Rightarrow> nat \<Rightarrow> int list res" where
  "final_message a b st i =
     bind_res
       (py_format [''prompt'' \<mapsto> mb_prompt b ! i, ''memory'' \<mapsto> decode_text (ag_tok a) (ms_global_memory st ! i)] TEMPLATE_FINAL_BOXED)
       (encode_user_message (ag_tok a) (ag_chat a))"

type_synonym action_result = "(memory_state \<times> int list list \<times> action_meta) res"

definition agent_meta :: "memory_agent \<Rightarrow> int \<Rightarrow> action_meta" where
  "agent_meta a max_tokens =
     \<lparr>am_input_pad_to = ag_max_input a, am_pad_to = gen_pad_to (ag_config a), am_max_tokens = max_tokens\<rparr>"

definition final_action :: "memory_agent \<Rightarrow> memory_batch \<Rightarrow> memory_state \<Rightarrow> action_result" where
  "final_action a b st =
     bind_res (map_res (final_message a b st) [0..<mb_size b])
       (\<lambda>messages. Inr (record_turn [0..<mb_size b] True st, messages, agent_meta a (max_final_response_length (ag_config a))))"

definition merge_action :: "memory_agent \<Rightarrow> memory_batch \<Rightarrow> memory_state \<Rightarrow> action_result" where
  "merge_action a b st =
     (let st' = st\<lparr>ms_merge_mask := map Not (ms_converged st)\<rparr>;
          sample_index = mask_places (ms_merge_mask st')
      in bind_res (map_res (merge_message a b st') sample_index)
           (\<lambda>messages. Inr (record_turn sample_index False st', messages, agent_meta a (max_merge_length (ag_config a)))))"

definition chunk_action :: "memory_agent \<Rightarrow> memory_batch \<Rightarrow> memory_state \<Rightarrow> action_result" where
  "chunk_action a b st =
     (let active = chunk_active a b st; st0 = st\<lparr>ms_active_mask := active\<rparr>
      in if True \<notin> set active
         then let st1 = check_pass_convergence b st0
              in if list_all (\<lambda>c. c) (ms_converged st1)
                 then let st2 = st1\<lparr>ms_pass_num := ms_pass_num st1 + 1\<rparr>
                      in final_action a b ((finalize_sample_pass_used (ms_pass_num st2) st2)\<lparr>ms_phase := Final\<rparr>)
                 else merge_action a b (st1\<lparr>ms_phase := Merge\<rparr>)
         else let sample_index = mask_places active
              in bind_res (map_res (chunk_message a b st0) sample_index)
                   (\<lambda>messages. Inr (record_turn sample_index False st0, messages,
                                    agent_meta a (max_memorization_length (ag_config a)))))"

definition memory_action :: "memory_agent \<Rightarrow> memory_batch \<Rightarrow> memory_state \<Rightarrow> action_result" where
  "memory_action a b st =
     (case ms_phase st of
        Chunk \<Rightarrow> chunk_action a b st
      | Merge \<Rightarrow> merge_action a b st
      | Final \<Rightarrow> final_action a b st)"

section \<open>Updates\<close>

text \<open>The loop over the active samples, which reads one response for each.\<close>

fun store_responses :: "memory_agent \<Rightarrow> int list option list \<Rightarrow> nat list \<Rightarrow> int list list \<Rightarrow> int list option list res" where
  "store_responses a mem [] rs = Inr mem"
| "store_responses a mem (i # is) [] = Inl IndexError"
| "store_responses a mem (i # is) (r # rs) =
     store_responses a (mem[i := (if is_no_new_info a r then None else Some r)]) is rs"

text \<open>
  NumPy's assignment to the places of a mask: as many values as places, or one value for all of
  them.
\<close>

fun mask_assign :: "bool list \<Rightarrow> 'a list \<Rightarrow> 'a list \<Rightarrow> 'a list" where
  "mask_assign (True # ks) (x # xs) (v # vs) = v # mask_assign ks xs vs"
| "mask_assign (False # ks) (x # xs) vs = x # mask_assign ks xs vs"
| "mask_assign ks xs vs = xs"

definition numpy_mask_assign :: "bool list \<Rightarrow> 'a list \<Rightarrow> 'a list \<Rightarrow> 'a list res" where
  "numpy_mask_assign ks xs vs =
     (let n = length (filter (\<lambda>k. k) ks)
      in if length vs = n then Inr (mask_assign ks xs vs)
         else if length vs = 1 then Inr (mask_assign ks xs (replicate n (hd vs)))
         else Inl ValueError)"

definition chunk_update :: "memory_agent \<Rightarrow> memory_batch \<Rightarrow> int list list \<Rightarrow> memory_state \<Rightarrow> memory_state res" where
  "chunk_update a b responses st =
     bind_res (store_responses a (replicate (mb_size b) None) (mask_places (ms_active_mask st)) (unpad (ag_tok a) responses True))
       (\<lambda>chunk_mem.
          let st1 = st\<lparr>ms_chunk_memories := ms_chunk_memories st @ [chunk_mem], ms_chunk_step := ms_chunk_step st + 1\<rparr>
          in if True \<notin> set (chunk_active a b st1)
             then let st2 = check_pass_convergence b st1
                  in if list_all (\<lambda>c. c) (ms_converged st2)
                     then let st3 = st2\<lparr>ms_pass_num := ms_pass_num st2 + 1\<rparr>
                          in Inr ((finalize_sample_pass_used (ms_pass_num st3) st3)\<lparr>ms_phase := Final\<rparr>)
                     else Inr (st2\<lparr>ms_phase := Merge\<rparr>)
             else Inr st1)"

definition merge_update :: "memory_agent \<Rightarrow> memory_batch \<Rightarrow> int list list \<Rightarrow> memory_state \<Rightarrow> memory_state res" where
  "merge_update a b responses st =
     bind_res (numpy_mask_assign (ms_merge_mask st) (ms_global_memory st) (map Some (unpad (ag_tok a) responses True)))
       (\<lambda>memory.
          let st1 = st\<lparr>ms_global_memory := memory, ms_pass_num := ms_pass_num st + 1\<rparr>
          in if max_passes (ag_config a) \<le> int (ms_pass_num st1) \<or> list_all (\<lambda>c. c) (ms_converged st1)
             then Inr ((finalize_sample_pass_used (ms_pass_num st1) st1)\<lparr>ms_phase := Final\<rparr>)
             else Inr (st1\<lparr>ms_chunk_step := 0, ms_chunk_memories := [], ms_phase := Chunk\<rparr>))"

text \<open>\<open>update\<close> returns the state and the column \<open>pass_used\<close> it adds to the generated turn.\<close>

definition memory_update :: "memory_agent \<Rightarrow> memory_batch \<Rightarrow> int list list \<Rightarrow> memory_state \<Rightarrow> (memory_state \<times> int list) res" where
  "memory_update a b responses st =
     (case ms_phase st of
        Final \<Rightarrow>
          (let st1 = finalize_sample_pass_used (ms_pass_num st) st
           in Inr (st1\<lparr>ms_is_done := True, ms_step := ms_step st1 + 1\<rparr>, ms_sample_pass_used st1))
      | Chunk \<Rightarrow>
          bind_res (chunk_update a b responses st)
            (\<lambda>st1. Inr (st1\<lparr>ms_step := ms_step st1 + 1\<rparr>, replicate (length responses) (int (ms_pass_num st) + 1)))
      | Merge \<Rightarrow>
          bind_res (merge_update a b responses st)
            (\<lambda>st1. Inr (st1\<lparr>ms_step := ms_step st1 + 1\<rparr>, replicate (length responses) (int (ms_pass_num st) + 1))))"

definition memory_done :: "memory_state \<Rightarrow> bool" where
  "memory_done st = ms_is_done st"

text \<open>\<open>end\<close>; before the first action there is no \<open>meta_info\<close> to delete.\<close>

definition memory_end :: "memory_state \<Rightarrow> (bool list \<times> nat list) res" where
  "memory_end st =
     (if ms_sample_index_list st = [] then Inl AttributeError
      else Inr (concat (ms_final_mask_list st), concat (ms_sample_index_list st)))"


section \<open>Messages\<close>

text \<open>A chat template that takes any message, and a batch with a prompt and tokens for every sample.\<close>

definition chat_ok :: "memory_agent \<Rightarrow> bool" where
  "chat_ok a \<longleftrightarrow> (\<forall>content. \<exists>s. py_format [''message'' \<mapsto> content] (ag_chat a) = Inr s)"

definition batch_ok :: "memory_agent \<Rightarrow> memory_batch \<Rightarrow> bool" where
  "batch_ok a b \<longleftrightarrow> 0 < chunk_size (ag_config a) \<and> 0 < mb_size b \<and>
     length (mb_ids b) = mb_size b \<and> length (mb_prompt b) = mb_size b"

lemma encode_total: "chat_ok a \<Longrightarrow> \<exists>m. encode_user_message (ag_tok a) (ag_chat a) content = Inr m"
  unfolding chat_ok_def encode_user_message_def by (metis bind_res_Inr)

lemma chunk_message_total: "chat_ok a \<Longrightarrow> \<exists>m. chunk_message a b st i = Inr m"
  using template_chunk_format encode_total unfolding chunk_message_def Let_def by (metis bind_res_Inr)

lemma merge_message_total: "chat_ok a \<Longrightarrow> \<exists>m. merge_message a b st i = Inr m"
  using template_merge_format encode_total unfolding merge_message_def Let_def by (metis bind_res_Inr)

lemma final_message_total: "chat_ok a \<Longrightarrow> \<exists>m. final_message a b st i = Inr m"
  using template_final_boxed_format encode_total unfolding final_message_def by (metis bind_res_Inr)

lemma map_res_total: "(\<And>x. \<exists>y. f x = Inr y) \<Longrightarrow> \<exists>ys. map_res f xs = Inr ys \<and> length ys = length xs"
  by (induction xs) (auto, metis bind_res_Inr length_Cons)

section \<open>Invariant\<close>

definition pass_bound :: "memory_agent \<Rightarrow> nat" where
  "pass_bound a = nat (max (max_passes (ag_config a)) 1)"

text \<open>The number of chunk steps of the longest context.\<close>

definition chunk_bound :: "memory_agent \<Rightarrow> memory_batch \<Rightarrow> nat" where
  "chunk_bound a b = Max (insert 0 (set (map (\<lambda>l. (l + chunk_size (ag_config a) - 1) div chunk_size (ag_config a)) (mb_len b))))"

definition agent_inv :: "memory_agent \<Rightarrow> memory_batch \<Rightarrow> memory_state \<Rightarrow> bool" where
  "agent_inv a b st \<longleftrightarrow>
     length (ms_global_memory st) = mb_size b \<and> length (ms_converged st) = mb_size b \<and>
     length (ms_sample_pass_used st) = mb_size b \<and> (\<forall>cm\<in>set (ms_chunk_memories st). length cm = mb_size b) \<and>
     list_all2 (\<lambda>m is. length m = length is) (ms_final_mask_list st) (ms_sample_index_list st) \<and>
     (\<forall>is\<in>set (ms_sample_index_list st). \<forall>i\<in>set is. i < mb_size b) \<and>
     mask_select (concat (ms_final_mask_list st)) (concat (ms_sample_index_list st)) =
       (if ms_is_done st then [0..<mb_size b] else []) \<and>
     (ms_is_done st \<longrightarrow> ms_phase st = Final \<and> ms_sample_index_list st \<noteq> []) \<and>
     (\<forall>p\<in>set (ms_sample_pass_used st). p = - 1 \<or> 1 \<le> p \<and> p \<le> int (pass_bound a)) \<and>
     (case ms_phase st of
        Chunk \<Rightarrow> ms_pass_num st < pass_bound a
      | Merge \<Rightarrow> ms_pass_num st < pass_bound a \<and> False \<in> set (ms_converged st)
      | Final \<Rightarrow> 1 \<le> ms_pass_num st \<and> ms_pass_num st \<le> pass_bound a \<and> (\<forall>p\<in>set (ms_sample_pass_used st). 1 \<le> p))"

definition agent_rank :: "memory_agent \<Rightarrow> memory_batch \<Rightarrow> memory_state \<Rightarrow> nat" where
  "agent_rank a b st =
     (if ms_is_done st then 0
      else case ms_phase st of
          Final \<Rightarrow> 1
        | Merge \<Rightarrow> (pass_bound a - ms_pass_num st - 1) * (chunk_bound a b + 1) + 2
        | Chunk \<Rightarrow> (pass_bound a - ms_pass_num st - 1) * (chunk_bound a b + 1) + 2 + (chunk_bound a b - ms_chunk_step st))"

lemma start_inv: "agent_inv a b (memory_start b)"
  by (auto simp: agent_inv_def memory_start_def mask_select_def pass_bound_def)

lemma start_rank: "agent_rank a b (memory_start b) = pass_bound a * (chunk_bound a b + 1) + 1"
proof -
  obtain p where "pass_bound a = Suc p" by (metis pass_bound_def gr0_implies_Suc max.cobounded2 nat_le_iff
    not_one_le_zero of_nat_0 zero_less_nat_eq zero_less_one order_less_le_trans)
  then show ?thesis by (simp add: agent_rank_def memory_start_def)
qed

lemma active_less:
  assumes "True \<in> set (chunk_active a b st)" "0 < chunk_size (ag_config a)"
  shows "ms_chunk_step st < chunk_bound a b"
proof -
  let ?n = "chunk_size (ag_config a)"
  obtain l where l: "l \<in> set (mb_len b)" "ms_chunk_step st * ?n < l"
    using assms(1) by (auto simp: chunk_active_def dest: set_zip_leftD)
  have "ms_chunk_step st < (l + ?n - 1) div ?n"
  proof -
    have "Suc (ms_chunk_step st) * ?n \<le> l + ?n - 1" using l(2) assms(2) by simp
    then have "Suc (ms_chunk_step st) \<le> (l + ?n - 1) div ?n" using assms(2) by (simp add: less_eq_div_iff_mult_less_eq)
    then show ?thesis by simp
  qed
  also have "\<dots> \<le> chunk_bound a b" unfolding chunk_bound_def using l(1) by (intro Max_ge) auto
  finally show ?thesis .
qed

lemma places_nonempty: "True \<in> set ks \<Longrightarrow> mask_places ks \<noteq> []"
  by (auto simp: mask_places_def in_set_conv_nth filter_empty_conv)

text \<open>The bookkeeping of a turn keeps the lists aligned.\<close>

lemma select_all: "length xs = n \<Longrightarrow> mask_select (replicate n True) xs = xs"
  by simp

lemma list_all2_concat_length: "list_all2 (\<lambda>m is. length m = length is) ms iss \<Longrightarrow> length (concat ms) = length (concat iss)"
  by (induction ms iss rule: list_all2_induct) auto

lemma record_turn_select:
  assumes "list_all2 (\<lambda>m is. length m = length is) (ms_final_mask_list st) (ms_sample_index_list st)"
  shows "mask_select (concat (ms_final_mask_list (record_turn is f st))) (concat (ms_sample_index_list (record_turn is f st))) =
    mask_select (concat (ms_final_mask_list st)) (concat (ms_sample_index_list st)) @ (if f then is else [])"
  using list_all2_concat_length [OF assms] by (auto simp: record_turn_def mask_select_append)

lemma record_turn_simps [simp]:
  "ms_phase (record_turn is f st) = ms_phase st" "ms_pass_num (record_turn is f st) = ms_pass_num st"
  "ms_chunk_step (record_turn is f st) = ms_chunk_step st" "ms_global_memory (record_turn is f st) = ms_global_memory st"
  "ms_chunk_memories (record_turn is f st) = ms_chunk_memories st" "ms_is_done (record_turn is f st) = ms_is_done st"
  "ms_converged (record_turn is f st) = ms_converged st" "ms_sample_pass_used (record_turn is f st) = ms_sample_pass_used st"
  "ms_active_mask (record_turn is f st) = ms_active_mask st" "ms_merge_mask (record_turn is f st) = ms_merge_mask st"
  "ms_step (record_turn is f st) = ms_step st"
  "ms_final_mask_list (record_turn is f st) = ms_final_mask_list st @ [replicate (length is) f]"
  "ms_sample_index_list (record_turn is f st) = ms_sample_index_list st @ [is]"
  by (simp_all add: record_turn_def)

text \<open>What an action leaves: an invariant state whose last turn is recorded, ready for its update.\<close>

definition ready :: "memory_agent \<Rightarrow> memory_batch \<Rightarrow> memory_state \<Rightarrow> int list list \<Rightarrow> bool" where
  "ready a b st msgs \<longleftrightarrow>
     length (ms_global_memory st) = mb_size b \<and> length (ms_converged st) = mb_size b \<and>
     length (ms_sample_pass_used st) = mb_size b \<and> (\<forall>cm\<in>set (ms_chunk_memories st). length cm = mb_size b) \<and>
     list_all2 (\<lambda>m is. length m = length is) (ms_final_mask_list st) (ms_sample_index_list st) \<and>
     (\<forall>is\<in>set (ms_sample_index_list st). \<forall>i\<in>set is. i < mb_size b) \<and>
     mask_select (concat (ms_final_mask_list st)) (concat (ms_sample_index_list st)) =
       (if ms_phase st = Final then [0..<mb_size b] else []) \<and>
     \<not> ms_is_done st \<and> ms_sample_index_list st \<noteq> [] \<and>
     (\<forall>p\<in>set (ms_sample_pass_used st). p = - 1 \<or> 1 \<le> p \<and> p \<le> int (pass_bound a)) \<and>
     (case ms_phase st of
        Chunk \<Rightarrow> ms_pass_num st < pass_bound a \<and> length msgs = length (mask_places (ms_active_mask st)) \<and>
          length (ms_active_mask st) = mb_size b \<and> ms_chunk_step st < chunk_bound a b
      | Merge \<Rightarrow> ms_pass_num st < pass_bound a \<and> length msgs = length (filter (\<lambda>k. k) (ms_merge_mask st)) \<and>
          length (ms_merge_mask st) = mb_size b
      | Final \<Rightarrow> 1 \<le> ms_pass_num st \<and> ms_pass_num st \<le> pass_bound a \<and> (\<forall>p\<in>set (ms_sample_pass_used st). 1 \<le> p) \<and>
          length msgs = mb_size b)"


lemma convergence_simps [simp]:
  "ms_phase (check_pass_convergence b st) = ms_phase st" "ms_pass_num (check_pass_convergence b st) = ms_pass_num st"
  "ms_chunk_step (check_pass_convergence b st) = ms_chunk_step st"
  "ms_global_memory (check_pass_convergence b st) = ms_global_memory st"
  "ms_chunk_memories (check_pass_convergence b st) = ms_chunk_memories st"
  "ms_is_done (check_pass_convergence b st) = ms_is_done st"
  "ms_active_mask (check_pass_convergence b st) = ms_active_mask st"
  "ms_final_mask_list (check_pass_convergence b st) = ms_final_mask_list st"
  "ms_sample_index_list (check_pass_convergence b st) = ms_sample_index_list st"
  "length (ms_converged (check_pass_convergence b st)) = mb_size b"
  "length (ms_sample_pass_used (check_pass_convergence b st)) = mb_size b"
  by (simp_all add: check_pass_convergence_def Let_def)

lemma finalize_simps [simp]:
  "ms_phase (finalize_sample_pass_used n st) = ms_phase st" "ms_pass_num (finalize_sample_pass_used n st) = ms_pass_num st"
  "ms_chunk_step (finalize_sample_pass_used n st) = ms_chunk_step st"
  "ms_global_memory (finalize_sample_pass_used n st) = ms_global_memory st"
  "ms_chunk_memories (finalize_sample_pass_used n st) = ms_chunk_memories st"
  "ms_is_done (finalize_sample_pass_used n st) = ms_is_done st"
  "ms_active_mask (finalize_sample_pass_used n st) = ms_active_mask st"
  "ms_converged (finalize_sample_pass_used n st) = ms_converged st"
  "ms_final_mask_list (finalize_sample_pass_used n st) = ms_final_mask_list st"
  "ms_sample_index_list (finalize_sample_pass_used n st) = ms_sample_index_list st"
  "length (ms_sample_pass_used (finalize_sample_pass_used n st)) = length (ms_sample_pass_used st)"
  by (simp_all add: finalize_sample_pass_used_def)

definition used_ok :: "memory_agent \<Rightarrow> int list \<Rightarrow> bool" where
  "used_ok a ps \<longleftrightarrow> (\<forall>p\<in>set ps. p = - 1 \<or> 1 \<le> p \<and> p \<le> int (pass_bound a))"

lemma convergence_used:
  assumes "used_ok a (ms_sample_pass_used st)" "length (ms_sample_pass_used st) = mb_size b" "ms_pass_num st < pass_bound a"
  shows "used_ok a (ms_sample_pass_used (check_pass_convergence b st))"
proof -
  have "set (ms_sample_pass_used (check_pass_convergence b st)) \<subseteq> set (ms_sample_pass_used st) \<union> {int (ms_pass_num st) + 1}"
    using assms(2) by (auto simp: check_pass_convergence_def Let_def)
  then show ?thesis using assms(1,3) unfolding used_ok_def by fastforce
qed

lemma finalize_used:
  assumes "used_ok a (ms_sample_pass_used st)" "1 \<le> n" "n \<le> pass_bound a"
  shows "used_ok a (ms_sample_pass_used (finalize_sample_pass_used n st)) \<and>
    (\<forall>p\<in>set (ms_sample_pass_used (finalize_sample_pass_used n st)). 1 \<le> p)"
  using assms by (auto simp: used_ok_def finalize_sample_pass_used_def max_def)

lemma finalize_done: "\<forall>p\<in>set (ms_sample_pass_used st). 1 \<le> p \<Longrightarrow> finalize_sample_pass_used n st = st"
proof -
  assume "\<forall>p\<in>set (ms_sample_pass_used st). 1 \<le> p"
  then have "map (\<lambda>p. if p < 0 then int (max n 1) else p) (ms_sample_pass_used st) = ms_sample_pass_used st"
    by (intro map_idI) force
  then show ?thesis by (simp add: finalize_sample_pass_used_def)
qed

text \<open>The part of the invariant that every phase shares.\<close>

definition core_inv :: "memory_agent \<Rightarrow> memory_batch \<Rightarrow> memory_state \<Rightarrow> bool" where
  "core_inv a b st \<longleftrightarrow>
     length (ms_global_memory st) = mb_size b \<and> length (ms_converged st) = mb_size b \<and>
     length (ms_sample_pass_used st) = mb_size b \<and> (\<forall>cm\<in>set (ms_chunk_memories st). length cm = mb_size b) \<and>
     list_all2 (\<lambda>m is. length m = length is) (ms_final_mask_list st) (ms_sample_index_list st) \<and>
     (\<forall>is\<in>set (ms_sample_index_list st). \<forall>i\<in>set is. i < mb_size b) \<and>
     used_ok a (ms_sample_pass_used st) \<and> \<not> ms_is_done st"

definition selected :: "memory_state \<Rightarrow> nat list" where
  "selected st = mask_select (concat (ms_final_mask_list st)) (concat (ms_sample_index_list st))"

definition phase_inv :: "memory_agent \<Rightarrow> memory_state \<Rightarrow> bool" where
  "phase_inv a st \<longleftrightarrow>
     (case ms_phase st of
        Chunk \<Rightarrow> ms_pass_num st < pass_bound a
      | Merge \<Rightarrow> ms_pass_num st < pass_bound a \<and> False \<in> set (ms_converged st)
      | Final \<Rightarrow> 1 \<le> ms_pass_num st \<and> ms_pass_num st \<le> pass_bound a \<and> (\<forall>p\<in>set (ms_sample_pass_used st). 1 \<le> p))"

lemma agent_inv_running:
  "\<not> ms_is_done st \<Longrightarrow> agent_inv a b st \<longleftrightarrow> core_inv a b st \<and> selected st = [] \<and> phase_inv a st"
  by (auto simp: agent_inv_def core_inv_def selected_def phase_inv_def used_ok_def)

lemma ready_iff:
  "ready a b st msgs \<longleftrightarrow> core_inv a b st \<and> ms_sample_index_list st \<noteq> [] \<and>
     selected st = (if ms_phase st = Final then [0..<mb_size b] else []) \<and>
     (case ms_phase st of
        Chunk \<Rightarrow> ms_pass_num st < pass_bound a \<and> length msgs = length (mask_places (ms_active_mask st)) \<and>
          length (ms_active_mask st) = mb_size b \<and> ms_chunk_step st < chunk_bound a b
      | Merge \<Rightarrow> ms_pass_num st < pass_bound a \<and> length msgs = length (filter (\<lambda>k. k) (ms_merge_mask st)) \<and>
          length (ms_merge_mask st) = mb_size b
      | Final \<Rightarrow> 1 \<le> ms_pass_num st \<and> ms_pass_num st \<le> pass_bound a \<and> (\<forall>p\<in>set (ms_sample_pass_used st). 1 \<le> p) \<and>
          length msgs = mb_size b)"
  by (auto simp: ready_def core_inv_def selected_def used_ok_def)

lemma selected_record:
  "core_inv a b st \<Longrightarrow> selected (record_turn is f st) = selected st @ (if f then is else [])"
  unfolding selected_def by (rule record_turn_select) (simp add: core_inv_def)

lemma core_record:
  "core_inv a b st \<Longrightarrow> \<forall>i\<in>set is. i < mb_size b \<Longrightarrow> core_inv a b (record_turn is f st)"
  by (auto simp: core_inv_def list_all2_appendI)

lemma core_cong:
  "core_inv a b st \<Longrightarrow> core_inv a b (st\<lparr>ms_active_mask := x\<rparr>)" "core_inv a b st \<Longrightarrow> core_inv a b (st\<lparr>ms_merge_mask := x\<rparr>)"
  "core_inv a b st \<Longrightarrow> core_inv a b (st\<lparr>ms_phase := p\<rparr>)" "core_inv a b st \<Longrightarrow> core_inv a b (st\<lparr>ms_pass_num := n\<rparr>)"
  "core_inv a b st \<Longrightarrow> core_inv a b (st\<lparr>ms_chunk_step := n\<rparr>)" "core_inv a b st \<Longrightarrow> core_inv a b (st\<lparr>ms_step := n\<rparr>)"
  by (simp_all add: core_inv_def)

lemma selected_cong [simp]:
  "selected (st\<lparr>ms_active_mask := x\<rparr>) = selected st" "selected (st\<lparr>ms_merge_mask := x\<rparr>) = selected st"
  "selected (st\<lparr>ms_phase := p\<rparr>) = selected st" "selected (st\<lparr>ms_pass_num := n\<rparr>) = selected st"
  "selected (st\<lparr>ms_chunk_step := n\<rparr>) = selected st" "selected (st\<lparr>ms_step := n\<rparr>) = selected st"
  "selected (st\<lparr>ms_chunk_memories := c\<rparr>) = selected st" "selected (st\<lparr>ms_global_memory := g\<rparr>) = selected st"
  "selected (st\<lparr>ms_is_done := d\<rparr>) = selected st"
  "selected (check_pass_convergence b st) = selected st" "selected (finalize_sample_pass_used k st) = selected st"
  by (simp_all add: selected_def)

lemma core_convergence:
  "core_inv a b st \<Longrightarrow> ms_pass_num st < pass_bound a \<Longrightarrow> core_inv a b (check_pass_convergence b st)"
  by (auto simp: core_inv_def convergence_used)

lemma core_finalize:
  "core_inv a b st \<Longrightarrow> 1 \<le> n \<Longrightarrow> n \<le> pass_bound a \<Longrightarrow> core_inv a b (finalize_sample_pass_used n st)"
  by (auto simp: core_inv_def finalize_used)

section \<open>Actions succeed and keep the invariant\<close>

lemma final_action_ready:
  assumes "chat_ok a" "batch_ok a b" "core_inv a b st" "selected st = []" "ms_phase st = Final" "phase_inv a st"
  shows "\<exists>st' msgs meta. final_action a b st = Inr (st', msgs, meta) \<and> ready a b st' msgs \<and> msgs \<noteq> [] \<and> ms_phase st' = Final \<and>
    concat (ms_sample_index_list st') = concat (ms_sample_index_list st) @ [0..<mb_size b] \<and> length msgs = mb_size b"
proof -
  obtain msgs where msgs: "map_res (final_message a b st) [0..<mb_size b] = Inr msgs" "length msgs = mb_size b"
    using map_res_total [of "final_message a b st" "[0..<mb_size b]"] final_message_total [OF assms(1)] by auto
  have "ready a b (record_turn [0..<mb_size b] True st) msgs"
    using assms(3-6) msgs(2) by (auto simp: ready_iff core_record selected_record phase_inv_def)
  then show ?thesis using msgs assms(2,5) by (auto simp: final_action_def batch_ok_def)
qed

lemma merge_action_ready:
  assumes "chat_ok a" "core_inv a b st" "selected st = []" "ms_phase st = Merge" "phase_inv a st"
  shows "\<exists>st' msgs meta. merge_action a b st = Inr (st', msgs, meta) \<and> ready a b st' msgs \<and> msgs \<noteq> [] \<and> ms_phase st' = Merge \<and>
    (\<exists>is. concat (ms_sample_index_list st') = concat (ms_sample_index_list st) @ is \<and> length msgs = length is) \<and>
    ms_pass_num st' = ms_pass_num st"
proof -
  define st0 where "st0 = st\<lparr>ms_merge_mask := map Not (ms_converged st)\<rparr>"
  let ?is = "mask_places (ms_merge_mask st0)"
  obtain msgs where msgs: "map_res (merge_message a b st0) ?is = Inr msgs" "length msgs = length ?is"
    using map_res_total [of "merge_message a b st0" ?is] merge_message_total [OF assms(1)] by blast
  have core: "core_inv a b st0" using assms(2) by (simp add: st0_def core_cong)
  have len: "length (ms_merge_mask st0) = mb_size b" using assms(2) by (simp add: st0_def core_inv_def)
  have places: "\<forall>i\<in>set ?is. i < mb_size b" using len mask_places_less by metis
  have "True \<in> set (ms_merge_mask st0)" using assms(4,5) by (force simp: st0_def phase_inv_def)
  then have ne: "msgs \<noteq> []" using places_nonempty msgs(2) by fastforce
  have sel: "selected (record_turn ?is False st0) = []"
    using selected_record [OF core, of ?is False] assms(3) by (simp add: st0_def)
  have st0: "ms_phase st0 = ms_phase st" "ms_pass_num st0 = ms_pass_num st" by (simp_all add: st0_def)
  have "ready a b (record_turn ?is False st0) msgs"
    using core places assms(3-5) msgs(2) len sel st0
    by (simp add: ready_iff core_record length_mask_places phase_inv_def)
  moreover have "merge_action a b st = Inr (record_turn ?is False st0, msgs, agent_meta a (max_merge_length (ag_config a)))"
    using msgs(1) by (simp add: merge_action_def st0_def)
  ultimately show ?thesis using ne assms(4) msgs(2) by (auto simp: st0_def)
qed


lemma all_converged: "list_all (\<lambda>c. c) cs \<longleftrightarrow> False \<notin> set cs"
  by (induction cs) auto

lemma places_bound: "length ks = n \<Longrightarrow> \<forall>i\<in>set (mask_places ks). i < n"
  using mask_places_less by blast

lemma pass_ge_1: "1 \<le> pass_bound a"
  by (simp add: pass_bound_def le_nat_iff)

lemma chunk_action_ready:
  assumes "chat_ok a" "batch_ok a b" "core_inv a b st" "selected st = []" "ms_phase st = Chunk" "phase_inv a st"
  shows "\<exists>st' msgs meta. chunk_action a b st = Inr (st', msgs, meta) \<and> ready a b st' msgs \<and> msgs \<noteq> [] \<and>
    agent_rank a b st' \<le> agent_rank a b st \<and>
    (\<exists>is. concat (ms_sample_index_list st') = concat (ms_sample_index_list st) @ is \<and> length msgs = length is)"
proof (cases "True \<in> set (chunk_active a b st)")
  case True
  let ?act = "chunk_active a b st"
  define st0 where "st0 = st\<lparr>ms_active_mask := ?act\<rparr>"
  let ?is = "mask_places ?act"
  obtain msgs where msgs: "map_res (chunk_message a b st0) ?is = Inr msgs" "length msgs = length ?is"
    using map_res_total [of "chunk_message a b st0" ?is] chunk_message_total [OF assms(1)] by blast
  have core: "core_inv a b st0" using assms(3) by (simp add: st0_def core_cong)
  have len: "length ?act = mb_size b" using assms(3) by (simp add: chunk_active_def core_inv_def)
  have sel: "selected (record_turn ?is False st0) = []"
    using selected_record [OF core, of ?is False] assms(4) by (simp add: st0_def)
  have st0: "ms_phase st0 = Chunk" "ms_pass_num st0 = ms_pass_num st" "ms_chunk_step st0 = ms_chunk_step st"
    "ms_active_mask st0 = ?act" "ms_sample_index_list st0 = ms_sample_index_list st" "ms_is_done st0 = ms_is_done st"
    by (simp_all add: st0_def assms(5))
  have "ms_chunk_step st < chunk_bound a b" using active_less True assms(2) by (simp add: batch_ok_def)
  then have "ready a b (record_turn ?is False st0) msgs"
    using core places_bound [OF len] assms(5,6) msgs(2) len sel st0
    by (simp add: ready_iff core_record phase_inv_def)
  moreover have "chunk_action a b st = Inr (record_turn ?is False st0, msgs, agent_meta a (max_memorization_length (ag_config a)))"
    using msgs(1) True by (simp add: chunk_action_def st0_def Let_def)
  moreover have "msgs \<noteq> []" using places_nonempty [OF True] msgs(2) by fastforce
  moreover have "agent_rank a b (record_turn ?is False st0) = agent_rank a b st"
    using st0 assms(5) by (simp add: agent_rank_def)
  ultimately show ?thesis using msgs(2) st0 by auto
next
  case False
  define st1 where "st1 = check_pass_convergence b (st\<lparr>ms_active_mask := chunk_active a b st\<rparr>)"
  have pass: "ms_pass_num st < pass_bound a" using assms(5,6) by (simp add: phase_inv_def)
  have core1: "core_inv a b st1" unfolding st1_def using assms(3) pass by (intro core_convergence core_cong) simp_all
  have st1: "ms_pass_num st1 = ms_pass_num st" "selected st1 = []" "ms_sample_index_list st1 = ms_sample_index_list st"
    "ms_is_done st1 = ms_is_done st"
    using assms(4) by (simp_all add: st1_def)
  have nd: "\<not> ms_is_done st" using assms(3) by (simp add: core_inv_def)
  show ?thesis
  proof (cases "list_all (\<lambda>c. c) (ms_converged st1)")
    case True
    define st2 where "st2 = (finalize_sample_pass_used (ms_pass_num st1 + 1) (st1\<lparr>ms_pass_num := ms_pass_num st1 + 1\<rparr>))\<lparr>ms_phase := Final\<rparr>"
    have core2: "core_inv a b st2" unfolding st2_def using core1 pass st1(1)
      by (intro core_cong core_finalize) simp_all
    have "\<forall>p\<in>set (ms_sample_pass_used st2). 1 \<le> p"
      using finalize_used [of a "st1\<lparr>ms_pass_num := ms_pass_num st1 + 1\<rparr>" "ms_pass_num st1 + 1"] core1 pass st1(1)
      by (simp add: st2_def core_inv_def)
    then have ph: "phase_inv a st2" using pass st1(1) by (simp add: phase_inv_def st2_def)
    have "chunk_action a b st = final_action a b st2"
      using False True by (simp add: chunk_action_def st1_def [symmetric] st2_def Let_def)
    moreover have "selected st2 = []" "ms_phase st2 = Final" "ms_sample_index_list st2 = ms_sample_index_list st"
      using st1 by (simp_all add: st2_def)
    moreover obtain st' msgs meta where f: "final_action a b st2 = Inr (st', msgs, meta)" "ready a b st' msgs" "msgs \<noteq> []"
      "ms_phase st' = Final" "concat (ms_sample_index_list st') = concat (ms_sample_index_list st2) @ [0..<mb_size b]"
      "length msgs = mb_size b"
      using final_action_ready [OF assms(1,2) core2 _ _ ph] calculation(2,3) by blast
    moreover have "agent_rank a b st' \<le> agent_rank a b st" using f(4) nd assms(5) by (simp add: agent_rank_def)
    ultimately show ?thesis by auto
  next
    case notall: False
    define st2 where "st2 = st1\<lparr>ms_phase := Merge\<rparr>"
    have core2: "core_inv a b st2" unfolding st2_def by (intro core_cong core1)
    have ph: "phase_inv a st2" using notall pass st1(1) by (simp add: phase_inv_def st2_def all_converged)
    have eq: "chunk_action a b st = merge_action a b st2"
      using False notall by (simp add: chunk_action_def st1_def [symmetric] st2_def Let_def)
    have s2: "selected st2 = []" "ms_phase st2 = Merge" "ms_sample_index_list st2 = ms_sample_index_list st" "ms_pass_num st2 = ms_pass_num st"
      using st1 by (simp_all add: st2_def)
    obtain st' msgs meta where f: "merge_action a b st2 = Inr (st', msgs, meta)" "ready a b st' msgs" "msgs \<noteq> []"
      "ms_phase st' = Merge" "\<exists>is. concat (ms_sample_index_list st') = concat (ms_sample_index_list st2) @ is \<and> length msgs = length is"
      "ms_pass_num st' = ms_pass_num st2"
      using merge_action_ready [OF assms(1) core2 s2(1,2) ph] by blast
    have "agent_rank a b st' \<le> agent_rank a b st" using f(4,6) nd assms(5) s2(4) by (simp add: agent_rank_def)
    then show ?thesis using f eq s2(3) by auto
  qed
qed

lemma memory_action_ready:
  assumes "chat_ok a" "batch_ok a b" "agent_inv a b st" "\<not> ms_is_done st"
  shows "\<exists>st' msgs meta. memory_action a b st = Inr (st', msgs, meta) \<and> ready a b st' msgs \<and> msgs \<noteq> [] \<and>
    agent_rank a b st' \<le> agent_rank a b st \<and>
    (\<exists>is. concat (ms_sample_index_list st') = concat (ms_sample_index_list st) @ is \<and> length msgs = length is)"
proof -
  have inv: "core_inv a b st" "selected st = []" "phase_inv a st"
    using assms(3) agent_inv_running [OF assms(4)] by simp_all
  show ?thesis
  proof (cases "ms_phase st")
    case Chunk
    then show ?thesis using chunk_action_ready [OF assms(1,2) inv(1,2) _ inv(3)] by (simp add: memory_action_def)
  next
    case Merge
    then obtain st' msgs meta where f: "merge_action a b st = Inr (st', msgs, meta)" "ready a b st' msgs" "msgs \<noteq> []"
      "ms_phase st' = Merge" "\<exists>is. concat (ms_sample_index_list st') = concat (ms_sample_index_list st) @ is \<and> length msgs = length is"
      "ms_pass_num st' = ms_pass_num st"
      using merge_action_ready [OF assms(1) inv(1,2) _ inv(3)] by blast
    have "agent_rank a b st' \<le> agent_rank a b st" using f(4,6) assms(4) Merge by (simp add: agent_rank_def)
    then show ?thesis using f Merge by (auto simp: memory_action_def)
  next
    case Final
    then obtain st' msgs meta where f: "final_action a b st = Inr (st', msgs, meta)" "ready a b st' msgs" "msgs \<noteq> []"
      "ms_phase st' = Final" "concat (ms_sample_index_list st') = concat (ms_sample_index_list st) @ [0..<mb_size b]"
      "length msgs = mb_size b"
      using final_action_ready [OF assms(1,2) inv(1,2) _ inv(3)] by blast
    have "agent_rank a b st' \<le> agent_rank a b st" using f(4) assms(4) Final by (simp add: agent_rank_def)
    then show ?thesis using f Final by (auto simp: memory_action_def)
  qed
qed

section \<open>Updates succeed and keep the invariant\<close>

lemma store_responses_total:
  "length is \<le> length rs \<Longrightarrow> \<exists>mem'. store_responses a mem is rs = Inr mem' \<and> length mem' = length mem"
proof (induction a mem "is" rs rule: store_responses.induct)
  case (3 a mem i "is" r rs)
  then show ?case by simp
qed simp_all

lemma length_mask_assign [simp]: "length (mask_assign ks xs vs) = length xs"
  by (induction ks xs vs rule: mask_assign.induct) auto

lemma final_of_finalize:
  assumes "core_inv a b st" "selected st = []" "1 \<le> n" "n \<le> pass_bound a" "ms_pass_num st = n"
  shows "agent_inv a b ((finalize_sample_pass_used n st)\<lparr>ms_phase := Final\<rparr>)"
    "agent_rank a b ((finalize_sample_pass_used n st)\<lparr>ms_phase := Final\<rparr>) = 1"
proof -
  let ?st = "(finalize_sample_pass_used n st)\<lparr>ms_phase := Final\<rparr>"
  have nd: "\<not> ms_is_done st" using assms(1) by (simp add: core_inv_def)
  have "core_inv a b ?st" using assms by (intro core_cong core_finalize) simp_all
  moreover have "\<forall>p\<in>set (ms_sample_pass_used ?st). 1 \<le> p"
    using finalize_used [of a st n] assms by (simp add: core_inv_def)
  ultimately show "agent_inv a b ?st" using assms nd by (subst agent_inv_running) (auto simp: phase_inv_def)
  show "agent_rank a b ?st = 1" using nd by (simp add: agent_rank_def)
qed

lemma agent_inv_step [simp]: "agent_inv a b (st\<lparr>ms_step := k\<rparr>) = agent_inv a b st"
  by (cases "ms_phase st") (simp_all add: agent_inv_def)

lemma agent_rank_step [simp]: "agent_rank a b (st\<lparr>ms_step := k\<rparr>) = agent_rank a b st"
  by (cases "ms_phase st") (simp_all add: agent_rank_def)

lemma chunk_update_inv:
  assumes "batch_ok a b" "ready a b st msgs" "ms_phase st = Chunk" "length responses = length msgs"
  shows "\<exists>st'. chunk_update a b responses st = Inr st' \<and> agent_inv a b st' \<and> agent_rank a b st' < agent_rank a b st \<and>
    ms_sample_index_list st' = ms_sample_index_list st"
proof -
  have r: "core_inv a b st" "selected st = []" "ms_pass_num st < pass_bound a"
    "length msgs = length (mask_places (ms_active_mask st))" "ms_chunk_step st < chunk_bound a b"
    using assms(2,3) by (auto simp: ready_iff)
  have nd: "\<not> ms_is_done st" using r(1) by (simp add: core_inv_def)
  have "length (unpad (ag_tok a) responses True) = length msgs" using assms(4) by (simp add: unpad_def)
  then obtain mem where mem: "store_responses a (replicate (mb_size b) None) (mask_places (ms_active_mask st))
      (unpad (ag_tok a) responses True) = Inr mem" "length mem = mb_size b"
    using store_responses_total [of "mask_places (ms_active_mask st)" "unpad (ag_tok a) responses True" a "replicate (mb_size b) None"]
      r(4) by auto
  define st1 where "st1 = st\<lparr>ms_chunk_memories := ms_chunk_memories st @ [mem], ms_chunk_step := ms_chunk_step st + 1\<rparr>"
  have core1: "core_inv a b st1" using r(1) mem(2) by (auto simp: st1_def core_inv_def)
  have s1: "ms_pass_num st1 = ms_pass_num st" "selected st1 = []" "ms_sample_index_list st1 = ms_sample_index_list st"
    "ms_phase st1 = Chunk" "ms_is_done st1 = ms_is_done st" "ms_chunk_step st1 = ms_chunk_step st + 1"
    using r(2) assms(3) by (simp_all add: st1_def)
  show ?thesis
  proof (cases "True \<in> set (chunk_active a b st1)")
    case True
    then have "chunk_update a b responses st = Inr st1" using mem(1) by (simp add: chunk_update_def st1_def Let_def)
    moreover have "agent_inv a b st1" using core1 s1 nd r(3) by (subst agent_inv_running) (auto simp: phase_inv_def)
    moreover have "agent_rank a b st1 < agent_rank a b st" using s1 nd assms(3) r(5) by (simp add: agent_rank_def)
    ultimately show ?thesis using s1(3) by blast
  next
    case False
    define st2 where "st2 = check_pass_convergence b st1"
    have core2: "core_inv a b st2" unfolding st2_def using core1 r(3) s1(1) by (intro core_convergence) simp_all
    have s2: "ms_pass_num st2 = ms_pass_num st" "selected st2 = []" "ms_sample_index_list st2 = ms_sample_index_list st"
      "ms_is_done st2 = ms_is_done st"
      using s1 by (simp_all add: st2_def)
    show ?thesis
    proof (cases "list_all (\<lambda>c. c) (ms_converged st2)")
      case True
      define st3 where "st3 = st2\<lparr>ms_pass_num := ms_pass_num st2 + 1\<rparr>"
      let ?st = "(finalize_sample_pass_used (ms_pass_num st3) st3)\<lparr>ms_phase := Final\<rparr>"
      have "chunk_update a b responses st = Inr ?st"
        unfolding chunk_update_def mem(1) bind_res_Inr Let_def st1_def [symmetric] st2_def [symmetric] st3_def [symmetric]
        using False True by simp
      moreover have "core_inv a b st3" "selected st3 = []" unfolding st3_def using core2 s2 by (simp_all add: core_cong)
      moreover have "1 \<le> ms_pass_num st3" "ms_pass_num st3 \<le> pass_bound a" using s2 r(3) by (simp_all add: st3_def)
      moreover have "1 < agent_rank a b st" using nd assms(3) by (simp add: agent_rank_def)
      moreover have "ms_sample_index_list ?st = ms_sample_index_list st" using s2 by (simp add: st3_def)
      ultimately show ?thesis
        using final_of_finalize(1) [of a b st3 "ms_pass_num st3"] final_of_finalize(2) [of a b st3 "ms_pass_num st3"] by auto
    next
      case notall: False
      let ?st = "st2\<lparr>ms_phase := Merge\<rparr>"
      have "chunk_update a b responses st = Inr ?st"
        unfolding chunk_update_def mem(1) bind_res_Inr Let_def st1_def [symmetric] st2_def [symmetric]
        using False notall by simp
      moreover have "agent_inv a b ?st"
        using core2 s2 nd r(3) notall by (subst agent_inv_running) (auto simp: phase_inv_def core_cong all_converged)
      moreover have "agent_rank a b ?st < agent_rank a b st" using nd assms(3) r(5) s2 by (simp add: agent_rank_def)
      ultimately show ?thesis using s2(3) by auto
    qed
  qed
qed

lemma merge_update_inv:
  assumes "ready a b st msgs" "ms_phase st = Merge" "length responses = length msgs"
  shows "\<exists>st'. merge_update a b responses st = Inr st' \<and> agent_inv a b st' \<and> agent_rank a b st' < agent_rank a b st \<and>
    ms_sample_index_list st' = ms_sample_index_list st"
proof -
  have r: "core_inv a b st" "selected st = []" "ms_pass_num st < pass_bound a"
    "length msgs = length (filter (\<lambda>k. k) (ms_merge_mask st))"
    using assms(1,2) by (auto simp: ready_iff)
  have nd: "\<not> ms_is_done st" using r(1) by (simp add: core_inv_def)
  define mem where "mem = mask_assign (ms_merge_mask st) (ms_global_memory st) (map Some (unpad (ag_tok a) responses True))"
  have mem: "numpy_mask_assign (ms_merge_mask st) (ms_global_memory st) (map Some (unpad (ag_tok a) responses True)) = Inr mem"
    using r(4) assms(3) by (simp add: numpy_mask_assign_def mem_def unpad_def)
  define st1 where "st1 = st\<lparr>ms_global_memory := mem, ms_pass_num := ms_pass_num st + 1\<rparr>"
  have core1: "core_inv a b st1" using r(1) by (auto simp: st1_def core_inv_def mem_def)
  have s1: "ms_pass_num st1 = ms_pass_num st + 1" "selected st1 = []" "ms_sample_index_list st1 = ms_sample_index_list st"
    "ms_is_done st1 = ms_is_done st"
    using r(2) by (simp_all add: st1_def)
  have rank: "agent_rank a b st = (pass_bound a - ms_pass_num st - 1) * (chunk_bound a b + 1) + 2"
    using nd assms(2) by (simp add: agent_rank_def)
  show ?thesis
  proof (cases "max_passes (ag_config a) \<le> int (ms_pass_num st1) \<or> list_all (\<lambda>c. c) (ms_converged st1)")
    case True
    let ?st = "(finalize_sample_pass_used (ms_pass_num st1) st1)\<lparr>ms_phase := Final\<rparr>"
    have "merge_update a b responses st = Inr ?st"
      unfolding merge_update_def mem bind_res_Inr Let_def st1_def [symmetric] using True by simp
    moreover have "1 \<le> ms_pass_num st1" "ms_pass_num st1 \<le> pass_bound a" using s1 r(3) by simp_all
    moreover have "1 < agent_rank a b st" using rank by simp
    moreover have "ms_sample_index_list ?st = ms_sample_index_list st" using s1 by simp
    ultimately show ?thesis using core1 s1(2)
        final_of_finalize(1) [of a b st1 "ms_pass_num st1"] final_of_finalize(2) [of a b st1 "ms_pass_num st1"] by auto
  next
    case False
    let ?st = "st1\<lparr>ms_chunk_step := 0, ms_chunk_memories := [], ms_phase := Chunk\<rparr>"
    have lt: "ms_pass_num st + 1 < pass_bound a" using False s1(1) by (auto simp: pass_bound_def zless_nat_eq_int_zless)
    then obtain k where k: "pass_bound a - ms_pass_num st - 1 = Suc k"
      by (metis Suc_diff_Suc diff_Suc_eq_diff_pred One_nat_def Suc_eq_plus1 diff_diff_left)
    then have "pass_bound a - (ms_pass_num st + 1) - 1 = k" by simp
    then have "agent_rank a b ?st = k * (chunk_bound a b + 1) + 2 + chunk_bound a b"
      using s1 nd by (simp add: agent_rank_def)
    then have "agent_rank a b ?st < agent_rank a b st" using rank k by simp
    moreover have "core_inv a b ?st" using core1 by (simp add: core_inv_def)
    then have "agent_inv a b ?st" using s1 nd lt by (subst agent_inv_running) (auto simp: phase_inv_def selected_def)
    moreover have "merge_update a b responses st = Inr ?st"
      unfolding merge_update_def mem bind_res_Inr Let_def st1_def [symmetric] using False by simp
    ultimately show ?thesis using s1(3) by auto
  qed
qed

lemma memory_update_inv:
  assumes "batch_ok a b" "ready a b st msgs" "length responses = length msgs"
  shows "\<exists>st' out. memory_update a b responses st = Inr (st', out) \<and> agent_inv a b st' \<and>
    agent_rank a b st' < agent_rank a b st \<and> ms_sample_index_list st' = ms_sample_index_list st \<and>
    length out = length responses \<and> (\<forall>p\<in>set out. 1 \<le> p \<and> p \<le> int (pass_bound a))"
proof (cases "ms_phase st")
  case Chunk
  then have "ms_pass_num st < pass_bound a" using assms(2) by (simp add: ready_iff)
  then show ?thesis using chunk_update_inv [OF assms(1,2) Chunk assms(3)] Chunk by (auto simp: memory_update_def)
next
  case Merge
  then have "ms_pass_num st < pass_bound a" using assms(2) by (simp add: ready_iff)
  then show ?thesis using merge_update_inv [OF assms(2) Merge assms(3)] Merge by (auto simp: memory_update_def)
next
  case Final
  then have r: "core_inv a b st" "selected st = [0..<mb_size b]" "1 \<le> ms_pass_num st" "ms_pass_num st \<le> pass_bound a"
    "\<forall>p\<in>set (ms_sample_pass_used st). 1 \<le> p" "length msgs = mb_size b" "ms_sample_index_list st \<noteq> []"
    using assms(2) by (auto simp: ready_iff)
  have fin: "finalize_sample_pass_used (ms_pass_num st) st = st" using r(5) by (rule finalize_done)
  let ?st = "st\<lparr>ms_is_done := True, ms_step := ms_step st + 1\<rparr>"
  have "memory_update a b responses st = Inr (?st, ms_sample_pass_used st)" using Final fin by (simp add: memory_update_def)
  moreover have "agent_inv a b ?st" using r Final by (auto simp: agent_inv_def core_inv_def selected_def used_ok_def)
  moreover have "agent_rank a b ?st < agent_rank a b st" using Final r(1) by (simp add: agent_rank_def core_inv_def)
  moreover have "length (ms_sample_pass_used st) = length responses" using r(1,6) assms(3) by (simp add: core_inv_def)
  moreover have "\<forall>p\<in>set (ms_sample_pass_used st). 1 \<le> p \<and> p \<le> int (pass_bound a)"
    using r(1,5) unfolding core_inv_def used_ok_def by fastforce
  ultimately show ?thesis by simp
qed

end
