(* ===== verification/GenerationManager.thy ===== *)
theory GenerationManager
  imports MemoryAgent
begin

text \<open>
  The generation loop of \<open>recurrent/generation_manager.py\<close>: it pads the agent's messages to a
  rectangle, makes their number divisible by the workers, runs the workers, removes the padding and
  hands the responses back to the agent, until the agent is done. The workers and what else runs on
  them are third-party: a function from rows to rows.
\<close>

section \<open>Rows for the workers\<close>

text \<open>A row: token identifiers, attention mask and position identifiers.\<close>

type_synonym input_row = "int list \<times> int list \<times> int list"

record manager =
  gm_tok :: tokenizer
  gm_world_size :: nat
  gm_padding_words :: "int list"

definition manager_init :: "tokenizer \<Rightarrow> nat \<Rightarrow> manager res" where
  "manager_init tok world_size =
     bind_res (encode_user_message tok (chat_template tok False) ''Hello.'')
       (\<lambda>words. Inr \<lparr>gm_tok = tok, gm_world_size = world_size, gm_padding_words = words\<rparr>)"

text \<open>
  \<open>x[-len(v):] = v\<close> on a tensor of width \<open>w\<close>: the whole tensor for an empty \<open>v\<close>; one value is
  broadcast, another number of values than places is an error.
\<close>

definition assign_suffix :: "'a list \<Rightarrow> 'a list \<Rightarrow> 'a list res" where
  "assign_suffix xs vs =
     (let w = length xs; k = length vs; places = (if k = 0 then w else min k w)
      in if k = places then Inr (take (w - places) xs @ vs)
         else if k = 1 then Inr (take (w - places) xs @ replicate places (hd vs))
         else Inl RuntimeError)"

definition get_paddings :: "manager \<Rightarrow> nat \<Rightarrow> input_row res" where
  "get_paddings m width =
     (let words = gm_padding_words m; k = length words
      in bind_res (assign_suffix (replicate width (tok_pad (gm_tok m))) words)
           (\<lambda>ids. bind_res (assign_suffix (replicate width 0) (replicate k 1))
             (\<lambda>mask. bind_res (assign_suffix (replicate width 0) (map int [0..<k]))
               (\<lambda>pos. Inr (ids, mask, pos)))))"

definition padding_by_index :: "'a list \<Rightarrow> 'a \<Rightarrow> int list \<Rightarrow> 'a list res" where
  "padding_by_index rows padding padding_index = map_res (py_get (rows @ [padding])) padding_index"

definition generate_with_graceful_padding ::
  "manager \<Rightarrow> (input_row list \<Rightarrow> 'o list res) \<Rightarrow> input_row list \<Rightarrow> 'o list res" where
  "generate_with_graceful_padding m generate_sequences rows =
     (if gm_world_size m = 0 then Inl ZeroDivisionError
      else if length rows mod gm_world_size m = 0 then generate_sequences rows
      else bind_res (graceful_padding (length rows) (gm_world_size m))
        (\<lambda>(padding_index, keep).
           bind_res (get_paddings m (length (fst (hd rows))))
             (\<lambda>padding. bind_res (padding_by_index rows padding padding_index)
               (\<lambda>padded. bind_res (generate_sequences padded)
                 (\<lambda>out. fancy_index (Mask keep) out)))))"

section \<open>The loop\<close>

text \<open>The methods of an agent, over its state.\<close>

record 's ragent_ops =
  ra_action :: "'s \<Rightarrow> ('s \<times> int list list \<times> action_meta) res"
  ra_update :: "int list list \<Rightarrow> 's \<Rightarrow> ('s \<times> int list) res"
  ra_done :: "'s \<Rightarrow> bool"
  ra_end :: "'s \<Rightarrow> (bool list \<times> nat list) res"

definition message_rows :: "tokenizer \<Rightarrow> int list list \<Rightarrow> action_meta \<Rightarrow> input_row list res" where
  "message_rows tok messages meta =
     bind_res (pad_tensor_list_to_length messages (tok_pad tok) (Some (am_input_pad_to meta)) True)
       (\<lambda>input_ids.
          let attention_masks = create_attention_mask input_ids (tok_pad tok);
              position_ids = create_position_ids attention_masks
          in Inr (zip input_ids (zip attention_masks position_ids)))"

text \<open>
  One round: the new state, the number of active samples and the generated rows. A row of the
  workers' output is its response.
\<close>

definition llm_turn ::
  "manager \<Rightarrow> (action_meta \<Rightarrow> input_row list \<Rightarrow> int list list res) \<Rightarrow> 's ragent_ops \<Rightarrow> 's \<Rightarrow>
   ('s \<times> nat \<times> (int list \<times> int) list) res" where
  "llm_turn m workers ra s =
     bind_res (ra_action ra s)
       (\<lambda>(s1, messages, meta). bind_res (message_rows (gm_tok m) messages meta)
         (\<lambda>rows. bind_res (generate_with_graceful_padding m (workers meta) rows)
           (\<lambda>out. bind_res (ra_update ra out s1)
             (\<lambda>(s2, used). Inr (s2, length messages, zip out used)))))"

text \<open>\<open>None\<close>: the loop has not ended within the given number of rounds.\<close>

fun llm_loop ::
  "nat \<Rightarrow> manager \<Rightarrow> (action_meta \<Rightarrow> input_row list \<Rightarrow> int list list res) \<Rightarrow> 's ragent_ops \<Rightarrow> 's \<Rightarrow>
   nat list \<Rightarrow> (int list \<times> int) list list \<Rightarrow> ('s \<times> nat list \<times> (int list \<times> int) list list) res option" where
  "llm_loop fuel m workers ra s active_nums outs =
     (if ra_done ra s then Some (Inr (s, active_nums, outs))
      else case fuel of
          0 \<Rightarrow> None
        | Suc n \<Rightarrow>
            (case llm_turn m workers ra s of
               Inl e \<Rightarrow> Some (Inl e)
             | Inr (s', k, out) \<Rightarrow> llm_loop n m workers ra s' (active_nums @ [k]) (outs @ [out])))"

declare llm_loop.simps [simp del]

text \<open>The whole run from the agent's start state, with the two assertions at its end.\<close>

definition run_llm_loop ::
  "nat \<Rightarrow> manager \<Rightarrow> (action_meta \<Rightarrow> input_row list \<Rightarrow> int list list res) \<Rightarrow> 's ragent_ops \<Rightarrow> 's \<Rightarrow> nat \<Rightarrow>
   ((int list \<times> int) list \<times> bool list \<times> nat list) res option" where
  "run_llm_loop fuel m workers ra start batch_size =
     (case llm_loop fuel m workers ra start [] [] of
        None \<Rightarrow> None
      | Some (Inl e) \<Rightarrow> Some (Inl e)
      | Some (Inr (s, active_nums, outs)) \<Rightarrow> Some
          (bind_res (ra_end ra s)
            (\<lambda>(final_mask, sample_index).
               py_assert (length sample_index = sum_list active_nums)
                 (py_assert (length (filter (\<lambda>f. f) final_mask) = batch_size)
                   (if outs = [] then Inl IndexError
                    else Inr (concat outs, final_mask, sample_index))))))"

section \<open>The padding is invisible\<close>

lemma assign_suffix_fits: "0 < length vs \<Longrightarrow> length vs \<le> length xs \<Longrightarrow>
  assign_suffix xs vs = Inr (take (length xs - length vs) xs @ vs)"
  by (simp add: assign_suffix_def Let_def)

lemma get_paddings_Inr:
  "0 < length (gm_padding_words m) \<Longrightarrow> length (gm_padding_words m) \<le> width \<Longrightarrow> \<exists>p. get_paddings m width = Inr p"
  by (auto simp: get_paddings_def Let_def assign_suffix_fits)

lemma map_res_py_get:
  "\<forall>i\<in>set is. (0 \<le> i \<and> i < int (length xs)) \<or> i = - 1 \<Longrightarrow>
    map_res (py_get (xs @ [p])) is = Inr (map (\<lambda>i. if i = - 1 then p else xs ! nat i) is)"
  by (rule map_res_Inr) (auto simp: py_get_def Let_def nth_append)

lemma mask_select_map: "mask_select ks (map f xs) = map f (mask_select ks xs)"
  by (simp add: mask_select_def zip_map2 filter_map o_def split_def)

lemma mask_select_subset: "length ks = length xs \<Longrightarrow> i < length xs \<Longrightarrow> ks ! i \<Longrightarrow> xs ! i \<in> set (mask_select ks xs)"
  unfolding mask_select_def by (force simp: set_zip)

lemma padded_index:
  assumes "graceful_padding n g = Inr (idx, ks)" "i \<in> set idx"
  shows "i = - 1 \<or> (0 \<le> i \<and> i < int n)"
proof -
  note g = graceful_padding_Inr [OF assms(1)]
  obtain j where j: "j < length idx" "idx ! j = i" using assms(2) by (metis in_set_conv_nth)
  show ?thesis
  proof (cases "ks ! j")
    case True
    then have "i \<in> set (mask_select ks idx)" using j g mask_select_subset by metis
    then show ?thesis using g by auto
  qed (use g j in auto)
qed

lemma padded_rows:
  assumes "graceful_padding (length rows) g = Inr (idx, ks)"
  shows "padding_by_index rows p idx = Inr (map (\<lambda>i. if i = - 1 then p else rows ! nat i) idx)"
    "mask_select ks (map (\<lambda>i. if i = - 1 then p else rows ! nat i) idx) = rows"
    "length (map (\<lambda>i. if i = - 1 then p else rows ! nat i) idx) = length ks"
proof -
  note g = graceful_padding_Inr [OF assms]
  have "(0 \<le> i \<and> i < int (length rows)) \<or> i = - 1" if i: "i \<in> set idx" for i
    using padded_index [OF assms i] by blast
  then show "padding_by_index rows p idx = Inr (map (\<lambda>i. if i = - 1 then p else rows ! nat i) idx)"
    unfolding padding_by_index_def by (intro map_res_py_get) blast
  have "mask_select ks (map (\<lambda>i. if i = - 1 then p else rows ! nat i) idx) =
    map (\<lambda>i. if i = - 1 then p else rows ! nat i) (map int [0..<length rows])"
    using g by (simp add: mask_select_map)
  also have "\<dots> = rows" by (auto intro!: nth_equalityI)
  finally show "mask_select ks (map (\<lambda>i. if i = - 1 then p else rows ! nat i) idx) = rows" .
  show "length (map (\<lambda>i. if i = - 1 then p else rows ! nat i) idx) = length ks" using g by simp
qed

text \<open>C4. With a padding message that fits the rows and workers that answer every row by itself, the
  padding rows are invisible: the result is the answers to the rows, one each in order, whether or
  not the number of workers divides the number of rows, and the workers are only ever given a
  multiple of their number.\<close>

theorem graceful_padding_transparent:
  assumes "0 < gm_world_size m" "0 < length (gm_padding_words m)" "rows \<noteq> []"
    and "length (gm_padding_words m) \<le> length (fst (hd rows))"
    and "\<And>rs. gs rs = (if length rs mod gm_world_size m = 0 then Inr (map answer rs) else Inl e)"
  shows "generate_with_graceful_padding m gs rows = Inr (map answer rows)"
proof (cases "length rows mod gm_world_size m = 0")
  case True
  then show ?thesis using assms(1,5) by (simp add: generate_with_graceful_padding_def)
next
  case False
  obtain idx ks where g: "graceful_padding (length rows) (gm_world_size m) = Inr (idx, ks)"
    using graceful_padding_succeeds [OF assms(1)] by blast
  obtain p where p: "get_paddings m (length (fst (hd rows))) = Inr p"
    using get_paddings_Inr [OF assms(2,4)] by blast
  let ?padded = "map (\<lambda>i. if i = - 1 then p else rows ! nat i) idx"
  note pr = padded_rows [OF g, of p]
  have div: "length ?padded mod gm_world_size m = 0" using graceful_padding_Inr [OF g] by simp
  have "fancy_index (Mask ks) (map answer ?padded) = Inr (map answer rows)"
    using pr(2,3) by (simp add: fancy_index_def mask_select_map del: map_map)
  moreover have "gs ?padded = Inr (map answer ?padded)" using assms(5) div by presburger
  ultimately show ?thesis
    using False assms(1) g p pr(1) by (simp add: generate_with_graceful_padding_def del: map_map)
qed

definition sample_manager :: manager where
  "sample_manager = \<lparr>gm_tok = char_tokenizer, gm_world_size = 3, gm_padding_words = [72]\<rparr>"

theorem graceful_padding_transparent_witness:
  "generate_with_graceful_padding sample_manager
     (\<lambda>rs. if length rs mod gm_world_size sample_manager = 0 then Inr (map fst rs) else Inl RuntimeError)
     [([5], [1], [0]), ([6], [1], [0]), ([7], [1], [0]), ([8], [1], [0])] = Inr (map fst [([5], [1 :: int], [0 :: int]), ([6], [1], [0]), ([7], [1], [0]), ([8], [1], [0])])"
  by (rule graceful_padding_transparent [where e = RuntimeError]) (simp_all add: sample_manager_def)


section \<open>Agents the loop can run\<close>

text \<open>
  Workers that answer every row they get, and a padding message that fits rows of the given width.
\<close>

definition workers_ok :: "int \<Rightarrow> manager \<Rightarrow> (action_meta \<Rightarrow> input_row list \<Rightarrow> int list list res) \<Rightarrow> bool" where
  "workers_ok width m workers \<longleftrightarrow> 0 < gm_world_size m \<and> 0 < length (gm_padding_words m) \<and>
     int (length (gm_padding_words m)) \<le> width \<and>
     (\<forall>meta rows. \<exists>out. workers meta rows = Inr out \<and> length out = length rows)"

text \<open>
  The contract between the loop and an agent: in every good state that is not done the agent acts,
  with at least one message and an input width of at least \<open>width\<close>; it accepts one response per
  message, with a pass count in range for each, and gets closer to being done; the turns it has recorded are the messages it has sent;
  and when it is done, the final turns name each of the \<open>n\<close> samples once, in order.
\<close>

locale ragent =
  fixes ra :: "'s ragent_ops" and good :: "'s \<Rightarrow> bool" and awaiting :: "'s \<Rightarrow> int list list \<Rightarrow> bool"
    and rank :: "'s \<Rightarrow> nat" and turns :: "'s \<Rightarrow> nat" and n :: nat and width :: int and in_range :: "int \<Rightarrow> bool"
  assumes action_ok: "good s \<Longrightarrow> \<not> ra_done ra s \<Longrightarrow>
      \<exists>s' msgs meta. ra_action ra s = Inr (s', msgs, meta) \<and> awaiting s' msgs \<and> msgs \<noteq> [] \<and>
        width \<le> am_input_pad_to meta \<and> rank s' \<le> rank s \<and> turns s' = turns s + length msgs"
    and update_ok: "awaiting s' msgs \<Longrightarrow> length responses = length msgs \<Longrightarrow>
      \<exists>s'' out. ra_update ra responses s' = Inr (s'', out) \<and> good s'' \<and> rank s'' < rank s' \<and> turns s'' = turns s' \<and>
        length out = length responses \<and> (\<forall>p\<in>set out. in_range p)"
    and end_ok: "good s \<Longrightarrow> ra_done ra s \<Longrightarrow>
      \<exists>fm si. ra_end ra s = Inr (fm, si) \<and> length fm = length si \<and> length si = turns s \<and> mask_select fm si = [0..<n]"
begin

lemma generate_total:
  assumes "workers_ok width m workers" "rows \<noteq> []" "width \<le> int (length (fst (hd rows)))"
  shows "\<exists>out. generate_with_graceful_padding m (workers meta) rows = Inr out \<and> length out = length rows"
proof (cases "length rows mod gm_world_size m = 0")
  case True
  then show ?thesis using assms(1) by (auto simp: generate_with_graceful_padding_def workers_ok_def)
next
  case False
  have g0: "0 < gm_world_size m" using assms(1) by (simp add: workers_ok_def)
  obtain idx ks where g: "graceful_padding (length rows) (gm_world_size m) = Inr (idx, ks)"
    using graceful_padding_succeeds [OF g0] by blast
  obtain p where p: "get_paddings m (length (fst (hd rows))) = Inr p"
    using get_paddings_Inr [of m "length (fst (hd rows))"] assms(1,3) by (auto simp: workers_ok_def)
  let ?padded = "map (\<lambda>i. if i = - 1 then p else rows ! nat i) idx"
  obtain out where out: "workers meta ?padded = Inr out" "length out = length ?padded"
    using assms(1) unfolding workers_ok_def by blast
  have "length ks = length out" using padded_rows(3) [OF g, of p] out(2) by simp
  moreover from this have "length (mask_select ks out) = length rows"
    using graceful_padding_Inr [OF g] by (simp add: mask_select_places length_mask_places)
  ultimately show ?thesis
    using False g0 g p out(1) padded_rows(1) [OF g, of p]
    by (simp add: generate_with_graceful_padding_def fancy_index_def)
qed

lemma message_rows_total:
  assumes "msgs \<noteq> []" "width \<le> am_input_pad_to meta"
  shows "\<exists>rows. message_rows tok msgs meta = Inr rows \<and> length rows = length msgs \<and> rows \<noteq> [] \<and>
    width \<le> int (length (fst (hd rows)))"
proof -
  obtain ids where ids: "pad_tensor_list_to_length msgs (tok_pad tok) (Some (am_input_pad_to meta)) True = Inr ids"
    using assms(1) by (auto simp: pad_tensor_list_to_length_def Let_def)
  obtain w where w: "ids = map (pad_row True (tok_pad tok) w) msgs"
    "w = pad_target (Max (set (map length msgs))) (Some (am_input_pad_to meta))" "\<forall>xs\<in>set msgs. length xs \<le> w"
    using pad_tensor_list_Inr [OF ids] by blast
  obtain x xs where x: "msgs = x # xs" using assms(1) by (cases msgs) auto
  have "length (hd ids) = w" using w(1,3) x by simp
  moreover have "am_input_pad_to meta \<le> int w" unfolding w(2) pad_target_def by simp
  ultimately have "width \<le> int (length (hd ids))" using assms(2) by simp
  moreover have "ids \<noteq> []" "length ids = length msgs" using w(1) x by simp_all
  ultimately show ?thesis
    by (cases ids) (auto simp: message_rows_def ids create_attention_mask_def create_position_ids_def)
qed

lemma turn_ok:
  assumes "workers_ok width m workers" "good s" "\<not> ra_done ra s"
  shows "\<exists>s' k out. llm_turn m workers ra s = Inr (s', k, out) \<and> good s' \<and> rank s' < rank s \<and>
    turns s' = turns s + k \<and> length out = k \<and> (\<forall>x\<in>set out. in_range (snd x))"
proof -
  obtain s1 msgs meta where a: "ra_action ra s = Inr (s1, msgs, meta)" "awaiting s1 msgs" "msgs \<noteq> []"
    "width \<le> am_input_pad_to meta" "rank s1 \<le> rank s" "turns s1 = turns s + length msgs"
    using action_ok [OF assms(2,3)] by blast
  obtain rows where rows: "message_rows (gm_tok m) msgs meta = Inr rows" "length rows = length msgs" "rows \<noteq> []"
    "width \<le> int (length (fst (hd rows)))"
    using message_rows_total [OF a(3,4)] by blast
  obtain out where out: "generate_with_graceful_padding m (workers meta) rows = Inr out" "length out = length rows"
    using generate_total [OF assms(1) rows(3,4)] by blast
  obtain s2 used where u: "ra_update ra out s1 = Inr (s2, used)" "good s2" "rank s2 < rank s1" "turns s2 = turns s1"
    "length used = length out" "\<forall>p\<in>set used. in_range p"
    using update_ok [OF a(2), of out] out(2) rows(2) by auto
  have "llm_turn m workers ra s = Inr (s2, length msgs, zip out used)"
    using a(1) rows(1) out(1) u(1) by (simp add: llm_turn_def)
  moreover have "\<forall>x\<in>set (zip out used). in_range (snd x)" using u(6) by (auto dest: set_zip_rightD)
  ultimately show ?thesis using u(2-5) a(5,6) out(2) rows(2) by (intro exI conjI) auto
qed

lemma loop_ok:
  assumes "workers_ok width m workers" "good s" "rank s \<le> fuel" "turns s = sum_list ks" "map length outs = ks"
    "\<forall>x\<in>set (concat outs). in_range (snd x)"
  shows "\<exists>s' ks' outs'. llm_loop fuel m workers ra s ks outs = Some (Inr (s', ks', outs')) \<and> good s' \<and> ra_done ra s' \<and>
    turns s' = sum_list ks' \<and> map length outs' = ks' \<and> length ks' \<le> length ks + rank s \<and>
    (\<forall>x\<in>set (concat outs'). in_range (snd x))"
  using assms(2-6)
proof (induction fuel arbitrary: s ks outs)
  case 0
  have "ra_done ra s"
  proof (rule ccontr)
    assume "\<not> ra_done ra s"
    then show False using turn_ok [OF assms(1) "0.prems"(1)] "0.prems"(2) by auto
  qed
  then show ?case using 0 by (auto simp: llm_loop.simps)
next
  case (Suc fuel)
  show ?case
  proof (cases "ra_done ra s")
    case True
    then show ?thesis using Suc.prems by (auto simp: llm_loop.simps)
  next
    case False
    obtain s' k out where t: "llm_turn m workers ra s = Inr (s', k, out)" "good s'" "rank s' < rank s"
      "turns s' = turns s + k" "length out = k" "\<forall>x\<in>set out. in_range (snd x)"
      using turn_ok [OF assms(1) Suc.prems(1) False] by blast
    have "\<exists>s'' ks' outs'. llm_loop fuel m workers ra s' (ks @ [k]) (outs @ [out]) = Some (Inr (s'', ks', outs')) \<and> good s'' \<and>
      ra_done ra s'' \<and> turns s'' = sum_list ks' \<and> map length outs' = ks' \<and> length ks' \<le> length (ks @ [k]) + rank s' \<and>
      (\<forall>x\<in>set (concat outs'). in_range (snd x))"
      using Suc.prems t by (intro Suc.IH) auto
    then show ?thesis using False t(1,3) by (subst llm_loop.simps) force
  qed
qed

text \<open>The run ends, its assertions hold, and the final turns name every sample once.\<close>

lemma run_ok:
  assumes "workers_ok width m workers" "good s" "\<not> ra_done ra s" "turns s = 0" "rank s \<le> fuel"
  shows "\<exists>outs fm si. run_llm_loop fuel m workers ra s n = Some (Inr (outs, fm, si)) \<and>
    length outs = length si \<and> length fm = length si \<and> mask_select fm si = [0..<n] \<and> (\<forall>x\<in>set outs. in_range (snd x))"
proof -
  obtain s' ks outs where l: "llm_loop fuel m workers ra s [] [] = Some (Inr (s', ks, outs))" "good s'" "ra_done ra s'"
    "turns s' = sum_list ks" "map length outs = ks" "\<forall>x\<in>set (concat outs). in_range (snd x)"
    using loop_ok [OF assms(1,2,5), of "[]" "[]"] assms(4) by (auto simp del: set_concat)
  obtain fm si where e: "ra_end ra s' = Inr (fm, si)" "length fm = length si" "length si = turns s'" "mask_select fm si = [0..<n]"
    using end_ok [OF l(2,3)] by blast
  have "length (filter (\<lambda>f. f) fm) = n"
    using e(2,4) by (metis length_mask_places length_pick length_upt diff_zero mask_select_places)
  moreover have "outs \<noteq> []"
  proof
    assume "outs = []"
    then have "ks = []" using l(5) by simp
    obtain k where k: "fuel = Suc k" using assms(5) turn_ok [OF assms(1-3)] by (cases fuel) auto
    obtain s1 k1 out1 where t: "llm_turn m workers ra s = Inr (s1, k1, out1)" "good s1" "rank s1 < rank s" "turns s1 = k1" "length out1 = k1"
      using turn_ok [OF assms(1-3)] assms(4) by auto
    have "llm_loop k m workers ra s1 [k1] [out1] = Some (Inr (s', ks, outs))"
      using l(1) assms(3) k t(1) by (simp add: llm_loop.simps [of "Suc k"])
    moreover have "llm_loop k m workers ra s1 as os = Some (Inr (s', ks', os')) \<Longrightarrow> os \<noteq> [] \<Longrightarrow> os' \<noteq> []" for k s1 as os ks' os'
    proof (induction k arbitrary: s1 as os)
      case 0
      then show ?case by (auto simp: llm_loop.simps split: if_splits)
    next
      case (Suc k)
      show ?case
      proof (cases "ra_done ra s1")
        case True
        then show ?thesis using Suc.prems by (simp add: llm_loop.simps)
      next
        case False
        then obtain s2 k2 o2 where "llm_turn m workers ra s1 = Inr (s2, k2, o2)"
          "llm_loop k m workers ra s2 (as @ [k2]) (os @ [o2]) = Some (Inr (s', ks', os'))"
          using Suc.prems(1) by (auto simp: llm_loop.simps [of "Suc k"] split: sum.splits)
        then show ?thesis using Suc.IH by blast
      qed
    qed
    ultimately show False using \<open>outs = []\<close> by blast
  qed
  moreover have "length (concat outs) = length si" using e(3) l(4,5) by (simp add: length_concat)
  ultimately show ?thesis using l(1,4,6) e by (simp add: run_llm_loop_def)
qed

end

section \<open>The memory agent\<close>

definition memory_ops :: "memory_agent \<Rightarrow> memory_batch \<Rightarrow> memory_state ragent_ops" where
  "memory_ops a b =
     \<lparr>ra_action = memory_action a b, ra_update = memory_update a b, ra_done = memory_done, ra_end = memory_end\<rparr>"

definition memory_turns :: "memory_state \<Rightarrow> nat" where
  "memory_turns st = length (concat (ms_sample_index_list st))"

text \<open>The contract holds for every agent and batch; without a usable template or batch no state is good.\<close>

definition memory_good :: "memory_agent \<Rightarrow> memory_batch \<Rightarrow> memory_state \<Rightarrow> bool" where
  "memory_good a b st \<longleftrightarrow> chat_ok a \<and> batch_ok a b \<and> agent_inv a b st"

definition memory_awaiting :: "memory_agent \<Rightarrow> memory_batch \<Rightarrow> memory_state \<Rightarrow> int list list \<Rightarrow> bool" where
  "memory_awaiting a b st msgs \<longleftrightarrow> chat_ok a \<and> batch_ok a b \<and> ready a b st msgs"

lemma memory_action_meta:
  "memory_action a b st = Inr (st', msgs, meta) \<Longrightarrow> am_input_pad_to meta = ag_max_input a"
  by (auto simp: memory_action_def chunk_action_def merge_action_def final_action_def agent_meta_def Let_def bind_res_eq_Inr
      split: phase.splits if_splits)

lemma int_pass_bound: "int (pass_bound a) = max (max_passes (ag_config a)) 1"
  unfolding pass_bound_def by (rule nat_0_le) (rule max.coboundedI2, simp)

interpretation memory: ragent "memory_ops a b" "memory_good a b" "memory_awaiting a b" "agent_rank a b" memory_turns
  "mb_size b" "ag_max_input a" "\<lambda>p. 1 \<le> p \<and> p \<le> max (max_passes (ag_config a)) 1" for a b
proof
  fix s assume s: "memory_good a b s" "\<not> ra_done (memory_ops a b) s"
  then obtain st' msgs meta where act: "memory_action a b s = Inr (st', msgs, meta)" "ready a b st' msgs" "msgs \<noteq> []"
    "agent_rank a b st' \<le> agent_rank a b s"
    "\<exists>is. concat (ms_sample_index_list st') = concat (ms_sample_index_list s) @ is \<and> length msgs = length is"
    using memory_action_ready [of a b s] by (auto simp: memory_good_def memory_ops_def memory_done_def)
  then show "\<exists>s' msgs meta. ra_action (memory_ops a b) s = Inr (s', msgs, meta) \<and> memory_awaiting a b s' msgs \<and> msgs \<noteq> [] \<and>
    ag_max_input a \<le> am_input_pad_to meta \<and> agent_rank a b s' \<le> agent_rank a b s \<and> memory_turns s' = memory_turns s + length msgs"
    using memory_action_meta [OF act(1)] s(1)
    by (auto simp: memory_ops_def memory_awaiting_def memory_good_def memory_turns_def)
next
  fix s msgs and responses :: "int list list" assume "memory_awaiting a b s msgs" "length responses = length msgs"
  then show "\<exists>s'' out. ra_update (memory_ops a b) responses s = Inr (s'', out) \<and> memory_good a b s'' \<and>
    agent_rank a b s'' < agent_rank a b s \<and> memory_turns s'' = memory_turns s \<and> length out = length responses \<and>
    (\<forall>p\<in>set out. 1 \<le> p \<and> p \<le> max (max_passes (ag_config a)) 1)"
    using memory_update_inv [of a b s msgs responses] int_pass_bound [of a]
    by (auto simp: memory_ops_def memory_awaiting_def memory_good_def memory_turns_def)
next
  fix s assume s: "memory_good a b s" "ra_done (memory_ops a b) s"
  then have i: "agent_inv a b s" "ms_is_done s" by (simp_all add: memory_good_def memory_ops_def memory_done_def)
  then have "length (concat (ms_final_mask_list s)) = length (concat (ms_sample_index_list s))"
    by (intro list_all2_concat_length) (simp add: agent_inv_def)
  then show "\<exists>fm si. ra_end (memory_ops a b) s = Inr (fm, si) \<and> length fm = length si \<and> length si = memory_turns s \<and>
    mask_select fm si = [0..<mb_size b]"
    using i by (auto simp: agent_inv_def memory_ops_def memory_end_def memory_turns_def)
qed

text \<open>C1. A run of the memory agent always ends, without an exception and with its two assertions
  true: with a chat template that takes any message, a non-empty batch, a positive chunk size and
  workers that answer every row, \<open>max_passes * (chunks + 1) + 1\<close> rounds are enough (one pass at
  least), \<open>chunks\<close> being the chunk steps of the longest context, the rows marked final name
  every sample of the batch exactly once, in order, and the pass count of every row is between 1 and
  \<open>max_passes\<close> (again one at least).\<close>

theorem memory_run_terminates:
  assumes "chat_ok a" "batch_ok a b" "workers_ok (ag_max_input a) m workers"
    and "nat (max (max_passes (ag_config a)) 1) * (chunk_bound a b + 1) + 1 \<le> fuel"
  shows "\<exists>outs fm si. run_llm_loop fuel m workers (memory_ops a b) (memory_start b) (mb_size b) = Some (Inr (outs, fm, si)) \<and>
    length outs = length si \<and> length fm = length si \<and> mask_select fm si = [0..<mb_size b] \<and>
    (\<forall>(response, pass_used)\<in>set outs. 1 \<le> pass_used \<and> pass_used \<le> max (max_passes (ag_config a)) 1)"
  unfolding case_prod_beta
proof (rule memory.run_ok [OF assms(3)])
  show "memory_good a b (memory_start b)" using assms(1,2) by (simp add: memory_good_def start_inv)
  show "\<not> ra_done (memory_ops a b) (memory_start b)" by (simp add: memory_ops_def memory_done_def memory_start_def)
  show "memory_turns (memory_start b) = 0" by (simp add: memory_turns_def memory_start_def)
  show "agent_rank a b (memory_start b) \<le> fuel" using assms(4) by (simp add: start_rank pass_bound_def)
qed


definition sample_config :: memory_config where
  "sample_config = \<lparr>max_prompt_length = 4, chunk_size = 2, max_memorization_length = 3, max_chunks = 2,
     max_final_response_length = 3, max_passes = 2, max_merge_length = 3, chunk_parallelism_per_sample = 0,
     no_new_info_marker = ''<check>no</check>''\<rparr>"

definition sample_agent :: memory_agent where
  "sample_agent = \<lparr>ag_config = sample_config, ag_tok = char_tokenizer, ag_chat = chat_template char_tokenizer False,
     ag_max_chunk_input = 9, ag_max_merge_input = 9, ag_max_final_input = 9, ag_max_input = 9\<rparr>"

definition sample_memory_batch :: memory_batch where
  "sample_memory_batch = \<lparr>mb_ids = [[65, 66, 67, 68], [65, - 1, - 1, - 1]], mb_len = [4, 1], mb_prompt = [''p'', ''q'']\<rparr>"

lemma sample_chat_ok: "chat_ok sample_agent"
proof -
  have "py_format [''message'' \<mapsto> c] (chat_template char_tokenizer False) = Inr (''user: '' @ c)" for c
  proof -
    have "list_all (seg_ok [''message'' \<mapsto> c]) [Text ''user: '', Field ''message'']"
      by (simp add: no_brace_def open_brace_def close_brace_def fmt_name_def fmt_unsupported_def py_isdigit_def)
    from py_format_segs [OF this] show ?thesis
      by (simp add: chat_template_def char_tokenizer_def fmt_field_def)
  qed
  then show ?thesis by (simp add: chat_ok_def sample_agent_def)
qed

theorem memory_run_terminates_witness:
  "\<exists>outs fm si. run_llm_loop 7 sample_manager (\<lambda>meta rows. Inr (map (\<lambda>r. [72]) rows)) (memory_ops sample_agent sample_memory_batch)
      (memory_start sample_memory_batch) (mb_size sample_memory_batch) = Some (Inr (outs, fm, si)) \<and>
    length outs = length si \<and> length fm = length si \<and> mask_select fm si = [0..<mb_size sample_memory_batch] \<and>
    (\<forall>(response, pass_used)\<in>set outs. 1 \<le> pass_used \<and> pass_used \<le> max (max_passes (ag_config sample_agent)) 1)"
proof (rule memory_run_terminates [OF sample_chat_ok])
  show "batch_ok sample_agent sample_memory_batch"
    by (simp add: batch_ok_def sample_agent_def sample_config_def sample_memory_batch_def)
  show "workers_ok (ag_max_input sample_agent) sample_manager (\<lambda>meta rows. Inr (map (\<lambda>r. [72]) rows))"
    by (simp add: workers_ok_def sample_agent_def sample_manager_def)
  show "nat (max (max_passes (ag_config sample_agent)) 1) * (chunk_bound sample_agent sample_memory_batch + 1) + 1 \<le> 7"
    by (simp add: chunk_bound_def sample_agent_def sample_config_def sample_memory_batch_def)
qed

end
