(* ===== verification/Sampling.thy ===== *)
theory Sampling
  imports TensorUtils Complex_Main "HOL-Library.AList"
begin

text \<open>
  The parts of \<open>recurrent/interface.py\<close> and \<open>recurrent/async_utils.py\<close> that the asynchronous agents
  share: sampling parameters, reduced timings and metrics, and the adapter from chat-completion
  requests to the token interface of the language-model client. The client is third-party: a
  function from a request to its output or exception. Floats are rationals.
\<close>

section \<open>Keyword arguments\<close>

datatype kwarg =
    KInt int
  | KNum rat
  | KText string
  | KTexts "string list"
  | KMessages "(string \<times> string) list"
  | KHeaders "(string \<times> string) list"
  | KNone

type_synonym kwargs = "(string \<times> kwarg) list"

text \<open>\<open>d.update(new)\<close>.\<close>

definition dict_update :: "(string \<times> 'a) list \<Rightarrow> (string \<times> 'a) list \<Rightarrow> (string \<times> 'a) list" where
  "dict_update d new = fold (\<lambda>(k, v) acc. AList.update k v acc) new d"

section \<open>Sampling parameters\<close>

record rollout_config =
  rc_temperature :: rat
  rc_top_p :: rat
  rc_val_top_p :: rat
  rc_val_temperature :: rat

definition sampling_params :: "rollout_config \<Rightarrow> bool option \<Rightarrow> bool option \<Rightarrow> kwargs" where
  "sampling_params cfg meta_do_sample meta_validate =
     (let kwargs = [(''n'', KInt 1), (''temperature'', KNum (rc_temperature cfg)), (''top_p'', KNum (rc_top_p cfg))];
          do_sample = (case meta_do_sample of None \<Rightarrow> True | Some b \<Rightarrow> b);
          is_validate = (case meta_validate of None \<Rightarrow> False | Some b \<Rightarrow> b)
      in if \<not> do_sample
         then dict_update kwargs [(''best_of'', KInt 1), (''top_p'', KNum 1), (''min_p'', KNum 0),
                                  (''temperature'', KNum 0), (''n'', KInt 1)]
         else if is_validate
         then dict_update kwargs [(''top_p'', KNum (rc_val_top_p cfg)), (''temperature'', KNum (rc_val_temperature cfg)),
                                  (''n'', KInt 1)]
         else kwargs)"

section \<open>Reduced timings and metrics\<close>

definition get_key :: "string \<Rightarrow> (string \<times> 'a) list \<Rightarrow> 'a res" where
  "get_key k d = (case map_of d k of None \<Rightarrow> Inl KeyError | Some v \<Rightarrow> Inr v)"

text \<open>An awaited time is averaged over the agents, a sequential one is summed.\<close>

definition reduce_timings :: "(string \<times> rat) list list \<Rightarrow> (string \<times> rat) list res" where
  "reduce_timings timing_raws =
     (case timing_raws of
        [] \<Rightarrow> Inl IndexError
      | t # _ \<Rightarrow>
          map_res (\<lambda>k. bind_res (map_res (get_key k) timing_raws)
            (\<lambda>ts. Inr (k, if py_in ''async'' k then sum_list ts / of_nat (length timing_raws) else sum_list ts)))
            (map fst t))"

definition reduce_metrics :: "(string \<times> rat) list list \<Rightarrow> (string \<times> rat) list res" where
  "reduce_metrics metrics =
     (case metrics of
        [] \<Rightarrow> Inl IndexError
      | m # _ \<Rightarrow>
          bind_res (map_res (\<lambda>k. bind_res (map_res (get_key k) metrics)
            (\<lambda>vs. Inr [(k @ ''_mean'', sum_list vs / of_nat (length vs)), (k @ ''_min'', Min (set vs)), (k @ ''_max'', Max (set vs))]))
            (map fst m))
            (\<lambda>groups. Inr (fold (\<lambda>g acc. dict_update acc g) groups [])))"

section \<open>The chat-completion adapter\<close>

record proxy =
  px_tok :: tokenizer
  px_model_name :: string
  px_chat_ids :: "(string \<times> string) list \<Rightarrow> int list"

text \<open>What the client is asked, and what it answers.\<close>

record client_request =
  cr_request_id :: string
  cr_prompt_ids :: "int list"
  cr_sampling :: kwargs

record client_output =
  co_token_ids :: "int list"
  co_stop_reason :: string

record completions =
  cp_id :: string
  cp_model :: string
  cp_choice :: choice

text \<open>\<open>d.pop(k)\<close> into the sampling parameters, under another name, if the key is there.\<close>

definition move_key :: "string \<Rightarrow> string \<Rightarrow> kwargs \<times> kwargs \<Rightarrow> kwargs \<times> kwargs" where
  "move_key k k' s =
     (case map_of (fst s) k of
        None \<Rightarrow> s
      | Some v \<Rightarrow> (AList.delete k (fst s), AList.update k' v (snd s)))"

definition request_id_of :: "kwargs \<Rightarrow> string \<Rightarrow> string" where
  "request_id_of req fresh =
     (let header = (case map_of req ''extra_headers'' of
                      Some (KHeaders h) \<Rightarrow> (case map_of h ''x-request-id'' of None \<Rightarrow> [] | Some r \<Rightarrow> r)
                    | _ \<Rightarrow> []);
          rid = (if header \<noteq> [] \<and> py_startswith header ''chatcmpl-'' then drop 9 header else header)
      in if rid = [] then fresh else rid)"

definition is_one :: "kwarg option \<Rightarrow> bool" where
  "is_one v = (case v of None \<Rightarrow> True | Some (KInt i) \<Rightarrow> i = 1 | Some (KNum q) \<Rightarrow> q = 1 | Some _ \<Rightarrow> False)"

text \<open>
  The request the proxy sends, or the exception it catches before sending: the messages must be
  there, and more than one completion is not supported. \<open>fresh\<close> is the random identifier. Keys the
  proxy does not know stay behind.
\<close>

definition proxy_request :: "proxy \<Rightarrow> string \<Rightarrow> kwargs \<Rightarrow> client_request res" where
  "proxy_request p fresh req =
     (let rid = request_id_of req fresh;
          req1 = AList.delete ''extra_headers'' req
      in case map_of req1 ''messages'' of
           Some (KMessages messages) \<Rightarrow>
             (let req2 = AList.delete ''messages'' req1;
                  s1 = move_key ''max_completion_tokens'' ''max_tokens'' (req2, []);
                  s2 = move_key ''max_tokens'' ''max_tokens'' s1;
                  s3 = move_key ''max_new_tokens'' ''max_new_tokens'' s2;
                  (rest, params) = fold (\<lambda>k. move_key k k)
                    [''temperature'', ''top_p'', ''top_k'', ''min_p'', ''stop'', ''logprobs''] s3
              in if \<not> is_one (map_of rest ''best_of'') then Inl NotImplementedError
                 else if \<not> is_one (map_of rest ''n'') then Inl NotImplementedError
                 else Inr \<lparr>cr_request_id = rid, cr_prompt_ids = px_chat_ids p messages, cr_sampling = params\<rparr>)
         | None \<Rightarrow> Inl KeyError
         | Some _ \<Rightarrow> Inl TypeError)"

text \<open>
  \<open>get_chat_completions\<close>: every exception, also the client's, is caught and returned as the second
  component, here \<open>Inl\<close>. \<open>model\<close> is the model asked for.
\<close>

definition get_chat_completions ::
  "proxy \<Rightarrow> (client_request \<Rightarrow> client_output res) \<Rightarrow> string \<Rightarrow> string option \<Rightarrow> kwargs \<Rightarrow> completions res" where
  "get_chat_completions p client fresh model req =
     bind_res (proxy_request p fresh req)
       (\<lambda>cr. bind_res (client cr)
         (\<lambda>out. Inr \<lparr>cp_id = ''chatcmpl-'' @ cr_request_id cr,
                     cp_model = (case model of Some m \<Rightarrow> if m = [] then px_model_name p else m | None \<Rightarrow> px_model_name p),
                     cp_choice = \<lparr>ch_role = ''assistant'', ch_content = tok_decode (px_tok p) True (co_token_ids out),
                                  ch_finish = (if co_stop_reason out = ''completed'' then ''stop'' else co_stop_reason out),
                                  ch_stop = None\<rparr>\<rparr>))"

section \<open>Correctness\<close>

lemma map_of_update: "map_of (AList.update k v d) k' = (if k' = k then Some v else map_of d k')"
  by (simp add: update_conv')

lemma map_of_delete: "map_of (AList.delete k d) k' = (if k' = k then None else map_of d k')"
  by (simp add: delete_conv')

lemma map_of_move_key:
  "map_of (fst (move_key k k' s)) j = (if j = k then None else map_of (fst s) j)"
  "map_of (snd (move_key k k' s)) j =
    (if j = k' \<and> map_of (fst s) k \<noteq> None then map_of (fst s) k else map_of (snd s) j)"
  by (auto simp: move_key_def map_of_update map_of_delete split: option.split)

lemma map_of_move_keys:
  "distinct ks \<Longrightarrow> map_of (fst (fold (\<lambda>k. move_key k k) ks s)) j = (if j \<in> set ks then None else map_of (fst s) j)"
  "distinct ks \<Longrightarrow> map_of (snd (fold (\<lambda>k. move_key k k) ks s)) j =
    (if j \<in> set ks \<and> map_of (fst s) j \<noteq> None then map_of (fst s) j else map_of (snd s) j)"
  by (induction ks arbitrary: s) (auto simp: map_of_move_key)

text \<open>The adapter's request: for a request with messages that asks for one completion, the client
  gets the ids of the chat, \<open>max_tokens\<close> from the request's own \<open>max_tokens\<close> or else its
  \<open>max_completion_tokens\<close>, and temperature, top-p, top-k, min-p, stop and logprobs exactly as asked;
  no other parameter reaches it.\<close>

theorem proxy_request_params:
  assumes "map_of req ''messages'' = Some (KMessages ms)" "map_of req ''n'' \<in> {None, Some (KInt 1)}"
    and "map_of req ''best_of'' \<in> {None, Some (KInt 1)}"
  shows "\<exists>cr. proxy_request p fresh req = Inr cr \<and> cr_prompt_ids cr = px_chat_ids p ms \<and>
    (\<forall>k. map_of (cr_sampling cr) k =
      (if k = ''max_tokens'' then (case map_of req ''max_tokens'' of None \<Rightarrow> map_of req ''max_completion_tokens'' | v \<Rightarrow> v)
       else if k \<in> {''max_new_tokens'', ''temperature'', ''top_p'', ''top_k'', ''min_p'', ''stop'', ''logprobs''}
       then map_of req k else None))"
proof -
  define s3 where "s3 = move_key ''max_new_tokens'' ''max_new_tokens'' (move_key ''max_tokens'' ''max_tokens''
    (move_key ''max_completion_tokens'' ''max_tokens'' (AList.delete ''messages'' (AList.delete ''extra_headers'' req), [])))"
  let ?keys = "[''temperature'', ''top_p'', ''top_k'', ''min_p'', ''stop'', ''logprobs'']"
  define s where "s = fold (\<lambda>k. move_key k k) ?keys s3"
  have left: "map_of (fst s3) k = (if k \<in> {''max_tokens'', ''max_new_tokens'', ''max_completion_tokens'', ''messages'', ''extra_headers''}
      then None else map_of req k)" for k
    by (simp add: s3_def map_of_move_key map_of_delete)
  have moved: "map_of (snd s3) k =
      (if k = ''max_tokens'' then (case map_of req ''max_tokens'' of None \<Rightarrow> map_of req ''max_completion_tokens'' | v \<Rightarrow> v)
       else if k = ''max_new_tokens'' then map_of req k else None)" for k
    by (simp add: s3_def map_of_move_key map_of_delete split: option.split)
  have dist: "distinct ?keys" by simp
  have rest: "map_of (fst s) k = (if k \<in> set ?keys then None else map_of (fst s3) k)" for k
    unfolding s_def by (rule map_of_move_keys(1) [OF dist])
  have params: "map_of (snd s) k = (if k \<in> set ?keys \<and> map_of (fst s3) k \<noteq> None then map_of (fst s3) k else map_of (snd s3) k)" for k
    unfolding s_def by (rule map_of_move_keys(2) [OF dist])
  have n: "is_one (map_of (fst s) ''n'')" "is_one (map_of (fst s) ''best_of'')"
    using assms(2,3) by (auto simp: rest left is_one_def)
  have "map_of (AList.delete ''extra_headers'' req) ''messages'' = Some (KMessages ms)"
    using assms(1) by (simp add: map_of_delete)
  then have "proxy_request p fresh req =
      Inr \<lparr>cr_request_id = request_id_of req fresh, cr_prompt_ids = px_chat_ids p ms, cr_sampling = snd s\<rparr>"
    using n unfolding proxy_request_def Let_def s3_def [symmetric] s_def [symmetric] by (simp add: split_def)
  moreover have "map_of (snd s) k =
      (if k = ''max_tokens'' then (case map_of req ''max_tokens'' of None \<Rightarrow> map_of req ''max_completion_tokens'' | v \<Rightarrow> v)
       else if k \<in> {''max_new_tokens'', ''temperature'', ''top_p'', ''top_k'', ''min_p'', ''stop'', ''logprobs''}
       then map_of req k else None)" for k
  proof (cases "k \<in> set ?keys")
    case True
    then have "k \<noteq> ''max_tokens''" "map_of (fst s3) k = map_of req k" "map_of (snd s3) k = None"
      unfolding left moved by auto
    then show ?thesis using True unfolding params by auto
  next
    case False
    then show ?thesis unfolding params moved by auto
  qed
  ultimately show ?thesis by simp
qed

theorem proxy_request_params_witness:
  "\<exists>cr. proxy_request \<lparr>px_tok = char_tokenizer, px_model_name = ''recurrent'', px_chat_ids = (\<lambda>ms. [1, 2])\<rparr> ''id''
      [(''messages'', KMessages [(''user'', ''hi'')]), (''n'', KInt 1), (''max_completion_tokens'', KInt 7)] = Inr cr \<and>
    cr_prompt_ids cr = [1, 2] \<and> map_of (cr_sampling cr) ''max_tokens'' = Some (KInt 7)"
  using proxy_request_params [of "[(''messages'', KMessages [(''user'', ''hi'')]), (''n'', KInt 1), (''max_completion_tokens'', KInt 7)]"
      "[(''user'', ''hi'')]" "\<lparr>px_tok = char_tokenizer, px_model_name = ''recurrent'', px_chat_ids = (\<lambda>ms. [1, 2])\<rparr>" "''id''"]
  by auto

lemma sampling_params_greedy:
  "map_of (sampling_params cfg (Some False) v) ''temperature'' = Some (KNum 0) \<and>
   map_of (sampling_params cfg (Some False) v) ''n'' = Some (KInt 1) \<and>
   map_of (sampling_params cfg (Some False) v) ''best_of'' = Some (KInt 1)"
  by (simp add: sampling_params_def dict_update_def map_of_update)

lemma sampling_params_single:
  "map_of (sampling_params cfg d v) ''n'' = Some (KInt 1) \<and> map_of (sampling_params cfg d v) ''best_of'' \<in> {None, Some (KInt 1)}"
  by (auto simp: sampling_params_def dict_update_def map_of_update Let_def)

end
