(* ===== verification/AsyncMemory.thy ===== *)
theory AsyncMemory
  imports GenerationManager Sampling
begin

text \<open>
  The asynchronous memory agent of \<open>recurrent/impls/async_memory.py\<close>: one sample, several passes over
  its chunks with one request per chunk, a merge after each pass that found something, and a final
  answer. Requests are numbered in the order they are created; the language model is a function of
  the number, the text and the limit of a request to a completion or an exception, so replies may
  depend on anything but their own order of arrival, which the program does not observe. Timing and
  logging are left out.
\<close>

record async_item =
  ai_ids :: "int list"
  ai_len :: nat
  ai_prompt :: string
  ai_index :: nat

record llm_request =
  lr_content :: string
  lr_max_tokens :: int

type_synonym llm = "nat \<Rightarrow> llm_request \<Rightarrow> choice res"

text \<open>A conversation: the user's message and the reply.\<close>

type_synonym conversation = "string \<times> chat_message"

definition chunk_parallelism :: "memory_config \<Rightarrow> nat \<Rightarrow> nat res" where
  "chunk_parallelism cfg context_length =
     (if chunk_parallelism_per_sample cfg \<le> 0
      then bind_res (ceil_div (int context_length) (chunk_size cfg)) (\<lambda>n. Inr (nat (max 1 n)))
      else Inr (nat (chunk_parallelism_per_sample cfg)))"

definition chunk_request :: "memory_config \<Rightarrow> tokenizer \<Rightarrow> async_item \<Rightarrow> string \<Rightarrow> nat \<Rightarrow> llm_request res" where
  "chunk_request cfg tok item global_memory step =
     (let chunk_ids = filter (\<lambda>x. x \<noteq> tok_pad tok) (chunk_slice (chunk_size cfg) step (ai_ids item))
      in bind_res (py_format [''prompt'' \<mapsto> ai_prompt item, ''memory'' \<mapsto> global_memory,
                              ''chunk'' \<mapsto> tok_decode tok False chunk_ids] TEMPLATE_CHUNK)
           (\<lambda>content. Inr \<lparr>lr_content = content, lr_max_tokens = max_memorization_length cfg\<rparr>))"

text \<open>
  The requests of a pass go out in windows of \<open>par\<close>; a window is gathered before the next one
  starts, and the replies stay in the order of the requests.
\<close>

definition gather_chunks :: "llm \<Rightarrow> nat \<Rightarrow> nat \<Rightarrow> llm_request list \<Rightarrow> (llm_request \<times> choice res) list" where
  "gather_chunks llm first par requests =
     concat (map (map (\<lambda>(i, r). (r, llm i r))) (chunks_of par (zip [first..<first + length requests] requests)))"

text \<open>The loop over requests and replies, which stops at the first exception.\<close>

fun collect_replies :: "(llm_request \<times> choice res) list \<Rightarrow> conversation list res" where
  "collect_replies [] = Inr []"
| "collect_replies ((r, reply) # rest) =
     (case reply of
        Inl e \<Rightarrow> Inl e
      | Inr c \<Rightarrow> bind_res (collect_replies rest) (\<lambda>cs. Inr ((lr_content r, choice_msg c) # cs)))"

definition chunk_memory :: "memory_config \<Rightarrow> conversation \<Rightarrow> string option" where
  "chunk_memory cfg c =
     (let content = cm_content (snd c)
      in if py_in (py_lower (no_new_info_marker cfg)) (py_lower content) then None else Some content)"

text \<open>One request by itself: the merge of a pass, or the final answer.\<close>

definition ask :: "llm \<Rightarrow> nat \<Rightarrow> string \<Rightarrow> int \<Rightarrow> conversation res" where
  "ask llm n content limit =
     bind_res (llm n \<lparr>lr_content = content, lr_max_tokens = limit\<rparr>) (\<lambda>c. Inr (content, choice_msg c))"

text \<open>
  The loop over the passes, with the number of passes left, the passes done, the global memory, the
  conversations so far and the passes used; the next request has the number of the conversations
  so far.
\<close>

fun async_passes ::
  "llm \<Rightarrow> memory_config \<Rightarrow> tokenizer \<Rightarrow> async_item \<Rightarrow> nat \<Rightarrow> nat \<Rightarrow> nat \<Rightarrow> string \<Rightarrow> conversation list \<Rightarrow> nat \<Rightarrow>
   (string \<times> conversation list \<times> nat) res" where
  "async_passes llm cfg tok item par 0 pass_num global_memory convs used = Inr (global_memory, convs, used)"
| "async_passes llm cfg tok item par (Suc left) pass_num global_memory convs used =
     bind_res (ceil_div (int (ai_len item)) (chunk_size cfg)) (\<lambda>total_chunks.
     bind_res (map_res (chunk_request cfg tok item global_memory) [0..<nat total_chunks]) (\<lambda>requests.
     bind_res (collect_replies (gather_chunks llm (length convs) par requests)) (\<lambda>chunk_convs.
       let convs1 = convs @ chunk_convs;
           chunk_memories = map (chunk_memory cfg) chunk_convs
       in if list_all (\<lambda>m. m = None) chunk_memories then Inr (global_memory, convs1, pass_num + 1)
          else bind_res
            (py_format [''prompt'' \<mapsto> ai_prompt item,
                        ''memories'' \<mapsto> build_merge_memories (Some global_memory) (filter (\<lambda>m. m \<noteq> None) chunk_memories)]
               TEMPLATE_MERGE) (\<lambda>content.
            bind_res (ask llm (length convs1) content (max_merge_length cfg)) (\<lambda>merge_conv.
              async_passes llm cfg tok item par left (pass_num + 1) (py_strip (cm_content (snd merge_conv)))
                (convs1 @ [merge_conv]) (pass_num + 1))))))"

record async_output =
  ao_conversations :: "conversation list"
  ao_sample_index :: "nat list"
  ao_final_mask :: "bool list"
  ao_pass_used :: "nat list"

text \<open>The progress line of sample 0 counts the chunks before the first pass.\<close>

definition async_rollout :: "llm \<Rightarrow> memory_config \<Rightarrow> tokenizer \<Rightarrow> async_item \<Rightarrow> async_output res" where
  "async_rollout llm cfg tok item =
     bind_res (chunk_parallelism cfg (ai_len item)) (\<lambda>par.
     bind_res (if ai_index item = 0 then ceil_div (int (ai_len item)) (chunk_size cfg) else Inr 0) (\<lambda>_.
     bind_res (async_passes llm cfg tok item par (nat (max_passes cfg)) 0 NO_MEMORY [] 1)
       (\<lambda>(global_memory, convs, used).
     bind_res (py_format [''prompt'' \<mapsto> ai_prompt item, ''memory'' \<mapsto> global_memory] TEMPLATE_FINAL_BOXED) (\<lambda>content.
     bind_res (ask llm (length convs) content (max_final_response_length cfg)) (\<lambda>final_conv.
       let conversations = convs @ [final_conv]; n = length conversations
       in Inr \<lparr>ao_conversations = conversations, ao_sample_index = replicate n (ai_index item),
               ao_final_mask = (replicate n False)[n - 1 := True], ao_pass_used = replicate n used\<rparr>)))))"

section \<open>Windows do not matter\<close>

lemma concat_map_map: "concat (map (map f) xss) = map f (concat xss)"
  by (induction xss) auto

lemma gather_chunks_windows:
  "0 < par \<Longrightarrow> gather_chunks llm n par rs = map (\<lambda>(i, r). (r, llm i r)) (zip [n..<n + length rs] rs)"
  by (simp add: gather_chunks_def concat_map_map concat_chunks_of)

lemma async_passes_par:
  "0 < par \<Longrightarrow> 0 < par' \<Longrightarrow>
    async_passes llm cfg tok item par k p g cs u = async_passes llm cfg tok item par' k p g cs u"
proof (induction k arbitrary: p g cs u)
  case (Suc k)
  show ?case
    by (simp add: gather_chunks_windows Suc.prems Suc.IH [OF Suc.prems] Let_def cong: if_cong)
qed simp

text \<open>C5. The concurrency limit is only about load: two configurations that differ in the number of
  chunk requests in flight give the same result, with the same conversations in the same order.\<close>

theorem async_parallelism_irrelevant:
  assumes "0 < chunk_size cfg"
  shows "async_rollout llm (cfg\<lparr>chunk_parallelism_per_sample := k\<rparr>) tok item = async_rollout llm cfg tok item"
proof -
  have par: "\<exists>par. chunk_parallelism (cfg\<lparr>chunk_parallelism_per_sample := j\<rparr>) n = Inr par \<and> 0 < par" for j n
    using assms by (auto simp: chunk_parallelism_def ceil_div_def)
  obtain p q where p: "chunk_parallelism (cfg\<lparr>chunk_parallelism_per_sample := k\<rparr>) (ai_len item) = Inr p" "0 < p"
    and q: "chunk_parallelism cfg (ai_len item) = Inr q" "0 < q"
    using par [of k "ai_len item"] par [of "chunk_parallelism_per_sample cfg" "ai_len item"] by auto
  have "async_passes llm (cfg\<lparr>chunk_parallelism_per_sample := k\<rparr>) tok item par left pn g cs u =
    async_passes llm cfg tok item par left pn g cs u" for par left pn g cs u
  proof (induction left arbitrary: pn g cs u)
    case (Suc left)
    have "chunk_request (cfg\<lparr>chunk_parallelism_per_sample := k\<rparr>) tok item g = chunk_request cfg tok item g" for g
      by (rule ext) (simp add: chunk_request_def)
    moreover have "chunk_memory (cfg\<lparr>chunk_parallelism_per_sample := k\<rparr>) = chunk_memory cfg"
      by (rule ext) (simp add: chunk_memory_def)
    ultimately show ?case by (simp add: Suc Let_def cong: if_cong)
  qed simp
  then show ?thesis
    using p q async_passes_par [OF p(2) q(2)] by (simp add: async_rollout_def)
qed

theorem async_parallelism_irrelevant_witness:
  "async_rollout (\<lambda>i r. Inr \<lparr>ch_role = ''assistant'', ch_content = ''ok'', ch_finish = ''stop'', ch_stop = None\<rparr>)
     (sample_config\<lparr>chunk_parallelism_per_sample := 1\<rparr>) char_tokenizer \<lparr>ai_ids = [65, 66, 67], ai_len = 3, ai_prompt = ''p'', ai_index = 0\<rparr> =
   async_rollout (\<lambda>i r. Inr \<lparr>ch_role = ''assistant'', ch_content = ''ok'', ch_finish = ''stop'', ch_stop = None\<rparr>)
     sample_config char_tokenizer \<lparr>ai_ids = [65, 66, 67], ai_len = 3, ai_prompt = ''p'', ai_index = 0\<rparr>"
  by (rule async_parallelism_irrelevant) (simp add: sample_config_def)

section \<open>Bounds\<close>

lemma collect_replies_total:
  "(\<And>i r. \<exists>c. llm i r = Inr c) \<Longrightarrow>
    \<exists>cs. collect_replies (map (\<lambda>(i, r). (r, llm i r)) (zip js rs)) = Inr cs \<and> length cs = min (length js) (length rs)"
proof (induction rs arbitrary: js)
  case (Cons r rs)
  show ?case
  proof (cases js)
    case (Cons i js')
    obtain c where "llm i r = Inr c" using Cons.prems by blast
    then show ?thesis using Cons.IH [OF Cons.prems, of js'] \<open>js = i # js'\<close> by auto
  qed simp
qed simp

lemma chunk_requests_total: "\<exists>rs. map_res (chunk_request cfg tok item g) xs = Inr rs \<and> length rs = length xs"
proof (rule map_res_total)
  fix step
  obtain s where "py_format [''prompt'' \<mapsto> ai_prompt item, ''memory'' \<mapsto> g,
      ''chunk'' \<mapsto> tok_decode tok False (filter (\<lambda>x. x \<noteq> tok_pad tok) (chunk_slice (chunk_size cfg) step (ai_ids item)))] TEMPLATE_CHUNK = Inr s"
    using template_chunk_format by blast
  then show "\<exists>r. chunk_request cfg tok item g step = Inr r" by (simp add: chunk_request_def)
qed

lemma ask_total: "(\<And>i r. \<exists>c. llm i r = Inr c) \<Longrightarrow> \<exists>c. ask llm n content limit = Inr c"
  by (metis ask_def bind_res_Inr)

lemma async_passes_total:
  assumes "\<And>i r. \<exists>c. llm i r = Inr c" "0 < par" "ceil_div (int (ai_len item)) (chunk_size cfg) = Inr t"
  shows "\<exists>g' cs' u'. async_passes llm cfg tok item par k p g cs u = Inr (g', cs', u') \<and>
    length cs' \<le> length cs + k * (nat t + 1) \<and> (u' = u \<and> k = 0 \<or> p < u' \<and> u' \<le> p + k)"
proof (induction k arbitrary: p g cs u)
  case (Suc k)
  obtain rs where rs: "map_res (chunk_request cfg tok item g) [0..<nat t] = Inr rs" "length rs = nat t"
    using chunk_requests_total [of cfg tok item g "[0..<nat t]"] by auto
  obtain ccs where ccs: "collect_replies (gather_chunks llm (length cs) par rs) = Inr ccs" "length ccs = nat t"
    using collect_replies_total [where llm = llm and js = "[length cs..<length cs + length rs]" and rs = rs, OF assms(1)] rs(2)
    by (auto simp: gather_chunks_windows [OF assms(2)])
  show ?case
  proof (cases "list_all (\<lambda>m. m = None) (map (chunk_memory cfg) ccs)")
    case True
    then show ?thesis using assms(3) rs ccs by (simp add: Let_def)
  next
    case False
    obtain content where content: "py_format [''prompt'' \<mapsto> ai_prompt item,
        ''memories'' \<mapsto> build_merge_memories (Some g) (filter (\<lambda>m. m \<noteq> None) (map (chunk_memory cfg) ccs))] TEMPLATE_MERGE = Inr content"
      using template_merge_format by blast
    obtain c where c: "ask llm (length (cs @ ccs)) content (max_merge_length cfg) = Inr c"
      using ask_total [where llm = llm, OF assms(1)] by blast
    obtain g' cs' u' where ih: "async_passes llm cfg tok item par k (p + 1) (py_strip (cm_content (snd c))) ((cs @ ccs) @ [c]) (p + 1) =
        Inr (g', cs', u')" "length cs' \<le> length ((cs @ ccs) @ [c]) + k * (nat t + 1)"
      "u' = p + 1 \<and> k = 0 \<or> p + 1 < u' \<and> u' \<le> p + 1 + k"
      using Suc.IH [of "p + 1" "py_strip (cm_content (snd c))" "(cs @ ccs) @ [c]" "p + 1"] by blast
    have "async_passes llm cfg tok item par (Suc k) p g cs u = Inr (g', cs', u')"
      unfolding async_passes.simps assms(3) bind_res_Inr rs(1) ccs(1) Let_def if_not_P [OF False] content c ih(1) ..
    then show ?thesis using ih(2,3) ccs(2) by auto
  qed
qed simp

text \<open>C6. A rollout whose requests are all answered returns, after at most
  \<open>max_passes * (chunks + 1) + 1\<close> requests; its outputs have one entry per conversation, only the last
  conversation is final, and the passes used are between 1 and the number of passes.\<close>

theorem async_rollout_returns:
  assumes "\<And>i r. \<exists>c. llm i r = Inr c" "0 < chunk_size cfg"
  shows "\<exists>out n u. async_rollout llm cfg tok item = Inr out \<and> n = length (ao_conversations out) \<and> 0 < n \<and>
    int n \<le> max (max_passes cfg) 0 * (\<lceil>rat_of_int (int (ai_len item)) / rat_of_int (int (chunk_size cfg))\<rceil> + 1) + 1 \<and>
    ao_final_mask out = replicate (n - 1) False @ [True] \<and> ao_sample_index out = replicate n (ai_index item) \<and>
    ao_pass_used out = replicate n u \<and> 1 \<le> u \<and> int u \<le> max (max_passes cfg) 1"
proof -
  obtain t where t: "ceil_div (int (ai_len item)) (chunk_size cfg) = Inr t" using assms(2) by (simp add: ceil_div_def)
  obtain par where par: "chunk_parallelism cfg (ai_len item) = Inr par" "0 < par"
    using t by (cases "chunk_parallelism_per_sample cfg \<le> 0") (auto simp: chunk_parallelism_def)
  obtain g cs u where p: "async_passes llm cfg tok item par (nat (max_passes cfg)) 0 NO_MEMORY [] 1 = Inr (g, cs, u)"
    "length cs \<le> nat (max_passes cfg) * (nat t + 1)" "u = 1 \<and> nat (max_passes cfg) = 0 \<or> 0 < u \<and> u \<le> nat (max_passes cfg)"
    using async_passes_total [where llm = llm and tok = tok and k = "nat (max_passes cfg)" and p = 0 and g = NO_MEMORY
        and cs = "[]" and u = 1, OF assms(1) par(2) t] by auto
  obtain content where content: "py_format [''prompt'' \<mapsto> ai_prompt item, ''memory'' \<mapsto> g] TEMPLATE_FINAL_BOXED = Inr content"
    using template_final_boxed_format by blast
  obtain c where c: "ask llm (length cs) content (max_final_response_length cfg) = Inr c"
    using ask_total [where llm = llm, OF assms(1)] by blast
  define out where "out = \<lparr>ao_conversations = cs @ [c], ao_sample_index = replicate (length cs + 1) (ai_index item),
    ao_final_mask = (replicate (length cs + 1) False)[length cs + 1 - 1 := True], ao_pass_used = replicate (length cs + 1) u\<rparr>"
  have "async_rollout llm cfg tok item = Inr out"
    using par(1) t p(1) content c by (simp add: async_rollout_def out_def Let_def)
  moreover have "(replicate (length cs + 1) False)[length cs + 1 - 1 := True] = replicate (length cs) False @ [True]"
    by (simp add: replicate_append_same [symmetric] list_update_append)
  moreover have "int (length cs) \<le> max (max_passes cfg) 0 * (t + 1)"
  proof -
    have "int (ai_len item) \<le> t * int (chunk_size cfg)" using ceil_div_bounds [OF t] by blast
    then have "0 \<le> t * int (chunk_size cfg)" by linarith
    then have "0 \<le> t" using assms(2) by (simp add: zero_le_mult_iff)
    then have "int (nat (max_passes cfg) * (nat t + 1)) = max (max_passes cfg) 0 * (t + 1)"
      by (cases "0 \<le> max_passes cfg") (simp_all add: algebra_simps)
    then show ?thesis using p(2) by linarith
  qed
  moreover have "t = \<lceil>rat_of_int (int (ai_len item)) / rat_of_int (int (chunk_size cfg))\<rceil>" using ceil_div_bounds [OF t] by blast
  ultimately show ?thesis using p(3)
    by (intro exI [of _ out] exI [of _ "length cs + 1"] exI [of _ u]) (auto simp: out_def)
qed


theorem async_rollout_returns_witness:
  "\<exists>out n u. async_rollout (\<lambda>i r. Inr \<lparr>ch_role = ''assistant'', ch_content = ''ok'', ch_finish = ''stop'', ch_stop = None\<rparr>)
      sample_config char_tokenizer \<lparr>ai_ids = [65, 66, 67], ai_len = 3, ai_prompt = ''p'', ai_index = 4\<rparr> = Inr out \<and>
    n = length (ao_conversations out) \<and> 0 < n \<and> int n \<le> max (max_passes sample_config) 0 * (\<lceil>rat_of_int (int 3) / rat_of_int (int (chunk_size sample_config))\<rceil> + 1) + 1 \<and>
    ao_final_mask out = replicate (n - 1) False @ [True] \<and> ao_sample_index out = replicate n 4 \<and>
    ao_pass_used out = replicate n u \<and> 1 \<le> u \<and> int u \<le> max (max_passes sample_config) 1"
  using async_rollout_returns [of "\<lambda>i r. Inr \<lparr>ch_role = ''assistant'', ch_content = ''ok'', ch_finish = ''stop'', ch_stop = None\<rparr>"
      sample_config char_tokenizer "\<lparr>ai_ids = [65, 66, 67], ai_len = 3, ai_prompt = ''p'', ai_index = 4\<rparr>"]
  by (simp add: sample_config_def)

end
