(* ===== verification/AsyncGeneration.thy ===== *)
theory AsyncGeneration
  imports AsyncMemory
begin

text \<open>
  The asynchronous generation manager (\<open>recurrent/async_generation_manager.py\<close>): it turns the
  conversations of all samples into one padded batch for training. The chat template of the
  tokenizer is third-party; here it is the identifiers it gives for a prompt, for a response, and
  the mask of the assistant's tokens, if it supplies one.
\<close>

type_synonym message = "string \<times> string"

record chat_tokenizer =
  ct_prompt :: "message list \<Rightarrow> int list"
  ct_response :: "message list \<Rightarrow> int list"
  ct_assistant_mask :: "message list \<Rightarrow> int list option"
  ct_pad :: int

definition starting_msg :: "message list" where
  "starting_msg = [(''user'', ''padding'')]"

text \<open>\<open>self.starting\<close> of the constructor.\<close>

definition starting_ids :: "chat_tokenizer \<Rightarrow> int list" where
  "starting_ids ct = ct_prompt ct starting_msg"

section \<open>Tokenizing the conversations of a sample\<close>

definition get_prompt_and_response :: "message list \<Rightarrow> (message list \<times> message list) res" where
  "get_prompt_and_response conv =
     bind_res (py_get conv 0)
       (\<lambda>(role, content).
          let n = (if role = ''system'' then 2 else 1)
          in py_assert (drop n conv \<noteq> []) (Inr (take n conv, starting_msg @ drop n conv)))"

record sample_output =
  so_prompts :: "int list list"
  so_responses :: "int list list"
  so_response_mask :: "int list list"

text \<open>
  The assistant masks of the template, or all tokens behind the starting prefix when the template
  gives no mask or only empty ones.
\<close>

definition response_masks :: "chat_tokenizer \<Rightarrow> message list list \<Rightarrow> int list list" where
  "response_masks ct rs =
     (let masks = map (ct_assistant_mask ct) rs
      in if None \<notin> set masks \<and> (\<exists>m\<in>set masks. \<exists>x\<in>set (the m). x \<noteq> 0)
         then map the masks
         else map (\<lambda>r. let n = length (ct_response ct r); k = min n (length (starting_ids ct))
                       in replicate k 0 @ replicate (n - k) 1) rs)"

definition tokenize_output :: "chat_tokenizer \<Rightarrow> message list list \<Rightarrow> sample_output res" where
  "tokenize_output ct conversations =
     bind_res (map_res get_prompt_and_response conversations)
       (\<lambda>p_r. Inr \<lparr>so_prompts = map (\<lambda>(p, r). ct_prompt ct p) p_r,
                  so_responses = map (\<lambda>(p, r). ct_response ct r) p_r,
                  so_response_mask = response_masks ct (map snd p_r)\<rparr>)"

section \<open>One batch from all samples\<close>

record train_batch =
  tb_prompts :: "int list list"
  tb_responses :: "int list list"
  tb_input_ids :: "int list list"
  tb_attention_mask :: "int list list"
  tb_position_ids :: "int list list"
  tb_response_mask :: "int list list"

definition mask_ints :: "bool list list \<Rightarrow> int list list" where
  "mask_ints = map (map of_bool)"

text \<open>
  The assertion looks at the first response of the first sample only. The response columns lose the
  starting prefix after the padding.
\<close>

definition concat_output :: "chat_tokenizer \<Rightarrow> sample_output list \<Rightarrow> train_batch res" where
  "concat_output ct batch_list =
     bind_res (py_get batch_list 0) (\<lambda>b.
     bind_res (py_get (so_responses b) 0) (\<lambda>r0.
       let n0 = length (starting_ids ct)
       in py_assert (take n0 r0 = starting_ids ct)
         (bind_res (pad_tensor_list_with_mask (concat (map so_prompts batch_list)) (ct_pad ct) None True) (\<lambda>(prompt_ids, prompt_mask).
          bind_res (pad_tensor_list_with_mask (concat (map so_responses batch_list)) (ct_pad ct) None False) (\<lambda>(resp_ids, resp_mask).
          bind_res (pad_tensor_list_to_length (concat (map so_response_mask batch_list)) 0 None False) (\<lambda>response_mask.
            let resp_ids' = map (drop n0) resp_ids;
                attention = map2 (@) (mask_ints prompt_mask) (mask_ints (map (drop n0) resp_mask))
            in Inr \<lparr>tb_prompts = prompt_ids, tb_responses = resp_ids', tb_input_ids = map2 (@) prompt_ids resp_ids',
                    tb_attention_mask = attention, tb_position_ids = create_position_ids attention,
                    tb_response_mask = map (drop n0) response_mask\<rparr>))))))"

text \<open>
  The loop over a batch of samples: the rollouts' outputs in the order of the samples, and the
  assertion that every sample has one final turn. \<open>outs\<close> are the results of the rollouts with the
  conversations as messages.
\<close>

record async_result =
  ar_conversations :: "message list list"
  ar_sample_index :: "nat list"
  ar_final_mask :: "bool list"

definition async_run_llm_loop ::
  "chat_tokenizer \<Rightarrow> ('item \<Rightarrow> async_result res) \<Rightarrow> 'item list \<Rightarrow> (train_batch \<times> bool list \<times> nat list) res" where
  "async_run_llm_loop ct rollout gen_batch =
     bind_res (map_res (\<lambda>item. bind_res (rollout item)
         (\<lambda>o'. bind_res (tokenize_output ct (ar_conversations o')) (\<lambda>b. Inr (o', b)))) gen_batch) (\<lambda>outs.
     bind_res (concat_output ct (map snd outs)) (\<lambda>gen_output.
       let sample_index = concat (map (\<lambda>(o', b). ar_sample_index o') outs);
           final_mask = concat (map (\<lambda>(o', b). ar_final_mask o') outs)
       in py_assert (length (filter (\<lambda>f. f) final_mask) = length gen_batch)
            (Inr (gen_output, final_mask, sample_index))))"

section \<open>What a row of the batch holds\<close>

text \<open>Selection by a mask of zeros and ones.\<close>

definition select_ones :: "int list \<Rightarrow> 'a list \<Rightarrow> 'a list" where
  "select_ones ms xs = mask_select (map (\<lambda>m. m \<noteq> 0) ms) xs"

lemma select_ones_append:
  "length a = length x \<Longrightarrow> select_ones (a @ b) (x @ y) = select_ones a x @ select_ones b y"
  by (simp add: select_ones_def mask_select_append)

lemma select_ones_bools: "select_ones (map of_bool ks) xs = mask_select ks xs"
  by (simp add: select_ones_def o_def)

lemma mask_row_drop:
  assumes "k \<le> length xs" "length xs \<le> n"
  shows "mask_select (drop k (mask_row False n xs)) (drop k (pad_row False p n xs)) = drop k xs"
proof -
  have row: "pad_row False p n xs = xs @ replicate (n - length xs) p" by (simp add: pad_row_def Let_def)
  have "mask_row False n xs = replicate (length xs) True @ replicate (n - length xs) False"
    using assms(2) by (auto simp: mask_row_def Let_def)
  moreover have "drop k (replicate (length xs) True) = replicate (length xs - k) True" by simp
  ultimately show ?thesis using assms(1) by (simp add: row mask_select_append)
qed

lemma select_cumsum:
  "select_ones (map of_bool ks) (map (\<lambda>c. max (c - 1) 0) (cumsum (int a) (map of_bool ks))) =
    map int [a..<a + length (filter (\<lambda>k. k) ks)]"
proof (induction ks arbitrary: a)
  case Nil
  then show ?case by (simp add: select_ones_def mask_select_def)
next
  case (Cons b ks)
  show ?case
  proof (cases b)
    case True
    have e: "int (Suc a) = int a + 1" by simp
    show ?thesis using Cons [of "Suc a", unfolded e] True
      by (simp add: select_ones_def mask_select_Cons upt_conv_Cons del: of_nat_Suc upt_Suc)
  next
    case False
    then show ?thesis using Cons [of a] by (simp add: select_ones_def mask_select_Cons)
  qed
qed

lemma count_mask_row: "length xs \<le> n \<Longrightarrow> length (filter (\<lambda>k. k) (mask_row l n xs)) = length xs"
  by (auto simp: mask_row_def Let_def)


lemma pad_with_mask_Inr:
  assumes "pad_tensor_list_with_mask xss p ml l = Inr (rows, masks)"
  shows "\<exists>n. rows = map (pad_row l p n) xss \<and> masks = map (mask_row l n) xss \<and> (\<forall>xs\<in>set xss. length xs \<le> n) \<and>
    n = pad_target (Max (set (map length xss))) ml"
proof -
  have r: "pad_tensor_list_to_length xss p ml l = Inr rows"
    "masks = map (mask_row l (pad_target (Max (set (map length xss))) ml)) xss"
    using assms by (auto simp: pad_tensor_list_with_mask_def bind_res_eq_Inr Let_def)
  then show ?thesis using pad_tensor_list_Inr [OF r(1)] by blast
qed

text \<open>The training batch holds the conversations: in row \<open>i\<close> the attention mask selects exactly
  the tokens of prompt \<open>i\<close> followed by those of response \<open>i\<close> without the starting prefix, the
  position identifiers count these tokens from 0, and the row of the response mask is the mask of
  response \<open>i\<close> without the prefix, padded with zeros to the width of the responses. Needed: every
  response starts with the prefix (the code checks only the first one), prompts and responses
  correspond, and a response has as many tokens as its mask.\<close>

theorem concat_output_rows:
  assumes "concat_output ct bs = Inr tb" "ps = concat (map so_prompts bs)" "rs = concat (map so_responses bs)"
    and "ms = concat (map so_response_mask bs)" "length ps = length rs" "map length ms = map length rs"
    and "\<forall>r\<in>set rs. take (length (starting_ids ct)) r = starting_ids ct" "i < length ps"
  shows "select_ones (tb_attention_mask tb ! i) (tb_input_ids tb ! i) = ps ! i @ drop (length (starting_ids ct)) (rs ! i) \<and>
    select_ones (tb_attention_mask tb ! i) (tb_position_ids tb ! i) =
      map int [0..<length (ps ! i @ drop (length (starting_ids ct)) (rs ! i))] \<and>
    length (tb_response_mask tb ! i) = length (tb_responses tb ! i) \<and>
    (\<exists>k. tb_response_mask tb ! i = drop (length (starting_ids ct)) (ms ! i) @ replicate k 0)"
proof -
  let ?n0 = "length (starting_ids ct)"
  obtain pids pmask rids rmask mids where c: "pad_tensor_list_with_mask ps (ct_pad ct) None True = Inr (pids, pmask)"
    "pad_tensor_list_with_mask rs (ct_pad ct) None False = Inr (rids, rmask)"
    "pad_tensor_list_to_length ms 0 None False = Inr mids"
    "tb = \<lparr>tb_prompts = pids, tb_responses = map (drop ?n0) rids, tb_input_ids = map2 (@) pids (map (drop ?n0) rids),
      tb_attention_mask = map2 (@) (mask_ints pmask) (mask_ints (map (drop ?n0) rmask)),
      tb_position_ids = create_position_ids (map2 (@) (mask_ints pmask) (mask_ints (map (drop ?n0) rmask))),
      tb_response_mask = map (drop ?n0) mids\<rparr>"
    using assms(1-4) by (auto simp: concat_output_def bind_res_eq_Inr py_assert_eq_Inr Let_def)
  obtain n where n: "pids = map (pad_row True (ct_pad ct) n) ps" "pmask = map (mask_row True n) ps" "\<forall>xs\<in>set ps. length xs \<le> n"
    using pad_with_mask_Inr [OF c(1)] by blast
  obtain q where q: "rids = map (pad_row False (ct_pad ct) q) rs" "rmask = map (mask_row False q) rs" "\<forall>xs\<in>set rs. length xs \<le> q"
    "q = pad_target (Max (set (map length rs))) None"
    using pad_with_mask_Inr [OF c(2)] by blast
  obtain w where w: "mids = map (pad_row False 0 w) ms" "w = pad_target (Max (set (map length ms))) None"
    using pad_tensor_list_Inr [OF c(3)] by blast
  have wq: "w = q" using w(2) q(4) assms(6) by simp
  have lens: "length ms = length rs" using assms(6) by (metis length_map)
  define p where "p = ps ! i"
  define r where "r = rs ! i"
  have pi: "length p \<le> n" using n(3) assms(8) by (simp add: p_def)
  have ri: "length r \<le> q" "?n0 \<le> length r" "length (ms ! i) = length r"
  proof -
    have i: "i < length rs" using assms(5,8) by simp
    then show "length r \<le> q" using q(3) by (simp add: r_def)
    have "take ?n0 r = starting_ids ct" using assms(7) i by (simp add: r_def)
    then show "?n0 \<le> length r" by (metis length_take min.bounded_iff order_refl)
    have "map length ms ! i = map length rs ! i" using assms(6) by simp
    then show "length (ms ! i) = length r" using i lens by (simp add: r_def)
  qed
  define ks where "ks = mask_row True n p @ drop ?n0 (mask_row False q r)"
  have att: "tb_attention_mask tb ! i = map of_bool ks"
    using assms(5,8) by (simp add: c(4) n(2) q(2) mask_ints_def ks_def p_def r_def drop_map)
  have inp: "tb_input_ids tb ! i = pad_row True (ct_pad ct) n p @ drop ?n0 (pad_row False (ct_pad ct) q r)"
    using assms(5,8) by (simp add: c(4) n(1) q(1) p_def r_def)
  have sel: "select_ones (tb_attention_mask tb ! i) (tb_input_ids tb ! i) = p @ drop ?n0 r"
    unfolding att inp select_ones_bools ks_def
    using mask_row_selects [OF pi, of True "ct_pad ct"] mask_row_drop [OF ri(2,1), of "ct_pad ct"] pi
    by (simp add: mask_select_append)
  have "tb_position_ids tb ! i = map (\<lambda>c. max (c - 1) 0) (cumsum 0 (tb_attention_mask tb ! i))"
    using assms(5,8) by (simp add: c(4) create_position_ids_def n(2) q(2) mask_ints_def)
  then have pos: "select_ones (tb_attention_mask tb ! i) (tb_position_ids tb ! i) = map int [0..<length (filter (\<lambda>k. k) ks)]"
    using select_cumsum [of ks 0] by (simp add: att)
  have "length (filter (\<lambda>k. k) (drop ?n0 (mask_row False q r))) = length (drop ?n0 r)"
    using mask_row_drop [OF ri(2,1), of "0 :: int"] mask_row_selects [OF ri(1), of False] ri
    by (metis length_drop length_mask_places length_pad_row length_pick mask_select_places)
  then have cnt: "length (filter (\<lambda>k. k) ks) = length (p @ drop ?n0 r)"
    using count_mask_row [OF pi, of True] by (simp add: ks_def)
  have rm: "tb_response_mask tb ! i = drop ?n0 (ms ! i) @ replicate (q - length r) 0"
    using assms(5,8) lens ri by (simp add: c(4) w(1) wq pad_row_def Let_def)
  have "tb_responses tb ! i = drop ?n0 (pad_row False (ct_pad ct) q r)"
    using assms(5,8) by (simp add: c(4) q(1) r_def)
  then have "length (tb_response_mask tb ! i) = length (tb_responses tb ! i)" using rm ri by simp
  then show ?thesis using sel pos cnt rm unfolding p_def r_def by auto
qed

definition sample_chat :: chat_tokenizer where
  "sample_chat = \<lparr>ct_prompt = (\<lambda>ms. 7 # map (\<lambda>m. int (length (snd m))) ms), ct_response = (\<lambda>ms. 7 # map (\<lambda>m. int (length (snd m))) ms),
     ct_assistant_mask = (\<lambda>ms. None), ct_pad = 0\<rparr>"

definition sample_outputs :: "sample_output list" where
  "sample_outputs = [\<lparr>so_prompts = [[7, 1], [7, 1]], so_responses = [[7, 7, 3], [7, 7, 4]], so_response_mask = [[0, 0, 1], [0, 0, 1]]\<rparr>]"

theorem concat_output_rows_witness:
  "\<exists>tb. concat_output sample_chat sample_outputs = Inr tb \<and>
    select_ones (tb_attention_mask tb ! 1) (tb_input_ids tb ! 1) = [7, 1] @ drop (length (starting_ids sample_chat)) [7, 7, 4]"
proof -
  obtain tb where tb: "concat_output sample_chat sample_outputs = Inr tb"
    by (simp add: concat_output_def sample_chat_def sample_outputs_def starting_ids_def starting_msg_def py_get_def
        pad_tensor_list_with_mask_def pad_tensor_list_to_length_def Let_def)
  have "take (length (starting_ids sample_chat)) r = starting_ids sample_chat" if "r \<in> set [[7, 7, 3], [7, 7, 4]]" for r
    using that by (auto simp: starting_ids_def sample_chat_def starting_msg_def)
  then show ?thesis
    using concat_output_rows [OF tb refl refl refl, of 1] tb by (auto simp: sample_outputs_def)
qed

end
