(* ===== verification/Gsm8k.thy ===== *)
theory Gsm8k
  imports PyString
begin

text \<open>
  The reward of \<open>verl/utils/reward_score/gsm8k.py\<close>: the last number behind \<open>####\<close>, or the last number,
  is compared with the ground truth. The regular expressions of the source have no choice to
  backtrack over, so \<open>re.findall\<close> is a scan. The scores are arguments; \<open>None\<close> is the integer 0 the
  code returns for a solution without an answer.
\<close>

definition number_char :: "char \<Rightarrow> bool" where
  "number_char c = (py_isdigit c \<or> c = CHR ''.'' \<or> c = CHR '','')"

text \<open>\<open>\-?[0-9\.\,]+\<close> at the front of a string: the text matched and the rest.\<close>

definition match_number :: "string \<Rightarrow> (string \<times> string) option" where
  "match_number s =
     (let sign = (if py_startswith s ''-'' then ''-'' else []);
          ds = takeWhile number_char (drop (length sign) s)
      in if ds = [] then None else Some (sign @ ds, drop (length sign + length ds) s))"

lemma match_number_rest: "match_number s = Some (m, r) \<Longrightarrow> s = m @ r \<and> m \<noteq> []"
proof -
  assume a: "match_number s = Some (m, r)"
  define sign where "sign = (if py_startswith s ''-'' then ''-'' else [])"
  define ds where "ds = takeWhile number_char (drop (length sign) s)"
  have "s = sign @ drop (length sign) s"
    by (auto simp: sign_def py_startswith_iff)
  also have "drop (length sign) s = ds @ drop (length ds) (drop (length sign) s)"
    unfolding ds_def dropWhile_eq_drop [symmetric] by (rule takeWhile_dropWhile_id [symmetric])
  finally have "s = (sign @ ds) @ drop (length ds) (drop (length sign) s)" by simp
  moreover have "ds \<noteq> []" "m = sign @ ds" "r = drop (length ds) (drop (length sign) s)"
    using a by (auto simp: match_number_def sign_def [symmetric] ds_def [symmetric] Let_def add.commute split: if_splits)
  ultimately show ?thesis by simp
qed

text \<open>\<open>re.findall\<close> of a literal prefix and a number; the prefix is not part of what is found.\<close>

function find_numbers :: "string \<Rightarrow> string \<Rightarrow> string list" where
  "find_numbers prefix s =
     (case (if py_startswith s prefix then match_number (drop (length prefix) s) else None) of
        Some (m, r) \<Rightarrow> m # find_numbers prefix r
      | None \<Rightarrow> (case s of [] \<Rightarrow> [] | c # cs \<Rightarrow> find_numbers prefix cs))"
  by pat_completeness auto
termination
proof (relation "measure (\<lambda>(p, s). length s)")
  fix p s x m r
  assume a: "(if py_startswith s p then match_number (drop (length p) s) else None) = Some x" "(m, r) = x"
  then have "drop (length p) s = m @ r \<and> m \<noteq> []" by (auto split: if_splits dest: match_number_rest)
  then have "length (drop (length p) s) = length m + length r \<and> 0 < length m" by simp
  then have "length r < length s" by (simp only: length_drop) linarith
  then show "((p, r), (p, s)) \<in> measure (\<lambda>(p, s). length s)" by simp
qed auto

declare find_numbers.simps [simp del]

definition SOLUTION_CLIP_CHARS :: nat where "SOLUTION_CLIP_CHARS = 300"

definition last_number :: "string list \<Rightarrow> string" where
  "last_number answers =
     (case dropWhile (\<lambda>a. a \<in> set [[], ''.'']) (rev answers) of a # _ \<Rightarrow> a | [] \<Rightarrow> hd answers)"

definition gsm8k_extract_solution :: "string \<Rightarrow> string \<Rightarrow> string option res" where
  "gsm8k_extract_solution solution method =
     py_assert (method = ''strict'' \<or> method = ''flexible'')
       (let s = (if SOLUTION_CLIP_CHARS < length solution
                 then py_slice (Some (- int SOLUTION_CLIP_CHARS)) None solution else solution)
        in if method = ''strict''
           then (let solutions = find_numbers ''#### '' s
                 in Inr (if solutions = [] then None
                         else Some (py_replace ''$'' [] (py_replace '','' [] (last solutions)))))
           else (let answers = find_numbers [] s in Inr (if answers = [] then None else Some (last_number answers))))"

definition gsm8k_compute_score :: "string \<Rightarrow> string \<Rightarrow> string \<Rightarrow> 'f \<Rightarrow> 'f \<Rightarrow> 'f option res" where
  "gsm8k_compute_score solution ground_truth method format_score score =
     bind_res (gsm8k_extract_solution solution method) (\<lambda>answer.
       Inr (case answer of
              None \<Rightarrow> None
            | Some a \<Rightarrow> Some (if a = ground_truth then score else format_score)))"

section \<open>Laws\<close>

lemma find_numbers_none: "\<not> py_in prefix s \<Longrightarrow> find_numbers prefix s = []"
proof (induction s)
  case Nil
  then show ?case by (subst find_numbers.simps) (cases prefix, auto)
next
  case (Cons c cs)
  then show ?case by (subst find_numbers.simps) auto
qed

lemma py_in_slice: "py_in p (py_slice a b s) \<Longrightarrow> py_in p s"
proof -
  assume "py_in p (py_slice a b s)"
  moreover obtain i j where "py_slice a b s = take j (drop i s)" by (auto simp: py_slice_def Let_def)
  moreover have "s = take i s @ take j (drop i s) @ drop j (drop i s)"
    by (simp only: append_take_drop_id)
  ultimately show ?thesis by (metis py_in_append)
qed

lemma strict_needs_marker:
  assumes "\<not> py_in ''#### '' solution"
  shows "gsm8k_compute_score solution ground_truth ''strict'' f s = Inr None"
proof -
  have "\<not> py_in ''#### '' (py_slice a b solution)" for a b using assms py_in_slice by blast
  then show ?thesis
    using assms find_numbers_none by (simp add: gsm8k_compute_score_def gsm8k_extract_solution_def Let_def py_assert_def)
qed

end
