(* ===== verification/Json.thy ===== *)
theory Json
  imports PyString "HOL-Library.AList"
begin

text \<open>
  \<open>json.loads\<close> and \<open>json.dumps(..., ensure_ascii=False)\<close> of the standard library, on the strings of the
  model. A number with a fraction or an exponent keeps its text. A decoding error is a
  \<open>ValueError\<close>; an escape beyond Latin-1 is outside the model (\<open>OtherError 0\<close>).
\<close>

datatype json =
    JNull
  | JBool bool
  | JInt int
  | JFloat string
  | JStr string
  | JArr "json list"
  | JObj "(string \<times> json) list"

definition dquote :: char where "dquote = CHR 0x22"
definition backslash :: char where "backslash = CHR 0x5C"

section \<open>Printing\<close>

definition hex_digit :: "nat \<Rightarrow> char" where
  "hex_digit n = char_of (if n < 10 then 48 + n else 87 + n)"

definition json_escape_char :: "char \<Rightarrow> string" where
  "json_escape_char c =
     (let n = code_point c
      in if c = dquote \<or> c = backslash then [backslash, c]
         else if n = 8 then [backslash, CHR ''b'']
         else if n = 9 then [backslash, CHR ''t'']
         else if n = 10 then [backslash, CHR ''n'']
         else if n = 12 then [backslash, CHR ''f'']
         else if n = 13 then [backslash, CHR ''r'']
         else if n < 32 then [backslash, CHR ''u'', CHR ''0'', CHR ''0'', hex_digit (n div 16), hex_digit (n mod 16)]
         else [c])"

definition json_quote :: "string \<Rightarrow> string" where
  "json_quote s = dquote # concat (map json_escape_char s) @ [dquote]"

fun json_dumps :: "json \<Rightarrow> string"
  and json_dumps_items :: "json list \<Rightarrow> string"
  and json_dumps_members :: "(string \<times> json) list \<Rightarrow> string" where
  "json_dumps JNull = ''null''"
| "json_dumps (JBool b) = (if b then ''true'' else ''false'')"
| "json_dumps (JInt i) = str_int i"
| "json_dumps (JFloat raw) = raw"
| "json_dumps (JStr s) = json_quote s"
| "json_dumps (JArr vs) = CHR 0x5B # json_dumps_items vs @ [CHR 0x5D]"
| "json_dumps (JObj ms) = CHR 0x7B # json_dumps_members ms @ [CHR 0x7D]"
| "json_dumps_items [] = []"
| "json_dumps_items (v # vs) = json_dumps v @ (if vs = [] then [] else '', '' @ json_dumps_items vs)"
| "json_dumps_members [] = []"
| "json_dumps_members ((k, v) # ms) =
     json_quote k @ '': '' @ json_dumps v @ (if ms = [] then [] else '', '' @ json_dumps_members ms)"

section \<open>Parsing\<close>

definition json_ws :: "char \<Rightarrow> bool" where
  "json_ws c = (c \<in> set [CHR 0x20, CHR 0x09, CHR 0x0A, CHR 0x0D])"

definition skip_ws :: "string \<Rightarrow> string" where
  "skip_ws s = dropWhile json_ws s"

definition hex_value :: "char \<Rightarrow> nat option" where
  "hex_value c =
     (let n = code_point c
      in if 48 \<le> n \<and> n \<le> 57 then Some (n - 48)
         else if 97 \<le> n \<and> n \<le> 102 then Some (n - 87)
         else if 65 \<le> n \<and> n \<le> 70 then Some (n - 55)
         else None)"

definition simple_escape :: "char \<Rightarrow> char option" where
  "simple_escape c =
     (if c = dquote \<or> c = backslash \<or> c = CHR 0x2F then Some c
      else if c = CHR ''b'' then Some (CHR 0x08)
      else if c = CHR ''f'' then Some (CHR 0x0C)
      else if c = CHR ''n'' then Some (CHR 0x0A)
      else if c = CHR ''r'' then Some (CHR 0x0D)
      else if c = CHR ''t'' then Some (CHR 0x09)
      else None)"

definition unicode_escape :: "char \<Rightarrow> char \<Rightarrow> char \<Rightarrow> char \<Rightarrow> char res" where
  "unicode_escape a b c d =
     (case (hex_value a, hex_value b, hex_value c, hex_value d) of
        (Some w, Some x, Some y, Some z) \<Rightarrow>
          (let n = ((w * 16 + x) * 16 + y) * 16 + z
           in if n < 256 then Inr (char_of n) else Inl (OtherError 0))
      | _ \<Rightarrow> Inl ValueError)"

text \<open>The rest of a string behind its opening quote.\<close>

fun json_string :: "string \<Rightarrow> (string \<times> string) res" where
  "json_string [] = Inl ValueError"
| "json_string (c # cs) =
     (if c = dquote then Inr ([], cs)
      else if c = backslash then
        (case cs of
           [] \<Rightarrow> Inl ValueError
         | e # es \<Rightarrow>
             if e = CHR ''u'' then
               (case es of
                  h1 # h2 # h3 # h4 # r \<Rightarrow>
                    bind_res (unicode_escape h1 h2 h3 h4) (\<lambda>x. bind_res (json_string r) (\<lambda>(s, t). Inr (x # s, t)))
                | _ \<Rightarrow> Inl ValueError)
             else (case simple_escape e of
                     None \<Rightarrow> Inl ValueError
                   | Some x \<Rightarrow> bind_res (json_string es) (\<lambda>(s, t). Inr (x # s, t))))
      else if code_point c < 32 then Inl ValueError
      else bind_res (json_string cs) (\<lambda>(s, t). Inr (c # s, t)))"

definition digits_value :: "string \<Rightarrow> nat" where
  "digits_value ds = fold (\<lambda>c n. n * 10 + (code_point c - 48)) ds 0"

text \<open>The optional fraction and exponent: what is read, and the rest.\<close>

definition json_frac :: "string \<Rightarrow> string \<times> string" where
  "json_frac s =
     (case s of
        c # cs \<Rightarrow>
          (let ds = takeWhile py_isdigit cs
           in if c = CHR ''.'' \<and> ds \<noteq> [] then (c # ds, drop (length ds) cs) else ([], s))
      | [] \<Rightarrow> ([], []))"

definition json_exp :: "string \<Rightarrow> string \<times> string" where
  "json_exp s =
     (case s of
        c # cs \<Rightarrow>
          (let sign = (case cs of d # _ \<Rightarrow> if d = CHR ''+'' \<or> d = CHR ''-'' then [d] else [] | [] \<Rightarrow> []);
               ds = takeWhile py_isdigit (drop (length sign) cs)
           in if (c = CHR ''e'' \<or> c = CHR ''E'') \<and> ds \<noteq> []
              then (c # sign @ ds, drop (length sign + length ds) cs) else ([], s))
      | [] \<Rightarrow> ([], []))"

definition json_number :: "string \<Rightarrow> (json \<times> string) res" where
  "json_number s =
     (let neg = py_startswith s ''-'';
          t = (if neg then drop 1 s else s);
          ds = (if py_startswith t ''0'' then ''0'' else takeWhile py_isdigit t)
      in if ds = [] then Inl ValueError
         else let (fr, r1) = json_frac (drop (length ds) t);
                  (ex, r2) = json_exp r1;
                  sign = (if neg then ''-'' else [])
              in if fr = [] \<and> ex = []
                 then Inr (JInt ((if neg then - 1 else 1) * int (digits_value ds)), r2)
                 else Inr (JFloat (sign @ ds @ fr @ ex), r2))"

text \<open>A dictionary from its members in order: a repeated key takes the last value.\<close>

definition dict_of :: "(string \<times> json) list \<Rightarrow> (string \<times> json) list" where
  "dict_of ms = fold (\<lambda>(k, v) d. AList.update k v d) ms []"

definition expect :: "char \<Rightarrow> string \<Rightarrow> string option" where
  "expect c s = (case s of d # ds \<Rightarrow> if d = c then Some ds else None | [] \<Rightarrow> None)"

text \<open>Values, array items and object members, with fuel.\<close>

fun json_value :: "nat \<Rightarrow> string \<Rightarrow> (json \<times> string) res"
  and json_items :: "nat \<Rightarrow> string \<Rightarrow> (json list \<times> string) res"
  and json_members :: "nat \<Rightarrow> string \<Rightarrow> ((string \<times> json) list \<times> string) res" where
  "json_value 0 s = Inl (OtherError 1)"
| "json_value (Suc n) s =
     (case s of
        [] \<Rightarrow> Inl ValueError
      | c # cs \<Rightarrow>
          if c = dquote then bind_res (json_string cs) (\<lambda>(x, r). Inr (JStr x, r))
          else if c = CHR 0x7B then
            (case expect (CHR 0x7D) (skip_ws cs) of
               Some r \<Rightarrow> Inr (JObj [], r)
             | None \<Rightarrow> bind_res (json_members n (skip_ws cs)) (\<lambda>(ms, r). Inr (JObj (dict_of ms), r)))
          else if c = CHR 0x5B then
            (case expect (CHR 0x5D) (skip_ws cs) of
               Some r \<Rightarrow> Inr (JArr [], r)
             | None \<Rightarrow> bind_res (json_items n (skip_ws cs)) (\<lambda>(vs, r). Inr (JArr vs, r)))
          else if py_startswith s ''null'' then Inr (JNull, drop 4 s)
          else if py_startswith s ''true'' then Inr (JBool True, drop 4 s)
          else if py_startswith s ''false'' then Inr (JBool False, drop 5 s)
          else if py_startswith s ''NaN'' then Inr (JFloat ''NaN'', drop 3 s)
          else if py_startswith s ''Infinity'' then Inr (JFloat ''Infinity'', drop 8 s)
          else if py_startswith s ''-Infinity'' then Inr (JFloat ''-Infinity'', drop 9 s)
          else json_number s)"
| "json_items 0 s = Inl (OtherError 1)"
| "json_items (Suc n) s =
     bind_res (json_value n s) (\<lambda>(v, r).
       case expect (CHR 0x5D) (skip_ws r) of
         Some r' \<Rightarrow> Inr ([v], r')
       | None \<Rightarrow>
           (case expect (CHR '','') (skip_ws r) of
              None \<Rightarrow> Inl ValueError
            | Some r' \<Rightarrow> bind_res (json_items n (skip_ws r')) (\<lambda>(vs, t). Inr (v # vs, t))))"
| "json_members 0 s = Inl (OtherError 1)"
| "json_members (Suc n) s =
     (case expect dquote s of
        None \<Rightarrow> Inl ValueError
      | Some cs \<Rightarrow>
          bind_res (json_string cs) (\<lambda>(k, r).
            case expect (CHR '':'') (skip_ws r) of
              None \<Rightarrow> Inl ValueError
            | Some r1 \<Rightarrow>
                bind_res (json_value n (skip_ws r1)) (\<lambda>(v, r2).
                  case expect (CHR 0x7D) (skip_ws r2) of
                    Some r' \<Rightarrow> Inr ([(k, v)], r')
                  | None \<Rightarrow>
                      (case expect (CHR '','') (skip_ws r2) of
                         None \<Rightarrow> Inl ValueError
                       | Some r' \<Rightarrow> bind_res (json_members n (skip_ws r')) (\<lambda>(ms, t). Inr ((k, v) # ms, t))))))"

definition json_loads :: "string \<Rightarrow> json res" where
  "json_loads s =
     bind_res (json_value (2 * length s + 2) (skip_ws s))
       (\<lambda>(v, r). if skip_ws r = [] then Inr v else Inl ValueError)"

end
