(* ===== verification/JsonRoundTrip.thy ===== *)
theory JsonRoundTrip
  imports Json
begin

text \<open>
  Reading what was printed: \<open>json_loads\<close> gives back every value \<open>json_dumps\<close> printed that has no
  number with a fraction and no object with a repeated key.
\<close>

section \<open>Strings\<close>

lemma char_of_code [simp]: "char_of (code_point c) = c"
  by (rule char_of_char)

lemma hex_value_digit: "k < 16 \<Longrightarrow> hex_value (hex_digit k) = Some k"
  by (auto simp: hex_value_def hex_digit_def Let_def)

lemma unicode_escape_code:
  assumes "code_point c < 32"
  shows "unicode_escape (CHR ''0'') (CHR ''0'') (hex_digit (code_point c div 16)) (hex_digit (code_point c mod 16)) = Inr c"
proof -
  have "hex_value (CHR ''0'') = Some 0" by (simp add: hex_value_def)
  moreover have "code_point c div 16 < 16" "code_point c mod 16 < 16" using assms by auto
  moreover have "code_point c div 16 * 16 + code_point c mod 16 = code_point c" by simp
  ultimately show ?thesis
    using assms by (simp add: unicode_escape_def hex_value_digit Let_def del: mod_mult_self3 div_mult_mod_eq)
qed

lemma char_by_code: "code_point c = code_point d \<Longrightarrow> c = d"
  by simp

lemma control_chars:
  "code_point c = 8 \<Longrightarrow> c = CHR 0x08" "code_point c = 9 \<Longrightarrow> c = CHR 0x09" "code_point c = 10 \<Longrightarrow> c = CHR 0x0A"
  "code_point c = 12 \<Longrightarrow> c = CHR 0x0C" "code_point c = 13 \<Longrightarrow> c = CHR 0x0D"
  by (rule char_by_code, simp del: of_char_eq_iff)+

lemma json_string_escape:
  "json_string (json_escape_char c @ t) = bind_res (json_string t) (\<lambda>(s, r). Inr (c # s, r))"
  by (auto simp: json_escape_char_def Let_def simple_escape_def dquote_def backslash_def unicode_escape_code
      dest: control_chars)

lemma json_string_quote: "json_string (concat (map json_escape_char s) @ dquote # t) = Inr (s, t)"
  by (induction s) (simp_all add: json_string_escape)

section \<open>Numbers\<close>

definition ends_number :: "string \<Rightarrow> bool" where
  "ends_number t = (case t of [] \<Rightarrow> True | c # _ \<Rightarrow> \<not> py_isdigit c \<and> c \<notin> set ''.eE'')"

lemma str_nat_digits: "\<forall>c\<in>set (str_nat n). py_isdigit c"
  by (induction n rule: str_nat.induct) (subst str_nat.simps, auto simp: py_isdigit_def Let_def)

lemma str_nat_nonempty [simp]: "str_nat n \<noteq> []"
  by (subst str_nat.simps) simp

lemma hd_str_nat: "hd (str_nat n) = CHR ''0'' \<longleftrightarrow> n = 0"
proof (induction n rule: str_nat.induct)
  case (1 n)
  have zero: "char_of (48 + k) = CHR ''0'' \<longleftrightarrow> k = 0" if "k < 10" for k :: nat
  proof
    assume "char_of (48 + k) = CHR ''0''"
    then have "(of_char (char_of (48 + k) :: char) :: nat) = of_char (CHR ''0'')" by (rule arg_cong)
    then show "k = 0" using that by simp
  next
    have "char_of (48 :: nat) = CHR ''0''" by code_simp
    then show "k = 0 \<Longrightarrow> char_of (48 + k) = CHR ''0''" by simp
  qed
  show ?case
  proof (cases "n < 10")
    case True
    then show ?thesis by (subst str_nat.simps) (simp add: zero)
  next
    case False
    then have "hd (str_nat n) = hd (str_nat (n div 10))" by (subst str_nat.simps) simp
    moreover have "n div 10 \<noteq> 0" using False by simp
    ultimately show ?thesis using 1 False by simp
  qed
qed

lemma digits_value_append: "digits_value (xs @ [c]) = digits_value xs * 10 + (code_point c - 48)"
  by (simp add: digits_value_def)

lemma digits_value_str_nat: "digits_value (str_nat n) = n"
proof (induction n rule: str_nat.induct)
  case (1 n)
  show ?case
  proof (cases "n < 10")
    case True
    then show ?thesis by (subst str_nat.simps) (simp add: digits_value_def)
  next
    case False
    then have "digits_value (str_nat n) = digits_value (str_nat (n div 10)) * 10 + n mod 10"
      by (subst str_nat.simps) (simp add: digits_value_append)
    then show ?thesis using 1 False by simp
  qed
qed

lemma takeWhile_str_nat: "ends_number t \<Longrightarrow> takeWhile py_isdigit (str_nat n @ t) = str_nat n"
  using str_nat_digits by (auto simp: takeWhile_append ends_number_def split: list.splits)

lemma ends_number_rest: "ends_number t \<Longrightarrow> json_frac t = ([], t) \<and> json_exp t = ([], t)"
  by (auto simp: ends_number_def json_frac_def json_exp_def Let_def split: list.splits)

lemma digits_after_sign:
  assumes "ends_number t"
  shows "(if py_startswith (str_nat n @ t) ''0'' then ''0'' else takeWhile py_isdigit (str_nat n @ t)) = str_nat n"
proof -
  have "py_startswith (str_nat n @ t) ''0'' \<longleftrightarrow> n = 0"
    using hd_str_nat [of n] by (cases "str_nat n") (auto)
  moreover have "str_nat 0 = ''0''" by code_simp
  ultimately show ?thesis using takeWhile_str_nat [OF assms] by simp
qed

lemma str_nat_not_minus: "\<not> py_startswith (str_nat n @ t) ''-''"
proof -
  have "py_isdigit (hd (str_nat n))" using str_nat_digits [of n] by (metis list.set_sel(1) str_nat_nonempty)
  then have "hd (str_nat n) \<noteq> CHR ''-''" by (auto simp: py_isdigit_def)
  then show ?thesis by (cases "str_nat n") (auto)
qed

lemma json_number_nat: "ends_number t \<Longrightarrow> json_number (str_nat n @ t) = Inr (JInt (int n), t)"
  unfolding json_number_def Let_def
  by (simp only: str_nat_not_minus if_False digits_after_sign)
    (simp add: digits_value_str_nat ends_number_rest)

lemma json_number_minus: "ends_number t \<Longrightarrow> json_number (CHR ''-'' # str_nat n @ t) = Inr (JInt (- int n), t)"
proof -
  have "py_startswith (CHR ''-'' # str_nat n @ t) ''-''" by simp
  moreover have "drop 1 (CHR ''-'' # str_nat n @ t) = str_nat n @ t" by simp
  moreover assume "ends_number t"
  ultimately show ?thesis
    unfolding json_number_def Let_def
    by (simp only: if_True digits_after_sign) (simp add: digits_value_str_nat ends_number_rest)
qed

lemma json_number_str_int: "ends_number t \<Longrightarrow> json_number (str_int i @ t) = Inr (JInt i, t)"
  using json_number_nat [of t "nat i"] json_number_minus [of t "nat (- i)"] by (simp add: str_int_def)

section \<open>Values\<close>

text \<open>The values that are printed in full: no fractions, and no key twice in an object.\<close>

fun json_ok :: "json \<Rightarrow> bool" where
  "json_ok (JFloat raw) = False"
| "json_ok (JArr vs) = (\<forall>v\<in>set vs. json_ok v)"
| "json_ok (JObj ms) = (distinct (map fst ms) \<and> (\<forall>m\<in>set ms. json_ok (snd m)))"
| "json_ok v = True"

text \<open>The fuel a value takes.\<close>

fun json_cost :: "json \<Rightarrow> nat"
  and items_cost :: "json list \<Rightarrow> nat"
  and members_cost :: "(string \<times> json) list \<Rightarrow> nat" where
  "json_cost (JArr vs) = Suc (items_cost vs)"
| "json_cost (JObj ms) = Suc (members_cost ms)"
| "json_cost v = 1"
| "items_cost [] = 0"
| "items_cost (v # vs) = Suc (max (json_cost v) (items_cost vs))"
| "members_cost [] = 0"
| "members_cost ((k, v) # ms) = Suc (max (json_cost v) (members_cost ms))"

lemma json_cost_le:
  "json_ok v \<Longrightarrow> json_cost v \<le> length (json_dumps v)"
  "(\<forall>v\<in>set vs. json_ok v) \<Longrightarrow> items_cost vs \<le> Suc (length (json_dumps_items vs))"
  "(\<forall>m\<in>set ms. json_ok (snd m)) \<Longrightarrow> members_cost ms \<le> Suc (length (json_dumps_members ms))"
proof (induction v and vs and ms rule: json_dumps_json_dumps_items_json_dumps_members.induct)
  case (3 i)
  have "str_int i \<noteq> []" by (simp add: str_int_def)
  then show ?case by (cases "str_int i") simp_all
qed (auto simp: json_quote_def)

text \<open>What a printed value starts with.\<close>

definition value_start :: "char \<Rightarrow> bool" where
  "value_start c = (c \<in> set (dquote # ''ntf[{-0123456789''))"

lemma digit_start: "py_isdigit c \<Longrightarrow> value_start c"
proof -
  assume "py_isdigit c"
  then have "code_point c \<in> {48..<58}" by (simp add: py_isdigit_def Let_def)
  then have "code_point c \<in> set [48..<58]" by (simp only: set_upt)
  then have "char_of (code_point c) \<in> char_of ` set [48..<58]" by (rule imageI)
  also have "char_of ` set [48..<58] = set ''0123456789''" by code_simp
  finally show ?thesis by (simp add: value_start_def)
qed

lemma json_dumps_start: "json_ok v \<Longrightarrow> \<exists>c cs. json_dumps v = c # cs \<and> value_start c"
proof (cases v)
  case (JInt i)
  have "\<exists>c cs. str_nat n = c # cs \<and> value_start c" for n
    using str_nat_digits [of n] digit_start by (cases "str_nat n") (auto)
  then show ?thesis using JInt by (auto simp: str_int_def value_start_def)
qed (auto simp: value_start_def json_quote_def)

lemma value_start_not_ws: "value_start c \<Longrightarrow> \<not> json_ws c"
  by (auto simp: value_start_def json_ws_def dquote_def)

lemma skip_ws_start: "value_start c \<Longrightarrow> skip_ws (c # s) = c # s"
  by (simp add: skip_ws_def value_start_not_ws)

lemma skip_ws_dumps: "json_ok v \<Longrightarrow> skip_ws (json_dumps v @ t) = json_dumps v @ t"
  using json_dumps_start [of v] by (auto simp: skip_ws_start)

section \<open>The round trip\<close>

lemma str_nat_Cons: "\<exists>c cs. str_nat n = c # cs \<and> py_isdigit c"
  using str_nat_digits [of n] by (cases "str_nat n") auto

lemma digit_char_neq:
  assumes "py_isdigit c"
  shows "c \<noteq> dquote" "c \<noteq> CHR 0x7B" "c \<noteq> CHR 0x5B" "c \<noteq> CHR ''n''" "c \<noteq> CHR ''t''" "c \<noteq> CHR ''f''"
    "c \<noteq> CHR ''N''" "c \<noteq> CHR ''I''" "c \<noteq> CHR ''-''"
  using assms by (auto simp: py_isdigit_def dquote_def)

lemma json_value_int:
  assumes "ends_number t"
  shows "json_value (Suc n) (str_int i @ t) = Inr (JInt i, t)"
proof -
  obtain c cs where c: "str_nat (nat \<bar>i\<bar>) = c # cs" "py_isdigit c" using str_nat_Cons by blast
  have "json_number (str_int i @ t) = Inr (JInt i, t)" by (rule json_number_str_int [OF assms])
  then show ?thesis
    using c(1) digit_char_neq [OF c(2)] by (cases "i < 0") (simp_all add: str_int_def dquote_def)
qed

lemma json_value_text:
  "json_value (Suc n) (''null'' @ t) = Inr (JNull, t)"
  "json_value (Suc n) (''true'' @ t) = Inr (JBool True, t)"
  "json_value (Suc n) (''false'' @ t) = Inr (JBool False, t)"
  "json_value (Suc n) (json_quote s @ t) = Inr (JStr s, t)"
  by (simp_all add: dquote_def json_string_quote [unfolded dquote_def] json_quote_def)

lemma expect_start: "value_start c \<Longrightarrow> expect (CHR 0x5D) (c # s) = None"
  by (auto simp: value_start_def expect_def dquote_def)

lemma expect_dumps: "json_ok v \<Longrightarrow> expect (CHR 0x5D) (json_dumps v @ t) = None"
  using json_dumps_start [of v] by (auto simp: expect_start)

lemma skip_ws_closing [simp]:
  "skip_ws (CHR 0x5D # t) = CHR 0x5D # t" "skip_ws (CHR 0x7D # t) = CHR 0x7D # t"
  "skip_ws (CHR '','' # t) = CHR '','' # t" "skip_ws (CHR '':'' # t) = CHR '':'' # t"
  "skip_ws (dquote # t) = dquote # t" "skip_ws (CHR 0x20 # t) = skip_ws t"
  by (simp_all add: skip_ws_def json_ws_def dquote_def)

lemma expect_same [simp]: "expect c (c # t) = Some t"
  by (simp add: expect_def)

lemma expect_other: "d \<noteq> c \<Longrightarrow> expect c (d # t) = None"
  by (simp add: expect_def)

lemma ends_number_closing [simp]:
  "ends_number []" "ends_number (CHR 0x5D # t)" "ends_number (CHR 0x7D # t)" "ends_number (CHR '','' # t)"
  by (simp_all add: ends_number_def py_isdigit_def)

lemma update_append_new: "k \<notin> fst ` set d \<Longrightarrow> AList.update k v d = d @ [(k, v)]"
  by (induction d) auto

lemma dict_of_distinct: "distinct (map fst ms) \<Longrightarrow> dict_of ms = ms"
proof -
  have "fold (\<lambda>(k, v) d. AList.update k v d) ms d = d @ ms" if "distinct (map fst (d @ ms))" for d :: "(string \<times> json) list"
    using that
  proof (induction ms arbitrary: d)
    case (Cons m ms)
    obtain k v where m: "m = (k, v)" by fastforce
    have "AList.update k v d = d @ [(k, v)]"
      using Cons.prems m by (intro update_append_new) auto
    then show ?case using Cons m by simp
  qed simp
  from this [of "[]"] show "distinct (map fst ms) \<Longrightarrow> dict_of ms = ms" by (simp add: dict_of_def)
qed

lemma fuel_Suc: "0 < k \<Longrightarrow> k \<le> n \<Longrightarrow> \<exists>m. n = Suc m \<and> k - 1 \<le> m"
  by (cases n) auto

lemma json_read:
  "\<And>n t. json_ok v \<Longrightarrow> ends_number t \<Longrightarrow> json_cost v \<le> n \<Longrightarrow> json_value n (json_dumps v @ t) = Inr (v, t)"
  "\<And>n t. \<forall>v\<in>set vs. json_ok v \<Longrightarrow> vs \<noteq> [] \<Longrightarrow> items_cost vs \<le> n \<Longrightarrow>
     json_items n (json_dumps_items vs @ CHR 0x5D # t) = Inr (vs, t)"
  "\<And>n t. \<forall>m\<in>set ms. json_ok (snd m) \<Longrightarrow> ms \<noteq> [] \<Longrightarrow> members_cost ms \<le> n \<Longrightarrow>
     json_members n (json_dumps_members ms @ CHR 0x7D # t) = Inr (ms, t)"
proof (induction v and vs and ms rule: json_dumps_json_dumps_items_json_dumps_members.induct)
  case 1
  from 1(3) obtain m where "n = Suc m" by (cases n) auto
  then show ?case by (simp only: json_dumps.simps json_value_text)
next
  case (2 b)
  from 2(3) obtain m where "n = Suc m" by (cases n) auto
  then show ?case by (cases b) (simp_all only: json_dumps.simps json_value_text if_True if_False)
next
  case (3 i)
  from 3(3) obtain m where "n = Suc m" by (cases n) auto
  then show ?case using 3 by (simp only: json_dumps.simps json_value_int)
next
  case (5 s)
  from 5(3) obtain m where "n = Suc m" by (cases n) auto
  then show ?case by (simp only: json_dumps.simps json_value_text)
next
  case (6 vs)
  then obtain m where m: "n = Suc m" "items_cost vs \<le> m" using fuel_Suc [of "Suc (items_cost vs)" n] by auto
  show ?case
  proof (cases vs)
    case Nil
    then show ?thesis using m by (simp add: dquote_def)
  next
    case (Cons v vs')
    have items: "json_items m (json_dumps_items vs @ CHR 0x5D # t) = Inr (vs, t)"
      using 6 m Cons by (intro "6.IH") auto
    have "json_ok v" using 6 Cons by simp
    then have "expect (CHR 0x5D) (skip_ws (json_dumps_items vs @ CHR 0x5D # t)) = None"
      "skip_ws (json_dumps_items vs @ CHR 0x5D # t) = json_dumps_items vs @ CHR 0x5D # t"
      using Cons by (simp_all add: skip_ws_dumps expect_dumps)
    then show ?thesis using items m(1) by (simp add: dquote_def)
  qed
next
  case (7 ms)
  then obtain m where m: "n = Suc m" "members_cost ms \<le> m" using fuel_Suc [of "Suc (members_cost ms)" n] by auto
  show ?case
  proof (cases ms)
    case Nil
    then show ?thesis using m by (simp add: dquote_def)
  next
    case (Cons kv ms')
    have members: "json_members m (json_dumps_members ms @ CHR 0x7D # t) = Inr (ms, t)"
      using 7 m Cons by (intro "7.IH") auto
    have start: "\<exists>u. json_dumps_members ms @ CHR 0x7D # t = dquote # u"
      using Cons by (cases kv) (simp add: json_quote_def)
    then have "expect (CHR 0x7D) (skip_ws (json_dumps_members ms @ CHR 0x7D # t)) = None"
      "skip_ws (json_dumps_members ms @ CHR 0x7D # t) = json_dumps_members ms @ CHR 0x7D # t"
      by (auto simp: expect_def dquote_def skip_ws_def json_ws_def)
    moreover have "dict_of ms = ms" using 7 by (simp add: dict_of_distinct)
    ultimately show ?thesis using members m(1) by (simp add: dquote_def)
  qed
next
  case (9 v vs)
  then obtain m where m: "n = Suc m" "max (json_cost v) (items_cost vs) \<le> m"
    using fuel_Suc [of "items_cost (v # vs)" n] by auto
  show ?case
  proof (cases "vs = []")
    case True
    then show ?thesis using 9 m by (simp add: "9.IH"(1))
  next
    case False
    have "json_value m (json_dumps v @ '', '' @ json_dumps_items vs @ CHR 0x5D # t) =
        Inr (v, '', '' @ json_dumps_items vs @ CHR 0x5D # t)"
      using 9 m by (intro "9.IH"(1)) (auto simp: ends_number_def py_isdigit_def)
    moreover have "json_items m (json_dumps_items vs @ CHR 0x5D # t) = Inr (vs, t)"
      using 9 m False by (intro "9.IH"(2)) auto
    moreover have "skip_ws (json_dumps_items vs @ CHR 0x5D # t) = json_dumps_items vs @ CHR 0x5D # t"
      using False 9 by (cases vs) (simp_all add: skip_ws_dumps)
    ultimately show ?thesis using m(1) False by (simp add: expect_other)
  qed
next
  case (11 k v ms)
  then obtain m where m: "n = Suc m" "max (json_cost v) (members_cost ms) \<le> m"
    using fuel_Suc [of "members_cost ((k, v) # ms)" n] by auto
  have ok: "json_ok v" using 11 by simp
  have key: "json_string (concat (map json_escape_char k) @ dquote # u) = Inr (k, u)" for u
    by (rule json_string_quote)
  show ?case
  proof (cases "ms = []")
    case True
    have "json_value m (json_dumps v @ CHR 0x7D # t) = Inr (v, CHR 0x7D # t)"
      using 11 m by (intro "11.IH"(1)) auto
    then show ?thesis using True m(1) ok by (simp add: json_quote_def key skip_ws_dumps)
  next
    case False
    have "json_value m (json_dumps v @ '', '' @ json_dumps_members ms @ CHR 0x7D # t) =
        Inr (v, '', '' @ json_dumps_members ms @ CHR 0x7D # t)"
      using 11 m by (intro "11.IH"(1)) (auto simp: ends_number_def py_isdigit_def)
    moreover have "json_members m (json_dumps_members ms @ CHR 0x7D # t) = Inr (ms, t)"
      using 11 m False by (intro "11.IH"(2)) auto
    moreover have "skip_ws (json_dumps_members ms @ CHR 0x7D # t) = json_dumps_members ms @ CHR 0x7D # t"
      using False by (cases ms) (auto simp: json_quote_def skip_ws_def json_ws_def dquote_def)
    ultimately show ?thesis using m(1) False ok by (simp add: json_quote_def key skip_ws_dumps expect_other)
  qed
qed simp_all

lemma json_round_trip: "json_ok v \<Longrightarrow> json_loads (json_dumps v) = Inr v"
  using json_read(1) [of v "[]" "2 * length (json_dumps v) + 2"] json_cost_le(1) [of v] skip_ws_dumps [of v "[]"]
  by (simp add: json_loads_def skip_ws_def)

end
