(* ===== verification/ToolAgent.thy ===== *)
theory ToolAgent
  imports MemoryConfig Sampling Gsm8k JsonRoundTrip
begin

text \<open>
  Tool calling: \<open>recurrent/tool.py\<close>, the tool agent of \<open>recurrent/impls/async_tool_gsm8k.py\<close> and the
  single-turn agent of \<open>recurrent/impls/async_trival.py\<close>. A Python value read from JSON is a \<open>json\<close>;
  \<open>jsonschema\<close> is a parameter that says whether it rejects a schema. The language model is a function
  of the number of the request, the messages and the keyword arguments to a choice or an exception.
\<close>

section \<open>Python's \<open>str\<close> and \<open>repr\<close>\<close>

definition repr_char :: "char \<Rightarrow> char \<Rightarrow> string" where
  "repr_char q c =
     (let n = code_point c
      in if c = q \<or> c = backslash then [backslash, c]
         else if n = 9 then [backslash, CHR ''t'']
         else if n = 10 then [backslash, CHR ''n'']
         else if n = 13 then [backslash, CHR ''r'']
         else if n < 32 \<or> (127 \<le> n \<and> n \<le> 160) \<or> n = 173
         then [backslash, CHR ''x'', hex_digit (n div 16), hex_digit (n mod 16)]
         else [c])"

definition py_repr :: "string \<Rightarrow> string" where
  "py_repr s =
     (let q = (if CHR 0x27 \<in> set s \<and> dquote \<notin> set s then dquote else CHR 0x27)
      in q # concat (map (repr_char q) s) @ [q])"

text \<open>The text of a float is outside the model.\<close>

fun json_repr :: "json \<Rightarrow> string res"
  and json_repr_items :: "json list \<Rightarrow> string list res"
  and json_repr_members :: "(string \<times> json) list \<Rightarrow> string list res" where
  "json_repr JNull = Inr ''None''"
| "json_repr (JBool b) = Inr (if b then ''True'' else ''False'')"
| "json_repr (JInt i) = Inr (str_int i)"
| "json_repr (JFloat raw) = Inl (OtherError 0)"
| "json_repr (JStr s) = Inr (py_repr s)"
| "json_repr (JArr vs) = bind_res (json_repr_items vs) (\<lambda>ts. Inr (CHR 0x5B # py_join '', '' ts @ [CHR 0x5D]))"
| "json_repr (JObj ms) = bind_res (json_repr_members ms) (\<lambda>ts. Inr (CHR 0x7B # py_join '', '' ts @ [CHR 0x7D]))"
| "json_repr_items [] = Inr []"
| "json_repr_items (v # vs) = bind_res (json_repr v) (\<lambda>t. bind_res (json_repr_items vs) (\<lambda>ts. Inr (t # ts)))"
| "json_repr_members [] = Inr []"
| "json_repr_members ((k, v) # ms) =
     bind_res (json_repr v) (\<lambda>t. bind_res (json_repr_members ms) (\<lambda>ts. Inr ((py_repr k @ '': '' @ t) # ts)))"

definition json_str :: "json \<Rightarrow> string res" where
  "json_str v = (case v of JStr s \<Rightarrow> Inr s | _ \<Rightarrow> json_repr v)"

text \<open>\<open>bool(v)\<close>; a float is false when it has no digit but zeros before its exponent.\<close>

definition json_truthy :: "json \<Rightarrow> bool" where
  "json_truthy v =
     (case v of
        JNull \<Rightarrow> False | JBool b \<Rightarrow> b | JInt i \<Rightarrow> i \<noteq> 0 | JStr s \<Rightarrow> s \<noteq> [] | JArr vs \<Rightarrow> vs \<noteq> [] | JObj ms \<Rightarrow> ms \<noteq> []
      | JFloat raw \<Rightarrow> \<not> list_all (\<lambda>c. c \<in> set ''0.-'') (takeWhile (\<lambda>c. c \<noteq> CHR ''e'' \<and> c \<noteq> CHR ''E'') raw))"

text \<open>\<open>v[key]\<close> for a string key.\<close>

definition json_field :: "string \<Rightarrow> json \<Rightarrow> json res" where
  "json_field k v =
     (case v of
        JObj ms \<Rightarrow> get_key k ms
      | _ \<Rightarrow> Inl TypeError)"

section \<open>Tool schemas\<close>

definition hashable :: "json \<Rightarrow> bool" where
  "hashable v = (case v of JArr _ \<Rightarrow> False | JObj _ \<Rightarrow> False | _ \<Rightarrow> True)"

definition is_tool_schema :: "(json \<Rightarrow> bool) \<Rightarrow> (string \<times> json) list \<Rightarrow> bool res" where
  "is_tool_schema schema_error obj =
     (if set (map fst obj) \<noteq> {''name'', ''description'', ''parameters''} then Inr False
      else case (map_of obj ''name'', map_of obj ''description'', map_of obj ''parameters'') of
        (Some (JStr name), Some (JStr description), Some (JObj ps)) \<Rightarrow>
          if py_strip name = [] then Inr False
          else if set (map fst ps) \<noteq> {''type'', ''properties'', ''required''} then Inr False
          else if map_of ps ''type'' \<noteq> Some (JStr ''object'') then Inr False
          else (case (map_of ps ''properties'', map_of ps ''required'') of
                  (Some (JObj props), Some (JArr req)) \<Rightarrow>
                    if \<not> list_all hashable req then Inl TypeError
                    else if \<not> list_all (\<lambda>r. \<exists>k\<in>set (map fst props). r = JStr k) req then Inr False
                    else Inr (\<not> schema_error (JObj ps))
                | _ \<Rightarrow> Inr False)
      | _ \<Rightarrow> Inr False)"

record tool_schema =
  ts_name :: string
  ts_description :: string
  ts_parameters :: json

definition schema_function :: "tool_schema \<Rightarrow> (string \<times> json) list" where
  "schema_function t =
     [(''name'', JStr (ts_name t)), (''description'', JStr (ts_description t)), (''parameters'', ts_parameters t)]"

definition schema_json :: "tool_schema \<Rightarrow> json" where
  "schema_json t = JObj [(''type'', JStr ''function''), (''function'', JObj (schema_function t))]"

definition param_string :: "string \<times> json \<Rightarrow> string res" where
  "param_string kv =
     bind_res (json_field ''type'' (snd kv)) (\<lambda>ty. bind_res (json_str ty) (\<lambda>ty'.
     bind_res (json_field ''description'' (snd kv)) (\<lambda>de. bind_res (json_str de) (\<lambda>de'.
       Inr (''- '' @ fst kv @ '' ('' @ ty' @ ''): '' @ de')))))"

definition tool_schema_str :: "tool_schema \<Rightarrow> string res" where
  "tool_schema_str t =
     bind_res (json_field ''properties'' (ts_parameters t)) (\<lambda>props.
     bind_res (case props of JObj ms \<Rightarrow> Inr ms | _ \<Rightarrow> Inl AttributeError) (\<lambda>ms.
     bind_res (map_res param_string ms) (\<lambda>lines.
     bind_res (json_field ''required'' (ts_parameters t)) (\<lambda>req.
     bind_res (json_str req) (\<lambda>req'.
       Inr (py_lstrip ([newline] @ ''## Tool '' @ ts_name t @ [newline] @ ''Description: '' @ ts_description t @
              [newline, newline] @ ''Parameters (required: '' @ req' @ ''):'' @ [newline] @
              py_join [newline] lines @ [newline])))))))"

text \<open>
  The constructor. Without a name it formats itself for the message of its exception before it has
  parameters, and \<open>AttributeError\<close> is what comes out.
\<close>

definition tool_schema_new :: "(json \<Rightarrow> bool) \<Rightarrow> string \<Rightarrow> string \<Rightarrow> json option \<Rightarrow> tool_schema res" where
  "tool_schema_new schema_error name description parameters =
     (if name = [] then Inl AttributeError
      else let ps = (case parameters of
                       Some p \<Rightarrow> if json_truthy p then p
                                 else JObj [(''type'', JStr ''object''), (''properties'', JObj []), (''required'', JArr [])]
                     | None \<Rightarrow> JObj [(''type'', JStr ''object''), (''properties'', JObj []), (''required'', JArr [])]);
               t = \<lparr>ts_name = name, ts_description = description, ts_parameters = ps\<rparr>
           in bind_res (is_tool_schema schema_error (schema_function t)) (\<lambda>ok.
                if ok then Inr t else bind_res (tool_schema_str t) (\<lambda>_. Inl ValueError)))"

definition TOOLS_PROMPT :: string where
  "TOOLS_PROMPT =
     ''# Tools'' @ [newline, newline] @
     ''You may call one or more functions to assist with the user query.'' @
     [newline, newline] @
     ''You are provided with function signatures within <tools></tools> XML tags:'' @
     [newline] @ ''<tools>'' @ [newline] @ fmt_field ''tools'' @ [newline] @ ''</tools>'' @ [newline, newline] @
     ''For each function call, return a json object with function name and arguments within <tool_call></tool_call> XML tags:'' @
     [newline] @ ''<tool_call>'' @ [newline] @
     [open_brace, open_brace] @ [CHR 0x22] @ ''name'' @ [CHR 0x22] @ '': <function-name>, '' @
     [CHR 0x22] @ ''arguments'' @ [CHR 0x22] @ '': <args-json-object>'' @ [close_brace, close_brace] @ [newline] @
     ''</tool_call>''"

definition toolcall_system_prompt :: "tool_schema list \<Rightarrow> string res" where
  "toolcall_system_prompt tools =
     py_format [''tools'' \<mapsto> py_join [newline] (map (\<lambda>t. json_dumps (schema_json t)) tools)] TOOLS_PROMPT"

section \<open>Reading a tool call\<close>

record tool_call =
  tc_name :: json
  tc_args :: json

definition INVALID_TOOL :: string where "INVALID_TOOL = ''__INVALID_TOOL__''"

definition invalid_call :: "string \<Rightarrow> tool_call" where
  "invalid_call m = \<lparr>tc_name = JStr INVALID_TOOL, tc_args = JObj [(''msg'', JStr m)]\<rparr>"

text \<open>\<open>re.search('open(.*?)close', text, re.DOTALL)\<close> for two literal tags: the first group.\<close>

definition between :: "string \<Rightarrow> string \<Rightarrow> string \<Rightarrow> string option" where
  "between opening closing text =
     (case py_find opening text of
        None \<Rightarrow> None
      | Some i \<Rightarrow>
          (let rest = drop (i + length opening) text
           in case py_find closing rest of None \<Rightarrow> None | Some j \<Rightarrow> Some (take j rest)))"

text \<open>
  \<open>"name" in data\<close> and \<open>data["name"]\<close>: a string or a list can hold the word but not be subscripted
  by it, and a number, a boolean or \<open>None\<close> cannot even be searched.
\<close>

definition call_of_data :: "json \<Rightarrow> tool_call res" where
  "call_of_data d =
     (case d of
        JObj ms \<Rightarrow>
          (case map_of ms ''name'' of
             None \<Rightarrow> Inr (invalid_call ''tool name not found'')
           | Some n \<Rightarrow> Inr \<lparr>tc_name = n, tc_args = (case map_of ms ''arguments'' of Some a \<Rightarrow> a | None \<Rightarrow> JObj [])\<rparr>)
      | JStr s \<Rightarrow> if py_in ''name'' s then Inl TypeError else Inr (invalid_call ''tool name not found'')
      | JArr vs \<Rightarrow> if JStr ''name'' \<in> set vs then Inl TypeError else Inr (invalid_call ''tool name not found'')
      | _ \<Rightarrow> Inl TypeError)"

definition toolcall_extract :: "string \<Rightarrow> tool_call option res" where
  "toolcall_extract text =
     (case between ''<tool_call>'' ''</tool_call>'' text of
        None \<Rightarrow> Inr None
      | Some body \<Rightarrow>
          (case json_loads (py_strip body) of
             Inl e \<Rightarrow> if e = ValueError then Inr (Some (invalid_call ''invalid json'')) else Inl e
           | Inr d \<Rightarrow> bind_res (call_of_data d) (\<lambda>c. Inr (Some c))))"

type_synonym chat_msg = "string \<times> string"

definition merge_system_prompt :: "chat_msg list \<Rightarrow> string \<Rightarrow> chat_msg list res" where
  "merge_system_prompt msgs system_prompt =
     (case msgs of
        [] \<Rightarrow> Inl IndexError
      | m # ms \<Rightarrow>
          if fst m = ''system'' then Inr ((''system'', snd m @ [newline, newline] @ system_prompt) # ms)
          else Inr ((''system'', system_prompt) # m # ms))"

section \<open>The agents\<close>

text \<open>What a tool answers; \<open>ground_truth\<close> is missing when the sample has no tool arguments.\<close>

definition tool_message :: "string option \<Rightarrow> tool_call \<Rightarrow> chat_msg res" where
  "tool_message ground_truth parsed =
     (if tc_name parsed = JStr ''calc_gsm8k_reward'' then
        (case tc_args parsed of
           JObj ms \<Rightarrow>
             (let answer = (case map_of ms ''answer'' of Some a \<Rightarrow> a | None \<Rightarrow> JNull)
              in if \<not> json_truthy answer then Inr (''tool'', ''`answer` not found in parsed args'')
                 else bind_res (json_str answer) (\<lambda>a.
                   case ground_truth of
                     None \<Rightarrow> Inl KeyError
                   | Some gt \<Rightarrow>
                       bind_res (gsm8k_compute_score a gt ''strict'' ''0.0'' ''1.0'') (\<lambda>reward.
                         Inr (''tool'', ''Current parsed answer='' @ py_repr a @ '' reward='' @
                                (case reward of None \<Rightarrow> ''0'' | Some r \<Rightarrow> r)))))
         | _ \<Rightarrow> Inl AttributeError)
      else if tc_name parsed = JStr INVALID_TOOL then
        bind_res (json_field ''msg'' (tc_args parsed)) (\<lambda>m. bind_res (json_str m) (\<lambda>t. Inr (''tool'', t)))
      else bind_res (json_str (tc_name parsed)) (\<lambda>t. Inr (''tool'', ''Unknown tool '' @ t)))"

definition to_message :: "choice \<Rightarrow> chat_msg" where
  "to_message c = (cm_role (choice_msg c), cm_content (choice_msg c))"

type_synonym chat_llm = "nat \<Rightarrow> chat_msg list \<Rightarrow> kwargs \<Rightarrow> choice res"

definition tool_kwargs :: "rollout_config \<Rightarrow> bool option \<Rightarrow> bool option \<Rightarrow> int \<Rightarrow> kwargs" where
  "tool_kwargs rc do_sample validate max_generation_per_turn =
     AList.update ''stop'' (KTexts [''</tool_call>''])
       (AList.update ''max_completion_tokens'' (KInt max_generation_per_turn) (sampling_params rc do_sample validate))"

text \<open>The loop, with the turns left and the turns done.\<close>

fun tool_loop ::
  "chat_llm \<Rightarrow> kwargs \<Rightarrow> string option \<Rightarrow> nat \<Rightarrow> nat \<Rightarrow> chat_msg list \<Rightarrow> (chat_msg list \<times> nat) res" where
  "tool_loop llm kwargs gt 0 step conv = Inr (conv, step)"
| "tool_loop llm kwargs gt (Suc left) step conv =
     bind_res (toolcall_extract (snd (last conv))) (\<lambda>parsed.
       case parsed of
         None \<Rightarrow> Inr (conv, step)
       | Some call \<Rightarrow>
           bind_res (tool_message gt call) (\<lambda>tool_msg.
             bind_res (llm (Suc step) (conv @ [tool_msg]) kwargs) (\<lambda>c.
               tool_loop llm kwargs gt left (Suc step) (conv @ [tool_msg, to_message c]))))"

record tool_output =
  to_conversation :: "chat_msg list"
  to_sample_index :: nat
  to_tool_calls :: nat

definition tool_rollout ::
  "chat_llm \<Rightarrow> string \<Rightarrow> kwargs \<Rightarrow> int \<Rightarrow> string option \<Rightarrow> nat \<Rightarrow> chat_msg list \<Rightarrow> tool_output res" where
  "tool_rollout llm system_msg kwargs max_turn gt sample_index raw_prompt =
     bind_res (merge_system_prompt raw_prompt system_msg) (\<lambda>conv0.
     bind_res (llm 0 conv0 kwargs) (\<lambda>c.
     bind_res (tool_loop llm kwargs gt (nat max_turn) 0 (conv0 @ [to_message c])) (\<lambda>(conv, step).
       Inr \<lparr>to_conversation = conv, to_sample_index = sample_index, to_tool_calls = step\<rparr>)))"

text \<open>The single-turn agent: one request, whose reply ends the conversation.\<close>

definition trival_rollout ::
  "chat_llm \<Rightarrow> rollout_config \<Rightarrow> bool option \<Rightarrow> bool option \<Rightarrow> int \<Rightarrow> nat \<Rightarrow> chat_msg list \<Rightarrow>
   (chat_msg list \<times> nat) res" where
  "trival_rollout llm rc do_sample validate response_length sample_index raw_prompt =
     bind_res (llm 0 raw_prompt
       (AList.update ''max_completion_tokens'' (KInt response_length) (sampling_params rc do_sample validate))) (\<lambda>c.
       Inr (raw_prompt @ [(ch_role c, ch_content c)], sample_index))"

section \<open>Calls are read as they were written\<close>

lemma between_tags:
  assumes "\<not> py_in ''<tool_call>'' pre" "\<not> py_in ''</tool_call>'' body"
  shows "between ''<tool_call>'' ''</tool_call>'' (pre @ ''<tool_call>'' @ body @ ''</tool_call>'' @ post) = Some body"
proof -
  have "py_find ''<tool_call>'' (pre @ ''<tool_call>'' @ body @ ''</tool_call>'' @ post) = Some (length pre)"
    using assms(1) py_find_first [of "CHR ''<''" "''tool_call>''" pre "body @ ''</tool_call>'' @ post"] by simp
  moreover have "drop (length pre + length ''<tool_call>'') (pre @ ''<tool_call>'' @ body @ ''</tool_call>'' @ post) =
      body @ ''</tool_call>'' @ post"
    by simp
  moreover have "py_find ''</tool_call>'' (body @ ''</tool_call>'' @ post) = Some (length body)"
    using assms(2) py_find_first [of "CHR ''<''" "''/tool_call>''" body post] by simp
  ultimately show ?thesis by (simp only: between_def option.case Let_def) simp
qed

lemma json_dumps_ends:
  assumes "json_ok v"
  shows "json_dumps v \<noteq> [] \<and> \<not> py_isspace (hd (json_dumps v)) \<and> \<not> py_isspace (last (json_dumps v))"
proof -
  obtain c cs where c: "json_dumps v = c # cs" "value_start c" using json_dumps_start [OF assms] by blast
  have "\<not> py_isspace c" using c(2) by (auto simp: value_start_def py_isspace_def dquote_def)
  moreover have "\<not> py_isspace (last (json_dumps v))"
  proof (cases v)
    case (JInt i)
    have "py_isdigit (last (str_nat n))" for n
      using str_nat_digits [of n] by (metis last_in_set str_nat_nonempty)
    then have "py_isdigit (last (json_dumps v))" using JInt by (simp add: str_int_def)
    then show ?thesis by (auto simp: py_isdigit_def py_isspace_def Let_def)
  qed (use assms in \<open>auto simp: py_isspace_def json_quote_def dquote_def\<close>)
  ultimately show ?thesis using c(1) by simp
qed

lemma toolcall_extract_json:
  assumes "json_ok v" "\<forall>c\<in>set (w @ w'). py_isspace c"
    and "\<not> py_in ''<tool_call>'' pre" "\<not> py_in ''</tool_call>'' (json_dumps v)"
  shows "toolcall_extract (pre @ ''<tool_call>'' @ w @ json_dumps v @ w' @ ''</tool_call>'' @ post) =
    bind_res (call_of_data v) (\<lambda>c. Inr (Some c))"
proof -
  have visible: "\<forall>c\<in>set ''</tool_call>''. \<not> py_isspace c" by (simp add: py_isspace_def)
  have "\<forall>c\<in>set w. py_isspace c" "\<forall>c\<in>set w'. py_isspace c" using assms(2) by simp_all
  then have apart: "set w \<inter> set ''</tool_call>'' = {}" "set w' \<inter> set ''</tool_call>'' = {}"
    using visible by blast+
  have "\<not> py_in ''</tool_call>'' (w @ json_dumps v @ w')"
    unfolding py_in_skip [OF apart(1) list.distinct(2)] py_in_skip_end [OF apart(2) list.distinct(2)] by (rule assms(4))
  then have "between ''<tool_call>'' ''</tool_call>'' (pre @ ''<tool_call>'' @ (w @ json_dumps v @ w') @ ''</tool_call>'' @ post) =
      Some (w @ json_dumps v @ w')"
    by (rule between_tags [OF assms(3)])
  moreover have "py_strip (w @ json_dumps v @ w') = json_dumps v"
    using assms(2) json_dumps_ends [OF assms(1)] by (intro py_strip_around) auto
  ultimately show ?thesis
    using json_round_trip [OF assms(1)] by (simp add: toolcall_extract_def)
qed

text \<open>A model that follows the system prompt is understood: a tool name and arguments printed as JSON
  between the tags, with any white space around them and any text before and after, are read back
  as that call (strings of any content, numbers without a fraction, no key twice).\<close>

theorem toolcall_extract_call:
  assumes "json_ok args" "\<forall>c\<in>set (w @ w'). py_isspace c" "\<not> py_in ''<tool_call>'' pre"
    and "\<not> py_in ''</tool_call>'' (json_dumps (JObj [(''name'', JStr name), (''arguments'', args)]))"
  shows "toolcall_extract (pre @ ''<tool_call>'' @ w @ json_dumps (JObj [(''name'', JStr name), (''arguments'', args)]) @ w' @
      ''</tool_call>'' @ post) = Inr (Some \<lparr>tc_name = JStr name, tc_args = args\<rparr>)"
  using toolcall_extract_json [of "JObj [(''name'', JStr name), (''arguments'', args)]" w w' pre post] assms
  by (simp add: call_of_data_def)

theorem toolcall_extract_call_witness:
  "toolcall_extract (''Let me check. '' @ ''<tool_call>'' @ '' '' @
      json_dumps (JObj [(''name'', JStr ''search''), (''arguments'', JObj [(''n'', JInt (- 3))])]) @ '' '' @
      ''</tool_call>'' @ [CHR 0x0A]) = Inr (Some \<lparr>tc_name = JStr ''search'', tc_args = JObj [(''n'', JInt (- 3))]\<rparr>)"
proof (rule toolcall_extract_call)
  show "\<not> py_in ''</tool_call>'' (json_dumps (JObj [(''name'', JStr ''search''), (''arguments'', JObj [(''n'', JInt (- 3))])]))"
    by code_simp
  show "\<not> py_in ''<tool_call>'' ''Let me check. ''" by code_simp
qed (simp_all add: py_isspace_def)

text \<open>JSON that is not an object is not answered with an invalid call, as broken JSON is: a number
  between the tags raises \<open>TypeError\<close>, which no caller of \<open>toolcall_extract\<close> handles.\<close>

theorem toolcall_extract_number_raises:
  "toolcall_extract (''<tool_call>'' @ str_int i @ ''</tool_call>'') = Inl TypeError"
proof -
  have "\<not> py_in ''</tool_call>'' (str_int i)"
  proof
    assume "py_in ''</tool_call>'' (str_int i)"
    then obtain a b where "str_int i = a @ ''</tool_call>'' @ b" by (auto simp: py_in_iff)
    then have "CHR ''<'' \<in> set (str_int i)" by simp
    then have "CHR ''<'' = CHR ''-'' \<or> py_isdigit (CHR ''<'')"
      using str_nat_digits by (auto simp: str_int_def split: if_splits)
    then show False by (simp add: py_isdigit_def)
  qed
  then show ?thesis
    using toolcall_extract_json [of "JInt i" "[]" "[]" "[]" "[]"] by (simp add: call_of_data_def)
qed

text \<open>The calculator the agent offers cannot reward the answer it asks for: it wants "a digits", but
  scores with the strict method, which looks for \<open>####\<close>; an answer of digits always gets reward 0,
  the ground truth included.\<close>

theorem gsm8k_tool_never_rewards:
  assumes "d \<noteq> []" "\<forall>c\<in>set d. py_isdigit c"
  shows "tool_message (Some gt) \<lparr>tc_name = JStr ''calc_gsm8k_reward'', tc_args = JObj [(''answer'', JStr d)]\<rparr> =
    Inr (''tool'', ''Current parsed answer='' @ py_repr d @ '' reward=0'')"
proof -
  have "\<not> py_in ''#### '' d"
  proof
    assume "py_in ''#### '' d"
    then obtain a b where "d = a @ ''#### '' @ b" by (auto simp: py_in_iff)
    then have "py_isdigit (CHR ''#'')" using assms(2) by simp
    then show False by (simp add: py_isdigit_def)
  qed
  then show ?thesis using assms(1) by (simp add: tool_message_def strict_needs_marker json_truthy_def json_str_def)
qed

theorem gsm8k_tool_never_rewards_witness:
  "tool_message (Some ''42'') \<lparr>tc_name = JStr ''calc_gsm8k_reward'', tc_args = JObj [(''answer'', JStr ''42'')]\<rparr> =
    Inr (''tool'', ''Current parsed answer='' @ py_repr ''42'' @ '' reward=0'')"
  by (rule gsm8k_tool_never_rewards) (simp_all add: py_isdigit_def)

section \<open>The loop\<close>

text \<open>Replies whose tool calls, if any, can be read and answered.\<close>

definition readable :: "string option \<Rightarrow> chat_msg \<Rightarrow> bool" where
  "readable gt m =
     (case toolcall_extract (snd m) of
        Inl e \<Rightarrow> False
      | Inr None \<Rightarrow> True
      | Inr (Some call) \<Rightarrow> (\<exists>t. tool_message gt call = Inr t))"

lemma tool_loop_returns:
  assumes "\<And>i ms. \<exists>c. llm i ms kwargs = Inr c \<and> readable gt (to_message c)" "readable gt (last conv)"
  shows "\<exists>msgs n. tool_loop llm kwargs gt k step conv = Inr (conv @ msgs, step + n) \<and> n \<le> k \<and> length msgs = 2 * n \<and>
    (n < k \<longrightarrow> toolcall_extract (snd (last (conv @ msgs))) = Inr None)"
  using assms(2)
proof (induction k arbitrary: step conv)
  case 0
  then show ?case by simp
next
  case (Suc k)
  show ?case
  proof (cases "toolcall_extract (snd (last conv))")
    case (Inl e)
    then show ?thesis using Suc.prems by (simp add: readable_def)
  next
    case (Inr p)
    show ?thesis
    proof (cases p)
      case None
      then show ?thesis using Inr by (intro exI [of _ "[]"] exI [of _ 0]) simp
    next
      case (Some call)
      obtain t where t: "tool_message gt call = Inr t" using Suc.prems Inr Some by (auto simp: readable_def)
      obtain c where c: "llm (Suc step) (conv @ [t]) kwargs = Inr c" "readable gt (to_message c)" using assms(1) by blast
      obtain msgs n where IH: "tool_loop llm kwargs gt k (Suc step) (conv @ [t, to_message c]) =
          Inr ((conv @ [t, to_message c]) @ msgs, Suc step + n)" "n \<le> k" "length msgs = 2 * n"
        "n < k \<longrightarrow> toolcall_extract (snd (last ((conv @ [t, to_message c]) @ msgs))) = Inr None"
        using Suc.IH [of "conv @ [t, to_message c]" "Suc step"] c(2) by auto
      show ?thesis
        by (rule exI [of _ "[t, to_message c] @ msgs"], rule exI [of _ "Suc n"]) (use IH Inr Some t c(1) in simp)
    qed
  qed
qed

text \<open>A tool rollout ends: with a model that answers every request by a message whose call can be
  read, it returns the prompt with the system message in front, the first reply, and one tool
  message and one reply for each of at most \<open>max_turn\<close> calls; it stops before the limit only on a
  reply without a call.\<close>

theorem tool_rollout_returns:
  assumes "raw_prompt \<noteq> []" "\<And>i ms. \<exists>c. llm i ms kwargs = Inr c \<and> readable gt (to_message c)"
  shows "\<exists>out conv0 msgs. tool_rollout llm system_msg kwargs max_turn gt j raw_prompt = Inr out \<and>
    merge_system_prompt raw_prompt system_msg = Inr conv0 \<and> to_conversation out = conv0 @ msgs \<and>
    length msgs = 2 * to_tool_calls out + 1 \<and> to_tool_calls out \<le> nat max_turn \<and>
    (to_tool_calls out < nat max_turn \<longrightarrow> toolcall_extract (snd (last (to_conversation out))) = Inr None)"
proof -
  obtain conv0 where conv0: "merge_system_prompt raw_prompt system_msg = Inr conv0"
    using assms(1) by (cases raw_prompt; cases "fst (hd raw_prompt) = ''system''") (auto simp: merge_system_prompt_def)
  obtain c where c: "llm 0 conv0 kwargs = Inr c" "readable gt (to_message c)" using assms(2) by blast
  have "readable gt (last (conv0 @ [to_message c]))" using c(2) by simp
  from tool_loop_returns [where llm = llm and kwargs = kwargs and k = "nat max_turn" and step = 0, OF assms(2) this]
  obtain msgs n where "tool_loop llm kwargs gt (nat max_turn) 0 (conv0 @ [to_message c]) = Inr ((conv0 @ [to_message c]) @ msgs, 0 + n)"
    "n \<le> nat max_turn" "length msgs = 2 * n"
    "n < nat max_turn \<longrightarrow> toolcall_extract (snd (last ((conv0 @ [to_message c]) @ msgs))) = Inr None"
    by blast
  then show ?thesis
    by (intro exI [of _ "\<lparr>to_conversation = conv0 @ to_message c # msgs, to_sample_index = j, to_tool_calls = n\<rparr>"] exI
        [of _ conv0] exI [of _ "to_message c # msgs"]) (simp add: tool_rollout_def conv0 c(1))
qed

definition sample_reply :: choice where
  "sample_reply = \<lparr>ch_role = ''assistant'', ch_content = ''<tool_call>{}</tool_call>'',
     ch_finish = ''stop'', ch_stop = None\<rparr>"

theorem tool_rollout_returns_witness:
  "\<exists>out conv0 msgs. tool_rollout (\<lambda>i ms kw. Inr sample_reply) ''s'' [] 3 None 0 [(''user'', ''q'')] = Inr out \<and>
    merge_system_prompt [(''user'', ''q'')] ''s'' = Inr conv0 \<and> to_conversation out = conv0 @ msgs \<and>
    length msgs = 2 * to_tool_calls out + 1 \<and> to_tool_calls out \<le> nat 3 \<and>
    (to_tool_calls out < nat 3 \<longrightarrow> toolcall_extract (snd (last (to_conversation out))) = Inr None)"
proof (rule tool_rollout_returns)
  have "toolcall_extract (snd (to_message sample_reply)) = Inr (Some (invalid_call ''tool name not found''))"
    by code_simp
  moreover have "tool_message None (invalid_call ''tool name not found'') = Inr (''tool'', ''tool name not found'')"
    by code_simp
  ultimately have "readable None (to_message sample_reply)" by (simp add: readable_def)
  then show "\<exists>c. (Inr sample_reply :: choice res) = Inr c \<and> readable None (to_message c)" for i :: nat and ms :: "chat_msg list"
    by blast
qed simp

end
