(* ===== verification/ToolAgentLoop.thy ===== *)
theory ToolAgentLoop
  imports ToolAgent
begin

text \<open>
  The multi-turn tool agent of \<open>verl/experimental/agent_loop/tool_agent_loop.py\<close> and the Hermes parser of
  \<open>tool_parser.py\<close>. The inference server, the chat template and the tools are the fields of an
  environment; images and rows of routed experts are opaque numbers. Timers are left out.
\<close>

section \<open>Data\<close>

datatype agent_state = PENDING | GENERATING | PROCESSING_TOOLS | TERMINATED

record function_call =
  fc_name :: string
  fc_arguments :: string

datatype tool_image = NoImage | OneImage nat | ImageList "nat option list"

record tool_response =
  tr_text :: "string option"
  tr_image :: tool_image
  tr_video :: bool

record token_output =
  tk_ids :: "int list"
  tk_log_probs :: "rat list"
  tk_experts :: "nat list option"
  tk_preempted :: "int option"
  tk_extra :: "(string \<times> json) list"

record agent_data =
  ad_prompt_ids :: "int list"
  ad_response_ids :: "int list"
  ad_response_mask :: "int list"
  ad_logprobs :: "rat list"
  ad_tool_rewards :: "rat list"
  ad_user_turns :: nat
  ad_assistant_turns :: nat
  ad_tool_calls :: "function_call list"
  ad_experts :: "nat list option"
  ad_extra :: "(string \<times> json) list"
  ad_images :: "nat list option"
  ad_preempted :: "int option"

record loop_config =
  lc_max_user_turns :: "int option"
  lc_max_assistant_turns :: "int option"
  lc_max_parallel_calls :: int
  lc_max_tool_response_length :: int
  lc_truncate_side :: string
  lc_response_length :: int
  lc_gpt_oss :: bool
  lc_image_processor :: bool

text \<open>
  A tool's message. A tool with a life cycle is created, executed and released; the numbers the tools
  get are the turn, so that they may answer differently every time.
\<close>

datatype tool_content = Content_Text string | Content_Parts bool bool "string option"

type_synonym tool_result = "tool_response \<times> rat option"

datatype tool =
    Function_Tool "nat \<Rightarrow> json \<Rightarrow> tool_result res"
  | Base_Tool "nat \<Rightarrow> string option res" "nat \<Rightarrow> string option \<Rightarrow> json \<Rightarrow> tool_result res" "string \<Rightarrow> unit res"

record loop_env =
  en_prompt :: "nat list option \<Rightarrow> int list res"
  en_server :: "nat \<Rightarrow> int list \<Rightarrow> nat list option \<Rightarrow> token_output res"
  en_parse :: "int list \<Rightarrow> function_call list res"
  en_tools :: "(string \<times> tool) list"
  en_error_text :: "py_error \<Rightarrow> string"
  en_tool_prompt :: "tool_content list \<Rightarrow> nat list option \<Rightarrow> int list res"
  en_system_len :: nat
  en_encode :: "string \<Rightarrow> int list"

section \<open>The Hermes parser\<close>

text \<open>\<open>regex.findall\<close> of the text between two tags.\<close>

function find_between :: "string \<Rightarrow> string \<Rightarrow> string \<Rightarrow> string list" where
  "find_between opening closing text =
     (case py_find opening text of
        None \<Rightarrow> []
      | Some i \<Rightarrow>
          (let rest = drop (i + length opening) text
           in case py_find closing rest of
                None \<Rightarrow> []
              | Some j \<Rightarrow> if opening = [] \<and> closing = [] then []
                          else take j rest # find_between opening closing (drop (j + length closing) rest)))"
  by pat_completeness auto
termination
proof (relation "measure (\<lambda>(p, c, s). length s)")
  fix p c s i rest j
  assume a: "py_find p s = Some i" "rest = drop (i + length p) s" "py_find c rest = Some j" "\<not> (p = [] \<and> c = [])"
  from py_find_Some [OF a(1)] py_find_Some [OF a(3)] have "i + length p \<le> length s" "j + length c \<le> length rest" by auto
  then have "length (drop (j + length c) rest) < length s"
    using a(2,4) by (cases p; cases c) auto
  then show "((p, c, drop (j + length c) rest), (p, c, s)) \<in> measure (\<lambda>(p, c, s). length s)" by simp
qed auto

declare find_between.simps [simp del]

text \<open>Whatever goes wrong with one match, it is skipped; \<open>FunctionCall\<close> wants a string for a name.\<close>

definition hermes_call :: "string \<Rightarrow> function_call option res" where
  "hermes_call body =
     (case json_loads body of
        Inl e \<Rightarrow> (case e of OtherError n \<Rightarrow> Inl e | _ \<Rightarrow> Inr None)
      | Inr (JObj ms) \<Rightarrow>
          Inr (case (map_of ms ''name'', map_of ms ''arguments'') of
                 (Some (JStr n), Some args) \<Rightarrow> Some \<lparr>fc_name = n, fc_arguments = json_dumps args\<rparr>
               | _ \<Rightarrow> None)
      | Inr _ \<Rightarrow> Inr None)"

definition hermes_extract :: "string \<Rightarrow> function_call list res" where
  "hermes_extract text =
     (if \<not> py_in ''<tool_call>'' text \<or> \<not> py_in ''</tool_call>'' text then Inr []
      else bind_res (map_res hermes_call (find_between ''<tool_call>'' ''</tool_call>'' text))
        (\<lambda>calls. Inr (map the (filter (\<lambda>c. c \<noteq> None) calls))))"

section \<open>Calling a tool\<close>

definition text_response :: "string \<Rightarrow> tool_response" where
  "text_response t = \<lparr>tr_text = Some t, tr_image = NoImage, tr_video = False\<rparr>"

definition truncate_tool_text :: "loop_config \<Rightarrow> string \<Rightarrow> string" where
  "truncate_tool_text cfg t =
     (let m = lc_max_tool_response_length cfg
      in if \<not> (t \<noteq> [] \<and> m < int (length t)) then t
         else if lc_truncate_side cfg = ''left'' then py_slice None (Some m) t @ ''...(truncated)''
         else if lc_truncate_side cfg = ''right'' then ''(truncated)...'' @ py_slice (Some (- m)) None t
         else py_slice None (Some (m div 2)) t @ ''...(truncated)...'' @ py_slice (Some (- (m div 2))) None t)"

text \<open>
  \<open>try ... except ... finally\<close>: an exception of the tool becomes its answer; one of \<open>release\<close> is
  raised in its stead.
\<close>

definition execute_tool :: "nat \<Rightarrow> tool \<Rightarrow> json \<Rightarrow> (tool_result res) res" where
  "execute_tool turn t args =
     (case t of
        Function_Tool call \<Rightarrow> Inr (call turn args)
      | Base_Tool create execute release \<Rightarrow>
          (case create turn of
             Inl e \<Rightarrow> Inr (Inl e)
           | Inr inst \<Rightarrow>
               (let r = execute turn inst args
                in case inst of
                     Some i \<Rightarrow> if i = [] then Inr r else bind_res (release i) (\<lambda>_. Inr r)
                   | None \<Rightarrow> Inr r)))"

definition call_tool :: "loop_config \<Rightarrow> loop_env \<Rightarrow> nat \<Rightarrow> function_call \<Rightarrow> tool_result res" where
  "call_tool cfg env turn call =
     (let name = fc_name call
      in case map_of (en_tools env) name of
           None \<Rightarrow>
             bind_res (json_repr (JArr (map (JStr \<circ> fst) (en_tools env)))) (\<lambda>available.
               Inr (text_response (''Unknown function '' @ [CHR 0x27] @ name @ [CHR 0x27] @ ''. Available tools: '' @ available), Some 0))
         | Some t \<Rightarrow>
             (case json_loads (fc_arguments call) of
                Inl e \<Rightarrow>
                  if e = ValueError
                  then Inr (text_response (''Invalid JSON in arguments for '' @ [CHR 0x27] @ name @ [CHR 0x27] @ '': '' @ en_error_text env e), Some 0)
                  else Inl e
              | Inr args \<Rightarrow>
                  bind_res (execute_tool turn t args) (\<lambda>r.
                    Inr (case r of
                           Inl e \<Rightarrow> (text_response (''Error executing tool '' @ [CHR 0x27] @ name @ [CHR 0x27] @ '': '' @ en_error_text env e), Some 0)
                         | Inr (resp, reward) \<Rightarrow>
                             (resp\<lparr>tr_text := map_option (truncate_tool_text cfg) (tr_text resp)\<rparr>, reward)))))"

section \<open>The states\<close>

definition handle_pending :: "loop_env \<Rightarrow> agent_data \<Rightarrow> (agent_state \<times> agent_data) res" where
  "handle_pending env d =
     bind_res (en_prompt env (ad_images d)) (\<lambda>ids. Inr (GENERATING, d\<lparr>ad_prompt_ids := ids\<rparr>))"

definition turn_limit :: "int option \<Rightarrow> nat \<Rightarrow> bool" where
  "turn_limit limit turns = (case limit of None \<Rightarrow> False | Some m \<Rightarrow> m \<noteq> 0 \<and> m \<le> int turns)"

definition merge_extra :: "(string \<times> json) list \<Rightarrow> (string \<times> json) list \<Rightarrow> (string \<times> json) list" where
  "merge_extra old new =
     (if old = [] then dict_update [] new
      else case map_of new ''max_global_steps'' of
             Some v \<Rightarrow> if json_truthy v then AList.update ''max_global_steps'' v old else old
           | None \<Rightarrow> old)"

definition add_generation :: "token_output \<Rightarrow> agent_data \<Rightarrow> agent_data" where
  "add_generation out d =
     d\<lparr>ad_preempted :=
         Some (case ad_preempted d of
                 None \<Rightarrow> (case tk_preempted out of None \<Rightarrow> - 1 | Some n \<Rightarrow> n)
               | Some m \<Rightarrow> m + (case tk_preempted out of None \<Rightarrow> 0 | Some n \<Rightarrow> n)),
       ad_extra := merge_extra (ad_extra d) (tk_extra out),
       ad_assistant_turns := ad_assistant_turns d + 1,
       ad_response_ids := tk_ids out,
       ad_prompt_ids := ad_prompt_ids d @ tk_ids out,
       ad_response_mask := ad_response_mask d @ replicate (length (tk_ids out)) 1,
       ad_logprobs := ad_logprobs d @ tk_log_probs out,
       ad_experts := (case tk_experts out of None \<Rightarrow> ad_experts d | Some e \<Rightarrow> Some e)\<rparr>"

definition handle_generating :: "loop_config \<Rightarrow> loop_env \<Rightarrow> bool \<Rightarrow> agent_data \<Rightarrow> (agent_state \<times> agent_data) res" where
  "handle_generating cfg env ignore_termination d =
     bind_res (en_server env (ad_assistant_turns d) (ad_prompt_ids d) (ad_images d)) (\<lambda>out.
       let d1 = add_generation out d
       in if \<not> ignore_termination \<and> lc_response_length cfg \<le> int (length (ad_response_mask d1)) then Inr (TERMINATED, d1)
          else if turn_limit (lc_max_assistant_turns cfg) (ad_assistant_turns d1) then Inr (TERMINATED, d1)
          else if turn_limit (lc_max_user_turns cfg) (ad_user_turns d1) then Inr (TERMINATED, d1)
          else bind_res (en_parse env (ad_response_ids d1)) (\<lambda>calls.
                 Inr (if calls \<noteq> [] then PROCESSING_TOOLS else TERMINATED, d1\<lparr>ad_tool_calls := calls\<rparr>)))"

definition has_image :: "tool_response \<Rightarrow> bool" where
  "has_image r = (case tr_image r of NoImage \<Rightarrow> False | OneImage i \<Rightarrow> True | ImageList is \<Rightarrow> is \<noteq> [])"

definition new_images :: "tool_response \<Rightarrow> nat list" where
  "new_images r = (case tr_image r of NoImage \<Rightarrow> [] | OneImage i \<Rightarrow> [i] | ImageList is \<Rightarrow> map the (filter (\<lambda>i. i \<noteq> None) is))"

text \<open>One response: its message, its images and its reward.\<close>

definition take_response :: "loop_config \<Rightarrow> tool_result \<Rightarrow> (tool_content \<times> nat list \<times> rat list) res" where
  "take_response cfg rr =
     (let r = fst rr
      in if (has_image r \<or> tr_video r) \<and> \<not> lc_image_processor cfg then Inl ValueError
         else if tr_video r then Inl NotImplementedError
         else Inr (if has_image r
                   then Content_Parts True False (case tr_text r of Some t \<Rightarrow> if t = [] then None else Some t | None \<Rightarrow> None)
                   else Content_Text (case tr_text r of Some t \<Rightarrow> t | None \<Rightarrow> []),
                   new_images r, case snd rr of None \<Rightarrow> [] | Some x \<Rightarrow> [x]))"

definition content_string :: "tool_content \<Rightarrow> string res" where
  "content_string c =
     (case c of
        Content_Text t \<Rightarrow> Inr t
      | Content_Parts im vi t \<Rightarrow>
          json_repr (JArr ((if im then [JObj [(''type'', JStr ''image'')]] else []) @
                           (if vi then [JObj [(''type'', JStr ''video'')]] else []) @
                           (case t of None \<Rightarrow> [] | Some s \<Rightarrow> [JObj [(''type'', JStr ''text''), (''text'', JStr s)]]))))"

definition build_gpt_oss_tool_response_text :: "tool_content list \<Rightarrow> string list \<Rightarrow> string res" where
  "build_gpt_oss_tool_response_text messages names =
     bind_res (map_res (\<lambda>(c, n). bind_res (content_string c) (\<lambda>t.
         Inr (''<|start|>functions.'' @ n @ '' to=assistant<|channel|>commentary<|message|>'' @ t @ ''<|end|>'')))
         (zip messages names))
       (\<lambda>texts. Inr (concat texts @ ''<|start|>assistant''))"

text \<open>What follows the calls: the messages are encoded and, if they fit, added to the conversation.\<close>

definition continue_tools ::
  "loop_config \<Rightarrow> loop_env \<Rightarrow> function_call list \<Rightarrow> (tool_content \<times> nat list \<times> rat list) list \<Rightarrow> agent_data \<Rightarrow>
   (agent_state \<times> agent_data) res" where
  "continue_tools cfg env calls taken d =
     (let messages = map fst taken;
          images = concat (map (fst \<circ> snd) taken);
          d1 = d\<lparr>ad_tool_rewards := ad_tool_rewards d @ concat (map (snd \<circ> snd) taken)\<rparr>
      in bind_res
           (if lc_gpt_oss cfg
            then bind_res (build_gpt_oss_tool_response_text messages (map fc_name calls)) (\<lambda>t. Inr (en_encode env t))
            else bind_res (en_tool_prompt env messages (if images = [] then None else Some images))
                   (\<lambda>ids. Inr (drop (en_system_len env) ids)))
           (\<lambda>ids.
              if lc_response_length cfg \<le> int (length (ad_response_mask d1)) + int (length ids) then Inr (TERMINATED, d1)
              else Inr (GENERATING,
                d1\<lparr>ad_images := (if images = [] then ad_images d1
                                 else Some ((case ad_images d1 of None \<Rightarrow> [] | Some is \<Rightarrow> is) @ images)),
                   ad_prompt_ids := ad_prompt_ids d1 @ ids,
                   ad_response_mask := ad_response_mask d1 @ replicate (length ids) 0,
                   ad_logprobs := (if ad_logprobs d1 = [] then [] else ad_logprobs d1 @ replicate (length ids) 0),
                   ad_user_turns := ad_user_turns d1 + 1\<rparr>)))"

definition handle_processing_tools :: "loop_config \<Rightarrow> loop_env \<Rightarrow> agent_data \<Rightarrow> (agent_state \<times> agent_data) res" where
  "handle_processing_tools cfg env d =
     (let calls = py_slice None (Some (lc_max_parallel_calls cfg)) (ad_tool_calls d)
      in bind_res (map_res (call_tool cfg env (ad_user_turns d)) calls) (\<lambda>responses.
         bind_res (map_res (take_response cfg) responses) (\<lambda>taken. continue_tools cfg env calls taken d)))"

definition handle_state :: "loop_config \<Rightarrow> loop_env \<Rightarrow> agent_state \<Rightarrow> agent_data \<Rightarrow> (agent_state \<times> agent_data) res" where
  "handle_state cfg env s d =
     (case s of
        PENDING \<Rightarrow> handle_pending env d
      | GENERATING \<Rightarrow> handle_generating cfg env False d
      | PROCESSING_TOOLS \<Rightarrow> handle_processing_tools cfg env d
      | TERMINATED \<Rightarrow> Inr (TERMINATED, d))"

text \<open>The loop of \<open>run\<close>, with fuel.\<close>

fun state_loop :: "nat \<Rightarrow> loop_config \<Rightarrow> loop_env \<Rightarrow> agent_state \<Rightarrow> agent_data \<Rightarrow> agent_data res option" where
  "state_loop 0 cfg env s d = (if s = TERMINATED then Some (Inr d) else None)"
| "state_loop (Suc n) cfg env s d =
     (if s = TERMINATED then Some (Inr d)
      else case handle_state cfg env s d of
             Inl e \<Rightarrow> Some (Inl e)
           | Inr (s', d') \<Rightarrow> state_loop n cfg env s' d')"

record loop_output =
  lo_prompt_ids :: "int list"
  lo_response_ids :: "int list"
  lo_response_mask :: "int list"
  lo_logprobs :: "rat list option"
  lo_num_turns :: nat
  lo_experts :: "nat list option"
  lo_images :: "nat list option"
  lo_extra :: "(string \<times> json) list"
  lo_tool_rewards :: "rat list"
  lo_preempted :: int

definition start_data :: "nat list option \<Rightarrow> agent_data" where
  "start_data images =
     \<lparr>ad_prompt_ids = [], ad_response_ids = [], ad_response_mask = [], ad_logprobs = [], ad_tool_rewards = [],
      ad_user_turns = 0, ad_assistant_turns = 0, ad_tool_calls = [], ad_experts = None, ad_extra = [],
      ad_images = images, ad_preempted = None\<rparr>"

definition finalize_output :: "loop_config \<Rightarrow> agent_data \<Rightarrow> loop_output" where
  "finalize_output cfg d =
     (let n = int (length (ad_response_mask d)); rl = lc_response_length cfg;
          response_ids = py_slice (Some (- n)) None (ad_prompt_ids d);
          prompt_ids = py_slice None (Some (int (length (ad_prompt_ids d)) - n)) (ad_prompt_ids d)
      in \<lparr>lo_prompt_ids = prompt_ids,
          lo_response_ids = py_slice None (Some rl) response_ids,
          lo_response_mask = py_slice None (Some rl) (ad_response_mask d),
          lo_logprobs = (if ad_logprobs d = [] then None else Some (py_slice None (Some rl) (ad_logprobs d))),
          lo_num_turns = ad_user_turns d + ad_assistant_turns d + 1,
          lo_experts = map_option (py_slice None (Some (int (length prompt_ids) + rl))) (ad_experts d),
          lo_images = ad_images d, lo_extra = ad_extra d, lo_tool_rewards = ad_tool_rewards d,
          lo_preempted = (case ad_preempted d of None \<Rightarrow> - 1 | Some n \<Rightarrow> n)\<rparr>)"

definition agent_loop_run :: "nat \<Rightarrow> loop_config \<Rightarrow> loop_env \<Rightarrow> nat list option \<Rightarrow> loop_output res option" where
  "agent_loop_run fuel cfg env images =
     (case state_loop fuel cfg env PENDING (start_data images) of
        None \<Rightarrow> None
      | Some (Inl e) \<Rightarrow> Some (Inl e)
      | Some (Inr d) \<Rightarrow> Some (Inr (finalize_output cfg d)))"

text \<open>The single-turn agent of \<open>single_turn_agent_loop.py\<close>.\<close>

definition single_turn_run :: "int \<Rightarrow> loop_env \<Rightarrow> nat list option \<Rightarrow> loop_output res" where
  "single_turn_run response_length env images =
     bind_res (en_prompt env images) (\<lambda>prompt_ids.
     bind_res (en_server env 0 prompt_ids images) (\<lambda>out.
       Inr \<lparr>lo_prompt_ids = prompt_ids,
            lo_response_ids = py_slice None (Some response_length) (tk_ids out),
            lo_response_mask = py_slice None (Some response_length) (replicate (length (tk_ids out)) 1),
            lo_logprobs = (if tk_log_probs out = [] then None else Some (py_slice None (Some response_length) (tk_log_probs out))),
            lo_num_turns = 2,
            lo_experts = map_option (py_slice None (Some (int (length prompt_ids) + response_length))) (tk_experts out),
            lo_images = images, lo_extra = tk_extra out, lo_tool_rewards = [],
            lo_preempted = (case tk_preempted out of None \<Rightarrow> - 1 | Some n \<Rightarrow> n)\<rparr>))"

end
