(* ===== verification/ToolAgentTrace.thy ===== *)
theory ToolAgentTrace
  imports ToolAgentLoop
begin

text \<open>
  The tool agent loop as a labelled transition system: a step is one state of the machine, its label
  the tokens it added to the conversation. Reachable states keep the tokens, the mask and the log
  probabilities aligned; the executable loop follows the relation and ends.
\<close>

datatype event = Silent | Generated "int list" "rat list" | Observed "int list"

fun event_ids :: "event \<Rightarrow> int list" where
  "event_ids Silent = []"
| "event_ids (Generated ids lps) = ids"
| "event_ids (Observed ids) = ids"

fun event_mask :: "event \<Rightarrow> int list" where
  "event_mask Silent = []"
| "event_mask (Generated ids lps) = replicate (length ids) 1"
| "event_mask (Observed ids) = replicate (length ids) 0"

fun event_logprobs :: "event \<Rightarrow> rat list" where
  "event_logprobs Silent = []"
| "event_logprobs (Generated ids lps) = lps"
| "event_logprobs (Observed ids) = replicate (length ids) 0"

inductive loop_step :: "loop_config \<Rightarrow> loop_env \<Rightarrow> agent_state \<times> agent_data \<Rightarrow> event \<Rightarrow> agent_state \<times> agent_data \<Rightarrow> bool"
  for cfg env where
  step_generate:
    "en_server env (ad_assistant_turns d) (ad_prompt_ids d) (ad_images d) = Inr out \<Longrightarrow>
     handle_generating cfg env False d = Inr sd \<Longrightarrow>
     loop_step cfg env (GENERATING, d) (Generated (tk_ids out) (tk_log_probs out)) sd"
| step_observe:
    "handle_processing_tools cfg env d = Inr (GENERATING, d') \<Longrightarrow>
     ad_prompt_ids d' = ad_prompt_ids d @ ids \<Longrightarrow>
     loop_step cfg env (PROCESSING_TOOLS, d) (Observed ids) (GENERATING, d')"
| step_stop:
    "handle_processing_tools cfg env d = Inr (TERMINATED, d') \<Longrightarrow>
     loop_step cfg env (PROCESSING_TOOLS, d) Silent (TERMINATED, d')"

inductive loop_reach :: "loop_config \<Rightarrow> loop_env \<Rightarrow> nat list option \<Rightarrow> int list \<Rightarrow> event list \<Rightarrow> agent_state \<times> agent_data \<Rightarrow> bool"
  for cfg env images prompt where
  reach_start:
    "handle_pending env (start_data images) = Inr (s, d) \<Longrightarrow> prompt = ad_prompt_ids d \<Longrightarrow>
     loop_reach cfg env images prompt [] (s, d)"
| reach_step:
    "loop_reach cfg env images prompt es sd \<Longrightarrow> loop_step cfg env sd e sd' \<Longrightarrow>
     loop_reach cfg env images prompt (es @ [e]) sd'"

inductive_cases stepE: "loop_step cfg env (s, d) e (s', d')"

section \<open>The invariant\<close>

text \<open>
  The conversation is the prompt followed by the tokens of the events, the mask is 1 on generated and
  0 on observed tokens, and the log probabilities, when every generation brought one per token, stand
  at the same places.
\<close>

definition full_logprobs :: "event list \<Rightarrow> bool" where
  "full_logprobs es = (\<forall>ids lps. Generated ids lps \<in> set es \<longrightarrow> length lps = length ids)"

definition loop_inv :: "int list \<Rightarrow> event list \<Rightarrow> agent_data \<Rightarrow> bool" where
  "loop_inv prompt es d =
     (ad_prompt_ids d = prompt @ concat (map event_ids es) \<and>
      ad_response_mask d = concat (map event_mask es) \<and>
      (full_logprobs es \<longrightarrow> (\<forall>ids lps. Generated ids lps \<in> set es \<longrightarrow> ids \<noteq> []) \<longrightarrow>
         ad_logprobs d = concat (map event_logprobs es)) \<and>
      ((\<forall>ids lps. Generated ids lps \<in> set es \<longrightarrow> lps = []) \<longrightarrow> ad_logprobs d = []))"

lemma concat_map_nonempty: "x \<in> set xs \<Longrightarrow> f x \<noteq> [] \<Longrightarrow> concat (map f xs) \<noteq> []"
  by (induction xs) auto

lemma length_event_mask [simp]: "length (event_mask e) = length (event_ids e)"
  by (cases e) auto

lemma length_masks: "length (concat (map event_mask es)) = length (concat (map event_ids es))"
  by (induction es) auto

lemma handle_generating_cases:
  assumes "handle_generating cfg env b d = Inr (s, d')" "en_server env (ad_assistant_turns d) (ad_prompt_ids d) (ad_images d) = Inr out"
  shows "\<exists>calls. d' = (add_generation out d)\<lparr>ad_tool_calls := calls\<rparr> \<and> (s = TERMINATED \<or> s = PROCESSING_TOOLS)"
proof -
  define d1 where "d1 = add_generation out d"
  have "(s = TERMINATED \<and> d' = d1) \<or> (\<exists>calls. (s = TERMINATED \<or> s = PROCESSING_TOOLS) \<and> d' = d1\<lparr>ad_tool_calls := calls\<rparr>)"
    using assms by (auto simp: handle_generating_def d1_def [symmetric] Let_def bind_res_eq_Inr split: if_splits)
  moreover have "d1 = d1\<lparr>ad_tool_calls := ad_tool_calls d1\<rparr>" by simp
  ultimately show ?thesis unfolding d1_def by metis
qed

lemma handle_processing_cases:
  assumes "handle_processing_tools cfg env d = Inr (s, d')"
  shows "(s = TERMINATED \<and> ad_prompt_ids d' = ad_prompt_ids d \<and> ad_response_mask d' = ad_response_mask d \<and> ad_logprobs d' = ad_logprobs d)
    \<or> (\<exists>ids. s = GENERATING \<and> ad_prompt_ids d' = ad_prompt_ids d @ ids \<and>
        ad_response_mask d' = ad_response_mask d @ replicate (length ids) 0 \<and>
        int (length (ad_response_mask d')) < lc_response_length cfg \<and>
        ad_logprobs d' = (if ad_logprobs d = [] then [] else ad_logprobs d @ replicate (length ids) 0))"
proof -
  obtain responses where "map_res (call_tool cfg env (ad_user_turns d))
      (py_slice None (Some (lc_max_parallel_calls cfg)) (ad_tool_calls d)) = Inr responses"
    and r1: "bind_res (map_res (take_response cfg) responses) (\<lambda>taken.
        continue_tools cfg env (py_slice None (Some (lc_max_parallel_calls cfg)) (ad_tool_calls d)) taken d) = Inr (s, d')"
    using assms unfolding handle_processing_tools_def Let_def bind_res_eq_Inr by blast
  obtain taken where r2: "continue_tools cfg env (py_slice None (Some (lc_max_parallel_calls cfg)) (ad_tool_calls d)) taken d = Inr (s, d')"
    using r1 unfolding bind_res_eq_Inr by blast
  show ?thesis
    using r2 unfolding continue_tools_def Let_def bind_res_eq_Inr
    by (elim exE conjE) (simp split: if_splits, auto)
qed

lemma loop_inv_generate:
  assumes "loop_inv prompt es d"
  shows "loop_inv prompt (es @ [Generated (tk_ids out) (tk_log_probs out)]) ((add_generation out d)\<lparr>ad_tool_calls := calls\<rparr>)"
  using assms by (auto simp: loop_inv_def add_generation_def full_logprobs_def)

lemma loop_inv_observe:
  assumes "loop_inv prompt es d" "Generated ids0 lps0 \<in> set es"
    and "ad_prompt_ids d' = ad_prompt_ids d @ ids" "ad_response_mask d' = ad_response_mask d @ replicate (length ids) 0"
    and "ad_logprobs d' = (if ad_logprobs d = [] then [] else ad_logprobs d @ replicate (length ids) 0)"
  shows "loop_inv prompt (es @ [Observed ids]) d'"
proof -
  have "ad_logprobs d \<noteq> []" if "full_logprobs es" "\<forall>ids lps. Generated ids lps \<in> set es \<longrightarrow> ids \<noteq> []"
  proof -
    have "ad_logprobs d = concat (map event_logprobs es)" using assms(1) that by (simp add: loop_inv_def)
    moreover have "lps0 \<noteq> []" using assms(2) that unfolding full_logprobs_def by (metis length_0_conv)
    moreover have "event_logprobs (Generated ids0 lps0) = lps0" by simp
    ultimately show ?thesis using assms(2) concat_map_nonempty [of "Generated ids0 lps0" es event_logprobs] by simp
  qed
  then show ?thesis using assms by (auto simp: loop_inv_def full_logprobs_def)
qed

lemma loop_inv_silent:
  assumes "loop_inv prompt es d" "ad_prompt_ids d' = ad_prompt_ids d" "ad_response_mask d' = ad_response_mask d"
    and "ad_logprobs d' = ad_logprobs d"
  shows "loop_inv prompt (es @ [Silent]) d'"
  using assms by (auto simp: loop_inv_def full_logprobs_def)

definition state_inv :: "int list \<Rightarrow> event list \<Rightarrow> agent_state \<times> agent_data \<Rightarrow> bool" where
  "state_inv prompt es sd =
     (loop_inv prompt es (snd sd) \<and> fst sd \<noteq> PENDING \<and>
      (fst sd = PROCESSING_TOOLS \<longrightarrow> (\<exists>ids lps. Generated ids lps \<in> set es)))"

lemma state_inv_step:
  assumes "loop_step cfg env sd e sd'" "state_inv prompt es sd"
  shows "state_inv prompt (es @ [e]) sd'"
  using assms
proof (induction rule: loop_step.induct)
  case (step_generate d out sd)
  obtain s' d' where sd: "sd = (s', d')" by fastforce
  from handle_generating_cases [of cfg env False d s' d' out] step_generate sd
  obtain calls where d': "d' = (add_generation out d)\<lparr>ad_tool_calls := calls\<rparr>" "s' = TERMINATED \<or> s' = PROCESSING_TOOLS"
    by auto
  have "loop_inv prompt (es @ [Generated (tk_ids out) (tk_log_probs out)]) d'"
    unfolding d'(1) using step_generate.prems by (intro loop_inv_generate) (simp add: state_inv_def)
  then show ?case using d'(2) sd by (auto simp: state_inv_def)
next
  case (step_observe d d' ids)
  from handle_processing_cases [OF step_observe(1)] obtain ids' where
    "ad_prompt_ids d' = ad_prompt_ids d @ ids'" "ad_response_mask d' = ad_response_mask d @ replicate (length ids') 0"
    "ad_logprobs d' = (if ad_logprobs d = [] then [] else ad_logprobs d @ replicate (length ids') 0)"
    by auto
  moreover have "ids' = ids" using calculation(1) step_observe(2) by simp
  ultimately show ?case
    using step_observe by (auto simp: state_inv_def intro: loop_inv_observe)
next
  case (step_stop d d')
  from handle_processing_cases [OF step_stop(1)] show ?case
    using step_stop by (auto simp: state_inv_def intro: loop_inv_silent)
qed

lemma state_inv_reach: "loop_reach cfg env images prompt es sd \<Longrightarrow> state_inv prompt es sd"
proof (induction rule: loop_reach.induct)
  case (reach_start s d)
  then show ?case
    by (auto simp: state_inv_def loop_inv_def handle_pending_def bind_res_eq_Inr start_data_def)
next
  case (reach_step es sd e sd')
  then show ?case using state_inv_step by blast
qed

section \<open>The executable loop\<close>

lemma handle_state_step:
  assumes "handle_state cfg env s d = Inr sd'" "s \<noteq> PENDING" "s \<noteq> TERMINATED"
  shows "\<exists>e. loop_step cfg env (s, d) e sd'"
proof (cases s)
  case GENERATING
  then have run: "handle_generating cfg env False d = Inr sd'" using assms(1) by (simp add: handle_state_def)
  then obtain out where "en_server env (ad_assistant_turns d) (ad_prompt_ids d) (ad_images d) = Inr out"
    unfolding handle_generating_def bind_res_eq_Inr by blast
  then show ?thesis using run GENERATING step_generate by blast
next
  case PROCESSING_TOOLS
  obtain s' d' where sd: "sd' = (s', d')" by fastforce
  then have run: "handle_processing_tools cfg env d = Inr (s', d')"
    using PROCESSING_TOOLS assms(1) by (simp add: handle_state_def)
  from handle_processing_cases [OF run] show ?thesis
    using run PROCESSING_TOOLS sd step_observe step_stop by blast
qed (use assms in simp_all)

lemma state_loop_reach:
  "state_loop n cfg env s d = Some (Inr d') \<Longrightarrow> loop_reach cfg env images prompt es (s, d) \<Longrightarrow>
    \<exists>es'. loop_reach cfg env images prompt es' (TERMINATED, d')"
proof (induction n arbitrary: s d es)
  case 0
  then show ?case by (auto split: if_splits)
next
  case (Suc n)
  show ?case
  proof (cases "s = TERMINATED")
    case True
    then show ?thesis using Suc.prems by auto
  next
    case False
    then obtain s1 d1 where h: "handle_state cfg env s d = Inr (s1, d1)" "state_loop n cfg env s1 d1 = Some (Inr d')"
      using Suc.prems(1) by (auto split: sum.splits)
    have "s \<noteq> PENDING" using state_inv_reach [OF Suc.prems(2)] by (simp add: state_inv_def)
    from handle_state_step [OF h(1) this False] obtain e where "loop_step cfg env (s, d) e (s1, d1)" by blast
    then have "loop_reach cfg env images prompt (es @ [e]) (s1, d1)" by (rule reach_step [OF Suc.prems(2)])
    then show ?thesis by (rule Suc.IH [OF h(2)])
  qed
qed

lemma agent_loop_run_reach:
  assumes "agent_loop_run fuel cfg env images = Some (Inr out)"
  shows "\<exists>prompt es d. loop_reach cfg env images prompt es (TERMINATED, d) \<and> out = finalize_output cfg d"
proof -
  obtain d where d: "state_loop fuel cfg env PENDING (start_data images) = Some (Inr d)" "out = finalize_output cfg d"
    using assms by (auto simp: agent_loop_run_def split: option.splits sum.splits)
  then obtain n s1 d1 where n: "fuel = Suc n" "handle_pending env (start_data images) = Inr (s1, d1)"
    "state_loop n cfg env s1 d1 = Some (Inr d)"
    by (cases fuel) (auto simp: handle_state_def split: sum.splits)
  then show ?thesis using d(2) state_loop_reach [OF n(3) reach_start [OF n(2) refl]] by blast
qed

section \<open>The properties\<close>

lemma finalize_aligned:
  assumes "loop_inv prompt es d" "0 \<le> lc_response_length cfg"
  defines "resp \<equiv> concat (map event_ids es)" and "n \<equiv> nat (lc_response_length cfg)"
  shows "lo_prompt_ids (finalize_output cfg d) = prompt"
    and "lo_response_ids (finalize_output cfg d) = take n (if resp = [] then prompt else resp)"
    and "lo_response_mask (finalize_output cfg d) = take n (concat (map event_mask es))"
    and "lo_logprobs (finalize_output cfg d) = (if ad_logprobs d = [] then None else Some (take n (ad_logprobs d)))"
proof -
  have d: "ad_prompt_ids d = prompt @ resp" "ad_response_mask d = concat (map event_mask es)"
    using assms(1) by (simp_all add: loop_inv_def resp_def)
  have len: "length (ad_response_mask d) = length resp" using d(2) by (simp add: resp_def length_masks)
  have upto: "py_slice None (Some (lc_response_length cfg)) xs = take n xs" for xs :: "'a list"
    using py_slice_prefix [of n xs] assms(2) by (simp add: n_def)
  have "int (length (prompt @ resp)) - int (length resp) = int (length prompt)" by simp
  then show "lo_prompt_ids (finalize_output cfg d) = prompt"
    by (simp add: finalize_output_def Let_def d(1) len py_slice_prefix)
  have "py_slice (Some (- int (length resp))) None (prompt @ resp) = (if resp = [] then prompt else resp)"
    using py_slice_suffix [of 0 "prompt @ resp"] py_slice_last [of "length resp" "prompt @ resp"] by auto
  then show "lo_response_ids (finalize_output cfg d) = take n (if resp = [] then prompt else resp)"
    by (simp add: finalize_output_def Let_def d(1) len upto)
  show "lo_response_mask (finalize_output cfg d) = take n (concat (map event_mask es))"
    by (simp add: finalize_output_def Let_def d(2) [symmetric] upto)
  show "lo_logprobs (finalize_output cfg d) = (if ad_logprobs d = [] then None else Some (take n (ad_logprobs d)))"
    by (simp add: finalize_output_def Let_def upto)
qed

text \<open>C11. What a run returns: with an inference server that answers every request by at least one token,
  and with one log probability per token or with none according to its configuration, the output's
  prompt, response and mask are those of a path of the machine - the response is the concatenation of
  generated and observed tokens, its mask 1 exactly on the generated ones - cut at the response budget
  and of the same size; the log probabilities stand at the same positions, with zeros on observed
  tokens, when the server gives them, and are \<open>None\<close> when it does not.\<close>

theorem tool_loop_output:
  assumes "agent_loop_run fuel cfg env images = Some (Inr out)" "0 \<le> lc_response_length cfg"
    and "\<And>n ids imgs o'. en_server env n ids imgs = Inr o' \<Longrightarrow>
           tk_ids o' \<noteq> [] \<and> length (tk_log_probs o') = (if calculate_log_probs then length (tk_ids o') else 0)"
  shows "\<exists>prompt es d. loop_reach cfg env images prompt es (TERMINATED, d) \<and> lo_prompt_ids out = prompt \<and>
    lo_response_ids out = take (nat (lc_response_length cfg)) (concat (map event_ids es)) \<and>
    lo_response_mask out = take (nat (lc_response_length cfg)) (concat (map event_mask es)) \<and>
    lo_logprobs out = (if calculate_log_probs then Some (take (nat (lc_response_length cfg)) (concat (map event_logprobs es))) else None) \<and>
    length (lo_response_ids out) = length (lo_response_mask out)"
proof -
  from agent_loop_run_reach [OF assms(1)] obtain prompt es d where
    reach: "loop_reach cfg env images prompt es (TERMINATED, d)" and out: "out = finalize_output cfg d"
    by blast
  have gen: "ids \<noteq> [] \<and> length lps = (if calculate_log_probs then length ids else 0)" if "Generated ids lps \<in> set es'" "loop_reach cfg env images prompt es' sd"
    for ids lps es' sd
    using that(2,1)
    by (induction rule: loop_reach.induct) (auto elim!: loop_step.cases dest: assms(3))
  have some: "\<exists>ids lps. Generated ids lps \<in> set es'" if "loop_reach cfg env images prompt es' sd" "fst sd \<noteq> GENERATING" for es' sd
    using that
  proof (induction rule: loop_reach.induct)
    case (reach_step es sd e sd')
    from reach_step(2) show ?case
      using state_inv_reach [OF reach_step(1)] by (cases rule: loop_step.cases) (auto simp: state_inv_def)
  qed (auto simp: handle_pending_def bind_res_eq_Inr)
  obtain ids lps where g: "Generated ids lps \<in> set es" using some [OF reach] by auto
  have inv: "loop_inv prompt es d" using state_inv_reach [OF reach] by (simp add: state_inv_def)
  have "ids \<noteq> []" using gen [OF g reach] by simp
  then have resp: "concat (map event_ids es) \<noteq> []"
    using concat_map_nonempty [OF g, of event_ids] by (simp del: concat_eq_Nil_conv)
  note fin = finalize_aligned [OF inv assms(2)]
  have "lo_response_ids out = take (nat (lc_response_length cfg)) (concat (map event_ids es))"
    unfolding out fin(2) using resp by (simp only: if_False)
  moreover have "lo_response_mask out = take (nat (lc_response_length cfg)) (concat (map event_mask es))"
    unfolding out by (rule fin(3))
  moreover have "lo_logprobs out = (if calculate_log_probs then Some (take (nat (lc_response_length cfg)) (concat (map event_logprobs es))) else None)"
  proof (cases calculate_log_probs)
    case True
    then have "full_logprobs es" "\<forall>ids lps. Generated ids lps \<in> set es \<longrightarrow> ids \<noteq> []"
      using gen [OF _ reach] by (auto simp: full_logprobs_def)
    then have lps: "ad_logprobs d = concat (map event_logprobs es)" using inv by (simp add: loop_inv_def)
    have "lps \<noteq> []" using gen [OF g reach] True by auto
    then have "concat (map event_logprobs es) \<noteq> []"
      using concat_map_nonempty [OF g, of event_logprobs] by (simp del: concat_eq_Nil_conv)
    then show ?thesis unfolding out fin(4) lps using True by (simp only: if_True if_False)
  next
    case False
    then have "ad_logprobs d = []" using gen [OF _ reach] inv by (simp add: loop_inv_def)
    then show ?thesis unfolding out fin(4) using False by simp
  qed
  moreover have "lo_prompt_ids out = prompt" unfolding out by (rule fin(1))
  moreover have "length (lo_response_ids out) = length (lo_response_mask out)"
    unfolding calculation(1,2) by (simp only: length_take length_masks)
  ultimately show ?thesis using reach by blast
qed

definition loop_rank :: "loop_config \<Rightarrow> agent_state \<Rightarrow> agent_data \<Rightarrow> nat" where
  "loop_rank cfg s d =
     (let room = nat (lc_response_length cfg - int (length (ad_response_mask d)))
      in case s of TERMINATED \<Rightarrow> 0 | GENERATING \<Rightarrow> 2 * room + 1 | PROCESSING_TOOLS \<Rightarrow> 2 * room + 2 | PENDING \<Rightarrow> 2 * room + 2)"

lemma generating_rank:
  assumes "handle_generating cfg env False d = Inr (s', d')" "\<And>n ids imgs o'. en_server env n ids imgs = Inr o' \<Longrightarrow> tk_ids o' \<noteq> []"
  shows "loop_rank cfg s' d' < loop_rank cfg GENERATING d"
proof -
  obtain out where out: "en_server env (ad_assistant_turns d) (ad_prompt_ids d) (ad_images d) = Inr out"
    using assms(1) unfolding handle_generating_def bind_res_eq_Inr by blast
  obtain calls where d': "d' = (add_generation out d)\<lparr>ad_tool_calls := calls\<rparr>" "s' = TERMINATED \<or> s' = PROCESSING_TOOLS"
    using handle_generating_cases [OF assms(1) out] by blast
  have grow: "length (ad_response_mask d) < length (ad_response_mask d')"
    using assms(2) [OF out] by (simp add: d'(1) add_generation_def)
  have "int (length (ad_response_mask d')) < lc_response_length cfg" if "s' = PROCESSING_TOOLS"
    using assms(1) out that by (auto simp: handle_generating_def Let_def bind_res_eq_Inr split: if_splits)
  then show ?thesis using grow d'(2) by (auto simp: loop_rank_def Let_def)
qed

lemma processing_rank:
  assumes "handle_processing_tools cfg env d = Inr (s', d')"
  shows "loop_rank cfg s' d' < loop_rank cfg PROCESSING_TOOLS d"
  using handle_processing_cases [OF assms] by (auto simp: loop_rank_def Let_def)

text \<open>The same with the assistant turns that are left.\<close>

definition turn_rank :: "int \<Rightarrow> agent_state \<Rightarrow> agent_data \<Rightarrow> nat" where
  "turn_rank m s d =
     (let left = nat (m - int (ad_assistant_turns d))
      in case s of TERMINATED \<Rightarrow> 0 | GENERATING \<Rightarrow> 2 * left + 1 | PROCESSING_TOOLS \<Rightarrow> 2 * left + 2 | PENDING \<Rightarrow> 2 * left + 2)"

lemma generating_turn_rank:
  assumes "handle_generating cfg env False d = Inr (s', d')" "lc_max_assistant_turns cfg = Some m" "m \<noteq> 0"
  shows "turn_rank m s' d' < turn_rank m GENERATING d"
proof -
  obtain out where out: "en_server env (ad_assistant_turns d) (ad_prompt_ids d) (ad_images d) = Inr out"
    using assms(1) unfolding handle_generating_def bind_res_eq_Inr by blast
  obtain calls where d': "d' = (add_generation out d)\<lparr>ad_tool_calls := calls\<rparr>" "s' = TERMINATED \<or> s' = PROCESSING_TOOLS"
    using handle_generating_cases [OF assms(1) out] by blast
  have "int (ad_assistant_turns d') < m" if "s' = PROCESSING_TOOLS"
    using assms out that
    by (auto simp: handle_generating_def Let_def bind_res_eq_Inr turn_limit_def split: if_splits)
  then show ?thesis using d' by (auto simp: turn_rank_def Let_def add_generation_def)
qed

lemma processing_turns:
  assumes "handle_processing_tools cfg env d = Inr (s', d')"
  shows "ad_assistant_turns d' = ad_assistant_turns d \<and> (s' = TERMINATED \<or> s' = GENERATING)"
proof -
  obtain calls taken where "continue_tools cfg env calls taken d = Inr (s', d')"
    using assms unfolding handle_processing_tools_def Let_def bind_res_eq_Inr by blast
  then show ?thesis
    unfolding continue_tools_def Let_def bind_res_eq_Inr by (elim exE conjE) (simp split: if_splits, auto)
qed

lemma processing_turn_rank:
  assumes "handle_processing_tools cfg env d = Inr (s', d')"
  shows "turn_rank m s' d' < turn_rank m PROCESSING_TOOLS d"
  using processing_turns [OF assms] by (auto simp: turn_rank_def Let_def)

lemma state_loop_ends:
  assumes gen: "\<And>d s' d'. handle_generating cfg env False d = Inr (s', d') \<Longrightarrow> rank s' d' < rank GENERATING d"
    and tools: "\<And>d s' d'. handle_processing_tools cfg env d = Inr (s', d') \<Longrightarrow> rank s' d' < rank PROCESSING_TOOLS d"
    and pos: "\<And>s d. s \<noteq> TERMINATED \<Longrightarrow> 0 < rank s d"
  shows "s \<noteq> PENDING \<Longrightarrow> rank s d \<le> n \<Longrightarrow> \<exists>r. state_loop n cfg env s d = Some r"
proof (induction n arbitrary: s d)
  case 0
  then show ?case using pos [of s d] by (cases "s = TERMINATED") auto
next
  case (Suc n)
  show ?case
  proof (cases "s = TERMINATED")
    case False
    show ?thesis
    proof (cases "handle_state cfg env s d")
      case (Inr sd)
      obtain s1 d1 where sd: "sd = (s1, d1)" by fastforce
      have "rank s1 d1 < rank s d"
        using Inr sd False Suc.prems(1) gen [of d] tools [of d] by (cases s) (auto simp: handle_state_def)
      moreover have "s1 \<noteq> PENDING"
        using Inr sd False Suc.prems(1) processing_turns [of cfg env d s1 d1]
        by (cases s) (auto simp: handle_state_def handle_generating_def bind_res_eq_Inr Let_def split: if_splits)
      ultimately have "\<exists>r. state_loop n cfg env s1 d1 = Some r" using Suc.prems(2) by (intro Suc.IH) simp_all
      then show ?thesis using Inr sd False by simp
    qed (use False in simp)
  qed simp
qed

lemma run_ends:
  assumes "\<And>d. ad_response_mask d = [] \<Longrightarrow> ad_assistant_turns d = 0 \<Longrightarrow> \<exists>r. state_loop n cfg env GENERATING d = Some r"
    and "fuel = Suc n"
  shows "\<exists>r. agent_loop_run fuel cfg env images = Some r"
proof -
  have "\<exists>r. state_loop fuel cfg env PENDING (start_data images) = Some r"
  proof (cases "handle_pending env (start_data images)")
    case (Inr sd)
    then obtain d where d: "sd = (GENERATING, d)" "ad_response_mask d = []" "ad_assistant_turns d = 0"
      by (auto simp: handle_pending_def bind_res_eq_Inr start_data_def)
    then show ?thesis using Inr assms by (simp add: handle_state_def)
  qed (simp add: assms(2) handle_state_def)
  then show ?thesis by (auto simp: agent_loop_run_def split: sum.splits)
qed

text \<open>C12. The loop ends, whatever the tools and the parser do: a run returns a result or raises an
  exception within two steps for each assistant turn, when the turns are limited, whatever the server
  answers, and within two steps for each token of the response budget, when the server never answers
  with no token at all.\<close>

theorem tool_loop_terminates:
  assumes "(\<exists>m. lc_max_assistant_turns cfg = Some m \<and> m \<noteq> 0 \<and> 2 * nat m + 2 \<le> fuel) \<or>
    ((\<forall>n ids imgs o'. en_server env n ids imgs = Inr o' \<longrightarrow> tk_ids o' \<noteq> []) \<and> 2 * nat (lc_response_length cfg) + 2 \<le> fuel)"
  shows "\<exists>r. agent_loop_run fuel cfg env images = Some r"
  using assms
proof (elim disjE exE conjE)
  fix m
  assume m: "lc_max_assistant_turns cfg = Some m" "m \<noteq> 0" "2 * nat m + 2 \<le> fuel"
  then obtain n where n: "fuel = Suc n" "2 * nat m + 1 \<le> n" by (cases fuel) auto
  show ?thesis
    by (rule run_ends [OF state_loop_ends [where rank = "turn_rank m"] n(1)])
      (use generating_turn_rank [OF _ m(1,2)] processing_turn_rank n(2) in
        \<open>auto simp: turn_rank_def Let_def split: agent_state.splits\<close>)
next
  assume server: "\<forall>n ids imgs o'. en_server env n ids imgs = Inr o' \<longrightarrow> tk_ids o' \<noteq> []"
    and "2 * nat (lc_response_length cfg) + 2 \<le> fuel"
  then obtain n where n: "fuel = Suc n" "2 * nat (lc_response_length cfg) + 1 \<le> n" by (cases fuel) auto
  show ?thesis
    by (rule run_ends [OF state_loop_ends [where rank = "loop_rank cfg"] n(1)])
      (use generating_rank server processing_rank n(2) in \<open>auto simp: loop_rank_def Let_def split: agent_state.splits\<close>)
qed

section \<open>Instances\<close>

definition sample_output :: "int list \<Rightarrow> token_output" where
  "sample_output ids =
     \<lparr>tk_ids = ids, tk_log_probs = map (\<lambda>i. 0) ids, tk_experts = None, tk_preempted = None, tk_extra = []\<rparr>"

definition sample_loop_config :: loop_config where
  "sample_loop_config =
     \<lparr>lc_max_user_turns = None, lc_max_assistant_turns = None, lc_max_parallel_calls = 1,
      lc_max_tool_response_length = 16, lc_truncate_side = ''middle'', lc_response_length = 6,
      lc_gpt_oss = False, lc_image_processor = False\<rparr>"

text \<open>A server that calls an unknown tool in its first answer and none in its second.\<close>

definition sample_env :: loop_env where
  "sample_env =
     \<lparr>en_prompt = (\<lambda>imgs. Inr [1, 2]), en_server = (\<lambda>n ids imgs. Inr (sample_output [7 + int n])),
      en_parse = (\<lambda>ids. Inr (if ids = [7] then [\<lparr>fc_name = ''f'', fc_arguments = ''{}''\<rparr>] else [])),
      en_tools = [], en_error_text = (\<lambda>e. []), en_tool_prompt = (\<lambda>ms imgs. Inr [0, 5, 6]), en_system_len = 1,
      en_encode = (\<lambda>s. [])\<rparr>"

lemma sample_run:
  "\<exists>out. agent_loop_run 14 sample_loop_config sample_env None = Some (Inr out) \<and>
     lo_response_ids out = [7, 5, 6, 8] \<and> lo_response_mask out = [1, 0, 0, 1] \<and> lo_num_turns out = 4"
proof -
  have "case agent_loop_run 14 sample_loop_config sample_env None of
      Some (Inr out) \<Rightarrow> lo_response_ids out = [7, 5, 6, 8] \<and> lo_response_mask out = [1, 0, 0, 1] \<and> lo_num_turns out = 4
    | _ \<Rightarrow> False"
    by code_simp
  then show ?thesis by (auto split: option.splits sum.splits)
qed

theorem tool_loop_output_witness:
  "\<exists>out prompt es d. agent_loop_run 14 sample_loop_config sample_env None = Some (Inr out) \<and>
    loop_reach sample_loop_config sample_env None prompt es (TERMINATED, d) \<and> lo_prompt_ids out = prompt \<and>
    lo_response_ids out = take (nat (lc_response_length sample_loop_config)) (concat (map event_ids es)) \<and>
    lo_response_mask out = take (nat (lc_response_length sample_loop_config)) (concat (map event_mask es)) \<and>
    lo_logprobs out = Some (take (nat (lc_response_length sample_loop_config)) (concat (map event_logprobs es))) \<and>
    length (lo_response_ids out) = length (lo_response_mask out)"
proof -
  obtain out where out: "agent_loop_run 14 sample_loop_config sample_env None = Some (Inr out)" using sample_run by blast
  have "0 \<le> lc_response_length sample_loop_config" by (simp add: sample_loop_config_def)
  from tool_loop_output [where calculate_log_probs = True, OF out this] show ?thesis
    using out by (auto simp: sample_env_def sample_output_def)
qed

theorem tool_loop_terminates_witness:
  "\<exists>r. agent_loop_run 14 sample_loop_config sample_env None = Some r"
  by (rule tool_loop_terminates) (auto simp: sample_env_def sample_output_def sample_loop_config_def)

text \<open>
  The case the alignment leaves out: a server that answers with no token and no call. The slice
  \<open>[-0:]\<close> is the whole conversation, and the prompt is returned as the response, with an empty mask.
\<close>

lemma empty_generation_returns_prompt:
  "\<exists>out. agent_loop_run 14 sample_loop_config (sample_env\<lparr>en_server := (\<lambda>n ids imgs. Inr (sample_output []))\<rparr>) None =
      Some (Inr out) \<and> lo_response_ids out = lo_prompt_ids out \<and> lo_response_ids out = [1, 2] \<and> lo_response_mask out = []"
proof -
  have "case agent_loop_run 14 sample_loop_config (sample_env\<lparr>en_server := (\<lambda>n ids imgs. Inr (sample_output []))\<rparr>) None of
      Some (Inr out) \<Rightarrow> lo_response_ids out = lo_prompt_ids out \<and> lo_response_ids out = [1, 2] \<and> lo_response_mask out = []
    | _ \<Rightarrow> False"
    by code_simp
  then show ?thesis by (auto split: option.splits sum.splits)
qed

end
