(* ===== verification/AgentLoopBatch.thy ===== *)
theory AgentLoopBatch
  imports ToolAgentTrace
begin

text \<open>
  The worker around the agent loops (\<open>verl/experimental/agent_loop/agent_loop.py\<close>): the sampling
  parameters of a sample, the padding of one output to the widths of the batch, the rewards of a batch
  and its timing. \<open>tokenizer.pad\<close> is a parameter; what the code relies on is its documented behaviour
  (\<open>pads_to_length\<close>).
\<close>

section \<open>Sampling parameters and trajectories\<close>

record sampling_config =
  sc_temperature :: rat
  sc_top_p :: rat
  sc_top_k :: int
  sc_logprobs :: bool
  sc_val_temperature :: rat
  sc_val_top_p :: rat
  sc_val_top_k :: int

record sample_params =
  sp_temperature :: rat
  sp_top_p :: rat
  sp_top_k :: int
  sp_repetition_penalty :: rat
  sp_logprobs :: bool

definition batch_params :: "sampling_config \<Rightarrow> bool \<Rightarrow> sample_params" where
  "batch_params cfg validate =
     (let p = \<lparr>sp_temperature = sc_temperature cfg, sp_top_p = sc_top_p cfg, sp_top_k = sc_top_k cfg,
               sp_repetition_penalty = 1, sp_logprobs = sc_logprobs cfg\<rparr>
      in if validate then p\<lparr>sp_top_p := sc_val_top_p cfg, sp_top_k := sc_val_top_k cfg, sp_temperature := sc_val_temperature cfg\<rparr>
         else p)"

definition greedy_params :: "sample_params \<Rightarrow> sample_params" where
  "greedy_params p = p\<lparr>sp_top_p := 1, sp_top_k := - 1, sp_temperature := 0\<rparr>"

text \<open>The parameters of sample \<open>i\<close>; \<open>do_sample\<close> is the column \<open>__do_sample__\<close>, if there is one.\<close>

definition params_of_sample :: "sampling_config \<Rightarrow> bool \<Rightarrow> bool list option \<Rightarrow> nat \<Rightarrow> sample_params" where
  "params_of_sample cfg validate do_sample i =
     (case do_sample of
        Some ds \<Rightarrow> if \<not> validate \<and> \<not> ds ! i then greedy_params (batch_params cfg validate) else batch_params cfg validate
      | None \<Rightarrow> batch_params cfg validate)"

record trajectory =
  tj_step :: int
  tj_sample_index :: int
  tj_rollout_n :: nat
  tj_validate :: bool

fun trajectory_loop :: "int \<Rightarrow> bool \<Rightarrow> int option \<Rightarrow> nat \<Rightarrow> int list \<Rightarrow> trajectory list" where
  "trajectory_loop step validate prev rollout_n [] = []"
| "trajectory_loop step validate prev rollout_n (i # is) =
     (let n = (if prev = Some i then rollout_n + 1 else 0)
      in \<lparr>tj_step = step, tj_sample_index = i, tj_rollout_n = n, tj_validate = validate\<rparr>
           # trajectory_loop step validate (Some i) n is)"

definition get_trajectory_info :: "int \<Rightarrow> int list \<Rightarrow> bool \<Rightarrow> trajectory list" where
  "get_trajectory_info step index validate = trajectory_loop step validate None 0 index"

section \<open>One output, padded\<close>

text \<open>\<open>pad left n ids\<close>: the padded ids and their attention mask.\<close>

type_synonym pad_fun = "bool \<Rightarrow> nat \<Rightarrow> int list \<Rightarrow> int list \<times> int list"

definition compute_position_id_with_mask :: "int list \<Rightarrow> int list" where
  "compute_position_id_with_mask attention = map (\<lambda>c. max (c - 1) 0) (cumsum 0 attention)"

record padded_output =
  po_prompt_ids :: "int list"
  po_response_ids :: "int list"
  po_input_ids :: "int list"
  po_position_ids :: "int list"
  po_response_mask :: "int list"
  po_attention_mask :: "int list"
  po_logprobs :: "rat list option"
  po_experts :: "nat list option"

text \<open>A negative count of zeros is none, as for a Python list; experts fill the prompt and the response.\<close>

definition place_experts :: "nat \<Rightarrow> nat \<Rightarrow> nat \<Rightarrow> nat list \<Rightarrow> nat list res" where
  "place_experts prompt_width prompt_len total_length experts =
     (let start_pos = int prompt_width - int prompt_len;
          end_pos = min (start_pos + int (length experts)) (int total_length)
      in if start_pos < 0 \<or> int total_length < end_pos then Inl ValueError
         else if end_pos - start_pos \<noteq> int (length experts) then Inl RuntimeError
         else Inr (replicate (nat start_pos) 0 @ experts @ replicate (total_length - nat end_pos) 0))"

definition agent_loop_postprocess :: "pad_fun \<Rightarrow> nat \<Rightarrow> nat \<Rightarrow> loop_output \<Rightarrow> padded_output res" where
  "agent_loop_postprocess pad prompt_length response_length out =
     (let (prompt_ids, prompt_att) = pad True prompt_length (lo_prompt_ids out);
          (response_ids, response_att) = pad False response_length (lo_response_ids out);
          (mask_ids, _) = pad False response_length (lo_response_mask out);
          attention = prompt_att @ response_att
      in if length mask_ids \<noteq> length response_att then Inl RuntimeError
         else bind_res (case lo_experts out of
                          None \<Rightarrow> Inr None
                        | Some ex \<Rightarrow> bind_res (place_experts (length prompt_ids) (length (lo_prompt_ids out))
                                      (length (prompt_ids @ response_ids)) ex) (\<lambda>e. Inr (Some e)))
           (\<lambda>experts. Inr
             \<lparr>po_prompt_ids = prompt_ids, po_response_ids = response_ids, po_input_ids = prompt_ids @ response_ids,
              po_position_ids = compute_position_id_with_mask attention,
              po_response_mask = map2 (*) mask_ids response_att, po_attention_mask = attention,
              po_logprobs = map_option (\<lambda>l. l @ replicate (response_length - length l) 0) (lo_logprobs out),
              po_experts = experts\<rparr>))"

section \<open>The batch\<close>

text \<open>The reward of a row stands at its last attended response token; \<open>-1\<close> counts from the end.\<close>

definition rm_scores_row :: "nat \<Rightarrow> padded_output \<Rightarrow> rat \<Rightarrow> rat list" where
  "rm_scores_row prompt_width p score =
     (let n = length (po_response_mask p);
          k = sum_list (drop prompt_width (po_attention_mask p)) - 1
      in (replicate n 0)[nat (if k < 0 then int n + k else k) := score])"

definition batch_rm_scores :: "padded_output list \<Rightarrow> rat option list \<Rightarrow> rat list list option" where
  "batch_rm_scores ps scores =
     (if list_all (\<lambda>s. s \<noteq> None) scores
      then Some (map2 (\<lambda>p s. rm_scores_row (length (po_prompt_ids p)) p (the s)) ps scores) else None)"

record loop_metrics =
  lm_generate :: rat
  lm_tools :: rat
  lm_score :: rat
  lm_preempted :: int

definition argmax_first :: "rat list \<Rightarrow> nat" where
  "argmax_first xs = fold (\<lambda>i b. if xs ! b < xs ! i then i else b) [0..<length xs] 0"

text \<open>Minimum, maximum and mean of a column; \<open>numpy\<close> raises on an empty one.\<close>

definition column_stats :: "rat list \<Rightarrow> (rat \<times> rat \<times> rat) res" where
  "column_stats xs =
     (if xs = [] then Inl ValueError else Inr (Min (set xs), Max (set xs), sum_list xs / of_nat (length xs)))"

definition slowest_sample :: "loop_metrics list \<Rightarrow> nat" where
  "slowest_sample ms = argmax_first (map (\<lambda>m. lm_generate m + lm_tools m + lm_score m) ms)"

record performance =
  pf_preempted :: "rat \<times> rat \<times> rat"
  pf_generate :: "rat \<times> rat \<times> rat"
  pf_tools :: "rat \<times> rat \<times> rat"
  pf_score :: "rat \<times> rat \<times> rat"
  pf_slowest :: loop_metrics
  pf_slowest_prompt :: int
  pf_slowest_response :: int

definition performance_metrics :: "loop_metrics list list \<Rightarrow> nat \<Rightarrow> int list list \<Rightarrow> performance res" where
  "performance_metrics metrics prompt_length attention =
     (let ms = concat metrics; slowest = slowest_sample ms
      in bind_res (column_stats (map (\<lambda>m. of_int (lm_preempted m)) ms)) (\<lambda>p.
         bind_res (column_stats (map lm_generate ms)) (\<lambda>g.
         bind_res (column_stats (map lm_tools ms)) (\<lambda>t.
         bind_res (column_stats (map lm_score ms)) (\<lambda>s.
         bind_res (py_get attention (int slowest)) (\<lambda>att.
           Inr \<lparr>pf_preempted = p, pf_generate = g, pf_tools = t, pf_score = s, pf_slowest = ms ! slowest,
                pf_slowest_prompt = sum_list (take prompt_length att),
                pf_slowest_response = sum_list (drop prompt_length att)\<rparr>))))))"

section \<open>Correctness\<close>

text \<open>What \<open>tokenizer.pad\<close> documents: ids that fit are padded on the given side, with attention 0.\<close>

definition pads_to_length :: "int \<Rightarrow> pad_fun \<Rightarrow> bool" where
  "pads_to_length pad_id pad =
     (\<forall>left n ids. length ids \<le> n \<longrightarrow>
        pad left n ids =
          (if left then (replicate (n - length ids) pad_id @ ids, replicate (n - length ids) 0 @ replicate (length ids) 1)
           else (ids @ replicate (n - length ids) pad_id, replicate (length ids) 1 @ replicate (n - length ids) 0)))"

lemma map2_mask: "length xs = r \<Longrightarrow> map2 (*) (xs @ replicate k p) (replicate r 1 @ replicate k 0) = xs @ replicate k (0 :: int)"
  by (simp add: zip_append zip_replicate2 zip_replicate) (simp add: zip_replicate1 comp_def map_replicate_const)

lemma map_replicate_eq1:
  "map (\<lambda>x. x = (1 :: int)) (replicate a 0 @ replicate n 1 @ replicate b 0) = replicate a False @ replicate n True @ replicate b False"
  by simp

text \<open>C13. What the trainer gets of one agent loop: with a tokenizer that pads as documented, an output that
  fits its budgets, a mask of the size of the response and experts for a prefix of the tokens, the
  padding succeeds, every row has its width, the attended tokens are the prompt followed by the
  response with positions counted from 0, and the tokens under the response mask are those the mask
  of the loop marked - padding is never trained on, even where the pad token's id is 1.\<close>

theorem postprocess_aligned:
  assumes pads: "pads_to_length pad_id pad"
    and fits: "length (lo_prompt_ids out) \<le> P" "length (lo_response_ids out) \<le> R"
    and mask: "length (lo_response_mask out) = length (lo_response_ids out)"
    and experts: "\<And>ex. lo_experts out = Some ex \<Longrightarrow> length ex \<le> length (lo_prompt_ids out) + R"
  shows "\<exists>p. agent_loop_postprocess pad P R out = Inr p \<and>
    length (po_input_ids p) = P + R \<and> length (po_attention_mask p) = P + R \<and> length (po_response_mask p) = R \<and>
    mask_select (map (\<lambda>x. x = 1) (po_attention_mask p)) (po_input_ids p) = lo_prompt_ids out @ lo_response_ids out \<and>
    mask_select (map (\<lambda>x. x = 1) (po_attention_mask p)) (po_position_ids p) =
      map int [0..<length (lo_prompt_ids out @ lo_response_ids out)] \<and>
    mask_select (map (\<lambda>x. x = 1) (po_response_mask p)) (po_response_ids p) =
      mask_select (map (\<lambda>x. x = 1) (lo_response_mask out)) (lo_response_ids out)"
proof -
  define ps where "ps = lo_prompt_ids out"
  define rs where "rs = lo_response_ids out"
  define ms where "ms = lo_response_mask out"
  define a where "a = P - length ps"
  define b where "b = R - length rs"
  have len: "length ms = length rs" "P = a + length ps" "R = length rs + b"
    using fits mask by (simp_all add: a_def b_def ps_def rs_def ms_def)
  have p1: "pad True P ps = (replicate a pad_id @ ps, replicate a 0 @ replicate (length ps) 1)"
    and p2: "pad False R rs = (rs @ replicate b pad_id, replicate (length rs) 1 @ replicate b 0)"
    and p3: "pad False R ms = (ms @ replicate b pad_id, replicate (length ms) 1 @ replicate b 0)"
    using pads fits mask by (simp_all add: pads_to_length_def a_def b_def ps_def rs_def ms_def)
  define att where "att = (replicate a 0 @ replicate (length ps) 1) @ replicate (length rs) 1 @ replicate b (0 :: int)"
  have att: "att = replicate a 0 @ replicate (length ps + length rs) 1 @ replicate b 0"
    by (simp add: att_def replicate_add)
  have sel: "map (\<lambda>x. x = 1) att = replicate a False @ replicate (length ps + length rs) True @ replicate b False"
    unfolding att by (rule map_replicate_eq1)
  obtain experts where ex: "(case lo_experts out of None \<Rightarrow> Inr None
      | Some ex \<Rightarrow> bind_res (place_experts (length (replicate a pad_id @ ps)) (length ps)
          (length ((replicate a pad_id @ ps) @ rs @ replicate b pad_id)) ex) (\<lambda>e. Inr (Some e))) = Inr experts"
    using experts len by (cases "lo_experts out") (auto simp: place_experts_def Let_def ps_def [symmetric])
  define p where "p = \<lparr>po_prompt_ids = replicate a pad_id @ ps, po_response_ids = rs @ replicate b pad_id,
      po_input_ids = (replicate a pad_id @ ps) @ rs @ replicate b pad_id,
      po_position_ids = compute_position_id_with_mask att,
      po_response_mask = map2 (*) (ms @ replicate b pad_id) (replicate (length rs) 1 @ replicate b 0),
      po_attention_mask = att, po_logprobs = map_option (\<lambda>l. l @ replicate (R - length l) 0) (lo_logprobs out),
      po_experts = experts\<rparr>"
  have run: "agent_loop_postprocess pad P R out = Inr p"
    unfolding agent_loop_postprocess_def ps_def [symmetric] rs_def [symmetric] ms_def [symmetric] p1 p2 p3 split_conv Let_def
    using ex len(1) by (simp add: p_def att_def)
  have pos: "compute_position_id_with_mask att =
      replicate a 0 @ map int [0..<length ps + length rs] @ replicate b (max (int (length ps + length rs) - 1) 0)"
    unfolding compute_position_id_with_mask_def att
    by (simp only: cumsum_zeros cumsum_append cumsum_ones)
      (simp add: sum_list_replicate cumsum_zeros [where xs = "[]", simplified] map_replicate_const)
  have "mask_select (map (\<lambda>x. x = 1) att) ((replicate a pad_id @ ps) @ rs @ replicate b pad_id) = ps @ rs"
    unfolding sel using mask_select_append [of "replicate a False" "replicate a pad_id"]
      mask_select_append [of "replicate (length ps + length rs) True" "ps @ rs" "replicate b False" "replicate b pad_id"]
    by simp
  moreover have "mask_select (map (\<lambda>x. x = 1) att) (compute_position_id_with_mask att) = map int [0..<length ps + length rs]"
    unfolding sel pos by (simp add: mask_select_append)
  moreover have "map2 (*) (ms @ replicate b pad_id) (replicate (length rs) 1 @ replicate b 0) = ms @ replicate b 0"
    by (rule map2_mask [OF len(1)])
  moreover have "mask_select (map (\<lambda>x. x = 1) (ms @ replicate b 0)) (rs @ replicate b pad_id) = mask_select (map (\<lambda>x. x = 1) ms) rs"
    using len(1) by (simp add: mask_select_append)
  ultimately show ?thesis
    using run len unfolding ps_def [symmetric] rs_def [symmetric] ms_def [symmetric]
    by (intro exI [of _ p]) (simp add: p_def att_def)
qed

definition sample_pad :: pad_fun where
  "sample_pad left n ids =
     (if left then (replicate (n - length ids) 1 @ ids, replicate (n - length ids) 0 @ replicate (length ids) 1)
      else (ids @ replicate (n - length ids) 1, replicate (length ids) 1 @ replicate (n - length ids) 0))"

definition sample_loop_output :: loop_output where
  "sample_loop_output =
     \<lparr>lo_prompt_ids = [4, 5], lo_response_ids = [7, 8, 9], lo_response_mask = [1, 0, 1], lo_logprobs = None,
      lo_num_turns = 2, lo_experts = Some [3, 3], lo_images = None, lo_extra = [], lo_tool_rewards = [], lo_preempted = 0\<rparr>"

theorem postprocess_aligned_witness:
  "\<exists>p. agent_loop_postprocess sample_pad 3 5 sample_loop_output = Inr p \<and>
    length (po_input_ids p) = 3 + 5 \<and> length (po_attention_mask p) = 3 + 5 \<and> length (po_response_mask p) = 5 \<and>
    mask_select (map (\<lambda>x. x = 1) (po_attention_mask p)) (po_input_ids p) =
      lo_prompt_ids sample_loop_output @ lo_response_ids sample_loop_output \<and>
    mask_select (map (\<lambda>x. x = 1) (po_attention_mask p)) (po_position_ids p) =
      map int [0..<length (lo_prompt_ids sample_loop_output @ lo_response_ids sample_loop_output)] \<and>
    mask_select (map (\<lambda>x. x = 1) (po_response_mask p)) (po_response_ids p) =
      mask_select (map (\<lambda>x. x = 1) (lo_response_mask sample_loop_output)) (lo_response_ids sample_loop_output)"
  by (rule postprocess_aligned [where pad_id = 1])
    (auto simp: pads_to_length_def sample_pad_def sample_loop_output_def)

end
