(* ===== verification/MessageQueue.thy ===== *)
theory MessageQueue
  imports Prelude "HOL-Library.Sublist"
begin

text \<open>
  The queue between rollouter and trainer (\<open>verl/experimental/fully_async_policy/message_queue.py\<close>): a
  bounded queue that drops its oldest sample, consumers that wait on a condition, counters and
  shutdown. Every method runs under the actor's lock; a waiting consumer gives it up and, once
  notified, takes it again. The system below is the queue with its consumers and what was put in and
  handed out; it moves by one critical section at a time, in any order. The size estimate of
  \<open>get_memory_usage\<close> is left out.
\<close>

section \<open>The queue\<close>

record 'a msg_queue =
  mq_max :: nat
  mq_queue :: "'a list"
  mq_val :: "'a list"
  mq_running :: bool
  mq_produced :: nat
  mq_consumed :: nat
  mq_dropped :: nat

text \<open>\<open>deque(maxlen=...)\<close> wants a non-negative size.\<close>

definition new_queue :: "int option \<Rightarrow> 'a msg_queue res" where
  "new_queue max_queue_size =
     (case max_queue_size of
        None \<Rightarrow> Inl ValueError
      | Some m \<Rightarrow> if m < 0 then Inl ValueError
                  else Inr \<lparr>mq_max = nat m, mq_queue = [], mq_val = [], mq_running = True,
                            mq_produced = 0, mq_consumed = 0, mq_dropped = 0\<rparr>)"

definition put_sample :: "'a \<Rightarrow> 'a msg_queue \<Rightarrow> (bool \<times> 'a msg_queue) res" where
  "put_sample x q =
     (let is_drop = (mq_max q \<le> length (mq_queue q))
      in bind_res
           (if is_drop
            then (case mq_queue q of
                    [] \<Rightarrow> Inl IndexError
                  | _ # rest \<Rightarrow> Inr (q\<lparr>mq_queue := rest, mq_dropped := mq_dropped q + 1\<rparr>))
            else Inr q)
           (\<lambda>q1. Inr (\<not> is_drop, q1\<lparr>mq_queue := mq_queue q1 @ [x], mq_produced := mq_produced q1 + 1\<rparr>)))"

text \<open>One pass of \<open>get_sample\<close> under the lock.\<close>

datatype 'a get_result = Blocked | Closed | Got 'a nat

definition get_attempt :: "'a msg_queue \<Rightarrow> 'a get_result \<times> 'a msg_queue" where
  "get_attempt q =
     (case mq_queue q of
        [] \<Rightarrow> (if mq_running q then Blocked else Closed, q)
      | x # rest \<Rightarrow> (Got x (length rest), q\<lparr>mq_queue := rest, mq_consumed := mq_consumed q + 1\<rparr>))"

definition clear_queue :: "'a msg_queue \<Rightarrow> 'a msg_queue" where
  "clear_queue q = q\<lparr>mq_queue := []\<rparr>"

definition shutdown_queue :: "'a msg_queue \<Rightarrow> 'a msg_queue" where
  "shutdown_queue q = q\<lparr>mq_running := False\<rparr>"

record queue_statistics =
  qs_size :: nat
  qs_produced :: nat
  qs_consumed :: nat
  qs_dropped :: nat
  qs_max :: nat

definition get_statistics :: "'a msg_queue \<Rightarrow> queue_statistics" where
  "get_statistics q =
     \<lparr>qs_size = length (mq_queue q), qs_produced = mq_produced q, qs_consumed = mq_consumed q,
      qs_dropped = mq_dropped q, qs_max = mq_max q\<rparr>"

definition put_validate :: "'a \<Rightarrow> 'a msg_queue \<Rightarrow> 'a msg_queue" where
  "put_validate x q = q\<lparr>mq_val := mq_val q @ [x]\<rparr>"

definition get_validate :: "'a msg_queue \<Rightarrow> 'a option \<times> 'a msg_queue" where
  "get_validate q = (case mq_val q of [] \<Rightarrow> (None, q) | x # rest \<Rightarrow> (Some x, q\<lparr>mq_val := rest\<rparr>))"

section \<open>The system\<close>

datatype 'a queue_op = Put 'a | Get nat | Resume nat | Clear | Shutdown

record 'a queue_system =
  sy_queue :: "'a msg_queue"
  sy_waiting :: "nat list"
  sy_ready :: "nat list"
  sy_put :: "'a list"
  sy_replies :: "(nat \<times> 'a option) list"
  sy_cleared :: nat

definition start_system :: "nat \<Rightarrow> 'a queue_system" where
  "start_system m =
     \<lparr>sy_queue = \<lparr>mq_max = m, mq_queue = [], mq_val = [], mq_running = True, mq_produced = 0, mq_consumed = 0, mq_dropped = 0\<rparr>,
      sy_waiting = [], sy_ready = [], sy_put = [], sy_replies = [], sy_cleared = 0\<rparr>"

definition notify_all :: "'a queue_system \<Rightarrow> 'a queue_system" where
  "notify_all s = s\<lparr>sy_ready := sy_ready s @ sy_waiting s, sy_waiting := []\<rparr>"

definition attempt :: "nat \<Rightarrow> 'a queue_system \<Rightarrow> 'a queue_system" where
  "attempt c s =
     (case get_attempt (sy_queue s) of
        (Blocked, q) \<Rightarrow> s\<lparr>sy_queue := q, sy_waiting := sy_waiting s @ [c]\<rparr>
      | (Closed, q) \<Rightarrow> s\<lparr>sy_queue := q, sy_replies := sy_replies s @ [(c, None)]\<rparr>
      | (Got x n, q) \<Rightarrow> s\<lparr>sy_queue := q, sy_replies := sy_replies s @ [(c, Some x)]\<rparr>)"

text \<open>\<open>None\<close>: the step is not enabled (only a notified consumer resumes) or raises.\<close>

definition queue_exec :: "'a queue_op \<Rightarrow> 'a queue_system \<Rightarrow> 'a queue_system option" where
  "queue_exec op s =
     (case op of
        Put x \<Rightarrow>
          (case put_sample x (sy_queue s) of
             Inl e \<Rightarrow> None
           | Inr (ok, q) \<Rightarrow> Some (notify_all (s\<lparr>sy_queue := q, sy_put := sy_put s @ [x]\<rparr>)))
      | Get c \<Rightarrow> Some (attempt c s)
      | Resume c \<Rightarrow> if c \<in> set (sy_ready s) then Some (attempt c (s\<lparr>sy_ready := remove1 c (sy_ready s)\<rparr>)) else None
      | Clear \<Rightarrow> Some (s\<lparr>sy_queue := clear_queue (sy_queue s), sy_cleared := sy_cleared s + length (mq_queue (sy_queue s))\<rparr>)
      | Shutdown \<Rightarrow> Some (notify_all (s\<lparr>sy_queue := shutdown_queue (sy_queue s)\<rparr>)))"

inductive queue_reach :: "nat \<Rightarrow> 'a queue_system \<Rightarrow> bool" for m where
  queue_start: "queue_reach m (start_system m)"
| queue_step: "queue_reach m s \<Longrightarrow> queue_exec op s = Some s' \<Longrightarrow> queue_reach m s'"

section \<open>The interface of a bounded queue\<close>

text \<open>
  What a producer relies on: adding keeps the newest \<open>cap\<close> elements in order and says whether nothing
  was dropped; taking gives the oldest.
\<close>

locale dropping_queue =
  fixes put :: "'a \<Rightarrow> 'q \<Rightarrow> (bool \<times> 'q) res" and items :: "'q \<Rightarrow> 'a list" and cap :: "'q \<Rightarrow> nat"
  assumes put_items: "0 < cap q \<Longrightarrow> length (items q) \<le> cap q \<Longrightarrow>
      \<exists>q'. put x q = Inr (length (items q) < cap q, q') \<and> cap q' = cap q \<and>
        items q' = (if length (items q) < cap q then items q else tl (items q)) @ [x]"
begin

lemma put_newest:
  assumes "0 < cap q" "length (items q) \<le> cap q"
  shows "\<exists>ok q'. put x q = Inr (ok, q') \<and> cap q' = cap q \<and>
    items q' = drop (Suc (length (items q)) - cap q) (items q @ [x])"
proof -
  obtain q' where q': "put x q = Inr (length (items q) < cap q, q')" "cap q' = cap q"
    "items q' = (if length (items q) < cap q then items q else tl (items q)) @ [x]"
    using put_items [OF assms] by blast
  have "items q' = drop (Suc (length (items q)) - cap q) (items q @ [x])"
    using assms q'(3) by (cases "length (items q) < cap q") (auto simp: drop_Suc)
  then show ?thesis using q' by blast
qed

lemma puts_newest:
  assumes "0 < cap q" "length (items q) \<le> cap q"
  shows "\<exists>q'. fold (\<lambda>x r. bind_res r (\<lambda>q. bind_res (put x q) (\<lambda>(ok, q'). Inr q'))) xs (Inr q) = Inr q' \<and> cap q' = cap q \<and>
    items q' = drop (length (items q @ xs) - cap q) (items q @ xs)"
  using assms
proof (induction xs arbitrary: q)
  case (Cons x xs)
  obtain ok q1 where q1: "put x q = Inr (ok, q1)" "cap q1 = cap q"
    "items q1 = drop (Suc (length (items q)) - cap q) (items q @ [x])"
    using put_newest [OF Cons.prems] by blast
  have len: "length (items q1) \<le> cap q1" using q1(2,3) Cons.prems(2) by simp
  obtain q' where q': "fold (\<lambda>x r. bind_res r (\<lambda>q. bind_res (put x q) (\<lambda>(ok, q'). Inr q'))) xs (Inr q1) = Inr q'"
    "cap q' = cap q1" "items q' = drop (length (items q1 @ xs) - cap q1) (items q1 @ xs)"
    using Cons.IH [of q1] len q1(2) Cons.prems(1) by auto
  define k where "k = Suc (length (items q)) - cap q"
  have k: "k \<le> length (items q @ [x])" using Cons.prems(1) by (simp add: k_def)
  have "drop k ((items q @ [x]) @ xs) = drop k (items q @ [x]) @ xs"
    unfolding drop_append using k by (simp del: append_assoc)
  then have "items q1 @ xs = drop k (items q @ x # xs)" using q1(3) by (simp add: k_def)
  then have "items q' = drop (length (items q @ x # xs) - k - cap q) (drop k (items q @ x # xs))"
    using q'(3) q1(2) by (simp del: drop_append drop_drop)
  also have "\<dots> = drop (length (items q @ x # xs) - cap q) (items q @ x # xs)"
  proof -
    have "length (items q @ x # xs) - k - cap q + k = length (items q @ x # xs) - cap q"
      using Cons.prems by (simp add: k_def)
    then show ?thesis by (simp only: drop_drop)
  qed
  finally show ?case using q1 q'(1,2) by simp
qed simp

end

interpretation mq: dropping_queue put_sample mq_queue mq_max
proof unfold_locales
  fix q :: "'a msg_queue" and x
  assume "0 < mq_max q" "length (mq_queue q) \<le> mq_max q"
  then show "\<exists>q'. put_sample x q = Inr (length (mq_queue q) < mq_max q, q') \<and> mq_max q' = mq_max q \<and>
      mq_queue q' = (if length (mq_queue q) < mq_max q then mq_queue q else tl (mq_queue q)) @ [x]"
    by (auto simp: put_sample_def Let_def split: list.split)
qed

section \<open>Properties of every reachable state\<close>

abbreviation delivered :: "(nat \<times> 'a option) list \<Rightarrow> 'a list" where
  "delivered rs \<equiv> List.map_filter snd rs"

text \<open>Bounded, every sample accounted for, delivered in order, and nobody sleeps while there is work.\<close>

definition queue_bounded :: "nat \<Rightarrow> 'a msg_queue \<Rightarrow> bool" where
  "queue_bounded m q \<longleftrightarrow> mq_max q = m \<and> length (mq_queue q) \<le> m"

definition queue_accounted :: "'a queue_system \<Rightarrow> bool" where
  "queue_accounted s \<longleftrightarrow>
     mq_produced (sy_queue s) = length (sy_put s) \<and>
     mq_consumed (sy_queue s) = length (delivered (sy_replies s)) \<and>
     mq_produced (sy_queue s) =
       mq_consumed (sy_queue s) + mq_dropped (sy_queue s) + sy_cleared s + length (mq_queue (sy_queue s))"

definition queue_ordered :: "'a queue_system \<Rightarrow> bool" where
  "queue_ordered s \<longleftrightarrow> subseq (delivered (sy_replies s) @ mq_queue (sy_queue s)) (sy_put s)"

definition no_lost_wakeup :: "'a queue_system \<Rightarrow> bool" where
  "no_lost_wakeup s \<longleftrightarrow> (sy_waiting s = [] \<or> (mq_queue (sy_queue s) = [] \<and> mq_running (sy_queue s)))"

lemmas queue_inv_defs = queue_bounded_def queue_accounted_def queue_ordered_def no_lost_wakeup_def

definition queue_inv :: "nat \<Rightarrow> 'a queue_system \<Rightarrow> bool" where
  "queue_inv m s \<longleftrightarrow>
     queue_bounded m (sy_queue s) \<and> queue_accounted s \<and> queue_ordered s \<and> no_lost_wakeup s"

lemma delivered_append [simp]: "delivered (rs @ [(c, r)]) = delivered rs @ (case r of None \<Rightarrow> [] | Some x \<Rightarrow> [x])"
  by (cases r) (simp_all add: List.map_filter_def)

lemma queue_inv_attempt:
  assumes "queue_inv m s"
  shows "queue_inv m (attempt c s)"
  using assms
  by (auto simp: queue_inv_def queue_inv_defs attempt_def get_attempt_def split: list.splits)

lemma queue_inv_ready:
  assumes "queue_inv m s"
  shows "queue_inv m (s\<lparr>sy_ready := rs\<rparr>)"
  using assms by (simp add: queue_inv_def queue_inv_defs)

lemma subseq_drop_middle: "subseq (xs @ y # ys) zs \<Longrightarrow> subseq (xs @ ys) zs"
  by (rule subseq_order.trans [of _ "xs @ y # ys"]) (auto simp: subseq_append' intro: list_emb_Cons)

lemma queue_inv_put:
  assumes "queue_inv m s" "put_sample x (sy_queue s) = Inr (ok, q)"
  shows "queue_inv m (notify_all (s\<lparr>sy_queue := q, sy_put := sy_put s @ [x]\<rparr>))"
  using assms
  by (auto simp: queue_inv_def queue_inv_defs notify_all_def put_sample_def Let_def bind_res_eq_Inr
      simp flip: append_assoc intro: subseq_drop_middle split: if_splits list.splits)

lemma queue_inv_clear:
  assumes "queue_inv m s"
  shows "queue_inv m (s\<lparr>sy_queue := clear_queue (sy_queue s), sy_cleared := sy_cleared s + length (mq_queue (sy_queue s))\<rparr>)"
proof -
  have "subseq (delivered (sy_replies s)) (delivered (sy_replies s) @ mq_queue (sy_queue s))"
    by (rule subseq_rev_drop_many) simp
  then have "queue_ordered s \<Longrightarrow> subseq (delivered (sy_replies s)) (sy_put s)"
    unfolding queue_ordered_def by (rule subseq_order.trans)
  then show ?thesis
    using assms by (auto simp: queue_inv_def queue_inv_defs clear_queue_def)
qed

lemma queue_inv_exec:
  assumes "queue_inv m s" "queue_exec op s = Some s'"
  shows "queue_inv m s'"
proof (cases op)
  case (Put x)
  then show ?thesis using assms queue_inv_put [OF assms(1)] by (auto simp: queue_exec_def split: sum.splits)
next
  case Shutdown
  then show ?thesis
    using assms by (auto simp: queue_exec_def queue_inv_def queue_inv_defs notify_all_def shutdown_queue_def)
next
  case (Resume c)
  then show ?thesis
    using assms queue_inv_attempt [OF queue_inv_ready [OF assms(1)]]
    by (auto simp: queue_exec_def split: if_splits)
qed (use assms queue_inv_attempt queue_inv_clear in \<open>auto simp: queue_exec_def\<close>)

lemma queue_inv_reach:
  assumes "queue_reach m s"
  shows "queue_inv m s"
  using assms
proof induction
  case queue_start
  show ?case by (simp add: start_system_def queue_inv_def queue_inv_defs List.map_filter_def)
qed (rule queue_inv_exec)

text \<open>C14. In any run of the message queue of the rollouter and the trainer, of any size, with any
  interleaving of producers, consumers, resumed waiters, clears and shutdowns: the queue never holds
  more than its maximum; every sample put is delivered, dropped, cleared or still in the queue, as the
  counters say; what consumers got followed by what is still queued is in the order of the puts, each
  at most once; and a consumer only waits while the queue is empty and running, so no wake-up is lost.
\<close>

theorem message_queue_invariant:
  assumes "queue_reach m s"
  shows "length (mq_queue (sy_queue s)) \<le> m \<and>
    mq_produced (sy_queue s) = length (sy_put s) \<and>
    mq_produced (sy_queue s) =
      mq_consumed (sy_queue s) + mq_dropped (sy_queue s) + sy_cleared s + length (mq_queue (sy_queue s)) \<and>
    mq_consumed (sy_queue s) = length (delivered (sy_replies s)) \<and>
    subseq (delivered (sy_replies s) @ mq_queue (sy_queue s)) (sy_put s) \<and>
    (sy_waiting s = [] \<or> (mq_queue (sy_queue s) = [] \<and> mq_running (sy_queue s)))"
  using queue_inv_reach [OF assms] by (simp add: queue_inv_def queue_inv_defs)

definition sample_ops :: "string queue_op list" where
  "sample_ops = [Get 1, Put ''a'', Put ''b'', Put ''c'', Resume 1, Put ''d'', Get 2, Clear, Get 3]"

fun queue_run :: "'a queue_op list \<Rightarrow> 'a queue_system \<Rightarrow> 'a queue_system option" where
  "queue_run [] s = Some s"
| "queue_run (op # ops) s = (case queue_exec op s of None \<Rightarrow> None | Some s' \<Rightarrow> queue_run ops s')"

lemma queue_run_reach:
  assumes "queue_reach m s" "queue_run ops s = Some s'"
  shows "queue_reach m s'"
  using assms by (induction ops arbitrary: s) (auto split: option.splits intro: queue_step)

theorem message_queue_invariant_witness:
  "\<exists>s. queue_run sample_ops (start_system 2) = Some s \<and> mq_queue (sy_queue s) = [] \<and>
    sy_waiting s = [3] \<and> sy_put s = [''a'', ''b'', ''c'', ''d''] \<and> mq_dropped (sy_queue s) = 1 \<and>
    sy_cleared s = 1 \<and> delivered (sy_replies s) = [''b'', ''c''] \<and>
    mq_produced (sy_queue s) =
      mq_consumed (sy_queue s) + mq_dropped (sy_queue s) + sy_cleared s + length (mq_queue (sy_queue s))"
proof -
  have "case queue_run sample_ops (start_system 2) of None \<Rightarrow> False
    | Some s \<Rightarrow> mq_queue (sy_queue s) = [] \<and>
        sy_waiting s = [3] \<and> sy_put s = [''a'', ''b'', ''c'', ''d''] \<and> mq_dropped (sy_queue s) = 1 \<and>
        sy_cleared s = 1 \<and> delivered (sy_replies s) = [''b'', ''c'']"
    by code_simp
  then obtain s where s: "queue_run sample_ops (start_system 2) = Some s" "mq_queue (sy_queue s) = []"
    "sy_waiting s = [3]" "sy_put s = [''a'', ''b'', ''c'', ''d'']" "mq_dropped (sy_queue s) = 1"
    "sy_cleared s = 1" "delivered (sy_replies s) = [''b'', ''c'']"
    by (auto split: option.splits)
  then show ?thesis
    using message_queue_invariant [OF queue_run_reach [OF queue_start s(1)]] by blast
qed

section \<open>Shutdown\<close>

lemma attempt_closed:
  assumes "\<not> mq_running (sy_queue s)"
  shows "\<exists>r q. attempt c s = s\<lparr>sy_queue := q, sy_replies := sy_replies s @ [(c, r)]\<rparr> \<and> \<not> mq_running q"
proof (cases "mq_queue (sy_queue s)")
  case Nil
  then have "attempt c s = s\<lparr>sy_queue := sy_queue s, sy_replies := sy_replies s @ [(c, None)]\<rparr>"
    using assms by (simp add: attempt_def get_attempt_def)
  then show ?thesis using assms by blast
next
  case (Cons x xs)
  then have "attempt c s = s\<lparr>sy_queue := sy_queue s\<lparr>mq_queue := xs, mq_consumed := mq_consumed (sy_queue s) + 1\<rparr>,
      sy_replies := sy_replies s @ [(c, Some x)]\<rparr>"
    by (simp add: attempt_def get_attempt_def)
  then show ?thesis using assms by (intro exI conjI) (assumption, simp)
qed

lemma resume_closed:
  assumes "\<not> mq_running (sy_queue s)" "mset cs = mset (sy_ready s)"
  shows "\<exists>s'. queue_run (map Resume cs) s = Some s' \<and> sy_ready s' = [] \<and> sy_waiting s' = sy_waiting s \<and>
    map fst (sy_replies s') = map fst (sy_replies s) @ cs"
  using assms
proof (induction cs arbitrary: s)
  case (Cons c cs)
  have c: "c \<in> set (sy_ready s)" using Cons.prems(2) by (metis list.set_intros(1) mset_eq_setD)
  let ?s = "s\<lparr>sy_ready := remove1 c (sy_ready s)\<rparr>"
  obtain r q where a: "attempt c ?s = ?s\<lparr>sy_queue := q, sy_replies := sy_replies s @ [(c, r)]\<rparr>" "\<not> mq_running q"
    using attempt_closed [of ?s c] Cons.prems(1) by auto
  have "mset cs = mset (sy_ready (attempt c ?s))"
    using Cons.prems(2) a(1) by (simp flip: Cons.prems(2))
  then show ?case
    using Cons.IH [of "attempt c ?s"] a c by (simp add: queue_exec_def)
qed auto

text \<open>C15. Shutdown releases every consumer: from any state, once the queue is shut down and the consumers
  that waited or were notified have been resumed, in whatever order, each of them has had its reply,
  nobody waits any more, and nobody is made to wait by a later \<open>get_sample\<close>.
\<close>

theorem shutdown_releases_consumers:
  assumes "mset cs = mset (sy_ready s @ sy_waiting s)"
  shows "\<exists>s'. queue_run (Shutdown # map Resume cs) s = Some s' \<and>
    sy_waiting s' = [] \<and> sy_ready s' = [] \<and> map fst (sy_replies s') = map fst (sy_replies s) @ cs"
  using resume_closed [of "notify_all (s\<lparr>sy_queue := shutdown_queue (sy_queue s)\<rparr>)" cs] assms
  by (auto simp: queue_exec_def notify_all_def shutdown_queue_def)

theorem shutdown_releases_consumers_witness:
  "\<exists>s s'. queue_run [Put ''a'', Get 1, Get 2, Get 3, Get 4, Put ''b''] (start_system 5) = Some s \<and>
    queue_run (Shutdown # map Resume [3, 2, 4]) s = Some s' \<and>
    sy_waiting s' = [] \<and> sy_ready s' = [] \<and> map fst (sy_replies s') = map fst (sy_replies s) @ [3, 2, 4]"
proof -
  have "case queue_run [Put ''a'', Get 1, Get 2, Get 3, Get 4, Put ''b''] (start_system 5) of
      None \<Rightarrow> False | Some s \<Rightarrow> sy_ready s = [2, 3, 4] \<and> sy_waiting s = []"
    by code_simp
  then obtain s where s: "queue_run [Put ''a'', Get 1, Get 2, Get 3, Get 4, Put ''b''] (start_system 5) = Some s"
    "sy_ready s = [2, 3, 4]" "sy_waiting s = []" by (auto split: option.splits)
  have "mset [3, 2, 4] = mset (sy_ready s @ sy_waiting s)" using s(2,3) by simp
  from shutdown_releases_consumers [OF this] show ?thesis using s(1) by blast
qed

text \<open>A queue of size zero is accepted by the constructor and raises at the first sample.\<close>

lemma zero_queue_raises:
  "new_queue (Some 0) = Inr q \<Longrightarrow> put_sample x q = Inl IndexError"
  by (auto simp: new_queue_def put_sample_def)

end
