(* ===== verification/LoadBalancer.thy ===== *)
theory LoadBalancer
  imports Prelude "HOL-Library.AList" "HOL-Library.Multiset"
begin

text \<open>
  The request router of \<open>verl/workers/rollout/llm_server.py\<close>: sticky sessions in an LRU cache, the least
  loaded server for a new session, servers added and removed at run time, and the client that takes a
  server for every generation and gives it back whatever happens. The cache is the \<open>LRUCache\<close> of
  \<open>cachetools\<close>: a parameter, with the documented laws of a cache as hypothesis. Dictionaries are
  association lists in insertion order, as \<open>min\<close> goes through them in that order.
\<close>

section \<open>The cache\<close>

record 'c cache_ops =
  co_empty :: 'c
  co_lookup :: "'c \<Rightarrow> string \<Rightarrow> (string \<times> 'c) option"
  co_store :: "'c \<Rightarrow> string \<Rightarrow> string \<Rightarrow> 'c"
  co_delete :: "'c \<Rightarrow> string \<Rightarrow> 'c"

definition cached :: "'c cache_ops \<Rightarrow> 'c \<Rightarrow> string \<Rightarrow> string option" where
  "cached ops c k = map_option fst (co_lookup ops c k)"

text \<open>
  A cache may forget other entries when it stores one, never the one it stores, and never makes one up;
  reading only changes what is recent.
\<close>

definition cache_ok :: "'c cache_ops \<Rightarrow> bool" where
  "cache_ok ops \<longleftrightarrow>
     (\<forall>k. cached ops (co_empty ops) k = None) \<and>
     (\<forall>c k v c'. co_lookup ops c k = Some (v, c') \<longrightarrow> (\<forall>k'. cached ops c' k' = cached ops c k')) \<and>
     (\<forall>c k v. cached ops (co_store ops c k v) k = Some v \<and>
        (\<forall>k'. k' \<noteq> k \<longrightarrow> cached ops (co_store ops c k v) k' \<in> {None, cached ops c k'})) \<and>
     (\<forall>c k. cached ops (co_delete ops c k) k = None \<and>
        (\<forall>k'. k' \<noteq> k \<longrightarrow> cached ops (co_delete ops c k) k' = cached ops c k'))"

section \<open>The balancer\<close>

record ('h, 'c) balancer =
  lb_servers :: "(string \<times> 'h) list"
  lb_inflight :: "(string \<times> int) list"
  lb_routes :: 'c

definition new_balancer :: "'c cache_ops \<Rightarrow> (string \<times> 'h) list \<Rightarrow> ('h, 'c) balancer res" where
  "new_balancer ops servers =
     (if servers = [] then Inl ValueError
      else Inr \<lparr>lb_servers = servers, lb_inflight = map (\<lambda>(sid, h). (sid, 0)) servers, lb_routes = co_empty ops\<rparr>)"

text \<open>\<open>min(d, key=d.get)\<close>: the first key with the least value.\<close>

fun least_loaded :: "string \<times> int \<Rightarrow> (string \<times> int) list \<Rightarrow> string \<times> int" where
  "least_loaded b [] = b"
| "least_loaded b (x # xs) = least_loaded (if snd x < snd b then x else b) xs"

definition lookup_server :: "string \<Rightarrow> ('h, 'c) balancer \<Rightarrow> ((string \<times> 'h) \<times> ('h, 'c) balancer) res" where
  "lookup_server sid lb =
     (case map_of (lb_servers lb) sid of None \<Rightarrow> Inl KeyError | Some h \<Rightarrow> Inr ((sid, h), lb))"

definition add_inflight :: "string \<Rightarrow> ('h, 'c) balancer \<Rightarrow> ('h, 'c) balancer" where
  "add_inflight sid lb = lb\<lparr>lb_inflight := AList.map_entry sid (\<lambda>n. n + 1) (lb_inflight lb)\<rparr>"

definition select_server ::
  "'c cache_ops \<Rightarrow> string \<Rightarrow> ('h, 'c) balancer \<Rightarrow> ((string \<times> 'h) \<times> ('h, 'c) balancer) res" where
  "select_server ops request_id lb =
     (case lb_inflight lb of
        [] \<Rightarrow> Inl RuntimeError
      | x # xs \<Rightarrow>
          (let sid = fst (least_loaded x xs)
           in lookup_server sid (add_inflight sid (lb\<lparr>lb_routes := co_store ops (lb_routes lb) request_id sid\<rparr>))))"

definition acquire_server ::
  "'c cache_ops \<Rightarrow> string \<Rightarrow> ('h, 'c) balancer \<Rightarrow> ((string \<times> 'h) \<times> ('h, 'c) balancer) res" where
  "acquire_server ops request_id lb =
     (case co_lookup ops (lb_routes lb) request_id of
        Some (sid, routes) \<Rightarrow>
          (if sid \<in> fst ` set (lb_inflight lb)
           then lookup_server sid (add_inflight sid (lb\<lparr>lb_routes := routes\<rparr>))
           else select_server ops request_id (lb\<lparr>lb_routes := co_delete ops routes request_id\<rparr>))
      | None \<Rightarrow> select_server ops request_id lb)"

definition release_server :: "string \<Rightarrow> ('h, 'c) balancer \<Rightarrow> ('h, 'c) balancer" where
  "release_server sid lb =
     (case map_of (lb_inflight lb) sid of
        None \<Rightarrow> lb
      | Some n \<Rightarrow> if 0 < n then lb\<lparr>lb_inflight := AList.map_entry sid (\<lambda>n. n - 1) (lb_inflight lb)\<rparr> else lb)"

definition add_servers :: "(string \<times> 'h) list \<Rightarrow> ('h, 'c) balancer \<Rightarrow> ('h, 'c) balancer" where
  "add_servers new lb =
     fold (\<lambda>(sid, h) lb. lb\<lparr>lb_inflight := AList.update sid 0 (lb_inflight lb),
                             lb_servers := AList.update sid h (lb_servers lb)\<rparr>) new lb"

definition remove_servers :: "string list \<Rightarrow> ('h, 'c) balancer \<Rightarrow> ('h, 'c) balancer" where
  "remove_servers sids lb =
     fold (\<lambda>sid lb. lb\<lparr>lb_inflight := AList.delete sid (lb_inflight lb),
                        lb_servers := AList.delete sid (lb_servers lb)\<rparr>) sids lb"

definition get_inflight_count :: "string \<Rightarrow> ('h, 'c) balancer \<Rightarrow> int" where
  "get_inflight_count sid lb = (case map_of (lb_inflight lb) sid of None \<Rightarrow> 0 | Some n \<Rightarrow> n)"

definition get_all_servers :: "('h, 'c) balancer \<Rightarrow> string list" where
  "get_all_servers lb = map fst (lb_inflight lb)"

record balancer_status =
  bs_servers :: "(string \<times> int) list"
  bs_total_inflight :: int
  bs_active_servers :: nat
  bs_registered_handles :: "string list"

definition get_status :: "('h, 'c) balancer \<Rightarrow> balancer_status" where
  "get_status lb =
     \<lparr>bs_servers = lb_inflight lb, bs_total_inflight = sum_list (map snd (lb_inflight lb)),
      bs_active_servers = length (lb_inflight lb), bs_registered_handles = map fst (lb_servers lb)\<rparr>"

section \<open>The clients\<close>

text \<open>
  \<open>generate\<close> takes a server, calls it and releases it in a \<open>finally\<close>; many run at once. A step is one call
  of the balancer's actor; the client's state is the server of each generation under way.
\<close>

datatype 'h pool_op = Start string | Finish string | Add "(string \<times> 'h) list" | Remove "string list"

fun pool_step ::
  "'c cache_ops \<Rightarrow> 'h pool_op \<Rightarrow> ('h, 'c) balancer \<times> string list \<Rightarrow> (('h, 'c) balancer \<times> string list) option" where
  "pool_step ops (Start rid) (lb, busy) =
     (case acquire_server ops rid lb of Inl e \<Rightarrow> None | Inr ((sid, h), lb') \<Rightarrow> Some (lb', sid # busy))"
| "pool_step ops (Finish sid) (lb, busy) =
     (if sid \<in> set busy then Some (release_server sid lb, remove1 sid busy) else None)"
| "pool_step ops (Add new) (lb, busy) = Some (add_servers new lb, busy)"
| "pool_step ops (Remove sids) (lb, busy) = Some (remove_servers sids lb, busy)"

fun pool_run ::
  "'c cache_ops \<Rightarrow> 'h pool_op list \<Rightarrow> ('h, 'c) balancer \<times> string list \<Rightarrow> (('h, 'c) balancer \<times> string list) option" where
  "pool_run ops [] s = Some s"
| "pool_run ops (op # rest) s = (case pool_step ops op s of None \<Rightarrow> None | Some s' \<Rightarrow> pool_run ops rest s')"

section \<open>The dictionaries\<close>

lemma keys_map_entry [simp]: "map fst (AList.map_entry k f xs) = map fst xs"
  by (induction xs) auto

lemma map_of_map_entry: "map_of (AList.map_entry k f xs) = (map_of xs)(k := map_option f (map_of xs k))"
  by (induction xs) auto

lemma key_image: "fst ` set xs = set (map fst xs)"
  by simp

lemma mem_keys: "sid \<in> set (map fst xs) \<longleftrightarrow> (\<exists>v. map_of xs sid = Some v)"
  by (induction xs) auto

section \<open>Choosing a server\<close>

lemma least_loaded_least:
  "least_loaded b xs \<in> set (b # xs) \<and> (\<forall>x\<in>set (b # xs). snd (least_loaded b xs) \<le> snd x)"
proof (induction xs arbitrary: b)
  case (Cons x xs)
  then show ?case using Cons.IH [of "if snd x < snd b then x else b"]
    by (auto split: if_splits; force)
qed simp

definition keys_agree :: "('h, 'c) balancer \<Rightarrow> bool" where
  "keys_agree lb \<longleftrightarrow> map fst (lb_servers lb) = map fst (lb_inflight lb) \<and> distinct (map fst (lb_inflight lb))"

definition is_least :: "string \<Rightarrow> ('h, 'c) balancer \<Rightarrow> bool" where
  "is_least sid lb \<longleftrightarrow> (\<exists>n. map_of (lb_inflight lb) sid = Some n \<and> (\<forall>x\<in>set (lb_inflight lb). n \<le> snd x))"

lemma add_inflight_simps [simp]:
  "lb_servers (add_inflight sid lb) = lb_servers lb"
  "lb_routes (add_inflight sid lb) = lb_routes lb"
  "lb_inflight (add_inflight sid lb) = AList.map_entry sid (\<lambda>n. n + 1) (lb_inflight lb)"
  by (simp_all add: add_inflight_def)

lemma lookup_server_known:
  assumes "keys_agree lb" "sid \<in> set (map fst (lb_inflight lb))" "lb_servers lb' = lb_servers lb"
  shows "\<exists>h. map_of (lb_servers lb) sid = Some h \<and> lookup_server sid lb' = Inr ((sid, h), lb')"
proof -
  obtain h where "map_of (lb_servers lb) sid = Some h"
    using assms(1,2) unfolding keys_agree_def by (metis mem_keys)
  then show ?thesis using assms(3) by (simp add: lookup_server_def)
qed

lemma select_server_least:
  assumes "keys_agree lb" "lb_inflight lb \<noteq> []"
  shows "\<exists>sid h. select_server ops rid lb =
      Inr ((sid, h), add_inflight sid (lb\<lparr>lb_routes := co_store ops (lb_routes lb) rid sid\<rparr>)) \<and>
    map_of (lb_servers lb) sid = Some h \<and> is_least sid lb"
proof -
  obtain x xs where xs: "lb_inflight lb = x # xs" using assms(2) by (cases "lb_inflight lb") auto
  let ?m = "least_loaded x xs"
  have m: "?m \<in> set (lb_inflight lb)" "\<forall>y\<in>set (lb_inflight lb). snd ?m \<le> snd y"
    using least_loaded_least [of x xs] by (simp_all add: xs)
  then have "map_of (lb_inflight lb) (fst ?m) = Some (snd ?m)"
    using assms(1) by (simp add: keys_agree_def)
  then have "is_least (fst ?m) lb" using m(2) by (auto simp: is_least_def)
  moreover have "fst ?m \<in> set (map fst (lb_inflight lb))" using m(1) by simp
  then obtain h where "map_of (lb_servers lb) (fst ?m) = Some h"
    "lookup_server (fst ?m) (add_inflight (fst ?m) (lb\<lparr>lb_routes := co_store ops (lb_routes lb) rid (fst ?m)\<rparr>)) =
      Inr ((fst ?m, h), add_inflight (fst ?m) (lb\<lparr>lb_routes := co_store ops (lb_routes lb) rid (fst ?m)\<rparr>))"
    using lookup_server_known [OF assms(1), where lb' = "add_inflight (fst ?m) (lb\<lparr>lb_routes := co_store ops (lb_routes lb) rid (fst ?m)\<rparr>)"]
    by auto
  ultimately show ?thesis
    by (intro exI [of _ "fst ?m"] exI [of _ h]) (simp add: select_server_def Let_def xs)
qed

lemma acquire_spec:
  assumes "cache_ok ops" "keys_agree lb" "lb_inflight lb \<noteq> []"
  shows "\<exists>sid h lb'. acquire_server ops rid lb = Inr ((sid, h), lb') \<and> map_of (lb_servers lb) sid = Some h \<and>
    lb_servers lb' = lb_servers lb \<and> lb_inflight lb' = AList.map_entry sid (\<lambda>n. n + 1) (lb_inflight lb) \<and>
    cached ops (lb_routes lb') rid = Some sid \<and>
    (\<forall>k. k \<noteq> rid \<longrightarrow> cached ops (lb_routes lb') k \<in> {None, cached ops (lb_routes lb) k}) \<and>
    (cached ops (lb_routes lb) rid = Some sid \<or>
     (cached ops (lb_routes lb) rid \<notin> Some ` set (map fst (lb_inflight lb)) \<and> is_least sid lb))"
proof (cases "co_lookup ops (lb_routes lb) rid")
  case None
  then show ?thesis
    using assms(1) select_server_least [OF assms(2,3), of ops rid]
    by (auto simp: acquire_server_def cached_def cache_ok_def)
next
  case (Some r)
  obtain s routes where r: "r = (s, routes)" by force
  have routes: "cached ops routes k = cached ops (lb_routes lb) k" for k
    using assms(1) Some r by (auto simp: cache_ok_def)
  have s: "cached ops (lb_routes lb) rid = Some s" using Some r by (simp add: cached_def)
  show ?thesis
  proof (cases "s \<in> set (map fst (lb_inflight lb))")
    case True
    then show ?thesis
      using Some r s routes lookup_server_known [OF assms(2) True, of "add_inflight s (lb\<lparr>lb_routes := routes\<rparr>)"]
      by (auto simp: acquire_server_def)
  next
    case False
    let ?lb = "lb\<lparr>lb_routes := co_delete ops routes rid\<rparr>"
    have "keys_agree ?lb" "lb_inflight ?lb \<noteq> []" using assms(2,3) by (simp_all add: keys_agree_def)
    from select_server_least [OF this, of ops rid] obtain sid h where
      sel: "select_server ops rid ?lb = Inr ((sid, h), add_inflight sid (?lb\<lparr>lb_routes := co_store ops (lb_routes ?lb) rid sid\<rparr>))"
      "map_of (lb_servers ?lb) sid = Some h" "is_least sid ?lb" by blast
    have store: "cached ops (co_store ops (co_delete ops routes rid) rid sid) rid = Some sid \<and>
      (\<forall>k. k \<noteq> rid \<longrightarrow> cached ops (co_store ops (co_delete ops routes rid) rid sid) k \<in> {None, cached ops (lb_routes lb) k})"
      using assms(1) routes unfolding cache_ok_def by (metis insert_iff)
    show ?thesis
      using Some r s False sel store
      by (auto simp: acquire_server_def is_least_def)
  qed
qed

section \<open>In-flight counts\<close>

definition counts_ok :: "('h, 'c) balancer \<times> string list \<Rightarrow> bool" where
  "counts_ok s \<longleftrightarrow>
     keys_agree (fst s) \<and>
     (\<forall>sid n. map_of (lb_inflight (fst s)) sid = Some n \<longrightarrow> 0 \<le> n \<and> n \<le> int (count (mset (snd s)) sid))"

definition counts_exact :: "('h, 'c) balancer \<times> string list \<Rightarrow> bool" where
  "counts_exact s \<longleftrightarrow> counts_ok s \<and> set (snd s) \<subseteq> set (map fst (lb_inflight (fst s))) \<and>
     (\<forall>sid n. map_of (lb_inflight (fst s)) sid = Some n \<longrightarrow> n = int (count (mset (snd s)) sid))"

fun changes_pool :: "'h pool_op \<Rightarrow> bool" where
  "changes_pool (Add new) = True"
| "changes_pool (Remove sids) = True"
| "changes_pool _ = False"

lemma acquire_step:
  assumes "keys_agree lb" "acquire_server ops rid lb = Inr ((sid, h), lb')"
  shows "lb_servers lb' = lb_servers lb \<and> sid \<in> set (map fst (lb_inflight lb)) \<and>
    lb_inflight lb' = AList.map_entry sid (\<lambda>n. n + 1) (lb_inflight lb)"
proof -
  have look: "lookup_server s b = Inr ((sid, h), lb') \<Longrightarrow> s = sid \<and> b = lb' \<and> sid \<in> set (map fst (lb_servers b))"
    for s and b :: "('a, 'b) balancer"
    by (auto simp: lookup_server_def mem_keys simp del: set_map split: option.splits)
  have sel: "select_server ops rid b = Inr ((sid, h), lb') \<Longrightarrow> lb_servers lb' = lb_servers b \<and>
      sid \<in> set (map fst (lb_servers b)) \<and> lb_inflight lb' = AList.map_entry sid (\<lambda>n. n + 1) (lb_inflight b)"
    for b
    by (auto simp: select_server_def Let_def dest!: look split: list.splits)
  show ?thesis
    using assms
    by (auto simp: acquire_server_def keys_agree_def dest!: look sel split: option.splits if_splits simp flip: set_map)
qed

lemma release_inflight:
  assumes "\<And>n. map_of (lb_inflight lb) sid = Some n \<Longrightarrow> 0 \<le> n"
  shows "lb_servers (release_server sid lb) = lb_servers lb \<and>
    map fst (lb_inflight (release_server sid lb)) = map fst (lb_inflight lb) \<and>
    map_of (lb_inflight (release_server sid lb)) =
      (map_of (lb_inflight lb))(sid := map_option (\<lambda>n. max 0 (n - 1)) (map_of (lb_inflight lb) sid))"
  using assms by (force simp: release_server_def map_of_map_entry split: option.split)

lemma add_servers_Cons:
  "add_servers ((sid, h) # new) lb =
     add_servers new (lb\<lparr>lb_inflight := AList.update sid 0 (lb_inflight lb), lb_servers := AList.update sid h (lb_servers lb)\<rparr>)"
  by (simp add: add_servers_def)

lemma remove_servers_Cons:
  "remove_servers (sid # sids) lb =
     remove_servers sids (lb\<lparr>lb_inflight := AList.delete sid (lb_inflight lb), lb_servers := AList.delete sid (lb_servers lb)\<rparr>)"
  by (simp add: remove_servers_def)

lemma counts_ok_add: "counts_ok (lb, busy) \<Longrightarrow> counts_ok (add_servers new lb, busy)"
proof (induction new arbitrary: lb)
  case (Cons x new)
  obtain sid h where x: "x = (sid, h)" by force
  have "counts_ok (lb\<lparr>lb_inflight := AList.update sid 0 (lb_inflight lb), lb_servers := AList.update sid h (lb_servers lb)\<rparr>, busy)"
    using Cons.prems by (auto simp: counts_ok_def keys_agree_def update_keys update_conv')
  then show ?case using Cons.IH by (simp add: x add_servers_Cons)
qed (simp add: add_servers_def)

lemma counts_ok_remove: "counts_ok (lb, busy) \<Longrightarrow> counts_ok (remove_servers sids lb, busy)"
proof (induction sids arbitrary: lb)
  case (Cons sid sids)
  have "counts_ok (lb\<lparr>lb_inflight := AList.delete sid (lb_inflight lb), lb_servers := AList.delete sid (lb_servers lb)\<rparr>, busy)"
    using Cons.prems by (auto simp: counts_ok_def keys_agree_def delete_keys delete_conv' distinct_removeAll split: if_splits)
  then show ?case using Cons.IH by (simp add: remove_servers_Cons)
qed (simp add: remove_servers_def)

lemma counts_ok_step:
  assumes "counts_ok s" "pool_step ops op s = Some s'"
  shows "counts_ok s'"
proof -
  obtain lb busy where s: "s = (lb, busy)" by force
  show ?thesis
  proof (cases op)
    case (Start rid)
    obtain sid h lb' where acq: "acquire_server ops rid lb = Inr ((sid, h), lb')" "s' = (lb', sid # busy)"
      using assms(2) Start by (auto simp: s split: sum.splits)
    have "keys_agree lb" using assms(1) by (simp add: s counts_ok_def)
    from acquire_step [OF this acq(1)] show ?thesis
      using assms(1) by (fastforce simp: s acq(2) counts_ok_def keys_agree_def map_of_map_entry)
  next
    case (Finish sid)
    have "0 \<le> n" if "map_of (lb_inflight lb) sid = Some n" for n using assms(1) that by (simp add: s counts_ok_def)
    from release_inflight [of lb sid, OF this]
    show ?thesis
      using assms Finish by (fastforce simp: s counts_ok_def keys_agree_def split: if_splits)
  qed (use assms counts_ok_add counts_ok_remove s in auto)
qed

lemma counts_exact_step:
  assumes "counts_exact s" "pool_step ops op s = Some s'" "\<not> changes_pool op"
  shows "counts_exact s'"
proof -
  obtain lb busy where s: "s = (lb, busy)" by force
  have ok: "counts_ok s'" using counts_ok_step [OF _ assms(2)] assms(1) by (simp add: counts_exact_def)
  show ?thesis
  proof (cases op)
    case (Start rid)
    obtain sid h lb' where acq: "acquire_server ops rid lb = Inr ((sid, h), lb')" "s' = (lb', sid # busy)"
      using assms(2) Start by (auto simp: s split: sum.splits)
    have "keys_agree lb" using assms(1) by (simp add: s counts_exact_def counts_ok_def)
    from acquire_step [OF this acq(1)] show ?thesis
      using assms(1) ok by (fastforce simp: s acq(2) counts_exact_def map_of_map_entry simp del: set_map)
  next
    case (Finish sid)
    have "0 \<le> n" if "map_of (lb_inflight lb) sid = Some n" for n
      using assms(1) that by (simp add: s counts_exact_def counts_ok_def)
    note rel = release_inflight [of lb sid, OF this]
    have sub: "set (remove1 sid busy) \<subseteq> set busy" by (rule set_remove1_subset)
    have busy: "sid \<in> set busy" and "s' = (release_server sid lb, remove1 sid busy)"
      using assms(2) Finish by (auto simp: s split: if_splits)
    moreover have "max 0 (z - 1) = z - 1" if "map_of (lb_inflight lb) sid = Some z" for z
    proof -
      have "z = int (count (mset busy) sid)" using assms(1) that by (simp add: s counts_exact_def)
      moreover have "1 \<le> count (mset busy) sid" using busy by (simp add: Suc_le_eq)
      ultimately have "0 \<le> z - 1" by linarith
      then show ?thesis by (rule max_absorb2)
    qed
    ultimately show ?thesis
      using assms(1) rel sub ok by (auto simp: s counts_exact_def simp del: set_map split: if_splits)
  qed (use assms in auto)
qed

lemma counts_ok_run:
  "counts_ok s \<Longrightarrow> pool_run ops acts s = Some s' \<Longrightarrow> counts_ok s'"
  by (induction acts arbitrary: s) (auto split: option.splits dest: counts_ok_step)

lemma counts_exact_run:
  "counts_exact s \<Longrightarrow> pool_run ops acts s = Some s' \<Longrightarrow> filter changes_pool acts = [] \<Longrightarrow> counts_exact s'"
  by (induction acts arbitrary: s) (auto split: option.splits if_splits dest: counts_exact_step)

lemma map_of_zeros: "map_of (map (\<lambda>(sid, h). (sid, 0)) servers) sid = Some n \<Longrightarrow> n = 0"
  by (induction servers) (auto split: if_splits)

lemma new_balancer_exact:
  assumes "new_balancer ops servers = Inr lb" "distinct (map fst servers)"
  shows "counts_exact (lb, [])"
  using assms map_of_zeros [unfolded case_prod_unfold]
  by (fastforce simp: new_balancer_def case_prod_unfold comp_def counts_exact_def counts_ok_def keys_agree_def
      split: if_splits)

text \<open>C17. However starting and finishing generations are interleaved with servers joining and leaving, the
  balancer keeps one handle and one counter per server, and no counter is negative or above the number
  of generations under way on its server: no server is avoided for a load it does not have. While the
  pool is fixed the counters are exact, so that every one is back at zero when all is done.
\<close>

theorem balancer_counts:
  assumes "new_balancer ops servers = Inr lb0" "distinct (map fst servers)"
    and "pool_run ops acts (lb0, []) = Some (lb, busy)"
  shows "map fst (lb_servers lb) = get_all_servers lb \<and> distinct (get_all_servers lb) \<and>
    (\<forall>sid. 0 \<le> get_inflight_count sid lb \<and> get_inflight_count sid lb \<le> int (count (mset busy) sid)) \<and>
    (filter changes_pool acts = [] \<longrightarrow> (\<forall>sid. get_inflight_count sid lb = int (count (mset busy) sid)))"
proof -
  have start: "counts_exact (lb0, [])" by (rule new_balancer_exact [OF assms(1,2)])
  then have ok: "counts_ok (lb, busy)"
    using counts_ok_run [OF _ assms(3)] by (simp add: counts_exact_def)
  have "get_inflight_count sid lb = int (count (mset busy) sid)" if "filter changes_pool acts = []" for sid
  proof -
    have exact: "counts_exact (lb, busy)" by (rule counts_exact_run [OF start assms(3) that])
    show ?thesis
    proof (cases "map_of (lb_inflight lb) sid")
      case None
      then have "sid \<notin> set busy" using exact mem_keys [of sid "lb_inflight lb"] by (auto simp: counts_exact_def)
      then show ?thesis using None by (simp add: get_inflight_count_def count_mset_0_iff)
    qed (use exact in \<open>simp add: get_inflight_count_def counts_exact_def\<close>)
  qed
  then show ?thesis
    using ok by (auto simp: counts_ok_def keys_agree_def get_all_servers_def get_inflight_count_def split: option.split)
qed

text \<open>A new session goes to a server of the pool with the least in-flight requests, a known session to the
  server that served it before as long as that server is in the pool; the chosen server is remembered
  for the session, gets one more in-flight request, and no other counter changes.
\<close>

theorem acquire_choice:
  assumes "cache_ok ops" "map fst (lb_servers lb) = get_all_servers lb" "distinct (get_all_servers lb)"
    and "get_all_servers lb \<noteq> []"
  shows "\<exists>sid h lb'. acquire_server ops rid lb = Inr ((sid, h), lb') \<and> map_of (lb_servers lb) sid = Some h \<and>
    cached ops (lb_routes lb') rid = Some sid \<and>
    (cached ops (lb_routes lb) rid = Some sid \<or>
     (cached ops (lb_routes lb) rid \<notin> Some ` set (get_all_servers lb) \<and>
      (\<forall>s\<in>set (get_all_servers lb). get_inflight_count sid lb \<le> get_inflight_count s lb))) \<and>
    (\<forall>s. get_inflight_count s lb' = get_inflight_count s lb + (if s = sid then 1 else 0))"
proof -
  have keys: "keys_agree lb" "lb_inflight lb \<noteq> []"
    using assms(2-4) by (simp_all add: keys_agree_def get_all_servers_def)
  obtain sid h lb' where a: "acquire_server ops rid lb = Inr ((sid, h), lb')" "map_of (lb_servers lb) sid = Some h"
    "lb_inflight lb' = AList.map_entry sid (\<lambda>n. n + 1) (lb_inflight lb)" "cached ops (lb_routes lb') rid = Some sid"
    "cached ops (lb_routes lb) rid = Some sid \<or>
      (cached ops (lb_routes lb) rid \<notin> Some ` set (map fst (lb_inflight lb)) \<and> is_least sid lb)"
    using acquire_spec [OF assms(1) keys, of rid] by blast
  have least: "get_inflight_count sid lb \<le> get_inflight_count s lb"
    if "is_least sid lb" "s \<in> set (get_all_servers lb)" for s
    using that mem_keys [of s "lb_inflight lb"]
    by (fastforce simp: is_least_def get_all_servers_def get_inflight_count_def simp del: set_map dest: map_of_SomeD)
  have "sid \<in> set (map fst (lb_inflight lb))"
    using keys(1) a(2) unfolding keys_agree_def by (metis mem_keys)
  then have "get_inflight_count s lb' = get_inflight_count s lb + (if s = sid then 1 else 0)" for s
    unfolding mem_keys by (auto simp: get_inflight_count_def a(3) map_of_map_entry split: option.split)
  then show ?thesis using a least by (auto simp: get_all_servers_def)
qed

section \<open>New sessions spread evenly\<close>

definition spread_ok :: "('h, 'c) balancer \<Rightarrow> bool" where
  "spread_ok lb \<longleftrightarrow> (\<forall>s\<in>set (get_all_servers lb). \<forall>t\<in>set (get_all_servers lb).
     get_inflight_count s lb \<le> get_inflight_count t lb + 1)"

text \<open>As long as only new sessions arrive and none ends, no server is ever more than one request ahead of
  another: \<open>n\<close> sessions are spread over the pool as evenly as integers allow.
\<close>

theorem fresh_sessions_spread:
  assumes "cache_ok ops" "distinct rids" "\<forall>r\<in>set rids. cached ops (lb_routes lb) r = None"
    and "map fst (lb_servers lb) = get_all_servers lb" "distinct (get_all_servers lb)" "get_all_servers lb \<noteq> []"
    and "spread_ok lb"
  shows "\<exists>lb' busy'. pool_run ops (map Start rids) (lb, busy) = Some (lb', busy') \<and>
    length busy' = length rids + length busy \<and> get_all_servers lb' = get_all_servers lb \<and> spread_ok lb'"
  using assms
proof (induction rids arbitrary: lb busy)
  case (Cons r rids)
  have keys: "keys_agree lb" "lb_inflight lb \<noteq> []"
    using Cons.prems(4-6) by (simp_all add: keys_agree_def get_all_servers_def)
  obtain sid h lb1 where a: "acquire_server ops r lb = Inr ((sid, h), lb1)" "lb_servers lb1 = lb_servers lb"
    "lb_inflight lb1 = AList.map_entry sid (\<lambda>n. n + 1) (lb_inflight lb)"
    "\<forall>k. k \<noteq> r \<longrightarrow> cached ops (lb_routes lb1) k \<in> {None, cached ops (lb_routes lb) k}" "is_least sid lb"
    using acquire_spec [OF Cons.prems(1) keys, of r] Cons.prems(3) by auto
  have all: "get_all_servers lb1 = get_all_servers lb" by (simp add: get_all_servers_def a(3))
  have count: "get_inflight_count s lb1 = get_inflight_count s lb + (if s = sid then 1 else 0)"
    if "s \<in> set (get_all_servers lb)" for s
    using that unfolding get_all_servers_def mem_keys
    by (auto simp: get_inflight_count_def a(3) map_of_map_entry)
  have least: "get_inflight_count sid lb \<le> get_inflight_count s lb" if "s \<in> set (get_all_servers lb)" for s
    using that a(5) mem_keys [of s "lb_inflight lb"]
    by (fastforce simp: is_least_def get_all_servers_def get_inflight_count_def simp del: set_map dest: map_of_SomeD)
  have "spread_ok lb1"
    unfolding spread_ok_def all
  proof (intro ballI)
    fix s t assume st: "s \<in> set (get_all_servers lb)" "t \<in> set (get_all_servers lb)"
    have "get_inflight_count s lb \<le> get_inflight_count t lb + 1" using Cons.prems(7) st by (simp add: spread_ok_def)
    then show "get_inflight_count s lb1 \<le> get_inflight_count t lb1 + 1"
      using least [OF st(2)] by (auto simp: count [OF st(1)] count [OF st(2)])
  qed
  moreover have "\<forall>k\<in>set rids. cached ops (lb_routes lb1) k = None"
    using a(4) Cons.prems(2,3) by fastforce
  ultimately obtain lb' busy' where "pool_run ops (map Start rids) (lb1, sid # busy) = Some (lb', busy')"
    "length busy' = length rids + length (sid # busy)" "get_all_servers lb' = get_all_servers lb1" "spread_ok lb'"
    using Cons.IH [of lb1 "sid # busy"] Cons.prems a(2) all by auto
  then show ?case using a(1) all by simp
qed simp

section \<open>A cache\<close>

text \<open>An LRU cache of \<open>n\<close> entries, the most recent first.\<close>

definition lru_cache :: "nat \<Rightarrow> (string \<times> string) list cache_ops" where
  "lru_cache n =
     \<lparr>co_empty = [],
      co_lookup = (\<lambda>c k. map_option (\<lambda>v. (v, (k, v) # AList.delete k c)) (map_of c k)),
      co_store = (\<lambda>c k v. take n ((k, v) # AList.delete k c)),
      co_delete = (\<lambda>c k. AList.delete k c)\<rparr>"

lemma map_of_take: "map_of (take n xs) k \<in> {None, map_of xs k}"
  by (induction xs arbitrary: n) (auto simp: take_Cons split: nat.split)

lemma cached_lru [simp]: "cached (lru_cache n) c k = map_of c k"
  by (simp add: cached_def lru_cache_def map_option.compositionality comp_def option.map_ident)

lemma lru_cache_ok:
  assumes "0 < n"
  shows "cache_ok (lru_cache n)"
proof -
  obtain m where n: "n = Suc m" using assms by (cases n) auto
  have "map_of (take m (AList.delete k c)) k' \<in> {None, map_of c k'}" if "k' \<noteq> k"
    for k k' :: string and c :: "(string \<times> string) list"
    using map_of_take [of m "AList.delete k c" k'] that by (simp add: delete_conv')
  then show ?thesis
    unfolding cache_ok_def cached_lru by (auto simp: lru_cache_def n delete_conv')
qed

definition sample_pool :: "(string \<times> nat) list" where
  "sample_pool = [(''s1'', 1), (''s2'', 2)]"

definition sample_acts :: "nat pool_op list" where
  "sample_acts = [Start ''a'', Start ''b'', Start ''a'', Finish ''s1'', Start ''c'', Finish ''s2'', Start ''d'']"

definition sample_balancer :: "(nat, (string \<times> string) list) balancer" where
  "sample_balancer = \<lparr>lb_servers = sample_pool, lb_inflight = [(''s1'', 0), (''s2'', 0)], lb_routes = []\<rparr>"

lemma sample_balancer_new: "new_balancer (lru_cache 8) sample_pool = Inr sample_balancer"
  by (simp add: new_balancer_def sample_pool_def sample_balancer_def lru_cache_def)

theorem balancer_counts_witness:
  "\<exists>lb. pool_run (lru_cache 8) sample_acts (sample_balancer, []) = Some (lb, [''s2'', ''s1'', ''s1'']) \<and>
    get_inflight_count ''s1'' lb = 2 \<and> get_inflight_count ''s2'' lb = 1"
proof -
  have "map_option snd (pool_run (lru_cache 8) sample_acts (sample_balancer, [])) = Some [''s2'', ''s1'', ''s1'']"
    by code_simp
  then obtain lb where run: "pool_run (lru_cache 8) sample_acts (sample_balancer, []) = Some (lb, [''s2'', ''s1'', ''s1''])"
    by (cases "pool_run (lru_cache 8) sample_acts (sample_balancer, [])") auto
  have "distinct (map fst sample_pool)" "filter changes_pool sample_acts = []"
    by (simp_all add: sample_pool_def sample_acts_def)
  then show ?thesis
    using balancer_counts [OF sample_balancer_new _ run] run by auto
qed

theorem acquire_choice_witness:
  "\<exists>sid h lb'. acquire_server (lru_cache 8) ''x'' (sample_balancer\<lparr>lb_routes := [(''x'', ''s2'')]\<rparr>) = Inr ((sid, h), lb') \<and>
    sid = ''s2'' \<and> h = 2 \<and> get_inflight_count ''s2'' lb' = 1 \<and> get_inflight_count ''s1'' lb' = 0"
proof -
  have "cache_ok (lru_cache 8)" by (rule lru_cache_ok) simp
  from acquire_choice [OF this, of "sample_balancer\<lparr>lb_routes := [(''x'', ''s2'')]\<rparr>" "''x''"]
  show ?thesis
    by (auto simp: sample_balancer_def sample_pool_def get_all_servers_def get_inflight_count_def split: if_splits)
qed

theorem fresh_sessions_spread_witness:
  "\<exists>lb' busy'. pool_run (lru_cache 2) (map Start [''a'', ''b'', ''c'', ''d'', ''e'']) (sample_balancer, []) = Some (lb', busy') \<and>
    length busy' = 5 \<and> spread_ok lb'"
proof -
  have "cache_ok (lru_cache 2)" by (rule lru_cache_ok) simp
  moreover have "spread_ok sample_balancer"
    by (simp add: spread_ok_def sample_balancer_def get_all_servers_def get_inflight_count_def)
  ultimately show ?thesis
    using fresh_sessions_spread [of "lru_cache 2" "[''a'', ''b'', ''c'', ''d'', ''e'']" sample_balancer "[]"]
    by (auto simp: sample_balancer_def sample_pool_def get_all_servers_def)
qed

text \<open>
  A server that is removed and added again while it still works on old requests starts at zero: the end
  of an old request is taken from the count of a new one.
\<close>

lemma readded_server_undercounts:
  "(case pool_run (lru_cache 8)
      [Start ''a'', Remove [''s1''], Add [(''s1'', 1)], Start ''b'', Start ''c'', Finish ''s1''] (sample_balancer, []) of
      None \<Rightarrow> False
    | Some (lb, busy) \<Rightarrow> get_inflight_count ''s1'' lb = 0 \<and> busy = [''s2'', ''s1''])"
  by code_simp

end
