(* ===== verification/RateLimiter.thy ===== *)
theory RateLimiter
  imports Prelude Complex_Main
begin

text \<open>
  The rate limited reward manager (\<open>verl/experimental/reward_loop/reward_manager/limited.py\<close>): a token
  bucket shared by coroutines, the limiters of the class and what \<open>run_single\<close> makes of the outcome of
  the reward function. Times and tokens are rational numbers, without the rounding of floats. Under its
  lock, \<open>acquire\<close> reads the clock once; what it does there is one step, and between the steps of one
  coroutine those of others may come. The clock never goes back.
\<close>

section \<open>The bucket\<close>

record bucket =
  tb_rate :: rat
  tb_max :: rat
  tb_tokens :: rat
  tb_last :: "rat option"

definition new_bucket :: "rat \<Rightarrow> rat option \<Rightarrow> bucket" where
  "new_bucket rate_limit max_tokens =
     (let m = (case max_tokens of Some m \<Rightarrow> if m \<noteq> 0 then m else rate_limit | None \<Rightarrow> rate_limit)
      in \<lparr>tb_rate = rate_limit, tb_max = m, tb_tokens = m, tb_last = None\<rparr>)"

definition refill :: "rat \<Rightarrow> bucket \<Rightarrow> bucket" where
  "refill now b =
     (let last_update = (case tb_last b of None \<Rightarrow> now | Some t \<Rightarrow> t);
          new_tokens = (now - last_update) * tb_rate b
      in b\<lparr>tb_tokens := min (tb_max b) (tb_tokens b + new_tokens), tb_last := Some now\<rparr>)"

definition py_div :: "rat \<Rightarrow> rat \<Rightarrow> rat res" where
  "py_div a b = (if b = 0 then Inl ZeroDivisionError else Inr (a / b))"

text \<open>
  What one pass under the lock ends with: the tokens are taken, and the call returns after a sleep
  (\<open>Granted\<close>); or nothing is taken and the call sleeps before the next pass (\<open>Retry\<close>).
\<close>

datatype pass_end = Granted rat | Retry rat

definition acquire_oversize :: "rat \<Rightarrow> rat \<Rightarrow> bucket \<Rightarrow> (pass_end \<times> bucket) res" where
  "acquire_oversize now num_tokens b =
     (let b1 = refill now b; tokens_needed = num_tokens - tb_tokens b1
      in bind_res (if 0 < tokens_needed then py_div tokens_needed (tb_rate b) else Inr 0) (\<lambda>wait_time.
           Inr (Granted wait_time, b1\<lparr>tb_tokens := tb_tokens b1 - num_tokens\<rparr>)))"

definition acquire_standard :: "rat \<Rightarrow> rat \<Rightarrow> bucket \<Rightarrow> (pass_end \<times> bucket) res" where
  "acquire_standard now num_tokens b =
     (let b1 = refill now b
      in if num_tokens \<le> tb_tokens b1 then Inr (Granted 0, b1\<lparr>tb_tokens := tb_tokens b1 - num_tokens\<rparr>)
         else bind_res (py_div (num_tokens - tb_tokens b1) (tb_rate b)) (\<lambda>wait_time. Inr (Retry wait_time, b1)))"

definition acquire_pass :: "rat \<Rightarrow> rat \<Rightarrow> bucket \<Rightarrow> (pass_end \<times> bucket) res" where
  "acquire_pass now num_tokens b =
     (if tb_max b < num_tokens then acquire_oversize now num_tokens b else acquire_standard now num_tokens b)"

text \<open>
  \<open>acquire\<close> of one coroutine when no other uses the bucket: the sleeps may take longer than asked, by what
  \<open>late\<close> says of each. \<open>None\<close>: still looping when the fuel is used up.
\<close>

fun acquire :: "nat \<Rightarrow> (nat \<Rightarrow> rat) \<Rightarrow> rat \<Rightarrow> rat \<Rightarrow> bucket \<Rightarrow> (rat \<times> bucket) res option" where
  "acquire 0 late now num_tokens b = None"
| "acquire (Suc fuel) late now num_tokens b =
     (case acquire_pass now num_tokens b of
        Inl e \<Rightarrow> Some (Inl e)
      | Inr (Granted w, b') \<Rightarrow> Some (Inr (if 0 < w then now + w + late fuel else now, b'))
      | Inr (Retry w, b') \<Rightarrow> acquire fuel late (now + w + late fuel) num_tokens b')"

section \<open>Many coroutines\<close>

text \<open>
  A pass is the time it reads and the tokens it asks for; a run gives, for each pass that takes its tokens,
  the tokens and the earliest time the call returns.
\<close>

fun bucket_run :: "(rat \<times> rat) list \<Rightarrow> bucket \<Rightarrow> ((rat \<times> rat) list \<times> bucket) res" where
  "bucket_run [] b = Inr ([], b)"
| "bucket_run ((now, n) # passes) b =
     bind_res (acquire_pass now n b) (\<lambda>(r, b').
     bind_res (bucket_run passes b') (\<lambda>(grants, b'').
       Inr ((case r of Granted w \<Rightarrow> [(n, now + w)] | Retry w \<Rightarrow> []) @ grants, b'')))"

section \<open>The manager\<close>

record limits_config =
  rc_max_concurrent :: int
  rc_max_rpm :: "rat option"
  rc_max_tpm :: "rat option"
  rc_estimated_tokens :: rat

record limiters =
  li_max_concurrent :: int
  li_max_rpm :: "rat option"
  li_rpm :: "bucket option"
  li_max_tpm :: "rat option"
  li_tpm :: "bucket option"
  li_estimated_tokens :: rat

definition per_minute :: "rat option \<Rightarrow> bucket option" where
  "per_minute limit = map_option (\<lambda>m. new_bucket (m / 60) (Some (m / 60))) limit"

text \<open>
  The limiters are state of the class: \<open>None\<close> before the first initialization, and later ones change
  nothing. \<open>asyncio.Semaphore\<close> refuses a negative value.
\<close>

definition init_class :: "limits_config \<Rightarrow> limiters option \<Rightarrow> limiters option res" where
  "init_class cfg st =
     (case st of
        Some l \<Rightarrow> Inr (Some l)
      | None \<Rightarrow>
          if rc_max_concurrent cfg < 0 then Inl ValueError
          else Inr (Some
            \<lparr>li_max_concurrent = rc_max_concurrent cfg, li_max_rpm = rc_max_rpm cfg, li_rpm = per_minute (rc_max_rpm cfg),
             li_max_tpm = rc_max_tpm cfg, li_tpm = per_minute (rc_max_tpm cfg),
             li_estimated_tokens = rc_estimated_tokens cfg\<rparr>))"

definition tokens_of_request :: "limiters \<Rightarrow> rat option \<times> rat option" where
  "tokens_of_request l =
     (map_option (\<lambda>_. 1) (li_rpm l), map_option (\<lambda>_. li_estimated_tokens l) (li_tpm l))"

datatype info = INum rat | IBool bool | IText string
datatype score_outcome = Number info | Dict "(string \<times> info) list" | TimedOut | Failed string

definition single_reward :: "score_outcome \<Rightarrow> info \<times> (string \<times> info) list" where
  "single_reward r =
     (let failed = (\<lambda>e. (INum 0, [(''error'', IText e), (''acc'', INum 0)]))
      in case r of
           Number score \<Rightarrow> (score, [(''acc'', score)])
         | Dict d \<Rightarrow> (case map_of d ''score'' of Some score \<Rightarrow> (score, d) | None \<Rightarrow> failed ([CHR 0x27] @ ''score'' @ [CHR 0x27]))
         | TimedOut \<Rightarrow> (INum 0, [(''timeout'', IBool True), (''acc'', INum 0)])
         | Failed e \<Rightarrow> failed e)"

text \<open>The response: as many tokens as the attention mask has ones at its end.\<close>

definition valid_response :: "int list \<Rightarrow> int list \<Rightarrow> int list" where
  "valid_response responses attention_mask =
     py_slice None (Some (sum_list (py_slice (Some (- int (length responses))) None attention_mask))) responses"

section \<open>The rate is respected\<close>

definition completed :: "rat \<Rightarrow> (rat \<times> rat) list \<Rightarrow> rat" where
  "completed T grants = sum_list (map fst (filter (\<lambda>(n, r). r \<le> T) grants))"

definition start_time :: "rat \<Rightarrow> bucket \<Rightarrow> rat" where
  "start_time now b = (case tb_last b of None \<Rightarrow> now | Some t \<Rightarrow> t)"

lemma refill_simps [simp]:
  "tb_rate (refill now b) = tb_rate b" "tb_max (refill now b) = tb_max b" "tb_last (refill now b) = Some now"
  by (simp_all add: refill_def Let_def)

lemma refill_bounds:
  "tb_tokens (refill now b) \<le> tb_max b \<and>
   tb_tokens (refill now b) \<le> tb_tokens b + tb_rate b * (now - start_time now b)"
  by (simp add: refill_def start_time_def Let_def mult.commute)

lemma refill_again:
  "tb_tokens (refill t (refill s b)) = min (tb_max b) (tb_tokens (refill s b) + (t - s) * tb_rate b)"
  by (simp add: refill_def [of t "refill s b"])

text \<open>What a pass does, whichever of the two kinds it is.\<close>

lemma acquire_pass_cases:
  assumes "0 < tb_rate b"
  obtains (granted) w where
      "acquire_pass now n b = Inr (Granted w, (refill now b)\<lparr>tb_tokens := tb_tokens (refill now b) - n\<rparr>)"
      "0 \<le> w" "tb_rate b * w = max 0 (n - tb_tokens (refill now b))"
  | (retry) "acquire_pass now n b = Inr (Retry ((n - tb_tokens (refill now b)) / tb_rate b), refill now b)"
      "tb_tokens (refill now b) < n" "n \<le> tb_max b"
proof (cases "n \<le> tb_tokens (refill now b)")
  case True
  then have "acquire_pass now n b = Inr (Granted 0, (refill now b)\<lparr>tb_tokens := tb_tokens (refill now b) - n\<rparr>)"
    using refill_bounds [of now b]
    by (simp add: acquire_pass_def acquire_oversize_def acquire_standard_def Let_def)
  then show thesis using True by (intro granted [of 0]) simp_all
next
  case False
  let ?w = "(n - tb_tokens (refill now b)) / tb_rate b"
  show thesis
  proof (cases "tb_max b < n")
    case True
    then have "acquire_pass now n b = Inr (Granted ?w, (refill now b)\<lparr>tb_tokens := tb_tokens (refill now b) - n\<rparr>)"
      using False assms by (simp add: acquire_pass_def acquire_oversize_def py_div_def Let_def)
    then show thesis using False assms by (intro granted [of ?w]) simp_all
  next
    case small: False
    then have "acquire_pass now n b = Inr (Retry ?w, refill now b)"
      using False assms by (simp add: acquire_pass_def acquire_standard_def py_div_def Let_def)
    then show thesis using False small by (intro retry) simp_all
  qed
qed

lemma completed_Cons: "completed T ((n, r) # grants) = (if r \<le> T then n else 0) + completed T grants"
  by (simp add: completed_def)

lemma bucket_run_bound:
  assumes "0 < tb_rate b" "\<forall>p\<in>set passes. 0 \<le> snd p" "\<forall>p. passes \<noteq> [] \<longrightarrow> t0 = start_time (fst (hd passes)) b"
  shows "\<exists>grants b'. bucket_run passes b = Inr (grants, b') \<and>
    completed T grants \<le> max 0 (tb_tokens b + tb_rate b * (T - t0))"
  using assms
proof (induction passes arbitrary: b t0)
  case Nil
  then show ?case by (simp add: completed_def)
next
  case (Cons p passes)
  obtain now n where p: "p = (now, n)" by force
  have n: "0 \<le> n" using Cons.prems(2) p by simp
  have t0: "t0 = start_time now b" using Cons.prems(3) p by simp
  let ?k = "tb_tokens (refill now b)"
  have rest: "\<exists>grants b''. bucket_run passes b' = Inr (grants, b'') \<and>
      completed T grants \<le> max 0 (tb_tokens b' + tb_rate b * (T - now))"
    if "tb_rate b' = tb_rate b" "tb_last b' = Some now" for b'
    using Cons.IH [of b' now] Cons.prems(1,2) that by (simp add: start_time_def)
  have "?k \<le> tb_tokens b + tb_rate b * (now - t0)" using refill_bounds t0 by simp
  then have k: "?k + tb_rate b * (T - now) \<le> tb_tokens b + tb_rate b * (T - t0)"
    by (simp add: algebra_simps)
  show ?case
  proof (rule acquire_pass_cases [OF Cons.prems(1), of now n])
    fix w
    let ?b = "(refill now b)\<lparr>tb_tokens := ?k - n\<rparr>"
    assume a: "acquire_pass now n b = Inr (Granted w, ?b)" "0 \<le> w" "tb_rate b * w = max 0 (n - ?k)"
    obtain grants b'' where g: "bucket_run passes ?b = Inr (grants, b'')"
      "completed T grants \<le> max 0 (?k - n + tb_rate b * (T - now))"
      using rest [of ?b] by auto
    have "completed T ((n, now + w) # grants) \<le> max 0 (tb_tokens b + tb_rate b * (T - t0))"
    proof (cases "now + w \<le> T")
      case True
      then have "tb_rate b * w \<le> tb_rate b * (T - now)" using Cons.prems(1) by simp
      then have "n - ?k \<le> tb_rate b * (T - now)" using a(3) by linarith
      then show ?thesis using g(2) k True by (simp add: completed_Cons)
    next
      case False
      then show ?thesis using g(2) k n by (simp add: completed_Cons)
    qed
    then show ?thesis using a(1) g(1) by (simp add: p)
  next
    assume a: "acquire_pass now n b = Inr (Retry ((n - ?k) / tb_rate b), refill now b)"
    obtain grants b'' where g: "bucket_run passes (refill now b) = Inr (grants, b'')"
      "completed T grants \<le> max 0 (?k + tb_rate b * (T - now))"
      using rest [of "refill now b"] by auto
    then show ?thesis using a k by (auto simp: p)
  qed
qed

text \<open>C18. The bucket keeps its promise to the API: in any interleaving of coroutines, the tokens of the calls
  that have returned by a time \<open>T\<close> are at most the burst it allows plus the rate times the time since
  the first call, also when some calls ask for more than the bucket can hold.
\<close>

theorem rate_limit_respected:
  assumes "0 < rate_limit" "\<forall>p\<in>set passes. 0 \<le> snd p" "passes \<noteq> []"
    and "b = new_bucket rate_limit max_tokens" "0 \<le> tb_max b + rate_limit * (T - fst (hd passes))"
  shows "\<exists>grants b'. bucket_run passes b = Inr (grants, b') \<and>
    completed T grants \<le> tb_max b + rate_limit * (T - fst (hd passes))"
proof -
  have b: "tb_rate b = rate_limit" "tb_tokens b = tb_max b" "start_time (fst (hd passes)) b = fst (hd passes)"
    by (simp_all add: assms(4) new_bucket_def start_time_def Let_def)
  show ?thesis
    using bucket_run_bound [of b passes "fst (hd passes)" T] assms(1-3,5) by (simp add: b)
qed

theorem rate_limit_respected_witness:
  "\<exists>grants b'. bucket_run [(0, 2), (0, 5), (1, 1), (2, 1), (3, 2)] (new_bucket 1 (Some 3)) = Inr (grants, b') \<and>
    map fst grants = [2, 5] \<and> completed 4 grants \<le> 3 + 1 * (4 - 0)"
proof -
  have run: "\<exists>b'. bucket_run [(0, 2), (0, 5), (1, 1), (2, 1), (3, 2)] (new_bucket 1 (Some 3)) = Inr ([(2, 0), (5, 4)], b')"
    by (simp add: new_bucket_def Let_def acquire_pass_def acquire_oversize_def acquire_standard_def py_div_def refill_def)
  then show ?thesis
    using rate_limit_respected [of 1 "[(0, 2), (0, 5), (1, 1), (2, 1), (3, 2)]" "new_bucket 1 (Some 3)" "Some 3" 4]
    by (auto simp: new_bucket_def Let_def)
qed

text \<open>A call that has the bucket to itself returns, after one sleep at most and as soon as the rate allows:
  at once when the tokens are there, otherwise after the time the missing tokens take (plus what the
  sleep is late), and its tokens are taken.
\<close>

theorem acquire_alone:
  fixes num_tokens :: rat
  assumes "0 < tb_rate b" "\<forall>k. 0 \<le> late k" "start_time now b \<le> now"
  defines "missing \<equiv> num_tokens - tb_tokens (refill now b)"
  shows "\<exists>b'. acquire 2 late now num_tokens b =
      Some (Inr (if missing \<le> 0 then now else now + missing / tb_rate b + late 1, b')) \<and>
    tb_tokens b' \<le> tb_max b - num_tokens"
proof (rule acquire_pass_cases [OF assms(1), of now num_tokens])
  fix w
  assume a: "acquire_pass now num_tokens b =
      Inr (Granted w, (refill now b)\<lparr>tb_tokens := tb_tokens (refill now b) - num_tokens\<rparr>)"
    "0 \<le> w" "tb_rate b * w = max 0 (num_tokens - tb_tokens (refill now b))"
  have "w = max 0 missing / tb_rate b" using a(3) assms(1) by (simp add: missing_def field_simps)
  then have w: "0 < w \<longleftrightarrow> 0 < missing" "0 < missing \<Longrightarrow> w = missing / tb_rate b"
    using assms(1) by (auto simp: zero_less_divide_iff max_def)
  show ?thesis
    using refill_bounds [of now b] a(1) w by (auto simp: numeral_2_eq_2)
next
  let ?k = "tb_tokens (refill now b)" and ?m = "missing / tb_rate b"
  assume a: "acquire_pass now num_tokens b = Inr (Retry ((num_tokens - ?k) / tb_rate b), refill now b)"
    "?k < num_tokens" "num_tokens \<le> tb_max b"
  let ?now = "now + ?m + late 1"
  have m: "0 < missing" "tb_rate b * ?m = missing" using a(2) assms(1) by (simp_all add: missing_def)
  have "missing \<le> tb_rate b * (?m + late 1)"
    using m(2) assms(1,2) by (simp add: distrib_left)
  then have "num_tokens \<le> tb_tokens (refill ?now (refill now b))"
    using a(3) unfolding refill_again by (simp add: missing_def mult.commute add.assoc)
  then have "acquire_pass ?now num_tokens (refill now b) =
      Inr (Granted 0, (refill ?now (refill now b))\<lparr>tb_tokens := tb_tokens (refill ?now (refill now b)) - num_tokens\<rparr>)"
    using a(3) by (simp add: acquire_pass_def acquire_standard_def Let_def)
  then show ?thesis
    using a(1) m(1) refill_bounds [of ?now "refill now b"]
    by (simp add: numeral_2_eq_2 missing_def)
qed

theorem acquire_alone_witness:
  "\<exists>b'. acquire 2 (\<lambda>_. 1 / 2) 10 4 \<lparr>tb_rate = 2, tb_max = 5, tb_tokens = 1, tb_last = Some 10\<rparr> =
      Some (Inr (12, b')) \<and> tb_tokens b' \<le> 1"
  using acquire_alone [of "\<lparr>tb_rate = 2, tb_max = 5, tb_tokens = 1, tb_last = Some 10\<rparr>" "\<lambda>_. 1 / 2" 10 4]
  by (auto simp: start_time_def refill_def Let_def)

text \<open>A limit of zero requests makes the first call raise.\<close>

lemma zero_rate_raises:
  "init_class \<lparr>rc_max_concurrent = 1, rc_max_rpm = Some 0, rc_max_tpm = None, rc_estimated_tokens = 2000\<rparr> None =
     Inr (Some l) \<Longrightarrow> li_rpm l = Some b \<Longrightarrow> acquire_pass now 1 b = Inl ZeroDivisionError"
  by (auto simp: init_class_def per_minute_def new_bucket_def acquire_pass_def acquire_oversize_def refill_def py_div_def Let_def)

end
