(* ===== verification/Dispatch.thy ===== *)
theory Dispatch
  imports DataProtoRows
begin

text \<open>
  How a call on a group of workers becomes calls on its workers and back
  (\<open>verl/single_controller/base/decorator.py\<close>, \<open>func_generator\<close> and \<open>execute_all_async\<close> of
  \<open>verl/single_controller/ray/base.py\<close>, \<open>parallel_put\<close> of \<open>verl/utils/ray_utils.py\<close>). A method of the
  workers is a parameter: the rank, the positional arguments and the keyword arguments give a result or
  an exception. References to the object store stand for the values they refer to.
\<close>

type_synonym ('t, 'n, 'v, 'm, 'r) item_args = "('t, 'n, 'v, 'm, 'r) batch_item list"

section \<open>Splitting arguments\<close>

text \<open>Keyword arguments are handled as the positional ones are; their names go along.\<close>

definition map_values :: "('a \<Rightarrow> 'b res) \<Rightarrow> (string \<times> 'a) list \<Rightarrow> (string \<times> 'b) list res" where
  "map_values f kwargs = map_res (\<lambda>(k, v). bind_res (f v) (\<lambda>w. Inr (k, w))) kwargs"

definition split_item ::
  "bool \<Rightarrow> nat \<Rightarrow> ('t, 'n, 'v, 'm, 'r) batch_item \<Rightarrow> ('t, 'n, 'v, 'm, 'r) batch_item list res" where
  "split_item auto chunks x =
     py_assert (is_chunkable x) (bind_res (batch_chunk auto chunks x) (\<lambda>cs. py_assert (length cs = chunks) (Inr cs)))"

definition split_args_kwargs_data_proto where
  "split_args_kwargs_data_proto auto chunks args kwargs =
     bind_res (map_res (split_item auto chunks) args) (\<lambda>as.
     bind_res (map_values (split_item auto chunks) kwargs) (\<lambda>ks. Inr (as, ks)))"

text \<open>
  With automatic padding: the length and the padding of the first padded argument are kept, and every
  later one must have that length. The padding changes the caller's object; what becomes of the
  argument is part of the result.
\<close>

type_synonym pad_state = "(nat \<times> nat) option"

definition padding_size_of :: "nat \<Rightarrow> nat \<Rightarrow> nat" where
  "padding_size_of chunks len = (if 0 < len mod chunks then chunks - len mod chunks else 0)"

definition pad_state_of ::
  "bool \<Rightarrow> nat \<Rightarrow> ('t, 'n, 'v, 'm) data_proto \<Rightarrow> pad_state \<Rightarrow> pad_state res" where
  "pad_state_of auto chunks d st =
     (if is_padding_enabled auto d then
        (case st of
           None \<Rightarrow> if chunks = 0 then Inl ZeroDivisionError else Inr (Some (dp_len d, padding_size_of chunks (dp_len d)))
         | Some (len, p) \<Rightarrow> py_assert (len = dp_len d) (Inr st))
      else Inr st)"

definition pad_and_split ::
  "bool \<Rightarrow> nat \<Rightarrow> ('t, 'n, 'v, 'm, 'r) batch_item \<Rightarrow> pad_state \<Rightarrow>
   (('t, 'n, 'v, 'm, 'r) batch_item list \<times> ('t, 'n, 'v, 'm, 'r) batch_item \<times> pad_state) res" where
  "pad_and_split auto chunks x st =
     (case x of
        ProtoItem d \<Rightarrow>
          bind_res (pad_state_of auto chunks d st) (\<lambda>st'.
          bind_res (if is_padding_enabled auto d then dp_padding (snd (the st')) False d else Inr d) (\<lambda>d'.
          bind_res (dp_chunk auto chunks d') (\<lambda>ds. Inr (map ProtoItem ds, ProtoItem d', st'))))
      | FutureItem f \<Rightarrow> Inr (map FutureItem (future_chunk chunks f), x, st)
      | RefItem r \<Rightarrow> Inl AssertionError
      | OtherItem \<Rightarrow> Inl AssertionError)"

fun pad_and_split_all ::
  "bool \<Rightarrow> nat \<Rightarrow> ('t, 'n, 'v, 'm, 'r) batch_item list \<Rightarrow> pad_state \<Rightarrow>
   (('t, 'n, 'v, 'm, 'r) batch_item list list \<times> ('t, 'n, 'v, 'm, 'r) batch_item list \<times> pad_state) res" where
  "pad_and_split_all auto chunks [] st = Inr ([], [], st)"
| "pad_and_split_all auto chunks (x # xs) st =
     bind_res (pad_and_split auto chunks x st) (\<lambda>(cs, x', st').
     bind_res (pad_and_split_all auto chunks xs st') (\<lambda>(css, xs', st''). Inr (cs # css, x' # xs', st'')))"

text \<open>The padding size travels as one more keyword argument; here it is a component of its own.\<close>

record ('t, 'n, 'v, 'm, 'r) split_call =
  sc_args :: "('t, 'n, 'v, 'm, 'r) batch_item list list"
  sc_kwargs :: "(string \<times> ('t, 'n, 'v, 'm, 'r) batch_item list) list"
  sc_padding :: "nat option"

definition split_with_auto_padding ::
  "bool \<Rightarrow> nat \<Rightarrow> ('t, 'n, 'v, 'm, 'r) item_args \<Rightarrow> (string \<times> ('t, 'n, 'v, 'm, 'r) batch_item) list \<Rightarrow>
   (('t, 'n, 'v, 'm, 'r) split_call \<times> ('t, 'n, 'v, 'm, 'r) item_args) res" where
  "split_with_auto_padding auto chunks args kwargs =
     bind_res (pad_and_split_all auto chunks args None) (\<lambda>(as, args', st).
     bind_res (pad_and_split_all auto chunks (map snd kwargs) st) (\<lambda>(ks, kwargs', st').
       Inr (\<lparr>sc_args = as, sc_kwargs = zip (map fst kwargs) ks, sc_padding = map_option snd st'\<rparr>, args')))"

section \<open>Dispatching and collecting\<close>

definition dispatch_one_to_all ::
  "nat \<Rightarrow> 'x list \<Rightarrow> (string \<times> 'x) list \<Rightarrow> 'x list list \<times> (string \<times> 'x list) list" where
  "dispatch_one_to_all world args kwargs =
     (map (replicate world) args, map (\<lambda>(k, v). (k, replicate world v)) kwargs)"

definition dispatch_dp_compute ::
  "nat \<Rightarrow> 'x list list \<Rightarrow> (string \<times> 'x list) list \<Rightarrow> ('x list list \<times> (string \<times> 'x list) list) res" where
  "dispatch_dp_compute world args kwargs =
     py_assert (list_all (\<lambda>a. length a = world) args \<and> list_all (\<lambda>(k, v). length v = world) kwargs) (Inr (args, kwargs))"

definition collect_dp_compute :: "nat \<Rightarrow> 'x list \<Rightarrow> 'x list res" where
  "collect_dp_compute world output = py_assert (length output = world) (Inr output)"

fun same_type :: "('t, 'n, 'v, 'm, 'r) batch_item \<Rightarrow> ('t, 'n, 'v, 'm, 'r) batch_item \<Rightarrow> bool" where
  "same_type (ProtoItem _) y = (case y of ProtoItem _ \<Rightarrow> True | _ \<Rightarrow> False)"
| "same_type (FutureItem _) y = (case y of FutureItem _ \<Rightarrow> True | _ \<Rightarrow> False)"
| "same_type (RefItem _) y = (case y of RefItem _ \<Rightarrow> True | _ \<Rightarrow> False)"
| "same_type OtherItem y = (case y of OtherItem \<Rightarrow> True | _ \<Rightarrow> False)"

definition concat_data_proto_or_future ::
  "('t, 'n, 'v, 'm, 'r) batch_item list \<Rightarrow> ('t, 'n, 'v, 'm, 'r) batch_item res" where
  "concat_data_proto_or_future output =
     py_assert (list_all (\<lambda>x. same_type x (hd output)) output) (batch_concat output)"

definition collect_dp_compute_data_proto ::
  "nat \<Rightarrow> ('t, 'n, 'v, 'm, 'r) batch_item list \<Rightarrow> ('t, 'n, 'v, 'm, 'r) batch_item res" where
  "collect_dp_compute_data_proto world output =
     py_assert (is_concatable output) (bind_res (collect_dp_compute world output) concat_data_proto_or_future)"

text \<open>\<open>parallel_put\<close>: the threads end in some order, each with its index; the slots are filled by index.\<close>

definition parallel_put :: "nat list \<Rightarrow> 'x list \<Rightarrow> 'x option list res" where
  "parallel_put order data =
     py_assert (data \<noteq> [])
       (Inr (fold (\<lambda>i out. out[i := Some (data ! i)]) order (replicate (length data) None)))"

definition by_dp_rank :: "int list \<Rightarrow> nat \<Rightarrow> nat \<Rightarrow> 'x list \<Rightarrow> 'x list res" where
  "by_dp_rank dp_rank_mapping dp_size world arg =
     py_assert (length arg = dp_size)
       (map_res (\<lambda>i. bind_res (py_get dp_rank_mapping (int i)) (\<lambda>r. py_get arg r)) [0..<world])"

definition put_all :: "(nat \<Rightarrow> nat list) \<Rightarrow> 'x list \<Rightarrow> 'x list res" where
  "put_all order arg = bind_res (parallel_put (order (length arg)) arg) (\<lambda>slots. Inr (map the slots))"

definition dispatch_nd_compute ::
  "(nat \<Rightarrow> nat list) \<Rightarrow> int list \<Rightarrow> nat \<Rightarrow> nat \<Rightarrow> 'x list list \<Rightarrow> (string \<times> 'x list) list \<Rightarrow>
   ('x list list \<times> (string \<times> 'x list) list) res" where
  "dispatch_nd_compute order dp_rank_mapping dp_size world args kwargs =
     (if args = [] then Inl IndexError
      else bind_res (map_res (put_all order) args) (\<lambda>refs.
           bind_res (map_values (put_all order) kwargs) (\<lambda>krefs.
           bind_res (map_res (by_dp_rank dp_rank_mapping dp_size world) refs) (\<lambda>all_args.
           bind_res (map_values (by_dp_rank dp_rank_mapping dp_size world) krefs) (\<lambda>all_kwargs.
             Inr (all_args, all_kwargs))))))"

definition collect_nd_compute :: "bool list \<Rightarrow> nat \<Rightarrow> 'x list \<Rightarrow> 'x list res" where
  "collect_nd_compute collect_mask world output =
     py_assert (length output = world)
       (bind_res (map_res (\<lambda>rank. bind_res (py_get collect_mask (int rank)) (\<lambda>use.
            Inr (if use then [output ! rank] else []))) [0..<world])
         (\<lambda>outs. Inr (concat outs)))"

definition collect_nd_compute_dataproto ::
  "bool list \<Rightarrow> nat \<Rightarrow> ('t, 'n, 'v, 'm, 'r) batch_item list \<Rightarrow> ('t, 'n, 'v, 'm, 'r) batch_item res" where
  "collect_nd_compute_dataproto collect_mask world output =
     bind_res (collect_nd_compute collect_mask world output) (\<lambda>out.
       py_assert (is_concatable out) (concat_data_proto_or_future out))"

text \<open>
  The dispatch and collect tables of a mesh are asked of the workers once and kept in the group; the
  answers of the workers are the parameters \<open>query_dispatch\<close> and \<open>query_collect\<close>.
\<close>

record worker_group =
  wg_world :: nat
  wg_dispatch :: "(string \<times> int list) list"
  wg_collect :: "(string \<times> bool list) list"

definition dispatch_info :: "(string \<Rightarrow> int list) \<Rightarrow> string \<Rightarrow> worker_group \<Rightarrow> (int list \<times> worker_group) res" where
  "dispatch_info query_dispatch mesh wg =
     (case map_of (wg_dispatch wg) mesh of
        Some m \<Rightarrow> Inr (m, wg)
      | None \<Rightarrow> py_assert (length (query_dispatch mesh) = wg_world wg)
                  (Inr (query_dispatch mesh, wg\<lparr>wg_dispatch := wg_dispatch wg @ [(mesh, query_dispatch mesh)]\<rparr>)))"

definition collect_info :: "(string \<Rightarrow> bool list) \<Rightarrow> string \<Rightarrow> worker_group \<Rightarrow> (bool list \<times> worker_group) res" where
  "collect_info query_collect mesh wg =
     py_assert (map_of (wg_dispatch wg) mesh \<noteq> None)
       (case map_of (wg_collect wg) mesh of
          Some m \<Rightarrow> Inr (m, wg)
        | None \<Rightarrow> py_assert (length (query_collect mesh) = wg_world wg)
                    (Inr (query_collect mesh, wg\<lparr>wg_collect := wg_collect wg @ [(mesh, query_collect mesh)]\<rparr>)))"

definition dispatch_lazy_compute_data_proto where
  "dispatch_lazy_compute_data_proto auto order query_dispatch mesh wg args kwargs =
     bind_res (dispatch_info query_dispatch mesh wg) (\<lambda>(mapping, wg').
       if mapping = [] then Inl ValueError
       else let dp_size = nat (Max (set mapping) + 1)
            in bind_res (split_args_kwargs_data_proto auto dp_size args kwargs) (\<lambda>(as, ks).
               bind_res (dispatch_nd_compute order mapping dp_size (wg_world wg') as ks) (\<lambda>(all_args, all_kwargs).
                 Inr (all_args, all_kwargs, wg'))))"

definition collect_lazy_compute_data_proto ::
  "(string \<Rightarrow> bool list) \<Rightarrow> string \<Rightarrow> worker_group \<Rightarrow> ('t, 'n, 'v, 'm, 'r) batch_item list \<Rightarrow>
   (('t, 'n, 'v, 'm, 'r) batch_item \<times> worker_group) res" where
  "collect_lazy_compute_data_proto query_collect mesh wg output =
     bind_res (collect_info query_collect mesh wg) (\<lambda>(mask, wg').
     bind_res (collect_nd_compute_dataproto mask (wg_world wg') output) (\<lambda>out. Inr (out, wg')))"

section \<open>Executing\<close>

type_synonym ('t, 'n, 'v, 'm, 'r) worker_method =
  "nat \<Rightarrow> ('t, 'n, 'v, 'm, 'r) batch_item list \<Rightarrow> (string \<times> ('t, 'n, 'v, 'm, 'r) batch_item) list \<Rightarrow>
   ('t, 'n, 'v, 'm, 'r) batch_item res"

text \<open>
  \<open>execute_all_async\<close>, when every argument is a list with one element per worker, as all the dispatch
  functions above give it; other arguments would be passed whole and are outside the model.
\<close>

definition execute_all ::
  "('t, 'n, 'v, 'm, 'r) worker_method \<Rightarrow> nat \<Rightarrow> ('t, 'n, 'v, 'm, 'r) batch_item list list \<Rightarrow>
   (string \<times> ('t, 'n, 'v, 'm, 'r) batch_item list) list \<Rightarrow> ('t, 'n, 'v, 'm, 'r) batch_item list res" where
  "execute_all work world args kwargs =
     (if list_all (\<lambda>a. length a = world) args \<and> list_all (\<lambda>(k, v). length v = world) kwargs
      then map_res (\<lambda>i. work i (map (\<lambda>a. a ! i) args) (map (\<lambda>(k, v). (k, v ! i)) kwargs)) [0..<world]
      else Inl (OtherError 0))"

text \<open>What \<open>func_generator\<close> does after the collection: rows that were only padding are dropped again.\<close>

definition drop_padding ::
  "nat \<Rightarrow> ('t, 'n, 'v, 'm, 'r) batch_item \<Rightarrow> ('t, 'n, 'v, 'm, 'r) batch_item res" where
  "drop_padding padding_count output =
     (if 0 < padding_count then
        (case output of
           ProtoItem d \<Rightarrow>
             bind_res (dp_select_idxs (Ints (py_slice None (Some (- int padding_count)) (map int [0..<dp_len d]))) d)
               (\<lambda>d'. Inr (ProtoItem d'))
         | _ \<Rightarrow> Inr output)
      else Inr output)"

text \<open>The generated method for \<open>DP_COMPUTE_PROTO\<close> and for a mesh.\<close>

definition call_dp_compute_proto ::
  "bool \<Rightarrow> ('t, 'n, 'v, 'm, 'r) worker_method \<Rightarrow> nat \<Rightarrow> ('t, 'n, 'v, 'm, 'r) item_args \<Rightarrow>
   (string \<times> ('t, 'n, 'v, 'm, 'r) batch_item) list \<Rightarrow>
   (('t, 'n, 'v, 'm, 'r) batch_item \<times> ('t, 'n, 'v, 'm, 'r) item_args) res" where
  "call_dp_compute_proto auto work world args kwargs =
     bind_res (split_with_auto_padding auto world args kwargs) (\<lambda>(call, args').
     bind_res (execute_all work world (sc_args call) (sc_kwargs call)) (\<lambda>output.
     bind_res (collect_dp_compute_data_proto world output) (\<lambda>out.
     bind_res (drop_padding (case sc_padding call of None \<Rightarrow> 0 | Some p \<Rightarrow> p) out) (\<lambda>res. Inr (res, args')))))"

definition call_mesh where
  "call_mesh auto order query_dispatch query_collect mesh work wg args kwargs =
     bind_res (dispatch_lazy_compute_data_proto auto order query_dispatch mesh wg args kwargs) (\<lambda>(as, ks, wg1).
     bind_res (execute_all work (wg_world wg1) as ks) (\<lambda>output.
       collect_lazy_compute_data_proto query_collect mesh wg1 output))"

section \<open>Lemmas\<close>

lemma fold_slots:
  "length out = n \<Longrightarrow> set order \<subseteq> {..<n} \<Longrightarrow>
    length (fold (\<lambda>i out. out[i := g i]) order out) = n \<and>
    (\<forall>i<n. fold (\<lambda>i out. out[i := g i]) order out ! i = (if i \<in> set order then g i else out ! i))"
proof (induction order arbitrary: out)
  case (Cons j order)
  then show ?case using Cons.IH [of "out[j := g j]"] by (auto simp: nth_list_update)
qed simp

text \<open>In whatever order the threads end, the references come back in the order of the data.\<close>

lemma put_all_in_order:
  assumes "set (order (length arg)) = {..<length arg}" "arg \<noteq> []"
  shows "put_all order arg = Inr arg"
proof -
  let ?out = "fold (\<lambda>i out. out[i := Some (arg ! i)]) (order (length arg)) (replicate (length arg) None)"
  have "length ?out = length arg \<and> (\<forall>i<length arg. ?out ! i = Some (arg ! i))"
    using fold_slots [of "replicate (length arg) None" "length arg" "order (length arg)" "\<lambda>i. Some (arg ! i)"] assms(1)
    by auto
  then have "?out = map Some arg" by (intro nth_equalityI) auto
  then show ?thesis using assms(2) by (simp add: put_all_def parallel_put_def comp_def)
qed

lemma py_get_int: "0 \<le> r \<Longrightarrow> r < int (length xs) \<Longrightarrow> py_get xs r = Inr (xs ! nat r)"
  by (simp add: py_get_def)

lemma by_dp_rank_Inr:
  assumes "length arg = n" "length mapping = world" "\<forall>r\<in>set mapping. 0 \<le> r \<and> r < int n"
  shows "by_dp_rank mapping n world arg = Inr (map (\<lambda>r. arg ! nat r) mapping)"
proof -
  have "map_res (\<lambda>i. bind_res (py_get mapping (int i)) (\<lambda>r. py_get arg r)) [0..<world] =
      Inr (map (\<lambda>i. arg ! nat (mapping ! i)) [0..<world])"
    using assms by (intro map_res_Inr) (simp add: py_get_int)
  also have "map (\<lambda>i. arg ! nat (mapping ! i)) [0..<world] = map (\<lambda>r. arg ! nat r) mapping"
    using assms(2) by (intro nth_equalityI) simp_all
  finally show ?thesis using assms(1) by (simp add: by_dp_rank_def)
qed

lemma concat_map_filter_zip:
  "length xs = length ks \<Longrightarrow>
    concat (map (\<lambda>i. if ks ! i then [xs ! i] else []) [0..<length ks]) = map fst (filter snd (zip xs ks))"
proof (induction xs ks rule: list_induct2)
  case (Cons x xs k ks)
  then show ?case unfolding list.size by (simp add: map_upt_Suc del: upt_Suc cong: if_cong)
qed simp

lemma collect_nd_compute_Inr:
  assumes "length output = world" "length keep = world"
  shows "collect_nd_compute keep world output = Inr (map fst (filter snd (zip output keep)))"
proof -
  have "map_res (\<lambda>rank. bind_res (py_get keep (int rank)) (\<lambda>use. Inr (if use then [output ! rank] else []))) [0..<world] =
      Inr (map (\<lambda>rank. if keep ! rank then [output ! rank] else []) [0..<world])"
    using assms(2) by (intro map_res_Inr) simp
  then show ?thesis using assms concat_map_filter_zip [of "output" keep] by (simp add: collect_nd_compute_def)
qed

lemma filter_zip_map: "map fst (filter snd (zip (map f xs) ks)) = map f (map fst (filter snd (zip xs ks)))"
  by (induction xs arbitrary: ks) (auto simp: zip_Cons1 split: list.split)

lemma the_protos_map [simp]: "the_protos (map ProtoItem ds) = Some ds"
  by (induction ds) auto

lemma collect_rows:
  assumes "dp_good e" "iss \<noteq> []"
  shows "is_concatable (map (\<lambda>rows. ProtoItem (take_rows rows e)) iss) \<and>
    concat_data_proto_or_future (map (\<lambda>rows. ProtoItem (take_rows rows e)) iss) =
      Inr (ProtoItem (take_rows (concat iss) e))"
proof -
  let ?ds = "map (\<lambda>rows. take_rows rows e) iss"
  obtain d ds' where ds: "?ds = d # ds'" using assms(2) by (cases iss) auto
  have "dp_concat (d # ds') = Inr (take_rows (concat iss) e)"
    using concat_take_rows [of e iss] assms ds by (simp add: dp_good_def)
  then have "is_concatable (map ProtoItem ?ds) \<and>
      concat_data_proto_or_future (map ProtoItem ?ds) = Inr (ProtoItem (take_rows (concat iss) e))"
    by (simp add: ds is_concatable_def concat_data_proto_or_future_def batch_concat_def list_all_iff)
  then show ?thesis by (simp add: comp_def)
qed

section \<open>A call on the ranks of a mesh\<close>

text \<open>
  A method that works row by row: on any rows of \<open>d\<close> it gives the same rows of \<open>e\<close>, on every worker.
\<close>

definition row_method where
  "row_method work d e \<longleftrightarrow>
     (\<forall>rank rows. set rows \<subseteq> {..<dp_len d} \<longrightarrow>
        work rank [ProtoItem (take_rows rows d)] [] = Inr (ProtoItem (take_rows rows e)))"

lemma split_item_rows:
  assumes "wf_dp d" "0 < n" "0 < dp_len d" "dp_len d mod n = 0"
  shows "split_item auto n (ProtoItem d) = Inr (map (\<lambda>rows. ProtoItem (take_rows rows d)) (even_chunks n (dp_len d)))"
  using dp_chunk_take_rows [OF assms, of auto] even_chunks(1) [OF assms(2-4)]
  by (simp add: split_item_def is_chunkable_def batch_chunk_def comp_def)

lemma even_chunk_rows:
  assumes "0 < n" "0 < len" "len mod n = 0" "rows \<in> set (even_chunks n len)"
  shows "set rows \<subseteq> {..<len}"
proof -
  have "set rows \<subseteq> set (concat (even_chunks n len))" using assms(4) by auto
  then show ?thesis unfolding even_chunks(2) [OF assms(1-3)] by auto
qed

lemma max_rank:
  assumes "map fst (filter snd (zip mapping keep)) = map int [0..<n]" "0 < n" "\<forall>r\<in>set mapping. 0 \<le> r \<and> r < int n"
  shows "mapping \<noteq> [] \<and> nat (Max (set mapping) + 1) = n"
proof -
  have "n - 1 \<in> set [0..<n]" using assms(2) by simp
  then have "int (n - 1) \<in> set (map int [0..<n])" by (metis imageI set_map)
  then have in_mapping: "int (n - 1) \<in> set mapping"
    unfolding assms(1) [symmetric] by (auto dest: set_zip_leftD)
  then have "Max (set mapping) = int (n - 1)"
    using assms(3) by (intro Max_eqI) auto
  then show ?thesis using in_mapping assms(2) by auto
qed

lemma rows_by_rank:
  assumes "length ec = n" "length ranks = world" "\<forall>r\<in>set ranks. 0 \<le> r \<and> r < int n"
    and "\<forall>k. set (order k) = {..<k}" "0 < n"
  shows "put_all order (map f ec) = Inr (map f ec) \<and>
    by_dp_rank ranks n world (map f ec) = Inr (map (\<lambda>r. f (ec ! nat r)) ranks)"
proof -
  have "map (\<lambda>r. map f ec ! nat r) ranks = map (\<lambda>r. f (ec ! nat r)) ranks"
    using assms(1,3) by (intro map_cong) auto
  moreover have "put_all order (map f ec) = Inr (map f ec)"
    by (rule put_all_in_order) (use assms in auto)
  ultimately show ?thesis using by_dp_rank_Inr [of "map f ec" n ranks world] assms(1-3) by simp
qed

lemma execute_rows:
  assumes "row_method work d e" "\<forall>rows\<in>set parts. set rows \<subseteq> {..<dp_len d}" "length parts = world"
  shows "execute_all work world [map (\<lambda>rows. ProtoItem (take_rows rows d)) parts] [] =
    Inr (map (\<lambda>rows. ProtoItem (take_rows rows e)) parts)"
proof -
  have "map_res (\<lambda>i. work i [map (\<lambda>rows. ProtoItem (take_rows rows d)) parts ! i] []) [0..<world] =
      Inr (map (\<lambda>i. ProtoItem (take_rows (parts ! i) e)) [0..<world])"
    using assms by (intro map_res_Inr) (simp add: row_method_def)
  moreover have "map (\<lambda>i. ProtoItem (take_rows (parts ! i) e)) [0..<world] = map (\<lambda>rows. ProtoItem (take_rows rows e)) parts"
    using assms(3) by (intro nth_equalityI) simp_all
  ultimately show ?thesis using assms(3) by (simp add: execute_all_def)
qed

text \<open>C16. A method called on a mesh of workers does what one worker would do on the whole batch: the batch is
  split over the data-parallel ranks, every worker gets the part of its rank (several workers may share
  one), and when the mask keeps exactly one worker of every rank, in the order of the ranks, the
  collected output is the output for the whole batch, in whatever order the parts were stored.
\<close>

theorem mesh_call_whole_batch:
  fixes d e :: "('t, 'n, 'v, 'm) data_proto"
    and work :: "('t, 'n, 'v, 'm, 'r) worker_method"
  assumes "dp_good d" "dp_good e" "dp_len e = dp_len d" "0 < dp_len d" "0 < n" "dp_len d mod n = 0"
    and "row_method work d e" "\<forall>k. set (order k) = {..<k}"
    and "length (query_dispatch mesh) = wg_world wg" "length (query_collect mesh) = wg_world wg"
    and "wg_dispatch wg = []" "wg_collect wg = []"
    and "\<forall>r\<in>set (query_dispatch mesh). 0 \<le> r \<and> r < int n"
    and "map fst (filter snd (zip (query_dispatch mesh) (query_collect mesh))) = map int [0..<n]"
  shows "\<exists>wg'. call_mesh auto order query_dispatch query_collect mesh work wg [ProtoItem d] [] = Inr (ProtoItem e, wg')"
proof -
  let ?ec = "even_chunks n (dp_len d)" and ?ranks = "query_dispatch mesh"
  let ?item = "\<lambda>x rows. ProtoItem (take_rows rows x) :: ('t, 'n, 'v, 'm, 'r) batch_item"
  define parts where "parts = map (\<lambda>r. ?ec ! nat r) ?ranks"
  note ec = even_chunks [OF assms(5) assms(4) assms(6)]
  have split: "put_all order (map (?item d) ?ec) = Inr (map (?item d) ?ec)"
    "by_dp_rank ?ranks n (wg_world wg) (map (?item d) ?ec) = Inr (map (?item d) parts)"
    unfolding parts_def using rows_by_rank [OF ec(1) assms(9,13,8,5), of "?item d"] by (simp_all add: comp_def)
  have "\<forall>rows\<in>set parts. set rows \<subseteq> {..<dp_len d}"
  proof
    fix rows assume "rows \<in> set parts"
    then have "rows \<in> set ?ec" using assms(13) ec(1) by (auto simp: parts_def intro!: nth_mem)
    then show "set rows \<subseteq> {..<dp_len d}" by (rule even_chunk_rows [OF assms(5) assms(4) assms(6)])
  qed
  then have run: "execute_all work (wg_world wg) [map (?item d) parts] [] = Inr (map (?item e) parts)"
    using assms(7,9) by (intro execute_rows) (simp_all add: parts_def)
  have "map fst (filter snd (zip (map (?item e) parts) (query_collect mesh))) = map (?item e) ?ec"
    unfolding parts_def filter_zip_map assms(14) using ec(1) by (intro nth_equalityI) simp_all
  then have nd: "collect_nd_compute (query_collect mesh) (wg_world wg) (map (?item e) parts) = Inr (map (?item e) ?ec)"
    using assms(9,10) by (simp add: collect_nd_compute_Inr parts_def)
  have "?ec \<noteq> []" using assms(5) ec(1) by auto
  with assms(2) have "is_concatable (map (?item e) ?ec) \<and>
      concat_data_proto_or_future (map (?item e) ?ec) = Inr (ProtoItem (take_rows (concat ?ec) e))"
    by (rule collect_rows)
  then have cat: "is_concatable (map (?item e) ?ec)" "concat_data_proto_or_future (map (?item e) ?ec) = Inr (ProtoItem e)"
    using ec(2) assms(2,3) take_rows_all [of e] by (simp_all add: dp_good_def)
  have "split_item auto n (ProtoItem d) = Inr (map (?item d) ?ec)"
    using assms(1,4-6) by (intro split_item_rows) (simp_all add: dp_good_def)
  then show ?thesis
    using max_rank [OF assms(14) assms(5) assms(13)] assms(5,9-12) split run nd cat
    by (simp add: call_mesh_def dispatch_lazy_compute_data_proto_def dispatch_info_def collect_info_def Let_def
        split_args_kwargs_data_proto_def map_values_def dispatch_nd_compute_def
        collect_lazy_compute_data_proto_def collect_nd_compute_dataproto_def)
qed

definition bump :: "(nat, nat, nat, nat) data_proto \<Rightarrow> (nat, nat, nat, nat) data_proto" where
  "bump d = d\<lparr>dp_batch := map_option (\<lambda>td. td\<lparr>td_cols := map_cols (map Suc) (td_cols td)\<rparr>) (dp_batch d)\<rparr>"

definition bump_method :: "(nat, nat, nat, nat, nat) worker_method" where
  "bump_method rank args kwargs = (case args of [ProtoItem d] \<Rightarrow> Inr (ProtoItem (bump d)) | _ \<Rightarrow> Inl TypeError)"

lemma bump_rows: "row_method bump_method sample_proto (bump sample_proto)"
proof -
  have suc: "Suc ([10, 11, 12] ! i) = [11, 12, 13] ! i" if "i < 3" for i :: nat
    using that by (auto simp: less_Suc_eq numeral_3_eq_3)
  have "map (\<lambda>i. Suc ([10, 11, 12] ! i)) rows = map ((!) [11, 12, 13]) rows" if "set rows \<subseteq> {..<3}" for rows :: "nat list"
    using that suc by (intro map_cong) auto
  then show ?thesis
    using sample_proto_good(2)
    by (simp add: row_method_def bump_method_def bump_def take_rows_def sample_proto_def map_cols_def pick_def comp_def)
qed

lemma bump_good: "dp_good (bump sample_proto)" "dp_len (bump sample_proto) = 3"
  by (simp_all add: dp_good_def wf_dp_def no_metrics_def sample_proto_def cols_ok_def dp_len_def metrics_key_def bump_def map_cols_def)

theorem mesh_call_whole_batch_witness:
  "\<exists>wg'. call_mesh False (\<lambda>k. rev [0..<k]) (\<lambda>_. [0, 0, 1, 1, 2, 2]) (\<lambda>_. [True, False, False, True, True, False])
     ''actor'' bump_method \<lparr>wg_world = 6, wg_dispatch = [], wg_collect = []\<rparr> [ProtoItem sample_proto] [] =
     Inr (ProtoItem (bump sample_proto), wg')"
proof (rule mesh_call_whole_batch [where n = 3])
  show "\<forall>k. set (rev [0..<k]) = {..<k}" by auto
  show "row_method bump_method sample_proto (bump sample_proto)" by (rule bump_rows)
qed (simp_all add: sample_proto_good bump_good numeral_3_eq_3)

section \<open>Automatic padding\<close>

lemma repeat_one: "repeat_rows p True (pick [i] c) = pick (replicate p i) c"
  by (simp add: repeat_rows_def pick_def)

lemma repeat_rows_take:
  "dp_repeat p True (take_rows [i] d) = Inr (take_rows (replicate p i) d)"
proof -
  have td: "make_td (map_cols (pick (replicate p i)) cols) p = Inr \<lparr>td_size = p, td_cols = map_cols (pick (replicate p i)) cols\<rparr>"
    for cols :: "'x cols"
    by (auto simp: make_td_def list_all_iff map_cols_def)
  have "make_dp (dp_batch (take_rows (replicate p i) d)) (dp_non (take_rows (replicate p i) d)) (dp_meta d) =
      Inr (take_rows (replicate p i) d)"
    by (rule make_dp_take_rows)
  then show ?thesis
    by (cases "dp_batch d") (simp_all add: dp_repeat_def take_rows_def repeat_one td)
qed

lemma padding_rows:
  assumes "dp_good d" "0 < dp_len d"
  shows "dp_padding p False d = Inr (take_rows ([0..<dp_len d] @ replicate p (dp_len d - 1)) d)"
proof (cases "p = 0")
  case True
  then show ?thesis using assms by (simp add: dp_padding_def take_rows_all dp_good_def)
next
  case False
  let ?last = "dp_len d - 1"
  have last: "dp_select_idxs (Ints [int (dp_len d) - 1]) d = Inr (take_rows [?last] d)"
    using select_ints [of d "[?last]"] assms by (simp add: dp_good_def of_nat_diff Suc_leI)
  have "dp_concat (map (\<lambda>is. take_rows is d) [[0..<dp_len d], replicate p ?last]) =
      Inr (take_rows (concat [[0..<dp_len d], replicate p ?last]) d)"
    using assms(1) by (intro concat_take_rows) (simp_all add: dp_good_def)
  then have "dp_concat [d, take_rows (replicate p ?last) d] = Inr (take_rows ([0..<dp_len d] @ replicate p ?last) d)"
    using assms(1) by (simp add: take_rows_all dp_good_def)
  then show ?thesis
    using False by (simp add: dp_padding_def last repeat_rows_take) (simp add: take_rows_def)
qed

lemma padding_size_divides:
  assumes "0 < n"
  shows "(len + padding_size_of n len) mod n = 0"
proof (cases "len mod n = 0")
  case False
  have "len + (n - len mod n) = n * (len div n) + n"
    using assms mult_div_mod_eq [of n len] mod_less_divisor [OF assms, of len] by linarith
  then show ?thesis using False by (simp add: padding_size_of_def)
qed (simp add: padding_size_of_def)

text \<open>Splitting chosen rows of a batch, working on the parts and collecting the outputs.\<close>

lemma chunked_rows_call:
  fixes work :: "('t, 'n, 'v, 'm, 'r) worker_method"
  assumes "dp_good d" "dp_good e" "0 < dp_len d" "0 < world" "row_method work d e"
    and "idx \<noteq> []" "length idx mod world = 0" "\<forall>i\<in>set idx. i < dp_len d"
  shows "\<exists>ds. dp_chunk auto world (take_rows idx d) = Inr ds \<and>
    bind_res (execute_all work world [map ProtoItem ds] []) (collect_dp_compute_data_proto world) =
      Inr (ProtoItem (take_rows idx e))"
proof -
  define ec where "ec = even_chunks world (length idx)"
  define parts where "parts = map (\<lambda>rows. pick rows idx) ec"
  let ?item = "\<lambda>x rows. ProtoItem (take_rows rows x) :: ('t, 'n, 'v, 'm, 'r) batch_item"
  have idx: "0 < length idx" using assms(6) by simp
  note ec = even_chunks [OF assms(4) idx assms(7), folded ec_def]
  have rows: "\<forall>i\<in>set rows. i < length idx" if "rows \<in> set ec" for rows
    using even_chunk_rows [OF assms(4) idx assms(7)] that by (auto simp: ec_def)
  have "dp_chunk auto world (take_rows idx d) = Inr (map (\<lambda>rows. take_rows rows (take_rows idx d)) ec)"
    using dp_chunk_take_rows [of "take_rows idx d" world auto] assms(1,3,4,7) idx
    by (simp add: dp_good_def wf_take_rows ec_def)
  moreover have "map (\<lambda>rows. take_rows rows (take_rows idx d)) ec = map (\<lambda>rows. take_rows rows d) parts"
    unfolding parts_def map_map comp_def using rows by (intro map_cong refl take_rows_take_rows)
  ultimately have chunk: "dp_chunk auto world (take_rows idx d) = Inr (map (\<lambda>rows. take_rows rows d) parts)" by simp
  have "\<forall>rows\<in>set parts. set rows \<subseteq> {..<dp_len d}"
    using rows assms(8) by (fastforce simp: parts_def pick_def)
  then have run: "execute_all work world [map (?item d) parts] [] = Inr (map (?item e) parts)"
    by (rule execute_rows [OF assms(5)]) (simp add: parts_def ec(1))
  have "parts \<noteq> []" using ec(1) assms(4) by (auto simp: parts_def)
  with assms(2) have "is_concatable (map (?item e) parts) \<and>
      concat_data_proto_or_future (map (?item e) parts) = Inr (ProtoItem (take_rows (concat parts) e))"
    by (rule collect_rows)
  moreover have "concat parts = idx"
    using pick_concat [of ec idx] ec(2) pick_upt [of idx] by (simp add: parts_def)
  ultimately show ?thesis
    using chunk run ec(1)
    by (simp add: collect_dp_compute_data_proto_def collect_dp_compute_def parts_def comp_def)
qed

text \<open>With automatic padding a call on a group of any number of workers, for a batch of any size, gives what
  one worker would give for the whole batch: the last row is repeated up to a multiple of the group's
  size, the workers get equal parts, and the rows that were only padding are dropped from the output.
  The caller's batch, however, stays padded.
\<close>

theorem auto_padding_whole_batch:
  fixes d e :: "('t, 'n, 'v, 'm) data_proto"
    and work :: "('t, 'n, 'v, 'm, 'r) worker_method"
  assumes "dp_good d" "dp_good e" "dp_len e = dp_len d" "0 < dp_len d" "0 < world"
    and "is_padding_enabled auto d" "row_method work d e"
  shows "call_dp_compute_proto auto work world [ProtoItem d] [] =
    Inr (ProtoItem e, [ProtoItem (take_rows ([0..<dp_len d] @ replicate (padding_size_of world (dp_len d)) (dp_len d - 1)) d)])"
proof -
  define p where "p = padding_size_of world (dp_len d)"
  define idx where "idx = [0..<dp_len d] @ replicate p (dp_len d - 1)"
  have idx: "idx \<noteq> []" "length idx = dp_len d + p" "\<forall>i\<in>set idx. i < dp_len d" using assms(4) by (auto simp: idx_def)
  have "length idx mod world = 0" using assms(5) by (simp add: idx(2) p_def padding_size_divides)
  from chunked_rows_call [where auto = auto, OF assms(1,2,4,5,7) idx(1) this idx(3)]
  obtain ds where ds: "dp_chunk auto world (take_rows idx d) = Inr ds"
    "bind_res (execute_all work world [map ProtoItem ds] []) (collect_dp_compute_data_proto world) =
      Inr (ProtoItem (take_rows idx e))"
    by (elim exE conjE)
  have first: "take_rows [0..<dp_len d] (take_rows idx e) = e"
  proof -
    have "take_rows [0..<dp_len d] (take_rows idx e) = take_rows (pick [0..<dp_len d] idx) e"
      by (rule take_rows_take_rows) (simp add: idx(2))
    also have "pick [0..<dp_len d] idx = [0..<dp_len e]"
      using assms(3) by (auto simp: pick_def idx_def nth_append intro!: nth_equalityI)
    finally show ?thesis using assms(2) by (simp add: take_rows_all dp_good_def)
  qed
  have "drop_padding p (ProtoItem (take_rows idx e)) = (Inr (ProtoItem e) :: ('t, 'n, 'v, 'm, 'r) batch_item res)"
  proof (cases "p = 0")
    case True
    then show ?thesis using take_rows_all [of e] assms(2,3) by (simp add: drop_padding_def idx_def dp_good_def)
  next
    case False
    have "dp_select_idxs (Ints (map int [0..<dp_len d])) (take_rows idx e) = Inr e"
      using select_ints [of "take_rows idx e" "[0..<dp_len d]"] assms(2-4) first idx(2)
      by (simp add: dp_good_def wf_take_rows)
    then show ?thesis using False assms(3,4) idx(2) by (simp add: drop_padding_def py_slice_butlast take_map)
  qed
  moreover have "dp_padding p False d = Inr (take_rows idx d)"
    using padding_rows [OF assms(1,4), of p] by (simp only: idx_def)
  moreover obtain outs where "execute_all work world [map ProtoItem ds] [] = Inr outs"
    "collect_dp_compute_data_proto world outs = Inr (ProtoItem (take_rows idx e))"
    using ds(2) unfolding bind_res_eq_Inr by blast
  ultimately show ?thesis
    unfolding p_def [symmetric] idx_def [symmetric] using ds(1) assms(5,6)
    by (simp add: call_dp_compute_proto_def split_with_auto_padding_def pad_and_split_def pad_state_of_def
        p_def [symmetric])
qed

theorem auto_padding_whole_batch_witness:
  "call_dp_compute_proto True bump_method 2 [ProtoItem sample_proto] [] =
    Inr (ProtoItem (bump sample_proto), [ProtoItem (take_rows [0, 1, 2, 2] sample_proto)])"
proof -
  have rows: "[0..<3] @ replicate (padding_size_of 2 3) 2 = [0, 1, 2, 2]" by code_simp
  have "is_padding_enabled True sample_proto" by (simp add: is_padding_enabled_def)
  from auto_padding_whole_batch [OF sample_proto_good(1) bump_good(1) _ _ _ this bump_rows, of 2]
  show ?thesis
    by (simp add: sample_proto_good(2) bump_good(2) rows)
qed

text \<open>Uniting the caller's batch, which stays padded, with the output fails on the batch sizes.\<close>

lemma padded_caller_union_fails:
  "bind_res (call_dp_compute_proto True bump_method 2 [ProtoItem sample_proto] []) (\<lambda>(out, args).
     case (args, out) of ([ProtoItem d], ProtoItem e) \<Rightarrow> dp_union d e | _ \<Rightarrow> Inl TypeError) = Inl AssertionError"
  by code_simp

end
