(* ===== verification/Advantages.thy ===== *)
theory Advantages
  imports TensorUtils Complex_Main "HOL-Library.AList"
begin

text \<open>
  The advantage estimators of \<open>verl/trainer/ppo/core_algos.py\<close> over the masked statistics of
  \<open>verl/utils/torch_functional.py\<close> and the grouping of \<open>verl/utils/groupwise.py\<close>. A tensor is the list of
  its rows; numbers are rationals, without the rounding of floats; a mask holds 0 and 1. The square
  root is a parameter. A division by zero gives a float that is no number there and \<open>OtherError 0\<close>,
  outside the model, here.
\<close>

type_synonym tensor = "rat list list"

definition torch_div :: "rat \<Rightarrow> rat \<Rightarrow> rat res" where
  "torch_div a b = (if b = 0 then Inl (OtherError 0) else Inr (a / b))"

definition tensor_map2 :: "(rat \<Rightarrow> rat \<Rightarrow> rat) \<Rightarrow> tensor \<Rightarrow> tensor \<Rightarrow> tensor" where
  "tensor_map2 f = map2 (map2 f)"

definition tensor_map :: "(rat \<Rightarrow> rat) \<Rightarrow> tensor \<Rightarrow> tensor" where
  "tensor_map f = map (map f)"

definition tensor_sum :: "tensor \<Rightarrow> rat" where
  "tensor_sum x = sum_list (map sum_list x)"

section \<open>Masked statistics\<close>

definition masked_sum :: "tensor \<Rightarrow> tensor \<Rightarrow> rat" where
  "masked_sum values ms = tensor_sum (tensor_map2 (\<lambda>v m. (if m \<noteq> 0 then v else 0) * m) values ms)"

definition small :: rat where "small = 1 / 10 ^ 8"

definition masked_mean :: "tensor \<Rightarrow> tensor \<Rightarrow> rat res" where
  "masked_mean values ms = torch_div (masked_sum values ms) (tensor_sum ms + small)"

definition masked_var :: "bool \<Rightarrow> tensor \<Rightarrow> tensor \<Rightarrow> rat res" where
  "masked_var unbiased values ms =
     bind_res (masked_mean values ms) (\<lambda>mean.
     bind_res (masked_mean (tensor_map (\<lambda>v. (v - mean) ^ 2) values) ms) (\<lambda>variance.
       if unbiased then
         (let mask_sum = tensor_sum ms
          in if mask_sum = 0 then Inl ValueError
             else if mask_sum = 1 then Inl ValueError
             else Inr (variance * (mask_sum / (mask_sum - 1))))
       else Inr variance))"

definition masked_whiten :: "(rat \<Rightarrow> rat) \<Rightarrow> bool \<Rightarrow> tensor \<Rightarrow> tensor \<Rightarrow> tensor res" where
  "masked_whiten rt shift_mean values ms =
     bind_res (masked_mean values ms) (\<lambda>mean.
     bind_res (masked_var True values ms) (\<lambda>var.
     bind_res (torch_div 1 (rt (var + small))) (\<lambda>rsqrt.
       Inr (tensor_map (\<lambda>v. (v - mean) * rsqrt + (if shift_mean then 0 else mean)) values))))"

section \<open>Generalized advantage estimation\<close>

text \<open>One row, from its last token to its first: next value, last advantage and the advantages so far.\<close>

fun gae_loop :: "rat \<Rightarrow> rat \<Rightarrow> (rat \<times> rat \<times> rat) list \<Rightarrow> rat \<times> rat \<times> rat list" where
  "gae_loop gamma lam [] = (0, 0, [])"
| "gae_loop gamma lam ((r, v, m) # rest) =
     (let (nextvalues, lastgaelam, advantages) = gae_loop gamma lam rest;
          delta = r + gamma * nextvalues - v;
          lastgaelam' = delta + gamma * lam * lastgaelam;
          nextvalues2 = v * m + (1 - m) * nextvalues;
          lastgaelam2 = lastgaelam' * m + (1 - m) * lastgaelam
      in (nextvalues2, lastgaelam2, lastgaelam2 # advantages))"

definition gae_row :: "rat \<Rightarrow> rat \<Rightarrow> rat list \<Rightarrow> rat list \<Rightarrow> rat list \<Rightarrow> rat list" where
  "gae_row gamma lam rewards values ms = snd (snd (gae_loop gamma lam (zip rewards (zip values ms))))"

definition compute_gae_advantage_return ::
  "(rat \<Rightarrow> rat) \<Rightarrow> tensor \<Rightarrow> tensor \<Rightarrow> tensor \<Rightarrow> rat \<Rightarrow> rat \<Rightarrow> (tensor \<times> tensor) res" where
  "compute_gae_advantage_return rt rewards values ms gamma lam =
     (let advantages = map2 (\<lambda>r (v, m). gae_row gamma lam r v m) rewards (zip values ms)
      in bind_res (masked_whiten rt True advantages ms) (\<lambda>whitened.
           Inr (whitened, tensor_map2 (+) advantages values)))"

section \<open>Groups of samples of one prompt\<close>

text \<open>\<open>id2score\<close>: a \<open>defaultdict(list)\<close> filled in the order of the batch.\<close>

definition add_to_group :: "'k \<times> 'a \<Rightarrow> ('k \<times> 'a list) list \<Rightarrow> ('k \<times> 'a list) list" where
  "add_to_group = (\<lambda>(k, s) d. AList.update k ((case map_of d k of None \<Rightarrow> [] | Some xs \<Rightarrow> xs) @ [s]) d)"

definition groups :: "'k list \<Rightarrow> 'a list \<Rightarrow> ('k \<times> 'a list) list" where
  "groups index scores = fold add_to_group (zip index scores) []"

definition group_of :: "('k \<times> 'a list) list \<Rightarrow> 'k \<Rightarrow> 'a list res" where
  "group_of d k = (case map_of d k of None \<Rightarrow> Inl KeyError | Some xs \<Rightarrow> Inr xs)"

definition mean :: "rat list \<Rightarrow> rat" where
  "mean xs = sum_list xs / of_nat (length xs)"

definition variance :: "rat list \<Rightarrow> rat" where
  "variance xs = sum_list (map (\<lambda>x. (x - mean xs) ^ 2) xs) / (of_nat (length xs) - 1)"

text \<open>\<open>id2mean\<close> and \<open>id2std\<close>; \<open>torch.std\<close> is the root of the unbiased variance.\<close>

definition group_mean :: "rat list \<Rightarrow> rat res" where
  "group_mean xs =
     (if length xs = 1 then Inr 0 else if 1 < length xs then Inr (mean xs) else Inl ValueError)"

definition group_std :: "(rat \<Rightarrow> rat) \<Rightarrow> rat list \<Rightarrow> rat res" where
  "group_std rt xs =
     (if length xs = 1 then Inr 1 else if 1 < length xs then Inr (rt (variance xs)) else Inl ValueError)"

definition spread_scores :: "rat list \<Rightarrow> tensor \<Rightarrow> tensor" where
  "spread_scores scores ms = map2 (\<lambda>s row. map (\<lambda>m. s * m) row) scores ms"

definition outcome_scores :: "tensor \<Rightarrow> rat list" where
  "outcome_scores token_level_rewards = map sum_list token_level_rewards"

text \<open>The common frame: a new score for every sample from its score and its group.\<close>

definition by_group :: "'k list \<Rightarrow> rat list \<Rightarrow> (rat \<Rightarrow> rat list \<Rightarrow> rat res) \<Rightarrow> rat list res" where
  "by_group index scores f =
     map_res (\<lambda>(k, s). bind_res (group_of (groups index scores) k) (f s)) (zip index scores)"

definition compute_grpo_outcome_advantage ::
  "(rat \<Rightarrow> rat) \<Rightarrow> tensor \<Rightarrow> tensor \<Rightarrow> 'k list \<Rightarrow> rat \<Rightarrow> bool \<Rightarrow> tensor res" where
  "compute_grpo_outcome_advantage rt rewards ms index epsilon norm_by_std =
     bind_res (by_group index (outcome_scores rewards) (\<lambda>s xs.
         bind_res (group_mean xs) (\<lambda>mu.
         bind_res (group_std rt xs) (\<lambda>sd.
           if norm_by_std then torch_div (s - mu) (sd + epsilon) else Inr (s - mu)))))
       (\<lambda>scores. Inr (spread_scores scores ms))"

definition compute_rloo_outcome_advantage :: "tensor \<Rightarrow> tensor \<Rightarrow> 'k list \<Rightarrow> tensor res" where
  "compute_rloo_outcome_advantage rewards ms index =
     bind_res (by_group index (outcome_scores rewards) (\<lambda>s xs.
         bind_res (group_mean xs) (\<lambda>mu.
           let n = of_nat (length xs)
           in Inr (if 1 < length xs then s * n / (n - 1) - mu * n / (n - 1) else s))))
       (\<lambda>scores. Inr (spread_scores scores ms))"

definition compute_opo_outcome_advantage :: "tensor \<Rightarrow> tensor \<Rightarrow> 'k list \<Rightarrow> tensor res" where
  "compute_opo_outcome_advantage rewards ms index =
     (let scores = outcome_scores rewards; lens = map sum_list ms
      in bind_res (map_res (\<lambda>(k, s).
             bind_res (group_of (groups index scores) k) (\<lambda>xs.
             bind_res (group_of (groups index lens) k) (\<lambda>ls.
             bind_res (if length xs = 1 then Inr 0
                       else if 1 < length xs then torch_div (sum_list (map2 (*) ls xs)) (sum_list ls)
                       else Inl ValueError) (\<lambda>bsl. Inr (s - bsl))))) (zip index scores))
           (\<lambda>scores'. Inr (spread_scores scores' ms)))"

definition compute_reinforce_plus_plus_baseline_outcome_advantage ::
  "(rat \<Rightarrow> rat) \<Rightarrow> tensor \<Rightarrow> tensor \<Rightarrow> 'k list \<Rightarrow> tensor res" where
  "compute_reinforce_plus_plus_baseline_outcome_advantage rt rewards ms index =
     bind_res (by_group index (outcome_scores rewards) (\<lambda>s xs. bind_res (group_mean xs) (\<lambda>mu. Inr (s - mu))))
       (\<lambda>scores. bind_res (masked_whiten rt True (spread_scores scores ms) ms)
         (\<lambda>w. Inr (tensor_map2 (*) w ms)))"

text \<open>\<open>torch.topk(rewards, 2)\<close>: the two largest; ties may come in any order, here the first one first.\<close>

definition best_two :: "(rat \<times> nat) list \<Rightarrow> ((rat \<times> nat) \<times> (rat \<times> nat)) option" where
  "best_two xs =
     (case sort_key (\<lambda>(r, i). - r) xs of a # b # _ \<Rightarrow> Some (a, b) | _ \<Rightarrow> None)"

definition passk_advantage :: "(rat \<Rightarrow> rat) \<Rightarrow> rat \<Rightarrow> bool \<Rightarrow> (rat \<times> nat) list \<Rightarrow> (nat \<times> rat) res" where
  "passk_advantage rt epsilon norm_by_std xs =
     (case best_two xs of
        None \<Rightarrow> Inl ValueError
      | Some ((r_max, i_max), (r_second_max, i2)) \<Rightarrow>
          bind_res (if norm_by_std then torch_div (r_max - r_second_max) (rt (variance (map fst xs)) + epsilon)
                    else Inr (r_max - r_second_max)) (\<lambda>a. Inr (i_max, a)))"

definition compute_grpo_passk_outcome_advantage ::
  "(rat \<Rightarrow> rat) \<Rightarrow> tensor \<Rightarrow> tensor \<Rightarrow> 'k list \<Rightarrow> rat \<Rightarrow> bool \<Rightarrow> tensor res" where
  "compute_grpo_passk_outcome_advantage rt rewards ms index epsilon norm_by_std =
     (let scores = outcome_scores rewards
      in bind_res (map_res (\<lambda>(k, xs). passk_advantage rt epsilon norm_by_std xs)
                     (groups index (zip scores [0..<length scores]))) (\<lambda>best.
           Inr (spread_scores (fold (\<lambda>(i, a) adv. adv[i := a]) best (replicate (length scores) 0)) ms)))"

definition compute_gpg_outcome_advantage :: "tensor \<Rightarrow> tensor \<Rightarrow> 'k list \<Rightarrow> rat \<Rightarrow> tensor res" where
  "compute_gpg_outcome_advantage rewards ms index f_norm =
     (let scores = outcome_scores rewards;
          m = length (filter (\<lambda>s. s \<noteq> 0) scores);
          alpha = of_nat (length scores) / of_nat (max m 1)
      in bind_res (by_group index scores (\<lambda>s xs. bind_res (group_mean xs) (\<lambda>mu. torch_div (alpha * (s - mu)) f_norm)))
           (\<lambda>scores'. Inr (spread_scores scores' ms)))"

section \<open>Vectorized estimators\<close>

text \<open>
  Group labels are numbers from 0 as \<open>as_torch_index\<close> gives them. Sums per group are \<open>index_add_\<close> and
  \<open>bincount\<close>.
\<close>

definition sums_by :: "nat \<Rightarrow> nat list \<Rightarrow> rat list \<Rightarrow> rat list" where
  "sums_by g gidx xs = fold (\<lambda>(k, x) acc. acc[k := acc ! k + x]) (zip gidx xs) (replicate g 0)"

definition group_mean_std :: "(rat \<Rightarrow> rat) \<Rightarrow> rat list \<Rightarrow> nat list \<Rightarrow> rat \<Rightarrow> (rat list \<times> rat list \<times> rat list) res" where
  "group_mean_std rt scores gidx eps =
     (if length scores \<noteq> length gidx then Inl ValueError
      else let g = (if gidx = [] then 0 else Max (set gidx) + 1);
               count = sums_by g gidx (map (\<lambda>_. 1) scores);
               s1 = sums_by g gidx scores;
               s2 = sums_by g gidx (map (\<lambda>s. s * s) scores);
               means = map2 (\<lambda>s n. s / max n 1) s1 count;
               vars = map2 (\<lambda>(s, q) n. (q - s * s / max n 1) / max (n - 1) 1) (zip s1 s2) count;
               stds = map (\<lambda>v. rt (max v eps)) vars
           in Inr (map2 (\<lambda>mu n. if n \<le> 1 then 0 else mu) means count,
                   map2 (\<lambda>sd n. if n \<le> 1 then 1 else sd) stds count, count))"

definition compute_grpo_vectorized_outcome_advantage ::
  "(rat \<Rightarrow> rat) \<Rightarrow> tensor \<Rightarrow> tensor \<Rightarrow> nat list \<Rightarrow> rat \<Rightarrow> bool \<Rightarrow> tensor res" where
  "compute_grpo_vectorized_outcome_advantage rt rewards ms g epsilon norm_by_std =
     (let scores = outcome_scores rewards
      in bind_res (group_mean_std rt scores g epsilon) (\<lambda>(mean_g, std_g, count).
         bind_res (map_res (\<lambda>(k, s). if norm_by_std then torch_div (s - mean_g ! k) (std_g ! k + epsilon)
                                     else Inr (s - mean_g ! k)) (zip g scores)) (\<lambda>scalars.
           Inr (spread_scores scalars ms))))"

definition compute_rloo_vectorized_outcome_advantage :: "tensor \<Rightarrow> tensor \<Rightarrow> nat list \<Rightarrow> tensor" where
  "compute_rloo_vectorized_outcome_advantage rewards ms lab =
     (let scores = outcome_scores rewards;
          g = (if lab = [] then 0 else Max (set lab) + 1);
          counts = sums_by g lab (map (\<lambda>_. 1) scores);
          totals = sums_by g lab scores
      in spread_scores
           (map2 (\<lambda>k s. (let c = counts ! k in (c * s - totals ! k) / max (c - 1) 1 * (if 1 < c then 1 else 0))) lab scores) ms)"

section \<open>Returns without groups\<close>

fun discounted_returns :: "rat \<Rightarrow> (rat \<times> rat) list \<Rightarrow> rat \<times> rat list" where
  "discounted_returns gamma [] = (0, [])"
| "discounted_returns gamma ((r, m) # rest) =
     (let (running, rets) = discounted_returns gamma rest; running' = r + gamma * running
      in (running' * m, running' # rets))"

definition compute_reinforce_plus_plus_outcome_advantage ::
  "(rat \<Rightarrow> rat) \<Rightarrow> tensor \<Rightarrow> tensor \<Rightarrow> rat \<Rightarrow> (tensor \<times> tensor) res" where
  "compute_reinforce_plus_plus_outcome_advantage rt rewards ms gamma =
     (let returns = map2 (\<lambda>r m. snd (discounted_returns gamma (zip r m))) rewards ms
      in bind_res (masked_whiten rt True returns ms) (\<lambda>w. Inr (tensor_map2 (*) w ms, returns)))"

fun reward_to_go :: "rat list \<Rightarrow> rat list" where
  "reward_to_go [] = []"
| "reward_to_go (r # rs) = (case reward_to_go rs of [] \<Rightarrow> [r] | x # xs \<Rightarrow> (r + x) # x # xs)"

definition compute_remax_outcome_advantage :: "tensor \<Rightarrow> rat list \<Rightarrow> tensor \<Rightarrow> tensor \<times> tensor" where
  "compute_remax_outcome_advantage rewards baselines ms =
     (let returns = map reward_to_go (tensor_map2 (*) rewards ms)
      in (map2 (\<lambda>row (b, m). map2 (\<lambda>r k. r - b * k) row m) returns (zip baselines ms), returns))"

section \<open>Masked statistics are defined\<close>

definition mask_ok :: "tensor \<Rightarrow> bool" where
  "mask_ok ms \<longleftrightarrow> (\<forall>row\<in>set ms. \<forall>m\<in>set row. m = 0 \<or> m = 1)"

definition root_ok :: "(rat \<Rightarrow> rat) \<Rightarrow> bool" where
  "root_ok rt \<longleftrightarrow> (\<forall>x. 0 < x \<longrightarrow> 0 < rt x) \<and> (\<forall>x. 0 \<le> x \<longrightarrow> 0 \<le> rt x)"

lemma tensor_sum_nonneg: "(\<forall>row\<in>set x. \<forall>v\<in>set row. 0 \<le> v) \<Longrightarrow> 0 \<le> tensor_sum x"
  unfolding tensor_sum_def by (intro sum_list_nonneg) (auto intro: sum_list_nonneg)

lemma mask_sum_nonneg: "mask_ok ms \<Longrightarrow> 0 \<le> tensor_sum ms"
  by (rule tensor_sum_nonneg) (force simp: mask_ok_def)

lemma set_tensor_map2: "row \<in> set (tensor_map2 f a b) \<Longrightarrow> v \<in> set row \<Longrightarrow>
    \<exists>x y. v = f x y \<and> (\<exists>r\<in>set a. x \<in> set r) \<and> (\<exists>r\<in>set b. y \<in> set r)"
proof -
  assume "row \<in> set (tensor_map2 f a b)" "v \<in> set row"
  then obtain x y p q where "(x, y) \<in> set (zip a b)" "(p, q) \<in> set (zip x y)" "v = f p q"
    by (auto simp: tensor_map2_def)
  then show ?thesis
    by (intro exI [of _ p] exI [of _ q]) (auto dest: set_zip_leftD set_zip_rightD)
qed

lemma masked_mean_Inr:
  assumes "mask_ok ms"
  shows "masked_mean values ms = Inr (masked_sum values ms / (tensor_sum ms + small))"
    and "0 < tensor_sum ms + small"
  using mask_sum_nonneg [OF assms] by (simp_all add: masked_mean_def torch_div_def small_def)

lemma masked_sum_nonneg:
  assumes "mask_ok ms" "\<forall>row\<in>set values. \<forall>v\<in>set row. 0 \<le> v"
  shows "0 \<le> masked_sum values ms"
  unfolding masked_sum_def
proof (rule tensor_sum_nonneg, intro ballI)
  fix row v assume "row \<in> set (tensor_map2 (\<lambda>v m. (if m \<noteq> 0 then v else 0) * m) values ms)" "v \<in> set row"
  then obtain x y where "v = (if y \<noteq> 0 then x else 0) * y" "\<exists>r\<in>set values. x \<in> set r" "\<exists>r\<in>set ms. y \<in> set r"
    by (blast dest: set_tensor_map2)
  then show "0 \<le> v" using assms by (fastforce simp: mask_ok_def)
qed

lemma masked_whiten_Inr:
  assumes "mask_ok ms" "1 < tensor_sum ms" "root_ok rt"
  shows "\<exists>w. masked_whiten rt shift_mean values ms = Inr w"
proof -
  define mu where "mu = masked_sum values ms / (tensor_sum ms + small)"
  define var where "var = masked_sum (tensor_map (\<lambda>v. (v - mu) ^ 2) values) ms / (tensor_sum ms + small) *
    (tensor_sum ms / (tensor_sum ms - 1))"
  have "0 \<le> masked_sum (tensor_map (\<lambda>v. (v - mu) ^ 2) values) ms"
    by (rule masked_sum_nonneg [OF assms(1)]) (auto simp: tensor_map_def)
  then have "0 \<le> var"
    unfolding var_def using masked_mean_Inr(2) [OF assms(1)] assms(2)
    by (intro mult_nonneg_nonneg divide_nonneg_nonneg) auto
  then have "0 < rt (var + small)" using assms(3) by (simp add: root_ok_def small_def)
  moreover have "masked_mean values ms = Inr mu" "masked_var True values ms = Inr var"
    using assms(2) by (simp_all add: masked_var_def masked_mean_Inr(1) [OF assms(1)] mu_def [symmetric] var_def Let_def)
  ultimately show ?thesis by (simp add: masked_whiten_def torch_div_def)
qed

section \<open>Generalized advantage estimation skips observations\<close>

text \<open>The textbook sum, over the rewards and values of the model's tokens only.\<close>

definition td_error :: "rat \<Rightarrow> (rat \<times> rat) list \<Rightarrow> nat \<Rightarrow> rat" where
  "td_error gamma rvs t =
     fst (rvs ! t) + gamma * (if Suc t < length rvs then snd (rvs ! Suc t) else 0) - snd (rvs ! t)"

definition textbook_gae :: "rat \<Rightarrow> rat \<Rightarrow> (rat \<times> rat) list \<Rightarrow> nat \<Rightarrow> rat" where
  "textbook_gae gamma lam rvs t = (\<Sum>l<length rvs - t. (gamma * lam) ^ l * td_error gamma rvs (t + l))"

definition model_tokens :: "(rat \<times> rat \<times> rat) list \<Rightarrow> (rat \<times> rat) list" where
  "model_tokens xs = map (\<lambda>(r, v, m). (r, v)) (filter (\<lambda>(r, v, m). m = 1) xs)"

lemma model_tokens_simps [simp]:
  "model_tokens [] = []"
  "model_tokens ((r, v, m) # xs) = (if m = 1 then (r, v) # model_tokens xs else model_tokens xs)"
  by (simp_all add: model_tokens_def)

lemma td_error_Suc: "td_error gamma (x # rvs) (Suc t) = td_error gamma rvs t"
  by (simp add: td_error_def)

lemma textbook_Suc: "textbook_gae gamma lam (x # rvs) (Suc t) = textbook_gae gamma lam rvs t"
  by (simp add: textbook_gae_def td_error_Suc)

lemma textbook_Cons:
  "textbook_gae gamma lam ((r, v) # rvs) 0 =
     r + gamma * (case rvs of [] \<Rightarrow> 0 | (r', v') # _ \<Rightarrow> v') - v + gamma * lam * textbook_gae gamma lam rvs 0"
proof -
  have "textbook_gae gamma lam ((r, v) # rvs) 0 =
      td_error gamma ((r, v) # rvs) 0 + (\<Sum>l<length rvs. (gamma * lam) ^ Suc l * td_error gamma rvs l)"
    by (simp add: textbook_gae_def sum.lessThan_Suc_shift td_error_Suc del: sum.lessThan_Suc)
  also have "(\<Sum>l<length rvs. (gamma * lam) ^ Suc l * td_error gamma rvs l) = gamma * lam * textbook_gae gamma lam rvs 0"
    by (simp add: textbook_gae_def sum_distrib_left mult.assoc)
  also have "td_error gamma ((r, v) # rvs) 0 = r + gamma * (case rvs of [] \<Rightarrow> 0 | (r', v') # _ \<Rightarrow> v') - v"
    by (auto simp: td_error_def split: list.split)
  finally show ?thesis .
qed

lemma gae_loop_spec:
  assumes "\<forall>(r, v, m)\<in>set xs. m = 0 \<or> m = 1" "gae_loop gamma lam xs = (nv, lg, advs)"
  shows "nv = (case model_tokens xs of [] \<Rightarrow> 0 | (r, v) # _ \<Rightarrow> v) \<and> lg = textbook_gae gamma lam (model_tokens xs) 0 \<and>
    length advs = length xs \<and>
    (\<forall>t<length xs. advs ! t = textbook_gae gamma lam (model_tokens xs) (length (model_tokens (take t xs))))"
  using assms
proof (induction xs arbitrary: nv lg advs)
  case Nil
  then show ?case by (simp add: model_tokens_def textbook_gae_def)
next
  case (Cons x xs)
  obtain r v m where x: "x = (r, v, m)" by (cases x) auto
  obtain nv1 lg1 advs1 where step: "gae_loop gamma lam xs = (nv1, lg1, advs1)" by (cases "gae_loop gamma lam xs") auto
  have "\<forall>(r, v, m)\<in>set xs. m = 0 \<or> m = 1" using Cons.prems(1) by auto
  note IH = Cons.IH [OF this step]
  show ?case
  proof (cases "m = 1")
    case True
    have "nv = v" "lg = textbook_gae gamma lam (model_tokens (x # xs)) 0" "advs = lg # advs1"
      using Cons.prems(2) step IH True by (auto simp: x Let_def textbook_Cons)
    then show ?thesis using IH True by (auto simp: x nth_Cons textbook_Suc split: nat.split)
  next
    case False
    then have m: "m = 0" using Cons.prems(1) by (simp add: x)
    have "nv = nv1" "lg = lg1" "advs = lg # advs1"
      using Cons.prems(2) step by (auto simp: x m Let_def)
    then show ?thesis using IH by (auto simp: x m nth_Cons split: nat.split)
  qed
qed

definition same_shape :: "tensor \<Rightarrow> tensor \<Rightarrow> bool" where
  "same_shape a b \<longleftrightarrow> list_all2 (\<lambda>x y. length x = length y) a b"

definition row_of :: "tensor \<Rightarrow> tensor \<Rightarrow> tensor \<Rightarrow> nat \<Rightarrow> (rat \<times> rat \<times> rat) list" where
  "row_of rewards values ms i = zip (rewards ! i) (zip (values ! i) (ms ! i))"

text \<open>C19. Generalized advantage estimation over a masked batch computes, at every token, the textbook sum of
  discounted TD errors over the model's own tokens from there on, as if the observations (the tokens
  of tools and of the environment) were not in the sequence; a masked position carries the advantage of
  the next model token. The returns are these advantages plus the values, and whitening succeeds as
  soon as two tokens count.
\<close>

theorem gae_skips_observations:
  assumes "same_shape rewards values" "same_shape values ms" "mask_ok ms" "1 < tensor_sum ms" "root_ok rt"
  shows "\<exists>whitened returns. compute_gae_advantage_return rt rewards values ms gamma lam = Inr (whitened, returns) \<and>
    (\<forall>i<length ms. \<forall>t<length (ms ! i).
       returns ! i ! t = values ! i ! t +
         textbook_gae gamma lam (model_tokens (row_of rewards values ms i))
           (length (model_tokens (take t (row_of rewards values ms i)))))"
proof -
  let ?adv = "map2 (\<lambda>r (v, m). gae_row gamma lam r v m) rewards (zip values ms)"
  obtain w where w: "masked_whiten rt True ?adv ms = Inr w" using masked_whiten_Inr [OF assms(3-5)] by blast
  have "tensor_map2 (+) ?adv values ! i ! t = values ! i ! t +
      textbook_gae gamma lam (model_tokens (row_of rewards values ms i)) (length (model_tokens (take t (row_of rewards values ms i))))"
    if it: "i < length ms" "t < length (ms ! i)" for i t
  proof -
    have len: "length rewards = length ms" "length values = length ms"
      "length (rewards ! i) = length (ms ! i)" "length (values ! i) = length (ms ! i)"
      using assms(1,2) it(1) by (auto simp: same_shape_def list_all2_conv_all_nth)
    let ?row = "row_of rewards values ms i"
    obtain nv lg advs where g: "gae_loop gamma lam ?row = (nv, lg, advs)" by (cases "gae_loop gamma lam ?row") auto
    have "\<forall>(r, v, m)\<in>set ?row. m = 0 \<or> m = 1"
      using assms(3) it(1) unfolding row_of_def mask_ok_def by (fastforce dest!: set_zip_rightD)
    note spec = gae_loop_spec [OF this g]
    have "?adv ! i = advs" using len it(1) g by (simp add: gae_row_def row_of_def)
    moreover have "length ?row = length (ms ! i)" using len by (simp add: row_of_def)
    ultimately show ?thesis
      using spec it len by (simp add: tensor_map2_def)
  qed
  then show ?thesis using w by (simp add: compute_gae_advantage_return_def Let_def)
qed

theorem gae_skips_observations_witness:
  "\<exists>whitened returns.
    compute_gae_advantage_return (\<lambda>x. x) [[0, 5, 0, 1]] [[1 / 2, 9, 1 / 4, 1 / 3]] [[1, 0, 1, 1]] 1 (1 / 2) = Inr (whitened, returns) \<and>
    returns ! 0 ! 1 = 9 + (1 / 3 - 1 / 4 + 1 / 2 * (1 - 1 / 3))"
proof -
  have ok: "same_shape [[0, 5, 0, 1]] [[1 / 2, 9, 1 / 4, 1 / 3]]" "same_shape [[1 / 2, 9, 1 / 4, 1 / 3]] [[1, 0, 1, 1]]"
    "mask_ok [[1, 0, 1, 1]]" "1 < tensor_sum [[1, 0, 1, 1]]" "root_ok (\<lambda>x. x)"
    by (simp_all add: same_shape_def mask_ok_def tensor_sum_def root_ok_def)
  obtain w r where c: "compute_gae_advantage_return (\<lambda>x. x) [[0, 5, 0, 1]] [[1 / 2, 9, 1 / 4, 1 / 3]] [[1, 0, 1, 1]] 1 (1 / 2) = Inr (w, r)"
    and all: "\<forall>i<length [[1, 0, 1, 1 :: rat]]. \<forall>t<length ([[1, 0, 1, 1 :: rat]] ! i).
       r ! i ! t = [[1 / 2, 9, 1 / 4, 1 / 3]] ! i ! t +
         textbook_gae 1 (1 / 2) (model_tokens (row_of [[0, 5, 0, 1]] [[1 / 2, 9, 1 / 4, 1 / 3]] [[1, 0, 1, 1]] i))
           (length (model_tokens (take t (row_of [[0, 5, 0, 1]] [[1 / 2, 9, 1 / 4, 1 / 3]] [[1, 0, 1, 1]] i))))"
    using gae_skips_observations [OF ok, of 1 "1 / 2"] by blast
  have "r ! 0 ! 1 = 9 + (1 / 3 - 1 / 4 + 1 / 2 * (1 - 1 / 3))"
    using all by (simp add: row_of_def textbook_gae_def td_error_def numeral_2_eq_2)
  then show ?thesis using c by blast
qed

section \<open>Groups\<close>

definition members :: "'k list \<Rightarrow> 'a list \<Rightarrow> 'k \<Rightarrow> 'a list" where
  "members index scores k = map snd (filter (\<lambda>(k', s). k' = k) (zip index scores))"

lemma fold_add_to_group:
  "map_of (fold add_to_group xs d) k =
     (if filter (\<lambda>(k', s). k' = k) xs = [] then map_of d k
      else Some ((case map_of d k of None \<Rightarrow> [] | Some ys \<Rightarrow> ys) @ map snd (filter (\<lambda>(k', s). k' = k) xs)))"
proof (induction xs arbitrary: d)
  case (Cons x xs)
  obtain k1 s where x: "x = (k1, s)" by force
  have "map_of (add_to_group x d) k =
      (if k1 = k then Some ((case map_of d k of None \<Rightarrow> [] | Some ys \<Rightarrow> ys) @ [s]) else map_of d k)"
    by (simp add: x add_to_group_def update_conv')
  then show ?case by (simp add: Cons.IH x split: option.split)
qed simp

lemma group_of_groups:
  "(k, s) \<in> set (zip index scores) \<Longrightarrow> group_of (groups index scores) k = Inr (members index scores k)"
  by (auto simp: group_of_def groups_def members_def fold_add_to_group filter_empty_conv)

lemma by_group_Inr:
  assumes "\<And>k s. (k, s) \<in> set (zip index scores) \<Longrightarrow> f s (members index scores k) = Inr (g k s)"
  shows "by_group index scores f = Inr (map (\<lambda>(k, s). g k s) (zip index scores))"
  unfolding by_group_def using assms by (intro map_res_Inr) (auto simp: group_of_groups)

lemma length_members_pos: "(k, s) \<in> set (zip index scores) \<Longrightarrow> s \<in> set (members index scores k)"
  by (force simp: members_def)

text \<open>The sums of the vectorized estimators are the sums of the members.\<close>

lemma fold_sums:
  "set (map fst xs) \<subseteq> {..<length acc} \<Longrightarrow> k < length acc \<Longrightarrow>
    length (fold (\<lambda>(k, x) acc. acc[k := acc ! k + x]) xs acc) = length acc \<and>
    fold (\<lambda>(k, x) acc. acc[k := acc ! k + x]) xs acc ! k =
      acc ! k + sum_list (map snd (filter (\<lambda>(k', s). k' = k) xs))"
proof (induction xs arbitrary: acc)
  case (Cons x xs)
  obtain k1 v where x: "x = (k1, v)" by force
  show ?case
    using Cons.IH [of "acc[k1 := acc ! k1 + v]"] Cons.prems by (auto simp: x nth_list_update add.assoc)
qed simp

lemma sums_by_members:
  assumes "\<forall>j\<in>set gidx. j < g" "k < g"
  shows "length (sums_by g gidx xs) = g" "sums_by g gidx xs ! k = sum_list (members gidx xs k)"
proof -
  have "set (map fst (zip gidx xs)) \<subseteq> {..<length (replicate g (0 :: rat))}"
    using assms(1) by (auto dest: set_zip_leftD)
  from fold_sums [OF this, of k] assms(2)
  show "length (sums_by g gidx xs) = g" "sums_by g gidx xs ! k = sum_list (members gidx xs k)"
    by (simp_all add: sums_by_def members_def)
qed

lemma members_map: "members index (map f xs) k = map f (members index xs k)"
  by (simp add: members_def zip_map2 filter_map comp_def case_prod_unfold)

lemma Max_bound: "(gidx :: nat list) \<noteq> [] \<Longrightarrow> \<forall>j\<in>set gidx. j < Max (set gidx) + 1"
  by (simp add: less_Suc_eq_le)

section \<open>Leave-one-out\<close>

text \<open>
  The textbook: a sample's score minus the mean score of the other samples of its prompt.
\<close>

definition leave_one_out :: "rat list \<Rightarrow> rat \<Rightarrow> rat" where
  "leave_one_out xs s = s - (sum_list xs - s) / (of_nat (length xs) - 1)"

lemma leave_one_out_alt:
  assumes "(1 :: rat) < of_nat (length xs)"
  shows "(of_nat (length xs) * s - sum_list xs) / (of_nat (length xs) - 1) = leave_one_out xs s"
proof -
  have n: "of_nat (length xs) - 1 \<noteq> (0 :: rat)" using assms by simp
  have "leave_one_out xs s = (s * (of_nat (length xs) - 1) - (sum_list xs - s)) / (of_nat (length xs) - 1)"
    unfolding leave_one_out_def by (subst diff_divide_distrib, subst nonzero_mult_div_cancel_right [OF n], rule refl)
  also have "s * (of_nat (length xs) - 1) - (sum_list xs - s) = of_nat (length xs) * s - sum_list xs"
    by (simp add: right_diff_distrib mult.commute)
  finally show ?thesis by (rule sym)
qed

lemma rloo_member:
  assumes "1 < length xs"
  shows "s * of_nat (length xs) / (of_nat (length xs) - 1) - mean xs * of_nat (length xs) / (of_nat (length xs) - 1) = leave_one_out xs s"
proof -
  have n: "(1 :: rat) < of_nat (length xs)" using assms by simp
  then have "mean xs * of_nat (length xs) = sum_list xs" by (simp add: mean_def)
  then show ?thesis by (simp add: leave_one_out_alt [OF n, symmetric] diff_divide_distrib mult.commute)
qed

text \<open>When every prompt has at least two samples, both implementations of RLOO give every model token of a
  sample the sample's score minus the mean score of the other samples of its prompt.
\<close>

theorem rloo_leave_one_out:
  assumes "length index = length rewards" "index \<noteq> []" "\<forall>k\<in>set index. 1 < length (members index (outcome_scores rewards) k)"
  shows "compute_rloo_outcome_advantage rewards ms index =
      Inr (spread_scores (map2 (\<lambda>k s. leave_one_out (members index (outcome_scores rewards) k) s) index (outcome_scores rewards)) ms) \<and>
    compute_rloo_vectorized_outcome_advantage rewards ms index =
      spread_scores (map2 (\<lambda>k s. leave_one_out (members index (outcome_scores rewards) k) s) index (outcome_scores rewards)) ms"
proof -
  let ?s = "outcome_scores rewards" and ?g = "Max (set index) + 1"
  have loop: "by_group index ?s (\<lambda>s xs. bind_res (group_mean xs) (\<lambda>mu. let n = of_nat (length xs)
      in Inr (if 1 < length xs then s * n / (n - 1) - mu * n / (n - 1) else s))) =
    Inr (map (\<lambda>(k, s). leave_one_out (members index ?s k) s) (zip index ?s))"
    using assms(3) by (intro by_group_Inr) (auto simp: group_mean_def Let_def rloo_member dest!: set_zip_leftD)
  have vectorized: "map2 (\<lambda>k s. let c = sums_by ?g index (map (\<lambda>_. 1) ?s) ! k
      in (c * s - sums_by ?g index ?s ! k) / max (c - 1) 1 * (if 1 < c then 1 else 0)) index ?s =
    map2 (\<lambda>k s. leave_one_out (members index ?s k) s) index ?s"
  proof (intro map_cong refl, clarify)
    fix k s assume "(k, s) \<in> set (zip index ?s)"
    then have k: "k \<in> set index" by (rule set_zip_leftD)
    let ?xs = "members index ?s k"
    have "k < ?g" using Max_bound [OF assms(2)] k by blast
    note sums = sums_by_members(2) [OF Max_bound [OF assms(2)] this]
    have count: "sum_list (members index (map (\<lambda>_. 1) ?s) k) = of_nat (length ?xs)"
      by (simp add: members_map sum_list_triv)
    have two: "2 \<le> length ?xs" using assms(3) k by auto
    then have "(of_nat 2 :: rat) \<le> of_nat (length ?xs)" by (simp only: of_nat_le_iff)
    then have n: "(1 :: rat) < of_nat (length ?xs)" "(2 :: rat) \<le> of_nat (length ?xs)" by simp_all
    show "(let c = sums_by ?g index (map (\<lambda>_. 1) ?s) ! k
      in (c * s - sums_by ?g index ?s ! k) / max (c - 1) 1 * (if 1 < c then 1 else 0)) = leave_one_out ?xs s"
      unfolding sums count Let_def using n(2) by (simp add: leave_one_out_alt [OF n(1), symmetric] max_absorb1)
  qed
  have g: "(if index = [] then 0 else ?g) = ?g" using assms(2) by simp
  show ?thesis
    unfolding compute_rloo_outcome_advantage_def compute_rloo_vectorized_outcome_advantage_def loop
    unfolding g Let_def vectorized [unfolded Let_def] by simp
qed

text \<open>With a single sample the two disagree: the score itself, and zero.\<close>

lemma rloo_single_sample:
  "compute_rloo_outcome_advantage [[0, 1]] [[1, 1]] [0 :: nat] = Inr [[1, 1]]"
  "compute_rloo_vectorized_outcome_advantage [[0, 1]] [[1, 1]] [0] = [[0, 0]]"
  by code_simp+

theorem rloo_leave_one_out_witness:
  "compute_rloo_outcome_advantage [[0, 1], [0, 0], [0, 1], [1, 1]] [[1, 1], [1, 0], [1, 1], [0, 1]] [1 :: nat, 0, 1, 0] =
     Inr [[0, 0], [- 2, 0], [0, 0], [0, 2]] \<and>
   compute_rloo_vectorized_outcome_advantage [[0, 1], [0, 0], [0, 1], [1, 1]] [[1, 1], [1, 0], [1, 1], [0, 1]] [1, 0, 1, 0] =
     [[0, 0], [- 2, 0], [0, 0], [0, 2]]"
  using rloo_leave_one_out [of "[1, 0, 1, 0]" "[[0, 1], [0, 0], [0, 1], [1, 1]]" "[[1, 1], [1, 0], [1, 1], [0, 1]]"]
  by (simp add: members_def outcome_scores_def spread_scores_def leave_one_out_def del: One_nat_def)

section \<open>The two implementations of GRPO\<close>

lemma sum_square_deviations:
  "sum_list (map (\<lambda>x. (x - c) ^ 2) xs) =
     sum_list (map (\<lambda>x. x * x) xs) - 2 * c * sum_list xs + of_nat (length xs) * (c * c)" for c :: rat
  by (induction xs) (simp_all add: power2_eq_square algebra_simps)

lemma variance_alt:
  assumes "xs \<noteq> []"
  shows "variance xs =
    (sum_list (map (\<lambda>x. x * x) xs) - sum_list xs * sum_list xs / of_nat (length xs)) / (of_nat (length xs) - 1)"
proof -
  have "of_nat (length xs) * (mean xs * mean xs) = mean xs * sum_list xs"
    using assms by (simp add: mean_def)
  then have "sum_list (map (\<lambda>x. (x - mean xs) ^ 2) xs) =
      sum_list (map (\<lambda>x. x * x) xs) - sum_list xs * sum_list xs / of_nat (length xs)"
    by (simp add: sum_square_deviations mean_def)
  then show ?thesis by (simp only: variance_def)
qed

lemma variance_zero_member:
  assumes "variance xs = 0" "1 < length xs" "s \<in> set xs"
  shows "s = mean xs"
proof -
  have "(1 :: rat) < of_nat (length xs)" using assms(2) by simp
  then have "sum_list (map (\<lambda>x. (x - mean xs) ^ 2) xs) = 0" using assms(1) by (simp add: variance_def)
  then have "\<forall>y\<in>set (map (\<lambda>x. (x - mean xs) ^ 2) xs). y = 0"
    by (subst (asm) sum_list_nonneg_eq_0_iff) auto
  then show ?thesis using assms(3) by simp
qed

lemma group_mean_std_members:
  assumes "length gidx = length scores" "gidx \<noteq> []"
  obtains means stds counts where "group_mean_std rt scores gidx eps = Inr (means, stds, counts)"
    "\<And>k. k \<in> set gidx \<Longrightarrow> means ! k = (if length (members gidx scores k) = 1 then 0 else mean (members gidx scores k))"
    "\<And>k. k \<in> set gidx \<Longrightarrow> stds ! k =
       (if length (members gidx scores k) = 1 then 1 else rt (max (variance (members gidx scores k)) eps))"
proof -
  let ?g = "Max (set gidx) + 1"
  note bound = Max_bound [OF assms(2)]
  have fits: "k < ?g" if "k \<in> set gidx" for k using bound that by blast
  note sums = sums_by_members [OF bound fits]
  have count: "sum_list (members gidx (map (\<lambda>_. 1) scores) k) = of_nat (length (members gidx scores k))" for k
    by (simp add: members_map sum_list_triv)
  have some: "members gidx scores k \<noteq> []" if k: "k \<in> set gidx" for k
  proof -
    obtain i where "i < length gidx" "gidx ! i = k" using k by (auto simp: in_set_conv_nth)
    then have "(k, scores ! i) = zip gidx scores ! i" "i < length (zip gidx scores)" using assms(1) by simp_all
    then have "(k, scores ! i) \<in> set (zip gidx scores)" by (simp only: nth_mem)
    then have "scores ! i \<in> set (members gidx scores k)" by (rule length_members_pos)
    then show ?thesis by auto
  qed
  have one: "length (members gidx scores k) \<le> 1 \<longleftrightarrow> length (members gidx scores k) = 1"
    "max (of_nat (length (members gidx scores k))) 1 = (of_nat (length (members gidx scores k)) :: rat)"
    if "k \<in> set gidx" for k
  proof -
    have "0 < length (members gidx scores k)" using some [OF that] by simp
    then show "length (members gidx scores k) \<le> 1 \<longleftrightarrow> length (members gidx scores k) = 1"
      "max (of_nat (length (members gidx scores k))) 1 = (of_nat (length (members gidx scores k)) :: rat)"
      by (auto simp: max_def le_Suc_eq)
  qed
  obtain means stds counts where r: "group_mean_std rt scores gidx eps = Inr (means, stds, counts)"
    using assms by (simp add: group_mean_std_def Let_def)
  show thesis
  proof (rule that [OF r])
    fix k assume k: "k \<in> set gidx"
    let ?xs = "members gidx scores k"
    have two: "max (of_nat (length ?xs) - 1) 1 = (of_nat (length ?xs) - 1 :: rat)" if "length ?xs \<noteq> 1"
    proof -
      have "2 \<le> length ?xs" using some [OF k] that by (cases ?xs rule: list.exhaust) (auto simp: Suc_le_eq)
      then have "(of_nat 2 :: rat) \<le> of_nat (length ?xs)" by (simp only: of_nat_le_iff)
      then show ?thesis by simp
    qed
    show "means ! k = (if length ?xs = 1 then 0 else mean ?xs)"
      using r assms fits [OF k] some [OF k]
      by (auto simp: group_mean_std_def Let_def sums [OF k] count one [OF k] mean_def simp del: One_nat_def)
    show "stds ! k = (if length ?xs = 1 then 1 else rt (max (variance ?xs) eps))"
      using r assms fits [OF k] some [OF k] two
      by (auto simp: group_mean_std_def Let_def sums [OF k] count one [OF k] variance_alt members_map sum_list_triv simp del: One_nat_def)
  qed
qed

text \<open>C20. The loop and the vectorized implementation of GRPO give the same advantages, for group labels that are
  numbers from 0, without the scaling by the deviation, and with it when no group of two or more samples has a variance
  strictly between 0 and the numerical floor \<open>epsilon\<close> of the vectorized one.
\<close>

theorem grpo_vectorized_agrees:
  assumes "length index = length rewards" "root_ok rt" "0 < epsilon"
    and "norm_by_std \<Longrightarrow> \<forall>k\<in>set index. 1 < length (members index (outcome_scores rewards) k) \<longrightarrow>
      variance (members index (outcome_scores rewards) k) = 0 \<or> epsilon \<le> variance (members index (outcome_scores rewards) k)"
  shows "compute_grpo_vectorized_outcome_advantage rt rewards ms index epsilon norm_by_std =
    compute_grpo_outcome_advantage rt rewards ms index epsilon norm_by_std"
proof (cases "index = []")
  case True
  then show ?thesis using assms(1)
    by (simp add: compute_grpo_vectorized_outcome_advantage_def compute_grpo_outcome_advantage_def group_mean_std_def
        by_group_def outcome_scores_def sums_by_def Let_def)
next
  case False
  let ?s = "outcome_scores rewards"
  have len: "length index = length ?s" using assms(1) by (simp add: outcome_scores_def)
  obtain means stds counts where r: "group_mean_std rt ?s index epsilon = Inr (means, stds, counts)"
    and means: "\<And>k. k \<in> set index \<Longrightarrow> means ! k = (if length (members index ?s k) = 1 then 0 else mean (members index ?s k))"
    and stds: "\<And>k. k \<in> set index \<Longrightarrow> stds ! k =
       (if length (members index ?s k) = 1 then 1 else rt (max (variance (members index ?s k)) epsilon))"
    by (rule group_mean_std_members [OF len False, of rt epsilon]) blast
  have "by_group index ?s (\<lambda>s xs. bind_res (group_mean xs) (\<lambda>mu. bind_res (group_std rt xs) (\<lambda>sd.
      if norm_by_std then torch_div (s - mu) (sd + epsilon) else Inr (s - mu)))) =
    map_res (\<lambda>(k, s). if norm_by_std then torch_div (s - means ! k) (stds ! k + epsilon) else Inr (s - means ! k)) (zip index ?s)"
    unfolding by_group_def
  proof (rule map_res_cong [OF refl], clarify)
    fix k s assume ks: "(k, s) \<in> set (zip index ?s)"
    then have k: "k \<in> set index" by (rule set_zip_leftD)
    let ?xs = "members index ?s k"
    have s: "s \<in> set ?xs" by (rule length_members_pos [OF ks])
    then have "0 < length ?xs" by (cases ?xs) auto
    then consider "length ?xs = 1" | "1 < length ?xs" by linarith
    then show "bind_res (group_of (groups index ?s) k) (\<lambda>xs. bind_res (group_mean xs) (\<lambda>mu. bind_res (group_std rt xs) (\<lambda>sd.
        if norm_by_std then torch_div (s - mu) (sd + epsilon) else Inr (s - mu)))) =
      (if norm_by_std then torch_div (s - means ! k) (stds ! k + epsilon) else Inr (s - means ! k))"
    proof cases
      case 2
      have pos: "0 < rt x + epsilon" if "0 \<le> x" for x
        using assms(2,3) that by (auto simp: root_ok_def intro: add_nonneg_pos)
      have "torch_div (s - mean ?xs) (rt (variance ?xs) + epsilon) =
          torch_div (s - mean ?xs) (rt (max (variance ?xs) epsilon) + epsilon)" if norm_by_std
        using assms(3) assms(4) [OF that] k 2 pos [of 0] pos [of epsilon] variance_zero_member [OF _ 2 s]
        by (fastforce simp: torch_div_def max_def)
      then show ?thesis
        using 2 by (simp add: group_of_groups [OF ks] means [OF k] stds [OF k] group_mean_def group_std_def)
    qed (simp add: group_of_groups [OF ks] means [OF k] stds [OF k] group_mean_def group_std_def)
  qed
  then show ?thesis
    by (simp add: compute_grpo_vectorized_outcome_advantage_def compute_grpo_outcome_advantage_def Let_def r)
qed

theorem grpo_vectorized_agrees_witness:
  "compute_grpo_vectorized_outcome_advantage (\<lambda>x. x) [[0, 3], [1, 0], [0, 1]] [[1, 1], [1, 0], [1, 1]] [0, 1, 0] (1 / 10) True =
     compute_grpo_outcome_advantage (\<lambda>x. x) [[0, 3], [1, 0], [0, 1]] [[1, 1], [1, 0], [1, 1]] [0 :: nat, 1, 0] (1 / 10) True \<and>
   compute_grpo_outcome_advantage (\<lambda>x. x) [[0, 3], [1, 0], [0, 1]] [[1, 1], [1, 0], [1, 1]] [0 :: nat, 1, 0] (1 / 10) True =
     Inr [[10 / 21, 10 / 21], [10 / 11, 0], [- 10 / 21, - 10 / 21]]"
proof -
  have two: "compute_grpo_outcome_advantage (\<lambda>x. x) [[0, 3], [1, 0], [0, 1]] [[1, 1], [1, 0], [1, 1]] [0 :: nat, 1, 0] (1 / 10) True =
     Inr [[10 / 21, 10 / 21], [10 / 11, 0], [- 10 / 21, - 10 / 21]]"
    by code_simp
  show ?thesis
    using two grpo_vectorized_agrees [of "[0, 1, 0]" "[[0, 3], [1, 0], [0, 1]]" "\<lambda>x. x" "1 / 10" True "[[1, 1], [1, 0], [1, 1]]"]
    by (simp add: root_ok_def members_def outcome_scores_def variance_def mean_def power2_eq_square)
qed

end
