(* ===== verification/PolicyLoss.thy ===== *)
theory PolicyLoss
  imports Advantages PyString
begin

text \<open>
  The losses of \<open>verl/trainer/ppo/core_algos.py\<close>: aggregation over a global batch, the policy losses, the
  value loss, the KL penalties and controllers. Tensors, masks and numbers are those of \<open>Advantages\<close>; the
  exponential, the logarithm and the sigmoid are parameters. A loss is its value: \<open>detach\<close> does nothing here.
\<close>

section \<open>Aggregation\<close>

text \<open>\<open>ActorConfig.global_batch_info\<close>.\<close>

record global_batch_info =
  dp_size :: nat
  batch_num_tokens :: "int option"
  global_batch_size :: "int option"
  loss_scale_factor :: "int option"

definition row_sums :: "tensor \<Rightarrow> tensor \<Rightarrow> rat list" where
  "row_sums loss_mat loss_mask = map2 (\<lambda>l m. sum_list (map2 (*) l m)) loss_mat loss_mask"

definition seq_present :: "tensor \<Rightarrow> rat list" where
  "seq_present loss_mask = map (\<lambda>m. of_bool (0 < sum_list m)) loss_mask"

definition masked_sum_seq :: "rat list \<Rightarrow> rat list \<Rightarrow> rat" where
  "masked_sum_seq values ms = sum_list (map2 (\<lambda>v m. (if m \<noteq> 0 then v else 0) * m) values ms)"

definition global_count :: "nat \<Rightarrow> int option \<Rightarrow> rat \<Rightarrow> rat res" where
  "global_count dp given local =
     (case given of Some n \<Rightarrow> Inr (of_int n) | None \<Rightarrow> if 1 < dp then Inl ValueError else Inr local)"

text \<open>\<open>loss_mask.shape[-1]\<close>; a tensor without rows is a list without a width, read as 0.\<close>

definition horizon :: "tensor \<Rightarrow> rat" where
  "horizon loss_mask = (case loss_mask of [] \<Rightarrow> 0 | row # _ \<Rightarrow> of_nat (length row))"

definition agg_loss :: "tensor \<Rightarrow> tensor \<Rightarrow> string \<Rightarrow> global_batch_info \<Rightarrow> rat res" where
  "agg_loss loss_mat loss_mask loss_agg_mode info =
     (let dp = dp_size info; per_dp = (\<lambda>n. \<lambda>q. bind_res (torch_div q n) (\<lambda>x. Inr (x * of_nat dp)))
      in if loss_agg_mode = ''token-mean'' then
           bind_res (global_count dp (batch_num_tokens info) (tensor_sum loss_mask)) (\<lambda>n.
             per_dp n (masked_sum loss_mat loss_mask))
         else if loss_agg_mode \<in> {''seq-mean-token-sum'', ''seq-mean-token-sum-norm''} then
           (let seq_losses = row_sums loss_mat loss_mask; seq_mask = seq_present loss_mask
            in bind_res (global_count dp (global_batch_size info) (sum_list seq_mask)) (\<lambda>n.
               bind_res (per_dp n (masked_sum_seq seq_losses seq_mask)) (\<lambda>loss.
                 if loss_agg_mode = ''seq-mean-token-sum-norm'' then
                   torch_div loss (case loss_scale_factor info of Some c \<Rightarrow> of_int c | None \<Rightarrow> horizon loss_mask)
                 else Inr loss)))
         else if loss_agg_mode = ''seq-mean-token-mean'' then
           (let seq_losses = map2 (\<lambda>s m. s / (sum_list m + small)) (row_sums loss_mat loss_mask) loss_mask;
                seq_mask = seq_present loss_mask
            in bind_res (global_count dp (global_batch_size info) (sum_list seq_mask)) (\<lambda>n.
                 per_dp n (masked_sum_seq seq_losses seq_mask)))
         else Inl ValueError)"

section \<open>Policy losses\<close>

definition clamp :: "rat \<Rightarrow> rat \<Rightarrow> rat \<Rightarrow> rat" where
  "clamp lo hi x = min (max x lo) hi"

record actor_config =
  clip_ratio :: rat
  clip_ratio_low :: "rat option"
  clip_ratio_high :: "rat option"
  clip_ratio_c :: "rat option"
  tau_pos :: rat
  tau_neg :: rat
  batch_info :: global_batch_info

definition cliprange_low :: "actor_config \<Rightarrow> rat" where
  "cliprange_low cfg = (case clip_ratio_low cfg of Some x \<Rightarrow> x | None \<Rightarrow> clip_ratio cfg)"

definition cliprange_high :: "actor_config \<Rightarrow> rat" where
  "cliprange_high cfg = (case clip_ratio_high cfg of Some x \<Rightarrow> x | None \<Rightarrow> clip_ratio cfg)"

definition clip_c :: "actor_config \<Rightarrow> rat \<Rightarrow> rat" where
  "clip_c cfg missing = (case clip_ratio_c cfg of Some x \<Rightarrow> x | None \<Rightarrow> missing)"

definition approx_kl :: "tensor \<Rightarrow> tensor \<Rightarrow> tensor" where
  "approx_kl log_prob old_log_prob = tensor_map2 (\<lambda>l old. clamp (- 20) 20 (l - old)) log_prob old_log_prob"

definition apply_weights :: "tensor \<Rightarrow> tensor option \<Rightarrow> tensor" where
  "apply_weights losses weights = (case weights of None \<Rightarrow> losses | Some w \<Rightarrow> tensor_map2 (*) losses w)"

text \<open>The losses of one token: unclipped, clipped, and the dual clip for a negative advantage.\<close>

definition pg_loss1 :: "rat \<Rightarrow> rat \<Rightarrow> rat" where
  "pg_loss1 adv ratio = - adv * ratio"

definition pg_loss2 :: "rat \<Rightarrow> rat \<Rightarrow> rat \<Rightarrow> rat \<Rightarrow> rat" where
  "pg_loss2 lo hi adv ratio = - adv * clamp (1 - lo) (1 + hi) ratio"

definition clip_pg_loss1 :: "rat \<Rightarrow> rat \<Rightarrow> rat \<Rightarrow> rat \<Rightarrow> rat" where
  "clip_pg_loss1 lo hi adv ratio = max (pg_loss1 adv ratio) (pg_loss2 lo hi adv ratio)"

definition dual_clip_loss :: "rat \<Rightarrow> rat \<Rightarrow> rat \<Rightarrow> rat \<Rightarrow> rat \<Rightarrow> rat" where
  "dual_clip_loss c lo hi adv ratio =
     (let clip1 = clip_pg_loss1 lo hi adv ratio; clip2 = min (- adv * c) clip1
      in if adv < 0 then clip2 else clip1)"

definition mean_of :: "(rat \<Rightarrow> rat \<Rightarrow> bool) \<Rightarrow> tensor \<Rightarrow> tensor \<Rightarrow> tensor \<Rightarrow> rat res" where
  "mean_of p a b ms = masked_mean (tensor_map2 (\<lambda>x y. of_bool (p x y)) a b) ms"

record pg_metrics =
  pg_clipfrac :: rat
  ppo_kl :: rat
  pg_clipfrac_lower :: rat

definition compute_policy_loss_vanilla ::
  "(rat \<Rightarrow> rat) \<Rightarrow> tensor \<Rightarrow> tensor \<Rightarrow> tensor \<Rightarrow> tensor \<Rightarrow> string \<Rightarrow> actor_config \<Rightarrow> tensor option \<Rightarrow> (rat \<times> pg_metrics) res" where
  "compute_policy_loss_vanilla ex old_log_prob log_prob advantages response_mask loss_agg_mode cfg rollout_is_weights =
     (let c = clip_c cfg 3; lo = cliprange_low cfg; hi = cliprange_high cfg
      in py_assert (1 < c)
        (let negative_approx_kl = approx_kl log_prob old_log_prob;
             ratio = tensor_map ex negative_approx_kl;
             pg_losses = tensor_map2 (dual_clip_loss c lo hi) advantages ratio
         in bind_res (masked_mean (tensor_map uminus negative_approx_kl) response_mask) (\<lambda>kl.
            bind_res (mean_of (\<lambda>a r. pg_loss1 a r < pg_loss2 lo hi a r) advantages ratio response_mask) (\<lambda>clipfrac.
            bind_res (mean_of (\<lambda>a r. - a * c < clip_pg_loss1 lo hi a r \<and> a < 0) advantages ratio response_mask) (\<lambda>lower.
            bind_res (agg_loss (apply_weights pg_losses rollout_is_weights) response_mask loss_agg_mode (batch_info cfg)) (\<lambda>pg_loss.
              Inr (pg_loss, \<lparr>pg_clipfrac = clipfrac, ppo_kl = kl, pg_clipfrac_lower = lower\<rparr>)))))))"

definition compute_policy_loss_dppo_tv ::
  "(rat \<Rightarrow> rat) \<Rightarrow> tensor \<Rightarrow> tensor \<Rightarrow> tensor \<Rightarrow> tensor \<Rightarrow> string \<Rightarrow> actor_config \<Rightarrow> tensor option \<Rightarrow> (rat \<times> pg_metrics) res" where
  "compute_policy_loss_dppo_tv ex old_log_prob log_prob advantages response_mask loss_agg_mode cfg rollout_is_weights =
     (let lo = cliprange_low cfg; hi = cliprange_high cfg; c = clip_c cfg 20;
          negative_approx_kl = approx_kl log_prob old_log_prob;
          ratio = tensor_map ex negative_approx_kl;
          truncated_ratio = tensor_map (\<lambda>r. min r c) ratio;
          moved = tensor_map2 (\<lambda>l old. ex l - ex old) log_prob old_log_prob;
          valid_mask = tensor_map2 (\<lambda>a d. of_bool (if 0 < a then d \<le> hi else - lo \<le> d)) advantages moved;
          pg_losses = tensor_map2 (*) (tensor_map2 (*) (tensor_map2 (\<lambda>a r. - a * r) advantages truncated_ratio) log_prob) valid_mask
      in bind_res (masked_mean (tensor_map uminus negative_approx_kl) response_mask) (\<lambda>kl.
         bind_res (agg_loss (apply_weights pg_losses rollout_is_weights) response_mask loss_agg_mode (batch_info cfg)) (\<lambda>pg_loss.
         bind_res (masked_mean (tensor_map (\<lambda>v. 1 - v) valid_mask) response_mask) (\<lambda>clipfrac.
         bind_res (masked_mean (tensor_map2 (\<lambda>r v. of_bool (c < r) * v) ratio valid_mask) response_mask) (\<lambda>lower.
           Inr (pg_loss, \<lparr>pg_clipfrac = clipfrac, ppo_kl = kl, pg_clipfrac_lower = lower\<rparr>))))))"

definition compute_policy_loss_gspo ::
  "(rat \<Rightarrow> rat) \<Rightarrow> tensor \<Rightarrow> tensor \<Rightarrow> tensor \<Rightarrow> tensor \<Rightarrow> actor_config \<Rightarrow> tensor option \<Rightarrow> (rat \<times> pg_metrics) res" where
  "compute_policy_loss_gspo ex old_log_prob log_prob advantages response_mask cfg rollout_is_weights =
     (let lo = cliprange_low cfg; hi = cliprange_high cfg;
          negative_approx_kl = tensor_map2 (-) log_prob old_log_prob;
          seq_lengths = map (\<lambda>m. max (sum_list m) 1) response_mask;
          kl_seq = map2 (/) (row_sums negative_approx_kl response_mask) seq_lengths;
          ratio = map2 (\<lambda>row s. map (\<lambda>l. ex (min (l - l + s) 10)) row) log_prob kl_seq;
          pg_losses = tensor_map2 (clip_pg_loss1 lo hi) advantages ratio
      in bind_res (agg_loss (apply_weights pg_losses rollout_is_weights) response_mask ''seq-mean-token-mean'' (batch_info cfg)) (\<lambda>pg_loss.
         bind_res (mean_of (\<lambda>a r. pg_loss1 a r < pg_loss2 lo hi a r) advantages ratio response_mask) (\<lambda>clipfrac.
         bind_res (masked_mean (tensor_map uminus negative_approx_kl) response_mask) (\<lambda>kl.
           Inr (pg_loss, \<lparr>pg_clipfrac = clipfrac, ppo_kl = kl, pg_clipfrac_lower = 0\<rparr>)))))"

text \<open>SAPO divides by the temperature of the token.\<close>

definition sapo_gate :: "(rat \<Rightarrow> rat) \<Rightarrow> actor_config \<Rightarrow> rat \<Rightarrow> rat \<Rightarrow> rat res" where
  "sapo_gate sigmoid cfg adv ratio =
     (let tau = (if 0 < adv then tau_pos cfg else tau_neg cfg)
      in bind_res (torch_div 4 tau) (\<lambda>q. Inr (sigmoid (tau * (ratio - 1)) * q)))"

definition compute_policy_loss_sapo ::
  "(rat \<Rightarrow> rat) \<Rightarrow> (rat \<Rightarrow> rat) \<Rightarrow> tensor \<Rightarrow> tensor \<Rightarrow> tensor \<Rightarrow> tensor \<Rightarrow> actor_config \<Rightarrow> tensor option \<Rightarrow> (rat \<times> pg_metrics) res" where
  "compute_policy_loss_sapo ex sigmoid old_log_prob log_prob advantages response_mask cfg rollout_is_weights =
     (let negative_approx_kl = approx_kl log_prob old_log_prob;
          ratio = tensor_map ex negative_approx_kl
      in bind_res (map_res (\<lambda>(as, rs). map_res (\<lambda>(a, r). bind_res (sapo_gate sigmoid cfg a r) (\<lambda>g. Inr (- g * a))) (zip as rs))
                     (zip advantages ratio)) (\<lambda>pg_losses.
         bind_res (agg_loss (apply_weights pg_losses rollout_is_weights) response_mask ''seq-mean-token-mean'' (batch_info cfg)) (\<lambda>pg_loss.
         bind_res (masked_mean (tensor_map uminus negative_approx_kl) response_mask) (\<lambda>kl.
           Inr (pg_loss, \<lparr>pg_clipfrac = 0, ppo_kl = kl, pg_clipfrac_lower = 0\<rparr>)))))"

definition compute_policy_loss_gpg ::
  "tensor \<Rightarrow> tensor \<Rightarrow> tensor \<Rightarrow> string \<Rightarrow> actor_config \<Rightarrow> tensor option \<Rightarrow> rat res" where
  "compute_policy_loss_gpg log_prob advantages response_mask loss_agg_mode cfg rollout_is_weights =
     agg_loss (apply_weights (tensor_map2 (\<lambda>l a. - l * a) log_prob advantages) rollout_is_weights)
       response_mask loss_agg_mode (batch_info cfg)"

definition compute_policy_loss_cispo ::
  "(rat \<Rightarrow> rat) \<Rightarrow> tensor \<Rightarrow> tensor \<Rightarrow> tensor \<Rightarrow> tensor \<Rightarrow> string \<Rightarrow> actor_config \<Rightarrow> tensor option \<Rightarrow> (rat \<times> pg_metrics) res" where
  "compute_policy_loss_cispo ex old_log_prob log_prob advantages response_mask loss_agg_mode cfg rollout_is_weights =
     (let negative_approx_kl = approx_kl log_prob old_log_prob;
          ratio = tensor_map ex negative_approx_kl;
          clipped_ratio = tensor_map (clamp (1 - cliprange_low cfg) (1 + cliprange_high cfg)) ratio;
          pg_losses = tensor_map2 (*) (tensor_map2 (\<lambda>r a. - r * a) clipped_ratio advantages) log_prob
      in bind_res (masked_mean (tensor_map uminus negative_approx_kl) response_mask) (\<lambda>kl.
         bind_res (mean_of (\<lambda>r k. r \<noteq> k) ratio clipped_ratio response_mask) (\<lambda>clipfrac.
         bind_res (agg_loss (apply_weights pg_losses rollout_is_weights) response_mask loss_agg_mode (batch_info cfg)) (\<lambda>pg_loss.
           Inr (pg_loss, \<lparr>pg_clipfrac = clipfrac, ppo_kl = kl, pg_clipfrac_lower = 0\<rparr>)))))"

definition compute_policy_loss_reinforce ::
  "tensor \<Rightarrow> tensor \<Rightarrow> tensor \<Rightarrow> tensor \<Rightarrow> string \<Rightarrow> actor_config \<Rightarrow> tensor option \<Rightarrow> (rat \<times> rat) res" where
  "compute_policy_loss_reinforce rollout_log_prob log_prob advantages response_mask loss_agg_mode cfg rollout_is_weights =
     bind_res (agg_loss (apply_weights (tensor_map2 (\<lambda>a l. - a * l) advantages log_prob) rollout_is_weights)
                 response_mask loss_agg_mode (batch_info cfg)) (\<lambda>pg_loss.
     bind_res (masked_mean (tensor_map uminus (tensor_map2 (-) log_prob rollout_log_prob)) response_mask) (\<lambda>kl.
       Inr (pg_loss, kl)))"

section \<open>Value loss, KL penalties and rewards\<close>

definition clip_by_value :: "tensor \<Rightarrow> tensor \<Rightarrow> tensor \<Rightarrow> tensor" where
  "clip_by_value x tensor_min tensor_max = tensor_map2 min (tensor_map2 max x tensor_min) tensor_max"

definition local_info :: global_batch_info where
  "local_info = \<lparr>dp_size = 1, batch_num_tokens = None, global_batch_size = None, loss_scale_factor = None\<rparr>"

definition compute_value_loss ::
  "tensor \<Rightarrow> tensor \<Rightarrow> tensor \<Rightarrow> tensor \<Rightarrow> rat \<Rightarrow> string \<Rightarrow> (rat \<times> rat) res" where
  "compute_value_loss vpreds returns values response_mask cliprange_value loss_agg_mode =
     (let vpredclipped = clip_by_value vpreds (tensor_map (\<lambda>v. v - cliprange_value) values) (tensor_map (\<lambda>v. v + cliprange_value) values);
          vf_losses1 = tensor_map2 (\<lambda>p r. (p - r) ^ 2) vpreds returns;
          vf_losses2 = tensor_map2 (\<lambda>p r. (p - r) ^ 2) vpredclipped returns
      in bind_res (agg_loss (tensor_map2 max vf_losses1 vf_losses2) response_mask loss_agg_mode local_info) (\<lambda>l.
         bind_res (mean_of (\<lambda>x y. x < y) vf_losses1 vf_losses2 response_mask) (\<lambda>clipfrac.
           Inr (1 / 2 * l, clipfrac))))"

definition kl_penalty_forward :: "(rat \<Rightarrow> rat) \<Rightarrow> tensor \<Rightarrow> tensor \<Rightarrow> string \<Rightarrow> tensor res" where
  "kl_penalty_forward ex logprob ref_logprob kind =
     (if kind \<in> {''kl'', ''k1''} then Inr (tensor_map2 (-) logprob ref_logprob)
      else if kind = ''abs'' then Inr (tensor_map2 (\<lambda>l r. \<bar>l - r\<bar>) logprob ref_logprob)
      else if kind \<in> {''mse'', ''k2''} then Inr (tensor_map2 (\<lambda>l r. 1 / 2 * (l - r) ^ 2) logprob ref_logprob)
      else if kind \<in> {''low_var_kl'', ''k3''} then
        Inr (tensor_map2 (\<lambda>l r. let kl = clamp (- 20) 20 (r - l) in clamp (- 10) 10 (ex kl - kl - 1)) logprob ref_logprob)
      else Inl NotImplementedError)"

definition kl_penalty :: "(rat \<Rightarrow> rat) \<Rightarrow> tensor \<Rightarrow> tensor \<Rightarrow> string \<Rightarrow> tensor res" where
  "kl_penalty ex logprob ref_logprob kind =
     (let plus = kind \<noteq> [] \<and> last kind = CHR ''+'';
          base_kl_penalty = (if plus then butlast kind else kind)
      in bind_res (kl_penalty_forward ex logprob ref_logprob base_kl_penalty) (\<lambda>forward_score.
           if \<not> plus \<or> kind \<in> {''mse'', ''k2''} then Inr forward_score
           else (let backward_score = tensor_map2 (\<lambda>l r. 1 / 2 * (l - r) ^ 2) logprob ref_logprob
                 in Inr (tensor_map2 (+) (tensor_map2 (-) backward_score backward_score) forward_score))))"

definition compute_rewards :: "tensor \<Rightarrow> tensor \<Rightarrow> tensor \<Rightarrow> rat \<Rightarrow> tensor" where
  "compute_rewards token_level_scores old_log_prob ref_log_prob kl_ratio =
     tensor_map2 (\<lambda>s k. s - k * kl_ratio) token_level_scores (tensor_map2 (-) old_log_prob ref_log_prob)"

datatype kl_controller = AdaptiveKLController rat rat rat | FixedKLController rat

fun kl_value :: "kl_controller \<Rightarrow> rat" where
  "kl_value (AdaptiveKLController v t h) = v"
| "kl_value (FixedKLController v) = v"

fun kl_update :: "kl_controller \<Rightarrow> rat \<Rightarrow> nat \<Rightarrow> kl_controller res" where
  "kl_update (AdaptiveKLController v t h) current_kl n_steps =
     (if t = 0 then Inl ZeroDivisionError
      else let proportional_error = clamp (- 1 / 5) (1 / 5) (current_kl / t - 1)
           in bind_res (torch_div (proportional_error * of_nat n_steps) h) (\<lambda>p.
                Inr (AdaptiveKLController (v * (1 + p)) t h)))"
| "kl_update (FixedKLController v) current_kl n_steps = Inr (FixedKLController v)"

definition get_kl_controller :: "string \<Rightarrow> rat \<Rightarrow> rat \<Rightarrow> rat \<Rightarrow> kl_controller res" where
  "get_kl_controller kind kl_coef target_kl hz =
     (if kind = ''fixed'' then Inr (FixedKLController kl_coef)
      else if kind = ''adaptive'' then py_assert (0 < hz) (Inr (AdaptiveKLController kl_coef target_kl hz))
      else Inl NotImplementedError)"

text \<open>
  \<open>apply_kl_penalty\<close> of the trainer: the token rewards, the metrics and the controller afterwards. The
  masked mean of a row is its sum over the count of its tokens.
\<close>

definition apply_kl_penalty ::
  "(rat \<Rightarrow> rat) \<Rightarrow> tensor \<Rightarrow> tensor \<Rightarrow> tensor \<Rightarrow> tensor \<Rightarrow> kl_controller \<Rightarrow> string \<Rightarrow> (tensor \<times> rat \<times> rat \<times> kl_controller) res" where
  "apply_kl_penalty ex response_mask token_level_scores old_log_probs ref_log_prob kl_ctrl kind =
     bind_res (kl_penalty ex old_log_probs ref_log_prob kind) (\<lambda>kld0.
       let kld = tensor_map2 (*) kld0 response_mask; beta = kl_value kl_ctrl;
           token_level_rewards = tensor_map2 (\<lambda>s k. s - beta * k) token_level_scores kld;
           row_means = map2 (\<lambda>k m. sum_list (map2 (\<lambda>v w. (if w \<noteq> 0 then v else 0) * w) k m) / (sum_list m + small)) kld response_mask
       in bind_res (torch_div (sum_list row_means) (of_nat (length row_means))) (\<lambda>current_kl.
          bind_res (kl_update kl_ctrl current_kl (length response_mask)) (\<lambda>kl_ctrl'.
            Inr (token_level_rewards, current_kl, beta, kl_ctrl'))))"

section \<open>The loss of a batch is the sum of the losses of its rows\<close>

definition loss_agg_modes :: "string set" where
  "loss_agg_modes = {''token-mean'', ''seq-mean-token-sum'', ''seq-mean-token-sum-norm'', ''seq-mean-token-mean''}"

text \<open>What one sequence adds to the sum that the mode divides.\<close>

definition row_loss :: "string \<Rightarrow> rat list \<Rightarrow> rat list \<Rightarrow> rat" where
  "row_loss mode l m =
     (let s = sum_list (map2 (*) l m)
      in if mode = ''token-mean'' then s
         else if 0 < sum_list m then (if mode = ''seq-mean-token-mean'' then s / (sum_list m + small) else s)
         else 0)"

definition loss_sum :: "string \<Rightarrow> tensor \<Rightarrow> tensor \<Rightarrow> rat" where
  "loss_sum mode loss_mat loss_mask = sum_list (map2 (row_loss mode) loss_mat loss_mask)"

text \<open>The counts of the global batch are given and are not zero.\<close>

definition counted :: "string \<Rightarrow> global_batch_info \<Rightarrow> bool" where
  "counted mode info \<longleftrightarrow> mode \<in> loss_agg_modes \<and>
     (case batch_num_tokens info of None \<Rightarrow> False | Some n \<Rightarrow> n \<noteq> 0) \<and>
     (case global_batch_size info of None \<Rightarrow> False | Some n \<Rightarrow> n \<noteq> 0) \<and>
     (case loss_scale_factor info of None \<Rightarrow> mode \<noteq> ''seq-mean-token-sum-norm'' | Some c \<Rightarrow> c \<noteq> 0)"

definition loss_unit :: "string \<Rightarrow> global_batch_info \<Rightarrow> rat" where
  "loss_unit mode info =
     (if mode = ''token-mean'' then of_int (the (batch_num_tokens info))
      else of_int (the (global_batch_size info)) *
        (if mode = ''seq-mean-token-sum-norm'' then of_int (the (loss_scale_factor info)) else 1))"

lemma masked_product: "(if m \<noteq> 0 then v else 0) * m = v * m" for v m :: rat
  by simp

lemma masked_sum_rows: "masked_sum l m = sum_list (map2 (\<lambda>x y. sum_list (map2 (*) x y)) l m)"
  unfolding masked_sum_def masked_product tensor_sum_def tensor_map2_def
  by (induction l m rule: list_induct2') auto

lemma masked_sum_seq_rows:
  "masked_sum_seq (map2 f l m) (seq_present m) = sum_list (map2 (\<lambda>x y. if 0 < sum_list y then f x y else 0) l m)"
  unfolding masked_sum_seq_def seq_present_def
  by (induction l m rule: list_induct2') auto

lemma row_sums_map2: "map2 (\<lambda>s m. s / (sum_list m + small)) (row_sums l m) m =
    map2 (\<lambda>x y. sum_list (map2 (*) x y) / (sum_list y + small)) l m"
  unfolding row_sums_def by (induction l m rule: list_induct2') auto

lemma agg_loss_counted:
  assumes "counted mode info"
  shows "agg_loss l m mode info = Inr (loss_sum mode l m * of_nat (dp_size info) / loss_unit mode info)"
proof -
  obtain n b where info: "batch_num_tokens info = Some n" "n \<noteq> 0" "global_batch_size info = Some b" "b \<noteq> 0"
    using assms by (auto simp: counted_def split: option.splits)
  consider "mode = ''token-mean''" | "mode = ''seq-mean-token-sum''" | "mode = ''seq-mean-token-mean''" |
    c where "mode = ''seq-mean-token-sum-norm''" "loss_scale_factor info = Some c" "c \<noteq> 0"
    using assms by (auto simp: counted_def loss_agg_modes_def split: option.splits)
  then show ?thesis
  proof cases
    case 1
    then show ?thesis
      using info by (simp add: agg_loss_def Let_def global_count_def torch_div_def masked_sum_rows loss_sum_def loss_unit_def
          row_loss_def [abs_def])
  next
    case 2
    have "masked_sum_seq (row_sums l m) (seq_present m) = loss_sum mode l m"
      unfolding row_sums_def masked_sum_seq_rows loss_sum_def row_loss_def [abs_def] Let_def by (simp add: 2 cong: if_cong)
    then show ?thesis
      using info 2 by (simp add: agg_loss_def Let_def global_count_def torch_div_def loss_unit_def)
  next
    case 3
    have "masked_sum_seq (map2 (\<lambda>s m. s / (sum_list m + small)) (row_sums l m) m) (seq_present m) = loss_sum mode l m"
      unfolding row_sums_map2 masked_sum_seq_rows loss_sum_def row_loss_def [abs_def] Let_def by (simp add: 3 cong: if_cong)
    then show ?thesis
      using info 3 by (simp add: agg_loss_def Let_def global_count_def torch_div_def loss_unit_def)
  next
    case 4
    have "masked_sum_seq (row_sums l m) (seq_present m) = loss_sum mode l m"
      unfolding row_sums_def masked_sum_seq_rows loss_sum_def row_loss_def [abs_def] Let_def by (simp add: 4 cong: if_cong)
    then show ?thesis
      using info 4 by (simp add: agg_loss_def Let_def global_count_def torch_div_def loss_unit_def)
  qed
qed

lemma loss_sum_concat:
  "(\<And>l m. (l, m) \<in> set parts \<Longrightarrow> length l = length m) \<Longrightarrow>
    loss_sum mode (concat (map fst parts)) (concat (map snd parts)) = sum_list (map (\<lambda>(l, m). loss_sum mode l m) parts)"
proof (induction parts)
  case (Cons p parts)
  obtain l m where p: "p = (l, m)" by force
  have "length l = length m" using Cons.prems p by simp
  then show ?case using Cons by (simp add: p loss_sum_def)
qed (simp add: loss_sum_def)

lemma counted_dp [simp]: "counted mode (info\<lparr>dp_size := n\<rparr>) = counted mode info"
  "loss_unit mode (info\<lparr>dp_size := n\<rparr>) = loss_unit mode info"
  by (simp_all add: counted_def loss_unit_def)

lemma sum_list_scaled: "sum_list (map (\<lambda>x. f x * a / b) xs) = sum_list (map f xs) * a / (b :: rat)"
  by (induction xs) (simp_all add: distrib_right add_divide_distrib)

text \<open>With the counts of the global batch given, the loss does not depend on how the batch is spread: the
  mean over the data parallel ranks of the sum over the micro-batches of each is the loss that one rank computes for
  the whole batch in one piece, in every aggregation mode.
\<close>

theorem agg_loss_parallel:
  assumes "counted mode info" "dp_size info = length ranks" "ranks \<noteq> []"
    and "\<And>rank l m. rank \<in> set ranks \<Longrightarrow> (l, m) \<in> set rank \<Longrightarrow> length l = length m"
  shows "\<exists>losses. map_res (map_res (\<lambda>(l, m). agg_loss l m mode info)) ranks = Inr losses \<and>
    agg_loss (concat (map fst (concat ranks))) (concat (map snd (concat ranks))) mode (info\<lparr>dp_size := 1\<rparr>) =
      Inr (sum_list (map sum_list losses) / of_nat (length ranks))"
proof -
  let ?loss = "\<lambda>(l, m). loss_sum mode l m * of_nat (dp_size info) / loss_unit mode info"
  have ranks: "map_res (map_res (\<lambda>(l, m). agg_loss l m mode info)) ranks = Inr (map (map ?loss) ranks)"
    by (intro map_res_Inr) (auto simp: agg_loss_counted [OF assms(1)])
  have "loss_sum mode (concat (map fst (concat ranks))) (concat (map snd (concat ranks))) =
      sum_list (map (\<lambda>(l, m). loss_sum mode l m) (concat ranks))"
    by (rule loss_sum_concat) (use assms(4) in auto)
  also have "\<dots> = sum_list (map (\<lambda>rank. sum_list (map (\<lambda>(l, m). loss_sum mode l m) rank)) ranks)"
    by (induction ranks) auto
  finally have whole: "agg_loss (concat (map fst (concat ranks))) (concat (map snd (concat ranks))) mode (info\<lparr>dp_size := 1\<rparr>) =
      Inr (sum_list (map (\<lambda>rank. sum_list (map (\<lambda>(l, m). loss_sum mode l m) rank)) ranks) / loss_unit mode info)"
    using assms(1) by (simp add: agg_loss_counted)
  have "sum_list (map sum_list (map (map ?loss) ranks)) =
      sum_list (map (\<lambda>rank. sum_list (map (\<lambda>(l, m). loss_sum mode l m) rank)) ranks) * of_nat (dp_size info) / loss_unit mode info"
    by (simp add: comp_def case_prod_unfold sum_list_scaled)
  then show ?thesis using ranks whole assms(2,3) by auto
qed

theorem agg_loss_parallel_witness:
  "agg_loss [[1, 2], [3, 4], [5, 6]] [[1, 1], [0, 1], [1, 0]] ''token-mean''
     \<lparr>dp_size = 1, batch_num_tokens = Some 4, global_batch_size = Some 3, loss_scale_factor = None\<rparr> = Inr 3 \<and>
   (\<exists>losses. map_res (map_res (\<lambda>(l, m). agg_loss l m ''token-mean''
      \<lparr>dp_size = 2, batch_num_tokens = Some 4, global_batch_size = Some 3, loss_scale_factor = None\<rparr>))
      [[([[1, 2]], [[1, 1]]), ([[3, 4]], [[0, 1]])], [([[5, 6]], [[1, 0]])]] = Inr losses \<and>
      3 = sum_list (map sum_list losses) / 2)"
proof -
  let ?info = "\<lparr>dp_size = 2, batch_num_tokens = Some 4, global_batch_size = Some 3, loss_scale_factor = None\<rparr>"
  let ?ranks = "[[([[1, 2 :: rat]], [[1, 1 :: rat]]), ([[3, 4]], [[0, 1]])], [([[5, 6]], [[1, 0]])]]"
  have one: "agg_loss [[1, 2], [3, 4], [5, 6]] [[1, 1], [0, 1], [1, 0]] ''token-mean'' (?info\<lparr>dp_size := 1\<rparr>) = Inr 3"
    by code_simp
  have "counted ''token-mean'' ?info" by code_simp
  then have "\<exists>losses. map_res (map_res (\<lambda>(l, m). agg_loss l m ''token-mean'' ?info)) ?ranks = Inr losses \<and>
    agg_loss (concat (map fst (concat ?ranks))) (concat (map snd (concat ?ranks))) ''token-mean'' (?info\<lparr>dp_size := 1\<rparr>) =
      Inr (sum_list (map sum_list losses) / of_nat (length ?ranks))"
    by (rule agg_loss_parallel) auto
  then show ?thesis using one by (auto simp del: map_res.simps)
qed

section \<open>The clipped objective\<close>

lemma max_scaled: "0 \<le> a \<Longrightarrow> max (a * x) (a * y) = a * max x (y :: rat)"
  "0 \<le> a \<Longrightarrow> min (a * x) (a * y) = a * min x (y :: rat)"
  by (simp_all add: max_mult_distrib_left min_mult_distrib_left)

text \<open>The value of the ratio that a token is charged for.\<close>

definition charged_ratio :: "rat \<Rightarrow> rat \<Rightarrow> rat \<Rightarrow> rat \<Rightarrow> rat \<Rightarrow> rat" where
  "charged_ratio c lo hi adv ratio = (if adv < 0 then min c (max ratio (1 - lo)) else min ratio (1 + hi))"

lemma dual_clip_loss_closed:
  assumes "0 \<le> lo + hi"
  shows "dual_clip_loss c lo hi adv ratio = - adv * charged_ratio c lo hi adv ratio"
proof (cases "adv < 0")
  case True
  then have "clip_pg_loss1 lo hi adv ratio = - adv * max ratio (clamp (1 - lo) (1 + hi) ratio)"
    by (simp only: clip_pg_loss1_def pg_loss1_def pg_loss2_def max_scaled(1) [of "- adv"])
  also have "max ratio (clamp (1 - lo) (1 + hi) ratio) = max ratio (1 - lo)"
    using assms by (auto simp: clamp_def max_def min_def)
  finally show ?thesis
    using True by (simp add: dual_clip_loss_def charged_ratio_def Let_def max_scaled(2) [of "- adv", simplified])
next
  case False
  have "clip_pg_loss1 lo hi adv ratio = - (adv * min ratio (clamp (1 - lo) (1 + hi) ratio))"
    using False by (simp add: clip_pg_loss1_def pg_loss1_def pg_loss2_def minus_min_eq_max [symmetric] max_scaled(2) [symmetric])
  also have "min ratio (clamp (1 - lo) (1 + hi) ratio) = min ratio (1 + hi)"
    using assms by (auto simp: clamp_def max_def min_def)
  finally show ?thesis using False by (simp add: dual_clip_loss_def charged_ratio_def Let_def)
qed

text \<open>C21. The PPO loss charges a token with a positive advantage for the smaller of its ratio and the upper
  clip, and one with a negative advantage for the larger of its ratio and the lower clip, but for at most \<open>clip_ratio_c\<close>;
  the masked means of the metrics never fail.
\<close>

theorem vanilla_loss_closed:
  assumes "1 < clip_c cfg 3" "0 \<le> cliprange_low cfg + cliprange_high cfg" "mask_ok response_mask"
  shows "\<exists>metrics. compute_policy_loss_vanilla ex old_log_prob log_prob advantages response_mask mode cfg weights =
    bind_res (agg_loss (apply_weights (tensor_map2 (\<lambda>a r. - a * charged_ratio (clip_c cfg 3) (cliprange_low cfg) (cliprange_high cfg) a r)
        advantages (tensor_map ex (approx_kl log_prob old_log_prob))) weights) response_mask mode (batch_info cfg))
      (\<lambda>pg_loss. Inr (pg_loss, metrics))"
proof -
  have "dual_clip_loss (clip_c cfg 3) (cliprange_low cfg) (cliprange_high cfg) =
      (\<lambda>a r. - a * charged_ratio (clip_c cfg 3) (cliprange_low cfg) (cliprange_high cfg) a r)"
    by (intro ext dual_clip_loss_closed [OF assms(2)])
  then show ?thesis
    using assms(1) by (auto simp: compute_policy_loss_vanilla_def Let_def mean_of_def masked_mean_Inr(1) [OF assms(3)])
qed

theorem vanilla_loss_closed_witness:
  "\<exists>metrics. compute_policy_loss_vanilla (\<lambda>x. 1 + x) [[- 1, - 1, - 1]] [[0, - 3 / 2, 3]] [[2, 2, - 2]] [[1, 1, 1]] ''token-mean''
     \<lparr>clip_ratio = 1 / 5, clip_ratio_low = None, clip_ratio_high = None, clip_ratio_c = None, tau_pos = 1, tau_neg = 1,
       batch_info = local_info\<rparr> None = Inr ((- 2 * (6 / 5) - 2 * (1 / 2) + 2 * 3) / 3, metrics)"
proof -
  let ?cfg = "\<lparr>clip_ratio = 1 / 5, clip_ratio_low = None, clip_ratio_high = None, clip_ratio_c = None, tau_pos = 1, tau_neg = 1,
       batch_info = local_info\<rparr>"
  have ok: "1 < clip_c ?cfg 3" "0 \<le> cliprange_low ?cfg + cliprange_high ?cfg" "mask_ok [[1, 1, 1]]"
    by code_simp+
  have "agg_loss (apply_weights (tensor_map2 (\<lambda>a r. - a * charged_ratio (clip_c ?cfg 3) (cliprange_low ?cfg) (cliprange_high ?cfg) a r)
        [[2, 2, - 2]] (tensor_map (\<lambda>x. 1 + x) (approx_kl [[0, - 3 / 2, 3]] [[- 1, - 1, - 1]]))) None) [[1, 1, 1]] ''token-mean'' (batch_info ?cfg) =
    Inr ((- 2 * (6 / 5) - 2 * (1 / 2) + 2 * 3) / 3)"
    by code_simp
  with vanilla_loss_closed [OF ok, of "\<lambda>x. 1 + x" "[[- 1, - 1, - 1]]" "[[0, - 3 / 2, 3]]" "[[2, 2, - 2]]" "''token-mean''" None]
  show ?thesis by simp
qed

section \<open>The KL penalties\<close>

definition base_kind :: "string \<Rightarrow> string" where
  "base_kind kind = (if kind \<noteq> [] \<and> last kind = CHR ''+'' then butlast kind else kind)"

lemma base_kind_cases: "kind = base_kind kind \<or> kind = base_kind kind @ ''+''"
  unfolding base_kind_def by (cases "kind \<noteq> [] \<and> last kind = CHR ''+''") (auto, metis append_butlast_last_id)

lemma straight_through_row:
  "map2 (+) (map2 (-) (map2 g x y) (map2 g x y)) (map2 h x y) = map2 h x y"
  for g h :: "rat \<Rightarrow> rat \<Rightarrow> rat"
  by (induction x y rule: list_induct2') auto

lemma straight_through:
  "tensor_map2 (+) (tensor_map2 (-) (tensor_map2 g l r) (tensor_map2 g l r)) (tensor_map2 h l r) = tensor_map2 h l r"
  unfolding tensor_map2_def by (induction l r rule: list_induct2') (auto simp: straight_through_row)

definition kl_entry :: "(rat \<Rightarrow> rat) \<Rightarrow> string \<Rightarrow> rat \<Rightarrow> rat \<Rightarrow> rat" where
  "kl_entry ex base l r =
     (if base \<in> {''kl'', ''k1''} then l - r
      else if base = ''abs'' then \<bar>l - r\<bar>
      else if base \<in> {''mse'', ''k2''} then 1 / 2 * (l - r) ^ 2
      else (let kl = clamp (- 20) 20 (r - l) in clamp (- 10) 10 (ex kl - kl - 1)))"

lemma kl_penalty_forward_entry:
  "kl_penalty_forward ex l r base =
     (if base \<in> {''kl'', ''k1'', ''abs'', ''mse'', ''k2'', ''low_var_kl'', ''k3''} then Inr (tensor_map2 (kl_entry ex base) l r)
      else Inl NotImplementedError)"
  by (auto simp: kl_penalty_forward_def kl_entry_def [abs_def])

text \<open>The straight-through trick of the kinds with a plus changes the gradient and not the value.\<close>

lemma kl_penalty_value: "kl_penalty ex l r kind = kl_penalty_forward ex l r (base_kind kind)"
  by (simp add: kl_penalty_def Let_def base_kind_def [symmetric] kl_penalty_forward_entry straight_through)

lemma kl_entry_bounds:
  assumes "\<And>x. 1 + x \<le> ex x" "ex 0 = 1"
  shows "base \<notin> {''kl'', ''k1''} \<Longrightarrow> 0 \<le> kl_entry ex base l r"
    and "base \<in> {''low_var_kl'', ''k3''} \<Longrightarrow> kl_entry ex base l r \<le> 10"
    and "kl_entry ex base l l = 0"
proof -
  have "0 \<le> ex kl - kl - 1" for kl using assms(1) [of kl] by simp
  then have "0 \<le> clamp (- 10) 10 (ex kl - kl - 1)" for kl by (simp add: clamp_def le_max_iff_disj)
  then show "base \<notin> {''kl'', ''k1''} \<Longrightarrow> 0 \<le> kl_entry ex base l r" by (simp add: kl_entry_def Let_def)
  show "base \<in> {''low_var_kl'', ''k3''} \<Longrightarrow> kl_entry ex base l r \<le> 10" by (auto simp: kl_entry_def Let_def clamp_def)
  show "kl_entry ex base l l = 0" using assms(2) by (simp add: kl_entry_def clamp_def)
qed

lemma tensor_map2_same: "v \<in> set row \<Longrightarrow> row \<in> set (tensor_map2 f a a) \<Longrightarrow> \<exists>x. v = f x x"
  by (auto simp: tensor_map2_def zip_same_conv_map)

text \<open>Every KL estimator but the plain difference is nowhere negative, \<open>k3\<close> is at most 10, and all of
  them are zero for equal log probabilities, for an exponential with \<open>1 + x \<le> exp x\<close> and \<open>exp 0 = 1\<close>.
\<close>

theorem kl_penalty_bounds:
  assumes "\<And>x. 1 + x \<le> ex x" "ex 0 = 1" "kl_penalty ex logprob ref_logprob kind = Inr kld" "row \<in> set kld" "v \<in> set row"
  shows "(kind \<in> {''kl'', ''k1'', ''kl+'', ''k1+''} \<or> 0 \<le> v) \<and>
    (kind \<in> {''low_var_kl'', ''k3'', ''low_var_kl+'', ''k3+''} \<longrightarrow> v \<le> 10) \<and>
    (logprob = ref_logprob \<longrightarrow> v = 0)"
proof -
  let ?base = "base_kind kind"
  note bounds = kl_entry_bounds [OF assms(1,2)]
  have kld: "kld = tensor_map2 (kl_entry ex ?base) logprob ref_logprob"
    using assms(3) by (simp add: kl_penalty_value kl_penalty_forward_entry split: if_splits)
  then obtain x y where v: "v = kl_entry ex ?base x y" using assms(4,5) by (blast dest: set_tensor_map2)
  have v_bounds: "?base \<notin> {''kl'', ''k1''} \<Longrightarrow> 0 \<le> v" "?base \<in> {''low_var_kl'', ''k3''} \<Longrightarrow> v \<le> 10"
    unfolding v by (rule bounds(1), assumption) (rule bounds(2), assumption)
  have "kind \<in> {''kl'', ''k1'', ''kl+'', ''k1+''} \<or> ?base \<notin> {''kl'', ''k1''}"
    using base_kind_cases [of kind] by (metis append_Cons append_Nil insertCI insertE emptyE)
  moreover have "?base \<in> {''low_var_kl'', ''k3''}" if "kind \<in> {''low_var_kl'', ''k3'', ''low_var_kl+'', ''k3+''}"
    using that by (elim insertE emptyE) (simp_all add: base_kind_def)
  moreover have "v = 0" if "logprob = ref_logprob"
    using tensor_map2_same [OF assms(5)] assms(4) kld that bounds(3) by metis
  ultimately show ?thesis using v_bounds by blast
qed

theorem kl_penalty_bounds_witness:
  "kl_penalty (\<lambda>x. 1 + x + x ^ 2) [[0, 3, - 1]] [[1, 3, 9]] ''k3+'' = Inr [[1, 0, 10]] \<and> (0 :: rat) \<le> 10 \<and> (10 :: rat) \<le> 10"
proof -
  have r: "kl_penalty (\<lambda>x. 1 + x + x ^ 2) [[0, 3, - 1]] [[1, 3, 9]] ''k3+'' = Inr [[1, 0, 10]]" by code_simp
  have "1 + x \<le> 1 + x + x ^ 2" for x :: rat by simp
  from kl_penalty_bounds [OF this _ r, of "[1, 0, 10]" 10] r show ?thesis by simp
qed

section \<open>The value loss is a mean over its own micro-batch\<close>

text \<open>
  The value loss is aggregated without the counts of the global batch: the micro-batches of a rank, whose
  gradients are added up, each weigh as much as the whole batch. Two equal micro-batches give twice the loss of
  their batch.
\<close>

lemma value_loss_counts_micro_batches:
  "compute_value_loss [[2, 0]] [[0, 0]] [[2, 0]] [[1, 1]] 1 ''token-mean'' = Inr (1, 0)"
  "compute_value_loss [[2, 0], [2, 0]] [[0, 0], [0, 0]] [[2, 0], [2, 0]] [[1, 1], [1, 1]] 1 ''token-mean'' = Inr (1, 0)"
  by code_simp+

end
