(* ===== verification/RecurrentTrainer.thy ===== *)
theory RecurrentTrainer
  imports PolicyLoss GenerationManager
begin

text \<open>
  What \<open>verl/trainer/ppo/ray_trainer.py\<close> and \<open>verl/workers/engine_workers.py\<close> do for an agent with a memory, whose samples
  are conversations of several turns: the bonus for few passes, the filter of prompts without a signal, one
  advantage per sample spread over its turns, and the update of the actor on a padded batch.
\<close>

section \<open>Rewards\<close>










section \<open>Advantages\<close>

definition compute_1D_grpo_advantage :: "(rat \<Rightarrow> rat) \<Rightarrow> tensor \<Rightarrow> 'k list \<Rightarrow> rat \<Rightarrow> bool \<Rightarrow> rat list res" where
  "compute_1D_grpo_advantage rt token_level_rewards index epsilon use_adv =
     by_group index (outcome_scores token_level_rewards) (\<lambda>s xs.
       bind_res (group_mean xs) (\<lambda>mu.
         if use_adv then bind_res (group_std rt xs) (\<lambda>sd. torch_div (s - mu) (sd + epsilon))
         else Inr (s - mu)))"

text \<open>\<open>filter_groups\<close>: the prompts whose samples differ in reward, or that have one sample, and their rows of the batch.\<close>

definition population_variance :: "rat list \<Rightarrow> rat" where
  "population_variance xs = sum_list (map (\<lambda>x. (x - mean xs) ^ 2) xs) / of_nat (length xs)"

definition kept_prompt_uids :: "(rat \<Rightarrow> rat) \<Rightarrow> 'k list \<Rightarrow> rat list \<Rightarrow> 'k list" where
  "kept_prompt_uids rt uids seq_reward =
     map fst (filter (\<lambda>(uid, vals). 0 < rt (population_variance vals) \<or> length vals = 1) (groups uids seq_reward))"

definition kept_traj_idxs :: "'k list \<Rightarrow> 'k list \<Rightarrow> nat list" where
  "kept_traj_idxs kept batch_uids = filter (\<lambda>i. batch_uids ! i \<in> set kept) [0..<length batch_uids]"

text \<open>
  \<open>advantage_scalar[sample_index]\<close>, times the response mask; the scores of the samples are spread in the same way.
\<close>

definition gather :: "'a list \<Rightarrow> nat list \<Rightarrow> 'a list res" where
  "gather xs idx = map_res (\<lambda>i. if i < length xs then Inr (xs ! i) else Inl IndexError) idx"

definition recurrent_advantages ::
  "(rat \<Rightarrow> rat) \<Rightarrow> tensor \<Rightarrow> 'k list \<Rightarrow> bool \<Rightarrow> nat list \<Rightarrow> tensor \<Rightarrow> (tensor \<times> tensor) res" where
  "recurrent_advantages rt reward_tensor uids use_adv sample_index response_mask =
     bind_res (compute_1D_grpo_advantage rt reward_tensor uids (1 / 10 ^ 6) use_adv) (\<lambda>advantage_scalar.
     bind_res (gather advantage_scalar sample_index) (\<lambda>turn_advantages.
     bind_res (gather reward_tensor sample_index) (\<lambda>token_level_scores.
       Inr (spread_scores turn_advantages response_mask, token_level_scores))))"

text \<open>
  From the rewards of the samples to the rows that are trained on: the uid of a row is that of its sample; \<open>None\<close>
  when the filter keeps nothing and the step is skipped.
\<close>

definition recurrent_step ::
  "(rat \<Rightarrow> rat) \<Rightarrow> bool \<Rightarrow> bool \<Rightarrow> tensor \<Rightarrow> 'k list \<Rightarrow> nat list \<Rightarrow> tensor \<Rightarrow> (nat list \<times> tensor \<times> tensor) option res" where
  "recurrent_step rt filtering use_adv reward_tensor uids sample_index response_mask =
     bind_res (gather uids sample_index) (\<lambda>batch_uids.
       let kept = (if filtering then kept_traj_idxs (kept_prompt_uids rt uids (outcome_scores reward_tensor)) batch_uids
                   else [0..<length batch_uids])
       in if kept = [] \<and> filtering then Inr None
          else bind_res (recurrent_advantages rt reward_tensor uids use_adv (map ((!) sample_index) kept)
                           (map ((!) response_mask) kept)) (\<lambda>(adv, scores). Inr (Some (kept, adv, scores))))"

section \<open>The update of the actor\<close>

text \<open>
  A row of the batch: its data, its response mask and whether it is a real trajectory (\<open>no_padding_mask\<close>). The batch is
  padded with copies of its last row, masked out, to a multiple of ranks, updates and micro-batch size.
\<close>

record 'r actor_row =
  row_data :: 'r
  row_mask :: "rat list"
  row_real :: bool

definition dummy_row :: "'r actor_row \<Rightarrow> 'r actor_row" where
  "dummy_row r = r\<lparr>row_mask := map (\<lambda>_. 0) (row_mask r), row_real := False\<rparr>"

definition pad_actor_rows :: "nat \<Rightarrow> 'r actor_row list \<Rightarrow> 'r actor_row list res" where
  "pad_actor_rows update_divisor rows =
     (if update_divisor = 0 then Inl ZeroDivisionError
      else if length rows mod update_divisor \<noteq> 0 then
        bind_res (graceful_padding (length rows) update_divisor) (\<lambda>(padding_index, keep).
        bind_res (fancy_index (Ints padding_index) rows) (\<lambda>padded.
          Inr (map2 (\<lambda>r k. if k then r\<lparr>row_real := True\<rparr> else dummy_row r) padded keep)))
      else Inr (map (\<lambda>r. r\<lparr>row_real := True\<rparr>) rows))"

definition unpad_actor_rows :: "'r actor_row list \<Rightarrow> 'r actor_row list res" where
  "unpad_actor_rows rows = fancy_index (Mask (map row_real rows)) rows"

text \<open>\<open>torch.tensor_split\<close> of the rows of every rank into the updates of the step; the ranks get contiguous parts.\<close>

definition actor_mini_batches :: "nat \<Rightarrow> nat \<Rightarrow> 'r list \<Rightarrow> 'r list list list res" where
  "actor_mini_batches dp num_mini_batch rows =
     bind_res (array_split dp rows) (\<lambda>ranks.
       map_res (\<lambda>rank. py_assert (num_mini_batch \<le> length rank) (array_split num_mini_batch rank)) ranks)"

text \<open>The counts that are summed over the ranks before the losses of one update.\<close>

definition update_info :: "int option \<Rightarrow> 'r actor_row list list \<Rightarrow> global_batch_info" where
  "update_info scale parts =
     \<lparr>dp_size = length parts,
      batch_num_tokens = Some \<lfloor>sum_list (map (\<lambda>part. tensor_sum (map row_mask part)) parts)\<rfloor>,
      global_batch_size = Some (int (sum_list (map (\<lambda>part. length (filter row_real part)) parts))),
      loss_scale_factor = scale\<rparr>"

text \<open>
  The losses of one update: per rank, and on it per micro-batch; how a rank splits its rows in micro-batches is a
  parameter, as is the loss of a token.
\<close>

definition update_losses ::
  "('r \<Rightarrow> rat list) \<Rightarrow> string \<Rightarrow> int option \<Rightarrow> ('r actor_row list \<Rightarrow> 'r actor_row list list) \<Rightarrow> 'r actor_row list list \<Rightarrow>
   rat list list res" where
  "update_losses token_losses mode scale micro parts =
     map_res (\<lambda>part. map_res (\<lambda>rows. agg_loss (map (token_losses \<circ> row_data) rows) (map row_mask rows) mode
                                        (update_info scale parts)) (micro part)) parts"

section \<open>The bonus\<close>






section \<open>One advantage per sample, for all its turns\<close>

lemma gather_Inr: "gather xs idx = Inr ys \<longleftrightarrow> (\<forall>i\<in>set idx. i < length xs) \<and> ys = map ((!) xs) idx"
  unfolding gather_def by (induction idx arbitrary: ys) (auto simp: bind_res_eq_Inr)

text \<open>
  Every turn of a conversation is trained with the advantage of its sample: at the tokens of its
  response, nothing elsewhere. Its scores are the rewards of the sample.
\<close>

theorem turns_share_advantage:
  assumes "recurrent_advantages rt rewards uids use_adv sample_index response_mask = Inr (adv, scores)"
    and "length response_mask = length sample_index"
  shows "\<exists>scalar. compute_1D_grpo_advantage rt rewards uids (1 / 10 ^ 6) use_adv = Inr scalar \<and>
    length adv = length sample_index \<and> length scores = length sample_index \<and>
    (\<forall>t<length sample_index. sample_index ! t < length scalar \<and>
       adv ! t = map (\<lambda>m. scalar ! (sample_index ! t) * m) (response_mask ! t) \<and> scores ! t = rewards ! (sample_index ! t))"
proof -
  obtain scalar turn where s: "compute_1D_grpo_advantage rt rewards uids (1 / 10 ^ 6) use_adv = Inr scalar"
    "gather scalar sample_index = Inr turn" "gather rewards sample_index = Inr scores" "adv = spread_scores turn response_mask"
    using assms(1) by (auto simp: recurrent_advantages_def bind_res_eq_Inr)
  then show ?thesis using assms(2) by (auto simp: gather_Inr spread_scores_def)
qed

section \<open>The filter drops what has no signal\<close>

lemma distinct_groups: "distinct (map fst (groups index scores))"
proof -
  have "distinct (map fst (fold add_to_group xs d))" if "distinct (map fst d)" for xs and d :: "('a \<times> 'b list) list"
    using that by (induction xs arbitrary: d) (auto simp: add_to_group_def distinct_update)
  then show ?thesis by (simp add: groups_def)
qed

lemma groups_entry: "(k, xs) \<in> set (groups index scores) \<longleftrightarrow> members index scores k \<noteq> [] \<and> xs = members index scores k"
proof -
  have "map_of (groups index scores) k = (if members index scores k = [] then None else Some (members index scores k))"
    by (simp add: groups_def members_def fold_add_to_group)
  moreover have "(k, xs) \<in> set (groups index scores) \<longleftrightarrow> map_of (groups index scores) k = Some xs"
    using distinct_groups [of index scores] by (metis map_of_SomeD map_of_is_SomeI)
  ultimately show ?thesis by auto
qed

lemma population_variance_nonneg: "0 \<le> population_variance xs"
  unfolding population_variance_def by (intro divide_nonneg_nonneg sum_list_nonneg) auto

lemma population_variance_zero: "population_variance xs = 0 \<longleftrightarrow> (\<forall>x\<in>set xs. x = mean xs)"
proof (cases "xs = []")
  case False
  have "sum_list (map (\<lambda>x. (x - mean xs) ^ 2) xs) = 0 \<longleftrightarrow> (\<forall>y\<in>set (map (\<lambda>x. (x - mean xs) ^ 2) xs). y = 0)"
    by (rule sum_list_nonneg_eq_0_iff) auto
  then show ?thesis using False by (simp add: population_variance_def)
qed (simp add: population_variance_def)

lemma kept_prompt_iff:
  assumes "root_ok rt" "rt 0 = 0"
  shows "k \<in> set (kept_prompt_uids rt uids scores) \<longleftrightarrow> members uids scores k \<noteq> [] \<and>
    (length (members uids scores k) = 1 \<or> (\<exists>x\<in>set (members uids scores k). x \<noteq> mean (members uids scores k)))"
proof -
  have "0 < rt (population_variance xs) \<longleftrightarrow> (\<exists>x\<in>set xs. x \<noteq> mean xs)" for xs
    using assms population_variance_nonneg [of xs] population_variance_zero [of xs]
    by (metis less_le not_less_iff_gr_or_eq root_ok_def)
  then show ?thesis by (auto simp: kept_prompt_uids_def image_iff groups_entry)
qed

lemma one_dim_entry:
  assumes "compute_1D_grpo_advantage rt rewards uids epsilon use_adv = Inr a" "length uids = length rewards" "j < length uids"
    and "xs = members uids (outcome_scores rewards) (uids ! j)" "length xs \<noteq> 1"
  shows "a ! j = 0 \<longleftrightarrow> outcome_scores rewards ! j = mean xs"
proof -
  have len: "length (outcome_scores rewards) = length uids" using assms(2) by (simp add: outcome_scores_def)
  then have nth: "zip uids (outcome_scores rewards) ! j = (uids ! j, outcome_scores rewards ! j)" using assms(3) by simp
  then have "(uids ! j, outcome_scores rewards ! j) \<in> set (zip uids (outcome_scores rewards))"
    using assms(3) len by (metis length_zip min.idem nth_mem)
  note group = group_of_groups [OF this]
  have "(\<lambda>(k, s). bind_res (group_of (groups uids (outcome_scores rewards)) k) (\<lambda>xs. bind_res (group_mean xs) (\<lambda>mu.
         if use_adv then bind_res (group_std rt xs) (\<lambda>sd. torch_div (s - mu) (sd + epsilon)) else Inr (s - mu))))
       (zip uids (outcome_scores rewards) ! j) = Inr (a ! j)"
    using assms(1,3) len unfolding compute_1D_grpo_advantage_def by_group_def by (intro map_res_eq_Inr_nth) auto
  then show ?thesis
    using assms(4,5) by (auto simp: nth group group_mean_def group_std_def torch_div_def bind_res_eq_Inr split: if_splits)
qed

lemma length_members: "length scores = length index \<Longrightarrow> length (members index scores k) = length (filter (\<lambda>u. u = k) index)"
  unfolding members_def by (induction index scores rule: list_induct2') auto

lemma member_conv_nth:
  "length scores = length index \<Longrightarrow> x \<in> set (members index scores k) \<longleftrightarrow> (\<exists>j<length index. index ! j = k \<and> x = scores ! j)"
  unfolding members_def by (force simp: set_zip)

text \<open>C25. The filter keeps a row exactly when its prompt has a single sample or a sample with a nonzero advantage:
  every row that it drops has the advantage zero.
\<close>

theorem filter_keeps_signal:
  assumes "root_ok rt" "rt 0 = 0" "length uids = length rewards" "gather uids sample_index = Inr batch_uids"
    and "compute_1D_grpo_advantage rt rewards uids epsilon use_adv = Inr a" "t < length sample_index"
  shows "t \<in> set (kept_traj_idxs (kept_prompt_uids rt uids (outcome_scores rewards)) batch_uids) \<longleftrightarrow>
    length (filter (\<lambda>u. u = uids ! (sample_index ! t)) uids) = 1 \<or>
    (\<exists>j<length uids. uids ! j = uids ! (sample_index ! t) \<and> a ! j \<noteq> 0)"
proof -
  let ?s = "outcome_scores rewards" and ?u = "uids ! (sample_index ! t)"
  have len: "length ?s = length uids" using assms(3) by (simp add: outcome_scores_def)
  have bu: "batch_uids = map ((!) uids) sample_index" and j: "sample_index ! t < length uids"
    using assms(4,6) by (auto simp: gather_Inr)
  have some: "?s ! (sample_index ! t) \<in> set (members uids ?s ?u)" using j len by (auto simp: member_conv_nth)
  have "(\<exists>x\<in>set (members uids ?s ?u). x \<noteq> mean (members uids ?s ?u)) \<longleftrightarrow>
      (\<exists>j<length uids. uids ! j = ?u \<and> a ! j \<noteq> 0)" if "length (members uids ?s ?u) \<noteq> 1"
  proof -
    have "a ! j = 0 \<longleftrightarrow> ?s ! j = mean (members uids ?s ?u)" if "j < length uids" "uids ! j = ?u" for j
      by (rule one_dim_entry [OF assms(5,3) that(1)]) (use that(2) \<open>length (members uids ?s ?u) \<noteq> 1\<close> in auto)
    then show ?thesis unfolding Bex_def member_conv_nth [OF len] by blast
  qed
  then have "?u \<in> set (kept_prompt_uids rt uids ?s) \<longleftrightarrow>
      length (members uids ?s ?u) = 1 \<or> (\<exists>j<length uids. uids ! j = ?u \<and> a ! j \<noteq> 0)"
    using some unfolding kept_prompt_iff [OF assms(1,2)] by (metis empty_iff empty_set)
  then show ?thesis using assms(6) by (simp add: kept_traj_idxs_def bu length_members [OF len])
qed

theorem filter_keeps_signal_witness:
  "kept_traj_idxs (kept_prompt_uids (\<lambda>x. x) [7, 7, 9, 9 :: nat] (outcome_scores [[1], [1], [0], [1]])) [7, 9, 7, 9, 9] = [1, 3, 4] \<and>
   (1 \<in> set [1 :: nat, 3, 4]) = (\<exists>j<4. [7, 7, 9, 9 :: nat] ! j = 9 \<and> [0, 0, - 1 / 2, 1 / 2 :: rat] ! j \<noteq> 0)"
proof -
  have ok: "root_ok (\<lambda>x. x)" "length [7, 7, 9, 9 :: nat] = length [[1], [1], [0], [1 :: rat]]" by (simp_all add: root_ok_def)
  have g: "gather [7, 7, 9, 9 :: nat] [0, 2, 1, 3, 2] = Inr [7, 9, 7, 9, 9]" by code_simp
  have a: "compute_1D_grpo_advantage (\<lambda>x. x) [[1], [1], [0], [1]] [7, 7, 9, 9 :: nat] (1 / 10 ^ 6) False = Inr [0, 0, - 1 / 2, 1 / 2]"
    by code_simp
  have k: "kept_traj_idxs (kept_prompt_uids (\<lambda>x. x) [7, 7, 9, 9 :: nat] (outcome_scores [[1], [1], [0], [1]])) [7, 9, 7, 9, 9] = [1, 3, 4]"
    by code_simp
  show ?thesis using k filter_keeps_signal [OF ok(1) refl ok(2) g a, of 1] by (simp add: numeral_eq_Suc)
qed

theorem turns_share_advantage_witness:
  "\<exists>scalar. compute_1D_grpo_advantage (\<lambda>x. x) [[0, 1], [0, 0]] [7, 7 :: nat] (1 / 10 ^ 6) False = Inr scalar \<and>
     [[1 / 2, 1 / 2], [1 / 2, 0], [- 1 / 2, - 1 / 2]] ! 1 = map (\<lambda>m. scalar ! 0 * m) [1, 0]"
proof -
  have r: "recurrent_advantages (\<lambda>x. x) [[0, 1], [0, 0]] [7, 7 :: nat] False [0, 0, 1] [[1, 1], [1, 0], [1, 1]] =
      Inr ([[1 / 2, 1 / 2], [1 / 2, 0], [- 1 / 2, - 1 / 2]], [[0, 1], [0, 1], [0, 0]])"
    by code_simp
  show ?thesis using turns_share_advantage [OF r] by (auto dest: spec [of _ 1])
qed

section \<open>The dummy rows of an update weigh nothing\<close>

definition row_ok :: "('r \<Rightarrow> rat list) \<Rightarrow> 'r actor_row \<Rightarrow> bool" where
  "row_ok token_losses r \<longleftrightarrow> length (token_losses (row_data r)) = length (row_mask r) \<and>
     (if row_real r then (\<forall>m\<in>set (row_mask r). m = 0 \<or> m = 1) \<and> 0 < sum_list (row_mask r)
      else \<forall>m\<in>set (row_mask r). m = 0)"

lemma sum_list_mset: "mset xs = mset ys \<Longrightarrow> sum_list (map h xs) = sum_list (map h ys)" for h :: "'a \<Rightarrow> rat"
  by (metis mset_map sum_mset_sum_list)

lemma sum_list_concat: "sum_list (map h (concat xss)) = sum_list (map (\<lambda>xs. sum_list (map h xs)) xss)" for h :: "'a \<Rightarrow> rat"
  by (induction xss) auto

lemma sum_list_filter_real:
  "(\<And>r. r \<in> set xs \<Longrightarrow> \<not> p r \<Longrightarrow> h r = 0) \<Longrightarrow> sum_list (map h (filter p xs)) = sum_list (map h xs)" for h :: "'a \<Rightarrow> rat"
  by (induction xs) auto

lemma sum_list_zero: "\<forall>m\<in>set ms. m = 0 \<Longrightarrow> sum_list ms = (0 :: rat)"
  by (induction ms) auto

lemma row_loss_masked: "\<forall>m\<in>set ms. m = 0 \<Longrightarrow> row_loss mode l ms = 0"
proof -
  assume z: "\<forall>m\<in>set ms. m = 0"
  then have "\<forall>v\<in>set (map2 (*) l ms). v = 0" by (auto dest: set_zip_rightD)
  then show ?thesis using z by (simp add: row_loss_def sum_list_zero)
qed

lemma loss_sum_map: "loss_sum mode (map f xs) (map g xs) = sum_list (map (\<lambda>r. row_loss mode (f r) (g r)) xs)"
  unfolding loss_sum_def by (induction xs) auto

lemma sum_list_Ints: "\<forall>x\<in>set xs. f x \<in> \<int> \<Longrightarrow> sum_list (map f xs) \<in> \<int>" for f :: "'a \<Rightarrow> rat"
  by (induction xs) auto

lemma agg_loss_local:
  assumes "tensor_sum m = of_int n" "sum_list (seq_present m) = of_int b"
  shows "agg_loss l m mode (local_info\<lparr>loss_scale_factor := scale\<rparr>) =
    agg_loss l m mode \<lparr>dp_size = 1, batch_num_tokens = Some n, global_batch_size = Some b, loss_scale_factor = scale\<rparr>"
  using assms by (simp add: agg_loss_def local_info_def global_count_def Let_def)

text \<open>The counts of an update are those of its real rows.\<close>

lemma real_tokens:
  assumes "\<And>r. r \<in> set (concat parts) \<Longrightarrow> row_ok token_losses r"
  shows "sum_list (map (\<lambda>part. tensor_sum (map row_mask part)) parts) = tensor_sum (map row_mask (filter row_real (concat parts)))"
proof -
  have "tensor_sum (map row_mask (filter row_real (concat parts))) = sum_list (map (\<lambda>r. sum_list (row_mask r)) (concat parts))"
    unfolding tensor_sum_def map_map comp_def
    by (rule sum_list_filter_real) (use assms in \<open>auto simp: row_ok_def sum_list_zero\<close>)
  then show ?thesis by (simp add: tensor_sum_def comp_def sum_list_concat)
qed

lemma real_rows_counts:
  assumes "\<forall>r\<in>set rows. row_ok token_losses r \<and> row_real r"
  shows "tensor_sum (map row_mask rows) \<in> \<int>" "sum_list (seq_present (map row_mask rows)) = of_nat (length rows)"
    "rows \<noteq> [] \<Longrightarrow> 0 < tensor_sum (map row_mask rows)"
proof -
  show "tensor_sum (map row_mask rows) \<in> \<int>"
    unfolding tensor_sum_def
  proof (intro sum_list_Ints ballI)
    fix row assume "row \<in> set (map row_mask rows)"
    then have "\<forall>m\<in>set row. id m \<in> \<int>" using assms by (fastforce simp: row_ok_def)
    then show "sum_list row \<in> \<int>" using sum_list_Ints [of row id] by simp
  qed
  have "seq_present (map row_mask rows) = map (\<lambda>_. 1) rows" using assms by (auto simp: seq_present_def row_ok_def)
  then show "sum_list (seq_present (map row_mask rows)) = of_nat (length rows)" by (simp add: sum_list_triv)
  have pos: "0 < sum_list (row_mask r)" if "r \<in> set rows" for r using assms that by (auto simp: row_ok_def)
  assume "rows \<noteq> []"
  then obtain r rs where rows: "rows = r # rs" by (cases rows) auto
  have "0 \<le> sum_list (map (\<lambda>r. sum_list (row_mask r)) rs)"
    by (rule sum_list_nonneg) (use pos rows in \<open>auto intro: less_imp_le\<close>)
  then show "0 < tensor_sum (map row_mask rows)" using pos rows by (simp add: tensor_sum_def comp_def add_pos_nonneg)
qed

lemma update_counts:
  assumes "filter row_real (concat parts) \<noteq> []" "\<And>r. r \<in> set (concat parts) \<Longrightarrow> row_ok token_losses r"
  obtains n where "tensor_sum (map row_mask (filter row_real (concat parts))) = of_int n" "n \<noteq> 0"
    "sum_list (seq_present (map row_mask (filter row_real (concat parts)))) = of_int (int (length (filter row_real (concat parts))))"
    "update_info scale parts = \<lparr>dp_size = length parts, batch_num_tokens = Some n,
       global_batch_size = Some (int (length (filter row_real (concat parts)))), loss_scale_factor = scale\<rparr>"
proof -
  let ?real = "filter row_real (concat parts)"
  have "\<forall>r\<in>set ?real. row_ok token_losses r \<and> row_real r" using assms(2) by auto
  note counts = real_rows_counts [OF this]
  have count: "sum_list (map (\<lambda>part. length (filter row_real part)) parts) = length ?real" by (induction parts) auto
  obtain n where n: "tensor_sum (map row_mask ?real) = of_int n" using counts(1) by (auto elim: Ints_cases)
  show thesis
  proof (rule that [OF n])
    show "n \<noteq> 0" using counts(3) [OF assms(1)] n by auto
    show "update_info scale parts = \<lparr>dp_size = length parts, batch_num_tokens = Some n, global_batch_size = Some (int (length ?real)),
        loss_scale_factor = scale\<rparr>"
      unfolding update_info_def real_tokens [of parts token_losses, OF assms(2), simplified] count n by simp
  qed (use counts(2) in simp)
qed

text \<open>C22. An update of the actor on padded rows, spread over the ranks and split in micro-batches in any order, has
  the loss that one worker computes for the real trajectories of the update alone, with no counts given: the dummy
  rows change neither the sum nor what it is divided by.
\<close>

theorem padded_update_loss:
  assumes "parts \<noteq> []" "filter row_real (concat parts) \<noteq> []" "\<And>part r. part \<in> set parts \<Longrightarrow> r \<in> set part \<Longrightarrow> row_ok token_losses r"
    and "\<And>part. part \<in> set parts \<Longrightarrow> mset (concat (micro part)) = mset part"
    and "mode \<in> loss_agg_modes" "case scale of None \<Rightarrow> mode \<noteq> ''seq-mean-token-sum-norm'' | Some c \<Rightarrow> c \<noteq> 0"
  shows "\<exists>losses. update_losses token_losses mode scale micro parts = Inr losses \<and>
    agg_loss (map (token_losses \<circ> row_data) (filter row_real (concat parts))) (map row_mask (filter row_real (concat parts)))
      mode (local_info\<lparr>loss_scale_factor := scale\<rparr>) = Inr (sum_list (map sum_list losses) / of_nat (length parts))"
proof -
  let ?real = "filter row_real (concat parts)" and ?info = "update_info scale parts"
  let ?h = "\<lambda>r. row_loss mode (token_losses (row_data r)) (row_mask r)"
  have ok: "row_ok token_losses r" if "r \<in> set (concat parts)" for r using assms(3) that by auto
  obtain n where n: "tensor_sum (map row_mask ?real) = of_int n" "n \<noteq> 0"
    and present: "sum_list (seq_present (map row_mask ?real)) = of_int (int (length ?real))"
    and info: "?info = \<lparr>dp_size = length parts, batch_num_tokens = Some n, global_batch_size = Some (int (length ?real)),
      loss_scale_factor = scale\<rparr>"
    by (rule update_counts [OF assms(2) ok]) blast
  have counted: "counted mode ?info" using assms(2,5,6) n(2) by (simp add: counted_def info split: option.splits)
  let ?losses = "map (\<lambda>part. map (\<lambda>rows. sum_list (map ?h rows) * of_nat (length parts) / loss_unit mode ?info) (micro part)) parts"
  have losses: "update_losses token_losses mode scale micro parts = Inr ?losses"
    unfolding update_losses_def by (intro map_res_Inr) (simp add: agg_loss_counted [OF counted] loss_sum_map, simp add: info)
  have "sum_list (map sum_list ?losses) =
      sum_list (map (\<lambda>part. sum_list (map (\<lambda>rows. sum_list (map ?h rows)) (micro part))) parts) * of_nat (length parts) / loss_unit mode ?info"
    by (simp add: comp_def sum_list_scaled)
  also have "sum_list (map (\<lambda>part. sum_list (map (\<lambda>rows. sum_list (map ?h rows)) (micro part))) parts) = sum_list (map ?h ?real)"
  proof -
    have "sum_list (map (\<lambda>rows. sum_list (map ?h rows)) (micro part)) = sum_list (map ?h part)" if "part \<in> set parts" for part
      using sum_list_mset [OF assms(4) [OF that], of ?h] by (simp add: sum_list_concat)
    then have "sum_list (map (\<lambda>part. sum_list (map (\<lambda>rows. sum_list (map ?h rows)) (micro part))) parts) =
        sum_list (map ?h (concat parts))"
      by (simp add: sum_list_concat cong: map_cong)
    also have "\<dots> = sum_list (map ?h ?real)"
      by (rule sum_list_filter_real [symmetric]) (use ok in \<open>auto simp: row_ok_def row_loss_masked\<close>)
    finally show ?thesis .
  qed
  finally have "sum_list (map sum_list ?losses) / of_nat (length parts) = sum_list (map ?h ?real) / loss_unit mode ?info"
    using assms(1) by simp
  moreover have "agg_loss (map (token_losses \<circ> row_data) ?real) (map row_mask ?real) mode (local_info\<lparr>loss_scale_factor := scale\<rparr>) =
      Inr (sum_list (map ?h ?real) / loss_unit mode ?info)"
  proof -
    have one: "\<lparr>dp_size = 1, batch_num_tokens = Some n, global_batch_size = Some (int (length ?real)), loss_scale_factor = scale\<rparr> =
        ?info\<lparr>dp_size := 1\<rparr>"
      by (simp add: info)
    from agg_loss_local [OF n(1) present, of _ mode scale] show ?thesis
      unfolding one using counted by (simp add: agg_loss_counted loss_sum_map)
  qed
  ultimately show ?thesis using losses by simp
qed

theorem padded_update_loss_witness:
  "let real = \<lparr>row_data = [1, 2], row_mask = [1, 1], row_real = True\<rparr>; other = \<lparr>row_data = [3, 5], row_mask = [1, 0], row_real = True\<rparr>;
       parts = [[real], [dummy_row other, other]]
   in agg_loss [[1, 2], [3, 5]] [[1, 1], [1, 0]] ''seq-mean-token-sum'' local_info = Inr 3 \<and>
      (\<exists>losses. update_losses (\<lambda>x. x) ''seq-mean-token-sum'' None (\<lambda>part. map (\<lambda>r. [r]) (rev part)) parts = Inr losses \<and>
         sum_list (map sum_list losses) / 2 = 3)"
proof -
  let ?real = "\<lparr>row_data = [1, 2 :: rat], row_mask = [1, 1], row_real = True\<rparr>"
  let ?other = "\<lparr>row_data = [3, 5 :: rat], row_mask = [1, 0], row_real = True\<rparr>"
  let ?parts = "[[?real], [dummy_row ?other, ?other]]" and ?micro = "\<lambda>part. map (\<lambda>r. [r]) (rev part) :: rat list actor_row list list"
  have whole: "agg_loss [[1, 2], [3, 5]] [[1, 1], [1, 0]] ''seq-mean-token-sum'' local_info = Inr 3" by code_simp
  have "\<exists>losses. update_losses (\<lambda>x. x) ''seq-mean-token-sum'' None ?micro ?parts = Inr losses \<and>
    agg_loss (map ((\<lambda>x. x) \<circ> row_data) (filter row_real (concat ?parts))) (map row_mask (filter row_real (concat ?parts)))
      ''seq-mean-token-sum'' (local_info\<lparr>loss_scale_factor := None\<rparr>) = Inr (sum_list (map sum_list losses) / of_nat (length ?parts))"
    by (rule padded_update_loss) (auto simp: dummy_row_def row_ok_def loss_agg_modes_def)
  moreover have "local_info\<lparr>loss_scale_factor := None\<rparr> = local_info" by (simp add: local_info_def)
  ultimately show ?thesis using whole by (auto simp: dummy_row_def Let_def)
qed

section \<open>The updates of a step cover the batch\<close>

lemma split_sizes_equal:
  "length xs = Suc n * q \<Longrightarrow> concat (split_sizes (replicate (Suc n) q) xs) = xs \<and>
    length (split_sizes (replicate (Suc n) q) xs) = Suc n \<and> (\<forall>y\<in>set (split_sizes (replicate (Suc n) q) xs). length y = q)"
proof (induction n arbitrary: xs)
  case (Suc n)
  have "split_sizes (replicate (Suc (Suc n)) q) xs = take q xs # split_sizes (replicate (Suc n) q) (drop q xs)" by simp
  then show ?case using Suc.IH [of "drop q xs"] Suc.prems by (simp del: replicate_Suc)
qed simp

lemma array_split_equal:
  assumes "length xs = n * q" "0 < n"
  obtains ys where "array_split n xs = Inr ys" "concat ys = xs" "length ys = n" "\<And>y. y \<in> set ys \<Longrightarrow> length y = q"
proof -
  obtain k where k: "n = Suc k" using assms(2) by (cases n) auto
  have "length xs div n = q" "length xs mod n = 0" using assms by simp_all
  then have "array_split n xs = Inr (split_sizes (replicate n q) xs)" using assms(2) by (simp add: array_split_def)
  then show thesis using that split_sizes_equal [of xs k q] assms(1) unfolding k by blast
qed

lemma filter_real_padded:
  "length ps = length ks \<Longrightarrow>
    filter row_real (map2 (\<lambda>r k. if k then r\<lparr>row_real := True\<rparr> else dummy_row r) ps ks) = map (\<lambda>r. r\<lparr>row_real := True\<rparr>) (mask_select ks ps)"
  by (induction ps ks rule: list_induct2) (auto simp: mask_select_def dummy_row_def)

lemma pad_actor_rows_Inr:
  assumes "rows \<noteq> []" "0 < d"
  obtains padded where "pad_actor_rows d rows = Inr padded" "length padded mod d = 0" "padded \<noteq> []"
    "filter row_real padded = map (\<lambda>r. r\<lparr>row_real := True\<rparr>) rows"
proof (cases "length rows mod d = 0")
  case True
  show thesis
  proof (rule that)
    show "pad_actor_rows d rows = Inr (map (\<lambda>r. r\<lparr>row_real := True\<rparr>) rows)" using True assms(2) by (simp add: pad_actor_rows_def)
    show "filter row_real (map (\<lambda>r. r\<lparr>row_real := True\<rparr>) rows) = map (\<lambda>r. r\<lparr>row_real := True\<rparr>) rows" by (auto simp: filter_id_conv)
  qed (use True assms(1) in auto)
next
  case False
  obtain idx ks where g: "graceful_padding (length rows) d = Inr (idx, ks)" using graceful_padding_succeeds [OF assms(2)] by blast
  let ?ps = "map (\<lambda>i. if i = - 1 then last rows else rows ! nat i) idx"
  note pr = padded_rows [OF g, of "last rows"]
  have "fancy_index (Ints idx) rows = Inr ?ps"
  proof -
    have "i = - 1 \<or> 0 \<le> i \<and> i < int (length rows)" if "i \<in> set idx" for i
      by (rule padded_index [OF g that])
    then have "map_res (py_get rows) idx = Inr ?ps"
      using assms(1) by (intro map_res_Inr) (force simp: py_get_def last_conv_nth nat_diff_distrib Suc_le_eq)
    then show ?thesis by (simp add: fancy_index_def)
  qed
  then have "pad_actor_rows d rows = Inr (map2 (\<lambda>r k. if k then r\<lparr>row_real := True\<rparr> else dummy_row r) ?ps ks)"
    using False assms(2) g by (simp add: pad_actor_rows_def)
  moreover have "length ?ps mod d = 0" "length ?ps = length ks" using graceful_padding_Inr [OF g] by simp_all
  moreover from this(2) have real: "filter row_real (map2 (\<lambda>r k. if k then r\<lparr>row_real := True\<rparr> else dummy_row r) ?ps ks) =
      map (\<lambda>r. r\<lparr>row_real := True\<rparr>) rows"
    by (simp only: filter_real_padded pr(2))
  moreover from real have "map2 (\<lambda>r k. if k then r\<lparr>row_real := True\<rparr> else dummy_row r) ?ps ks \<noteq> []" using assms(1) by fastforce
  ultimately show thesis by (intro that) (assumption | simp)+
qed

text \<open>C23. A batch that is padded for the update is spread so that every rank has, in every update of the step, the same
  number of rows, a multiple of the micro-batch size; the updates together have every trajectory exactly once, in the
  order of the batch, and dropping the dummy rows gives the batch back.
\<close>

theorem actor_updates_cover:
  assumes "rows \<noteq> []" "0 < dp" "0 < steps" "0 < micro_size"
  shows "\<exists>padded ranks. pad_actor_rows (dp * steps * micro_size) rows = Inr padded \<and> actor_mini_batches dp steps padded = Inr ranks \<and>
    length ranks = dp \<and> (\<forall>rank\<in>set ranks. length rank = steps \<and>
      (\<forall>update\<in>set rank. length update * dp * steps = length padded \<and> length update mod micro_size = 0)) \<and>
    concat (concat ranks) = padded \<and> unpad_actor_rows padded = Inr (map (\<lambda>r. r\<lparr>row_real := True\<rparr>) rows)"
proof -
  have "0 < dp * steps * micro_size" using assms(2-4) by simp
  then obtain padded where p: "pad_actor_rows (dp * steps * micro_size) rows = Inr padded" "length padded mod (dp * steps * micro_size) = 0"
    "padded \<noteq> []" "filter row_real padded = map (\<lambda>r. r\<lparr>row_real := True\<rparr>) rows"
    by (rule pad_actor_rows_Inr [OF assms(1)])
  then obtain q where q: "length padded = dp * steps * micro_size * q" "0 < q"
    by (metis mod_0_imp_dvd dvdE length_0_conv mult_0_right gr0I)
  obtain parts where parts: "array_split dp padded = Inr parts" "concat parts = padded" "length parts = dp"
    "\<And>part. part \<in> set parts \<Longrightarrow> length part = steps * (micro_size * q)"
    by (rule array_split_equal [of padded dp "steps * (micro_size * q)"]) (use q assms(2) in \<open>auto simp: mult.assoc\<close>)
  have "\<exists>ys. array_split steps part = Inr ys \<and> concat ys = part \<and> length ys = steps \<and> (\<forall>y\<in>set ys. length y = micro_size * q)"
    if "part \<in> set parts" for part
    using array_split_equal [OF parts(4) [OF that] assms(3)] by metis
  then obtain split where split: "\<And>part. part \<in> set parts \<Longrightarrow> array_split steps part = Inr (split part) \<and> concat (split part) = part \<and>
      length (split part) = steps \<and> (\<forall>y\<in>set (split part). length y = micro_size * q)"
    by metis
  have "py_assert (steps \<le> length part) (array_split steps part) = Inr (split part)" if "part \<in> set parts" for part
    using split [OF that] parts(4) [OF that] assms(4) q(2) by (simp add: py_assert_def)
  then have "actor_mini_batches dp steps padded = Inr (map split parts)"
    using parts(1) by (simp add: actor_mini_batches_def map_res_Inr)
  moreover have "concat (concat (map split parts)) = padded"
  proof -
    have "concat (concat (map split parts)) = concat (map (\<lambda>part. concat (split part)) parts)" by (induction parts) auto
    also have "\<dots> = concat (map (\<lambda>part. part) parts)" using split by (intro arg_cong [where f = concat] map_cong) auto
    finally show ?thesis using parts(2) by simp
  qed
  moreover have "unpad_actor_rows padded = Inr (filter row_real padded)"
    by (simp add: unpad_actor_rows_def fancy_index_def mask_select_def zip_map1 filter_map comp_def zip_same_conv_map)
  ultimately show ?thesis using p(1,4) parts(3) split q(1) by (intro exI [of _ padded] exI [of _ "map split parts"]) (auto simp: algebra_simps)
qed

theorem actor_updates_cover_witness:
  "\<exists>padded ranks. pad_actor_rows (2 * 1 * 1) [\<lparr>row_data = 1, row_mask = [1], row_real = False\<rparr>] = Inr padded \<and>
     actor_mini_batches 2 1 padded = Inr ranks \<and>
     unpad_actor_rows padded = Inr [\<lparr>row_data = 1, row_mask = [1], row_real = True\<rparr>]"
  using actor_updates_cover [of "[\<lparr>row_data = 1, row_mask = [1], row_real = False\<rparr>]" 2 1 1] by auto

end
