(* ===== verification/FullyAsync.thy ===== *)
theory FullyAsync
  imports MessageQueue Complex_Main
begin

text \<open>
  The rollouter of the fully asynchronous trainer
  (\<open>verl/experimental/fully_async_policy/fully_async_rollouter.py\<close>): a feeder, a processor that submits
  samples for generation, the tasks that generate and deliver them, a monitor, and the trainer, which
  takes samples from the message queue and resets the staleness count after a parameter update. They
  share the state of one object; coroutines give way to each other at every \<open>await\<close>. The system below
  moves by the code between two awaits at a time, in any order. The generation itself and the data
  loader are outside; a sample stands for its \<open>RolloutSample\<close>. A task that raises ends the processor at
  the place where it is awaited.
\<close>

section \<open>Limits\<close>

record async_config =
  ac_required_samples :: nat
  ac_staleness_threshold :: rat
  ac_trigger_step :: nat
  ac_total_rollout_steps :: nat

text \<open>What the constructors of the rollouter assert.\<close>

definition async_config_ok :: "async_config \<Rightarrow> bool" where
  "async_config_ok c \<longleftrightarrow> 0 \<le> ac_staleness_threshold c \<and> 1 \<le> ac_trigger_step c"

record rollout_limits =
  rl_required :: nat
  rl_train_steps :: nat
  rl_concurrent :: nat
  rl_queue :: nat

text \<open>\<open>int\<close> truncates; the numbers are not negative. Without samples the division raises.\<close>

definition set_max_required_samples :: "nat \<Rightarrow> async_config \<Rightarrow> rollout_limits res" where
  "set_max_required_samples replicas c =
     (let required = nat \<lfloor>of_nat (ac_required_samples c) * (ac_staleness_threshold c + 1) * of_nat (ac_trigger_step c)\<rfloor>
      in if ac_required_samples c * ac_trigger_step c = 0 then Inl ZeroDivisionError
         else Inr \<lparr>rl_required = required,
                   rl_train_steps = ac_total_rollout_steps c div (ac_required_samples c * ac_trigger_step c),
                   rl_concurrent = min (replicas * 16) required,
                   rl_queue = required\<rparr>)"

lemma limits_cover_update:
  assumes "set_max_required_samples r c = Inr L" "async_config_ok c"
  shows "ac_required_samples c * ac_trigger_step c \<le> rl_required L" "0 < rl_required L" "rl_queue L = rl_required L"
proof -
  let ?n = "of_nat (ac_required_samples c) :: rat" and ?t = "of_nat (ac_trigger_step c) :: rat"
  have "?n * ?t * 1 \<le> ?n * ?t * (ac_staleness_threshold c + 1)"
    using assms(2) by (intro mult_left_mono) (auto simp: async_config_ok_def)
  then have "of_int (int (ac_required_samples c * ac_trigger_step c)) \<le> ?n * (ac_staleness_threshold c + 1) * ?t"
    by (simp add: ac_simps)
  then have "int (ac_required_samples c * ac_trigger_step c) \<le> \<lfloor>?n * (ac_staleness_threshold c + 1) * ?t\<rfloor>"
    by (simp only: le_floor_iff)
  moreover have "rl_required L = nat \<lfloor>?n * (ac_staleness_threshold c + 1) * ?t\<rfloor>"
    using assms(1) by (auto simp: set_max_required_samples_def Let_def split: if_splits)
  ultimately show le: "ac_required_samples c * ac_trigger_step c \<le> rl_required L"
    by linarith
  show "rl_queue L = rl_required L"
    using assms(1) by (auto simp: set_max_required_samples_def Let_def split: if_splits)
  have "ac_required_samples c * ac_trigger_step c \<noteq> 0"
    using assms(1) by (auto simp: set_max_required_samples_def Let_def split: if_splits)
  then show "0 < rl_required L" using le by linarith
qed

section \<open>The state\<close>

text \<open>
  Where the processor is: at the head of its loop, asking for the size of the queue, with the answer,
  about to pause, draining, waiting for a sample, with a sample in hand, waiting (with the lock) for a
  task to make room, at the end signal, waiting (with the lock) for the last tasks, returned, or raised.
\<close>

datatype 'a processor =
    AtHead | Asking | Answered nat | Pausing | Draining | Fetching | Holding 'a | Limiting 'a
  | Ending | LastWait | Returned | Raised

datatype monitor = Sleeping | Polling | Polled nat | Resuming

text \<open>\<open>reset_staleness\<close>, which holds the lock: it has counted the tasks, then the queue has answered.\<close>

datatype resetting = NoReset | Counted nat | Summed nat

record 'a rollouter =
  ro_at :: "'a processor"
  ro_monitor :: monitor
  ro_reset :: resetting
  ro_feed :: "'a option list"
  ro_pending :: "'a option list"
  ro_generating :: "'a list"
  ro_delivering :: "('a \<times> bool) list"
  ro_ended :: "('a \<times> bool) list"
  ro_paused :: bool
  ro_resume :: bool
  ro_staleness :: nat
  ro_queue :: "'a option msg_queue"
  ro_generated :: nat
  ro_dropped_stale :: nat
  ro_processed :: nat
  ro_signalled :: bool
  ro_running :: bool
  ro_got :: "'a option list"
  ro_lost :: "'a option list"
  ro_raised :: "'a list"
  ro_forgot :: bool

text \<open>
  The tasks of \<open>active_tasks\<close> generate, wait for the reply of the queue (with its answer), or have ended
  (\<open>True\<close>: without an exception) and are not yet taken out of the set. The last four fields only record
  what happened: what the trainer got, what the queue dropped, which samples raised, and whether a reset
  came while the processor had a sample in hand.
\<close>

definition active_count :: "'a rollouter \<Rightarrow> nat" where
  "active_count s = length (ro_generating s) + length (ro_delivering s) + length (ro_ended s)"

text \<open>\<open>_feed_samples\<close>: the samples of the loader until \<open>total_rollout_steps\<close>, then the end signal.\<close>

fun feed_samples :: "nat \<Rightarrow> nat \<Rightarrow> 'a list \<Rightarrow> 'a option list" where
  "feed_samples steps step [] = [None]"
| "feed_samples steps step (x # xs) =
     (if steps \<le> step then [Some x, None] else Some x # feed_samples steps (step + 1) xs)"

definition start_rollouter :: "nat \<Rightarrow> 'a option list \<Rightarrow> 'a rollouter" where
  "start_rollouter m feed =
     \<lparr>ro_at = AtHead, ro_monitor = Sleeping, ro_reset = NoReset, ro_feed = feed, ro_pending = [],
      ro_generating = [], ro_delivering = [], ro_ended = [], ro_paused = False, ro_resume = True,
      ro_staleness = 0,
      ro_queue = \<lparr>mq_max = m, mq_queue = [], mq_val = [], mq_running = True, mq_produced = 0, mq_consumed = 0, mq_dropped = 0\<rparr>,
      ro_generated = 0, ro_dropped_stale = 0, ro_processed = 0, ro_signalled = False, ro_running = True,
      ro_got = [], ro_lost = [], ro_raised = [], ro_forgot = False\<rparr>"

text \<open>The lock of the rollouter is held by a reset, or by the processor while it waits for tasks.\<close>

fun waits_locked :: "'a processor \<Rightarrow> bool" where
  "waits_locked (Limiting x) = True"
| "waits_locked LastWait = True"
| "waits_locked _ = False"

definition lock_free :: "'a rollouter \<Rightarrow> bool" where
  "lock_free s \<longleftrightarrow> ro_reset s = NoReset \<and> \<not> waits_locked (ro_at s)"

fun in_hand :: "'a processor \<Rightarrow> 'a list" where
  "in_hand (Holding x) = [x]"
| "in_hand (Limiting x) = [x]"
| "in_hand _ = []"

text \<open>\<open>_should_pause_generation\<close>, once the queue has answered.\<close>

definition should_pause :: "rollout_limits \<Rightarrow> nat \<Rightarrow> 'a rollouter \<Rightarrow> bool" where
  "should_pause L queue_size s \<longleftrightarrow> rl_queue L \<le> queue_size \<or> rl_required L \<le> ro_staleness s"

section \<open>The steps\<close>

text \<open>\<open>None\<close>: the step is not enabled. First the feeder; the pending queue holds 128 samples.\<close>

definition ro_feed_one :: "'a rollouter \<Rightarrow> 'a rollouter option" where
  "ro_feed_one s =
     (case ro_feed s of
        [] \<Rightarrow> None
      | x # rest \<Rightarrow> if length (ro_pending s) < 128 \<and> \<not> ro_signalled s
                    then Some (s\<lparr>ro_feed := rest, ro_pending := ro_pending s @ [x]\<rparr>) else None)"

text \<open>The head of the processor's loop: paused, or the queue is asked; then the decision.\<close>

definition ro_check :: "'a rollouter \<Rightarrow> 'a rollouter option" where
  "ro_check s = (if ro_at s = AtHead then Some (s\<lparr>ro_at := if ro_paused s then Pausing else Asking\<rparr>) else None)"

definition ro_answer :: "'a rollouter \<Rightarrow> 'a rollouter option" where
  "ro_answer s = (if ro_at s = Asking then Some (s\<lparr>ro_at := Answered (qs_size (get_statistics (ro_queue s)))\<rparr>) else None)"

definition ro_decide :: "rollout_limits \<Rightarrow> 'a rollouter \<Rightarrow> 'a rollouter option" where
  "ro_decide L s =
     (case ro_at s of
        Answered n \<Rightarrow> Some (s\<lparr>ro_at := if should_pause L n s then Pausing else Fetching\<rparr>)
      | _ \<Rightarrow> None)"

definition ro_pause :: "'a rollouter \<Rightarrow> 'a rollouter option" where
  "ro_pause s =
     (if ro_at s = Pausing \<and> lock_free s
      then Some (s\<lparr>ro_at := Draining, ro_paused := True, ro_resume := False\<rparr>) else None)"

text \<open>
  Tasks that ended are taken out of \<open>active_tasks\<close> and awaited; the exception of one of them leaves the
  processor. While draining, \<open>k\<close> is the number of tasks that had ended when the wait returned, and they
  are taken out one by one, here in the order in which they ended.
\<close>

definition reap :: "nat \<Rightarrow> 'a processor \<Rightarrow> 'a rollouter \<Rightarrow> 'a rollouter" where
  "reap k next_at s =
     s\<lparr>ro_ended := drop k (ro_ended s),
       ro_at := if list_all snd (take k (ro_ended s)) then next_at else Raised\<rparr>"

definition ro_drain :: "nat \<Rightarrow> 'a rollouter \<Rightarrow> 'a rollouter option" where
  "ro_drain k s =
     (if ro_at s = Draining \<and> lock_free s \<and> 0 < k \<and> k \<le> length (ro_ended s)
      then let good = length (takeWhile snd (take k (ro_ended s)))
           in Some (if good = k then reap k Draining s else reap (good + 1) Draining s)
      else None)"

definition ro_wake :: "'a rollouter \<Rightarrow> 'a rollouter option" where
  "ro_wake s = (if ro_at s = Draining \<and> ro_resume s then Some (s\<lparr>ro_at := AtHead\<rparr>) else None)"

definition ro_take :: "'a rollouter \<Rightarrow> 'a rollouter option" where
  "ro_take s =
     (if ro_at s = Fetching
      then (case ro_pending s of
              [] \<Rightarrow> None
            | x # rest \<Rightarrow>
                Some (s\<lparr>ro_pending := rest, ro_staleness := ro_staleness s + 1,
                        ro_at := (case x of None \<Rightarrow> Ending | Some y \<Rightarrow> Holding y)\<rparr>))
      else None)"

definition ro_limit :: "rollout_limits \<Rightarrow> 'a rollouter \<Rightarrow> 'a rollouter option" where
  "ro_limit L s =
     (case ro_at s of
        Holding x \<Rightarrow> if lock_free s \<and> rl_concurrent L \<le> active_count s \<and> 0 < active_count s
                     then Some (s\<lparr>ro_at := Limiting x\<rparr>) else None
      | _ \<Rightarrow> None)"

definition ro_room :: "'a rollouter \<Rightarrow> 'a rollouter option" where
  "ro_room s =
     (case ro_at s of
        Limiting x \<Rightarrow> if ro_ended s = [] then None else Some (reap (length (ro_ended s)) (Holding x) s)
      | _ \<Rightarrow> None)"

definition ro_submit :: "rollout_limits \<Rightarrow> 'a rollouter \<Rightarrow> 'a rollouter option" where
  "ro_submit L s =
     (case ro_at s of
        Holding x \<Rightarrow> if lock_free s \<and> active_count s < rl_concurrent L \<and> (\<not> ro_paused s \<or> ro_resume s)
                     then Some (s\<lparr>ro_generating := ro_generating s @ [x], ro_at := AtHead\<rparr>) else None
      | _ \<Rightarrow> None)"

text \<open>The end signal: the last tasks are waited for.\<close>

definition ro_last :: "'a rollouter \<Rightarrow> 'a rollouter option" where
  "ro_last s =
     (if ro_at s = Ending
      then if active_count s = 0 then Some (s\<lparr>ro_at := Returned\<rparr>)
           else if lock_free s then Some (s\<lparr>ro_at := LastWait\<rparr>) else None
      else None)"

definition ro_last_done :: "'a rollouter \<Rightarrow> 'a rollouter option" where
  "ro_last_done s =
     (if ro_at s = LastWait \<and> ro_ended s \<noteq> [] then Some (reap (length (ro_ended s)) Ending s) else None)"

text \<open>\<open>_process_single_sample_streaming\<close>: the sample is put, the counters follow; or the generation raises.\<close>

definition put_queue :: "'a option \<Rightarrow> 'a rollouter \<Rightarrow> (bool \<times> 'a rollouter) option" where
  "put_queue x s =
     (case put_sample x (ro_queue s) of
        Inl e \<Rightarrow> None
      | Inr (ok, q) \<Rightarrow> Some (ok, s\<lparr>ro_queue := q, ro_lost := ro_lost s @ (if ok then [] else take 1 (mq_queue (ro_queue s)))\<rparr>))"

definition ro_put :: "nat \<Rightarrow> 'a rollouter \<Rightarrow> 'a rollouter option" where
  "ro_put i s =
     (if i < length (ro_generating s)
      then (case put_queue (Some (ro_generating s ! i)) s of
              None \<Rightarrow> None
            | Some (ok, s') \<Rightarrow>
                Some (s'\<lparr>ro_generating := take i (ro_generating s) @ drop (i + 1) (ro_generating s),
                         ro_delivering := ro_delivering s @ [(ro_generating s ! i, ok)]\<rparr>))
      else None)"

definition ro_delivered :: "nat \<Rightarrow> 'a rollouter \<Rightarrow> 'a rollouter option" where
  "ro_delivered i s =
     (if i < length (ro_delivering s)
      then let (x, success) = ro_delivering s ! i
           in Some (s\<lparr>ro_delivering := take i (ro_delivering s) @ drop (i + 1) (ro_delivering s),
                      ro_ended := ro_ended s @ [(x, True)],
                      ro_generated := ro_generated s + (if success then 1 else 0),
                      ro_dropped_stale := ro_dropped_stale s + (if success then 0 else 1),
                      ro_processed := ro_processed s + 1\<rparr>)
      else None)"

definition ro_fail :: "nat \<Rightarrow> 'a rollouter \<Rightarrow> 'a rollouter option" where
  "ro_fail i s =
     (if i < length (ro_generating s)
      then Some (s\<lparr>ro_generating := take i (ro_generating s) @ drop (i + 1) (ro_generating s),
                   ro_ended := ro_ended s @ [(ro_generating s ! i, False)],
                   ro_raised := ro_raised s @ [ro_generating s ! i]\<rparr>)
      else None)"

text \<open>\<open>reset_staleness\<close>: the tasks are counted, the queue answers, the sum is stored.\<close>

definition ro_reset_start :: "'a rollouter \<Rightarrow> 'a rollouter option" where
  "ro_reset_start s =
     (if lock_free s then Some (s\<lparr>ro_paused := False, ro_resume := True, ro_reset := Counted (active_count s)\<rparr>) else None)"

definition ro_reset_size :: "'a rollouter \<Rightarrow> 'a rollouter option" where
  "ro_reset_size s =
     (case ro_reset s of Counted n \<Rightarrow> Some (s\<lparr>ro_reset := Summed (n + length (mq_queue (ro_queue s)))\<rparr>) | _ \<Rightarrow> None)"

definition ro_reset_end :: "'a rollouter \<Rightarrow> 'a rollouter option" where
  "ro_reset_end s =
     (case ro_reset s of
        Summed n \<Rightarrow> Some (s\<lparr>ro_reset := NoReset, ro_staleness := n, ro_forgot := ro_forgot s \<or> in_hand (ro_at s) \<noteq> []\<rparr>)
      | _ \<Rightarrow> None)"

text \<open>\<open>_async_monitor_loop\<close> resumes a paused rollouter.\<close>

definition ro_monitor_step :: "rollout_limits \<Rightarrow> 'a rollouter \<Rightarrow> 'a rollouter option" where
  "ro_monitor_step L s =
     (case ro_monitor s of
        Sleeping \<Rightarrow> if ro_running s \<and> ro_paused s then Some (s\<lparr>ro_monitor := Polling\<rparr>) else None
      | Polling \<Rightarrow> Some (s\<lparr>ro_monitor := Polled (qs_size (get_statistics (ro_queue s)))\<rparr>)
      | Polled n \<Rightarrow> Some (s\<lparr>ro_monitor := if should_pause L n s then Sleeping else Resuming\<rparr>)
      | Resuming \<Rightarrow> if lock_free s then Some (s\<lparr>ro_monitor := Sleeping, ro_paused := False, ro_resume := True\<rparr>) else None)"

text \<open>The trainer takes a sample; in the end \<open>_streaming_generation_main\<close> puts the finish signal.\<close>

definition ro_trainer_get :: "'a rollouter \<Rightarrow> 'a rollouter option" where
  "ro_trainer_get s =
     (case get_attempt (ro_queue s) of
        (Got x n, q) \<Rightarrow> Some (s\<lparr>ro_queue := q, ro_got := ro_got s @ [x]\<rparr>)
      | _ \<Rightarrow> None)"

definition ro_finish :: "'a rollouter \<Rightarrow> 'a rollouter option" where
  "ro_finish s =
     (if (ro_at s = Returned \<or> ro_at s = Raised) \<and> \<not> ro_signalled s
      then (case put_queue None s of None \<Rightarrow> None | Some (ok, s') \<Rightarrow> Some (s'\<lparr>ro_signalled := True\<rparr>))
      else None)"

definition ro_stop :: "'a rollouter \<Rightarrow> 'a rollouter option" where
  "ro_stop s = (if ro_signalled s \<and> ro_running s \<and> lock_free s then Some (s\<lparr>ro_running := False\<rparr>) else None)"

datatype rollout_op =
    Feed | Check | Answer | Decide | Pause | Drain nat | Wake | Take | Limit | Room | Submit | Last | LastDone
  | PutOne nat | Delivered nat | Fail nat | ResetStart | ResetSize | ResetEnd | MonitorStep | TrainerGet | Finish | Stop

fun ro_exec :: "rollout_limits \<Rightarrow> rollout_op \<Rightarrow> 'a rollouter \<Rightarrow> 'a rollouter option" where
  "ro_exec L Feed s = ro_feed_one s"
| "ro_exec L Check s = ro_check s"
| "ro_exec L Answer s = ro_answer s"
| "ro_exec L Decide s = ro_decide L s"
| "ro_exec L Pause s = ro_pause s"
| "ro_exec L (Drain k) s = ro_drain k s"
| "ro_exec L Wake s = ro_wake s"
| "ro_exec L Take s = ro_take s"
| "ro_exec L Limit s = ro_limit L s"
| "ro_exec L Room s = ro_room s"
| "ro_exec L Submit s = ro_submit L s"
| "ro_exec L Last s = ro_last s"
| "ro_exec L LastDone s = ro_last_done s"
| "ro_exec L (PutOne i) s = ro_put i s"
| "ro_exec L (Delivered i) s = ro_delivered i s"
| "ro_exec L (Fail i) s = ro_fail i s"
| "ro_exec L ResetStart s = ro_reset_start s"
| "ro_exec L ResetSize s = ro_reset_size s"
| "ro_exec L ResetEnd s = ro_reset_end s"
| "ro_exec L MonitorStep s = ro_monitor_step L s"
| "ro_exec L TrainerGet s = ro_trainer_get s"
| "ro_exec L Finish s = ro_finish s"
| "ro_exec L Stop s = ro_stop s"

inductive ro_reach :: "rollout_limits \<Rightarrow> 'a option list \<Rightarrow> 'a rollouter \<Rightarrow> bool" for L feed where
  ro_start: "ro_reach L feed (start_rollouter (rl_queue L) feed)"
| ro_step: "ro_reach L feed s \<Longrightarrow> ro_exec L op s = Some s' \<Longrightarrow> ro_reach L feed s'"

fun ro_run :: "rollout_limits \<Rightarrow> rollout_op list \<Rightarrow> 'a rollouter \<Rightarrow> 'a rollouter option" where
  "ro_run L [] s = Some s"
| "ro_run L (op # ops) s = (case ro_exec L op s of None \<Rightarrow> None | Some s' \<Rightarrow> ro_run L ops s')"

lemma ro_run_reach:
  assumes "ro_reach L feed s" "ro_run L ops s = Some s'"
  shows "ro_reach L feed s'"
  using assms by (induction ops arbitrary: s) (auto split: option.splits intro: ro_step)

section \<open>Counting samples\<close>

abbreviation somes :: "'a option list \<Rightarrow> 'a list" where
  "somes xs \<equiv> List.map_filter (\<lambda>x. x) xs"

lemma somes_simps [simp]:
  "somes [] = []" "somes (None # xs) = somes xs" "somes (Some x # xs) = x # somes xs"
  "somes (xs @ ys) = somes xs @ somes ys" "somes (map Some zs) = zs"
  by (simp_all add: List.map_filter_def comp_def)

lemma length_somes: "length (somes xs) \<le> length xs"
  by (simp add: List.map_filter_def)

lemma somes_Cons: "somes (x # xs) = (case x of None \<Rightarrow> [] | Some y \<Rightarrow> [y]) @ somes xs"
  by (cases x) auto

lemma somes_all: "None \<notin> set xs \<Longrightarrow> length (somes xs) = length xs"
proof (induction xs)
  case (Cons x xs)
  then show ?case by (cases x) auto
qed simp

lemma somes_tl: "length (somes (tl xs)) \<le> length (somes xs)"
  by (cases xs; cases "hd xs") auto

text \<open>The samples that generate, are in the processor's hand or wait in the message queue.\<close>

definition outstanding :: "'a rollouter \<Rightarrow> nat" where
  "outstanding s = length (ro_generating s) + length (in_hand (ro_at s)) + length (somes (mq_queue (ro_queue s)))"

definition slack :: "'a rollouter \<Rightarrow> nat" where
  "slack s = (if ro_forgot s then 1 else 0)"

text \<open>What a reset has counted covers the tasks and, once the queue has answered, the queue too.\<close>

fun reset_covers :: "nat \<Rightarrow> nat \<Rightarrow> resetting \<Rightarrow> bool" where
  "reset_covers g q NoReset = True"
| "reset_covers g q (Counted n) = (g \<le> n)"
| "reset_covers g q (Summed n) = (g + q \<le> n)"

definition count_inv :: "rollout_limits \<Rightarrow> 'a rollouter \<Rightarrow> bool" where
  "count_inv L s \<longleftrightarrow>
     outstanding s \<le> ro_staleness s + slack s \<and>
     outstanding s \<le> rl_required L + slack s \<and>
     (ro_at s \<in> {Fetching, Ending, LastWait, Returned} \<longrightarrow> outstanding s < rl_required L + slack s) \<and>
     reset_covers (length (ro_generating s)) (length (somes (mq_queue (ro_queue s)))) (ro_reset s)"

text \<open>The queue is the one the main program makes, and only the finish signal is not a sample.\<close>

definition end_inv :: "rollout_limits \<Rightarrow> 'a rollouter \<Rightarrow> bool" where
  "end_inv L s \<longleftrightarrow>
     mq_max (ro_queue s) = rl_queue L \<and> length (mq_queue (ro_queue s)) \<le> rl_queue L \<and>
     (None \<in> set (mq_queue (ro_queue s)) \<longrightarrow> ro_signalled s) \<and>
     (ro_signalled s \<longrightarrow> ro_at s = Returned \<or> ro_at s = Raised) \<and>
     (ro_at s = Returned \<longrightarrow> active_count s = 0)"

definition lost_inv :: "'a rollouter \<Rightarrow> bool" where
  "lost_inv s \<longleftrightarrow> ro_forgot s \<or> (ro_at s = Raised \<and> ro_signalled s) \<or> ro_lost s = []"

lemma put_queue_Some:
  assumes "put_queue x s = Some (ok, s')" "0 < rl_queue L" "end_inv L s"
  obtains q where "s' = s\<lparr>ro_queue := q, ro_lost := ro_lost s @ (if ok then [] else take 1 (mq_queue (ro_queue s)))\<rparr>"
    "mq_max q = mq_max (ro_queue s)" "ok \<longleftrightarrow> length (mq_queue (ro_queue s)) < mq_max (ro_queue s)"
    "mq_queue q = (if ok then mq_queue (ro_queue s) else tl (mq_queue (ro_queue s))) @ [x]"
proof -
  have q: "0 < mq_max (ro_queue s)" "length (mq_queue (ro_queue s)) \<le> mq_max (ro_queue s)"
    using assms(2,3) by (auto simp: end_inv_def)
  from mq.put_items [OF q, of x] obtain q'
    where q': "put_sample x (ro_queue s) = Inr (length (mq_queue (ro_queue s)) < mq_max (ro_queue s), q')"
      "mq_max q' = mq_max (ro_queue s)"
      "mq_queue q' = (if length (mq_queue (ro_queue s)) < mq_max (ro_queue s) then mq_queue (ro_queue s)
        else tl (mq_queue (ro_queue s))) @ [x]"
    by blast
  then have "ok \<longleftrightarrow> length (mq_queue (ro_queue s)) < mq_max (ro_queue s)"
    "s' = s\<lparr>ro_queue := q', ro_lost := ro_lost s @ (if ok then [] else take 1 (mq_queue (ro_queue s)))\<rparr>"
    using assms(1) by (auto simp: put_queue_def)
  then show thesis using that [of q'] q'(2,3) by simp
qed

section \<open>Steps by what they change\<close>

text \<open>
  What a step does to the counted samples, whichever part of the program it belongs to. The relation is
  coarser than the steps: where a guard does not matter for the invariants, it is left out.
\<close>

inductive ro_effect :: "rollout_limits \<Rightarrow> 'a rollouter \<Rightarrow> 'a rollouter \<Rightarrow> bool" for L s where
  eff_feed: "ro_feed s = x # rest \<Longrightarrow>
    ro_effect L s (s\<lparr>ro_feed := rest, ro_pending := ro_pending s @ [x]\<rparr>)"
| eff_move: "ro_at s \<notin> {Fetching, Ending, LastWait, Returned, Raised} \<Longrightarrow> a \<notin> {Ending, LastWait, Returned, Raised} \<Longrightarrow>
    in_hand a = in_hand (ro_at s) \<Longrightarrow> (a = Fetching \<Longrightarrow> ro_staleness s < rl_required L) \<Longrightarrow>
    ro_effect L s (s\<lparr>ro_at := a, ro_paused := p, ro_resume := r\<rparr>)"
| eff_reap: "ro_at s \<notin> {Fetching, Ending, Returned, Raised} \<Longrightarrow> in_hand a = in_hand (ro_at s) \<Longrightarrow>
    a \<notin> {Fetching, LastWait, Returned, Raised} \<Longrightarrow> (a = Ending \<longleftrightarrow> ro_at s = LastWait) \<Longrightarrow>
    a' = (if list_all snd (take k (ro_ended s)) then a else Raised) \<Longrightarrow>
    ro_effect L s (s\<lparr>ro_ended := drop k (ro_ended s), ro_at := a'\<rparr>)"
| eff_take: "ro_at s = Fetching \<Longrightarrow> ro_pending s = Some x # rest \<Longrightarrow>
    ro_effect L s (s\<lparr>ro_pending := rest, ro_staleness := ro_staleness s + 1, ro_at := Holding x\<rparr>)"
| eff_end: "ro_at s = Fetching \<Longrightarrow> ro_pending s = None # rest \<Longrightarrow>
    ro_effect L s (s\<lparr>ro_pending := rest, ro_staleness := ro_staleness s + 1, ro_at := Ending\<rparr>)"
| eff_submit: "ro_at s = Holding x \<Longrightarrow> ro_reset s = NoReset \<Longrightarrow> active_count s < rl_concurrent L \<Longrightarrow>
    ro_effect L s (s\<lparr>ro_generating := ro_generating s @ [x], ro_at := AtHead\<rparr>)"
| eff_last: "ro_at s = Ending \<Longrightarrow> a = LastWait \<or> (a = Returned \<and> active_count s = 0) \<Longrightarrow>
    ro_effect L s (s\<lparr>ro_at := a\<rparr>)"
| eff_put: "ro_generating s = xs @ x # ys \<Longrightarrow> put_queue (Some x) s = Some (ok, s1) \<Longrightarrow>
    ro_effect L s (s1\<lparr>ro_generating := xs @ ys, ro_delivering := ro_delivering s @ [(x, ok)]\<rparr>)"
| eff_delivered: "ro_delivering s = xs @ (x, ok) # ys \<Longrightarrow>
    ro_effect L s (s\<lparr>ro_delivering := xs @ ys, ro_ended := ro_ended s @ [(x, True)],
      ro_generated := ro_generated s + (if ok then 1 else 0),
      ro_dropped_stale := ro_dropped_stale s + (if ok then 0 else 1), ro_processed := ro_processed s + 1\<rparr>)"
| eff_fail: "ro_generating s = xs @ x # ys \<Longrightarrow>
    ro_effect L s (s\<lparr>ro_generating := xs @ ys, ro_ended := ro_ended s @ [(x, False)], ro_raised := ro_raised s @ [x]\<rparr>)"
| eff_reset_start: "ro_reset s = NoReset \<Longrightarrow>
    ro_effect L s (s\<lparr>ro_paused := False, ro_resume := True, ro_reset := Counted (active_count s)\<rparr>)"
| eff_reset_size: "ro_reset s = Counted n \<Longrightarrow>
    ro_effect L s (s\<lparr>ro_reset := Summed (n + length (mq_queue (ro_queue s)))\<rparr>)"
| eff_reset_end: "ro_reset s = Summed n \<Longrightarrow>
    ro_effect L s (s\<lparr>ro_reset := NoReset, ro_staleness := n, ro_forgot := ro_forgot s \<or> in_hand (ro_at s) \<noteq> []\<rparr>)"
| eff_monitor: "ro_effect L s (s\<lparr>ro_monitor := m\<rparr>)"
| eff_resume: "ro_effect L s (s\<lparr>ro_monitor := m, ro_paused := False, ro_resume := True\<rparr>)"
| eff_get: "mq_queue (ro_queue s) = x # mq_queue q \<Longrightarrow> mq_max q = mq_max (ro_queue s) \<Longrightarrow>
    ro_effect L s (s\<lparr>ro_queue := q, ro_got := ro_got s @ [x]\<rparr>)"
| eff_finish: "ro_at s = Returned \<or> ro_at s = Raised \<Longrightarrow> \<not> ro_signalled s \<Longrightarrow> put_queue None s = Some (ok, s1) \<Longrightarrow>
    ro_effect L s (s1\<lparr>ro_signalled := True\<rparr>)"
| eff_stop: "ro_effect L s (s\<lparr>ro_running := False\<rparr>)"

lemma nth_split: "i < length xs \<Longrightarrow> xs = take i xs @ xs ! i # drop (i + 1) xs"
  by (simp add: id_take_nth_drop)

lemma ro_feed_one_effect: "ro_feed_one s = Some s' \<Longrightarrow> ro_effect L s s'"
  by (auto simp: ro_feed_one_def split: list.splits if_splits intro: eff_feed)

lemma move_effect:
  assumes "ro_at s \<notin> {Fetching, Ending, LastWait, Returned, Raised}" "a \<notin> {Ending, LastWait, Returned, Raised}"
    "in_hand a = in_hand (ro_at s)" "a = Fetching \<Longrightarrow> ro_staleness s < rl_required L"
  shows "ro_effect L s (s\<lparr>ro_at := a\<rparr>)"
  using eff_move [OF assms, where p = "ro_paused s" and r = "ro_resume s"] by simp

lemma reap_effect:
  assumes "ro_at s \<notin> {Fetching, Ending, Returned, Raised}" "in_hand a = in_hand (ro_at s)"
    "a \<notin> {Fetching, LastWait, Returned, Raised}" "a = Ending \<longleftrightarrow> ro_at s = LastWait"
  shows "ro_effect L s (reap k a s)"
  unfolding reap_def using assms refl by (rule eff_reap)

lemma ro_check_effect: "ro_check s = Some s' \<Longrightarrow> ro_effect L s s'"
  by (auto simp: ro_check_def intro!: move_effect split: if_splits)

lemma ro_answer_effect: "ro_answer s = Some s' \<Longrightarrow> ro_effect L s s'"
  by (auto simp: ro_answer_def intro!: move_effect split: if_splits)

lemma ro_decide_effect: "ro_decide L s = Some s' \<Longrightarrow> ro_effect L s s'"
  by (auto simp: ro_decide_def should_pause_def intro!: move_effect split: if_splits processor.splits)

lemma ro_pause_effect: "ro_pause s = Some s' \<Longrightarrow> ro_effect L s s'"
  by (auto simp: ro_pause_def intro!: eff_move split: if_splits)

lemma ro_drain_effect: "ro_drain k s = Some s' \<Longrightarrow> ro_effect L s s'"
  by (auto simp: ro_drain_def Let_def intro!: reap_effect split: if_splits)

lemma ro_wake_effect: "ro_wake s = Some s' \<Longrightarrow> ro_effect L s s'"
  by (auto simp: ro_wake_def intro!: move_effect split: if_splits)

lemma ro_take_effect: "ro_take s = Some s' \<Longrightarrow> ro_effect L s s'"
  by (auto simp: ro_take_def simp del: One_nat_def add_Suc_right intro: eff_take eff_end split: if_splits list.splits option.splits)

lemma ro_limit_effect: "ro_limit L s = Some s' \<Longrightarrow> ro_effect L s s'"
  by (auto simp: ro_limit_def intro!: move_effect split: if_splits processor.splits)

lemma ro_room_effect: "ro_room s = Some s' \<Longrightarrow> ro_effect L s s'"
  by (auto simp: ro_room_def intro!: reap_effect split: if_splits processor.splits)

lemma ro_submit_effect: "ro_submit L s = Some s' \<Longrightarrow> ro_effect L s s'"
  by (auto simp: ro_submit_def lock_free_def intro!: eff_submit split: if_splits processor.splits)

lemma ro_last_effect: "ro_last s = Some s' \<Longrightarrow> ro_effect L s s'"
  by (auto simp: ro_last_def intro!: eff_last split: if_splits)

lemma ro_last_done_effect: "ro_last_done s = Some s' \<Longrightarrow> ro_effect L s s'"
  by (auto simp: ro_last_done_def intro!: reap_effect split: if_splits)

lemma ro_put_effect: "ro_put i s = Some s' \<Longrightarrow> ro_effect L s s'"
  by (auto simp: ro_put_def simp del: One_nat_def intro!: eff_put dest: nth_split split: if_splits option.splits)

lemma ro_fail_effect: "ro_fail i s = Some s' \<Longrightarrow> ro_effect L s s'"
  by (auto simp: ro_fail_def simp del: One_nat_def intro!: eff_fail dest: nth_split split: if_splits)

lemma ro_delivered_effect: "ro_delivered i s = Some s' \<Longrightarrow> ro_effect L s s'"
proof -
  assume a: "ro_delivered i s = Some s'"
  then have i: "i < length (ro_delivering s)" by (simp add: ro_delivered_def split: if_splits)
  obtain x ok where x: "ro_delivering s ! i = (x, ok)" by (cases "ro_delivering s ! i")
  show ?thesis
    using a i eff_delivered [OF nth_split [OF i, unfolded x], of L] by (simp add: ro_delivered_def x)
qed

lemma ro_reset_start_effect: "ro_reset_start s = Some s' \<Longrightarrow> ro_effect L s s'"
  by (auto simp: ro_reset_start_def lock_free_def intro: eff_reset_start split: if_splits)

lemma ro_reset_size_effect: "ro_reset_size s = Some s' \<Longrightarrow> ro_effect L s s'"
  by (auto simp: ro_reset_size_def intro: eff_reset_size split: resetting.splits)

lemma ro_reset_end_effect: "ro_reset_end s = Some s' \<Longrightarrow> ro_effect L s s'"
  by (auto simp: ro_reset_end_def intro: eff_reset_end split: resetting.splits)

lemma ro_monitor_step_effect: "ro_monitor_step L s = Some s' \<Longrightarrow> ro_effect L s s'"
  by (cases "ro_monitor s") (auto simp: ro_monitor_step_def intro: eff_monitor eff_resume split: if_splits)

lemma ro_trainer_get_effect: "ro_trainer_get s = Some s' \<Longrightarrow> ro_effect L s s'"
  by (cases "mq_queue (ro_queue s)") (auto simp: ro_trainer_get_def get_attempt_def intro!: eff_get split: if_splits)

lemma ro_finish_effect: "ro_finish s = Some s' \<Longrightarrow> ro_effect L s s'"
  by (auto simp: ro_finish_def intro!: eff_finish split: if_splits option.splits)

lemma ro_stop_effect: "ro_stop s = Some s' \<Longrightarrow> ro_effect L s s'"
  by (auto simp: ro_stop_def intro!: eff_stop split: if_splits)
lemmas ro_effects =
  ro_feed_one_effect ro_check_effect ro_answer_effect ro_decide_effect ro_pause_effect ro_drain_effect ro_wake_effect
  ro_take_effect ro_limit_effect ro_room_effect ro_submit_effect ro_last_effect ro_last_done_effect ro_put_effect
  ro_fail_effect ro_delivered_effect ro_reset_start_effect ro_reset_size_effect ro_reset_end_effect
  ro_monitor_step_effect ro_trainer_get_effect ro_finish_effect ro_stop_effect

lemma ro_exec_effect: "ro_exec L op s = Some s' \<Longrightarrow> ro_effect L s s'"
  by (cases op) (simp_all add: ro_effects)

section \<open>The invariants\<close>

lemma end_inv_effect:
  assumes "ro_effect L s s'" "end_inv L s" "0 < rl_queue L"
  shows "end_inv L s'"
  using assms(1)
proof cases
  case (eff_put xs x ys ok s1)
  from eff_put(3) assms(3,2) show ?thesis
  proof (rule put_queue_Some)
    fix q
    assume q: "s1 = s\<lparr>ro_queue := q, ro_lost := ro_lost s @ (if ok then [] else take 1 (mq_queue (ro_queue s)))\<rparr>"
      "mq_max q = mq_max (ro_queue s)" "ok \<longleftrightarrow> length (mq_queue (ro_queue s)) < mq_max (ro_queue s)"
      "mq_queue q = (if ok then mq_queue (ro_queue s) else tl (mq_queue (ro_queue s))) @ [Some x]"
    then have "length (mq_queue q) \<le> rl_queue L"
      using assms(2,3) by (auto simp: end_inv_def)
    moreover have "None \<in> set (mq_queue q) \<Longrightarrow> None \<in> set (mq_queue (ro_queue s))"
      using q(4) by (cases "mq_queue (ro_queue s)") (auto split: if_splits)
    moreover have "ro_queue s' = q" "ro_at s' = ro_at s" "ro_signalled s' = ro_signalled s"
      "active_count s' = active_count s"
      using q(1) eff_put(1,2) by (simp_all add: active_count_def)
    ultimately show ?thesis
      using assms(2) q(2) by (simp add: end_inv_def)
  qed
next
  case (eff_finish ok s1)
  from eff_finish(4) assms(3,2) show ?thesis
    by (rule put_queue_Some) (use assms(2,3) eff_finish in \<open>auto simp: end_inv_def active_count_def\<close>)
qed (use assms(2) in \<open>auto simp: end_inv_def active_count_def\<close>)

lemma count_inv_effect:
  assumes "ro_effect L s s'" "end_inv L s" "count_inv L s" "0 < rl_queue L" "rl_queue L = rl_required L"
  shows "count_inv L s'"
  using assms(1)
proof cases
  case (eff_put xs x ys ok s1)
  from eff_put(3) assms(4,2) show ?thesis
  proof (rule put_queue_Some)
    fix q
    assume q: "s1 = s\<lparr>ro_queue := q, ro_lost := ro_lost s @ (if ok then [] else take 1 (mq_queue (ro_queue s)))\<rparr>"
      "mq_queue q = (if ok then mq_queue (ro_queue s) else tl (mq_queue (ro_queue s))) @ [Some x]"
    have "length (somes (mq_queue q)) \<le> length (somes (mq_queue (ro_queue s))) + 1"
      using q(2) somes_tl [of "mq_queue (ro_queue s)"] by simp
    moreover have "length (ro_generating s) = length (ro_generating s') + 1"
      using eff_put(1,2) by simp
    moreover have "ro_queue s' = q" "ro_at s' = ro_at s" "ro_staleness s' = ro_staleness s" "ro_reset s' = ro_reset s"
      "slack s' = slack s"
      using q(1) eff_put(1) by (simp_all add: slack_def)
    ultimately show ?thesis
      using assms(3) by (cases "ro_reset s") (auto simp: count_inv_def outstanding_def)
  qed
next
  case (eff_finish ok s1)
  from eff_finish(4) assms(4,2) show ?thesis
  proof (rule put_queue_Some)
    fix q
    assume "s1 = s\<lparr>ro_queue := q, ro_lost := ro_lost s @ (if ok then [] else take 1 (mq_queue (ro_queue s)))\<rparr>"
      "mq_queue q = (if ok then mq_queue (ro_queue s) else tl (mq_queue (ro_queue s))) @ [None]"
    then have "length (somes (mq_queue q)) \<le> length (somes (mq_queue (ro_queue s)))"
      using somes_tl [of "mq_queue (ro_queue s)"] by simp
    moreover have "ro_queue s' = q" "ro_at s' = ro_at s" "ro_staleness s' = ro_staleness s" "ro_reset s' = ro_reset s"
      "slack s' = slack s" "ro_generating s' = ro_generating s"
      using \<open>s1 = _\<close> eff_finish(1) by (simp_all add: slack_def)
    ultimately show ?thesis
      using assms(3) by (cases "ro_reset s") (auto simp: count_inv_def outstanding_def)
  qed
next
  case (eff_get x q)
  then show ?thesis
    using assms(3) by (cases "ro_reset s"; cases x) (auto simp: count_inv_def outstanding_def slack_def)
next
  case (eff_reset_size n)
  then show ?thesis
    using assms(3) length_somes [of "mq_queue (ro_queue s)"] by (auto simp: count_inv_def outstanding_def slack_def)
next
  case (eff_reset_end n)
  then show ?thesis
    using assms(3) by (cases "ro_at s") (auto simp: count_inv_def outstanding_def slack_def split: if_splits)
next
  case (eff_reap a a' k)
  then show ?thesis
    using assms(3) by (auto simp: count_inv_def outstanding_def slack_def)
next
  case (eff_fail xs x ys)
  then show ?thesis
    using assms(3) by (cases "ro_reset s") (auto simp: count_inv_def outstanding_def slack_def)
qed (use assms(3) in \<open>auto simp: count_inv_def outstanding_def slack_def active_count_def\<close>)

lemma lost_inv_effect:
  assumes "ro_effect L s s'" "end_inv L s" "count_inv L s" "lost_inv s" "0 < rl_queue L" "rl_queue L = rl_required L"
  shows "lost_inv s'"
  using assms(1)
proof cases
  case (eff_put xs x ys ok s1)
  from eff_put(3) assms(5,2) show ?thesis
  proof (rule put_queue_Some)
    fix q
    assume q: "s1 = s\<lparr>ro_queue := q, ro_lost := ro_lost s @ (if ok then [] else take 1 (mq_queue (ro_queue s)))\<rparr>"
      "ok \<longleftrightarrow> length (mq_queue (ro_queue s)) < mq_max (ro_queue s)"
    have "ok" if f: "\<not> ro_forgot s" "\<not> ro_signalled s"
      using assms(2,3,6) f q(2) eff_put(2) somes_all [of "mq_queue (ro_queue s)"]
      by (auto simp: end_inv_def count_inv_def outstanding_def slack_def)
    moreover have "ro_at s = Raised" if "ro_signalled s"
      using assms(2) that eff_put(2) by (auto simp: end_inv_def active_count_def)
    moreover have "ro_lost s' = ro_lost s @ (if ok then [] else take 1 (mq_queue (ro_queue s)))" "ro_at s' = ro_at s"
      "ro_signalled s' = ro_signalled s" "ro_forgot s' = ro_forgot s"
      using q(1) eff_put(1) by simp_all
    ultimately show ?thesis
      using assms(4) unfolding lost_inv_def by auto
  qed
next
  case (eff_finish ok s1)
  from eff_finish(4) assms(5,2) show ?thesis
  proof (rule put_queue_Some)
    fix q
    assume q: "s1 = s\<lparr>ro_queue := q, ro_lost := ro_lost s @ (if ok then [] else take 1 (mq_queue (ro_queue s)))\<rparr>"
      "ok \<longleftrightarrow> length (mq_queue (ro_queue s)) < mq_max (ro_queue s)"
    have "ok" if f: "\<not> ro_forgot s" "ro_at s = Returned"
      using assms(2,3,6) f q(2) eff_finish(3) somes_all [of "mq_queue (ro_queue s)"]
      by (auto simp: end_inv_def count_inv_def outstanding_def slack_def)
    moreover have "ro_lost s' = ro_lost s @ (if ok then [] else take 1 (mq_queue (ro_queue s)))" "ro_at s' = ro_at s"
      "ro_signalled s'" "ro_forgot s' = ro_forgot s"
      using q(1) eff_finish(1) by simp_all
    ultimately show ?thesis
      using assms(4) eff_finish(2,3) unfolding lost_inv_def by auto
  qed
qed (use assms(2,4) in \<open>auto simp: lost_inv_def end_inv_def\<close>)

text \<open>Where the samples are, and what is left to feed. A task that raised is awaited before the end.\<close>

definition flow_inv :: "'a list \<Rightarrow> 'a rollouter \<Rightarrow> bool" where
  "flow_inv xs s \<longleftrightarrow> ro_at s = Raised \<or>
     (mset xs = mset (somes (ro_pending s @ ro_feed s)) + mset (in_hand (ro_at s)) + mset (ro_generating s) +
        mset (somes (mq_queue (ro_queue s))) + mset (somes (ro_got s)) + mset (somes (ro_lost s)) + mset (ro_raised s) \<and>
      ro_raised s = map fst (filter (\<lambda>t. \<not> snd t) (ro_ended s)) \<and>
      (if ro_at s \<in> {Ending, LastWait, Returned} then ro_pending s @ ro_feed s = []
       else \<exists>ys. ro_pending s @ ro_feed s = map Some ys @ [None]))"

lemma flow_inv_put:
  assumes "put_queue x s = Some (ok, s1)" "0 < rl_queue L" "end_inv L s"
  shows "mset (somes (mq_queue (ro_queue s1))) + mset (somes (ro_lost s1)) =
    mset (somes [x]) + mset (somes (mq_queue (ro_queue s))) + mset (somes (ro_lost s))"
    "ro_pending s1 = ro_pending s" "ro_feed s1 = ro_feed s" "ro_at s1 = ro_at s" "ro_generating s1 = ro_generating s"
    "ro_got s1 = ro_got s" "ro_raised s1 = ro_raised s" "ro_ended s1 = ro_ended s"
proof -
  obtain q where q: "s1 = s\<lparr>ro_queue := q, ro_lost := ro_lost s @ (if ok then [] else take 1 (mq_queue (ro_queue s)))\<rparr>"
    "mq_queue q = (if ok then mq_queue (ro_queue s) else tl (mq_queue (ro_queue s))) @ [x]"
    using put_queue_Some [OF assms] by metis
  show "ro_pending s1 = ro_pending s" "ro_feed s1 = ro_feed s" "ro_at s1 = ro_at s" "ro_generating s1 = ro_generating s"
    "ro_got s1 = ro_got s" "ro_raised s1 = ro_raised s" "ro_ended s1 = ro_ended s"
    using q(1) by simp_all
  have l: "ro_lost s1 = ro_lost s @ (if ok then [] else take 1 (mq_queue (ro_queue s)))" "ro_queue s1 = q"
    using q(1) by simp_all
  show "mset (somes (mq_queue (ro_queue s1))) + mset (somes (ro_lost s1)) =
    mset (somes [x]) + mset (somes (mq_queue (ro_queue s))) + mset (somes (ro_lost s))"
  proof (cases "mq_queue (ro_queue s)")
    case (Cons y ys)
    then show ?thesis by (cases ok; cases x; cases y) (simp_all add: l q(2))
  qed (cases x; simp add: l q(2))
qed

lemma filter_failed_drop:
  "list_all snd (take k ts) \<Longrightarrow> filter (\<lambda>t. \<not> snd t) (drop k ts) = filter (\<lambda>t. \<not> snd t) ts"
proof -
  assume "list_all snd (take k ts)"
  then have "filter (\<lambda>t. \<not> snd t) (take k ts) = []" by (auto simp: list_all_iff filter_empty_conv)
  then show ?thesis by (metis append_self_conv2 append_take_drop_id filter_append)
qed

lemma flow_inv_effect:
  assumes "ro_effect L s s'" "end_inv L s" "flow_inv xs s" "0 < rl_queue L"
  shows "flow_inv xs s'"
  using assms(1)
proof cases
  case (eff_put ys x zs ok s1)
  show ?thesis
    using assms(3) eff_put(1,2) flow_inv_put [OF eff_put(3) assms(4,2)]
    unfolding flow_inv_def by auto
next
  case (eff_finish ok s1)
  show ?thesis
    using assms(3) eff_finish(1,2) flow_inv_put [OF eff_finish(4) assms(4,2)]
    unfolding flow_inv_def by auto
next
  case (eff_reap a a' k)
  then show ?thesis
    using assms(3) filter_failed_drop [of k "ro_ended s"] by (auto simp: flow_inv_def)
next
  case (eff_take x rest)
  then show ?thesis using assms(3) by (auto simp: flow_inv_def Cons_eq_append_conv Cons_eq_map_conv)
next
  case (eff_end rest)
  then show ?thesis using assms(3) by (auto simp: flow_inv_def Cons_eq_append_conv Cons_eq_map_conv)
next
  case (eff_get x q)
  then show ?thesis using assms(3) by (cases x) (auto simp: flow_inv_def)
qed (use assms(3) in \<open>auto simp: flow_inv_def\<close>)

lemma ro_reach_inv:
  assumes "ro_reach L feed s" "0 < rl_queue L" "rl_queue L = rl_required L"
  shows "end_inv L s \<and> count_inv L s \<and> lost_inv s"
  using assms(1)
proof induction
  case ro_start
  then show ?case
    using assms by (simp add: start_rollouter_def end_inv_def count_inv_def lost_inv_def outstanding_def slack_def active_count_def)
next
  case (ro_step s op s')
  have e: "ro_effect L s s'" using ro_step.hyps(2) by (rule ro_exec_effect)
  show ?case
    using end_inv_effect [OF e] count_inv_effect [OF e] lost_inv_effect [OF e] ro_step.IH assms(2,3) by blast
qed

lemma feed_samples_take: "feed_samples n step xs = map Some (take (Suc (n - step)) xs) @ [None]"
proof (induction xs arbitrary: step)
  case (Cons x xs)
  then show ?case by (cases "n \<le> step") (simp_all add: Suc_diff_Suc not_le)
qed simp

lemma ro_reach_flow:
  assumes "ro_reach L (map Some xs @ [None]) s" "0 < rl_queue L" "rl_queue L = rl_required L"
  shows "flow_inv xs s"
  using assms(1)
proof (induction s rule: ro_reach.induct)
  case ro_start
  then show ?case by (simp add: start_rollouter_def flow_inv_def)
next
  case (ro_step s op s')
  have "end_inv L s" using ro_reach_inv [OF ro_step.hyps(1) assms(2,3)] by blast
  then show ?case using flow_inv_effect [OF ro_exec_effect [OF ro_step.hyps(2)]] ro_step.IH assms(2) by blast
qed

section \<open>Properties of every run\<close>

text \<open>C26. A fully asynchronous run never has more samples in flight (generating, in the processor's hand or
  in the message queue) than the staleness threshold allows, in any interleaving of its coroutines, except
  for one: \<open>reset_staleness\<close> does not count a sample the processor holds. As long as no reset came at such a
  moment the bound is exact and the message queue never drops a sample, unless a generation raised and the
  run was ended by it. The bound covers what the trainer needs for one parameter update.
\<close>

theorem staleness_bounded:
  assumes "async_config_ok c" "set_max_required_samples replicas c = Inr L" "ro_reach L feed s"
  shows "outstanding s \<le> rl_required L + (if ro_forgot s then 1 else 0) \<and>
    (ro_forgot s \<or> (ro_at s = Raised \<and> ro_signalled s) \<or> ro_lost s = []) \<and>
    length (mq_queue (ro_queue s)) \<le> rl_queue L \<and>
    ac_required_samples c * ac_trigger_step c \<le> rl_required L"
proof -
  note L = limits_cover_update [OF assms(2,1)]
  show ?thesis
    using ro_reach_inv [OF assms(3)] L
    by (auto simp: end_inv_def count_inv_def lost_inv_def slack_def)
qed

definition small_config :: async_config where
  "small_config = \<lparr>ac_required_samples = 1, ac_staleness_threshold = 1, ac_trigger_step = 1, ac_total_rollout_steps = 5\<rparr>"

definition small_limits :: rollout_limits where
  "small_limits = \<lparr>rl_required = 2, rl_train_steps = 5, rl_concurrent = 2, rl_queue = 2\<rparr>"

lemma small_limits_ok: "set_max_required_samples 1 small_config = Inr small_limits" "async_config_ok small_config"
  by (simp_all add: set_max_required_samples_def small_config_def small_limits_def async_config_ok_def)

definition fill_ops :: "rollout_op list" where
  "fill_ops = [Feed, Feed, Check, Answer, Decide, Take, Submit, Check, Answer, Decide, Take, Submit,
     Check, Answer, Decide, Pause, PutOne 0, Delivered 0, Drain 1, TrainerGet, PutOne 0, Delivered 0, Drain 1,
     ResetStart, ResetSize, ResetEnd, Wake, Check, Answer, Decide, TrainerGet]"

text \<open>The second reset runs while the processor takes a sample: it is forgotten.\<close>

definition forget_ops :: "rollout_op list" where
  "forget_ops = fill_ops @ [ResetStart, Feed, Take, ResetSize, ResetEnd, Submit, Feed, Feed,
     Check, Answer, Decide, Take, Submit, Check, Answer, Decide, Take]"

definition overflow_ops :: "rollout_op list" where
  "overflow_ops = forget_ops @ [Limit, PutOne 0, PutOne 0, Delivered 0, Room, Submit, PutOne 0]"

definition small_start :: "nat rollouter" where
  "small_start = start_rollouter 2 (feed_samples 5 1 [1, 2, 3, 4, 5, 6])"

lemma small_run_reach:
  "ro_run small_limits ops small_start = Some s \<Longrightarrow> ro_reach small_limits (feed_samples 5 1 [1 :: nat, 2, 3, 4, 5, 6]) s"
  using ro_run_reach [OF ro_start, of small_limits ops "feed_samples 5 1 [1, 2, 3, 4, 5, 6]" s]
  by (simp only: small_start_def small_limits_def rollout_limits.simps)

theorem staleness_bounded_witness:
  "\<exists>s. ro_run small_limits forget_ops small_start = Some s \<and> outstanding s = 3 \<and> ro_forgot s \<and>
    outstanding s \<le> rl_required small_limits + 1 \<and> rl_required small_limits = 2"
proof -
  have "case ro_run small_limits forget_ops small_start of None \<Rightarrow> False
    | Some s \<Rightarrow> outstanding s = 3 \<and> ro_forgot s"
    by code_simp
  then obtain s where s: "ro_run small_limits forget_ops small_start = Some s" "outstanding s = 3" "ro_forgot s"
    by (auto split: option.splits)
  then show ?thesis
    using staleness_bounded [OF small_limits_ok(2,1) small_run_reach [OF s(1)]] by (auto simp: small_limits_def)
qed

text \<open>The sample \<open>reset_staleness\<close> forgets can cost another one: with a parameter update after every
  sample and a threshold of 1, five samples and two resets, each after the trainer got its sample, make
  the message queue drop the oldest sample it holds.
\<close>

theorem reset_forgets_sample:
  "case ro_run small_limits overflow_ops small_start of
     None \<Rightarrow> False
   | Some s \<Rightarrow> ro_lost s = [Some 3] \<and> ro_got s = [Some 1, Some 2] \<and> mq_dropped (ro_queue s) = 1 \<and> ro_staleness s = 2"
  by code_simp

text \<open>C27. Every sample the feeder was given, up to \<open>total_rollout_steps\<close>, is accounted for when the processor
  returns: the trainer has got it, it waits in the message queue, or the queue dropped it; none is there
  twice, none is left with a task, and nothing was dropped unless a reset forgot a sample.
\<close>

theorem rollouter_delivers:
  assumes "async_config_ok c" "set_max_required_samples replicas c = Inr L"
    "ro_reach L (feed_samples (ac_total_rollout_steps c) 1 xs) s" "ro_at s = Returned"
  shows "mset (somes (ro_got s @ mq_queue (ro_queue s) @ ro_lost s)) =
      mset (take (max 1 (ac_total_rollout_steps c)) xs) \<and>
    ro_raised s = [] \<and> active_count s = 0 \<and> (ro_forgot s \<or> ro_lost s = [])"
proof -
  note L = limits_cover_update [OF assms(2,1)]
  have q: "0 < rl_queue L" "rl_queue L = rl_required L" using L by simp_all
  have n: "Suc (ac_total_rollout_steps c - 1) = max 1 (ac_total_rollout_steps c)" by simp
  have flow: "flow_inv (take (max 1 (ac_total_rollout_steps c)) xs) s"
    using ro_reach_flow [OF assms(3) [unfolded feed_samples_take n] q] .
  have inv: "end_inv L s" "lost_inv s" using ro_reach_inv [OF assms(3) q] by blast+
  have none: "ro_generating s = []" "ro_ended s = []" "active_count s = 0"
    using inv(1) assms(4) by (auto simp: end_inv_def active_count_def)
  show ?thesis
    using flow inv(2) assms(4) none by (auto simp: flow_inv_def lost_inv_def)
qed

definition deliver_ops :: "rollout_op list" where
  "deliver_ops = take 26 fill_ops @ [Feed, Wake, Check, Answer, Decide, Take, Last, Finish]"

theorem rollouter_delivers_witness:
  "\<exists>s. ro_run small_limits deliver_ops (start_rollouter 2 (feed_samples 5 1 [1 :: nat, 2])) = Some s \<and>
    ro_got s = [Some 1] \<and> mq_queue (ro_queue s) = [Some 2, None] \<and>
    mset (somes (ro_got s @ mq_queue (ro_queue s) @ ro_lost s)) = {#1, 2#} \<and> ro_lost s = []"
proof -
  have "case ro_run small_limits deliver_ops (start_rollouter 2 (feed_samples 5 1 [1 :: nat, 2])) of None \<Rightarrow> False
    | Some s \<Rightarrow> ro_got s = [Some 1] \<and> mq_queue (ro_queue s) = [Some 2, None] \<and> ro_at s = Returned \<and> \<not> ro_forgot s"
    by code_simp
  then obtain s where s: "ro_run small_limits deliver_ops (start_rollouter 2 (feed_samples 5 1 [1 :: nat, 2])) = Some s"
    "ro_got s = [Some 1]" "mq_queue (ro_queue s) = [Some 2, None]" "ro_at s = Returned" "\<not> ro_forgot s"
    by (auto split: option.splits)
  have "ro_reach small_limits (feed_samples (ac_total_rollout_steps small_config) 1 [1 :: nat, 2]) s"
    by (rule ro_run_reach [OF ro_start, of small_limits deliver_ops])
      (use s(1) in \<open>simp add: small_limits_def small_config_def\<close>)
  then have "mset (somes (ro_got s @ mq_queue (ro_queue s) @ ro_lost s)) =
      mset (take (max 1 (ac_total_rollout_steps small_config)) [1, 2]) \<and>
    ro_raised s = [] \<and> active_count s = 0 \<and> (ro_forgot s \<or> ro_lost s = [])"
    by (rule rollouter_delivers [OF small_limits_ok(2,1)]) (rule s(4))
  then show ?thesis using s by (simp add: small_config_def)
qed

end
