(* ===== verification/PartialRollout.thy ===== *)
theory PartialRollout
  imports Prelude Complex_Main
begin

text \<open>
  Generation that survives an interruption: \<open>FullyAsyncLLMServerClient.generate\<close> of
  \<open>verl/experimental/fully_async_policy/fully_async_rollouter.py\<close> asks again, with the tokens so far behind
  the prompt, until a request was not aborted. A server is a function of the number of the request, the
  prompt and the limits to an output or an exception; how \<open>vllm_async_server.py\<close> turns the limits into a
  number of tokens is modelled too. Images and the other sampling parameters only go through.
\<close>

section \<open>One request\<close>

text \<open>The two entries of the sampling parameters that limit the tokens; \<open>None\<close>: no such key.\<close>

record token_limits =
  tl_max_tokens :: "int option"
  tl_max_new_tokens :: "int option"

record server_output =
  so_ids :: "int list"
  so_log_probs :: "rat list option"
  so_experts :: "nat list option"
  so_preempted :: "int option"
  so_stop :: "string option"
  so_steps :: "int option"

record final_output =
  fo_ids :: "int list"
  fo_log_probs :: "rat list"
  fo_experts :: "nat list option"
  fo_preempted :: int
  fo_stop :: "string option"
  fo_steps :: "int option"
  fo_min_steps :: "int option"
  fo_max_steps :: "int option"

type_synonym token_server = "nat \<Rightarrow> int list \<Rightarrow> token_limits \<Rightarrow> server_output res"

definition empty_output :: final_output where
  "empty_output = \<lparr>fo_ids = [], fo_log_probs = [], fo_experts = None, fo_preempted = 0, fo_stop = None,
                   fo_steps = None, fo_min_steps = None, fo_max_steps = None\<rparr>"

definition merge_experts :: "server_output \<Rightarrow> nat list option \<Rightarrow> nat list option" where
  "merge_experts out old =
     (case so_experts out of
        None \<Rightarrow> old
      | Some new \<Rightarrow>
          if so_ids out = [] then old
          else Some (case old of None \<Rightarrow> new | Some es \<Rightarrow> es @ py_slice (Some (- int (length (so_ids out)))) None new))"

definition merge_output :: "server_output \<Rightarrow> final_output \<Rightarrow> final_output" where
  "merge_output out fin =
     fin\<lparr>fo_ids := fo_ids fin @ so_ids out,
         fo_log_probs := fo_log_probs fin @ (case so_log_probs out of None \<Rightarrow> [] | Some ps \<Rightarrow> ps),
         fo_experts := merge_experts out (fo_experts fin),
         fo_preempted := fo_preempted fin + (case so_preempted out of None \<Rightarrow> 0 | Some n \<Rightarrow> n),
         fo_stop := so_stop out,
         fo_steps := so_steps out,
         fo_min_steps := (if fo_min_steps fin = None then so_steps out else fo_min_steps fin),
         fo_max_steps := so_steps out\<rparr>"

section \<open>The loop\<close>

text \<open>\<open>limit_key\<close> and the limit it holds, and writing it back.\<close>

definition original_limit :: "token_limits \<Rightarrow> int option" where
  "original_limit l = (if tl_max_tokens l \<noteq> None then tl_max_tokens l else tl_max_new_tokens l)"

definition set_limit :: "int \<Rightarrow> token_limits \<Rightarrow> token_limits" where
  "set_limit n l =
     (if tl_max_tokens l \<noteq> None then l\<lparr>tl_max_tokens := Some n\<rparr> else l\<lparr>tl_max_new_tokens := Some n\<rparr>)"

definition was_aborted :: "server_output \<Rightarrow> bool" where
  "was_aborted out \<longleftrightarrow> so_stop out \<in> {Some ''aborted'', Some ''abort''}"

text \<open>
  The loop need not end (a server may abort for ever): \<open>None\<close> is a call that does not return. The
  sampling parameters are the caller's dictionary, and returned as the loop leaves them.
\<close>

partial_function (option) resume_loop ::
  "token_server \<Rightarrow> bool \<Rightarrow> int option \<Rightarrow> int list \<Rightarrow> nat \<Rightarrow> token_limits \<Rightarrow> final_output \<Rightarrow> (final_output \<times> token_limits) res option"
where
  "resume_loop srv partial limit prompt i l fin =
     (case srv i (prompt @ fo_ids fin) l of
        Inl e \<Rightarrow> Some (Inl e)
      | Inr out \<Rightarrow>
          (let fin1 = merge_output out fin;
               rest = (case limit of None \<Rightarrow> None | Some n \<Rightarrow> Some (n - int (length (fo_ids fin1))));
               l1 = (case rest of None \<Rightarrow> l | Some n \<Rightarrow> set_limit n l)
           in if rest \<noteq> None \<and> the rest \<le> 0 then Some (Inr (fin1\<lparr>fo_stop := Some ''length''\<rparr>, l1))
              else if \<not> was_aborted out \<or> \<not> partial then Some (Inr (fin1, l1))
              else resume_loop srv partial limit prompt (i + 1) l1 fin1))"

declare resume_loop.simps [code]

definition resume_generate ::
  "token_server \<Rightarrow> bool \<Rightarrow> int list \<Rightarrow> token_limits \<Rightarrow> (final_output \<times> token_limits) res option" where
  "resume_generate srv partial prompt l = resume_loop srv partial (original_limit l) prompt 0 l empty_output"

section \<open>The limit at the server\<close>

record server_config =
  sc_max_model_len :: int
  sc_prompt_length :: int
  sc_response_length :: int

definition server_max_tokens :: "server_config \<Rightarrow> nat \<Rightarrow> token_limits \<Rightarrow> int res" where
  "server_max_tokens c n l =
     (let possible = sc_max_model_len c - int n;
          wanted = (case tl_max_tokens l of
                      Some m \<Rightarrow> m
                    | None \<Rightarrow> (case tl_max_new_tokens l of
                                 Some m \<Rightarrow> m
                               | None \<Rightarrow> min (sc_response_length c) (sc_prompt_length c + sc_response_length c - int n)));
          m = max 0 (min wanted possible)
      in if possible < 0 then Inl ValueError else py_assert (m \<le> possible) (Inr m))"

lemma server_max_tokens_limit:
  assumes "original_limit l = Some m"
  shows "server_max_tokens c n l =
    (if sc_max_model_len c < int n then Inl ValueError else Inr (max 0 (min m (sc_max_model_len c - int n))))"
  using assms by (auto simp: server_max_tokens_def original_limit_def Let_def split: option.splits if_splits)

text \<open>
  A model that decodes without chance: the next token and its log probability are functions of the
  tokens before. It stops after the end token or at the limit.
\<close>

fun decode :: "(int list \<Rightarrow> int \<times> rat) \<Rightarrow> int \<Rightarrow> nat \<Rightarrow> int list \<Rightarrow> (int \<times> rat) list" where
  "decode lm eos 0 ids = []"
| "decode lm eos (Suc n) ids =
     (let t = lm ids in t # (if fst t = eos then [] else decode lm eos n (ids @ [fst t])))"

text \<open>\<open>cuts i = Some k\<close>: request \<open>i\<close> is aborted after \<open>k\<close> tokens, if it has not ended before.\<close>

definition greedy_server ::
  "server_config \<Rightarrow> (int list \<Rightarrow> int \<times> rat) \<Rightarrow> int \<Rightarrow> (nat \<Rightarrow> nat option) \<Rightarrow> token_server" where
  "greedy_server c lm eos cuts i prompt l =
     bind_res (server_max_tokens c (length prompt) l)
       (\<lambda>m. let full = decode lm eos (nat m) prompt;
                aborted = (case cuts i of None \<Rightarrow> False | Some k \<Rightarrow> k < length full);
                ts = (if aborted then take (the (cuts i)) full else full)
            in Inr \<lparr>so_ids = map fst ts, so_log_probs = Some (map snd ts), so_experts = None, so_preempted = None,
                    so_stop = Some (if aborted then ''aborted'' else ''completed''), so_steps = None\<rparr>)"

lemma decode_resume:
  assumes "k < length (decode lm eos n ids)"
  shows "decode lm eos n ids =
    take k (decode lm eos n ids) @ decode lm eos (n - k) (ids @ map fst (take k (decode lm eos n ids)))"
  using assms
proof (induction n arbitrary: k ids)
  case (Suc n)
  show ?case
  proof (cases k)
    case (Suc j)
    show ?thesis
    proof (cases "fst (lm ids) = eos")
      case False
      then have "j < length (decode lm eos n (ids @ [fst (lm ids)]))"
        using Suc.prems Suc by (simp add: Let_def)
      then show ?thesis using Suc.IH [of j "ids @ [fst (lm ids)]"] False Suc by (simp add: Let_def)
    qed (use Suc.prems Suc in \<open>simp add: Let_def\<close>)
  qed simp
qed simp

lemma length_decode: "length (decode lm eos n ids) \<le> n"
  by (induction n arbitrary: ids) (auto simp: Let_def)

lemma set_limit_simps [simp]:
  "original_limit l \<noteq> None \<Longrightarrow> original_limit (set_limit n l) = Some n"
  "set_limit n (set_limit m l) = set_limit n l"
  by (auto simp: set_limit_def original_limit_def split: if_splits)

section \<open>Interruptions do not show\<close>

text \<open>
  The most tokens that are generated behind a prompt: the limit of the parameters, or the default of the
  server, and no more than the context has room for.
\<close>

definition answer_room :: "server_config \<Rightarrow> int option \<Rightarrow> nat \<Rightarrow> int" where
  "answer_room c limit p =
     min (case limit of Some n \<Rightarrow> n | None \<Rightarrow> sc_prompt_length c + sc_response_length c - int p) (sc_max_model_len c - int p)"

text \<open>The output once the rest of the answer is there, and the parameters after it.\<close>

definition partial_output :: "(int \<times> rat) list \<Rightarrow> string option \<Rightarrow> final_output" where
  "partial_output ts stop = empty_output\<lparr>fo_ids := map fst ts, fo_log_probs := map snd ts, fo_stop := stop\<rparr>"

definition used_up :: "int option \<Rightarrow> nat \<Rightarrow> bool" where
  "used_up limit k \<longleftrightarrow> (case limit of Some n \<Rightarrow> n \<le> int k | None \<Rightarrow> False)"

definition finished_output :: "int option \<Rightarrow> (int \<times> rat) list \<Rightarrow> final_output" where
  "finished_output limit ts = partial_output ts (Some (if used_up limit (length ts) then ''length'' else ''completed''))"

definition limit_left :: "int option \<Rightarrow> nat \<Rightarrow> token_limits \<Rightarrow> token_limits" where
  "limit_left limit k l = (case limit of Some n \<Rightarrow> set_limit (n - int k) l | None \<Rightarrow> l)"

text \<open>The parameters of a request after \<open>g\<close> tokens. Without a limit the prompt has to be a full one.\<close>

definition limits_at :: "server_config \<Rightarrow> int option \<Rightarrow> nat \<Rightarrow> nat \<Rightarrow> token_limits \<Rightarrow> bool" where
  "limits_at c limit p g l \<longleftrightarrow>
     (case limit of Some n \<Rightarrow> original_limit l = Some (n - int g)
      | None \<Rightarrow> original_limit l = None \<and> sc_prompt_length c \<le> int p)"

lemma limit_left_simps [simp]:
  "limits_at c limit p g l \<Longrightarrow> limits_at c limit p h (limit_left limit h l)"
  "limits_at c limit p g l \<Longrightarrow> limit_left limit j (limit_left limit h l) = limit_left limit j l"
  by (auto simp: limits_at_def limit_left_def split: option.splits)

lemma merge_partial_output:
  "merge_output \<lparr>so_ids = map fst us, so_log_probs = Some (map snd us), so_experts = None, so_preempted = None,
      so_stop = r, so_steps = None\<rparr> (partial_output ts stop) = partial_output (ts @ us) r"
  by (simp add: merge_output_def merge_experts_def partial_output_def empty_output_def)

lemma server_max_tokens_room:
  assumes "limits_at c limit p g l" "int (p + g) \<le> sc_max_model_len c"
  shows "server_max_tokens c (p + g) l = Inr (max 0 (answer_room c limit p - int g))"
proof (cases limit)
  case (Some n)
  then have "original_limit l = Some (n - int g)" using assms(1) by (simp add: limits_at_def)
  from server_max_tokens_limit [OF this, of c "p + g"] show ?thesis
    using assms(2) Some by (simp add: answer_room_def)
next
  case None
  then have l: "tl_max_tokens l = None" "tl_max_new_tokens l = None" "sc_prompt_length c \<le> int p"
    using assms(1) by (auto simp: limits_at_def original_limit_def split: if_splits)
  have "min (min (sc_response_length c) (sc_prompt_length c + sc_response_length c - int (p + g))) (sc_max_model_len c - int (p + g))
      = answer_room c limit p - int g"
    using l(3) None by (simp add: answer_room_def)
  moreover have "answer_room c limit p \<le> sc_max_model_len c - int p" by (simp add: answer_room_def)
  ultimately show ?thesis using assms(2) l(1,2) by (simp add: server_max_tokens_def Let_def)
qed

lemma greedy_server_answer:
  assumes "limits_at c limit (length prompt) (length ts) l" "int (length prompt + length ts) \<le> sc_max_model_len c"
  shows "greedy_server c lm eos cuts i (prompt @ map fst ts) l =
    (let full = decode lm eos (nat (answer_room c limit (length prompt) - int (length ts))) (prompt @ map fst ts);
         aborted = (case cuts i of None \<Rightarrow> False | Some k \<Rightarrow> k < length full);
         us = (if aborted then take (the (cuts i)) full else full)
     in Inr \<lparr>so_ids = map fst us, so_log_probs = Some (map snd us), so_experts = None, so_preempted = None,
             so_stop = Some (if aborted then ''aborted'' else ''completed''), so_steps = None\<rparr>)"
proof -
  have "nat (max 0 x) = nat x" for x :: int by simp
  then show ?thesis using server_max_tokens_room [OF assms] by (simp add: greedy_server_def)
qed

lemma resume_step:
  assumes "srv i (prompt @ map fst ts) l =
      Inr \<lparr>so_ids = map fst us, so_log_probs = Some (map snd us), so_experts = None, so_preempted = None,
           so_stop = Some r, so_steps = None\<rparr>"
  shows "resume_loop srv b limit prompt i l (partial_output ts stop) =
    (let l1 = limit_left limit (length (ts @ us)) l
     in if used_up limit (length (ts @ us)) then Some (Inr (partial_output (ts @ us) (Some ''length''), l1))
        else if r \<noteq> ''aborted'' \<and> r \<noteq> ''abort'' \<or> \<not> b then Some (Inr (partial_output (ts @ us) (Some r), l1))
        else resume_loop srv b limit prompt (i + 1) l1 (partial_output (ts @ us) (Some r)))"
proof -
  have "fo_ids (partial_output ts stop) = map fst ts" "length (fo_ids (partial_output (ts @ us) (Some r))) = length (ts @ us)"
    "partial_output (ts @ us) (Some r)\<lparr>fo_stop := Some ''length''\<rparr> = partial_output (ts @ us) (Some ''length'')"
    by (simp_all add: partial_output_def)
  then show ?thesis
    by (cases limit)
      (simp_all add: resume_loop.simps [of srv b] assms(1) merge_partial_output Let_def was_aborted_def used_up_def limit_left_def)
qed

lemma resume_loop_greedy:
  assumes "limits_at c limit (length prompt) (length ts) l" "cuts m = None" "i \<le> m"
    "int (length prompt + length ts) \<le> sc_max_model_len c" "b \<or> (\<forall>j. cuts j = None)"
  shows "resume_loop (greedy_server c lm eos cuts) b limit prompt i l (partial_output ts stop) =
    (let answer = ts @ decode lm eos (nat (answer_room c limit (length prompt) - int (length ts))) (prompt @ map fst ts)
     in Some (Inr (finished_output limit answer, limit_left limit (length answer) l)))"
  using assms
proof (induction "m - i" arbitrary: i l ts stop rule: less_induct)
  case less
  let ?srv = "greedy_server c lm eos cuts" and ?p = "length prompt"
  let ?room = "\<lambda>g. nat (answer_room c limit ?p - int g)"
  define full where "full = decode lm eos (?room (length ts)) (prompt @ map fst ts)"
  note answer = greedy_server_answer [OF less.prems(1,4), of lm eos cuts i]
  show ?case
  proof (cases "\<exists>k. cuts i = Some k \<and> k < length full")
    case False
    then have "?srv i (prompt @ map fst ts) l =
      Inr \<lparr>so_ids = map fst full, so_log_probs = Some (map snd full), so_experts = None, so_preempted = None,
           so_stop = Some ''completed'', so_steps = None\<rparr>"
      unfolding answer by (auto simp: full_def Let_def split: option.splits)
    from resume_step [where srv = ?srv and us = full, OF this] show ?thesis
      by (simp add: finished_output_def full_def Let_def)
  next
    case True
    then obtain k where k: "cuts i = Some k" "k < length full" by blast
    let ?ts = "ts @ take k full"
    let ?l = "limit_left limit (length ?ts) l"
    have "?srv i (prompt @ map fst ts) l =
      Inr \<lparr>so_ids = map fst (take k full), so_log_probs = Some (map snd (take k full)), so_experts = None,
           so_preempted = None, so_stop = Some ''aborted'', so_steps = None\<rparr>"
      using k unfolding answer by (simp add: full_def Let_def)
    note step = resume_step [where srv = ?srv and us = "take k full", OF this]
    have b: "b" and im: "i < m" using less.prems(2,3,5) k(1) by (auto simp: le_less)
    have len: "length full \<le> ?room (length ts)" unfolding full_def by (rule length_decode)
    have fits: "\<not> used_up limit (length ?ts)" "int (?p + length ?ts) \<le> sc_max_model_len c"
      using len k(2) by (auto simp: used_up_def answer_room_def split: option.splits)
    have "?room (length ?ts) = ?room (length ts) - k" using k(2) by simp
    then have full: "full = take k full @ decode lm eos (?room (length ?ts)) (prompt @ map fst ?ts)"
      using decode_resume [OF k(2) [unfolded full_def]] by (simp add: full_def)
    have "resume_loop ?srv b limit prompt i l (partial_output ts stop) =
      resume_loop ?srv b limit prompt (i + 1) ?l (partial_output ?ts (Some ''aborted''))"
      using fits(1) b by (simp add: step)
    also have "\<dots> = (let answer = ?ts @ decode lm eos (?room (length ?ts)) (prompt @ map fst ?ts)
      in Some (Inr (finished_output limit answer, limit_left limit (length answer) ?l)))"
      by (rule less.hyps) (use less.prems im fits(2) in auto)
    also have "?ts @ decode lm eos (?room (length ?ts)) (prompt @ map fst ?ts) = ts @ full"
      using full by simp
    finally show ?thesis using less.prems(1) by (simp add: full_def [symmetric] Let_def)
  qed
qed

lemma resume_too_long:
  assumes "sc_max_model_len c < int (length prompt)"
  shows "resume_generate (greedy_server c lm eos cuts) b prompt l = Some (Inl ValueError)"
  using assms unfolding resume_generate_def
  by (subst resume_loop.simps) (simp add: greedy_server_def server_max_tokens_def empty_output_def Let_def)

text \<open>C28. With a token limit in the sampling parameters, or without one when the prompt has at least
  \<open>prompt_length\<close> tokens, interruptions of a generation do not show: if the server decodes without chance
  and some request is not aborted, the resumed generation returns, and it returns what one uninterrupted
  request does (tokens, log probabilities, stop reason, limit left in the parameters, or the exception
  for a prompt that is too long), however often and wherever it was cut. The tokens are those of the
  model up to the limit, the default of the server or the context length.
\<close>

theorem partial_rollout_invisible:
  assumes "original_limit l \<noteq> None \<or> sc_prompt_length c \<le> int (length prompt)" "cuts m = None"
  shows "resume_generate (greedy_server c lm eos cuts) True prompt l =
      resume_generate (greedy_server c lm eos (\<lambda>i. None)) b prompt l \<and>
    resume_generate (greedy_server c lm eos cuts) True prompt l =
      (let answer = decode lm eos (nat (answer_room c (original_limit l) (length prompt))) prompt
       in Some (if sc_max_model_len c < int (length prompt) then Inl ValueError
                else Inr (finished_output (original_limit l) answer, limit_left (original_limit l) (length answer) l)))"
proof -
  have start: "empty_output = partial_output [] None" by (simp add: partial_output_def empty_output_def)
  have lim: "limits_at c (original_limit l) (length prompt) 0 l"
    using assms(1) by (auto simp: limits_at_def split: option.splits)
  have "resume_generate (greedy_server c lm eos cuts') b' prompt l =
    (let answer = decode lm eos (nat (answer_room c (original_limit l) (length prompt))) prompt
     in Some (if sc_max_model_len c < int (length prompt) then Inl ValueError
              else Inr (finished_output (original_limit l) answer, limit_left (original_limit l) (length answer) l)))"
    if cut: "cuts' m = None" "b' \<or> (\<forall>j. cuts' j = None)" for cuts' b'
  proof (cases "sc_max_model_len c < int (length prompt)")
    case True
    then show ?thesis by (simp add: resume_too_long Let_def)
  next
    case False
    then show ?thesis
      using resume_loop_greedy [of c "original_limit l" prompt "[]" l cuts' m 0 b' lm eos None] lim cut
      by (simp add: resume_generate_def start Let_def)
  qed
  from this [of cuts True] this [of "\<lambda>i. None" b] show ?thesis using assms(2) by simp
qed

definition counting_model :: "int list \<Rightarrow> int \<times> rat" where
  "counting_model ids = (int (length ids), - 1 / 2)"

definition two_cuts :: "nat \<Rightarrow> nat option" where
  "two_cuts i = (if i = 0 then Some 2 else if i = 1 then Some 0 else None)"

definition small_server :: server_config where
  "small_server = \<lparr>sc_max_model_len = 20, sc_prompt_length = 4, sc_response_length = 5\<rparr>"

theorem partial_rollout_invisible_witness:
  "resume_generate (greedy_server small_server counting_model 9 two_cuts) True [7, 8]
      \<lparr>tl_max_tokens = Some 5, tl_max_new_tokens = None\<rparr> =
    Some (Inr (\<lparr>fo_ids = [2, 3, 4, 5, 6], fo_log_probs = [- 1/2, - 1/2, - 1/2, - 1/2, - 1/2], fo_experts = None,
      fo_preempted = 0, fo_stop = Some ''length'', fo_steps = None, fo_min_steps = None, fo_max_steps = None\<rparr>,
      \<lparr>tl_max_tokens = Some 0, tl_max_new_tokens = None\<rparr>)) \<and>
   resume_generate (greedy_server small_server counting_model 9 two_cuts) True [7, 8, 7, 8]
      \<lparr>tl_max_tokens = None, tl_max_new_tokens = None\<rparr> =
    Some (Inr (\<lparr>fo_ids = [4, 5, 6, 7, 8], fo_log_probs = [- 1/2, - 1/2, - 1/2, - 1/2, - 1/2], fo_experts = None,
      fo_preempted = 0, fo_stop = Some ''completed'', fo_steps = None, fo_min_steps = None, fo_max_steps = None\<rparr>,
      \<lparr>tl_max_tokens = None, tl_max_new_tokens = None\<rparr>))"
proof (rule conjI)
  have cut: "two_cuts 2 = None" by (simp add: two_cuts_def)
  note run = partial_rollout_invisible [where cuts = two_cuts, OF _ cut, THEN conjunct2]
  note eval = small_server_def finished_output_def partial_output_def used_up_def limit_left_def answer_room_def
    original_limit_def empty_output_def set_limit_def counting_model_def eval_nat_numeral
  show "resume_generate (greedy_server small_server counting_model 9 two_cuts) True [7, 8]
      \<lparr>tl_max_tokens = Some 5, tl_max_new_tokens = None\<rparr> =
    Some (Inr (\<lparr>fo_ids = [2, 3, 4, 5, 6], fo_log_probs = [- 1/2, - 1/2, - 1/2, - 1/2, - 1/2], fo_experts = None,
      fo_preempted = 0, fo_stop = Some ''length'', fo_steps = None, fo_min_steps = None, fo_max_steps = None\<rparr>,
      \<lparr>tl_max_tokens = Some 0, tl_max_new_tokens = None\<rparr>))"
    by (subst run) (simp_all add: eval)
  show "resume_generate (greedy_server small_server counting_model 9 two_cuts) True [7, 8, 7, 8]
      \<lparr>tl_max_tokens = None, tl_max_new_tokens = None\<rparr> =
    Some (Inr (\<lparr>fo_ids = [4, 5, 6, 7, 8], fo_log_probs = [- 1/2, - 1/2, - 1/2, - 1/2, - 1/2], fo_experts = None,
      fo_preempted = 0, fo_stop = Some ''completed'', fo_steps = None, fo_min_steps = None, fo_max_steps = None\<rparr>,
      \<lparr>tl_max_tokens = None, tl_max_new_tokens = None\<rparr>))"
    by (subst run) (simp_all add: eval)
qed

text \<open>
  Without a limit in the sampling parameters every request gets the default limit of the server, which
  counts the tokens generated before as prompt: an answer to a prompt shorter than \<open>prompt_length\<close> can
  exceed \<open>response_length\<close> once it is interrupted, which it never does otherwise.
\<close>

definition no_limits :: token_limits where
  "no_limits = \<lparr>tl_max_tokens = None, tl_max_new_tokens = None\<rparr>"

lemma default_limit_grows:
  "(case resume_generate (greedy_server small_server counting_model 9 two_cuts) True [7, 8] no_limits of
      Some (Inr (out, l)) \<Rightarrow> length (fo_ids out) = 7 | _ \<Rightarrow> False) \<and>
    (case resume_generate (greedy_server small_server counting_model 9 (\<lambda>i. None)) True [7, 8] no_limits of
      Some (Inr (out, l)) \<Rightarrow> length (fo_ids out) = 5 | _ \<Rightarrow> False)"
  by code_simp

end
