(* ===== verification/ReplicaManager.thy ===== *)
theory ReplicaManager
  imports LoadBalancer PyString
begin

text \<open>
  The servers of the fully asynchronous trainer (\<open>FullyAsyncLLMServerManager\<close> of
  \<open>verl/experimental/fully_async_policy/fully_async_rollouter.py\<close>): standalone replicas that always serve, and
  hybrid replicas on the trainer's devices that are added to and removed from the load balancer at run time.
  Starting a replica is outside: a replica is its identity, address and handle. Dictionaries are association
  lists in insertion order; a call of the load balancer may fail, which its caller catches.
\<close>

section \<open>The manager\<close>

record 'h replica =
  rp_rank :: nat
  rp_address :: string
  rp_handle :: 'h

record ('h, 'c) server_manager =
  sm_hybrid :: "(string \<times> 'h replica) list"
  sm_alive :: "(string \<times> 'h replica) list"
  sm_alive_addresses :: "(string \<times> string) list"
  sm_replicas :: "'h replica list"
  sm_addresses :: "string list"
  sm_handles :: "'h list"
  sm_balancer :: "('h, 'c) balancer"

text \<open>
  Ranks: the hybrid replicas come first. \<open>world_size // rollout_world_size\<close> replicas of the base class.
\<close>

definition rollout_world_size :: "int \<Rightarrow> int \<Rightarrow> int \<Rightarrow> (int option \<times> int \<times> int) option \<Rightarrow> int" where
  "rollout_world_size tp dp pp disaggregation =
     (case disaggregation of
        None \<Rightarrow> tp * dp * pp
      | Some (decode_tp, prefills, decodes) \<Rightarrow>
          (tp * prefills + (case decode_tp of None \<Rightarrow> tp | Some d \<Rightarrow> d) * decodes) * dp * pp)"

definition replica_ranks :: "nat \<Rightarrow> int \<Rightarrow> int \<Rightarrow> int list res" where
  "replica_ranks start_rank world_size rollout_size =
     (if rollout_size = 0 then Inl ZeroDivisionError
      else Inr (map (\<lambda>r. int start_rank + r) [0..world_size div rollout_size - 1]))"

definition resource_id :: "nat \<Rightarrow> string" where
  "resource_id i = ''hybrid_'' @ str_nat i"

text \<open>Hybrid replicas are registered, sleeping; the standalone ones serve.\<close>

definition new_manager :: "'c cache_ops \<Rightarrow> 'h replica list \<Rightarrow> 'h replica list \<Rightarrow> ('h, 'c) server_manager res" where
  "new_manager ops hybrid standalone =
     bind_res (new_balancer ops (map (\<lambda>r. (rp_address r, rp_handle r)) standalone))
       (\<lambda>lb. Inr \<lparr>sm_hybrid = map (\<lambda>(i, r). (resource_id i, r)) (zip [0..<length hybrid] hybrid),
                  sm_alive = [], sm_alive_addresses = [], sm_replicas = standalone,
                  sm_addresses = map rp_address standalone, sm_handles = map rp_handle standalone,
                  sm_balancer = lb\<rparr>)"

text \<open>\<open>add_replicas\<close>: the identifiers that are registered and not alive, a call of the load balancer, the lists.\<close>

definition addable :: "('h, 'c) server_manager \<Rightarrow> string list \<Rightarrow> (string \<times> 'h replica) list" where
  "addable m rids =
     List.map_filter (\<lambda>rid. if rid \<in> fst ` set (sm_alive m) then None
                       else map_option (\<lambda>r. (rid, r)) (map_of (sm_hybrid m) rid)) rids"

definition add_one :: "string \<times> 'h replica \<Rightarrow> ('h, 'c) server_manager \<Rightarrow> ('h, 'c) server_manager" where
  "add_one = (\<lambda>(rid, r) m.
     m\<lparr>sm_handles := (if rp_address r \<in> set (sm_addresses m) then sm_handles m else sm_handles m @ [rp_handle r]),
       sm_addresses := (if rp_address r \<in> set (sm_addresses m) then sm_addresses m else sm_addresses m @ [rp_address r]),
       sm_replicas := (if r \<in> set (sm_replicas m) then sm_replicas m else sm_replicas m @ [r]),
       sm_alive := AList.update rid r (sm_alive m),
       sm_alive_addresses := AList.update rid (rp_address r) (sm_alive_addresses m)\<rparr>)"

definition add_replicas :: "bool \<Rightarrow> string list \<Rightarrow> ('h, 'c) server_manager \<Rightarrow> nat \<times> ('h, 'c) server_manager" where
  "add_replicas rpc_ok rids m =
     (let new = addable m rids;
          servers = fold (\<lambda>(rid, r). AList.update (rp_address r) (rp_handle r)) new []
      in if servers = [] \<or> \<not> rpc_ok then (0, m)
         else (length new, fold add_one new (m\<lparr>sm_balancer := add_servers servers (sm_balancer m)\<rparr>)))"

text \<open>\<open>remove_replicas\<close>. An exception in the loop over the lists (a missing key, an index out of range)
  is caught, which leaves the rest undone.\<close>

definition pop_at :: "nat \<Rightarrow> 'a list \<Rightarrow> 'a list" where
  "pop_at i xs = take i xs @ drop (i + 1) xs"

fun index_in :: "'a \<Rightarrow> 'a list \<Rightarrow> nat option" where
  "index_in x [] = None"
| "index_in x (y # ys) = (if x = y then Some 0 else map_option Suc (index_in x ys))"

definition remove_one :: "string \<Rightarrow> ('h, 'c) server_manager \<Rightarrow> bool \<times> ('h, 'c) server_manager" where
  "remove_one rid m =
     (case (map_of (sm_alive_addresses m) rid, map_of (sm_alive m) rid) of
        (Some address, Some r) \<Rightarrow>
          (let i = index_in address (sm_addresses m);
               m1 = (case i of None \<Rightarrow> m | Some k \<Rightarrow> m\<lparr>sm_addresses := pop_at k (sm_addresses m)\<rparr>)
           in if i \<noteq> None \<and> length (sm_handles m) \<le> the i then (False, m1)
              else (True, m1\<lparr>sm_handles := (case i of None \<Rightarrow> sm_handles m | Some k \<Rightarrow> pop_at k (sm_handles m)),
                             sm_replicas := remove1 r (sm_replicas m),
                             sm_alive := AList.delete rid (sm_alive m),
                             sm_alive_addresses := AList.delete rid (sm_alive_addresses m)\<rparr>))
      | _ \<Rightarrow> (False, m))"

fun remove_loop :: "string list \<Rightarrow> ('h, 'c) server_manager \<Rightarrow> bool \<times> ('h, 'c) server_manager" where
  "remove_loop [] m = (True, m)"
| "remove_loop (rid # rids) m =
     (case remove_one rid m of (ok, m1) \<Rightarrow> if ok then remove_loop rids m1 else (False, m1))"

definition remove_replicas :: "bool \<Rightarrow> string list \<Rightarrow> ('h, 'c) server_manager \<Rightarrow> nat \<times> ('h, 'c) server_manager" where
  "remove_replicas rpc_ok rids m =
     (let valid = filter (\<lambda>rid. rid \<in> fst ` set (sm_alive m)) rids;
          ids = map (\<lambda>rid. the (map_of (sm_alive_addresses m) rid)) valid
      in if ids = [] \<or> \<not> rpc_ok then (0, m)
         else case remove_loop valid (m\<lparr>sm_balancer := remove_servers ids (sm_balancer m)\<rparr>) of
                (done_all, m1) \<Rightarrow> (if done_all then length valid else 0, m1))"

definition get_num_hybrid_replicas :: "('h, 'c) server_manager \<Rightarrow> nat" where
  "get_num_hybrid_replicas m = length (sm_alive m)"

definition get_hybrid_replicas_info :: "('h, 'c) server_manager \<Rightarrow> (string \<times> string) list" where
  "get_hybrid_replicas_info m = sm_alive_addresses m"

definition get_active_server_count :: "('h, 'c) server_manager \<Rightarrow> nat" where
  "get_active_server_count m = length (sm_replicas m) + length (sm_alive m)"

text \<open>\<open>_select_best_worker\<close> of the agent loop manager: the worker, and the index kept for the next call.\<close>

definition select_best_worker :: "'w list \<Rightarrow> nat option \<Rightarrow> ('w \<times> nat) res" where
  "select_best_worker workers index =
     (let i = (case index of None \<Rightarrow> 0 | Some i \<Rightarrow> i)
      in bind_res (py_get workers (int i)) (\<lambda>w. Inr (w, (i + 1) mod length workers)))"

fun select_workers :: "'w list \<Rightarrow> nat \<Rightarrow> nat option \<Rightarrow> 'w list res" where
  "select_workers workers 0 index = Inr []"
| "select_workers workers (Suc k) index =
     bind_res (select_best_worker workers index)
       (\<lambda>(w, i). bind_res (select_workers workers k (Some i)) (\<lambda>ws. Inr (w # ws)))"

lemma select_workers_from:
  "i < length workers \<Longrightarrow>
    select_workers workers k (Some i) = Inr (map (\<lambda>j. workers ! ((i + j) mod length workers)) [0..<k])"
proof (induction k arbitrary: i)
  case (Suc k)
  have "(i + 1) mod length workers < length workers" using Suc.prems by (intro mod_less_divisor) auto
  then have "select_workers workers k (Some ((i + 1) mod length workers)) =
    Inr (map (\<lambda>j. workers ! ((i + Suc j) mod length workers)) [0..<k])"
    using Suc.IH by (simp add: mod_simps)
  then show ?case
    using Suc.prems by (simp add: select_best_worker_def map_upt_Suc del: upt_Suc)
qed simp

text \<open>Round robin: the call number \<open>j\<close> gets the worker \<open>j mod n\<close>.\<close>

lemma round_robin:
  "workers \<noteq> [] \<Longrightarrow> select_workers workers k None = Inr (map (\<lambda>j. workers ! (j mod length workers)) [0..<k])"
  using select_workers_from [of 0 workers k]
  by (cases k) (simp_all add: select_best_worker_def)

section \<open>Consistency\<close>

text \<open>
  The lists name the serving replicas, in the same order; the alive ones are registered; the load
  balancer has exactly the serving replicas, with their handles.
\<close>

definition lists_ok :: "'h replica list \<Rightarrow> ('h, 'c) server_manager \<Rightarrow> bool" where
  "lists_ok standalone m \<longleftrightarrow>
     sm_addresses m = map rp_address (sm_replicas m) \<and> sm_handles m = map rp_handle (sm_replicas m) \<and>
     distinct (map rp_address (sm_replicas m)) \<and>
     set (sm_replicas m) = set standalone \<union> snd ` set (sm_alive m) \<and>
     distinct (map fst (sm_alive m)) \<and>
     sm_alive_addresses m = map (\<lambda>(rid, r). (rid, rp_address r)) (sm_alive m) \<and>
     (\<forall>p\<in>set (sm_alive m). p \<in> set (sm_hybrid m))"

definition pool_ok :: "('h, 'c) server_manager \<Rightarrow> bool" where
  "pool_ok m \<longleftrightarrow>
     fst ` set (lb_servers (sm_balancer m)) = set (sm_addresses m) \<and>
     fst ` set (lb_inflight (sm_balancer m)) = set (sm_addresses m) \<and>
     (\<forall>r\<in>set (sm_replicas m). map_of (lb_servers (sm_balancer m)) (rp_address r) = Some (rp_handle r))"

text \<open>No two replicas have an address in common.\<close>

definition registered_ok :: "'h replica list \<Rightarrow> (string \<times> 'h replica) list \<Rightarrow> bool" where
  "registered_ok standalone hybrid \<longleftrightarrow>
     distinct (map fst hybrid) \<and> distinct (map rp_address (map snd hybrid @ standalone))"

lemma registered_unique:
  assumes "registered_ok standalone hybrid" "r \<in> snd ` set hybrid" "r' \<in> snd ` set hybrid \<union> set standalone"
    "rp_address r = rp_address r'"
  shows "r = r'"
proof -
  have "inj_on rp_address (set (map snd hybrid @ standalone))"
    using assms(1) unfolding registered_ok_def distinct_map by blast
  then show ?thesis using assms(4) by (rule inj_onD) (use assms(2,3) in auto)
qed

lemma registered_rid_unique:
  assumes "registered_ok standalone hybrid" "(rid, r) \<in> set hybrid" "(rid', r) \<in> set hybrid"
  shows "rid = rid'"
proof -
  have "distinct (map (\<lambda>p. rp_address (snd p)) hybrid)"
    using assms(1) by (simp add: registered_ok_def comp_def)
  then have "inj_on (\<lambda>p. rp_address (snd p)) (set hybrid)" by (simp add: distinct_map)
  from inj_onD [OF this, of "(rid, r)" "(rid', r)"] show ?thesis using assms(2,3) by simp
qed

lemma index_in_map:
  "r \<in> set rs \<Longrightarrow> distinct (map f rs) \<Longrightarrow>
    \<exists>k<length rs. index_in (f r) (map f rs) = Some k \<and> remove1 r rs = pop_at k rs"
proof (induction rs)
  case (Cons x rs)
  show ?case
  proof (cases "x = r")
    case False
    then have "f r \<noteq> f x" using Cons.prems by (metis distinct.simps(2) imageI list.set_map list.simps(9) set_ConsD)
    moreover obtain k where "k < length rs" "index_in (f r) (map f rs) = Some k" "remove1 r rs = pop_at k rs"
      using Cons False by auto
    ultimately show ?thesis using False by (intro exI [of _ "Suc k"]) (simp add: pop_at_def)
  qed (simp add: pop_at_def)
qed simp

lemma map_pop_at: "map f (pop_at k xs) = pop_at k (map f xs)"
  by (simp add: pop_at_def take_map drop_map)

lemma alist_update_new: "k \<notin> fst ` set al \<Longrightarrow> AList.update k v al = al @ [(k, v)]"
  by (induction al) auto

lemma lists_ok_add_one:
  assumes "registered_ok standalone (sm_hybrid m)" "lists_ok standalone m" "p \<in> set (sm_hybrid m)"
  shows "lists_ok standalone (add_one p m)" "sm_hybrid (add_one p m) = sm_hybrid m"
    "set (sm_alive (add_one p m)) = insert p (set (sm_alive m))"
    "sm_balancer (add_one p m) = sm_balancer m"
proof -
  obtain rid r where p: "p = (rid, r)" by force
  show "sm_hybrid (add_one p m) = sm_hybrid m" "sm_balancer (add_one p m) = sm_balancer m"
    by (simp_all add: add_one_def p)
  note ok = assms(2) [unfolded lists_ok_def]
  show "lists_ok standalone (add_one p m)" "set (sm_alive (add_one p m)) = insert p (set (sm_alive m))"
  proof (atomize (full), cases "p \<in> set (sm_alive m)")
    case True
    then have "map_of (sm_alive m) rid = Some r" "r \<in> set (sm_replicas m)" "rp_address r \<in> set (sm_addresses m)"
      using ok p by force+
    moreover from this(1) have "map_of (sm_alive_addresses m) rid = Some (rp_address r)"
      using ok by (simp add: map_of_map)
    ultimately have "add_one p m = m" by (simp add: add_one_def p update_triv)
    then show "lists_ok standalone (add_one p m) \<and> set (sm_alive (add_one p m)) = insert p (set (sm_alive m))"
      using True assms(2) by auto
  next
    case False
    have serving: "set (sm_replicas m) \<subseteq> snd ` set (sm_hybrid m) \<union> set standalone"
      using ok by auto
    have "r \<in> snd ` set (sm_hybrid m)" using assms(3) p by force
    note unique = registered_unique [OF assms(1) this]
    have "rid \<notin> fst ` set (sm_alive m)"
    proof
      assume "rid \<in> fst ` set (sm_alive m)"
      then obtain r' where "(rid, r') \<in> set (sm_alive m)" by force
      moreover from this have "r' = r"
        using ok assms(1,3) p eq_key_imp_eq_value [of "sm_hybrid m" rid] by (auto simp: registered_ok_def)
      ultimately show False using False p by simp
    qed
    moreover have "r \<notin> set (sm_replicas m)"
    proof
      assume "r \<in> set (sm_replicas m)"
      then consider "r \<in> set standalone" | rid' where "(rid', r) \<in> set (sm_alive m)" using ok by force
      then show False
      proof cases
        case 1
        then show False using assms(1,3) p by (force simp: registered_ok_def)
      next
        case 2
        then show False using registered_rid_unique [OF assms(1), of rid' r rid] ok assms(3) p False by auto
      qed
    qed
    moreover from this have "rp_address r \<notin> set (sm_addresses m)"
      using ok unique serving by (metis (no_types, lifting) in_mono image_iff list.set_map)
    moreover from calculation(1) have "rid \<notin> fst ` set (sm_alive_addresses m)" using ok by force
    ultimately show "lists_ok standalone (add_one p m) \<and> set (sm_alive (add_one p m)) = insert p (set (sm_alive m))"
      using assms(2,3) by (auto simp: lists_ok_def add_one_def p alist_update_new)
  qed
qed

lemma lists_ok_add_all:
  assumes "registered_ok standalone (sm_hybrid m)" "lists_ok standalone m" "set ps \<subseteq> set (sm_hybrid m)"
  shows "lists_ok standalone (fold add_one ps m) \<and> sm_hybrid (fold add_one ps m) = sm_hybrid m \<and>
    set (sm_alive (fold add_one ps m)) = set ps \<union> set (sm_alive m) \<and>
    sm_balancer (fold add_one ps m) = sm_balancer m"
  using assms
proof (induction ps arbitrary: m)
  case (Cons p ps)
  have p: "p \<in> set (sm_hybrid m)" using Cons.prems(3) by simp
  note one = lists_ok_add_one [OF Cons.prems(1,2) p]
  show ?case using Cons.IH [of "add_one p m"] Cons.prems one by auto
qed simp

lemma not_standalone:
  assumes "registered_ok standalone hybrid" "(rid, r) \<in> set hybrid"
  shows "r \<notin> set standalone"
  using assms by (force simp: registered_ok_def)

lemma lists_ok_remove_one:
  assumes "registered_ok standalone (sm_hybrid m)" "lists_ok standalone m" "(rid, r) \<in> set (sm_alive m)"
  shows "\<exists>m'. remove_one rid m = (True, m') \<and> lists_ok standalone m' \<and> sm_hybrid m' = sm_hybrid m \<and>
    sm_balancer m' = sm_balancer m \<and> set (sm_alive m') = set (sm_alive m) - {(rid, r)} \<and>
    set (sm_addresses m') = set (sm_addresses m) - {rp_address r}"
proof -
  note ok = assms(2) [unfolded lists_ok_def]
  have keys: "map_of (sm_alive m) rid = Some r" using ok assms(3) by simp
  then have addr: "map_of (sm_alive_addresses m) rid = Some (rp_address r)" using ok by (simp add: map_of_map)
  have hyb: "(rid, r) \<in> set (sm_hybrid m)" using ok assms(3) by blast
  have r: "r \<in> set (sm_replicas m)" "distinct (map rp_address (sm_replicas m))" using ok assms(3) by force+
  obtain k where k: "k < length (sm_replicas m)" "index_in (rp_address r) (sm_addresses m) = Some k"
    "remove1 r (sm_replicas m) = pop_at k (sm_replicas m)"
    using index_in_map [OF r] ok by auto
  define m' where "m' = m\<lparr>sm_addresses := pop_at k (sm_addresses m), sm_handles := pop_at k (sm_handles m),
    sm_replicas := pop_at k (sm_replicas m), sm_alive := AList.delete rid (sm_alive m),
    sm_alive_addresses := AList.delete rid (sm_alive_addresses m)\<rparr>"
  have one: "remove_one rid m = (True, m')"
    using keys addr k ok by (simp add: remove_one_def Let_def m'_def)
  have reps: "sm_replicas m' = remove1 r (sm_replicas m)" using k(3) by (simp add: m'_def)
  have named: "sm_addresses m' = map rp_address (sm_replicas m')" "sm_handles m' = map rp_handle (sm_replicas m')"
    using ok by (simp_all add: m'_def map_pop_at)
  have inj: "distinct (sm_replicas m)" "inj_on rp_address (set (sm_replicas m))" using r(2) by (auto simp: distinct_map)
  then have set_reps: "set (sm_replicas m') = set (sm_replicas m) - {r}" using reps by simp
  have alive: "sm_alive m' = AList.delete rid (sm_alive m)" by (simp add: m'_def)
  then have set_alive: "set (sm_alive m') = set (sm_alive m) - {(rid, r)}"
    using ok eq_key_imp_eq_value [OF _ assms(3)] by (auto simp: AList.delete_eq)
  have "set standalone \<inter> {r} = {}" using not_standalone [OF assms(1) hyb] by simp
  moreover have "snd ` set (sm_alive m') = snd ` set (sm_alive m) - {r}"
    using registered_rid_unique [OF assms(1) _ hyb] ok unfolding set_alive by fastforce
  ultimately have "set (sm_replicas m') = set standalone \<union> snd ` set (sm_alive m')"
    using set_reps ok by auto
  moreover have "distinct (map rp_address (sm_replicas m'))"
    using inj unfolding distinct_map set_reps reps by (auto intro: inj_on_subset)
  moreover have "sm_alive_addresses m' = map (\<lambda>(rid, r). (rid, rp_address r)) (sm_alive m')"
    using ok by (simp add: m'_def AList.delete_eq filter_map comp_def case_prod_unfold)
  moreover have "distinct (map fst (sm_alive m'))" using ok by (simp add: alive distinct_delete)
  moreover have "sm_hybrid m' = sm_hybrid m" "sm_balancer m' = sm_balancer m" by (simp_all add: m'_def)
  moreover from this have "\<forall>p\<in>set (sm_alive m'). p \<in> set (sm_hybrid m')" using ok set_alive by auto
  moreover have "set (sm_addresses m') = set (sm_addresses m) - {rp_address r}"
  proof -
    have "rp_address ` (set (sm_replicas m) - {r}) = rp_address ` set (sm_replicas m) - rp_address ` {r}"
      using r(1) by (intro inj_on_image_set_diff [OF inj(2)]) auto
    then show ?thesis using ok by (simp add: named set_reps)
  qed
  ultimately show ?thesis using one set_alive named by (auto simp: lists_ok_def)
qed

lemma lists_ok_remove_all:
  assumes "registered_ok standalone (sm_hybrid m)" "lists_ok standalone m" "distinct rids" "set rids \<subseteq> fst ` set (sm_alive m)"
  shows "\<exists>m'. remove_loop rids m = (True, m') \<and> lists_ok standalone m' \<and> sm_hybrid m' = sm_hybrid m \<and>
    sm_balancer m' = sm_balancer m \<and> set (sm_alive m') = {p \<in> set (sm_alive m). fst p \<notin> set rids} \<and>
    set (sm_addresses m') = set (sm_addresses m) - rp_address ` snd ` {p \<in> set (sm_alive m). fst p \<in> set rids}"
  using assms
proof (induction rids arbitrary: m)
  case (Cons rid rids)
  obtain r where r: "(rid, r) \<in> set (sm_alive m)" using Cons.prems(4) by force
  obtain m1 where m1: "remove_one rid m = (True, m1)" "lists_ok standalone m1" "sm_hybrid m1 = sm_hybrid m"
    "sm_balancer m1 = sm_balancer m" "set (sm_alive m1) = set (sm_alive m) - {(rid, r)}"
    "set (sm_addresses m1) = set (sm_addresses m) - {rp_address r}"
    using lists_ok_remove_one [OF Cons.prems(1,2) r] by blast
  have "set rids \<subseteq> fst ` set (sm_alive m1)" using Cons.prems(3,4) m1(5) by force
  then obtain m' where m': "remove_loop rids m1 = (True, m')" "lists_ok standalone m'" "sm_hybrid m' = sm_hybrid m1"
    "sm_balancer m' = sm_balancer m1" "set (sm_alive m') = {p \<in> set (sm_alive m1). fst p \<notin> set rids}"
    "set (sm_addresses m') = set (sm_addresses m1) - rp_address ` snd ` {p \<in> set (sm_alive m1). fst p \<in> set rids}"
    using Cons.IH [of m1] Cons.prems(1,3) m1(2,3) by auto
  have only: "p = (rid, r)" if "p \<in> set (sm_alive m)" "fst p = rid" for p
    using Cons.prems(2) r that eq_key_imp_eq_value [of "sm_alive m" rid] by (cases p) (auto simp: lists_ok_def)
  have "{p \<in> set (sm_alive m). fst p \<in> set (rid # rids)} = insert (rid, r) {p \<in> set (sm_alive m1). fst p \<in> set rids}"
    "{p \<in> set (sm_alive m). fst p \<notin> set (rid # rids)} = {p \<in> set (sm_alive m1). fst p \<notin> set rids}"
  proof -
    have "rid \<notin> set rids" using Cons.prems(3) by simp
    then have notin: "fst p \<noteq> rid" if "fst p \<in> set rids" for p :: "string \<times> 'a replica"
      using that by blast
    show "{p \<in> set (sm_alive m). fst p \<in> set (rid # rids)} = insert (rid, r) {p \<in> set (sm_alive m1). fst p \<in> set rids}"
    proof (rule set_eqI)
      fix p
      show "p \<in> {p \<in> set (sm_alive m). fst p \<in> set (rid # rids)} \<longleftrightarrow>
          p \<in> insert (rid, r) {p \<in> set (sm_alive m1). fst p \<in> set rids}"
        unfolding m1(5) mem_Collect_eq insert_iff Diff_iff list.set(2) by (metis only notin r fst_conv empty_iff)
    qed
    show "{p \<in> set (sm_alive m). fst p \<notin> set (rid # rids)} = {p \<in> set (sm_alive m1). fst p \<notin> set rids}"
    proof (rule set_eqI)
      fix p
      show "p \<in> {p \<in> set (sm_alive m). fst p \<notin> set (rid # rids)} \<longleftrightarrow>
          p \<in> {p \<in> set (sm_alive m1). fst p \<notin> set rids}"
        unfolding m1(5) mem_Collect_eq insert_iff Diff_iff list.set(2) by (metis only fst_conv empty_iff)
    qed
  qed
  note parts = this
  have "remove_loop (rid # rids) m = (True, m')" using m1(1) m'(1) by simp
  moreover have "set (sm_addresses m') =
    set (sm_addresses m) - rp_address ` snd ` {p \<in> set (sm_alive m). fst p \<in> set (rid # rids)}"
    unfolding parts(1) m'(6) m1(6) image_insert snd_conv by (rule Diff_insert2 [symmetric])
  moreover have "set (sm_alive m') = {p \<in> set (sm_alive m). fst p \<notin> set (rid # rids)}"
    unfolding parts(2) by (rule m'(5))
  ultimately show ?case using m'(2-4) m1(3,4) by metis
qed simp

section \<open>The load balancer\<close>

lemma servers_Nil [simp]: "add_servers [] lb = lb" "remove_servers [] lb = lb"
  by (simp_all add: add_servers_def remove_servers_def)

lemma add_servers_keys:
  "fst ` set (lb_servers (add_servers ss lb)) = fst ` set ss \<union> fst ` set (lb_servers lb)"
  "fst ` set (lb_inflight (add_servers ss lb)) = fst ` set ss \<union> fst ` set (lb_inflight lb)"
proof (induction ss arbitrary: lb)
  case (Cons x ss)
  case 1
  show ?case using Cons.IH by (cases x) (simp add: add_servers_Cons AList.dom_update)
  case 2
  show ?case using Cons.IH by (cases x) (simp add: add_servers_Cons AList.dom_update)
qed simp_all

lemma add_servers_lookup:
  assumes "distinct (map fst ss)"
  shows "map_of (lb_servers (add_servers ss lb)) a =
    (case map_of ss a of None \<Rightarrow> map_of (lb_servers lb) a | Some h \<Rightarrow> Some h)"
  using assms
proof (induction ss arbitrary: lb)
  case (Cons x ss)
  obtain b h where x: "x = (b, h)" by force
  have "map_of ss b = None" using Cons.prems x by (simp add: map_of_eq_None_iff)
  then show ?case using Cons by (auto simp: x add_servers_Cons update_conv' split: option.splits)
qed (simp add: add_servers_def)

lemma keys_delete: "fst ` set (AList.delete k al) = fst ` set al - {k}"
  by (auto simp: AList.delete_eq)

lemma remove_servers_keys:
  "fst ` set (lb_servers (remove_servers ids lb)) = fst ` set (lb_servers lb) - set ids"
  "fst ` set (lb_inflight (remove_servers ids lb)) = fst ` set (lb_inflight lb) - set ids"
  by (induction ids arbitrary: lb) (simp_all add: remove_servers_Cons keys_delete Diff_insert2 [symmetric])

lemma remove_servers_lookup:
  "a \<notin> set ids \<Longrightarrow> map_of (lb_servers (remove_servers ids lb)) a = map_of (lb_servers lb) a"
  by (induction ids arbitrary: lb) (auto simp: remove_servers_Cons remove_servers_def)

section \<open>Every sequence of operations keeps the manager consistent\<close>

definition manager_ok :: "'h replica list \<Rightarrow> ('h, 'c) server_manager \<Rightarrow> bool" where
  "manager_ok standalone m \<longleftrightarrow> registered_ok standalone (sm_hybrid m) \<and> lists_ok standalone m \<and> pool_ok m"

lemma addable_subset: "set (addable m rids) \<subseteq> set (sm_hybrid m)"
  by (auto simp: addable_def List.map_filter_def dest: map_of_SomeD split: if_splits)

lemma addresses_of_lists: "lists_ok standalone m \<Longrightarrow> set (sm_addresses m) = rp_address ` (set standalone \<union> snd ` set (sm_alive m))"
  by (auto simp: lists_ok_def)

definition servers_of :: "(string \<times> 'h replica) list \<Rightarrow> (string \<times> 'h) list" where
  "servers_of ps = fold (\<lambda>(rid, r). AList.update (rp_address r) (rp_handle r)) ps []"

lemma fold_update_facts:
  "distinct (map fst al) \<Longrightarrow>
    distinct (map fst (fold (\<lambda>(rid, r). AList.update (rp_address r) (rp_handle r)) ps al)) \<and>
    fst ` set (fold (\<lambda>(rid, r). AList.update (rp_address r) (rp_handle r)) ps al) = rp_address ` snd ` set ps \<union> fst ` set al"
proof (induction ps arbitrary: al)
  case (Cons p ps)
  then show ?case by (cases p) (simp add: AList.dom_update distinct_update)
qed simp

lemma fold_update_lookup:
  assumes "\<forall>q\<in>set ps. rp_address (snd q) = a \<longrightarrow> rp_handle (snd q) = h" "map_of al a = Some h \<or> a \<in> rp_address ` snd ` set ps"
  shows "map_of (fold (\<lambda>(rid, r). AList.update (rp_address r) (rp_handle r)) ps al) a = Some h"
  using assms
proof (induction ps arbitrary: al)
  case (Cons p ps)
  obtain rid r where p: "p = (rid, r)" by force
  show ?case
    using Cons.prems Cons.IH [of "AList.update (rp_address r) (rp_handle r) al"]
    by (auto simp: p update_conv')
qed simp

lemma servers_of_facts:
  assumes "registered_ok standalone hybrid" "set ps \<subseteq> set hybrid"
  shows "distinct (map fst (servers_of ps))" "fst ` set (servers_of ps) = rp_address ` snd ` set ps"
    "\<And>rid r. (rid, r) \<in> set ps \<Longrightarrow> map_of (servers_of ps) (rp_address r) = Some (rp_handle r)"
proof -
  show "distinct (map fst (servers_of ps))" "fst ` set (servers_of ps) = rp_address ` snd ` set ps"
    using fold_update_facts [of "[]" ps] by (simp_all add: servers_of_def)
  fix rid r
  assume r: "(rid, r) \<in> set ps"
  have "\<forall>q\<in>set ps. rp_address (snd q) = rp_address r \<longrightarrow> rp_handle (snd q) = rp_handle r"
  proof (intro ballI impI)
    fix q
    assume q: "q \<in> set ps" "rp_address (snd q) = rp_address r"
    have "snd q \<in> snd ` set hybrid" "r \<in> snd ` set hybrid" using assms(2) q(1) r by force+
    then have "snd q = r" using registered_unique [OF assms(1), of "snd q" r] q(2) by blast
    then show "rp_handle (snd q) = rp_handle r" by simp
  qed
  moreover have "rp_address r \<in> rp_address ` snd ` set ps" using r by (metis image_eqI snd_conv)
  ultimately show "map_of (servers_of ps) (rp_address r) = Some (rp_handle r)"
    unfolding servers_of_def by (intro fold_update_lookup) simp_all
qed

lemma add_keeps_manager:
  assumes "manager_ok standalone m"
  shows "manager_ok standalone (snd (add_replicas rpc_ok rids m))"
proof (cases "servers_of (addable m rids) = [] \<or> \<not> rpc_ok")
  case False
  let ?ps = "addable m rids"
  let ?m = "m\<lparr>sm_balancer := add_servers (servers_of ?ps) (sm_balancer m)\<rparr>"
  have reg: "registered_ok standalone (sm_hybrid m)" and lists: "lists_ok standalone m" and pool: "pool_ok m"
    using assms by (simp_all add: manager_ok_def)
  have res: "snd (add_replicas rpc_ok rids m) = fold add_one ?ps ?m"
    using False by (simp add: add_replicas_def servers_of_def Let_def)
  have lists1: "lists_ok standalone ?m" using lists by (simp add: lists_ok_def)
  have all: "lists_ok standalone (fold add_one ?ps ?m)" "sm_hybrid (fold add_one ?ps ?m) = sm_hybrid m"
    "set (sm_alive (fold add_one ?ps ?m)) = set ?ps \<union> set (sm_alive m)"
    "sm_balancer (fold add_one ?ps ?m) = add_servers (servers_of ?ps) (sm_balancer m)"
    using lists_ok_add_all [of standalone ?m ?ps] reg lists1 addable_subset [of m rids] by simp_all
  note facts = servers_of_facts [OF reg addable_subset [of m rids]]
  have addr: "set (sm_addresses (fold add_one ?ps ?m)) = rp_address ` snd ` set ?ps \<union> set (sm_addresses m)"
    unfolding addresses_of_lists [OF all(1)] addresses_of_lists [OF lists] all(3) by auto
  have handle: "map_of (lb_servers (add_servers (servers_of ?ps) (sm_balancer m))) (rp_address r) = Some (rp_handle r)"
    if r: "r \<in> set (sm_replicas (fold add_one ?ps ?m))" for r
  proof (cases "rp_address r \<in> rp_address ` snd ` set ?ps")
    case True
    then obtain rid r' where r': "(rid, r') \<in> set ?ps" "rp_address r = rp_address r'" by force
    have hyb: "r' \<in> snd ` set (sm_hybrid m)" using r'(1) addable_subset [of m rids] by force
    have "r \<in> snd ` set (sm_hybrid m) \<union> set standalone"
      using r all(1-3) lists addable_subset [of m rids] by (auto simp: lists_ok_def)
    then have "r' = r" using registered_unique [OF reg hyb] r'(2) by simp
    then have "map_of (servers_of ?ps) (rp_address r) = Some (rp_handle r)" using facts(3) r'(1) by blast
    then show ?thesis unfolding add_servers_lookup [OF facts(1)] by simp
  next
    case False
    then have "map_of (servers_of ?ps) (rp_address r) = None" using facts(2) by (metis map_of_eq_None_iff)
    moreover have "r \<in> set (sm_replicas m)"
      using r False all(1,3) lists by (auto simp: lists_ok_def)
    ultimately show ?thesis using pool unfolding add_servers_lookup [OF facts(1)] pool_ok_def by simp
  qed
  have "pool_ok (fold add_one ?ps ?m)"
    using pool handle addr unfolding pool_ok_def all(4) add_servers_keys facts(2) by simp
  then show ?thesis using res all(1,2) reg by (simp add: manager_ok_def)
qed (use assms in \<open>auto simp: add_replicas_def servers_of_def Let_def\<close>)

lemma remove_keeps_manager:
  assumes "manager_ok standalone m" "distinct rids"
  shows "manager_ok standalone (snd (remove_replicas rpc_ok rids m))"
proof -
  let ?valid = "filter (\<lambda>rid. rid \<in> fst ` set (sm_alive m)) rids"
  let ?ids = "map (\<lambda>rid. the (map_of (sm_alive_addresses m) rid)) ?valid"
  let ?m = "m\<lparr>sm_balancer := remove_servers ?ids (sm_balancer m)\<rparr>"
  have reg: "registered_ok standalone (sm_hybrid m)" and lists: "lists_ok standalone m" and pool: "pool_ok m"
    using assms by (simp_all add: manager_ok_def)
  have "lists_ok standalone ?m" using lists by (simp add: lists_ok_def)
  moreover have "distinct ?valid" "set ?valid \<subseteq> fst ` set (sm_alive ?m)" using assms(2) by auto
  ultimately obtain m' where m': "remove_loop ?valid ?m = (True, m')" "lists_ok standalone m'" "sm_hybrid m' = sm_hybrid m"
    "sm_balancer m' = remove_servers ?ids (sm_balancer m)" "set (sm_alive m') = {p \<in> set (sm_alive m). fst p \<notin> set ?valid}"
    "set (sm_addresses m') = set (sm_addresses m) - rp_address ` snd ` {p \<in> set (sm_alive m). fst p \<in> set ?valid}"
    using lists_ok_remove_all [of standalone ?m ?valid] reg by auto
  have look: "the (map_of (sm_alive_addresses m) rid) = rp_address r" if "(rid, r) \<in> set (sm_alive m)" for rid r
    using lists that by (simp add: lists_ok_def map_of_map)
  have ids: "set ?ids = rp_address ` snd ` {p \<in> set (sm_alive m). fst p \<in> set ?valid}"
    using look by (force simp: image_iff)
  have "pool_ok m'"
  proof -
    have "set (sm_replicas m') \<subseteq> set (sm_replicas m)"
      using m'(2,5) lists by (auto simp: lists_ok_def)
    moreover have "rp_address ` set (sm_replicas m') = set (sm_addresses m) - set ?ids"
      using m'(2,6) unfolding ids by (simp add: lists_ok_def)
    ultimately have "map_of (lb_servers (sm_balancer m')) (rp_address r) = Some (rp_handle r)"
      if "r \<in> set (sm_replicas m')" for r
      using that pool unfolding m'(4) pool_ok_def by (subst remove_servers_lookup) auto
    then show ?thesis using pool unfolding pool_ok_def m'(4,6) remove_servers_keys ids by simp
  qed
  then have "manager_ok standalone m'" using m'(2,3) reg by (simp add: manager_ok_def)
  then show ?thesis using assms(1) m'(1) by (simp add: remove_replicas_def Let_def)
qed

text \<open>A decimal numeral can be read back, so the identifiers of the hybrid replicas differ.\<close>

definition numeral_value :: "string \<Rightarrow> nat" where
  "numeral_value ds = foldl (\<lambda>v c. 10 * v + (code_point c - 48)) 0 ds"

lemma numeral_value_str_nat: "numeral_value (str_nat n) = n"
proof (induction n rule: str_nat.induct)
  case (1 n)
  then show ?case by (subst str_nat.simps) (simp add: numeral_value_def)
qed

lemma resource_id_inj: "resource_id i = resource_id j \<Longrightarrow> i = j"
  by (metis numeral_value_str_nat resource_id_def same_append_eq)

lemma new_manager_ok:
  assumes "new_manager ops hybrid standalone = Inr m" "distinct (map rp_address (hybrid @ standalone))"
  shows "manager_ok standalone m"
proof -
  let ?hybrid = "map (\<lambda>(i, r). (resource_id i, r)) (zip [0..<length hybrid] hybrid)"
  have m: "m = \<lparr>sm_hybrid = ?hybrid, sm_alive = [], sm_alive_addresses = [], sm_replicas = standalone,
      sm_addresses = map rp_address standalone, sm_handles = map rp_handle standalone,
      sm_balancer = \<lparr>lb_servers = map (\<lambda>r. (rp_address r, rp_handle r)) standalone,
        lb_inflight = map (\<lambda>r. (rp_address r, 0)) standalone, lb_routes = co_empty ops\<rparr>\<rparr>"
    using assms(1) by (auto simp: new_manager_def new_balancer_def comp_def split: if_splits)
  have "map fst ?hybrid = map resource_id [0..<length hybrid]"
    by (rule nth_equalityI) simp_all
  moreover have "inj_on resource_id (set [0..<length hybrid])" by (rule inj_onI) (rule resource_id_inj)
  ultimately have keys: "distinct (map fst ?hybrid)" by (metis distinct_map distinct_upt)
  have snds: "map snd ?hybrid = hybrid" by (rule nth_equalityI) simp_all
  have "registered_ok standalone ?hybrid"
    unfolding registered_ok_def snds using keys assms(2) by simp
  moreover have "map_of (map (\<lambda>r. (rp_address r, rp_handle r)) standalone) (rp_address r) = Some (rp_handle r)"
    if "r \<in> set standalone" for r
    using assms(2) that by (intro map_of_is_SomeI) (auto simp: comp_def)
  ultimately show ?thesis
    using assms(2) by (auto simp: m manager_ok_def lists_ok_def pool_ok_def image_image comp_def)
qed

datatype manager_op = AddReplicas bool "string list" | RemoveReplicas bool "string list"

fun manager_step :: "manager_op \<Rightarrow> ('h, 'c) server_manager \<Rightarrow> ('h, 'c) server_manager" where
  "manager_step (AddReplicas ok rids) m = snd (add_replicas ok rids m)"
| "manager_step (RemoveReplicas ok rids) m = snd (remove_replicas ok rids m)"

fun op_distinct :: "manager_op \<Rightarrow> bool" where
  "op_distinct (AddReplicas ok rids) = True"
| "op_distinct (RemoveReplicas ok rids) = distinct rids"

lemma manager_run_ok:
  "manager_ok standalone m \<Longrightarrow> list_all op_distinct acts \<Longrightarrow> manager_ok standalone (fold manager_step acts m)"
proof (induction acts arbitrary: m)
  case (Cons act acts)
  then have "manager_ok standalone (manager_step act m)"
    using add_keeps_manager remove_keeps_manager by (cases act) auto
  then show ?case using Cons by simp
qed simp

lemma replicas_counted:
  assumes "manager_ok standalone m" "distinct standalone"
  shows "length (sm_replicas m) = length standalone + get_num_hybrid_replicas m"
proof -
  have reg: "registered_ok standalone (sm_hybrid m)" and lists: "lists_ok standalone m"
    using assms(1) by (simp_all add: manager_ok_def)
  have alive: "set (sm_alive m) \<subseteq> set (sm_hybrid m)" using lists by (auto simp: lists_ok_def)
  have inj: "inj_on snd (set (sm_alive m))"
  proof (rule inj_onI)
    fix p q
    assume pq: "p \<in> set (sm_alive m)" "q \<in> set (sm_alive m)" "snd p = snd q"
    have "(fst p, snd p) \<in> set (sm_hybrid m)" using alive pq(1) by auto
    moreover have "(fst q, snd p) \<in> set (sm_hybrid m)" unfolding pq(3) using alive pq(2) by auto
    ultimately have "fst p = fst q" by (rule registered_rid_unique [OF reg])
    then show "p = q" using pq(3) by (rule prod_eqI)
  qed
  have "length (sm_replicas m) = card (set (sm_replicas m))"
    using lists by (metis distinct_card distinct_map lists_ok_def)
  also have "\<dots> = card (set standalone) + card (snd ` set (sm_alive m))"
    using lists alive not_standalone [OF reg] by (subst card_Un_disjoint [symmetric]) (auto simp: lists_ok_def)
  also have "\<dots> = length standalone + length (sm_alive m)"
  proof -
    have "distinct (sm_alive m)" using lists by (auto simp: lists_ok_def distinct_map)
    then show ?thesis using inj assms(2) by (simp add: card_image distinct_card)
  qed
  finally show ?thesis by (simp add: get_num_hybrid_replicas_def)
qed

text \<open>C29. Whatever is added to and removed from the servers of the fully asynchronous trainer, whether the
  load balancer answers or fails, as long as no call to remove names a replica twice: the lists of
  addresses and handles are those of the serving replicas, in their order; the load balancer serves
  exactly these addresses, each with its handle; and the serving replicas are the standalone ones and
  the alive hybrid ones, each once.
\<close>

theorem replicas_match_pool:
  assumes "new_manager ops hybrid standalone = Inr m0" "distinct (map rp_address (hybrid @ standalone))"
    "list_all op_distinct acts" "m = fold manager_step acts m0"
  shows "sm_addresses m = map rp_address (sm_replicas m) \<and> sm_handles m = map rp_handle (sm_replicas m) \<and>
    set (get_all_servers (sm_balancer m)) = set (sm_addresses m) \<and>
    (\<forall>r\<in>set (sm_replicas m). map_of (lb_servers (sm_balancer m)) (rp_address r) = Some (rp_handle r)) \<and>
    set (sm_replicas m) = set standalone \<union> snd ` set (sm_alive m) \<and>
    length (sm_replicas m) = length standalone + get_num_hybrid_replicas m"
proof -
  have ok: "manager_ok standalone m"
    unfolding assms(4) by (rule manager_run_ok [OF new_manager_ok [OF assms(1,2)] assms(3)])
  then have lists: "lists_ok standalone m" and pool: "pool_ok m" by (simp_all add: manager_ok_def)
  have "distinct standalone" using assms(2) by (auto simp: distinct_map)
  from replicas_counted [OF ok this] show ?thesis
    using lists pool by (auto simp: lists_ok_def pool_ok_def get_all_servers_def)
qed

text \<open>
  The number of active servers that is reported is not that of the serving replicas: it counts every
  alive hybrid replica twice.
\<close>

lemma active_count_doubles_hybrid:
  assumes "manager_ok standalone m" "distinct standalone"
  shows "get_active_server_count m = length standalone + 2 * get_num_hybrid_replicas m"
  using replicas_counted [OF assms] by (simp add: get_active_server_count_def get_num_hybrid_replicas_def)

definition hybrid_two :: "nat replica list" where
  "hybrid_two = [\<lparr>rp_rank = 0, rp_address = ''h0'', rp_handle = 10\<rparr>, \<lparr>rp_rank = 1, rp_address = ''h1'', rp_handle = 11\<rparr>]"

definition standalone_one :: "nat replica list" where
  "standalone_one = [\<lparr>rp_rank = 2, rp_address = ''s0'', rp_handle = 12\<rparr>]"

definition sample_server_manager :: "(nat, (string \<times> string) list) server_manager" where
  "sample_server_manager = (case new_manager (lru_cache 3) hybrid_two standalone_one of Inr m \<Rightarrow> m)"

definition sample_server_ops :: "manager_op list" where
  "sample_server_ops =
     [AddReplicas True [''hybrid_0'', ''hybrid_1'', ''hybrid_0'', ''nobody''], RemoveReplicas False [''hybrid_1''],
      RemoveReplicas True [''hybrid_0'', ''nobody'']]"

theorem replicas_match_pool_witness:
  "new_manager (lru_cache 3) hybrid_two standalone_one = Inr sample_server_manager \<and>
    sm_addresses (fold manager_step sample_server_ops sample_server_manager) = [''s0'', ''h1''] \<and>
    length (sm_replicas (fold manager_step sample_server_ops sample_server_manager)) = 2 \<and>
    set (get_all_servers (sm_balancer (fold manager_step sample_server_ops sample_server_manager))) = {''s0'', ''h1''}"
proof -
  have new: "new_manager (lru_cache 3) hybrid_two standalone_one = Inr sample_server_manager"
    by (simp add: sample_server_manager_def new_manager_def new_balancer_def standalone_one_def)
  have "distinct (map rp_address (hybrid_two @ standalone_one))" by (simp add: hybrid_two_def standalone_one_def)
  moreover have "list_all op_distinct sample_server_ops" by (simp add: sample_server_ops_def)
  moreover have "sm_addresses (fold manager_step sample_server_ops sample_server_manager) = [''s0'', ''h1'']"
    "get_num_hybrid_replicas (fold manager_step sample_server_ops sample_server_manager) = 1"
    by code_simp+
  ultimately show ?thesis
    using new replicas_match_pool [OF new _ _ refl, of sample_server_ops] by (simp add: standalone_one_def)
qed

text \<open>Removing a replica twice in one call: the load balancer drops both, the manager still lists the other.\<close>

lemma remove_twice_inconsistent:
  "(case remove_replicas True [''hybrid_0'', ''hybrid_0'', ''hybrid_1'']
      (manager_step (AddReplicas True [''hybrid_0'', ''hybrid_1'']) sample_server_manager) of
      (n, m) \<Rightarrow> n = 0 \<and> map fst (sm_alive m) = [''hybrid_1''] \<and> sm_addresses m = [''s0'', ''h1''] \<and>
        get_all_servers (sm_balancer m) = [''s0''])"
  by code_simp

end
