(* ===== verification/AsyncTrainer.thy ===== *)
theory AsyncTrainer
  imports PyString Complex_Main "HOL-Library.AList"
begin

text \<open>
  The trainer of the fully asynchronous mode (\<open>verl/experimental/fully_async_policy/fully_async_trainer.py\<close>):
  batches collected from the message queue, the version of the parameters, when they are sent to the
  rollouter, validated and saved, and the aggregation of metrics between two versions
  (\<open>detach_utils.py\<close>). The update of the model itself is outside; what was sent, validated and saved is
  recorded by its version.
\<close>

section \<open>Batches\<close>

text \<open>
  \<open>get_sample\<close> answers with a sample or the finish signal; the replies are a list, and \<open>None\<close> means that
  the trainer waits for ever. The result has the samples and the replies not used.
\<close>

fun collect_samples :: "nat \<Rightarrow> 'a option list \<Rightarrow> ('a list \<times> 'a option list) option" where
  "collect_samples 0 rs = Some ([], rs)"
| "collect_samples (Suc n) [] = None"
| "collect_samples (Suc n) (None # rs) = Some ([], rs)"
| "collect_samples (Suc n) (Some x # rs) =
     (case collect_samples n rs of None \<Rightarrow> None | Some (xs, rest) \<Rightarrow> Some (x # xs, rest))"

text \<open>\<open>_get_samples_from_queue\<close>: fewer samples than required are thrown away.\<close>

definition get_samples :: "nat \<Rightarrow> 'a option list \<Rightarrow> ('a list option \<times> 'a option list) option" where
  "get_samples required rs =
     (case collect_samples required rs of
        None \<Rightarrow> None
      | Some (xs, rest) \<Rightarrow> Some (if xs = [] \<or> length xs < required then None else Some xs, rest))"

lemma collect_samples_shorter:
  "collect_samples n rs = Some (xs, rest) \<Longrightarrow> length rest + length xs \<le> length rs"
  by (induction n rs arbitrary: xs rest rule: collect_samples.induct) (auto split: option.splits)

lemma get_samples_shorter:
  assumes "get_samples n rs = Some (Some xs, rest)"
  shows "length rest < length rs"
proof -
  have "collect_samples n rs = Some (xs, rest)" "xs \<noteq> []"
    using assms by (auto simp: get_samples_def split: option.splits if_splits)
  then show ?thesis using collect_samples_shorter [of n rs xs rest] by (cases xs) auto
qed

section \<open>The trainer\<close>

record trainer_config =
  tc_required :: nat
  tc_trigger :: nat
  tc_test_freq :: int
  tc_save_freq :: int

record 'a async_trainer =
  tr_local :: nat
  tr_version :: nat
  tr_steps :: nat
  tr_last_ckpt :: nat
  tr_sent :: "nat list"
  tr_validated :: "nat list"
  tr_saved :: "nat list"
  tr_batches :: "'a list list"

definition new_trainer :: "'a async_trainer" where
  "new_trainer = \<lparr>tr_local = 1, tr_version = 0, tr_steps = 0, tr_last_ckpt = 0,
                  tr_sent = [], tr_validated = [], tr_saved = [], tr_batches = []\<rparr>"

text \<open>\<open>load_checkpoint\<close> of version \<open>v\<close>.\<close>

definition resume_trainer :: "trainer_config \<Rightarrow> nat \<Rightarrow> 'a async_trainer \<Rightarrow> 'a async_trainer" where
  "resume_trainer c v t = t\<lparr>tr_version := v, tr_steps := v * tc_trigger c + 1, tr_last_ckpt := v\<rparr>"

definition fit_update_local_step :: "trainer_config \<Rightarrow> 'a async_trainer \<Rightarrow> 'a async_trainer" where
  "fit_update_local_step c t =
     (if tr_local t < tc_trigger c then t\<lparr>tr_local := tr_local t + 1\<rparr>
      else t\<lparr>tr_version := tr_version t + 1, tr_local := 1\<rparr>)"

definition fit_update_weights :: "'a async_trainer \<Rightarrow> 'a async_trainer" where
  "fit_update_weights t = (if tr_local t \<noteq> 1 then t else t\<lparr>tr_sent := tr_sent t @ [tr_version t]\<rparr>)"

definition need_validate :: "trainer_config \<Rightarrow> nat \<Rightarrow> bool" where
  "need_validate c v \<longleftrightarrow> 0 < tc_test_freq c \<and> int v mod tc_test_freq c = 0 \<and> 0 < v"

definition fit_validate :: "trainer_config \<Rightarrow> bool \<Rightarrow> 'a async_trainer \<Rightarrow> 'a async_trainer" where
  "fit_validate c before_train t =
     (if tr_local t \<noteq> 1 then t
      else if \<not> need_validate c (tr_version t) \<and> \<not> before_train then t
      else t\<lparr>tr_validated := tr_validated t @ [tr_version t]\<rparr>)"

text \<open>\<open>esi\<close>: the machine is about to be taken away (\<open>should_save_ckpt_esi\<close>).\<close>

definition fit_save_checkpoint :: "trainer_config \<Rightarrow> bool \<Rightarrow> bool \<Rightarrow> 'a async_trainer \<Rightarrow> 'a async_trainer" where
  "fit_save_checkpoint c esi force t =
     (if tr_version t = tr_last_ckpt t then t
      else if 0 < tc_save_freq c \<and> (force \<or> int (tr_version t) mod tc_save_freq c = 0 \<or> esi)
      then t\<lparr>tr_saved := tr_saved t @ [tr_version t], tr_last_ckpt := tr_version t\<rparr>
      else t)"

definition fit_postprocess_step :: "'a async_trainer \<Rightarrow> 'a async_trainer" where
  "fit_postprocess_step t = t\<lparr>tr_steps := tr_steps t + 1\<rparr>"

text \<open>\<open>fit_step\<close> once it has its batch.\<close>

definition fit_step :: "trainer_config \<Rightarrow> (nat \<Rightarrow> bool) \<Rightarrow> 'a list \<Rightarrow> 'a async_trainer \<Rightarrow> 'a async_trainer" where
  "fit_step c esi xs t =
     fit_postprocess_step
       (fit_save_checkpoint c (esi (tr_steps t)) False
         (fit_validate c False
           (fit_update_weights
             (fit_update_local_step c (t\<lparr>tr_batches := tr_batches t @ [xs]\<rparr>)))))"

function fit_loop ::
  "trainer_config \<Rightarrow> (nat \<Rightarrow> bool) \<Rightarrow> 'a option list \<Rightarrow> 'a async_trainer \<Rightarrow> 'a async_trainer option" where
  "fit_loop c esi rs t =
     (case get_samples (tc_required c) rs of
        None \<Rightarrow> None
      | Some (None, rest) \<Rightarrow> Some t
      | Some (Some xs, rest) \<Rightarrow> fit_loop c esi rest (fit_step c esi xs t))"
  by pat_completeness auto
termination
  by (relation "measure (\<lambda>(c, esi, rs, t). length rs)") (auto dest!: get_samples_shorter)

declare fit_loop.simps [simp del]

text \<open>The end of \<open>fit\<close>: the last version is sent and validated if it was not, and saved.\<close>

definition fit_end :: "trainer_config \<Rightarrow> 'a async_trainer \<Rightarrow> 'a async_trainer res" where
  "fit_end c t =
     (if tc_test_freq c = 0 then Inl ZeroDivisionError
      else let t1 = (if int (tr_version t) mod tc_test_freq c \<noteq> 0 \<or> 1 < tr_local t
                     then fit_validate c False (fit_update_weights t) else t)
           in Inr (fit_save_checkpoint c False True t1))"

definition fit :: "trainer_config \<Rightarrow> (nat \<Rightarrow> bool) \<Rightarrow> 'a option list \<Rightarrow> 'a async_trainer \<Rightarrow> 'a async_trainer res option" where
  "fit c esi rs t =
     (case fit_loop c esi rs (t\<lparr>tr_steps := tr_steps t + 1\<rparr>) of
        None \<Rightarrow> None
      | Some t1 \<Rightarrow> Some (fit_end c t1))"

section \<open>Versions\<close>

text \<open>The batches of a sequence of samples: the full ones.\<close>

definition full_batches :: "nat \<Rightarrow> 'a list \<Rightarrow> 'a list list" where
  "full_batches n xs = take (length xs div n) (chunks_of n xs)"

lemma collect_full: "n \<le> length xs \<Longrightarrow> collect_samples n (map Some xs @ rs) = Some (take n xs, map Some (drop n xs) @ rs)"
proof (induction n arbitrary: xs)
  case (Suc n)
  then show ?case by (cases xs) auto
qed simp

lemma collect_short: "length xs < n \<Longrightarrow> collect_samples n (map Some xs @ None # rs) = Some (xs, rs)"
proof (induction n arbitrary: xs)
  case (Suc n)
  then show ?case by (cases xs) auto
qed simp

lemma fit_loop_batches:
  assumes "0 < tc_required c"
  shows "fit_loop c esi (map Some xs @ None # rs) t = Some (fold (fit_step c esi) (full_batches (tc_required c) xs) t)"
proof (induction "length xs" arbitrary: xs t rule: less_induct)
  case less
  let ?n = "tc_required c"
  show ?case
  proof (cases "length xs < ?n")
    case True
    then have "get_samples ?n (map Some xs @ None # rs) = Some (None, rs)"
      by (simp add: get_samples_def collect_short)
    then show ?thesis using True by (simp add: fit_loop.simps full_batches_def)
  next
    case False
    then have ne: "xs \<noteq> []" using assms by auto
    have "get_samples ?n (map Some xs @ None # rs) = Some (Some (take ?n xs), map Some (drop ?n xs) @ None # rs)"
      using False ne assms by (simp add: get_samples_def collect_full)
    then have "fit_loop c esi (map Some xs @ None # rs) t =
      Some (fold (fit_step c esi) (full_batches ?n (drop ?n xs)) (fit_step c esi (take ?n xs) t))"
      using less.hyps [of "drop ?n xs"] ne assms by (simp add: fit_loop.simps [of c esi "map Some xs @ None # rs"])
    moreover have "full_batches ?n xs = take ?n xs # full_batches ?n (drop ?n xs)"
      using False ne assms by (simp add: full_batches_def chunks_of.simps [of ?n xs] le_div_geq)
    ultimately show ?thesis by simp
  qed
qed

lemma save_checkpoint_frame [simp]:
  "tr_local (fit_save_checkpoint c e f t) = tr_local t" "tr_version (fit_save_checkpoint c e f t) = tr_version t"
  "tr_steps (fit_save_checkpoint c e f t) = tr_steps t" "tr_sent (fit_save_checkpoint c e f t) = tr_sent t"
  "tr_validated (fit_save_checkpoint c e f t) = tr_validated t" "tr_batches (fit_save_checkpoint c e f t) = tr_batches t"
  by (simp_all add: fit_save_checkpoint_def)

lemma fit_step_same_version:
  assumes "tr_local t < tc_trigger c" "0 < tr_local t"
  shows "tr_local (fit_step c esi b t) = tr_local t + 1" "tr_version (fit_step c esi b t) = tr_version t"
    "tr_steps (fit_step c esi b t) = tr_steps t + 1" "tr_sent (fit_step c esi b t) = tr_sent t"
    "tr_validated (fit_step c esi b t) = tr_validated t" "tr_batches (fit_step c esi b t) = tr_batches t @ [b]"
  using assms
  by (simp_all add: fit_step_def fit_postprocess_step_def fit_validate_def fit_update_weights_def fit_update_local_step_def)

lemma fit_step_next_version:
  assumes "\<not> tr_local t < tc_trigger c"
  shows "tr_local (fit_step c esi b t) = 1" "tr_version (fit_step c esi b t) = tr_version t + 1"
    "tr_steps (fit_step c esi b t) = tr_steps t + 1" "tr_sent (fit_step c esi b t) = tr_sent t @ [tr_version t + 1]"
    "tr_validated (fit_step c esi b t) = tr_validated t @ filter (need_validate c) [tr_version t + 1]"
    "tr_batches (fit_step c esi b t) = tr_batches t @ [b]"
  using assms
  by (simp_all add: fit_step_def fit_postprocess_step_def fit_validate_def fit_update_weights_def fit_update_local_step_def)

lemma fit_steps_state:
  assumes "0 < tc_trigger c" "tr_local t = 1"
  shows "let k = length bs; t' = fold (fit_step c esi) bs t
    in tr_local t' = k mod tc_trigger c + 1 \<and>
       tr_version t' = tr_version t + k div tc_trigger c \<and>
       tr_steps t' = tr_steps t + k \<and>
       tr_sent t' = tr_sent t @ [tr_version t + 1..<tr_version t' + 1] \<and>
       tr_validated t' = tr_validated t @ filter (need_validate c) [tr_version t + 1..<tr_version t' + 1] \<and>
       tr_batches t' = tr_batches t @ bs"
proof (induction bs rule: rev_induct)
  case Nil
  then show ?case using assms(2) by simp
next
  case (snoc b bs)
  define t1 where "t1 = fold (fit_step c esi) bs t"
  have t1: "tr_local t1 = length bs mod tc_trigger c + 1" "tr_version t1 = tr_version t + length bs div tc_trigger c"
    "tr_steps t1 = tr_steps t + length bs" "tr_sent t1 = tr_sent t @ [tr_version t + 1..<tr_version t1 + 1]"
    "tr_validated t1 = tr_validated t @ filter (need_validate c) [tr_version t + 1..<tr_version t1 + 1]"
    "tr_batches t1 = tr_batches t @ bs"
    using snoc.IH by (simp_all add: Let_def t1_def)
  have lt: "length bs mod tc_trigger c < tc_trigger c" using assms(1) by simp
  show ?case
  proof (cases "Suc (length bs mod tc_trigger c) = tc_trigger c")
    case True
    then have "Suc (length bs) mod tc_trigger c = 0" "Suc (length bs) div tc_trigger c = Suc (length bs div tc_trigger c)"
      by (simp_all add: mod_Suc div_Suc)
    moreover have "\<not> tr_local t1 < tc_trigger c" using True t1(1) by simp
    ultimately show ?thesis
      using t1 by (simp add: t1_def [symmetric] fit_step_next_version Let_def)
  next
    case False
    then have "Suc (length bs) mod tc_trigger c = Suc (length bs mod tc_trigger c)" "Suc (length bs) div tc_trigger c = length bs div tc_trigger c"
      by (simp_all add: mod_Suc div_Suc)
    moreover have "tr_local t1 < tc_trigger c" "0 < tr_local t1" using False lt t1(1) by simp_all
    ultimately show ?thesis
      using t1 by (simp add: t1_def [symmetric] fit_step_same_version Let_def)
  qed
qed

lemma length_full_batches: "0 < n \<Longrightarrow> length (full_batches n xs) = length xs div n"
  by (simp add: full_batches_def length_chunks_of div_le_mono)

text \<open>C30. A run of the fully asynchronous trainer ends when the finish signal comes. It has trained on the
  full batches of the samples in their order (an incomplete last batch is thrown away); every
  \<open>trigger_parameter_sync_step\<close> batches make a version, which is sent to the rollouter once, in order, and
  validated if its number asks for it; and the last version is saved. The final block of \<open>fit\<close> validates
  nothing, whatever the configuration, and the updates since the last version are not sent: at most it
  sends the last version a second time.
\<close>

theorem trainer_versions:
  assumes "0 < tc_required c" "0 < tc_trigger c" "tc_test_freq c \<noteq> 0" "tr_local t0 = 1"
  shows "\<exists>t. fit c esi (map Some xs @ None # rs) t0 = Some (Inr t) \<and>
    (let k = length xs div tc_required c; v0 = tr_version t0; v = v0 + k div tc_trigger c
     in tr_batches t = tr_batches t0 @ full_batches (tc_required c) xs \<and>
        length (full_batches (tc_required c) xs) = k \<and>
        tr_version t = v \<and> tr_local t = k mod tc_trigger c + 1 \<and> tr_steps t = tr_steps t0 + 1 + k \<and>
        tr_sent t = tr_sent t0 @ [v0 + 1..<v + 1] @
          (if int v mod tc_test_freq c \<noteq> 0 \<and> k mod tc_trigger c = 0 then [v] else []) \<and>
        tr_validated t = tr_validated t0 @ filter (need_validate c) [v0 + 1..<v + 1] \<and>
        (0 < tc_save_freq c \<longrightarrow> tr_last_ckpt t = v))"
proof -
  let ?bs = "full_batches (tc_required c) xs"
  define t1 where "t1 = fold (fit_step c esi) ?bs (t0\<lparr>tr_steps := tr_steps t0 + 1\<rparr>)"
  note t1 = fit_steps_state [of c "t0\<lparr>tr_steps := tr_steps t0 + 1\<rparr>" ?bs esi, folded t1_def, unfolded Let_def]
  have loop: "fit c esi (map Some xs @ None # rs) t0 = Some (fit_end c t1)"
    by (simp add: fit_def fit_loop_batches [OF assms(1)] t1_def)
  define t where "t = fit_save_checkpoint c False True
    (if int (tr_version t1) mod tc_test_freq c \<noteq> 0 \<or> 1 < tr_local t1 then fit_validate c False (fit_update_weights t1) else t1)"
  have "fit_end c t1 = Inr t" using assms(3) by (simp add: fit_end_def t_def Let_def)
  moreover have "0 < tc_save_freq c \<longrightarrow> tr_last_ckpt t = tr_version t1"
    by (simp add: t_def fit_save_checkpoint_def fit_validate_def fit_update_weights_def)
  moreover have "tr_validated t = tr_validated t1" "tr_version t = tr_version t1" "tr_local t = tr_local t1"
    "tr_steps t = tr_steps t1" "tr_batches t = tr_batches t1"
    "tr_sent t = tr_sent t1 @ (if int (tr_version t1) mod tc_test_freq c \<noteq> 0 \<and> tr_local t1 = 1 then [tr_version t1] else [])"
    by (auto simp: t_def fit_validate_def fit_update_weights_def need_validate_def)
  ultimately show ?thesis
    using t1 assms(2,4) loop length_full_batches [OF assms(1), of xs] by (simp add: Let_def)
qed

definition sample_trainer_config :: trainer_config where
  "sample_trainer_config = \<lparr>tc_required = 2, tc_trigger = 2, tc_test_freq = 1, tc_save_freq = 1\<rparr>"

theorem trainer_versions_witness:
  "\<exists>t. fit sample_trainer_config (\<lambda>n. False) (map Some [1 :: nat, 2, 3, 4, 5, 6, 7] @ None # []) new_trainer = Some (Inr t) \<and>
    tr_version t = 1 \<and> tr_local t = Suc 1 \<and> tr_batches t = [[1, 2], [3, 4], [5, 6]] \<and> tr_sent t = [1] \<and> tr_validated t = [1]"
proof -
  have "full_batches 2 [1 :: nat, 2, 3, 4, 5, 6, 7] = [[1, 2], [3, 4], [5, 6]]" by code_simp
  then show ?thesis
    using trainer_versions [of sample_trainer_config "new_trainer :: nat async_trainer" "\<lambda>n. False" "[1, 2, 3, 4, 5, 6, 7]" "[]"]
    by (simp add: sample_trainer_config_def new_trainer_def Let_def need_validate_def) blast
qed

text \<open>
  A resumed run numbers its steps one higher than the run it continues: \<open>load_checkpoint\<close> sets the number
  of the next step, and \<open>fit\<close> adds one.
\<close>

lemma resumed_step_number:
  assumes "0 < tc_required c" "0 < tc_trigger c" "length xs = v * (tc_required c * tc_trigger c)"
  shows "\<exists>t. fit_loop c esi (map Some xs @ None # rs) (new_trainer\<lparr>tr_steps := 1\<rparr>) = Some t \<and> tr_version t = v \<and>
    tr_steps ((resume_trainer c v t)\<lparr>tr_steps := tr_steps (resume_trainer c v t) + 1\<rparr>) = tr_steps t + 1"
proof -
  define t where "t = fold (fit_step c esi) (full_batches (tc_required c) xs) (new_trainer\<lparr>tr_steps := 1\<rparr>)"
  have k: "length (full_batches (tc_required c) xs) = v * tc_trigger c"
    unfolding length_full_batches [OF assms(1)] assms(3) mult.left_commute [of v]
    by (rule nonzero_mult_div_cancel_left) (use assms(1) in simp)
  have start: "tr_local (new_trainer\<lparr>tr_steps := 1\<rparr>) = 1" by (simp add: new_trainer_def)
  have "tr_version t = 0 + v * tc_trigger c div tc_trigger c" "tr_steps t = 1 + v * tc_trigger c"
    using fit_steps_state [OF assms(2) start, of "full_batches (tc_required c) xs" esi, folded t_def]
    unfolding Let_def k by (simp_all add: new_trainer_def)
  then have "tr_version t = v" "tr_steps t = v * tc_trigger c + 1" using assms(2) by simp_all
  then show ?thesis
    using fit_loop_batches [OF assms(1), of esi xs rs "new_trainer\<lparr>tr_steps := 1\<rparr>", folded t_def]
    by (simp add: resume_trainer_def)
qed

section \<open>Metrics between two versions\<close>

text \<open>A metric is a number (or a tensor with one), or something the aggregator ignores.\<close>

record aggregator =
  ag_values :: "(string \<times> rat list) list"
  ag_counts :: "nat list"
  ag_steps :: nat
  ag_gpus :: rat

datatype aggregation = LastValue | TimeSum | Sum | Average | Maximum | Minimum | WeightedAverage

definition add_step_metrics :: "(string \<times> rat option) list \<Rightarrow> nat \<Rightarrow> aggregator \<Rightarrow> aggregator" where
  "add_step_metrics metrics sample_count a =
     a\<lparr>ag_counts := ag_counts a @ [sample_count], ag_steps := ag_steps a + 1,
       ag_values := fold (\<lambda>(name, v) vs.
         case v of
           None \<Rightarrow> vs
         | Some x \<Rightarrow> AList.update name ((case map_of vs name of None \<Rightarrow> [] | Some xs \<Rightarrow> xs) @ [x]) vs) metrics (ag_values a)\<rparr>"

text \<open>\<open>_init_aggregation_rules\<close>, then \<open>_get_aggregation_type\<close>.\<close>

definition aggregation_rules :: "(string \<times> aggregation) list" where
  "aggregation_rules =
     [(''perf/time_per_step'', TimeSum), (''timing_s/agent_loop/tool_calls/min'', Minimum),
      (''timing_s/agent_loop/tool_calls/mean'', Average), (''timing_s/agent_loop/tool_calls/max'', Maximum),
      (''fully_async/count/total_generated_samples'', LastValue), (''fully_async/count/stale_samples_processed'', LastValue),
      (''fully_async/count/stale_trajectory_processed'', LastValue), (''fully_async/count/current_param_version'', LastValue),
      (''fully_async/count/dropped_stale_samples'', LastValue), (''training/global_step'', LastValue)]"

definition contains_any :: "string \<Rightarrow> string list \<Rightarrow> bool" where
  "contains_any name words = list_ex (\<lambda>w. py_in w name) words"

definition get_aggregation_type :: "string \<Rightarrow> aggregation" where
  "get_aggregation_type name =
     (case map_of aggregation_rules name of
        Some a \<Rightarrow> a
      | None \<Rightarrow>
          (let m = py_lower name
           in if contains_any m [''timing_s/''] then TimeSum
              else if contains_any m [''mean'', ''avg'', ''average''] then Average
              else if contains_any m [''max'', ''maximum''] then Maximum
              else if contains_any m [''min'', ''minimum''] then Minimum
              else if contains_any m [''sum'', ''total''] then Sum
              else if contains_any m [''weighted_avg''] then WeightedAverage
              else Average))"

definition mean_value :: "rat list \<Rightarrow> rat" where
  "mean_value vs = sum_list vs / of_nat (length vs)"

definition aggregate_single_metric :: "nat list \<Rightarrow> string \<Rightarrow> rat list \<Rightarrow> rat" where
  "aggregate_single_metric counts name vs =
     (if vs = [] then 0
      else case get_aggregation_type name of
        LastValue \<Rightarrow> last vs
      | WeightedAverage \<Rightarrow>
          (if length vs \<noteq> length counts \<or> sum_list counts = 0 then mean_value vs
           else sum_list (map2 (\<lambda>v n. v * of_nat n) vs counts) / of_nat (sum_list counts))
      | Sum \<Rightarrow> sum_list vs
      | TimeSum \<Rightarrow> sum_list vs
      | Average \<Rightarrow> mean_value vs
      | Maximum \<Rightarrow> foldl max (hd vs) (tl vs)
      | Minimum \<Rightarrow> foldl min (hd vs) (tl vs))"

text \<open>\<open>_special_metrics_aggergate\<close>: three metrics are computed from others; a division by zero raises.\<close>

definition special_metrics :: "rat \<Rightarrow> (string \<times> rat) list \<Rightarrow> (string \<times> rat) list res" where
  "special_metrics gpus m =
     (let get = (\<lambda>m k. case map_of m k of None \<Rightarrow> Inl KeyError | Some x \<Rightarrow> Inr x);
          divide = (\<lambda>x y. if y = 0 then Inl ZeroDivisionError else Inr (x / y))
      in bind_res
           (if map_of m ''global_seqlen/minmax_diff'' = None then Inr m
            else bind_res (get m ''global_seqlen/max'') (\<lambda>x. bind_res (get m ''global_seqlen/min'')
                   (\<lambda>y. Inr (AList.update ''global_seqlen/minmax_diff'' (x - y) m))))
           (\<lambda>m1. bind_res
              (if map_of m1 ''perf/throughput'' = None \<or> map_of m1 ''perf/total_num_tokens'' = None \<or>
                  map_of m1 ''perf/time_per_step'' = None then Inr m1
               else bind_res (get m1 ''perf/total_num_tokens'') (\<lambda>x. bind_res (get m1 ''perf/time_per_step'')
                      (\<lambda>y. bind_res (divide x (y * gpus)) (\<lambda>z. Inr (AList.update ''perf/throughput'' z m1)))))
              (\<lambda>m2. if map_of m2 ''timing_s/gen'' = None \<or> map_of m2 ''timing_s/step'' = None then Inr m2
                    else bind_res (get m2 ''timing_s/gen'') (\<lambda>x. bind_res (get m2 ''timing_s/step'')
                           (\<lambda>y. bind_res (divide x y) (\<lambda>z. Inr (AList.update ''fully_async/trainer/idle_ratio'' z m2)))))))"

definition get_aggregated_metrics :: "aggregator \<Rightarrow> (string \<times> rat) list res" where
  "get_aggregated_metrics a =
     (if ag_steps a = 0 then Inr []
      else special_metrics (ag_gpus a)
             (map (\<lambda>(name, vs). (name, aggregate_single_metric (ag_counts a) name vs)) (ag_values a)))"

definition reset_aggregator :: "aggregator \<Rightarrow> aggregator" where
  "reset_aggregator a = a\<lparr>ag_values := [], ag_counts := [], ag_steps := 0\<rparr>"

text \<open>
  No metric is aggregated by the weighted average: every name with \<open>weighted_avg\<close> in it also has \<open>avg\<close>,
  which is asked for first. So every metric is treated in one of the other ways.
\<close>

lemma weighted_average_unused: "get_aggregation_type name \<noteq> WeightedAverage"
proof -
  have "py_in ''avg'' m" if "py_in ''weighted_avg'' m" for m
  proof -
    obtain a b where "m = a @ ''weighted_avg'' @ b" using \<open>py_in ''weighted_avg'' m\<close> by (auto simp: py_in_iff)
    then have "m = (a @ ''weighted_'') @ ''avg'' @ b" by simp
    then show ?thesis unfolding py_in_iff by blast
  qed
  moreover have "map_of aggregation_rules name \<noteq> Some WeightedAverage"
    by (auto simp: aggregation_rules_def split: if_splits)
  ultimately show ?thesis
    by (auto simp: get_aggregation_type_def contains_any_def Let_def split: option.splits)
qed

text \<open>Statistics of partial rollouts: the versions a trajectory began and ended with.\<close>

definition partial_stats :: "(int \<times> int) list \<Rightarrow> (nat \<times> rat \<times> int) res" where
  "partial_stats versions =
     (let diffs = map (\<lambda>(a, b). \<bar>b - a\<bar>) versions; partial = length diffs - count_list diffs 0
      in if diffs = [] then Inl ZeroDivisionError
         else Inr (partial, of_nat partial / of_nat (length diffs), foldl max (hd diffs) (tl diffs)))"

definition stale_trajectories :: "int \<Rightarrow> int list \<Rightarrow> nat" where
  "stale_trajectories current versions = length (filter (\<lambda>v. 1 \<le> current - v) versions)"

end
