(* ===== verification/ParallelEval.thy ===== *)
theory ParallelEval
  imports AsyncMemory
begin

text \<open>
  The client that evaluates the memory agent against a chat completion service
  (\<open>taskutils/memory_eval/utils/parallel_boxed.py\<close>): it reads a context in parallel chunks, merges what
  the chunks report and asks for the answer, as the training agent of theory \<open>AsyncMemory\<close> does, but
  every request can fail. The service is a function of the number, the text and the limit of a
  request; the model's name and the sampling parameters are the same in every request. The trace
  record and the printed progress are left out. \<open>TEMPLATE_CHUNK\<close>, \<open>TEMPLATE_MERGE\<close>,
  \<open>TEMPLATE_FINAL_BOXED\<close>, \<open>NO_MEMORY\<close> and the labels are those of theory \<open>MemoryConfig\<close>, character for
  character.
\<close>

section \<open>Service\<close>

text \<open>
  A response of the service: a status other than 200, any exception on the way to the reply, or the
  content of the first choice, which may be \<open>null\<close>.
\<close>

datatype api_reply = BadStatus int | ApiError | Content "string option"

type_synonym api = "nat \<Rightarrow> llm_request \<Rightarrow> api_reply"

definition query_single :: "api \<Rightarrow> nat \<Rightarrow> llm_request \<Rightarrow> string option" where
  "query_single api n request =
     (case api n request of
        BadStatus _ \<Rightarrow> None
      | ApiError \<Rightarrow> None
      | Content content \<Rightarrow> (case content of None \<Rightarrow> None | Some s \<Rightarrow> Some (py_strip s)))"

section \<open>Configuration, items and templates\<close>

text \<open>The constants of \<open>envs.py\<close>, which are read from the environment.\<close>

record eval_config =
  ec_max_context_len :: int
  ec_chunk_size :: int
  ec_max_new :: int
  ec_max_passes :: int
  ec_merge_max_tokens :: int

text \<open>An item of the evaluation; a missing \<open>answer_prefix\<close> is empty.\<close>

record eval_item =
  ei_context :: string
  ei_input :: string
  ei_answer_prefix :: string

definition NO_NEW_INFO_MARKER :: string where
  "NO_NEW_INFO_MARKER = ''<check>no</check>''"

definition TEMPLATE_CHUNK_WITH_ANSWER_PREFIX :: string where
  "TEMPLATE_CHUNK_WITH_ANSWER_PREFIX =
     ''You are presented with a problem, a section of an article, and a global memory summarizing previously gathered information. Please read the section carefully and determine whether the section contains new information relevant to answering the problem beyond what is already in the global memory. First, output your judgment in the format <check>yes</check> if there is new information, or <check>no</check> if there is none. Then, if there is new information, extract and list the key details.'' @
     [newline, newline] @
     ''<problem>'' @
     [newline] @
     fmt_field ''prompt'' @
     [newline, newline] @
     fmt_field ''answer_prefix'' @
     [newline] @
     ''</problem>'' @
     [newline, newline] @
     ''<memory>'' @
     [newline] @
     fmt_field ''memory'' @
     [newline] @
     ''</memory>'' @
     [newline, newline] @
     ''<section>'' @
     [newline] @
     fmt_field ''chunk'' @
     [newline] @
     ''</section>'' @
     [newline, newline] @
     ''Your response:'' @
     [newline]"

definition TEMPLATE_MERGE_WITH_ANSWER_PREFIX :: string where
  "TEMPLATE_MERGE_WITH_ANSWER_PREFIX =
     ''You are presented with a problem and key information extracted from multiple sections of an article. Please consolidate all the information into a single comprehensive memory. Remove redundancies and organize the information clearly, retaining all details relevant to answering the problem.'' @
     [newline, newline] @
     ''<problem>'' @
     [newline] @
     fmt_field ''prompt'' @
     [newline, newline] @
     fmt_field ''answer_prefix'' @
     [newline] @
     ''</problem>'' @
     [newline, newline] @
     ''<extracted_information>'' @
     [newline] @
     fmt_field ''memories'' @
     [newline] @
     ''</extracted_information>'' @
     [newline, newline] @
     ''Consolidated memory:'' @
     [newline]"

definition TEMPLATE_FINAL_BOXED_WITH_ANSWER_PREFIX :: string where
  "TEMPLATE_FINAL_BOXED_WITH_ANSWER_PREFIX =
     ''You are presented with a problem and a previous memory. Please answer the problem based on the previous memory and put the answer in '' @
     [CHR 0x5C] @
     ''boxed'' @
     [open_brace, open_brace] @
     [close_brace, close_brace] @
     ''.'' @
     [newline, newline] @
     ''<problem>'' @
     [newline] @
     fmt_field ''prompt'' @
     [newline] @
     ''</problem>'' @
     [newline, newline] @
     ''<memory>'' @
     [newline] @
     fmt_field ''memory'' @
     [newline] @
     ''</memory>'' @
     [newline, newline] @
     fmt_field ''answer_prefix'' @
     [newline]"

text \<open>The texts have a variant with an answer prefix, for the items that bring one.\<close>

definition eval_format :: "bool \<Rightarrow> string \<Rightarrow> (string \<rightharpoonup> string) \<Rightarrow> string \<Rightarrow> string \<Rightarrow> string res" where
  "eval_format use_answer_prefix answer_prefix env template template_with_prefix =
     (if use_answer_prefix \<and> py_strip answer_prefix \<noteq> []
      then py_format (env(''answer_prefix'' \<mapsto> answer_prefix)) template_with_prefix
      else py_format env template)"

lemma eval_format_plain:
  "\<not> (pre \<and> py_strip answer_prefix \<noteq> []) \<Longrightarrow> eval_format pre answer_prefix env t tp = py_format env t"
  by (auto simp: eval_format_def)

section \<open>Chunks\<close>

definition truncate_context :: "int \<Rightarrow> int list \<Rightarrow> int list" where
  "truncate_context max_len input_ids =
     (if max_len < int (length input_ids)
      then py_slice None (Some (max_len div 2)) input_ids @ py_slice (Some ((- max_len) div 2)) None input_ids
      else input_ids)"

text \<open>\<open>range(0, len(input_ids), chunk)\<close>: a step of 0 is an error, a negative step gives no chunk.\<close>

definition context_chunks :: "tokenizer \<Rightarrow> int \<Rightarrow> int list \<Rightarrow> string list res" where
  "context_chunks tok chunk input_ids =
     (if chunk = 0 then Inl ValueError
      else if chunk < 0 then Inr []
      else Inr (map (tok_decode tok False) (chunks_of (nat chunk) input_ids)))"

section \<open>Passes\<close>

definition has_new_info :: "string option \<Rightarrow> bool" where
  "has_new_info r = (case r of None \<Rightarrow> False | Some s \<Rightarrow> \<not> py_in NO_NEW_INFO_MARKER (py_lower s))"

definition chunk_msgs :: "eval_item \<Rightarrow> bool \<Rightarrow> string \<Rightarrow> string list \<Rightarrow> string list res" where
  "chunk_msgs item use_answer_prefix global_memory chunks =
     map_res (\<lambda>chunk. eval_format use_answer_prefix (ei_answer_prefix item)
                [''prompt'' \<mapsto> py_strip (ei_input item), ''memory'' \<mapsto> global_memory, ''chunk'' \<mapsto> chunk]
                TEMPLATE_CHUNK TEMPLATE_CHUNK_WITH_ANSWER_PREFIX) chunks"

text \<open>The replies to the requests created together, in the order of the requests.\<close>

definition query_all :: "api \<Rightarrow> nat \<Rightarrow> int \<Rightarrow> string list \<Rightarrow> string option list" where
  "query_all api first limit msgs =
     map2 (\<lambda>n msg. query_single api n \<lparr>lr_content = msg, lr_max_tokens = limit\<rparr>) [first..<first + length msgs] msgs"

record eval_result =
  er_response :: string
  er_passes_used :: nat
  er_converged :: bool
  er_max_passes :: int

text \<open>
  The loop over the passes, with the number of passes left, the passes done, the number of the next
  request and the global memory; it returns the memory, the passes used, whether the loop converged
  and the number of the next request.
\<close>

fun eval_passes ::
  "api \<Rightarrow> eval_config \<Rightarrow> eval_item \<Rightarrow> bool \<Rightarrow> string list \<Rightarrow> nat \<Rightarrow> nat \<Rightarrow> nat \<Rightarrow> string \<Rightarrow>
   (string \<times> nat \<times> bool \<times> nat) res" where
  "eval_passes api ec item pre chunks 0 pass_num first global_memory = Inr (global_memory, pass_num, False, first)"
| "eval_passes api ec item pre chunks (Suc left) pass_num first global_memory =
     bind_res (chunk_msgs item pre global_memory chunks) (\<lambda>msgs.
       let chunk_results = query_all api first (ec_max_new ec) msgs;
           new_memories = filter has_new_info chunk_results;
           first1 = first + length msgs
       in if new_memories = [] then Inr (global_memory, pass_num + 1, True, first1)
          else bind_res
            (eval_format pre (ei_answer_prefix item)
               [''prompt'' \<mapsto> py_strip (ei_input item), ''memories'' \<mapsto> build_merge_memories (Some global_memory) new_memories]
               TEMPLATE_MERGE TEMPLATE_MERGE_WITH_ANSWER_PREFIX) (\<lambda>merge_msg.
              let merged = query_single api first1 \<lparr>lr_content = merge_msg, lr_max_tokens = ec_merge_max_tokens ec\<rparr>
              in eval_passes api ec item pre chunks left (pass_num + 1) (first1 + 1)
                   (case merged of None \<Rightarrow> global_memory | Some m \<Rightarrow> m)))"

text \<open>
  The whole evaluation of an item. A failed final request is answered by an empty response: a status,
  an exception, or a \<open>null\<close> content, whose length the trace takes. \<open>encode\<close> is the tokenizer's \<open>encode\<close>
  with its special tokens.
\<close>

definition final_response :: "api_reply \<Rightarrow> string" where
  "final_response reply =
     (case reply of BadStatus _ \<Rightarrow> [] | ApiError \<Rightarrow> [] | Content content \<Rightarrow> (case content of None \<Rightarrow> [] | Some s \<Rightarrow> s))"

definition async_query_llm ::
  "api \<Rightarrow> eval_config \<Rightarrow> tokenizer \<Rightarrow> (string \<Rightarrow> int list) \<Rightarrow> eval_item \<Rightarrow> bool \<Rightarrow> eval_result res" where
  "async_query_llm api ec tok encode item use_answer_prefix =
     (let input_ids = truncate_context (ec_max_context_len ec) (encode (py_strip (ei_context item)))
      in bind_res (context_chunks tok (ec_chunk_size ec) input_ids) (\<lambda>chunks.
         bind_res (eval_passes api ec item use_answer_prefix chunks (nat (ec_max_passes ec)) 0 0 NO_MEMORY)
           (\<lambda>(global_memory, passes_used, converged, n).
         bind_res (eval_format use_answer_prefix (ei_answer_prefix item)
                     [''prompt'' \<mapsto> py_strip (ei_input item), ''memory'' \<mapsto> global_memory]
                     TEMPLATE_FINAL_BOXED TEMPLATE_FINAL_BOXED_WITH_ANSWER_PREFIX) (\<lambda>final_msg.
           Inr \<lparr>er_response = final_response (api n \<lparr>lr_content = final_msg, lr_max_tokens = ec_max_new ec\<rparr>),
                er_passes_used = passes_used, er_converged = converged, er_max_passes = ec_max_passes ec\<rparr>))))"

section \<open>The marker and the memories\<close>

lemma strip_decompose: "\<exists>a b. s = a @ py_strip s @ b \<and> (\<forall>c\<in>set a \<union> set b. py_isspace c)"
proof -
  obtain b where b: "py_lstrip s = py_rstrip (py_lstrip s) @ b" "\<forall>c\<in>set b. py_isspace c"
    using py_rstrip_prefix by blast
  have "s = takeWhile py_isspace s @ py_lstrip s" by (simp add: py_lstrip_def)
  then have "s = takeWhile py_isspace s @ py_strip s @ b" using b(1) by (simp add: py_strip_def)
  moreover have "\<forall>c\<in>set (takeWhile py_isspace s). py_isspace c" using set_takeWhileD by fast
  ultimately show ?thesis using b(2) by blast
qed

lemma lower_space: "py_isspace c \<Longrightarrow> lower_char c = c"
  by (auto simp: py_isspace_def lower_char_def Let_def)

lemma marker_no_space: "(\<forall>c\<in>set w. py_isspace c) \<Longrightarrow> set (py_lower w) \<inter> set NO_NEW_INFO_MARKER = {}"
  by (auto simp: py_lower_def lower_space NO_NEW_INFO_MARKER_def py_isspace_def)

lemma marker_strip: "py_in NO_NEW_INFO_MARKER (py_lower (py_strip s)) = py_in NO_NEW_INFO_MARKER (py_lower s)"
proof -
  obtain a b where s: "s = a @ py_strip s @ b" and sp: "\<forall>c\<in>set a \<union> set b. py_isspace c" using strip_decompose by blast
  have "py_lower s = py_lower a @ py_lower (py_strip s) @ py_lower b"
    by (subst s) (simp only: py_lower_def map_append)
  moreover have "NO_NEW_INFO_MARKER \<noteq> []" by (simp add: NO_NEW_INFO_MARKER_def)
  ultimately show ?thesis
    using sp marker_no_space [of a] marker_no_space [of b] by (simp add: py_in_skip py_in_skip_end)
qed

lemma merge_parts_strip: "merge_parts i (map (map_option py_strip) ms) = merge_parts i ms"
  by (induction ms arbitrary: i) (auto split: option.split)

lemma build_merge_strip:
  "build_merge_memories previous (map (map_option py_strip) ms) = build_merge_memories previous ms"
  by (simp add: build_merge_memories_def merge_parts_strip)

section \<open>Requests that fail\<close>

definition chunk_prefix_segs :: "seg list" where
  "chunk_prefix_segs =
    [Text (''You are presented with a problem, a section of an article, and a global memory summarizing previously gathered information. Please read the section carefully and determine whether the section contains new information relevant to answering the problem beyond what is already in the global memory. First, output your judgment in the format <check>yes</check> if there is new information, or <check>no</check> if there is none. Then, if there is new information, extract and list the key details.'' @ [newline, newline] @ ''<problem>'' @ [newline]),
     Field ''prompt'',
     Text [newline, newline],
     Field ''answer_prefix'',
     Text ([newline] @ ''</problem>'' @ [newline, newline] @ ''<memory>'' @ [newline]),
     Field ''memory'',
     Text ([newline] @ ''</memory>'' @ [newline, newline] @ ''<section>'' @ [newline]),
     Field ''chunk'',
     Text ([newline] @ ''</section>'' @ [newline, newline] @ ''Your response:'' @ [newline])]"

lemma chunk_prefix_format: "\<exists>s. py_format [''prompt'' \<mapsto> v0, ''memory'' \<mapsto> v1, ''chunk'' \<mapsto> v2, ''answer_prefix'' \<mapsto> v3] TEMPLATE_CHUNK_WITH_ANSWER_PREFIX = Inr s"
proof -
  have t: "TEMPLATE_CHUNK_WITH_ANSWER_PREFIX = concat (map seg_string chunk_prefix_segs)"
    by (simp add: TEMPLATE_CHUNK_WITH_ANSWER_PREFIX_def chunk_prefix_segs_def)
  have ok: "list_all (seg_ok [''prompt'' \<mapsto> v0, ''memory'' \<mapsto> v1, ''chunk'' \<mapsto> v2, ''answer_prefix'' \<mapsto> v3]) chunk_prefix_segs"
    by (simp add: chunk_prefix_segs_def no_brace_def open_brace_def close_brace_def fmt_name_def fmt_unsupported_def py_isdigit_def)
  show ?thesis unfolding t by (rule exI) (rule py_format_segs [OF ok])
qed

definition merge_prefix_segs :: "seg list" where
  "merge_prefix_segs =
    [Text (''You are presented with a problem and key information extracted from multiple sections of an article. Please consolidate all the information into a single comprehensive memory. Remove redundancies and organize the information clearly, retaining all details relevant to answering the problem.'' @ [newline, newline] @ ''<problem>'' @ [newline]),
     Field ''prompt'',
     Text [newline, newline],
     Field ''answer_prefix'',
     Text ([newline] @ ''</problem>'' @ [newline, newline] @ ''<extracted_information>'' @ [newline]),
     Field ''memories'',
     Text ([newline] @ ''</extracted_information>'' @ [newline, newline] @ ''Consolidated memory:'' @ [newline])]"

lemma merge_prefix_format: "\<exists>s. py_format [''prompt'' \<mapsto> v0, ''memories'' \<mapsto> v1, ''answer_prefix'' \<mapsto> v2] TEMPLATE_MERGE_WITH_ANSWER_PREFIX = Inr s"
proof -
  have t: "TEMPLATE_MERGE_WITH_ANSWER_PREFIX = concat (map seg_string merge_prefix_segs)"
    by (simp add: TEMPLATE_MERGE_WITH_ANSWER_PREFIX_def merge_prefix_segs_def)
  have ok: "list_all (seg_ok [''prompt'' \<mapsto> v0, ''memories'' \<mapsto> v1, ''answer_prefix'' \<mapsto> v2]) merge_prefix_segs"
    by (simp add: merge_prefix_segs_def no_brace_def open_brace_def close_brace_def fmt_name_def fmt_unsupported_def py_isdigit_def)
  show ?thesis unfolding t by (rule exI) (rule py_format_segs [OF ok])
qed

definition final_prefix_segs :: "seg list" where
  "final_prefix_segs =
    [Text (''You are presented with a problem and a previous memory. Please answer the problem based on the previous memory and put the answer in '' @ [CHR 0x5C] @ ''boxed''),
     Brace True,
     Brace False,
     Text (''.'' @ [newline, newline] @ ''<problem>'' @ [newline]),
     Field ''prompt'',
     Text ([newline] @ ''</problem>'' @ [newline, newline] @ ''<memory>'' @ [newline]),
     Field ''memory'',
     Text ([newline] @ ''</memory>'' @ [newline, newline]),
     Field ''answer_prefix'',
     Text [newline]]"

lemma final_prefix_format: "\<exists>s. py_format [''prompt'' \<mapsto> v0, ''memory'' \<mapsto> v1, ''answer_prefix'' \<mapsto> v2] TEMPLATE_FINAL_BOXED_WITH_ANSWER_PREFIX = Inr s"
proof -
  have t: "TEMPLATE_FINAL_BOXED_WITH_ANSWER_PREFIX = concat (map seg_string final_prefix_segs)"
    by (simp add: TEMPLATE_FINAL_BOXED_WITH_ANSWER_PREFIX_def final_prefix_segs_def)
  have ok: "list_all (seg_ok [''prompt'' \<mapsto> v0, ''memory'' \<mapsto> v1, ''answer_prefix'' \<mapsto> v2]) final_prefix_segs"
    by (simp add: final_prefix_segs_def no_brace_def open_brace_def close_brace_def fmt_name_def fmt_unsupported_def py_isdigit_def)
  show ?thesis unfolding t by (rule exI) (rule py_format_segs [OF ok])
qed

lemma eval_format_total:
  "\<exists>s. eval_format pre ap [''prompt'' \<mapsto> p, ''memory'' \<mapsto> m, ''chunk'' \<mapsto> c] TEMPLATE_CHUNK TEMPLATE_CHUNK_WITH_ANSWER_PREFIX = Inr s"
  "\<exists>s. eval_format pre ap [''prompt'' \<mapsto> p, ''memories'' \<mapsto> m] TEMPLATE_MERGE TEMPLATE_MERGE_WITH_ANSWER_PREFIX = Inr s"
  "\<exists>s. eval_format pre ap [''prompt'' \<mapsto> p, ''memory'' \<mapsto> m] TEMPLATE_FINAL_BOXED TEMPLATE_FINAL_BOXED_WITH_ANSWER_PREFIX = Inr s"
  using template_chunk_format [of p m c] chunk_prefix_format [of p m c ap] template_merge_format [of p m] merge_prefix_format [of p m ap]
    template_final_boxed_format [of p m] final_prefix_format [of p m ap]
  by (auto simp: eval_format_def)

lemma chunk_msgs_total: "\<exists>msgs. chunk_msgs item pre g chunks = Inr msgs \<and> length msgs = length chunks"
  unfolding chunk_msgs_def by (rule map_res_total) (rule eval_format_total)

text \<open>
  No reply of the service makes the client raise: with a chunk size other than 0 every item gets a
  result, after at most the configured passes.
\<close>

lemma eval_passes_total:
  "\<exists>g' u conv n'. eval_passes api ec item pre chunks left p n g = Inr (g', u, conv, n') \<and> u \<le> p + left \<and>
    n' \<le> n + left * (length chunks + 1)"
proof (induction left arbitrary: p n g)
  case (Suc left)
  obtain msgs where msgs: "chunk_msgs item pre g chunks = Inr msgs" "length msgs = length chunks" using chunk_msgs_total by blast
  define news where "news = filter has_new_info (query_all api n (ec_max_new ec) msgs)"
  show ?case
  proof (cases "news = []")
    case True
    then show ?thesis using msgs by (simp add: news_def Let_def) blast
  next
    case False
    obtain body where "eval_format pre (ei_answer_prefix item) [''prompt'' \<mapsto> py_strip (ei_input item),
        ''memories'' \<mapsto> build_merge_memories (Some g) news] TEMPLATE_MERGE TEMPLATE_MERGE_WITH_ANSWER_PREFIX = Inr body"
      using eval_format_total(2) by blast
    moreover obtain g' u conv n' where "eval_passes api ec item pre chunks left (p + 1) (n + length msgs + 1)
        (case query_single api (n + length msgs) \<lparr>lr_content = body, lr_max_tokens = ec_merge_max_tokens ec\<rparr> of
           None \<Rightarrow> g | Some m \<Rightarrow> m) = Inr (g', u, conv, n')" "u \<le> p + 1 + left"
      "n' \<le> n + length msgs + 1 + left * (length chunks + 1)"
      using Suc.IH by blast
    ultimately show ?thesis using msgs False by (simp add: news_def [symmetric] Let_def)
  qed
qed (simp, blast)

lemma async_query_llm_total:
  assumes "ec_chunk_size ec \<noteq> 0"
  shows "\<exists>res. async_query_llm api ec tok encode item pre = Inr res \<and> int (er_passes_used res) \<le> max 0 (ec_max_passes ec)"
proof -
  obtain chunks where "context_chunks tok (ec_chunk_size ec) (truncate_context (ec_max_context_len ec) (encode (py_strip (ei_context item)))) = Inr chunks"
    using assms by (cases "ec_chunk_size ec < 0") (auto simp: context_chunks_def that)
  moreover obtain g u conv n where "eval_passes api ec item pre chunks (nat (ec_max_passes ec)) 0 0 NO_MEMORY = Inr (g, u, conv, n)"
    "u \<le> 0 + nat (ec_max_passes ec)"
    using eval_passes_total by blast
  moreover obtain body where "eval_format pre (ei_answer_prefix item) [''prompt'' \<mapsto> py_strip (ei_input item), ''memory'' \<mapsto> g]
      TEMPLATE_FINAL_BOXED TEMPLATE_FINAL_BOXED_WITH_ANSWER_PREFIX = Inr body"
    using eval_format_total(3) by blast
  ultimately show ?thesis by (simp add: async_query_llm_def Let_def)
qed

text \<open>
  A failed chunk request counts as a chunk without news, so a service that fails every request is
  reported as a context read to convergence in one pass, with an empty answer.
\<close>

lemma eval_passes_silent:
  assumes "\<And>n r. query_single api n r = None" "chunk_msgs item pre g chunks = Inr msgs"
  shows "eval_passes api ec item pre chunks (Suc k) p first g = Inr (g, p + 1, True, first + length msgs)"
proof -
  have "filter has_new_info (query_all api first (ec_max_new ec) msgs) = []"
    by (auto simp: filter_empty_conv query_all_def assms(1) has_new_info_def set_zip)
  then show ?thesis using assms(2) by (simp add: Let_def)
qed

lemma failed_service_converges:
  assumes "0 < ec_chunk_size ec" "0 < ec_max_passes ec"
  shows "async_query_llm (\<lambda>n r. BadStatus 500) ec tok encode item pre =
    Inr \<lparr>er_response = [], er_passes_used = 1, er_converged = True, er_max_passes = ec_max_passes ec\<rparr>"
proof -
  let ?ids = "truncate_context (ec_max_context_len ec) (encode (py_strip (ei_context item)))"
  let ?chunks = "map (tok_decode tok False) (chunks_of (nat (ec_chunk_size ec)) ?ids)"
  obtain k where k: "nat (ec_max_passes ec) = Suc k" using assms(2) by (metis gr0_conv_Suc zero_less_nat_eq)
  obtain msgs where "chunk_msgs item pre NO_MEMORY ?chunks = Inr msgs" using chunk_msgs_total by blast
  then have "eval_passes (\<lambda>n r. BadStatus 500) ec item pre ?chunks (Suc k) 0 0 NO_MEMORY = Inr (NO_MEMORY, 0 + 1, True, 0 + length msgs)"
    by (intro eval_passes_silent) (simp_all add: query_single_def)
  moreover obtain body where "eval_format pre (ei_answer_prefix item) [''prompt'' \<mapsto> py_strip (ei_input item), ''memory'' \<mapsto> NO_MEMORY]
      TEMPLATE_FINAL_BOXED TEMPLATE_FINAL_BOXED_WITH_ANSWER_PREFIX = Inr body"
    using eval_format_total(3) by blast
  ultimately show ?thesis
    using assms(1) by (simp add: async_query_llm_def context_chunks_def k final_response_def Let_def del: eval_passes.simps)
qed

section \<open>Chunks of the context\<close>

lemma chunks_of_slices: "chunks_of n xs = map (\<lambda>i. chunk_slice n i xs) [0..<length (chunks_of n xs)]"
  by (rule nth_equalityI) (simp_all add: nth_chunks_of chunk_slice_def py_slice_nat del: of_nat_mult of_nat_add)

lemma ceil_div_chunks:
  assumes "0 < n"
  shows "ceil_div (int (length xs)) n = Inr (int (length (chunks_of n xs)))"
proof -
  obtain t where t: "ceil_div (int (length xs)) n = Inr t" using assms by (simp add: ceil_div_def)
  have b: "int (length xs) \<le> t * int n" "t * int n < int (length xs) + int n" using ceil_div_bounds [OF t] by blast+
  have "0 \<le> t * int n" using b(1) by linarith
  then have "0 \<le> t" using assms by (simp add: zero_le_mult_iff)
  then obtain k where k: "t = int k" by (metis nonneg_int_cases)
  have "length xs \<le> k * n" "k * n < length xs + n" using b by (simp_all add: k flip: of_nat_mult of_nat_add)
  then have "(length xs + n - 1) div n = k" using assms by (intro div_nat_eqI) (auto simp: algebra_simps)
  then show ?thesis using t k length_chunks_of [OF assms, of xs] by simp
qed

lemma filter_pads: "pad \<notin> set ids \<Longrightarrow> filter (\<lambda>x. x \<noteq> pad) (chunk_slice n i (ids @ replicate k pad)) = chunk_slice n i ids"
proof -
  assume pad: "pad \<notin> set ids"
  have "filter (\<lambda>x. x \<noteq> pad) (take m (replicate j pad)) = []" for m j by (simp add: filter_empty_conv)
  moreover have "filter (\<lambda>x. x \<noteq> pad) (take m (drop j ids)) = take m (drop j ids)" for m j
    using pad by (auto simp: filter_id_conv dest: in_set_takeD in_set_dropD)
  ultimately show ?thesis by (simp add: chunk_slice_def py_slice_nat del: of_nat_mult of_nat_add)
qed

section \<open>The evaluation and the training agent\<close>

text \<open>A model whose requests are all answered, seen through the service.\<close>

definition reply_of :: "llm \<Rightarrow> nat \<Rightarrow> llm_request \<Rightarrow> chat_message" where
  "reply_of llm n r = (case llm n r of Inr c \<Rightarrow> choice_msg c | Inl e \<Rightarrow> \<lparr>cm_role = [], cm_content = [], cm_finished = False\<rparr>)"

definition served :: "llm \<Rightarrow> api" where
  "served llm n r = (case llm n r of Inr c \<Rightarrow> Content (Some (cm_content (choice_msg c))) | Inl e \<Rightarrow> ApiError)"

lemma answered:
  assumes "\<And>n r. \<exists>c. llm n r = Inr c"
  shows "query_single (served llm) n r = Some (py_strip (cm_content (reply_of llm n r)))"
    "final_response (served llm n r) = cm_content (reply_of llm n r)"
    "ask llm n content limit = Inr (content, reply_of llm n \<lparr>lr_content = content, lr_max_tokens = limit\<rparr>)"
proof -
  obtain c where "llm n r = Inr c" using assms by blast
  then show "query_single (served llm) n r = Some (py_strip (cm_content (reply_of llm n r)))"
    "final_response (served llm n r) = cm_content (reply_of llm n r)"
    by (simp_all add: query_single_def served_def reply_of_def final_response_def)
  obtain d where "llm n \<lparr>lr_content = content, lr_max_tokens = limit\<rparr> = Inr d" using assms by blast
  then show "ask llm n content limit = Inr (content, reply_of llm n \<lparr>lr_content = content, lr_max_tokens = limit\<rparr>)"
    by (simp add: ask_def reply_of_def)
qed

abbreviation limited :: "int \<Rightarrow> string \<Rightarrow> llm_request" where
  "limited limit msg \<equiv> \<lparr>lr_content = msg, lr_max_tokens = limit\<rparr>"

lemma collect_answered:
  assumes "\<And>n r. \<exists>c. llm n r = Inr c"
  shows "collect_replies (map (\<lambda>(i, r). (r, llm i r)) (zip js (map (limited limit) msgs))) =
    Inr (map2 (\<lambda>i msg. (msg, reply_of llm i (limited limit msg))) js msgs)"
proof (induction msgs arbitrary: js)
  case (Cons m msgs)
  show ?case
  proof (cases js)
    case (Cons j js')
    obtain c where "llm j (limited limit m) = Inr c" using assms by blast
    then show ?thesis using Cons.IH Cons by (simp add: reply_of_def)
  qed simp
qed simp

lemma query_all_answered:
  assumes "\<And>n r. \<exists>c. llm n r = Inr c"
  shows "query_all (served llm) first limit msgs =
    map (\<lambda>c. Some (py_strip (cm_content (snd c))))
      (map2 (\<lambda>i msg. (msg, reply_of llm i (limited limit msg))) [first..<first + length msgs] msgs)"
  by (simp add: query_all_def answered(1) [where llm = llm, OF assms] case_prod_unfold)

lemma news_agree:
  assumes "no_new_info_marker cfg = NO_NEW_INFO_MARKER"
  shows "filter has_new_info (map (\<lambda>c. Some (py_strip (cm_content (snd c)))) convs) =
    map (map_option py_strip) (filter (\<lambda>m. m \<noteq> None) (map (chunk_memory cfg) convs))"
proof -
  have "py_lower NO_NEW_INFO_MARKER = NO_NEW_INFO_MARKER" by (simp add: NO_NEW_INFO_MARKER_def py_lower_def lower_char_def)
  then show ?thesis
    by (induction convs) (auto simp: has_new_info_def chunk_memory_def assms marker_strip Let_def)
qed

lemma chunk_requests_msgs:
  assumes "\<not> (pre \<and> py_strip (ei_answer_prefix e) \<noteq> [])" "0 < chunk_size cfg" "tok_pad tok \<notin> set ids"
    "ai_ids item = ids @ replicate k (tok_pad tok)" "ai_prompt item = py_strip (ei_input e)"
  shows "\<exists>msgs. chunk_msgs e pre g (map (tok_decode tok False) (chunks_of (chunk_size cfg) ids)) = Inr msgs \<and>
    map_res (chunk_request cfg tok item g) [0..<length (chunks_of (chunk_size cfg) ids)] =
      Inr (map (limited (max_memorization_length cfg)) msgs)"
proof -
  let ?n = "chunk_size cfg"
  have "\<forall>chunk. \<exists>s. py_format [''prompt'' \<mapsto> py_strip (ei_input e), ''memory'' \<mapsto> g, ''chunk'' \<mapsto> chunk] TEMPLATE_CHUNK = Inr s"
    using template_chunk_format by blast
  then obtain f where f: "\<And>chunk. py_format [''prompt'' \<mapsto> py_strip (ei_input e), ''memory'' \<mapsto> g, ''chunk'' \<mapsto> chunk] TEMPLATE_CHUNK = Inr (f chunk)"
    by metis
  define body where "body i = f (tok_decode tok False (chunk_slice ?n i ids))" for i
  have "map (tok_decode tok False) (chunks_of ?n ids) =
      map (\<lambda>i. tok_decode tok False (chunk_slice ?n i ids)) [0..<length (chunks_of ?n ids)]"
    by (subst chunks_of_slices) simp
  then have "chunk_msgs e pre g (map (tok_decode tok False) (chunks_of ?n ids)) = Inr (map body [0..<length (chunks_of ?n ids)])"
    using assms(1) by (auto simp: chunk_msgs_def eval_format_def f body_def intro!: map_res_Inr)
  moreover have "map_res (chunk_request cfg tok item g) [0..<length (chunks_of ?n ids)] =
      Inr (map (\<lambda>i. limited (max_memorization_length cfg) (body i)) [0..<length (chunks_of ?n ids)])"
    by (rule map_res_Inr) (simp add: chunk_request_def assms(4,5) filter_pads [OF assms(3)] f body_def)
  ultimately show ?thesis by simp
qed

lemma passes_agree:
  assumes "\<And>n r. \<exists>c. llm n r = Inr c" "no_new_info_marker cfg = NO_NEW_INFO_MARKER" "0 < chunk_size cfg" "0 < par"
    "\<not> (pre \<and> py_strip (ei_answer_prefix e) \<noteq> [])" "tok_pad tok \<notin> set ids"
    "ai_ids item = ids @ replicate k (tok_pad tok)" "ai_len item = length ids" "ai_prompt item = py_strip (ei_input e)"
    "ec_max_new ec = max_memorization_length cfg" "ec_merge_max_tokens ec = max_merge_length cfg" "left = 0 \<longrightarrow> u = p"
  shows "\<exists>g' cs' u' conv. async_passes llm cfg tok item par left p g cs u = Inr (g', cs', u') \<and>
    eval_passes (served llm) ec e pre (map (tok_decode tok False) (chunks_of (chunk_size cfg) ids)) left p (length cs) g =
      Inr (g', u', conv, length cs')"
  using assms(12)
proof (induction left arbitrary: p g cs u)
  case (Suc left)
  let ?chunks = "map (tok_decode tok False) (chunks_of (chunk_size cfg) ids)"
  obtain msgs where msgs: "chunk_msgs e pre g ?chunks = Inr msgs"
    and reqs: "map_res (chunk_request cfg tok item g) [0..<length (chunks_of (chunk_size cfg) ids)] =
      Inr (map (limited (max_memorization_length cfg)) msgs)"
    using chunk_requests_msgs [OF assms(5,3,6,7,9)] by blast
  have total: "ceil_div (int (ai_len item)) (chunk_size cfg) = Inr (int (length (chunks_of (chunk_size cfg) ids)))"
    using ceil_div_chunks [OF assms(3)] assms(8) by simp
  define convs where "convs = map2 (\<lambda>i msg. (msg, reply_of llm i (limited (max_memorization_length cfg) msg)))
    [length cs..<length cs + length msgs] msgs"
  have collect: "collect_replies (gather_chunks llm (length cs) par (map (limited (max_memorization_length cfg)) msgs)) = Inr convs"
    using collect_answered [where llm = llm, OF assms(1)] by (simp add: gather_chunks_windows [OF assms(4)] convs_def)
  define mems where "mems = filter (\<lambda>m. m \<noteq> None) (map (chunk_memory cfg) convs)"
  have news: "filter has_new_info (query_all (served llm) (length cs) (ec_max_new ec) msgs) = map (map_option py_strip) mems"
    using query_all_answered [where llm = llm, OF assms(1)] news_agree [OF assms(2), of convs]
    by (simp add: assms(10) convs_def mems_def)
  have none: "list_all (\<lambda>m. m = None) (map (chunk_memory cfg) convs) \<longleftrightarrow> mems = []"
    by (auto simp: mems_def list_all_iff filter_empty_conv)
  have len: "length convs = length msgs" by (simp add: convs_def)
  show ?case
  proof (cases "mems = []")
    case True
    then show ?thesis using total reqs collect msgs none news len by (simp add: Let_def) blast
  next
    case False
    obtain body where merge: "py_format [''prompt'' \<mapsto> py_strip (ei_input e), ''memories'' \<mapsto> build_merge_memories (Some g) mems] TEMPLATE_MERGE = Inr body"
      using template_merge_format by blast
    let ?c = "(body, reply_of llm (length cs + length msgs) (limited (max_merge_length cfg) body))"
    let ?g = "py_strip (cm_content (snd ?c))"
    obtain g' cs' u' conv where ih: "async_passes llm cfg tok item par left (p + 1) ?g ((cs @ convs) @ [?c]) (p + 1) = Inr (g', cs', u')"
      "eval_passes (served llm) ec e pre ?chunks left (p + 1) (length ((cs @ convs) @ [?c])) ?g = Inr (g', u', conv, length cs')"
      using Suc.IH [of "p + 1" "p + 1"] by blast
    have "async_passes llm cfg tok item par (Suc left) p g cs u = Inr (g', cs', u')"
      using total reqs collect none False merge ih(1) answered(3) [where llm = llm, OF assms(1)]
      by (simp add: Let_def assms(9) len mems_def)
    moreover have "eval_passes (served llm) ec e pre ?chunks (Suc left) p (length cs) g = Inr (g', u', conv, length cs')"
      using msgs news False merge ih(2) answered(1) [where llm = llm, OF assms(1)]
      by (simp add: Let_def assms(11) len build_merge_strip eval_format_plain [OF assms(5)])
    ultimately show ?thesis by blast
  qed
qed (simp, blast)

lemma truncate_fitted:
  assumes "0 < n"
  shows "fitted_ids tok n ids = truncate_context (int n) ids @ replicate (n - length ids) (tok_pad tok)"
    "length (truncate_context (int n) ids) = min (length ids) n" "set (truncate_context (int n) ids) \<subseteq> set ids"
proof -
  have "(- int n) div 2 = - int (n - n div 2)" "int n div 2 = int (n div 2)" by linarith+
  moreover have "0 < n - n div 2" using assms by simp
  ultimately have cut: "py_slice None (Some (int n div 2)) ids = take (n div 2) ids"
    "py_slice (Some ((- int n) div 2)) None ids = drop (length ids - (n - n div 2)) ids"
    by (simp_all only: py_slice_prefix py_slice_last)
  show "fitted_ids tok n ids = truncate_context (int n) ids @ replicate (n - length ids) (tok_pad tok)"
    by (simp add: fitted_ids_def truncate_context_def cut)
  show "length (truncate_context (int n) ids) = min (length ids) n"
    by (simp add: truncate_context_def cut)
  show "set (truncate_context (int n) ids) \<subseteq> set ids"
    by (auto simp: truncate_context_def cut dest: in_set_takeD in_set_dropD)
qed

text \<open>
  The row of the training dataset holds the tokens the client keeps of the context, when the client's
  encoding adds no special tokens (which the dataset turns off and the client does not).
\<close>

lemma dataset_row_tokens:
  assumes "memory_getitem tok (int n) ''middle'' \<lparr>di_chat = [ei_input e], di_context = ei_context e, di_index = i\<rparr> = Inr row" "0 < n"
  shows "\<exists>j. mr_context_ids row = truncate_context (int n) (tok_encode tok (py_strip (ei_context e))) @ replicate j (tok_pad tok) \<and>
      nat (mr_context_length row) = length (truncate_context (int n) (tok_encode tok (py_strip (ei_context e)))) \<and>
      mr_prompt row = py_strip (ei_input e)"
  using assms(1) memory_getitem_row [where item = "\<lparr>di_chat = [ei_input e], di_context = ei_context e, di_index = i\<rparr>"
      and tok = tok, OF assms(2)] truncate_fitted [OF assms(2)]
  by auto

text \<open>C31. The evaluation client does what the training agent learned to do: on the same tokens of a
  context (those the client keeps, none of them the padding token, with or without padding behind
  them), the same prompt without an answer prefix, the same marker, chunk size, limits and number of
  passes (at least one), and with a model that answers every request, the client's answer is the
  content of the last conversation of the training rollout, after the same number of passes.\<close>

theorem evaluation_matches_training:
  assumes "\<And>n r. \<exists>c. llm n r = Inr c" "no_new_info_marker cfg = NO_NEW_INFO_MARKER" "0 < chunk_size cfg" "0 < max_passes cfg"
    "max_final_response_length cfg = max_memorization_length cfg" "\<not> (pre \<and> py_strip (ei_answer_prefix e) \<noteq> [])"
    "ids = truncate_context max_len (encode (py_strip (ei_context e)))" "tok_pad tok \<notin> set ids"
    "ai_ids item = ids @ replicate j (tok_pad tok)" "ai_len item = length ids" "ai_prompt item = py_strip (ei_input e)"
  shows "\<exists>out res.
    async_rollout llm cfg tok item = Inr out \<and>
    async_query_llm (served llm) \<lparr>ec_max_context_len = max_len, ec_chunk_size = int (chunk_size cfg),
      ec_max_new = max_memorization_length cfg, ec_max_passes = max_passes cfg,
      ec_merge_max_tokens = max_merge_length cfg\<rparr> tok encode e pre = Inr res \<and>
    er_response res = cm_content (snd (last (ao_conversations out))) \<and>
    ao_pass_used out = replicate (length (ao_conversations out)) (er_passes_used res)"
proof -
  let ?ec = "\<lparr>ec_max_context_len = max_len, ec_chunk_size = int (chunk_size cfg), ec_max_new = max_memorization_length cfg,
    ec_max_passes = max_passes cfg, ec_merge_max_tokens = max_merge_length cfg\<rparr>"
  obtain par where par: "chunk_parallelism cfg (ai_len item) = Inr par" "0 < par"
    using assms(3) by (cases "chunk_parallelism_per_sample cfg \<le> 0") (auto simp: chunk_parallelism_def ceil_div_def)
  have total: "ceil_div (int (ai_len item)) (chunk_size cfg) = Inr (int (length (chunks_of (chunk_size cfg) ids)))"
    using ceil_div_chunks [OF assms(3)] assms(10) by simp
  obtain g cs u conv where train: "async_passes llm cfg tok item par (nat (max_passes cfg)) 0 NO_MEMORY [] 1 = Inr (g, cs, u)"
    and eval: "eval_passes (served llm) ?ec e pre (map (tok_decode tok False) (chunks_of (chunk_size cfg) ids))
      (nat (max_passes cfg)) 0 0 NO_MEMORY = Inr (g, u, conv, length cs)"
    using passes_agree [where llm = llm and ec = ?ec and e = e and pre = pre and par = par and p = 0 and u = 1 and cs = "[]"
        and left = "nat (max_passes cfg)" and g = NO_MEMORY, OF assms(1,2,3) par(2) assms(6,8,9,10,11)] assms(4) by auto
  obtain body where body: "py_format [''prompt'' \<mapsto> py_strip (ei_input e), ''memory'' \<mapsto> g] TEMPLATE_FINAL_BOXED = Inr body"
    using template_final_boxed_format by blast
  show ?thesis
    using par total train eval body assms(3,5) answered(2,3) [where llm = llm, OF assms(1)]
    by (auto simp: async_rollout_def async_query_llm_def context_chunks_def assms(11) eval_format_plain [OF assms(6)]
        Let_def assms(7) [symmetric])
qed

definition yes_llm :: llm where
  "yes_llm n r = Inr \<lparr>ch_role = ''assistant'', ch_content = ''It is A'', ch_finish = ''stop'', ch_stop = None\<rparr>"

text \<open>An encoding that puts a token in front: the client keeps two tokens of either end.\<close>

theorem evaluation_matches_training_witness:
  "\<exists>out res.
    async_rollout yes_llm sample_config char_tokenizer \<lparr>ai_ids = [33, 97, 101, 102, -1], ai_len = 4, ai_prompt = ''q'', ai_index = 5\<rparr> = Inr out \<and>
    async_query_llm (served yes_llm) \<lparr>ec_max_context_len = 4, ec_chunk_size = 2, ec_max_new = 3, ec_max_passes = 2,
      ec_merge_max_tokens = 3\<rparr> char_tokenizer (\<lambda>s. 33 # tok_encode char_tokenizer s)
      \<lparr>ei_context = ''abcdef '', ei_input = ''q '', ei_answer_prefix = []\<rparr> True = Inr res \<and>
    er_response res = cm_content (snd (last (ao_conversations out))) \<and>
    ao_pass_used out = replicate (length (ao_conversations out)) (er_passes_used res)"
proof -
  let ?e = "\<lparr>ei_context = ''abcdef '', ei_input = ''q '', ei_answer_prefix = []\<rparr>"
  let ?encode = "\<lambda>s. 33 # tok_encode char_tokenizer s"
  have ids: "[33, 97, 101, 102] = truncate_context 4 (?encode (py_strip (ei_context ?e)))"
    "tok_pad char_tokenizer = -1" "py_strip ''q '' = ''q''" "py_strip [] = []"
    by code_simp+
  show ?thesis
    using evaluation_matches_training [of yes_llm sample_config True ?e _ 4 ?encode char_tokenizer, OF _ _ _ _ _ _ ids(1),
        where item = "\<lparr>ai_ids = [33, 97, 101, 102, -1], ai_len = 4, ai_prompt = ''q'', ai_index = 5\<rparr>" and j = 1]
    by (simp add: yes_llm_def sample_config_def NO_NEW_INFO_MARKER_def ids(2-4))
qed

end
