(* ===== verification/RolloutCorrection.thy ===== *)
theory RolloutCorrection
  imports PolicyLoss Json
begin

text \<open>
  The correction of the mismatch between the policy that generates and the policy that trains
  (\<open>verl/trainer/ppo/rollout_corr_helper.py\<close>): thresholds, rejection masks, importance weights, their
  metrics and the batch they change. Tensors and masks are those of \<open>Advantages\<close>; exponential, logarithm
  and square root are parameters. Metrics are lists of named numbers, without the common prefix
  \<open>rollout_corr/\<close>. Outside a process group the mean of the weights is that of the batch; the
  distributed mean is not modelled.
\<close>

type_synonym metrics = "(string \<times> rat) list"

section \<open>Numbers in text\<close>

text \<open>Digits with single underscores between them, as \<open>float\<close> reads them, and the rest.\<close>

function digit_run :: "string \<Rightarrow> string \<times> string" where
  "digit_run s =
     (case s of
        [] \<Rightarrow> ([], [])
      | c # cs \<Rightarrow>
          if py_isdigit c then
            (let cs' = (if take 1 cs = ''_'' \<and> list_ex py_isdigit (take 1 (drop 1 cs)) then drop 1 cs else cs);
                 (ds, rest) = digit_run cs'
             in (c # ds, rest))
          else ([], s))"
  by pat_completeness auto
termination
  by (relation "measure length") auto

declare digit_run.simps [simp del]

definition read_sign :: "string \<Rightarrow> bool \<times> string" where
  "read_sign s =
     (case s of
        [] \<Rightarrow> (False, [])
      | c # cs \<Rightarrow> if c = CHR ''-'' then (True, cs) else if c = CHR ''+'' then (False, cs) else (False, s))"

text \<open>\<open>float(s)\<close> for decimal texts, without rounding; infinities and NaN are outside the model.\<close>

definition py_float :: "string \<Rightarrow> rat res" where
  "py_float s =
     (let (neg, t) = read_sign (py_strip s);
          (whole, t1) = digit_run t;
          (frac, t2) = (if take 1 t1 = ''.'' then digit_run (drop 1 t1) else ([], t1));
          m = of_nat (digits_value (whole @ frac)) / 10 ^ length frac;
          v = (if neg then - m else m)
      in if py_lower t \<in> {''inf'', ''infinity'', ''nan''} then Inl (OtherError 0)
         else if whole = [] \<and> frac = [] then Inl ValueError
         else if t2 = [] then Inr v
         else if py_lower (take 1 t2) = ''e'' then
           (let (eneg, t3) = read_sign (drop 1 t2); (ds, t4) = digit_run t3; k = digits_value ds
            in if ds = [] \<or> t4 \<noteq> [] then Inl ValueError
               else Inr (if eneg then v / 10 ^ k else v * 10 ^ k))
         else Inl ValueError)"

text \<open>A threshold in the configuration: a boolean, a number, a text or something else.\<close>

datatype threshold_spec = Flag bool | Number rat | Spec string | OtherSpec

text \<open>\<open>spec.split("_", 1)\<close> of a text with an underscore.\<close>

definition split_bounds :: "string \<Rightarrow> string \<times> string" where
  "split_bounds s = (takeWhile (\<lambda>c. c \<noteq> CHR ''_'') s, drop 1 (dropWhile (\<lambda>c. c \<noteq> CHR ''_'') s))"

definition parse_rollout_is_threshold :: "threshold_spec \<Rightarrow> (rat \<times> rat option) res" where
  "parse_rollout_is_threshold threshold =
     bind_res
       (case threshold of
          Flag _ \<Rightarrow> Inl TypeError
        | Number x \<Rightarrow> Inr (x, None)
        | Spec s \<Rightarrow>
            (let spec = py_strip s
             in if spec = [] then Inl ValueError
                else if CHR ''_'' \<in> set spec then
                  bind_res (py_float (fst (split_bounds spec))) (\<lambda>lower.
                  bind_res (py_float (snd (split_bounds spec))) (\<lambda>upper. Inr (upper, Some lower)))
                else bind_res (py_float spec) (\<lambda>upper. Inr (upper, None)))
        | OtherSpec \<Rightarrow> Inl TypeError)
       (\<lambda>(upper, lower).
          if upper \<le> 0 then Inl ValueError
          else case lower of
              None \<Rightarrow> Inr (upper, None)
            | Some l \<Rightarrow> if l \<le> 0 then Inl ValueError else if upper < l then Inl ValueError else Inr (upper, Some l))"

text \<open>
  One of the raw thresholds: a text, or a number that was printed only to be read again. A boolean is
  printed as a word, which is no number.
\<close>

datatype raw_spec = RawText string | RawNumber rat

definition raw_float :: "raw_spec \<Rightarrow> rat res" where
  "raw_float r = (case r of RawText s \<Rightarrow> py_float s | RawNumber x \<Rightarrow> Inr x)"

definition raw_split :: "raw_spec \<Rightarrow> (string \<times> string) option" where
  "raw_split r = (case r of RawText s \<Rightarrow> if CHR ''_'' \<in> set s then Some (split_bounds s) else None | RawNumber x \<Rightarrow> None)"

definition option_threshold :: "string \<Rightarrow> raw_spec \<Rightarrow> (rat option \<times> rat) res" where
  "option_threshold opt spec =
     (if py_endswith opt ''k1'' then
        bind_res
          (case raw_split spec of
             Some (l, u) \<Rightarrow> bind_res (py_float l) (\<lambda>lower. bind_res (py_float u) (\<lambda>upper. Inr (lower, upper)))
           | None \<Rightarrow> bind_res (raw_float spec) (\<lambda>upper. if upper = 0 then Inl ZeroDivisionError else Inr (1 / upper, upper)))
          (\<lambda>(lower, upper). if lower \<le> 0 \<or> upper \<le> 0 then Inl ValueError else Inr (Some lower, upper))
      else if raw_split spec \<noteq> None then Inl ValueError
      else bind_res (raw_float spec) (\<lambda>upper. if upper \<le> 0 then Inl ValueError else Inr (None, upper)))"

definition raw_specs :: "threshold_spec \<Rightarrow> raw_spec list res" where
  "raw_specs threshold =
     (case threshold of
        Flag b \<Rightarrow> Inr [RawText (if b then ''True'' else ''False'')]
      | Number x \<Rightarrow> Inr [RawNumber x]
      | Spec s \<Rightarrow> Inr (map RawText (filter (\<lambda>p. p \<noteq> []) (map py_strip (py_split '','' s))))
      | OtherSpec \<Rightarrow> Inl TypeError)"

definition parse_rollout_rs_thresholds :: "string list \<Rightarrow> threshold_spec \<Rightarrow> (string \<times> rat option \<times> rat) list res" where
  "parse_rollout_rs_thresholds options threshold =
     bind_res (raw_specs threshold) (\<lambda>specs.
       if specs = [] then Inl ValueError
       else if length specs \<noteq> 1 \<and> length specs \<noteq> length options then Inl ValueError
       else let specs' = (if length specs = 1 \<and> 1 < length options then replicate (length options) (hd specs) else specs)
            in map_res (\<lambda>(opt, spec). bind_res (option_threshold opt spec) (\<lambda>t. Inr (opt, t))) (zip options specs'))"

section \<open>Statistics\<close>

definition SAFETY_BOUND :: rat where "SAFETY_BOUND = 20"

definition safe_ratio :: "rat \<Rightarrow> rat" where
  "safe_ratio = clamp (- SAFETY_BOUND) SAFETY_BOUND"

definition row_masked_mean :: "rat list \<Rightarrow> rat list \<Rightarrow> rat" where
  "row_masked_mean values ms = masked_sum_seq values ms / (sum_list ms + small)"

definition valid_values :: "rat list \<Rightarrow> rat list \<Rightarrow> rat list" where
  "valid_values values ms = map fst (filter (\<lambda>(v, m). m \<noteq> 0) (zip values ms))"

definition row_masked_max :: "rat list \<Rightarrow> rat list \<Rightarrow> rat" where
  "row_masked_max values ms = (case valid_values values ms of [] \<Rightarrow> 0 | xs \<Rightarrow> Max (set xs))"

definition any_valid :: "tensor \<Rightarrow> bool" where
  "any_valid ms = list_ex (list_ex (\<lambda>m. m \<noteq> 0)) ms"

text \<open>\<open>x.mean()\<close>, \<open>x.std()\<close> and the fraction of a list of numbers.\<close>

definition std :: "(rat \<Rightarrow> rat) \<Rightarrow> rat list \<Rightarrow> rat" where
  "std rt xs = (if 1 < length xs then rt (variance xs) else 0)"

definition fraction :: "('a \<Rightarrow> bool) \<Rightarrow> 'a list \<Rightarrow> rat" where
  "fraction p xs = mean (map (\<lambda>x. of_bool (p x)) xs)"

text \<open>\<open>masked_mean\<close> of a whole tensor; with a mask of zeros and ones its divisor is positive.\<close>

definition tensor_masked_mean :: "tensor \<Rightarrow> tensor \<Rightarrow> rat" where
  "tensor_masked_mean values ms = masked_sum values ms / (tensor_sum ms + small)"

definition all_valid_values :: "tensor \<Rightarrow> tensor \<Rightarrow> rat list" where
  "all_valid_values values ms = concat (map2 valid_values values ms)"

section \<open>Rejection\<close>

definition SUPPORTED_ROLLOUT_RS_OPTIONS :: "string list" where
  "SUPPORTED_ROLLOUT_RS_OPTIONS =
     [''token_k1'', ''token_k2'', ''token_k3'', ''seq_sum_k1'', ''seq_sum_k2'', ''seq_sum_k3'',
      ''seq_mean_k1'', ''seq_mean_k2'', ''seq_mean_k3'', ''seq_max_k2'', ''seq_max_k3'']"

definition TOKEN_LEVEL_ROLLOUT_RS_OPTIONS :: "string list" where
  "TOKEN_LEVEL_ROLLOUT_RS_OPTIONS = [''token_k1'', ''token_k2'', ''token_k3'']"

definition rs_options :: "string \<Rightarrow> string list res" where
  "rs_options rollout_rs =
     (let option_modes = filter (\<lambda>p. p \<noteq> []) (map py_strip (py_split '','' rollout_rs))
      in if option_modes = [] then Inl ValueError
         else if \<exists>opt\<in>set option_modes. opt \<notin> set SUPPORTED_ROLLOUT_RS_OPTIONS then Inl ValueError
         else Inr (rev (remdups (rev option_modes))))"

definition token_divergence :: "(rat \<Rightarrow> rat) \<Rightarrow> string \<Rightarrow> rat \<Rightarrow> rat" where
  "token_divergence ex opt log_ratio =
     (let safe = safe_ratio log_ratio
      in if py_endswith opt ''k1'' then - safe
         else if py_endswith opt ''k2'' then 1 / 2 * safe ^ 2
         else ex safe - 1 - safe)"

text \<open>The statistic of an option per token; one value per sequence is spread over its tokens.\<close>

definition seq_statistic :: "(rat \<Rightarrow> rat) \<Rightarrow> string \<Rightarrow> rat list \<Rightarrow> rat list \<Rightarrow> rat" where
  "seq_statistic ex opt log_ratios ms =
     (let values = map (token_divergence ex opt) log_ratios
      in if py_startswith opt ''seq_sum'' then masked_sum_seq values ms
         else if py_startswith opt ''seq_mean'' then row_masked_mean values ms
         else row_masked_max values ms)"

definition token_level :: "string \<Rightarrow> bool" where
  "token_level opt = (opt \<in> set TOKEN_LEVEL_ROLLOUT_RS_OPTIONS)"

definition rs_statistic :: "(rat \<Rightarrow> rat) \<Rightarrow> string \<Rightarrow> tensor \<Rightarrow> tensor \<Rightarrow> tensor" where
  "rs_statistic ex opt log_ratio ms =
     (if token_level opt then tensor_map (token_divergence ex opt) log_ratio
      else map2 (\<lambda>r m. map (\<lambda>_. seq_statistic ex opt r m) m) log_ratio ms)"

text \<open>The bounds a statistic is compared with: logarithms of the ratio bounds for \<open>k1\<close>.\<close>

definition stat_bounds :: "(rat \<Rightarrow> rat) \<Rightarrow> rat option \<times> rat \<Rightarrow> rat option \<times> rat" where
  "stat_bounds lg thresholds =
     (case thresholds of (Some lower, upper) \<Rightarrow> (Some (lg lower), lg upper) | (None, upper) \<Rightarrow> (None, upper))"

definition inside :: "rat option \<times> rat \<Rightarrow> rat \<Rightarrow> bool" where
  "inside b v = ((case fst b of None \<Rightarrow> True | Some lower \<Rightarrow> lower \<le> v) \<and> v \<le> snd b)"

text \<open>The metrics of one option.\<close>

definition compute_rs_metrics ::
  "(rat \<Rightarrow> rat) \<Rightarrow> string \<Rightarrow> tensor \<Rightarrow> tensor \<Rightarrow> rat list option \<Rightarrow> rat option \<times> rat \<Rightarrow> metrics res" where
  "compute_rs_metrics rt opt stat ms per_sequence_values bounds =
     (if \<not> any_valid ms then Inl ValueError
      else let seq_values = (case per_sequence_values of Some vs \<Rightarrow> vs | None \<Rightarrow> map2 row_masked_mean stat ms);
               seq_valid = map fst (filter (\<lambda>(v, m). 0 < sum_list m) (zip seq_values ms));
               valid = all_valid_values stat ms;
               shown = (if \<not> token_level opt \<and> seq_valid \<noteq> [] then seq_valid else valid);
               high = (\<lambda>v. snd bounds < v);
               low = (\<lambda>v. case fst bounds of None \<Rightarrow> False | Some l \<Rightarrow> v < l);
               frac = (\<lambda>p. if \<not> token_level opt \<and> seq_valid \<noteq> [] then fraction p seq_valid
                           else tensor_masked_mean (tensor_map (\<lambda>v. of_bool (p v)) stat) ms);
               clipped = tensor_map (clamp (case fst bounds of None \<Rightarrow> 0 | Some l \<Rightarrow> l) (snd bounds)) stat;
               var = tensor_masked_mean (tensor_map (\<lambda>v. v ^ 2) clipped) ms - (tensor_masked_mean clipped ms) ^ 2;
               none = seq_valid = []
           in Inr (map (\<lambda>(k, v). (''rollout_rs_'' @ opt @ k, v))
                ([(''_mean'', tensor_masked_mean stat ms), (''_max'', Max (set shown)), (''_min'', Min (set shown)),
                  (''_fraction_high'', frac high), (''_fraction_low'', frac low),
                  (''_std'', if 1 < tensor_sum ms then rt (max var 0) else 0),
                  (''_seq_mean'', if none then 0 else mean seq_valid),
                  (''_seq_std'', if none then 0 else std rt seq_valid),
                  (''_seq_max'', if none then 0 else Max (set seq_valid)),
                  (''_seq_min'', if none then 0 else Min (set seq_valid)),
                  (''_seq_max_deviation'', if none then 0 else Max (set (map abs seq_valid))),
                  (''_seq_fraction_high'', if none then 0 else fraction high seq_valid)] @
                 (if none then [(''_seq_fraction_low'', 0)]
                  else if fst bounds \<noteq> None then [(''_seq_fraction_low'', fraction low seq_valid)] else []))))"

text \<open>One option of the loop: the tokens it keeps, and its metrics.\<close>

definition rs_step ::
  "(rat \<Rightarrow> rat) \<Rightarrow> (rat \<Rightarrow> rat) \<Rightarrow> (rat \<Rightarrow> rat) \<Rightarrow> tensor \<Rightarrow> tensor \<Rightarrow> string \<times> rat option \<times> rat \<Rightarrow>
   (bool list list \<times> metrics) res" where
  "rs_step ex lg rt log_ratio ms = (\<lambda>(opt, thresholds).
     let bounds = stat_bounds lg thresholds;
         stat = rs_statistic ex opt log_ratio ms;
         keep = map (map (inside bounds)) stat;
         per_sequence = (if token_level opt then None else Some (map2 (seq_statistic ex opt) log_ratio ms))
     in bind_res (compute_rs_metrics rt opt stat ms per_sequence bounds) (\<lambda>metrics.
          let dropped = tensor_masked_mean (map (map (\<lambda>k. of_bool (\<not> k))) keep) ms;
              seq_keep = map2 (\<lambda>k m. list_all2 (\<lambda>b x. x \<noteq> 0 \<longrightarrow> b) k m) keep ms;
              seq_valid = map fst (filter (\<lambda>(k, m). 0 < sum_list m) (zip seq_keep ms))
          in Inr (keep, metrics @
               [(''rollout_rs_'' @ opt @ ''_masked_fraction'', dropped),
                (''rollout_rs_'' @ opt @ ''_seq_masked_fraction'', if seq_valid = [] then 0 else fraction Not seq_valid)])))"

text \<open>\<open>combined_mask\<close>: a token is kept when every option keeps it.\<close>

definition keep_all :: "tensor \<Rightarrow> bool list list list \<Rightarrow> bool list list" where
  "keep_all ms keeps = fold (map2 (map2 (\<and>))) keeps (map (map (\<lambda>_. True)) ms)"

definition compute_rollout_rejection_mask ::
  "(rat \<Rightarrow> rat) \<Rightarrow> (rat \<Rightarrow> rat) \<Rightarrow> (rat \<Rightarrow> rat) \<Rightarrow> tensor \<Rightarrow> tensor \<Rightarrow> string \<Rightarrow> threshold_spec option \<Rightarrow>
   (tensor \<times> metrics) res" where
  "compute_rollout_rejection_mask ex lg rt log_ratio ms rollout_rs rollout_rs_threshold =
     (case rollout_rs_threshold of
        None \<Rightarrow> Inl ValueError
      | Some spec \<Rightarrow>
          if log_ratio = [] then Inr (ms, [])
          else bind_res (rs_options rollout_rs) (\<lambda>options.
               bind_res (parse_rollout_rs_thresholds options spec) (\<lambda>thresholds.
               bind_res (map_res (rs_step ex lg rt log_ratio ms) thresholds) (\<lambda>steps.
                 let keep = keep_all ms (map fst steps);
                     dropped = tensor_masked_mean (map (map (\<lambda>k. of_bool (\<not> k))) keep) ms;
                     touched = map2 (\<lambda>k m. \<not> list_all2 (\<lambda>b x. x \<noteq> 0 \<longrightarrow> b) k m) keep ms
                 in Inr (map2 (map2 (\<lambda>m k. m * of_bool k)) ms keep,
                         concat (map snd steps) @
                         [(''rollout_rs_masked_fraction'', dropped),
                          (''rollout_rs_seq_masked_fraction'', fraction id touched)])))))"

section \<open>Importance weights\<close>

definition raw_weights :: "(rat \<Rightarrow> rat) \<Rightarrow> string \<Rightarrow> tensor \<Rightarrow> tensor \<Rightarrow> tensor" where
  "raw_weights ex rollout_is log_ratio ms =
     (if rollout_is = ''token'' then tensor_map2 (\<lambda>r m. ex (safe_ratio r) * m) log_ratio ms
      else map2 (\<lambda>r m. map (\<lambda>x. ex (safe_ratio (masked_sum_seq r m)) * x) m) log_ratio ms)"

text \<open>Truncation at an upper bound, or zero outside two bounds.\<close>

definition process_weight :: "rat \<times> rat option \<Rightarrow> rat \<Rightarrow> rat" where
  "process_weight bounds w =
     (case snd bounds of
        None \<Rightarrow> min w (fst bounds)
      | Some lower \<Rightarrow> if lower \<le> w \<and> w \<le> fst bounds then w else 0)"

definition level_metrics ::
  "(rat \<Rightarrow> rat) \<Rightarrow> (rat \<Rightarrow> rat) \<Rightarrow> string \<Rightarrow> tensor \<Rightarrow> tensor \<Rightarrow> tensor \<Rightarrow> tensor \<Rightarrow> rat \<Rightarrow> rat \<Rightarrow> metrics" where
  "level_metrics ex lg rollout_is weights raw log_ratio ms upper lower =
     (if rollout_is = ''sequence'' then
        (let seq_sums = map2 masked_sum_seq log_ratio ms
         in [(''rollout_is_max'', ex (min (Max (set seq_sums)) SAFETY_BOUND)), (''rollout_is_min'', ex (Min (set seq_sums))),
             (''rollout_is_mean'', tensor_masked_mean weights ms),
             (''rollout_is_ratio_fraction_high'', fraction (\<lambda>s. lg upper < s) seq_sums),
             (''rollout_is_ratio_fraction_low'', fraction (\<lambda>s. s < lg lower) seq_sums)])
      else
        (let valid = all_valid_values weights ms
         in [(''rollout_is_mean'', tensor_masked_mean weights ms),
             (''rollout_is_ratio_fraction_high'', tensor_masked_mean (tensor_map (\<lambda>w. of_bool (upper < w)) raw) ms),
             (''rollout_is_ratio_fraction_low'', tensor_masked_mean (tensor_map (\<lambda>w. of_bool (w < lower)) raw) ms),
             (''rollout_is_max'', Max (set valid)), (''rollout_is_min'', Min (set valid))]))"

text \<open>The effective sample size is the reciprocal of a Python number: no weight left is a division by zero.\<close>

definition effective_sample_size :: "rat \<Rightarrow> tensor \<Rightarrow> tensor \<Rightarrow> rat res" where
  "effective_sample_size upper weights ms =
     (let used = tensor_map (clamp 0 upper) weights;
          mean_used = tensor_masked_mean used ms;
          square = tensor_masked_mean (tensor_map (\<lambda>w. (w / (mean_used + small)) ^ 2) used) ms
      in if square = 0 then Inl ZeroDivisionError else Inr (1 / square))"

definition compute_is_metrics ::
  "(rat \<Rightarrow> rat) \<Rightarrow> (rat \<Rightarrow> rat) \<Rightarrow> (rat \<Rightarrow> rat) \<Rightarrow> tensor \<Rightarrow> tensor \<Rightarrow> tensor \<Rightarrow> tensor \<Rightarrow> string \<Rightarrow> rat \<times> rat option \<Rightarrow> metrics res" where
  "compute_is_metrics ex lg rt weights raw log_ratio ms rollout_is bounds =
     (if \<not> any_valid ms then Inl ValueError
      else let upper = fst bounds;
               lower = (case snd bounds of None \<Rightarrow> 1 / upper | Some l \<Rightarrow> l);
               used = tensor_map (clamp 0 upper) weights;
               var = tensor_masked_mean (tensor_map (\<lambda>w. w ^ 2) used) ms - (tensor_masked_mean used ms) ^ 2;
               seqs = map2 row_masked_mean weights ms
           in bind_res (effective_sample_size upper weights ms) (\<lambda>ess.
                Inr (level_metrics ex lg rollout_is weights raw log_ratio ms upper lower @
                  [(''rollout_is_std'', if 1 < tensor_sum ms then rt (max var 0) else 0),
                   (''rollout_is_eff_sample_size'', ess),
                   (''rollout_is_seq_mean'', mean seqs), (''rollout_is_seq_std'', std rt seqs),
                   (''rollout_is_seq_max'', Max (set seqs)), (''rollout_is_seq_min'', Min (set seqs)),
                   (''rollout_is_seq_max_deviation'', Max (set (map (\<lambda>w. \<bar>w - 1\<bar>) seqs))),
                   (''rollout_is_seq_fraction_high'', fraction (\<lambda>w. upper < w) seqs),
                   (''rollout_is_seq_fraction_low'', fraction (\<lambda>w. w < lower) seqs)])))"

definition weights_mean :: "string \<Rightarrow> tensor \<Rightarrow> tensor \<Rightarrow> rat" where
  "weights_mean rollout_is weights ms =
     (if rollout_is = ''token'' then tensor_masked_mean weights ms
      else let seq_mask = seq_present ms
           in sum_list (map2 (*) (map2 row_masked_mean weights ms) seq_mask) / max (sum_list seq_mask) small)"

definition normalize_weights :: "string \<Rightarrow> tensor \<Rightarrow> tensor \<Rightarrow> tensor \<times> metrics" where
  "normalize_weights rollout_is weights ms =
     (let m = weights_mean rollout_is weights ms
      in if small < m then (tensor_map (\<lambda>w. w / m) weights, [(''rollout_is_batch_norm_factor'', m)])
         else (weights, [(''rollout_is_batch_norm_factor'', 1)]))"

definition compute_rollout_correction_weights ::
  "(rat \<Rightarrow> rat) \<Rightarrow> (rat \<Rightarrow> rat) \<Rightarrow> (rat \<Rightarrow> rat) \<Rightarrow> tensor \<Rightarrow> tensor \<Rightarrow> string \<Rightarrow> threshold_spec \<Rightarrow> bool \<Rightarrow> (tensor \<times> metrics) res" where
  "compute_rollout_correction_weights ex lg rt log_ratio ms rollout_is rollout_is_threshold batch_normalize =
     (if rollout_is \<notin> {''token'', ''sequence''} then Inl ValueError
      else bind_res (parse_rollout_is_threshold rollout_is_threshold) (\<lambda>bounds.
        let raw = raw_weights ex rollout_is log_ratio ms;
            weights = tensor_map (process_weight bounds) raw
        in bind_res (compute_is_metrics ex lg rt weights raw log_ratio ms rollout_is bounds) (\<lambda>metrics.
             let oob = (case snd bounds of
                          None \<Rightarrow> []
                        | Some lower \<Rightarrow> [(''rollout_is_oob_ratio'',
                            tensor_masked_mean (tensor_map (\<lambda>w. of_bool (w < lower \<or> fst bounds < w)) raw) ms)])
             in if batch_normalize
                then let (normalized, factor) = normalize_weights rollout_is weights ms
                     in Inr (normalized, metrics @ oob @ factor)
                else Inr (weights, metrics @ oob))))"

section \<open>Metrics of the mismatch\<close>

definition compute_offpolicy_metrics :: "(rat \<Rightarrow> rat) \<Rightarrow> tensor \<Rightarrow> tensor option \<Rightarrow> tensor \<Rightarrow> metrics res" where
  "compute_offpolicy_metrics ex old_log_prob rollout_log_prob ms =
     py_assert (any_valid ms)
       (let training = map2 row_masked_mean old_log_prob ms
        in Inr ([(''training_ppl'', mean (map (\<lambda>x. ex (- x)) training)), (''training_log_ppl'', mean (map uminus training))] @
             (case rollout_log_prob of
                None \<Rightarrow> []
              | Some rollout_lp \<Rightarrow>
                  (let log_ratio = tensor_map2 (-) old_log_prob rollout_lp;
                       rollout_mean = map2 row_masked_mean rollout_lp ms;
                       diff = map2 (-) rollout_mean training;
                       rho2 = tensor_map (\<lambda>r. (ex (safe_ratio r)) ^ 2) log_ratio;
                       seq_sums = map2 masked_sum_seq log_ratio ms
                   in [(''kl'', tensor_masked_mean (tensor_map2 (-) rollout_lp old_log_prob) ms),
                       (''k3_kl'', tensor_masked_mean (tensor_map (\<lambda>r. ex r - r - 1) log_ratio) ms),
                       (''rollout_ppl'', mean (map (\<lambda>x. ex (- x)) rollout_mean)),
                       (''rollout_log_ppl'', mean (map uminus rollout_mean)),
                       (''log_ppl_diff'', mean diff), (''log_ppl_abs_diff'', mean (map abs diff)),
                       (''log_ppl_diff_max'', Max (set diff)), (''log_ppl_diff_min'', Min (set diff)),
                       (''ppl_ratio'', mean (map ex diff)),
                       (''chi2_token'', tensor_masked_mean rho2 ms - 1),
                       (''chi2_seq'', mean (map (\<lambda>s. ex (2 * safe_ratio s)) seq_sums) - 1)]))))"

section \<open>The pipeline\<close>

record rollout_corr_config =
  rc_rollout_is :: "string option"
  rc_is_threshold :: "threshold_spec option"
  rc_batch_normalize :: bool
  rc_rollout_rs :: "string option"
  rc_rs_threshold :: "threshold_spec option"
  rc_loss_type :: string

definition compute_rollout_correction_and_rejection_mask ::
  "(rat \<Rightarrow> rat) \<Rightarrow> (rat \<Rightarrow> rat) \<Rightarrow> (rat \<Rightarrow> rat) \<Rightarrow> tensor \<Rightarrow> tensor \<Rightarrow> tensor \<Rightarrow> rollout_corr_config \<Rightarrow>
   (tensor option \<times> tensor \<times> metrics) res" where
  "compute_rollout_correction_and_rejection_mask ex lg rt old_log_prob rollout_log_prob ms cfg =
     (if \<not> any_valid ms then Inl ValueError
      else if map length old_log_prob \<noteq> map length rollout_log_prob then Inl ValueError
      else if map length old_log_prob \<noteq> map length ms then Inl ValueError
      else let log_ratio = tensor_map2 (-) old_log_prob rollout_log_prob
           in bind_res
                (case (rc_rollout_is cfg, rc_is_threshold cfg) of
                   (Some level, Some spec) \<Rightarrow>
                     bind_res (compute_rollout_correction_weights ex lg rt log_ratio ms level spec (rc_batch_normalize cfg))
                       (\<lambda>(w, metrics). Inr (Some w, metrics))
                 | _ \<Rightarrow> Inr (None, []))
                (\<lambda>(weights, is_metrics).
              bind_res
                (case rc_rollout_rs cfg of
                   None \<Rightarrow> Inr (ms, [])
                 | Some options \<Rightarrow> compute_rollout_rejection_mask ex lg rt log_ratio ms options (rc_rs_threshold cfg))
                (\<lambda>(mask', rs_metrics).
              bind_res (compute_offpolicy_metrics ex old_log_prob (Some rollout_log_prob) ms) (\<lambda>off.
                Inr (weights, mask', is_metrics @ rs_metrics @ off)))))"

text \<open>The columns of the batch that the correction reads and writes.\<close>

record corr_batch =
  cb_old_log_probs :: "tensor option"
  cb_rollout_log_probs :: "tensor option"
  cb_response_mask :: tensor
  cb_rollout_is_weights :: "tensor option"

definition required :: "'a option \<Rightarrow> 'a res" where
  "required x = (case x of None \<Rightarrow> Inl KeyError | Some v \<Rightarrow> Inr v)"

text \<open>\<open>union\<close> refuses a column of the same name with other values.\<close>

definition compute_rollout_correction_and_add_to_batch ::
  "(rat \<Rightarrow> rat) \<Rightarrow> (rat \<Rightarrow> rat) \<Rightarrow> (rat \<Rightarrow> rat) \<Rightarrow> corr_batch \<Rightarrow> rollout_corr_config \<Rightarrow> (corr_batch \<times> metrics) res" where
  "compute_rollout_correction_and_add_to_batch ex lg rt batch cfg =
     bind_res (required (cb_old_log_probs batch)) (\<lambda>old.
     bind_res (required (cb_rollout_log_probs batch)) (\<lambda>rollout_lp.
     bind_res (compute_rollout_correction_and_rejection_mask ex lg rt old rollout_lp (cb_response_mask batch) cfg)
       (\<lambda>(weights, mask', metrics).
          let batch' = batch\<lparr>cb_response_mask := mask'\<rparr>
          in case weights of
               None \<Rightarrow> Inr (batch', metrics)
             | Some w \<Rightarrow>
                 if cb_rollout_is_weights batch' \<noteq> None \<and> cb_rollout_is_weights batch' \<noteq> Some w then Inl AssertionError
                 else Inr (batch'\<lparr>cb_rollout_is_weights := Some w\<rparr>, metrics))))"

text \<open>\<open>old_log_probs\<close> becomes \<open>rollout_log_probs\<close>; the configuration of the loss gets the correction and its mode.\<close>

record policy_loss_config =
  pl_rollout_correction :: "rollout_corr_config option"
  pl_loss_mode :: string

definition apply_bypass_mode ::
  "corr_batch \<Rightarrow> rollout_corr_config option \<Rightarrow> policy_loss_config \<Rightarrow> (corr_batch \<times> policy_loss_config) res" where
  "apply_bypass_mode batch cfg loss_cfg =
     (case cb_rollout_log_probs batch of
        None \<Rightarrow> Inl ValueError
      | Some lp \<Rightarrow> Inr (batch\<lparr>cb_old_log_probs := Some lp\<rparr>,
                      loss_cfg\<lparr>pl_rollout_correction := cfg, pl_loss_mode := ''bypass_mode''\<rparr>))"

definition compute_policy_loss_bypass_mode ::
  "(rat \<Rightarrow> rat) \<Rightarrow> (rat \<Rightarrow> rat) \<Rightarrow> (rat \<Rightarrow> rat) \<Rightarrow> tensor \<Rightarrow> tensor \<Rightarrow> tensor \<Rightarrow> tensor \<Rightarrow> string \<Rightarrow> actor_config \<Rightarrow>
   policy_loss_config \<Rightarrow> (rat \<times> metrics) res" where
  "compute_policy_loss_bypass_mode ex lg rt old_log_prob log_prob advantages response_mask loss_agg_mode cfg loss_cfg =
     (case pl_rollout_correction loss_cfg of
        None \<Rightarrow> Inl ValueError
      | Some rc \<Rightarrow>
          bind_res (compute_rollout_correction_and_rejection_mask ex lg rt log_prob old_log_prob response_mask rc)
            (\<lambda>(weights, effective_mask, metrics).
             if rc_loss_type rc = ''reinforce'' then
               bind_res (compute_policy_loss_reinforce old_log_prob log_prob advantages effective_mask loss_agg_mode cfg weights)
                 (\<lambda>(loss, kl). Inr (loss, (''actor/ppo_kl'', kl) # metrics))
             else if rc_loss_type rc = ''ppo_clip'' then
               bind_res (compute_policy_loss_vanilla ex old_log_prob log_prob advantages effective_mask loss_agg_mode cfg None)
                 (\<lambda>(loss, m). Inr (loss, [(''actor/pg_clipfrac'', pg_clipfrac m), (''actor/ppo_kl'', ppo_kl m),
                                          (''actor/pg_clipfrac_lower'', pg_clipfrac_lower m)] @ metrics))
             else Inl ValueError))"

section \<open>What is rejected\<close>

abbreviation shape :: "'a list list \<Rightarrow> nat list" where
  "shape \<equiv> map length"

lemma shape_nth: "shape x = shape y \<Longrightarrow> i < length y \<Longrightarrow> i < length x \<and> length (x ! i) = length (y ! i)"
  by (metis length_map nth_map)

lemma shape_map2: "shape x = shape y \<Longrightarrow> shape (map2 (map2 f) x y) = shape y"
  by (rule nth_equalityI) (auto dest: map_eq_imp_length_eq shape_nth)

lemma map2_nth2:
  "shape x = shape y \<Longrightarrow> i < length y \<Longrightarrow> j < length (y ! i) \<Longrightarrow> map2 (map2 f) x y ! i ! j = f (x ! i ! j) (y ! i ! j)"
  using shape_nth [of x y i] by simp

lemma keep_all_places:
  assumes "\<forall>k\<in>set keeps. shape k = shape ms"
  shows "shape (keep_all ms keeps) = shape ms \<and>
    (\<forall>i<length ms. \<forall>j<length (ms ! i). keep_all ms keeps ! i ! j \<longleftrightarrow> (\<forall>k\<in>set keeps. k ! i ! j))"
proof -
  have "shape (fold (map2 (map2 (\<and>))) keeps acc) = shape ms \<and>
      (\<forall>i<length ms. \<forall>j<length (ms ! i). fold (map2 (map2 (\<and>))) keeps acc ! i ! j \<longleftrightarrow>
         acc ! i ! j \<and> (\<forall>k\<in>set keeps. k ! i ! j))"
    if "shape acc = shape ms" for acc
    using assms that
  proof (induction keeps arbitrary: acc)
    case (Cons k keeps)
    have sh: "shape k = shape acc" "shape (map2 (map2 (\<and>)) k acc) = shape ms"
      using Cons.prems shape_map2 [of k acc "(\<and>)"] by simp_all
    have "\<forall>k\<in>set keeps. shape k = shape ms" using Cons.prems(1) by simp
    note ih = Cons.IH [OF this sh(2)]
    have at: "map2 (map2 (\<and>)) k acc ! i ! j \<longleftrightarrow> k ! i ! j \<and> acc ! i ! j" if "i < length ms" "j < length (ms ! i)" for i j
      using map2_nth2 [OF sh(1), of i j] shape_nth [OF Cons.prems(2), of i] that by simp
    show ?case using ih at by (simp del: map2_map_map) blast
  qed simp
  from this [of "map (map (\<lambda>_. True)) ms"] show ?thesis by (simp add: keep_all_def comp_def)
qed

lemma rs_statistic_shape:
  assumes "shape log_ratio = shape ms"
  shows "shape (rs_statistic ex opt log_ratio ms) = shape ms"
proof (cases "token_level opt")
  case True
  then show ?thesis using assms by (simp add: rs_statistic_def tensor_map_def comp_def)
next
  case False
  then show ?thesis using map_eq_imp_length_eq [OF assms]
    by (intro nth_equalityI) (simp_all add: rs_statistic_def)
qed

lemma rs_steps_keep:
  "map_res (rs_step ex lg rt log_ratio ms) ths = Inr steps \<Longrightarrow>
    map fst steps = map (\<lambda>(opt, th). map (map (inside (stat_bounds lg th))) (rs_statistic ex opt log_ratio ms)) ths"
proof (induction ths arbitrary: steps)
  case (Cons t ths)
  then show ?case
    by (cases t) (auto simp: bind_res_eq_Inr rs_step_def Let_def)
qed simp

text \<open>A token keeps its mask exactly when every option finds its statistic inside the bounds.\<close>

lemma rejection_places:
  assumes "compute_rollout_rejection_mask ex lg rt log_ratio ms rollout_rs (Some spec) = Inr (mask', mt)" "log_ratio \<noteq> []"
    "shape log_ratio = shape ms" "i < length ms" "j < length (ms ! i)"
  obtains options ths where "rs_options rollout_rs = Inr options" "parse_rollout_rs_thresholds options spec = Inr ths"
    "shape mask' = shape ms"
    "mask' ! i ! j = (if \<forall>(opt, th)\<in>set ths. inside (stat_bounds lg th) (rs_statistic ex opt log_ratio ms ! i ! j)
                      then ms ! i ! j else 0)"
proof -
  obtain options ths steps where parsed: "rs_options rollout_rs = Inr options" "parse_rollout_rs_thresholds options spec = Inr ths"
      "map_res (rs_step ex lg rt log_ratio ms) ths = Inr steps"
    and mask: "mask' = map2 (map2 (\<lambda>m k. m * of_bool k)) ms (keep_all ms (map fst steps))"
    using assms(1,2) by (auto simp: compute_rollout_rejection_mask_def bind_res_eq_Inr Let_def)
  let ?keep = "\<lambda>(opt, th). map (map (inside (stat_bounds lg th))) (rs_statistic ex opt log_ratio ms)"
  have keeps: "map fst steps = map ?keep ths" by (rule rs_steps_keep [OF parsed(3)])
  have sh: "\<forall>k\<in>set (map ?keep ths). shape k = shape ms"
    using rs_statistic_shape [OF assms(3)] by (auto simp: comp_def)
  note all = keep_all_places [OF sh]
  have "keep_all ms (map fst steps) ! i ! j \<longleftrightarrow>
      (\<forall>(opt, th)\<in>set ths. inside (stat_bounds lg th) (rs_statistic ex opt log_ratio ms ! i ! j))"
  proof -
    have "keep_all ms (map ?keep ths) ! i ! j \<longleftrightarrow> (\<forall>t\<in>set ths. ?keep t ! i ! j)" using all assms(4,5) by auto
    moreover have "?keep (opt, th) ! i ! j = inside (stat_bounds lg th) (rs_statistic ex opt log_ratio ms ! i ! j)" for opt th
      using shape_nth [OF rs_statistic_shape [OF assms(3)] assms(4), of ex opt] assms(5) by simp
    ultimately show ?thesis unfolding keeps by auto
  qed
  moreover have "shape mask' = shape ms" "mask' ! i ! j = ms ! i ! j * of_bool (keep_all ms (map fst steps) ! i ! j)"
    using all shape_map2 [of ms "keep_all ms (map fst steps)"] map2_nth2 [of ms "keep_all ms (map fst steps)" i j]
      shape_nth [of "keep_all ms (map fst steps)" ms i] assms(4,5)
    by (simp_all add: mask keeps)
  ultimately show ?thesis using that [OF parsed(1,2)] by simp
qed

section \<open>Ratio bounds\<close>

text \<open>The logarithm of the ratio a \<open>k1\<close> option looks at: of the token, or the sum or mean of its sequence.\<close>

definition k1_log_ratio :: "string \<Rightarrow> rat list \<Rightarrow> rat list \<Rightarrow> nat \<Rightarrow> rat" where
  "k1_log_ratio opt r m j =
     (if opt = ''token_k1'' then safe_ratio (r ! j)
      else if opt = ''seq_sum_k1'' then masked_sum_seq (map safe_ratio r) m
      else row_masked_mean (map safe_ratio r) m)"

lemma masked_sum_seq_uminus: "masked_sum_seq (map (\<lambda>x. - f x) r) m = - masked_sum_seq (map f r) m"
proof (induction r arbitrary: m)
  case (Cons x r)
  show ?case using Cons.IH by (cases m) (auto simp: masked_sum_seq_def)
qed (simp add: masked_sum_seq_def)

definition k1_options :: "string set" where
  "k1_options = {''token_k1'', ''seq_sum_k1'', ''seq_mean_k1''}"

lemma k1_option_facts:
  assumes "opt \<in> k1_options"
  shows "rs_options opt = Inr [opt]" "py_endswith opt ''k1''" "token_level opt \<longleftrightarrow> opt = ''token_k1''"
    "opt \<noteq> ''token_k1'' \<Longrightarrow> py_startswith opt ''seq_sum'' \<longleftrightarrow> opt = ''seq_sum_k1''"
    "opt = ''seq_mean_k1'' \<Longrightarrow> py_startswith opt ''seq_mean''"
proof -
  have "rs_options ''token_k1'' = Inr [''token_k1'']" "rs_options ''seq_sum_k1'' = Inr [''seq_sum_k1'']"
    "rs_options ''seq_mean_k1'' = Inr [''seq_mean_k1'']"
    by code_simp+
  then show "rs_options opt = Inr [opt]" using assms by (auto simp: k1_options_def)
  show "py_endswith opt ''k1''" "token_level opt \<longleftrightarrow> opt = ''token_k1''"
    using assms by (auto simp: k1_options_def py_endswith_def token_level_def TOKEN_LEVEL_ROLLOUT_RS_OPTIONS_def)
  show "opt \<noteq> ''token_k1'' \<Longrightarrow> py_startswith opt ''seq_sum'' \<longleftrightarrow> opt = ''seq_sum_k1''"
    "opt = ''seq_mean_k1'' \<Longrightarrow> py_startswith opt ''seq_mean''"
    using assms by (auto simp: k1_options_def)
qed

lemma k1_statistic:
  assumes "opt \<in> k1_options" "shape log_ratio = shape ms" "i < length ms" "j < length (ms ! i)"
  shows "rs_statistic ex opt log_ratio ms ! i ! j = - k1_log_ratio opt (log_ratio ! i) (ms ! i) j"
proof -
  note facts = k1_option_facts [OF assms(1)] and places = shape_nth [OF assms(2,3)]
  have div: "token_divergence ex opt = (\<lambda>x. - safe_ratio x)"
    by (rule ext) (simp add: token_divergence_def facts(2) Let_def)
  consider (token) "opt = ''token_k1''" | (sum) "opt = ''seq_sum_k1''" | (avg) "opt = ''seq_mean_k1''"
    using assms(1) by (auto simp: k1_options_def)
  then show ?thesis
  proof cases
    case token
    show ?thesis
      using places assms(3,4) div facts(3) unfolding token
      by (simp add: rs_statistic_def tensor_map_def k1_log_ratio_def)
  next
    case sum
    have "rs_statistic ex opt log_ratio ms ! i ! j = seq_statistic ex opt (log_ratio ! i) (ms ! i)"
      using places assms(3,4) facts(3) sum by (simp add: rs_statistic_def)
    then show ?thesis
      using facts(4) sum by (simp add: seq_statistic_def div [unfolded sum] masked_sum_seq_uminus k1_log_ratio_def)
  next
    case avg
    have "rs_statistic ex opt log_ratio ms ! i ! j = seq_statistic ex opt (log_ratio ! i) (ms ! i)"
      using places assms(3,4) facts(3) avg by (simp add: rs_statistic_def)
    then show ?thesis
      using facts(4,5) avg by (simp add: seq_statistic_def div [unfolded avg] masked_sum_seq_uminus k1_log_ratio_def row_masked_mean_def)
  qed
qed

text \<open>An option of kind \<open>k1\<close> with the bounds \<open>lower_upper\<close> keeps a token exactly when the inverse of the
  ratio of training to rollout policy (of the token, of the product or of the geometric mean of its
  sequence) lies between them: the ratio itself is kept between \<open>1/upper\<close> and \<open>1/lower\<close>, which the
  documentation states the other way round.\<close>

theorem ratio_bounds_inverted:
  assumes "compute_rollout_rejection_mask ex lg rt log_ratio ms opt (Some spec) = Inr (mask', mt)" "opt \<in> k1_options"
    "parse_rollout_rs_thresholds [opt] spec = Inr [(opt, Some l, u)]" "log_ratio \<noteq> []" "shape log_ratio = shape ms"
    "strict_mono ex" "\<And>x. ex (- x) = 1 / ex x" "ex (lg l) = l" "ex (lg u) = u" "i < length ms" "j < length (ms ! i)"
  shows "mask' ! i ! j =
    (if l \<le> 1 / ex (k1_log_ratio opt (log_ratio ! i) (ms ! i) j) \<and> 1 / ex (k1_log_ratio opt (log_ratio ! i) (ms ! i) j) \<le> u
     then ms ! i ! j else 0)"
proof -
  let ?x = "k1_log_ratio opt (log_ratio ! i) (ms ! i) j"
  obtain options ths where "rs_options opt = Inr options" "parse_rollout_rs_thresholds options spec = Inr ths"
    and mask: "mask' ! i ! j = (if \<forall>(opt, th)\<in>set ths. inside (stat_bounds lg th) (rs_statistic ex opt log_ratio ms ! i ! j)
                               then ms ! i ! j else 0)"
    using rejection_places [OF assms(1,4,5,10,11)] by blast
  then have "ths = [(opt, Some l, u)]" using k1_option_facts(1) [OF assms(2)] assms(3) by simp
  then have "mask' ! i ! j = (if lg l \<le> - ?x \<and> - ?x \<le> lg u then ms ! i ! j else 0)"
    using mask k1_statistic [OF assms(2,5,10,11)] by (simp add: stat_bounds_def inside_def)
  moreover have "lg l \<le> - ?x \<longleftrightarrow> l \<le> 1 / ex ?x" "- ?x \<le> lg u \<longleftrightarrow> 1 / ex ?x \<le> u"
    using strict_mono_less_eq [OF assms(6), of "lg l" "- ?x"] strict_mono_less_eq [OF assms(6), of "- ?x" "lg u"]
    by (simp_all add: assms(7,8,9))
  ultimately show ?thesis by simp
qed

text \<open>A strictly monotone function with the laws the statements ask of the exponential, and its inverse.\<close>

definition sample_exp :: "rat \<Rightarrow> rat" where
  "sample_exp x = (if 0 \<le> x then 1 + x else 1 / (1 - x))"

definition sample_log :: "rat \<Rightarrow> rat" where
  "sample_log y = (if 1 \<le> y then y - 1 else 1 - 1 / y)"

lemma sample_exp_laws: "strict_mono sample_exp" "sample_exp (- x) = 1 / sample_exp x" "0 < sample_exp x"
proof -
  show "strict_mono sample_exp"
  proof (rule strict_monoI)
    fix x y :: rat
    assume "x < y"
    consider "0 \<le> x" | "y < 0" | "x < 0" "0 \<le> y" by linarith
    then show "sample_exp x < sample_exp y"
    proof cases
      case 3
      then have "1 / (1 - x) < 1" by (simp add: divide_less_eq)
      then have "1 / (1 - x) < 1 + y" using 3 by linarith
      then show ?thesis using 3 by (simp add: sample_exp_def)
    qed (use \<open>x < y\<close> in \<open>simp_all add: sample_exp_def frac_less2\<close>)
  qed
  show "sample_exp (- x) = 1 / sample_exp x" "0 < sample_exp x"
    by (auto simp: sample_exp_def)
qed

theorem ratio_bounds_inverted_witness:
  "\<exists>mask' mt. compute_rollout_rejection_mask sample_exp sample_log id [[1 / 2, - (2 / 3)]] [[1, 1]] ''token_k1'' (Some (Spec ''0.6_1.6'')) =
      Inr (mask', mt) \<and> mask' ! 0 ! 1 = 0 \<and> (3 / 5 :: rat) \<le> sample_exp (- (2 / 3)) \<and> sample_exp (- (2 / 3)) \<le> 8 / 5"
proof -
  have parse: "parse_rollout_rs_thresholds [''token_k1''] (Spec ''0.6_1.6'') = Inr [(''token_k1'', Some (3 / 5), 8 / 5)]"
    by code_simp
  have "case compute_rollout_rejection_mask sample_exp sample_log id [[1 / 2, - (2 / 3)]] [[1, 1]] ''token_k1'' (Some (Spec ''0.6_1.6'')) of
      Inl e \<Rightarrow> False | Inr r \<Rightarrow> True"
    by code_simp
  then obtain mask' mt where r: "compute_rollout_rejection_mask sample_exp sample_log id [[1 / 2, - (2 / 3)]] [[1, 1]] ''token_k1''
      (Some (Spec ''0.6_1.6'')) = Inr (mask', mt)"
    by (auto split: sum.splits)
  have "mask' ! 0 ! 1 = 0"
    using ratio_bounds_inverted [OF r _ parse, of 0 1] sample_exp_laws
    by (simp add: k1_options_def k1_log_ratio_def safe_ratio_def clamp_def SAFETY_BOUND_def sample_exp_def sample_log_def)
  then show ?thesis using r by (auto simp: sample_exp_def)
qed

section \<open>What the weights are\<close>

lemma parse_bounds_ok:
  "parse_rollout_is_threshold spec = Inr (u, lo) \<Longrightarrow> 0 < u \<and> (\<forall>l. lo = Some l \<longrightarrow> 0 < l \<and> l \<le> u)"
  by (auto simp: parse_rollout_is_threshold_def bind_res_eq_Inr not_le not_less split: if_splits option.splits)

text \<open>The ratio of training to rollout policy that a weight stands for.\<close>

definition policy_ratio :: "(rat \<Rightarrow> rat) \<Rightarrow> string \<Rightarrow> tensor \<Rightarrow> tensor \<Rightarrow> nat \<Rightarrow> nat \<Rightarrow> rat" where
  "policy_ratio ex level log_ratio ms i j =
     ex (safe_ratio (if level = ''token'' then log_ratio ! i ! j else masked_sum_seq (log_ratio ! i) (ms ! i)))"

lemma raw_weights_places:
  assumes "shape log_ratio = shape ms" "i < length ms" "j < length (ms ! i)"
  shows "raw_weights ex level log_ratio ms ! i ! j = policy_ratio ex level log_ratio ms i j * ms ! i ! j"
  using shape_nth [OF assms(1,2)] assms(2,3)
  by (simp add: raw_weights_def policy_ratio_def tensor_map2_def)

lemma raw_weights_shape:
  assumes "shape log_ratio = shape ms"
  shows "shape (raw_weights ex level log_ratio ms) = shape ms"
proof (cases "level = ''token''")
  case True
  then show ?thesis using shape_map2 [OF assms] by (simp add: raw_weights_def tensor_map2_def del: map_map)
next
  case False
  then show ?thesis using map_eq_imp_length_eq [OF assms]
    by (intro nth_equalityI) (simp_all add: raw_weights_def)
qed

lemma tensor_map_places: "i < length x \<Longrightarrow> j < length (x ! i) \<Longrightarrow> tensor_map f x ! i ! j = f (x ! i ! j)"
  by (simp add: tensor_map_def)

lemma tensor_map_shape [simp]: "shape (tensor_map f x) = shape x"
  by (simp add: tensor_map_def comp_def)

lemma process_weight_bounds:
  assumes "0 < u" "0 \<le> w" "\<And>l. lo = Some l \<Longrightarrow> 0 < l"
  shows "0 \<le> process_weight (u, lo) w \<and> process_weight (u, lo) w \<le> u"
  using assms by (auto simp: process_weight_def split: option.split)

lemma mask_places: "mask_ok ms \<Longrightarrow> i < length ms \<Longrightarrow> j < length (ms ! i) \<Longrightarrow> ms ! i ! j = 0 \<or> ms ! i ! j = 1"
  unfolding mask_ok_def by (meson nth_mem)

definition weight_spec :: "rat \<times> rat option \<Rightarrow> rat \<Rightarrow> rat \<Rightarrow> rat" where
  "weight_spec bounds ratio m = (if m = 0 then 0 else process_weight bounds ratio)"

lemma applied_weights:
  assumes "shape log_ratio = shape ms" "mask_ok ms" "\<And>x. 0 < ex x" "parse_rollout_is_threshold spec = Inr (u, lo)"
    "i < length ms" "j < length (ms ! i)"
  shows "tensor_map (process_weight (u, lo)) (raw_weights ex level log_ratio ms) ! i ! j =
      weight_spec (u, lo) (policy_ratio ex level log_ratio ms i j) (ms ! i ! j)"
    "0 \<le> weight_spec (u, lo) (policy_ratio ex level log_ratio ms i j) (ms ! i ! j)"
    "weight_spec (u, lo) (policy_ratio ex level log_ratio ms i j) (ms ! i ! j) \<le> u"
proof -
  note ok = parse_bounds_ok [OF assms(4)]
  have zero: "process_weight (u, lo) 0 = 0" using ok by (auto simp: process_weight_def split: option.split)
  have pos: "0 \<le> policy_ratio ex level log_ratio ms i j" using assms(3) by (simp add: policy_ratio_def less_imp_le)
  show "tensor_map (process_weight (u, lo)) (raw_weights ex level log_ratio ms) ! i ! j =
      weight_spec (u, lo) (policy_ratio ex level log_ratio ms i j) (ms ! i ! j)"
    using shape_nth [OF raw_weights_shape [OF assms(1)] assms(5), of ex level] raw_weights_places [OF assms(1,5,6), of ex level]
      mask_places [OF assms(2,5,6)] assms(6)
    by (auto simp: tensor_map_places weight_spec_def zero)
  show "0 \<le> weight_spec (u, lo) (policy_ratio ex level log_ratio ms i j) (ms ! i ! j)"
    "weight_spec (u, lo) (policy_ratio ex level log_ratio ms i j) (ms ! i ! j) \<le> u"
    using process_weight_bounds [of u "policy_ratio ex level log_ratio ms i j" lo] ok pos by (auto simp: weight_spec_def)
qed

section \<open>Means are linear\<close>

lemma masked_sum_seq_div: "masked_sum_seq (map (\<lambda>x. x / c) r) m = masked_sum_seq r m / c"
proof (induction r arbitrary: m)
  case (Cons x r)
  show ?case using Cons.IH by (cases m) (simp_all add: masked_sum_seq_def add_divide_distrib)
qed (simp add: masked_sum_seq_def)

lemma masked_sum_div: "masked_sum (tensor_map (\<lambda>x. x / c) x) ms = masked_sum x ms / c"
proof (induction x arbitrary: ms)
  case (Cons r x)
  show ?case
    using Cons.IH masked_sum_seq_div [of c r]
    by (cases ms) (simp_all add: masked_sum_def tensor_sum_def tensor_map2_def tensor_map_def masked_sum_seq_def add_divide_distrib)
qed (simp add: masked_sum_def tensor_sum_def tensor_map2_def tensor_map_def)

lemma row_means_div: "map2 row_masked_mean (tensor_map (\<lambda>x. x / c) w) ms = map (\<lambda>x. x / c) (map2 row_masked_mean w ms)"
proof (induction w arbitrary: ms)
  case (Cons r w)
  show ?case
    using Cons.IH by (cases ms) (simp_all add: tensor_map_def row_masked_mean_def masked_sum_seq_div mult.commute)
qed (simp add: tensor_map_def)

lemma weighted_sum_div: "sum_list (map2 (*) (map (\<lambda>x. x / c) xs) ys) = sum_list (map2 (*) xs ys) / (c :: rat)"
proof (induction xs arbitrary: ys)
  case (Cons x xs)
  show ?case using Cons.IH by (cases ys) (simp_all add: add_divide_distrib)
qed simp

lemma weights_mean_div: "weights_mean level (tensor_map (\<lambda>x. x / c) w) ms = weights_mean level w ms / c"
  unfolding weights_mean_def Let_def tensor_masked_mean_def masked_sum_div row_means_div weighted_sum_div
  by (simp add: mult.commute)

text \<open>C32. The weights of the loss are those the names promise: zero on padding, the ratio of the policies
  truncated at the upper bound, or the ratio inside the two bounds and zero outside them, so never
  negative nor above the bound; normalization divides all of them by one positive number, which makes
  their mean one unless it was negligible.\<close>

theorem importance_weights_bounded:
  assumes "compute_rollout_correction_weights ex lg rt log_ratio ms level spec nrm = Inr (w', mt)"
    "parse_rollout_is_threshold spec = Inr (u, lo)" "shape log_ratio = shape ms" "mask_ok ms" "\<And>x. 0 < ex x"
  shows "\<exists>w c. 0 < c \<and> w' = tensor_map (\<lambda>x. x / c) w \<and> shape w = shape ms \<and> (\<not> nrm \<longrightarrow> c = 1) \<and>
    (nrm \<longrightarrow> weights_mean level w' ms = 1 \<or> c = 1 \<and> weights_mean level w ms \<le> small) \<and>
    (\<forall>i<length ms. \<forall>j<length (ms ! i). 0 \<le> w ! i ! j \<and> w ! i ! j \<le> u \<and>
       w ! i ! j = weight_spec (u, lo) (policy_ratio ex level log_ratio ms i j) (ms ! i ! j))"
proof -
  define w where "w = tensor_map (process_weight (u, lo)) (raw_weights ex level log_ratio ms)"
  have w': "w' = (if nrm then fst (normalize_weights level w ms) else w)"
    using assms(1,2) by (auto simp: compute_rollout_correction_weights_def w_def bind_res_eq_Inr Let_def case_prod_unfold split: if_splits)
  define c where "c = (if nrm \<and> small < weights_mean level w ms then weights_mean level w ms else 1)"
  have one: "tensor_map (\<lambda>x. x / 1) w = w" by (simp add: tensor_map_def)
  have c: "0 < c" "w' = tensor_map (\<lambda>x. x / c) w" "\<not> nrm \<longrightarrow> c = 1"
    "nrm \<longrightarrow> weights_mean level w' ms = 1 \<or> c = 1 \<and> weights_mean level w ms \<le> small"
    using w' one weights_mean_div [of level _ w ms]
    by (auto simp: c_def normalize_weights_def Let_def small_def)
  show ?thesis
    using c applied_weights [where log_ratio = log_ratio and ms = ms and level = level and ex = ex, OF assms(3,4,5,2)] raw_weights_shape [OF assms(3)]
    by (intro exI [of _ w] exI [of _ c]) (simp add: w_def)
qed

theorem importance_weights_bounded_witness:
  "\<exists>w' mt w c. compute_rollout_correction_weights sample_exp sample_log id [[1 / 2, - (2 / 3)], [0, 0]] [[1, 1], [1, 0]] ''token''
      (Spec ''1.2'') True = Inr (w', mt) \<and> 0 < c \<and> w' = tensor_map (\<lambda>x. x / c) w \<and> w ! 0 ! 0 = 6 / 5 \<and> w ! 0 ! 1 = 3 / 5"
proof -
  have parse: "parse_rollout_is_threshold (Spec ''1.2'') = Inr (6 / 5, None)" by code_simp
  have "case compute_rollout_correction_weights sample_exp sample_log id [[1 / 2, - (2 / 3)], [0, 0]] [[1, 1], [1, 0]] ''token'' (Spec ''1.2'') True of
      Inl e \<Rightarrow> False | Inr r \<Rightarrow> True"
    by code_simp
  then obtain w' mt where r: "compute_rollout_correction_weights sample_exp sample_log id [[1 / 2, - (2 / 3)], [0, 0]] [[1, 1], [1, 0]] ''token''
      (Spec ''1.2'') True = Inr (w', mt)"
    by (auto split: sum.splits)
  let ?r = "[[1 / 2, - (2 / 3)], [0, 0 :: rat]]" and ?m = "[[1, 1], [1, 0 :: rat]]"
  have "shape ?r = shape ?m" "mask_ok ?m" by (simp_all add: mask_ok_def)
  from importance_weights_bounded [OF r parse this sample_exp_laws(3)]
  obtain w c where w: "0 < c" "w' = tensor_map (\<lambda>x. x / c) w"
    and places: "\<forall>i<length ?m. \<forall>j<length (?m ! i). 0 \<le> w ! i ! j \<and> w ! i ! j \<le> 6 / 5 \<and>
      w ! i ! j = weight_spec (6 / 5, None) (policy_ratio sample_exp ''token'' ?r ?m i j) (?m ! i ! j)"
    by blast
  have "w ! 0 ! 0 = weight_spec (6 / 5, None) (policy_ratio sample_exp ''token'' ?r ?m 0 0) 1"
    "w ! 0 ! 1 = weight_spec (6 / 5, None) (policy_ratio sample_exp ''token'' ?r ?m 0 1) 1"
    using places by simp_all
  then have "w ! 0 ! 0 = 6 / 5" "w ! 0 ! 1 = 3 / 5"
    by (simp_all add: weight_spec_def process_weight_def policy_ratio_def safe_ratio_def clamp_def SAFETY_BOUND_def sample_exp_def)
  then show ?thesis using r w by blast
qed

section \<open>When the weights fail\<close>

lemma valid_values_sum:
  "(\<forall>x\<in>set m. x = 0 \<or> x = 1) \<Longrightarrow> sum_list (map2 (\<lambda>v x. (if x \<noteq> 0 then v else 0) * x) r m) = sum_list (valid_values r m)"
proof (induction r arbitrary: m)
  case (Cons v r)
  then show ?case by (cases m) (auto simp: valid_values_def)
qed (simp add: valid_values_def)

lemma masked_sum_valid: "mask_ok ms \<Longrightarrow> masked_sum x ms = sum_list (all_valid_values x ms)"
proof (induction x arbitrary: ms)
  case (Cons r x)
  then show ?case
    by (cases ms) (auto simp: masked_sum_def tensor_sum_def tensor_map2_def all_valid_values_def mask_ok_def valid_values_sum)
qed (simp add: masked_sum_def tensor_sum_def tensor_map2_def all_valid_values_def)

lemma valid_values_map: "valid_values (map f r) m = map f (valid_values r m)"
proof (induction r arbitrary: m)
  case (Cons v r)
  show ?case using Cons.IH by (cases m) (auto simp: valid_values_def)
qed (simp add: valid_values_def)

lemma all_valid_values_map: "all_valid_values (tensor_map f x) ms = map f (all_valid_values x ms)"
proof (induction x arbitrary: ms)
  case (Cons r x)
  show ?case using Cons.IH by (cases ms) (auto simp: all_valid_values_def tensor_map_def valid_values_map)
qed (simp add: all_valid_values_def tensor_map_def)

lemma set_all_valid:
  assumes "shape x = shape ms"
  shows "set (all_valid_values x ms) = {x ! i ! j | i j. i < length ms \<and> j < length (ms ! i) \<and> ms ! i ! j \<noteq> 0}"
proof -
  have row: "set (valid_values r m) = {r ! j | j. j < length m \<and> m ! j \<noteq> 0}" if "length r = length m" for r m :: "rat list"
    using that by (force simp: valid_values_def set_zip)
  have "set (all_valid_values x ms) = (\<Union>i<length ms. set (valid_values (x ! i) (ms ! i)))"
    using map_eq_imp_length_eq [OF assms] by (force simp: all_valid_values_def set_zip)
  also have "\<dots> = (\<Union>i<length ms. {x ! i ! j | j. j < length (ms ! i) \<and> ms ! i ! j \<noteq> 0})"
    using shape_nth [OF assms] row by (intro SUP_cong) auto
  finally show ?thesis by auto
qed

lemma sum_list_squares_0:
  fixes c :: rat
  assumes "c \<noteq> 0" "\<forall>v\<in>set vs. 0 \<le> v"
  shows "sum_list (map (\<lambda>v. (v / c) ^ 2) vs) = 0 \<longleftrightarrow> (\<forall>v\<in>set vs. v = 0)"
proof -
  have "sum_list (map (\<lambda>v. (v / c) ^ 2) vs) = 0 \<longleftrightarrow> (\<forall>y\<in>set (map (\<lambda>v. (v / c) ^ 2) vs). y = 0)"
    by (rule sum_list_nonneg_eq_0_iff) auto
  then show ?thesis using assms(1) by simp
qed

lemma effective_sample_size_fails:
  assumes "mask_ok ms" "\<forall>v\<in>set (all_valid_values w ms). 0 \<le> v \<and> v \<le> u"
  shows "effective_sample_size u w ms = Inl ZeroDivisionError \<longleftrightarrow> (\<forall>v\<in>set (all_valid_values w ms). v = 0)"
    "effective_sample_size u w ms = Inl ZeroDivisionError \<or> (\<exists>x. effective_sample_size u w ms = Inr x)"
proof -
  let ?vs = "all_valid_values w ms"
  define c where "c = tensor_masked_mean (tensor_map (clamp 0 u) w) ms + small"
  have pos: "0 < tensor_sum ms + small" using mask_sum_nonneg [OF assms(1)] by (simp add: small_def)
  have used: "map (clamp 0 u) ?vs = ?vs" using assms(2) by (auto simp: clamp_def intro!: map_idI)
  have "0 \<le> sum_list ?vs" using assms(2) by (intro sum_list_nonneg) auto
  then have "0 < c"
    using pos by (simp add: c_def tensor_masked_mean_def masked_sum_valid [OF assms(1)] all_valid_values_map used small_def add_nonneg_pos)
  moreover have "tensor_masked_mean (tensor_map (\<lambda>v. (v / c) ^ 2) (tensor_map (clamp 0 u) w)) ms =
      sum_list (map (\<lambda>v. (v / c) ^ 2) ?vs) / (tensor_sum ms + small)"
    unfolding tensor_masked_mean_def masked_sum_valid [OF assms(1)] all_valid_values_map used ..
  ultimately have "effective_sample_size u w ms =
      (if sum_list (map (\<lambda>v. (v / c) ^ 2) ?vs) / (tensor_sum ms + small) = 0 then Inl ZeroDivisionError
       else Inr (1 / (sum_list (map (\<lambda>v. (v / c) ^ 2) ?vs) / (tensor_sum ms + small))))"
    by (simp only: effective_sample_size_def Let_def c_def)
  moreover have "sum_list (map (\<lambda>v. (v / c) ^ 2) ?vs) / (tensor_sum ms + small) = 0 \<longleftrightarrow> (\<forall>v\<in>set ?vs. v = 0)"
    using sum_list_squares_0 [of c ?vs] \<open>0 < c\<close> assms(2) pos by auto
  ultimately show "effective_sample_size u w ms = Inl ZeroDivisionError \<longleftrightarrow> (\<forall>v\<in>set ?vs. v = 0)"
    "effective_sample_size u w ms = Inl ZeroDivisionError \<or> (\<exists>x. effective_sample_size u w ms = Inr x)"
    by auto
qed

text \<open>The effective sample size is the only part of the computation that can fail.\<close>

lemma is_metrics_run:
  assumes "any_valid ms"
  shows "\<exists>M. compute_is_metrics ex lg rt w raw log_ratio ms level bounds =
    bind_res (effective_sample_size (fst bounds) w ms) (\<lambda>e. Inr (M e))"
  unfolding compute_is_metrics_def Let_def using assms by (simp only: simp_thms if_False) (rule exI, rule refl)

lemma weights_run:
  assumes "level \<in> {''token'', ''sequence''}" "parse_rollout_is_threshold spec = Inr (u, lo)" "any_valid ms"
  shows "\<exists>R. compute_rollout_correction_weights ex lg rt log_ratio ms level spec nrm =
    bind_res (effective_sample_size u (tensor_map (process_weight (u, lo)) (raw_weights ex level log_ratio ms)) ms) (\<lambda>e. Inr (R e))"
proof -
  let ?raw = "raw_weights ex level log_ratio ms"
  let ?w = "tensor_map (process_weight (u, lo)) ?raw"
  obtain M where M: "compute_is_metrics ex lg rt ?w ?raw log_ratio ms level (u, lo) =
      bind_res (effective_sample_size u ?w ms) (\<lambda>e. Inr (M e))"
    using is_metrics_run [OF assms(3), where bounds = "(u, lo)"] by fastforce
  obtain w' f where n: "normalize_weights level ?w ms = (w', f)" by fastforce
  show ?thesis
  proof (cases nrm)
    case True
    then show ?thesis using assms(1)
      unfolding compute_rollout_correction_weights_def assms(2) bind_res_Inr Let_def M bind_res_assoc n
      by (simp only: simp_thms if_True if_False case_prod_conv) (rule exI, rule refl)
  next
    case False
    then show ?thesis using assms(1)
      unfolding compute_rollout_correction_weights_def assms(2) bind_res_Inr Let_def M bind_res_assoc
      by (simp only: simp_thms if_True if_False) (rule exI, rule refl)
  qed
qed

text \<open>C33. Truncated weights are always computed. Weights with two bounds are not: a batch in which the ratio
  of every valid token lies outside them makes the effective sample size divide by zero, and that is
  the only failure.\<close>

theorem weights_fail_when_all_rejected:
  assumes "level \<in> {''token'', ''sequence''}" "parse_rollout_is_threshold spec = Inr (u, lo)" "shape log_ratio = shape ms"
    "mask_ok ms" "any_valid ms" "\<And>x. 0 < ex x"
  shows "(if \<exists>l. lo = Some l \<and> (\<forall>i<length ms. \<forall>j<length (ms ! i). ms ! i ! j = 1 \<longrightarrow>
              policy_ratio ex level log_ratio ms i j < l \<or> u < policy_ratio ex level log_ratio ms i j)
          then compute_rollout_correction_weights ex lg rt log_ratio ms level spec nrm = Inl ZeroDivisionError
          else \<exists>w mt. compute_rollout_correction_weights ex lg rt log_ratio ms level spec nrm = Inr (w, mt))"
    (is "if ?bad then _ else _")
proof -
  define w where "w = tensor_map (process_weight (u, lo)) (raw_weights ex level log_ratio ms)"
  have sh: "shape w = shape ms" using raw_weights_shape [OF assms(3)] by (simp add: w_def)
  note vals = set_all_valid [OF sh] and w = applied_weights [where level = level and ex = ex, OF assms(3,4,6,2), folded w_def]
  have range: "\<forall>v\<in>set (all_valid_values w ms). 0 \<le> v \<and> v \<le> u" unfolding vals using w by auto
  obtain R where run: "compute_rollout_correction_weights ex lg rt log_ratio ms level spec nrm =
      bind_res (effective_sample_size u w ms) (\<lambda>e. Inr (R e))"
    using weights_run [OF assms(1,2,5)] unfolding w_def by blast
  have entry: "ms ! i ! j \<noteq> 0 \<longleftrightarrow> ms ! i ! j = 1"
      "ms ! i ! j \<noteq> 0 \<Longrightarrow> w ! i ! j = process_weight (u, lo) (policy_ratio ex level log_ratio ms i j)"
    if "i < length ms" "j < length (ms ! i)" for i j
    using w(1) [OF that] mask_places [OF assms(4) that] by (auto simp: weight_spec_def)
  have "(\<forall>v\<in>set (all_valid_values w ms). v = 0) \<longleftrightarrow>
      (\<forall>i j. i < length ms \<and> j < length (ms ! i) \<and> ms ! i ! j \<noteq> 0 \<longrightarrow> w ! i ! j = 0)"
    unfolding vals by blast
  then have one: "(\<forall>v\<in>set (all_valid_values w ms). v = 0) \<longleftrightarrow>
      (\<forall>i<length ms. \<forall>j<length (ms ! i). ms ! i ! j = 1 \<longrightarrow> process_weight (u, lo) (policy_ratio ex level log_ratio ms i j) = 0)"
    using entry by metis
  have pos: "0 < policy_ratio ex level log_ratio ms i j" for i j using assms(6) by (simp add: policy_ratio_def)
  have proc: "process_weight (u, lo) r = 0 \<longleftrightarrow> (\<exists>l. lo = Some l \<and> (r < l \<or> u < r))" if "0 < r" for r
    using parse_bounds_ok [OF assms(2)] that by (auto simp: process_weight_def min_def split: option.split)
  obtain row m where "row \<in> set ms" "m \<in> set row" "m \<noteq> 0" using assms(5) by (auto simp: any_valid_def list_ex_iff)
  then obtain i j where "i < length ms" "j < length (ms ! i)" "ms ! i ! j \<noteq> 0" by (metis in_set_conv_nth)
  then have some: "i < length ms" "j < length (ms ! i)" "ms ! i ! j = 1" using mask_places [OF assms(4)] by blast+
  have bad: "(\<forall>v\<in>set (all_valid_values w ms). v = 0) \<longleftrightarrow> ?bad"
    unfolding one using proc [OF pos] some by (cases lo) auto
  show ?thesis
  proof (cases ?bad)
    case True
    then have "effective_sample_size u w ms = Inl ZeroDivisionError"
      using bad effective_sample_size_fails(1) [OF assms(4) range] by blast
    then show ?thesis by (simp only: if_P [OF True] run bind_res_Inl)
  next
    case False
    then obtain x where "effective_sample_size u w ms = Inr x"
      using bad effective_sample_size_fails [OF assms(4) range] by blast
    then show ?thesis by (simp only: if_not_P [OF False] run bind_res_Inr) (metis surj_pair)
  qed
qed

theorem weights_fail_when_all_rejected_witness:
  "compute_rollout_correction_weights sample_exp sample_log id [[1 / 2, - (2 / 3)]] [[1, 1]] ''token'' (Spec ''2_3'') True =
     Inl ZeroDivisionError"
proof -
  have parse: "parse_rollout_is_threshold (Spec ''2_3'') = Inr (3, Some 2)" by code_simp
  have out: "policy_ratio sample_exp ''token'' [[1 / 2, - (2 / 3)]] [[1, 1]] 0 j < 2" if "j < 2" for j
    using that by (cases j) (auto simp: policy_ratio_def safe_ratio_def clamp_def SAFETY_BOUND_def sample_exp_def less_Suc_eq)
  show ?thesis
    using weights_fail_when_all_rejected [where level = "''token''" and lg = sample_log and rt = id and nrm = True, OF _ parse, of "[[1 / 2, - (2 / 3)]]" "[[1, 1]]" sample_exp]
      sample_exp_laws(3) out
    by (simp add: mask_ok_def any_valid_def less_Suc_eq)
qed

section \<open>Batches without a valid token\<close>

text \<open>A micro-batch of padding rows only is an error in bypass mode.\<close>

lemma bypass_needs_valid_token:
  "pl_rollout_correction loss_cfg = Some rc \<Longrightarrow> \<not> any_valid ms \<Longrightarrow>
    compute_policy_loss_bypass_mode ex lg rt old lp adv ms mode cfg loss_cfg = Inl ValueError"
  by (simp add: compute_policy_loss_bypass_mode_def compute_rollout_correction_and_rejection_mask_def)

end
