(* ===== verification/ReplayBuffer.thy ===== *)
theory ReplayBuffer
  imports JsonRoundTrip Sampling
begin

text \<open>
  How the synchronous trainer with a transfer queue gets its batches (\<open>verl/trainer/main_ppo_sync.py\<close>):
  the manager marks prompts as running in a replay buffer, workers put finished trajectories and the
  state of their prompts in the transfer queue, a thread copies the queue's tags into the buffer, and
  the trainer samples the buffer when no prompt of its step is running. The queue is a third-party
  store: it is a record of operations, and locale \<open>tag_table\<close> states what the program relies on.
\<close>

section \<open>Tags\<close>

text \<open>A tag is a dictionary of strings to values; a partition is a dictionary of keys to tags.\<close>

datatype tag_value = TNone | TInt int | TStr string | TBool bool

type_synonym tag = "(string \<times> tag_value) list"
type_synonym tag_partition = "(string \<times> tag) list"

section \<open>The buffer\<close>

definition add_items :: "tag_partition \<Rightarrow> tag_partition \<Rightarrow> tag_partition" where
  "add_items items p =
     fold (\<lambda>(key, tags) p. AList.update key (dict_update (case map_of p key of None \<Rightarrow> [] | Some t \<Rightarrow> t) tags) p) items p"

definition remove_keys :: "string list \<Rightarrow> tag_partition \<Rightarrow> tag_partition" where
  "remove_keys keys p = fold AList.delete keys p"

type_synonym replay_buffer = "string \<Rightarrow> tag_partition"

definition rb_add :: "string \<Rightarrow> tag_partition \<Rightarrow> replay_buffer \<Rightarrow> replay_buffer" where
  "rb_add partition_id items rb = rb(partition_id := add_items items (rb partition_id))"

definition rb_remove :: "string \<Rightarrow> string list \<Rightarrow> replay_buffer \<Rightarrow> replay_buffer" where
  "rb_remove partition_id keys rb = rb(partition_id := remove_keys keys (rb partition_id))"

text \<open>
  One look at the buffer under its lock: nothing yet while a prompt of the step is running, otherwise
  the trajectories of the step. A tag without a step or a status is a \<open>KeyError\<close>.
\<close>

definition step_value :: "int option \<Rightarrow> tag_value" where
  "step_value global_steps = (case global_steps of None \<Rightarrow> TNone | Some g \<Rightarrow> TInt g)"

fun rb_scan :: "int option \<Rightarrow> tag_partition \<Rightarrow> tag_partition option res" where
  "rb_scan global_steps [] = Inr (Some [])"
| "rb_scan global_steps ((key, tag) # rest) =
     (case map_of tag ''global_steps'' of
        None \<Rightarrow> Inl KeyError
      | Some g \<Rightarrow>
          if g = step_value global_steps then
            (case map_of tag ''status'' of
               None \<Rightarrow> Inl KeyError
             | Some status \<Rightarrow>
                 if status = TStr ''running'' then Inr None
                 else if status = TStr ''success'' then
                   bind_res (rb_scan global_steps rest) (\<lambda>r. Inr (map_option (\<lambda>xs. (key, tag) # xs) r))
                 else rb_scan global_steps rest)
          else rb_scan global_steps rest)"

definition truthy_size :: "int option \<Rightarrow> bool" where
  "truthy_size n = (case n of None \<Rightarrow> False | Some k \<Rightarrow> k \<noteq> 0)"

definition rb_sample :: "string \<Rightarrow> int option \<Rightarrow> int option \<Rightarrow> replay_buffer \<Rightarrow> tag_partition option res" where
  "rb_sample partition_id global_steps batch_size rb =
     py_assert ((global_steps \<noteq> None \<or> truthy_size batch_size) \<and> \<not> (global_steps \<noteq> None \<and> truthy_size batch_size))
       (rb_scan global_steps (rb partition_id))"

section \<open>Keys and tags of a prompt\<close>

definition trajectory_key :: "string \<Rightarrow> nat \<Rightarrow> nat \<Rightarrow> string" where
  "trajectory_key uid session_id index = uid @ ''_'' @ str_nat session_id @ ''_'' @ str_nat index"

text \<open>The tags of the outputs of a session, from the lengths of their prompts and responses.\<close>

definition trajectory_tag :: "int \<Rightarrow> nat \<times> nat \<Rightarrow> tag" where
  "trajectory_tag global_steps lens =
     [(''global_steps'', TInt global_steps), (''status'', TStr ''success''), (''prompt_len'', TInt (int (fst lens))),
      (''response_len'', TInt (int (snd lens))), (''seq_len'', TInt (int (fst lens + snd lens)))]"

definition session_items :: "int \<Rightarrow> string \<Rightarrow> nat \<Rightarrow> (nat \<times> nat) list \<Rightarrow> tag_partition" where
  "session_items global_steps uid session_id outputs =
     map (\<lambda>(i, lens). (trajectory_key uid session_id i, trajectory_tag global_steps lens)) (enumerate 0 outputs)"

definition running_items :: "int \<Rightarrow> string list \<Rightarrow> tag_partition" where
  "running_items global_steps uids =
     map (\<lambda>uid. (uid, [(''global_steps'', TInt global_steps), (''status'', TStr ''running'')])) uids"

definition status_item :: "string \<Rightarrow> bool \<Rightarrow> tag_partition" where
  "status_item uid failed = [(uid, [(''status'', TStr (if failed then ''failure'' else ''finished''))])]"

section \<open>The system\<close>

text \<open>The operations of the queue on one partition.\<close>

record 'q kv_store =
  kv_list :: "'q \<Rightarrow> tag_partition"
  kv_put :: "tag_partition \<Rightarrow> 'q \<Rightarrow> 'q"
  kv_clear :: "string list \<Rightarrow> 'q \<Rightarrow> 'q"

text \<open>
  A prompt in the hands of a worker (\<open>_run_prompt\<close>): its step, the sessions not yet over, whether one has
  failed, and whether its final state was put. When a session fails the others go on and may still put
  their trajectories.
\<close>

record prompt_run =
  rn_steps :: int
  rn_pending :: "nat list"
  rn_failed :: bool
  rn_over :: bool

text \<open>
  The state: queue, buffer, the tags the polling thread has read but not yet added, the prompts, and
  what was published for which prompt and cleared again.
\<close>

record 'q replay_system =
  rs_queue :: 'q
  rs_buffer :: replay_buffer
  rs_read :: "tag_partition option"
  rs_runs :: "string \<rightharpoonup> prompt_run"
  rs_published :: "string \<rightharpoonup> string"
  rs_cleared :: "string set"

definition replay_start :: "'q \<Rightarrow> 'q replay_system" where
  "replay_start q = \<lparr>rs_queue = q, rs_buffer = (\<lambda>_. []), rs_read = None, rs_runs = Map.empty, rs_published = Map.empty, rs_cleared = {}\<rparr>"

text \<open>\<open>AgentLoopManagerTQ.generate_sequences\<close>: prompts get fresh identifiers without an underscore.\<close>

definition rs_generate :: "string \<Rightarrow> int \<Rightarrow> nat \<Rightarrow> string list \<Rightarrow> 'q replay_system \<Rightarrow> 'q replay_system option" where
  "rs_generate pid global_steps n uids s =
     (if distinct uids \<and> list_all (\<lambda>uid. CHR ''_'' \<notin> set uid \<and> rs_runs s uid = None) uids
      then Some (s\<lparr>rs_buffer := rb_add pid (running_items global_steps uids) (rs_buffer s),
                   rs_runs := rs_runs s ++ map_of (map (\<lambda>uid. (uid, \<lparr>rn_steps = global_steps, rn_pending = [0..<n],
                     rn_failed = False, rn_over = False\<rparr>)) uids)\<rparr>)
      else None)"

text \<open>\<open>_agent_loop_postprocess\<close> of one session; no output puts nothing.\<close>

definition rs_publish :: "'q kv_store \<Rightarrow> string \<Rightarrow> nat \<Rightarrow> (nat \<times> nat) list \<Rightarrow> 'q replay_system \<Rightarrow> 'q replay_system option" where
  "rs_publish ops uid session_id outputs s =
     (case rs_runs s uid of
        None \<Rightarrow> None
      | Some r \<Rightarrow>
          if session_id \<in> set (rn_pending r)
          then let items = session_items (rn_steps r) uid session_id outputs
               in Some (s\<lparr>rs_queue := (if outputs = [] then rs_queue s else kv_put ops items (rs_queue s)),
                          rs_runs := (rs_runs s)(uid \<mapsto> r\<lparr>rn_pending := remove1 session_id (rn_pending r)\<rparr>),
                          rs_published := rs_published s ++ map_of (map (\<lambda>(k, _). (k, uid)) items)\<rparr>)
          else None)"

definition rs_crash :: "string \<Rightarrow> nat \<Rightarrow> 'q replay_system \<Rightarrow> 'q replay_system option" where
  "rs_crash uid session_id s =
     (case rs_runs s uid of
        None \<Rightarrow> None
      | Some r \<Rightarrow>
          if session_id \<in> set (rn_pending r)
          then Some (s\<lparr>rs_runs := (rs_runs s)(uid \<mapsto> r\<lparr>rn_pending := remove1 session_id (rn_pending r), rn_failed := True\<rparr>)\<rparr>)
          else None)"

text \<open>The end of \<open>_run_prompt\<close>: all sessions are over, or one has failed.\<close>

definition rs_finish :: "'q kv_store \<Rightarrow> string \<Rightarrow> 'q replay_system \<Rightarrow> 'q replay_system option" where
  "rs_finish ops uid s =
     (case rs_runs s uid of
        None \<Rightarrow> None
      | Some r \<Rightarrow>
          if \<not> rn_over r \<and> (rn_failed r \<or> rn_pending r = [])
          then Some (s\<lparr>rs_queue := kv_put ops (status_item uid (rn_failed r)) (rs_queue s),
                       rs_runs := (rs_runs s)(uid \<mapsto> r\<lparr>rn_over := True\<rparr>)\<rparr>)
          else None)"

text \<open>The two halves of a poll, between which the other threads run.\<close>

definition rs_poll_read :: "'q kv_store \<Rightarrow> 'q replay_system \<Rightarrow> 'q replay_system option" where
  "rs_poll_read ops s = (if rs_read s = None then Some (s\<lparr>rs_read := Some (kv_list ops (rs_queue s))\<rparr>) else None)"

definition rs_poll_add :: "string \<Rightarrow> 'q replay_system \<Rightarrow> 'q replay_system option" where
  "rs_poll_add pid s =
     (case rs_read s of None \<Rightarrow> None | Some items \<Rightarrow> Some (s\<lparr>rs_buffer := rb_add pid items (rs_buffer s), rs_read := None\<rparr>))"

text \<open>The clean-up after a step, of keys the trainer has sampled: first the queue, then the buffer.\<close>

definition rs_clear :: "'q kv_store \<Rightarrow> string list \<Rightarrow> 'q replay_system \<Rightarrow> 'q replay_system option" where
  "rs_clear ops keys s =
     (if set keys \<subseteq> dom (rs_published s)
      then Some (s\<lparr>rs_queue := kv_clear ops keys (rs_queue s), rs_cleared := rs_cleared s \<union> set keys\<rparr>) else None)"

definition rs_remove :: "string \<Rightarrow> string list \<Rightarrow> 'q replay_system \<Rightarrow> 'q replay_system option" where
  "rs_remove pid keys s =
     (if set keys \<subseteq> rs_cleared s then Some (s\<lparr>rs_buffer := rb_remove pid keys (rs_buffer s)\<rparr>) else None)"

datatype replay_op =
    Generate int nat "string list" | Publish string nat "(nat \<times> nat) list" | Crash string nat | FinishPrompt string
  | PollRead | PollAdd | ClearKeys "string list" | RemoveKeys "string list"

fun replay_exec :: "'q kv_store \<Rightarrow> string \<Rightarrow> replay_op \<Rightarrow> 'q replay_system \<Rightarrow> 'q replay_system option" where
  "replay_exec ops pid (Generate g n uids) s = rs_generate pid g n uids s"
| "replay_exec ops pid (Publish uid i outputs) s = rs_publish ops uid i outputs s"
| "replay_exec ops pid (Crash uid i) s = rs_crash uid i s"
| "replay_exec ops pid (FinishPrompt uid) s = rs_finish ops uid s"
| "replay_exec ops pid PollRead s = rs_poll_read ops s"
| "replay_exec ops pid PollAdd s = rs_poll_add pid s"
| "replay_exec ops pid (ClearKeys keys) s = rs_clear ops keys s"
| "replay_exec ops pid (RemoveKeys keys) s = rs_remove pid keys s"

fun replay_run :: "'q kv_store \<Rightarrow> string \<Rightarrow> replay_op list \<Rightarrow> 'q replay_system \<Rightarrow> 'q replay_system option" where
  "replay_run ops pid [] s = Some s"
| "replay_run ops pid (op # rest) s = (case replay_exec ops pid op s of None \<Rightarrow> None | Some s' \<Rightarrow> replay_run ops pid rest s')"

inductive replay_reach :: "'q kv_store \<Rightarrow> string \<Rightarrow> 'q \<Rightarrow> 'q replay_system \<Rightarrow> bool" for ops pid q where
  replay_init: "replay_reach ops pid q (replay_start q)"
| replay_step: "replay_reach ops pid q s \<Longrightarrow> replay_exec ops pid op s = Some s' \<Longrightarrow> replay_reach ops pid q s'"

section \<open>Tables of tags\<close>

definition field :: "tag_partition \<Rightarrow> string \<Rightarrow> string \<Rightarrow> tag_value option" where
  "field p k f = (case map_of p k of None \<Rightarrow> None | Some t \<Rightarrow> map_of t f)"

definition has :: "tag_partition \<Rightarrow> string set" where
  "has p = set (map fst p)"

definition proper :: "tag_partition \<Rightarrow> bool" where
  "proper p \<longleftrightarrow> distinct (map fst p) \<and> (\<forall>t\<in>set (map snd p). distinct (map fst t))"

definition overlay :: "'a option \<Rightarrow> 'a option \<Rightarrow> 'a option" where
  "overlay new old = (case new of None \<Rightarrow> old | Some v \<Rightarrow> Some v)"

text \<open>What the program relies on of the queue, and what the buffer provides: a put changes the named
  fields of the named keys, a clear drops keys.\<close>

locale tag_table =
  fixes listing :: "'q \<Rightarrow> tag_partition"
    and put :: "tag_partition \<Rightarrow> 'q \<Rightarrow> 'q"
    and clear :: "string list \<Rightarrow> 'q \<Rightarrow> 'q"
    and good_table :: "'q \<Rightarrow> bool"
  assumes listing_proper: "good_table q \<Longrightarrow> proper (listing q)"
    and put_good: "good_table q \<Longrightarrow> proper xs \<Longrightarrow> good_table (put xs q)"
    and clear_good: "good_table q \<Longrightarrow> good_table (clear ks q)"
    and put_has: "good_table q \<Longrightarrow> proper xs \<Longrightarrow> has (listing (put xs q)) = has (listing q) \<union> has xs"
    and put_field: "good_table q \<Longrightarrow> proper xs \<Longrightarrow>
      field (listing (put xs q)) k f = overlay (field xs k f) (field (listing q) k f)"
    and clear_has: "good_table q \<Longrightarrow> has (listing (clear ks q)) = has (listing q) - set ks"
    and clear_field: "good_table q \<Longrightarrow> k \<notin> set ks \<Longrightarrow> field (listing (clear ks q)) k f = field (listing q) k f"

lemma map_of_dict_update: "distinct (map fst t) \<Longrightarrow> map_of (dict_update d t) f = overlay (map_of t f) (map_of d f)"
proof (induction t arbitrary: d)
  case (Cons x t)
  obtain k v where x: "x = (k, v)" by fastforce
  have t: "distinct (map fst t)" "map_of t k = None"
    using Cons.prems by (simp_all add: x map_of_eq_None_iff)
  have step: "dict_update d ((k, v) # t) = dict_update (AList.update k v d) t" by (simp add: dict_update_def)
  show ?case unfolding x step Cons.IH [OF t(1)] using t(2) by (simp add: overlay_def AList.update_conv')
qed (simp add: dict_update_def overlay_def)

lemma dict_update_distinct: "distinct (map fst d) \<Longrightarrow> distinct (map fst (dict_update d t))"
proof (induction t arbitrary: d)
  case (Cons x t)
  then show ?case by (cases x) (simp add: dict_update_def distinct_update)
qed (simp add: dict_update_def)

lemma field_update: "field (AList.update k t p) k' f = (if k' = k then map_of t f else field p k' f)"
  by (simp add: field_def update_conv')

lemma has_update: "has (AList.update k t p) = insert k (has p)"
  by (simp add: has_def dom_update)

lemma proper_Nil: "proper []" "field [] k f = None" "has [] = {}"
  by (simp_all add: proper_def field_def has_def)

lemma proper_Cons: "proper ((k, t) # xs) \<longleftrightarrow> k \<notin> has xs \<and> distinct (map fst t) \<and> proper xs"
  by (auto simp: proper_def has_def)

lemma field_Cons: "field ((k, t) # xs) k' f = (if k' = k then map_of t f else field xs k' f)"
  by (simp add: field_def)

lemma has_Cons: "has (x # xs) = insert (fst x) (has xs)"
  by (simp add: has_def)

lemma proper_update:
  assumes "proper p" "distinct (map fst t)"
  shows "proper (AList.update k t p)"
  using assms
proof (induction p)
  case (Cons x p)
  obtain k' t' where x: "x = (k', t')" by fastforce
  show ?case using Cons by (auto simp: x proper_Cons has_update)
qed (simp add: proper_Cons proper_Nil)

lemma field_None: "k \<notin> has p \<Longrightarrow> field p k f = None"
  unfolding field_def has_def by (metis map_of_eq_None_iff option.simps(4) set_map)

lemma field_member: "proper p \<Longrightarrow> (k, t) \<in> set p \<Longrightarrow> field p k f = map_of t f"
  by (simp add: field_def proper_def)

lemma has_member: "k \<in> has p \<longleftrightarrow> (\<exists>t. (k, t) \<in> set p)"
  by (force simp: has_def)

lemma add_items_laws:
  assumes "proper p" "proper xs"
  shows "proper (add_items xs p) \<and> has (add_items xs p) = has p \<union> has xs \<and>
    (\<forall>k f. field (add_items xs p) k f = overlay (field xs k f) (field p k f))"
  using assms
proof (induction xs arbitrary: p)
  case Nil
  then show ?case by (simp add: add_items_def has_def field_def overlay_def)
next
  case (Cons x xs)
  obtain k t where x: "x = (k, t)" by fastforce
  have xs: "k \<notin> has xs" "distinct (map fst t)" "proper xs" using Cons.prems(2) by (simp_all add: x proper_Cons)
  define old where "old = (case map_of p k of None \<Rightarrow> [] | Some t \<Rightarrow> t)"
  have "(k, old') \<in> set p" if "map_of p k = Some old'" for old' using that by (rule map_of_SomeD)
  then have old: "distinct (map fst old)" "map_of old f = field p k f" for f
    using Cons.prems(1) by (fastforce simp: old_def field_def proper_def split: option.splits)+
  define p' where "p' = AList.update k (dict_update old t) p"
  have "proper p'" unfolding p'_def by (intro proper_update Cons.prems(1) dict_update_distinct old(1))
  note ih = Cons.IH [OF this xs(3)]
  have step: "add_items ((k, t) # xs) p = add_items xs p'" by (simp add: add_items_def p'_def old_def)
  have p': "field p' k' f = (if k' = k then overlay (map_of t f) (field p k f) else field p k' f)" for k' f
    by (simp add: p'_def field_update map_of_dict_update [OF xs(2)] old(2))
  have "field (add_items xs p') k' f = overlay (field ((k, t) # xs) k' f) (field p k' f)" for k' f
    using ih p' field_None [OF xs(1)] by (cases "k' = k") (auto simp: field_Cons overlay_def)
  moreover have "has p' = insert k (has p)" by (simp add: p'_def has_update)
  ultimately show ?case using ih unfolding x step has_Cons by auto
qed

lemma delete_laws:
  assumes "proper p"
  shows "proper (AList.delete k p) \<and> has (AList.delete k p) = has p - {k} \<and>
    (\<forall>k' f. k' \<noteq> k \<longrightarrow> field (AList.delete k p) k' f = field p k' f)"
  using assms
proof (induction p)
  case (Cons x p)
  obtain k' t' where x: "x = (k', t')" by fastforce
  have ih: "proper (AList.delete k p)" "has (AList.delete k p) = has p - {k}"
    "k2 \<noteq> k \<Longrightarrow> field (AList.delete k p) k2 f = field p k2 f" for k2 f
    using Cons by (auto simp: x proper_Cons)
  have del: "AList.delete k (x # p) = (if k' = k then AList.delete k p else x # AList.delete k p)"
    by (simp add: x)
  show ?case using ih Cons.prems unfolding del by (auto simp: x proper_Cons has_Cons field_Cons)
qed (simp add: proper_Nil)

lemma remove_keys_laws:
  assumes "proper p"
  shows "proper (remove_keys ks p) \<and> has (remove_keys ks p) = has p - set ks \<and>
    (\<forall>k f. k \<notin> set ks \<longrightarrow> field (remove_keys ks p) k f = field p k f)"
  using assms
proof (induction ks arbitrary: p)
  case (Cons k ks)
  have step: "remove_keys (k # ks) p = remove_keys ks (AList.delete k p)" by (simp add: remove_keys_def)
  note d = delete_laws [OF Cons.prems, of k]
  note ih = Cons.IH [OF conjunct1 [OF d]]
  show ?case using d ih unfolding step by (auto simp: has_def)
qed (simp add: remove_keys_def)

interpretation buffer: tag_table "\<lambda>p. p" add_items remove_keys proper
  by unfold_locales (use add_items_laws remove_keys_laws in auto)

section \<open>Invariant\<close>

text \<open>Who runs, what was published for whom, and what was cleared.\<close>

definition runs_ok :: "(string \<rightharpoonup> prompt_run) \<Rightarrow> (string \<rightharpoonup> string) \<Rightarrow> string set \<Rightarrow> bool" where
  "runs_ok R P C \<longleftrightarrow> (\<forall>u r. R u = Some r \<longrightarrow> CHR ''_'' \<notin> set u \<and> (rn_over r \<and> \<not> rn_failed r \<longrightarrow> rn_pending r = [])) \<and>
     (\<forall>k u. P k = Some u \<longrightarrow> R u \<noteq> None \<and> takeWhile (\<lambda>c. c \<noteq> CHR ''_'') k = u \<and> CHR ''_'' \<in> set k) \<and> C \<subseteq> dom P"

text \<open>What a table of tags, be it the queue, the buffer or tags under way between them, may hold of a key.\<close>

definition key_ok :: "(string \<rightharpoonup> prompt_run) \<Rightarrow> (string \<rightharpoonup> string) \<Rightarrow> tag_partition \<Rightarrow> string \<Rightarrow> bool" where
  "key_ok R P T k \<longleftrightarrow>
     (case R k of
        Some r \<Rightarrow> field T k ''global_steps'' \<in> {None, Some (TInt (rn_steps r))} \<and>
          (field T k ''status'' = Some (TStr ''running'') \<or>
           field T k ''status'' = Some (TStr ''finished'') \<and> rn_over r \<and> \<not> rn_failed r \<or>
           field T k ''status'' = Some (TStr ''failure'') \<and> rn_over r \<and> rn_failed r)
      | None \<Rightarrow>
          (case P k of
             Some u \<Rightarrow> field T k ''status'' = Some (TStr ''success'') \<and>
               (\<exists>r. R u = Some r \<and> field T k ''global_steps'' = Some (TInt (rn_steps r)))
           | None \<Rightarrow> False))"

definition table_ok :: "(string \<rightharpoonup> prompt_run) \<Rightarrow> (string \<rightharpoonup> string) \<Rightarrow> tag_partition \<Rightarrow> bool" where
  "table_ok R P T \<longleftrightarrow> proper T \<and> (\<forall>k\<in>has T. key_ok R P T k)"

text \<open>A table that shows a prompt as finished has its trajectories.\<close>

definition complete :: "(string \<rightharpoonup> string) \<Rightarrow> string set \<Rightarrow> tag_partition \<Rightarrow> bool" where
  "complete P C T \<longleftrightarrow> (\<forall>k u. P k = Some u \<longrightarrow> field T u ''status'' = Some (TStr ''finished'') \<longrightarrow> k \<in> has T \<union> C)"

text \<open>Later runs and publications: a prompt that is over stays as it is.\<close>

definition run_later :: "prompt_run \<Rightarrow> prompt_run \<Rightarrow> bool" where
  "run_later r r' \<longleftrightarrow> rn_steps r' = rn_steps r \<and> (rn_over r \<longrightarrow> rn_over r' \<and> rn_failed r' = rn_failed r)"

definition later :: "(string \<rightharpoonup> prompt_run) \<Rightarrow> (string \<rightharpoonup> string) \<Rightarrow> (string \<rightharpoonup> prompt_run) \<Rightarrow> (string \<rightharpoonup> string) \<Rightarrow> bool" where
  "later R P R' P' \<longleftrightarrow> (\<forall>u r. R u = Some r \<longrightarrow> (\<exists>r'. R' u = Some r' \<and> run_later r r')) \<and>
     (\<forall>k u. P k = Some u \<longrightarrow> P' k = Some u) \<and>
     (\<forall>k u r. P' k = Some u \<longrightarrow> P k = None \<longrightarrow> R u = Some r \<longrightarrow> \<not> (rn_over r \<and> \<not> rn_failed r))"

definition read_tags :: "'q replay_system \<Rightarrow> tag_partition" where
  "read_tags s = (case rs_read s of None \<Rightarrow> [] | Some items \<Rightarrow> items)"

definition replay_inv :: "'q kv_store \<Rightarrow> string \<Rightarrow> 'q replay_system \<Rightarrow> bool" where
  "replay_inv ops pid s \<longleftrightarrow> runs_ok (rs_runs s) (rs_published s) (rs_cleared s) \<and>
     (\<forall>T\<in>{kv_list ops (rs_queue s), read_tags s, rs_buffer s pid}. table_ok (rs_runs s) (rs_published s) T) \<and>
     dom (rs_published s) \<subseteq> has (kv_list ops (rs_queue s)) \<union> rs_cleared s \<and>
     complete (rs_published s) (rs_cleared s) (read_tags s) \<and> complete (rs_published s) (rs_cleared s) (rs_buffer s pid) \<and>
     (\<forall>u\<in>dom (rs_runs s). field (rs_buffer s pid) u ''global_steps'' \<noteq> None)"

lemma field_has: "field T k f \<noteq> None \<Longrightarrow> k \<in> has T"
  using field_None by metis

lemma key_ok_published: "runs_ok R P C \<Longrightarrow> P k = Some u \<Longrightarrow> R k = None"
  unfolding runs_ok_def by (metis not_Some_eq)

lemma key_ok_later:
  assumes "key_ok R P T k" "later R P R' P'" "runs_ok R' P' C'"
  shows "key_ok R' P' T k"
proof (cases "R k")
  case (Some r)
  then obtain r' where "R' k = Some r'" "run_later r r'" using assms(2) unfolding later_def by blast
  then show ?thesis using assms(1) Some by (auto simp: key_ok_def run_later_def)
next
  case None
  then obtain u r where P: "P k = Some u" "R u = Some r" and T: "field T k ''status'' = Some (TStr ''success'')"
    "field T k ''global_steps'' = Some (TInt (rn_steps r))"
    using assms(1) by (auto simp: key_ok_def split: option.splits)
  obtain r' where "R' u = Some r'" "run_later r r'" using P assms(2) unfolding later_def by blast
  moreover have "P' k = Some u" using P assms(2) unfolding later_def by blast
  moreover have "R' k = None" using calculation(3) assms(3) by (rule key_ok_published [rotated])
  ultimately show ?thesis using T by (simp add: key_ok_def run_later_def)
qed

lemma table_ok_later: "table_ok R P T \<Longrightarrow> later R P R' P' \<Longrightarrow> runs_ok R' P' C' \<Longrightarrow> table_ok R' P' T"
  unfolding table_ok_def using key_ok_later by blast

lemma complete_later:
  assumes "complete P C T" "table_ok R P T" "runs_ok R P C" "later R P R' P'" "runs_ok R' P' C'" "C \<subseteq> C'"
  shows "complete P' C' T"
  unfolding complete_def
proof (intro allI impI)
  fix k u
  assume k: "P' k = Some u" and u: "field T u ''status'' = Some (TStr ''finished'')"
  have "u \<in> has T" using u by (intro field_has [of T u "''status''"]) simp
  then have ok: "key_ok R P T u" using assms(2) by (simp add: table_ok_def)
  obtain r where r: "R u = Some r" "rn_over r" "\<not> rn_failed r"
    using ok u by (auto simp: key_ok_def split: option.splits)
  then have "P k \<noteq> None" using k assms(4) unfolding later_def by blast
  then have "P k = Some u" using k assms(4) unfolding later_def by auto
  then show "k \<in> has T \<union> C'" using assms(1,6) u unfolding complete_def by blast
qed

lemma key_ok_same: "key_ok R P T k \<Longrightarrow> (\<And>f. field T' k f = field T k f) \<Longrightarrow> key_ok R P T' k"
  by (simp only: key_ok_def)

lemma key_ok_overlay:
  assumes "k \<in> has X \<Longrightarrow> key_ok R P X k" "k \<in> has T \<Longrightarrow> key_ok R P T k" "k \<in> has T \<union> has X"
    and T': "\<And>f. field T' k f = overlay (field X k f) (field T k f)"
  shows "key_ok R P T' k"
proof (cases "k \<in> has X")
  case False
  then have "field T' k f = field T k f" for f by (simp add: T' field_None overlay_def)
  then show ?thesis using False assms(2,3) key_ok_same by blast
next
  case True
  then have X: "key_ok R P X k" by (rule assms(1))
  show ?thesis
  proof (cases "k \<in> has T")
    case False
    then have "field T' k f = field X k f" for f by (simp add: T' field_None overlay_def split: option.splits)
    with X show ?thesis by (rule key_ok_same)
  next
    case True
    from assms(2) [OF True] X show ?thesis
      by (auto simp: key_ok_def T' overlay_def split: option.splits)
  qed
qed

lemma complete_overlay:
  assumes "complete P C T" "complete P C X" "has T' = has T \<union> has X"
    and T': "\<And>k f. field T' k f = overlay (field X k f) (field T k f)"
  shows "complete P C T'"
  using assms(1,2) unfolding complete_def assms(3) T' overlay_def by (auto split: option.splits)

lemma runs_keys:
  assumes "runs_ok R P C"
  shows "R u = Some r \<Longrightarrow> P u = None" "P k = Some u \<Longrightarrow> R u \<noteq> None" "C \<subseteq> dom P"
proof -
  show "P u = None" if "R u = Some r"
    using key_ok_published [OF assms] that by (cases "P u") auto
qed (use assms in \<open>auto simp: runs_ok_def\<close>)

context tag_table
begin

lemma put_table:
  assumes "good_table q" "table_ok R P (listing q)" "table_ok R P X"
  shows "table_ok R P (listing (put X q))"
proof -
  have X: "proper X" using assms(3) by (simp add: table_ok_def)
  have "key_ok R P (listing (put X q)) k" if "k \<in> has (listing (put X q))" for k
  proof (rule key_ok_overlay)
    show "k \<in> has X \<Longrightarrow> key_ok R P X k" "k \<in> has (listing q) \<Longrightarrow> key_ok R P (listing q) k"
      using assms(2,3) by (simp_all add: table_ok_def)
    show "k \<in> has (listing q) \<union> has X" using that put_has [OF assms(1) X] by simp
  qed (rule put_field [OF assms(1) X])
  then show ?thesis using listing_proper [OF put_good [OF assms(1) X]] by (simp add: table_ok_def)
qed

lemma put_complete:
  assumes "good_table q" "proper X" "complete P C (listing q)" "complete P C X"
  shows "complete P C (listing (put X q))"
  using complete_overlay [OF assms(3,4) put_has [OF assms(1,2)]] put_field [OF assms(1,2)] by blast

lemma clear_table:
  assumes "good_table q" "table_ok R P (listing q)"
  shows "table_ok R P (listing (clear ks q))"
proof -
  have "key_ok R P (listing (clear ks q)) k" if "k \<in> has (listing (clear ks q))" for k
  proof -
    have k: "k \<in> has (listing q)" "k \<notin> set ks" using that clear_has [OF assms(1)] by simp_all
    then have "key_ok R P (listing q) k" using assms(2) by (simp add: table_ok_def)
    then show ?thesis by (rule key_ok_same) (rule clear_field [OF assms(1) k(2)])
  qed
  then show ?thesis using listing_proper [OF clear_good [OF assms(1)]] by (simp add: table_ok_def)
qed

lemma clear_complete:
  assumes "good_table q" "complete P C (listing q)" "set ks \<subseteq> C"
  shows "complete P C (listing (clear ks q))"
  unfolding complete_def
proof (intro allI impI)
  fix k u
  assume k: "P k = Some u" and u: "field (listing (clear ks q)) u ''status'' = Some (TStr ''finished'')"
  have "u \<in> has (listing (clear ks q))" using u by (intro field_has [of _ u "''status''"]) simp
  then have "u \<notin> set ks" using clear_has [OF assms(1)] by simp
  then have "field (listing q) u ''status'' = Some (TStr ''finished'')" using u clear_field [OF assms(1)] by simp
  then have "k \<in> has (listing q) \<union> C" using k assms(2) unfolding complete_def by blast
  then show "k \<in> has (listing (clear ks q)) \<union> C" using clear_has [OF assms(1)] assms(3) by auto
qed

end

section \<open>The items\<close>

lemma str_nat_inj: "str_nat m = str_nat n \<longleftrightarrow> m = n"
  by (metis digits_value_str_nat)

lemma trajectory_key_inj: "trajectory_key u i m = trajectory_key u i n \<longleftrightarrow> m = n"
  by (simp add: trajectory_key_def str_nat_inj)

lemma trajectory_key_uid: "CHR ''_'' \<notin> set u \<Longrightarrow> takeWhile (\<lambda>c. c \<noteq> CHR ''_'') (trajectory_key u i n) = u"
  unfolding trajectory_key_def by (subst takeWhile_append2) auto

lemma proper_map: "distinct (map f xs) \<Longrightarrow> (\<And>x. x \<in> set xs \<Longrightarrow> distinct (map fst (g x))) \<Longrightarrow> proper (map (\<lambda>x. (f x, g x)) xs)"
  by (auto simp: proper_def comp_def)

lemma map_of_map_same: "map_of (map (\<lambda>x. (x, t)) xs) k = (if k \<in> set xs then Some t else None)"
  by (induction xs) auto

lemma has_running: "has (running_items g uids) = set uids"
  by (force simp: has_def running_items_def)

lemma field_running: "field (running_items g uids) u f =
    (if u \<in> set uids then map_of [(''global_steps'', TInt g), (''status'', TStr ''running'')] f else None)"
  by (simp add: field_def running_items_def map_of_map_same)

lemma session_items_eq:
  "session_items g u i outs = map (\<lambda>n. (trajectory_key u i n, trajectory_tag g (outs ! n))) [0..<length outs]"
  unfolding session_items_def by (rule nth_equalityI) (simp_all add: nth_enumerate_eq)

lemma proper_session: "proper (session_items g u i outs)"
  unfolding session_items_eq
  by (rule proper_map) (simp_all add: distinct_map inj_on_def trajectory_key_inj trajectory_tag_def)

lemma session_has: "k \<in> has (session_items g u i outs) \<Longrightarrow> \<exists>n. k = trajectory_key u i n"
  by (auto simp: has_def session_items_eq)

lemma session_field:
  assumes "k \<in> has (session_items g u i outs)"
  shows "field (session_items g u i outs) k ''status'' = Some (TStr ''success'')"
    "field (session_items g u i outs) k ''global_steps'' = Some (TInt g)"
proof -
  obtain t where t: "(k, t) \<in> set (session_items g u i outs)" using assms has_member by blast
  then obtain lens where "t = trajectory_tag g lens" unfolding session_items_eq set_map image_iff by blast
  then show "field (session_items g u i outs) k ''status'' = Some (TStr ''success'')"
    "field (session_items g u i outs) k ''global_steps'' = Some (TInt g)"
    using field_member [OF proper_session t] by (simp_all add: trajectory_tag_def)
qed

section \<open>Every operation keeps the invariant\<close>

lemma table_Nil: "table_ok R P []" "complete P C []"
  by (simp_all add: table_ok_def complete_def proper_Nil)

lemma later_refl: "runs_ok R P C \<Longrightarrow> later R P R P"
  by (auto simp: later_def run_later_def)

lemma complete_mono: "complete P C T \<Longrightarrow> C \<subseteq> C' \<Longrightarrow> complete P C' T"
  unfolding complete_def by blast

lemma inv_later:
  assumes "replay_inv ops pid s" "later (rs_runs s) (rs_published s) R P" "runs_ok R P (rs_cleared s)"
  shows "table_ok R P (kv_list ops (rs_queue s))" "table_ok R P (read_tags s)" "table_ok R P (rs_buffer s pid)"
    "complete P (rs_cleared s) (read_tags s)" "complete P (rs_cleared s) (rs_buffer s pid)"
proof -
  have old: "runs_ok (rs_runs s) (rs_published s) (rs_cleared s)"
    "\<forall>T\<in>{kv_list ops (rs_queue s), read_tags s, rs_buffer s pid}. table_ok (rs_runs s) (rs_published s) T"
    "complete (rs_published s) (rs_cleared s) (read_tags s)" "complete (rs_published s) (rs_cleared s) (rs_buffer s pid)"
    using assms(1) unfolding replay_inv_def by blast+
  show "table_ok R P (kv_list ops (rs_queue s))" "table_ok R P (read_tags s)" "table_ok R P (rs_buffer s pid)"
    using old(2) table_ok_later [OF _ assms(2,3)] by blast+
  show "complete P (rs_cleared s) (read_tags s)"
    by (rule complete_later [OF old(3) _ old(1) assms(2,3)]) (use old(2) in auto)
  show "complete P (rs_cleared s) (rs_buffer s pid)"
    by (rule complete_later [OF old(4) _ old(1) assms(2,3)]) (use old(2) in auto)
qed

lemma inv_generate:
  assumes inv: "replay_inv ops pid s" and s': "rs_generate pid g n uids s = Some s'"
  shows "replay_inv ops pid s'"
proof -
  define new where "new = \<lparr>rn_steps = g, rn_pending = [0..<n], rn_failed = False, rn_over = False\<rparr>"
  define R where "R = rs_runs s ++ map_of (map (\<lambda>u. (u, new)) uids)"
  have R: "R u = (if u \<in> set uids then Some new else rs_runs s u)" for u
    by (simp add: R_def map_add_def map_of_map_same)
  have fresh: "distinct uids" "\<And>u. u \<in> set uids \<Longrightarrow> CHR ''_'' \<notin> set u \<and> rs_runs s u = None"
    and eq: "s' = s\<lparr>rs_buffer := rb_add pid (running_items g uids) (rs_buffer s), rs_runs := R\<rparr>"
    using s' by (auto simp: rs_generate_def list_all_iff R_def new_def split: if_splits)
  have old: "runs_ok (rs_runs s) (rs_published s) (rs_cleared s)" using inv by (simp add: replay_inv_def)
  have ok: "runs_ok R (rs_published s) (rs_cleared s)"
    using old fresh(2) unfolding runs_ok_def by (auto simp: R new_def)
  have later: "later (rs_runs s) (rs_published s) R (rs_published s)"
    using fresh(2) by (auto simp: later_def R run_later_def)
  note T = inv_later [OF inv later ok]
  have "proper (running_items g uids)"
    unfolding running_items_def by (rule proper_map) (use fresh(1) in simp_all)
  then have X: "table_ok R (rs_published s) (running_items g uids)"
    by (simp add: table_ok_def has_running key_ok_def R field_running new_def)
  have X': "complete (rs_published s) (rs_cleared s) (running_items g uids)"
    by (simp add: complete_def field_running)
  have B: "proper (rs_buffer s pid)" "proper (running_items g uids)" using T(3) X by (simp_all add: table_ok_def)
  have "field (add_items (running_items g uids) (rs_buffer s pid)) u ''global_steps'' \<noteq> None" if "u \<in> dom R" for u
    using that inv unfolding buffer.put_field [OF B] replay_inv_def
    by (auto simp: overlay_def R field_running split: if_splits option.splits)
  then show ?thesis
    using ok T X buffer.put_table [OF B(1) T(3) X] buffer.put_complete [OF B T(5) X'] inv
    by (simp add: replay_inv_def eq rb_add_def read_tags_def)
qed

lemma inv_crash:
  assumes inv: "replay_inv ops pid s" and s': "rs_crash uid i s = Some s'"
  shows "replay_inv ops pid s'"
proof -
  obtain r where r: "rs_runs s uid = Some r" "i \<in> set (rn_pending r)"
    and eq: "s' = s\<lparr>rs_runs := (rs_runs s)(uid \<mapsto> r\<lparr>rn_pending := remove1 i (rn_pending r), rn_failed := True\<rparr>)\<rparr>"
    using s' by (auto simp: rs_crash_def split: option.splits if_splits)
  define R where "R = (rs_runs s)(uid \<mapsto> r\<lparr>rn_pending := remove1 i (rn_pending r), rn_failed := True\<rparr>)"
  have old: "runs_ok (rs_runs s) (rs_published s) (rs_cleared s)" using inv by (simp add: replay_inv_def)
  have over: "rn_failed r" if "rn_over r" using old that r unfolding runs_ok_def by fastforce
  have ok: "runs_ok R (rs_published s) (rs_cleared s)" using old r(1) unfolding runs_ok_def R_def by auto
  have later: "later (rs_runs s) (rs_published s) R (rs_published s)"
    using r(1) over by (auto simp: later_def R_def run_later_def)
  have dom: "dom R = dom (rs_runs s)" using r(1) by (auto simp: R_def)
  show ?thesis using ok inv_later [OF inv later ok] inv dom
    by (simp add: replay_inv_def eq read_tags_def R_def [symmetric])
qed

lemma inv_publish:
  assumes t: "tag_table (kv_list ops) (kv_put ops) (kv_clear ops) ok" and q: "ok (rs_queue s)"
    and inv: "replay_inv ops pid s" and s': "rs_publish ops uid i outs s = Some s'"
  shows "replay_inv ops pid s' \<and> ok (rs_queue s')"
proof -
  obtain r where r: "rs_runs s uid = Some r" "i \<in> set (rn_pending r)"
    using s' by (auto simp: rs_publish_def split: option.splits if_splits)
  define X where "X = session_items (rn_steps r) uid i outs"
  define R where "R = (rs_runs s)(uid \<mapsto> r\<lparr>rn_pending := remove1 i (rn_pending r)\<rparr>)"
  define P where "P = rs_published s ++ map_of (map (\<lambda>(k, _). (k, uid)) X)"
  define Q where "Q = (if outs = [] then rs_queue s else kv_put ops X (rs_queue s))"
  have eq: "s' = s\<lparr>rs_queue := Q, rs_runs := R, rs_published := P\<rparr>"
    using s' r by (cases "outs = []") (auto simp: rs_publish_def Let_def X_def R_def P_def Q_def)
  have P: "P k = (if k \<in> has X then Some uid else rs_published s k)" for k
  proof -
    have "map_of (map (\<lambda>(k, _). (k, uid)) X) k = (if k \<in> has X then Some uid else None)"
      by (induction X) (auto simp: has_def)
    then show ?thesis by (simp add: P_def map_add_def)
  qed
  have old: "runs_ok (rs_runs s) (rs_published s) (rs_cleared s)" using inv by (simp add: replay_inv_def)
  have u: "CHR ''_'' \<notin> set uid" "\<not> (rn_over r \<and> \<not> rn_failed r)" using old r unfolding runs_ok_def by fastforce+
  have key: "takeWhile (\<lambda>c. c \<noteq> CHR ''_'') k = uid" "CHR ''_'' \<in> set k" if k: "k \<in> has X" for k
  proof -
    obtain n where k: "k = trajectory_key uid i n" using session_has k unfolding X_def by blast
    show "takeWhile (\<lambda>c. c \<noteq> CHR ''_'') k = uid" unfolding k by (rule trajectory_key_uid [OF u(1)])
    show "CHR ''_'' \<in> set k" unfolding k trajectory_key_def by simp
  qed
  have ok: "runs_ok R P (rs_cleared s)"
  proof -
    have "R v = Some r' \<Longrightarrow> CHR ''_'' \<notin> set v \<and> (rn_over r' \<and> \<not> rn_failed r' \<longrightarrow> rn_pending r' = [])" for v r'
      using old u unfolding runs_ok_def R_def by (auto split: if_splits)
    moreover have "P k = Some v \<Longrightarrow> R v \<noteq> None \<and> takeWhile (\<lambda>c. c \<noteq> CHR ''_'') k = v \<and> CHR ''_'' \<in> set k" for k v
      using old key unfolding runs_ok_def P R_def by (auto split: if_splits)
    moreover have "rs_cleared s \<subseteq> dom P" using runs_keys(3) [OF old] P by auto
    ultimately show ?thesis unfolding runs_ok_def by blast
  qed
  have same: "P k = Some v" if "rs_published s k = Some v" for k v
  proof (cases "k \<in> has X")
    case True
    have "takeWhile (\<lambda>c. c \<noteq> CHR ''_'') k = v" using that old unfolding runs_ok_def by blast
    then show ?thesis using True key(1) [OF True] by (simp add: P)
  qed (simp add: P that)
  have later: "later (rs_runs s) (rs_published s) R P"
    unfolding later_def
  proof (intro conjI allI impI)
    show "\<exists>r'. R v = Some r' \<and> run_later r0 r'" if "rs_runs s v = Some r0" for v r0
      using that r(1) by (auto simp: R_def run_later_def)
    show "\<not> (rn_over r0 \<and> \<not> rn_failed r0)" if "P k = Some v" "rs_published s k = None" "rs_runs s v = Some r0" for k v r0
      using that r(1) u(2) by (auto simp: P split: if_splits)
  qed (rule same)
  note T = inv_later [OF inv later ok]
  have X: "table_ok R P X"
    unfolding table_ok_def
  proof (intro conjI ballI)
    show "proper X" unfolding X_def by (rule proper_session)
    fix k assume k: "k \<in> has X"
    then have "R k = None" using key_ok_published [OF ok] P by simp
    then show "key_ok R P X k" using session_field [OF k [unfolded X_def]] k
      by (simp add: key_ok_def P R_def X_def [symmetric])
  qed
  have Xp: "proper X" using X by (simp add: table_ok_def)
  have Q: "table_ok R P (kv_list ops Q)" "has (kv_list ops Q) = has (kv_list ops (rs_queue s)) \<union> has X" "ok Q"
  proof -
    have "outs = [] \<Longrightarrow> X = []" by (simp add: X_def session_items_def)
    then show "table_ok R P (kv_list ops Q)" "has (kv_list ops Q) = has (kv_list ops (rs_queue s)) \<union> has X" "ok Q"
      using T(1) tag_table.put_table [OF t q T(1) X] tag_table.put_has [OF t q Xp] tag_table.put_good [OF t q Xp] q
      by (auto simp: Q_def proper_Nil)
  qed
  have "dom (rs_published s) \<subseteq> has (kv_list ops (rs_queue s)) \<union> rs_cleared s" using inv by (simp add: replay_inv_def)
  moreover have "dom P \<subseteq> has X \<union> dom (rs_published s)" by (auto simp: P split: if_splits)
  ultimately have "dom P \<subseteq> has (kv_list ops Q) \<union> rs_cleared s" unfolding Q(2) by blast
  moreover have "dom R = dom (rs_runs s)" using r(1) by (auto simp: R_def)
  ultimately show ?thesis using ok T Q inv by (simp add: replay_inv_def eq read_tags_def)
qed

lemma inv_finish:
  assumes t: "tag_table (kv_list ops) (kv_put ops) (kv_clear ops) ok" and q: "ok (rs_queue s)"
    and inv: "replay_inv ops pid s" and s': "rs_finish ops uid s = Some s'"
  shows "replay_inv ops pid s' \<and> ok (rs_queue s')"
proof -
  obtain r where r: "rs_runs s uid = Some r" "\<not> rn_over r" "rn_failed r \<or> rn_pending r = []"
    using s' by (auto simp: rs_finish_def split: option.splits if_splits)
  define X where "X = status_item uid (rn_failed r)"
  define R where "R = (rs_runs s)(uid \<mapsto> r\<lparr>rn_over := True\<rparr>)"
  have eq: "s' = s\<lparr>rs_queue := kv_put ops X (rs_queue s), rs_runs := R\<rparr>"
    using s' r by (simp add: rs_finish_def X_def R_def)
  have old: "runs_ok (rs_runs s) (rs_published s) (rs_cleared s)" using inv by (simp add: replay_inv_def)
  have ok: "runs_ok R (rs_published s) (rs_cleared s)" using old r unfolding runs_ok_def R_def by auto
  have later: "later (rs_runs s) (rs_published s) R (rs_published s)"
    using r by (auto simp: later_def R_def run_later_def)
  note T = inv_later [OF inv later ok]
  have Xp: "proper X" "has X = {uid}" by (simp_all add: X_def status_item_def proper_Cons proper_Nil has_Cons)
  then have X: "table_ok R (rs_published s) X"
    by (simp add: table_ok_def key_ok_def R_def X_def status_item_def field_Cons)
  have dom: "dom R = dom (rs_runs s)" using r(1) by (auto simp: R_def)
  have "dom (rs_published s) \<subseteq> has (kv_list ops (kv_put ops X (rs_queue s))) \<union> rs_cleared s"
    using inv tag_table.put_has [OF t q Xp(1)] by (auto simp: replay_inv_def)
  then show ?thesis
    using ok T tag_table.put_table [OF t q T(1) X] tag_table.put_good [OF t q Xp(1)] inv dom
    by (simp add: replay_inv_def eq read_tags_def)
qed

lemma inv_poll_read:
  assumes inv: "replay_inv ops pid s" and s': "rs_poll_read ops s = Some s'"
  shows "replay_inv ops pid s'"
proof -
  have eq: "s' = s\<lparr>rs_read := Some (kv_list ops (rs_queue s))\<rparr>" using s' by (simp add: rs_poll_read_def split: if_splits)
  have "complete (rs_published s) (rs_cleared s) (kv_list ops (rs_queue s))"
    using inv by (auto simp: complete_def replay_inv_def)
  then show ?thesis using inv by (simp add: replay_inv_def eq read_tags_def)
qed

lemma inv_poll_add:
  assumes inv: "replay_inv ops pid s" and s': "rs_poll_add pid s = Some s'"
  shows "replay_inv ops pid s'"
proof -
  obtain X where X: "rs_read s = Some X" and eq: "s' = s\<lparr>rs_buffer := rb_add pid X (rs_buffer s), rs_read := None\<rparr>"
    using s' by (auto simp: rs_poll_add_def split: option.splits)
  have T: "table_ok (rs_runs s) (rs_published s) X" "table_ok (rs_runs s) (rs_published s) (rs_buffer s pid)"
    "complete (rs_published s) (rs_cleared s) X" "complete (rs_published s) (rs_cleared s) (rs_buffer s pid)"
    using inv X by (simp_all add: replay_inv_def read_tags_def)
  have B: "proper (rs_buffer s pid)" "proper X" using T(1,2) by (simp_all add: table_ok_def)
  have "field (add_items X (rs_buffer s pid)) u ''global_steps'' \<noteq> None" if "u \<in> dom (rs_runs s)" for u
    using that inv unfolding buffer.put_field [OF B] by (auto simp: overlay_def replay_inv_def split: option.splits)
  then show ?thesis
    using inv T buffer.put_table [OF B(1) T(2,1)] buffer.put_complete [OF B T(4,3)]
    by (simp add: replay_inv_def eq rb_add_def read_tags_def table_Nil)
qed

lemma inv_clear:
  assumes t: "tag_table (kv_list ops) (kv_put ops) (kv_clear ops) ok" and q: "ok (rs_queue s)"
    and inv: "replay_inv ops pid s" and s': "rs_clear ops keys s = Some s'"
  shows "replay_inv ops pid s' \<and> ok (rs_queue s')"
proof -
  define C where "C = rs_cleared s \<union> set keys"
  have eq: "s' = s\<lparr>rs_queue := kv_clear ops keys (rs_queue s), rs_cleared := C\<rparr>"
    and keys: "set keys \<subseteq> dom (rs_published s)"
    using s' by (auto simp: rs_clear_def C_def split: if_splits)
  have "runs_ok (rs_runs s) (rs_published s) C" using inv keys by (auto simp: replay_inv_def runs_ok_def C_def)
  moreover have "complete (rs_published s) (rs_cleared s) T \<Longrightarrow> complete (rs_published s) C T" for T
    by (rule complete_mono) (auto simp: C_def)
  moreover have "dom (rs_published s) \<subseteq> has (kv_list ops (kv_clear ops keys (rs_queue s))) \<union> C"
    using inv tag_table.clear_has [OF t q] by (auto simp: replay_inv_def C_def)
  ultimately show ?thesis using inv tag_table.clear_table [OF t q] tag_table.clear_good [OF t q]
    by (simp add: replay_inv_def eq read_tags_def)
qed

lemma inv_remove:
  assumes inv: "replay_inv ops pid s" and s': "rs_remove pid keys s = Some s'"
  shows "replay_inv ops pid s'"
proof -
  have eq: "s' = s\<lparr>rs_buffer := rb_remove pid keys (rs_buffer s)\<rparr>" and keys: "set keys \<subseteq> rs_cleared s"
    using s' by (auto simp: rs_remove_def split: if_splits)
  have ok: "runs_ok (rs_runs s) (rs_published s) (rs_cleared s)" and B: "proper (rs_buffer s pid)"
    using inv by (simp_all add: replay_inv_def table_ok_def)
  have "field (remove_keys keys (rs_buffer s pid)) u ''global_steps'' \<noteq> None" if u: "u \<in> dom (rs_runs s)" for u
  proof -
    have "u \<notin> set keys" using u keys runs_keys(1,3) [OF ok] by fastforce
    then show ?thesis using u inv buffer.clear_field [OF B] by (auto simp: replay_inv_def)
  qed
  then show ?thesis using inv buffer.clear_table [OF B] buffer.clear_complete [OF B _ keys]
    by (simp add: replay_inv_def eq rb_remove_def read_tags_def)
qed

lemma replay_reach_inv:
  assumes t: "tag_table (kv_list ops) (kv_put ops) (kv_clear ops) ok" and q: "ok q" "kv_list ops q = []"
    and s: "replay_reach ops pid q s"
  shows "replay_inv ops pid s \<and> ok (rs_queue s)"
  using s
proof induction
  case replay_init
  then show ?case using q by (simp add: replay_inv_def replay_start_def read_tags_def table_Nil runs_ok_def)
next
  case (replay_step s op s')
  then have inv: "replay_inv ops pid s" and ok: "ok (rs_queue s)" by simp_all
  show ?case
  proof (cases op)
    case (Publish u i outs)
    then show ?thesis using replay_step inv_publish [OF t ok inv] by simp
  next
    case (FinishPrompt u)
    then show ?thesis using replay_step inv_finish [OF t ok inv] by simp
  next
    case (ClearKeys ks)
    then show ?thesis using replay_step inv_clear [OF t ok inv] by simp
  next
    case (Generate g n us)
    moreover have "rs_queue s' = rs_queue s" if "rs_generate pid g n us s = Some s'"
      using that by (auto simp: rs_generate_def split: if_splits)
    ultimately show ?thesis using replay_step inv_generate [OF inv] ok by simp
  next
    case (Crash u i)
    moreover have "rs_queue s' = rs_queue s" if "rs_crash u i s = Some s'"
      using that by (auto simp: rs_crash_def split: option.splits if_splits)
    ultimately show ?thesis using replay_step inv_crash [OF inv] ok by simp
  next
    case PollRead
    moreover have "rs_queue s' = rs_queue s" if "rs_poll_read ops s = Some s'"
      using that by (auto simp: rs_poll_read_def split: if_splits)
    ultimately show ?thesis using replay_step inv_poll_read [OF inv] ok by simp
  next
    case PollAdd
    moreover have "rs_queue s' = rs_queue s" if "rs_poll_add pid s = Some s'"
      using that by (auto simp: rs_poll_add_def split: option.splits)
    ultimately show ?thesis using replay_step inv_poll_add [OF inv] ok by simp
  next
    case (RemoveKeys ks)
    moreover have "rs_queue s' = rs_queue s" if "rs_remove pid ks s = Some s'"
      using that by (auto simp: rs_remove_def split: if_splits)
    ultimately show ?thesis using replay_step inv_remove [OF inv] ok by simp
  qed
qed

section \<open>Samples\<close>

lemma rb_scan_filter:
  assumes "\<And>k t. (k, t) \<in> set p \<Longrightarrow> map_of t ''global_steps'' \<noteq> None \<and> map_of t ''status'' \<noteq> None"
  shows "rb_scan g p = Inr (if \<exists>(k, t)\<in>set p. map_of t ''global_steps'' = Some (step_value g) \<and>
      map_of t ''status'' = Some (TStr ''running'') then None
    else Some (filter (\<lambda>(k, t). map_of t ''global_steps'' = Some (step_value g) \<and>
      map_of t ''status'' = Some (TStr ''success'')) p))"
  using assms
proof (induction p)
  case (Cons x p)
  obtain k t where x: "x = (k, t)" by fastforce
  obtain v st where t: "map_of t ''global_steps'' = Some v" "map_of t ''status'' = Some st"
    using Cons.prems [of k t] x by auto
  have ih: "rb_scan g p = Inr (if \<exists>(k, t)\<in>set p. map_of t ''global_steps'' = Some (step_value g) \<and>
      map_of t ''status'' = Some (TStr ''running'') then None
    else Some (filter (\<lambda>(k, t). map_of t ''global_steps'' = Some (step_value g) \<and>
      map_of t ''status'' = Some (TStr ''success'')) p))"
    by (rule Cons.IH) (meson Cons.prems list.set_intros(2))
  show ?case using t by (simp add: x ih)
qed simp

definition hit :: "tag_partition \<Rightarrow> int \<Rightarrow> string \<Rightarrow> string \<Rightarrow> bool" where
  "hit T g st k \<longleftrightarrow> field T k ''global_steps'' = Some (TInt g) \<and> field T k ''status'' = Some (TStr st)"

lemma rb_scan_hits:
  assumes "proper T" "\<And>k. k \<in> has T \<Longrightarrow> field T k ''global_steps'' \<noteq> None \<and> field T k ''status'' \<noteq> None"
  shows "rb_scan (Some g) T = Inr (if \<exists>k\<in>has T. hit T g ''running'' k then None
      else Some (filter (\<lambda>(k, t). hit T g ''success'' k) T))"
proof -
  have tags: "map_of t f = field T k f" if "(k, t) \<in> set T" for k t f
    using field_member [OF assms(1) that] by simp
  have "(\<exists>(k, t)\<in>set T. map_of t ''global_steps'' = Some (TInt g) \<and> map_of t ''status'' = Some (TStr ''running''))
      \<longleftrightarrow> (\<exists>(k, t)\<in>set T. hit T g ''running'' k)"
    by (rule bex_cong [OF refl]) (auto simp: tags hit_def)
  also have "\<dots> \<longleftrightarrow> (\<exists>k\<in>has T. hit T g ''running'' k)" unfolding Bex_def has_member by blast
  finally have wait: "(\<exists>(k, t)\<in>set T. map_of t ''global_steps'' = Some (TInt g) \<and> map_of t ''status'' = Some (TStr ''running''))
      \<longleftrightarrow> (\<exists>k\<in>has T. hit T g ''running'' k)" .
  have found: "filter (\<lambda>(k, t). map_of t ''global_steps'' = Some (TInt g) \<and>
      map_of t ''status'' = Some (TStr ''success'')) T = filter (\<lambda>(k, t). hit T g ''success'' k) T"
    by (rule filter_cong) (auto simp: tags hit_def)
  have "map_of t ''global_steps'' \<noteq> None \<and> map_of t ''status'' \<noteq> None" if "(k, t) \<in> set T" for k t
    using assms(2) tags [OF that] that has_member by metis
  then show ?thesis using rb_scan_filter [of T "Some g"] wait found by (simp add: step_value_def)
qed

lemma has_hits: "k \<in> has (filter (\<lambda>(k, t). hit T g st k) T) \<longleftrightarrow> k \<in> has T \<and> hit T g st k"
  by (auto simp: has_member)

text \<open>What the invariant says of the buffer.\<close>

lemma inv_run_tags:
  assumes "replay_inv ops pid s" "rs_runs s u = Some r"
  shows "field (rs_buffer s pid) u ''global_steps'' = Some (TInt (rn_steps r))"
    "u \<in> has (rs_buffer s pid)"
    "field (rs_buffer s pid) u ''status'' = Some (TStr ''running'') \<or>
     field (rs_buffer s pid) u ''status'' = Some (TStr ''finished'') \<and> rn_over r \<and> \<not> rn_failed r \<or>
     field (rs_buffer s pid) u ''status'' = Some (TStr ''failure'') \<and> rn_over r \<and> rn_failed r"
proof -
  have gs: "field (rs_buffer s pid) u ''global_steps'' \<noteq> None" using assms unfolding replay_inv_def by blast
  then show has: "u \<in> has (rs_buffer s pid)" by (rule field_has)
  have "key_ok (rs_runs s) (rs_published s) (rs_buffer s pid) u"
    using assms(1) has unfolding replay_inv_def table_ok_def by blast
  then show "field (rs_buffer s pid) u ''global_steps'' = Some (TInt (rn_steps r))"
    "field (rs_buffer s pid) u ''status'' = Some (TStr ''running'') \<or>
     field (rs_buffer s pid) u ''status'' = Some (TStr ''finished'') \<and> rn_over r \<and> \<not> rn_failed r \<or>
     field (rs_buffer s pid) u ''status'' = Some (TStr ''failure'') \<and> rn_over r \<and> rn_failed r"
    using gs assms(2) by (simp_all add: key_ok_def)
qed

lemma inv_key:
  assumes "replay_inv ops pid s" "k \<in> has (rs_buffer s pid)"
  shows "(\<exists>r. rs_runs s k = Some r) \<or> (\<exists>u r. rs_published s k = Some u \<and> rs_runs s u = Some r \<and>
    field (rs_buffer s pid) k ''global_steps'' = Some (TInt (rn_steps r)) \<and>
    field (rs_buffer s pid) k ''status'' = Some (TStr ''success''))"
proof -
  have "key_ok (rs_runs s) (rs_published s) (rs_buffer s pid) k"
    using assms unfolding replay_inv_def table_ok_def by blast
  then show ?thesis by (auto simp: key_ok_def split: option.splits)
qed

lemma inv_total:
  assumes "replay_inv ops pid s" "k \<in> has (rs_buffer s pid)"
  shows "field (rs_buffer s pid) k ''global_steps'' \<noteq> None \<and> field (rs_buffer s pid) k ''status'' \<noteq> None"
  using inv_key [OF assms]
proof
  assume "\<exists>r. rs_runs s k = Some r"
  then obtain r where r: "rs_runs s k = Some r" by blast
  show ?thesis using inv_run_tags(1,3) [OF assms(1) r] by auto
qed auto

text \<open>C34. For every queue that lists what was put and not cleared, and in every interleaving of the prompts'
  sessions and failures, the polling thread and the clean-ups: a sample of a training step never meets a
  tag without a step or a status, and when it returns a batch, every prompt of the step is over, the
  batch has every trajectory of its prompts without a failed session that was not cleared before, and
  nothing but trajectories of prompts of the step.
\<close>

theorem sample_complete:
  assumes t: "tag_table (kv_list ops) (kv_put ops) (kv_clear ops) ok" and q: "ok q" "kv_list ops q = []"
    and s: "replay_reach ops pid q s"
  shows "\<exists>found. rb_sample pid (Some g) None (rs_buffer s) = Inr found \<and>
    (\<forall>batch. found = Some batch \<longrightarrow>
      (\<forall>uid run. rs_runs s uid = Some run \<and> rn_steps run = g \<longrightarrow> rn_over run) \<and>
      (\<forall>key uid run. rs_published s key = Some uid \<and> rs_runs s uid = Some run \<and> rn_steps run = g \<and> \<not> rn_failed run \<longrightarrow>
        key \<in> has batch \<or> key \<in> rs_cleared s) \<and>
      (\<forall>key\<in>has batch. \<exists>uid run. rs_published s key = Some uid \<and> rs_runs s uid = Some run \<and> rn_steps run = g))"
proof -
  define B where "B = rs_buffer s pid"
  have inv: "replay_inv ops pid s" using replay_reach_inv [OF t q s] by simp
  note run = inv_run_tags [OF inv, folded B_def] and key = inv_key [OF inv, folded B_def]
  have ok: "runs_ok (rs_runs s) (rs_published s) (rs_cleared s)" and "complete (rs_published s) (rs_cleared s) B"
    and B: "proper B" using inv by (simp_all add: replay_inv_def table_ok_def B_def)
  note scan = rb_scan_hits [OF B inv_total [OF inv, folded B_def], where g = g]
  define batch where "batch = filter (\<lambda>(k, t). hit B g ''success'' k) B"
  have batch: "k \<in> has batch \<longleftrightarrow> k \<in> has B \<and> hit B g ''success'' k" for k unfolding batch_def by (rule has_hits)
  show ?thesis
  proof (cases "\<exists>k\<in>has B. hit B g ''running'' k")
    case True
    then show ?thesis using scan by (simp add: rb_sample_def truthy_size_def B_def)
  next
    case False
    have over: "rn_over r" "\<not> rn_failed r \<Longrightarrow> field B u ''status'' = Some (TStr ''finished'')"
      if r: "rs_runs s u = Some r" "rn_steps r = g" for u r
      using run [OF r(1)] r(2) False by (auto simp: hit_def)
    have all: "k \<in> has batch \<or> k \<in> rs_cleared s"
      if k: "rs_published s k = Some u" "rs_runs s u = Some r" "rn_steps r = g" "\<not> rn_failed r" for k u r
    proof -
      have "k \<in> has B \<union> rs_cleared s"
        using \<open>complete (rs_published s) (rs_cleared s) B\<close> k(1) over(2) [OF k(2,3,4)] unfolding complete_def by blast
      then show ?thesis using key [of k] runs_keys(1) [OF ok, of k] k batch by (auto simp: hit_def)
    qed
    have only: "\<exists>u r. rs_published s k = Some u \<and> rs_runs s u = Some r \<and> rn_steps r = g" if "k \<in> has batch" for k
    proof -
      have k: "k \<in> has B" "hit B g ''success'' k" using that batch by simp_all
      then have "rs_runs s k = None" using run(3) [of k] by (cases "rs_runs s k") (auto simp: hit_def)
      then show ?thesis using key [OF k(1)] k(2) by (auto simp: hit_def)
    qed
    have "rb_sample pid (Some g) None (rs_buffer s) = Inr (Some batch)"
      using scan False by (simp add: rb_sample_def truthy_size_def B_def [symmetric] batch_def [symmetric])
    then show ?thesis
      by (rule exI [of _ "Some batch", OF conjI]) (simp; intro conjI allI impI ballI; use over(1) all only in blast)
  qed
qed

lemma replay_run_reach: "replay_run ops pid xs s = Some s' \<Longrightarrow> replay_reach ops pid q s \<Longrightarrow> replay_reach ops pid q s'"
  by (induction xs arbitrary: s) (auto split: option.splits intro: replay_step)

text \<open>A queue that is a partition itself, and a prompt with one trajectory of two turns.\<close>

definition list_store :: "tag_partition kv_store" where
  "list_store = \<lparr>kv_list = (\<lambda>p. p), kv_put = add_items, kv_clear = remove_keys\<rparr>"

definition replay_sample_ops :: "replay_op list" where
  "replay_sample_ops = [Generate 1 1 [''a''], Publish ''a'' 0 [(2, 3), (4, 1)], FinishPrompt ''a'', PollRead, PollAdd]"

lemma list_store_table: "tag_table (kv_list list_store) (kv_put list_store) (kv_clear list_store) proper"
  by (simp add: list_store_def buffer.tag_table_axioms)

lemma str_nat_small: "str_nat 0 = ''0''" "str_nat (Suc 0) = ''1''"
  by code_simp+

lemmas replay_simps = str_nat_small list_store_def replay_start_def rs_generate_def rs_publish_def rs_finish_def rs_poll_read_def
  rs_poll_add_def rs_clear_def rs_remove_def rb_add_def rb_remove_def rb_sample_def add_items_def remove_keys_def dict_update_def
  running_items_def session_items_def status_item_def trajectory_key_def trajectory_tag_def truthy_size_def step_value_def

lemma sample_complete_witness:
  "\<exists>s. replay_run list_store ''train'' replay_sample_ops (replay_start []) = Some s \<and>
    rb_sample ''train'' (Some 1) None (rs_buffer s) =
      Inr (Some [(''a_0_0'', trajectory_tag 1 (2, 3)), (''a_0_1'', trajectory_tag 1 (4, 1))]) \<and>
    (\<exists>found. rb_sample ''train'' (Some 1) None (rs_buffer s) = Inr found \<and>
      (\<forall>batch. found = Some batch \<longrightarrow>
        (\<forall>uid run. rs_runs s uid = Some run \<and> rn_steps run = 1 \<longrightarrow> rn_over run) \<and>
        (\<forall>key uid run. rs_published s key = Some uid \<and> rs_runs s uid = Some run \<and> rn_steps run = 1 \<and> \<not> rn_failed run \<longrightarrow>
          key \<in> has batch \<or> key \<in> rs_cleared s) \<and>
        (\<forall>key\<in>has batch. \<exists>uid run. rs_published s key = Some uid \<and> rs_runs s uid = Some run \<and> rn_steps run = 1)))"
proof -
  have "\<exists>s. replay_run list_store ''train'' replay_sample_ops (replay_start []) = Some s \<and>
    rb_sample ''train'' (Some 1) None (rs_buffer s) =
      Inr (Some [(''a_0_0'', trajectory_tag 1 (2, 3)), (''a_0_1'', trajectory_tag 1 (4, 1))])"
    by (simp add: replay_sample_ops_def replay_simps)
  then obtain s where s: "replay_run list_store ''train'' replay_sample_ops (replay_start []) = Some s"
    "rb_sample ''train'' (Some 1) None (rs_buffer s) =
      Inr (Some [(''a_0_0'', trajectory_tag 1 (2, 3)), (''a_0_1'', trajectory_tag 1 (4, 1))])" by blast
  have "replay_reach list_store ''train'' [] s" by (rule replay_run_reach [OF s(1) replay_init])
  then show ?thesis
    by (intro exI [of _ s] conjI s sample_complete [OF list_store_table]) (simp_all add: proper_Nil list_store_def)
qed

text \<open>A poll that has read the queue before a clean-up brings the cleared trajectories back: when
  validation has two batches, both of step 1, and the polling thread adds the tags it read during the
  first after that batch's clean-up, the sample of the second batch holds a trajectory of the first,
  which the queue no longer has.
\<close>

theorem stale_poll_resurrects:
  "map_option (\<lambda>s. (case rb_sample ''val'' (Some 1) None (rs_buffer s) of Inr (Some batch) \<Rightarrow> map fst batch | _ \<Rightarrow> [], rs_cleared s, map fst (rs_queue s)))
     (replay_run list_store ''val''
       [Generate 1 1 [''a''], Publish ''a'' 0 [(2, 3)], FinishPrompt ''a'', PollRead, PollAdd, PollRead,
        ClearKeys [''a_0_0''], RemoveKeys [''a_0_0''], PollAdd,
        Generate 1 1 [''b''], Publish ''b'' 0 [(2, 4)], FinishPrompt ''b'', PollRead, PollAdd] (replay_start [])) =
   Some ([''a_0_0'', ''b_0_0''], {''a_0_0''}, [''a'', ''b_0_0'', ''b''])"
  by (simp add: replay_simps)

end
