(* ===== verification/MultiTrajectory.thy ===== *)
theory MultiTrajectory
  imports ReplayBuffer AgentLoopBatch RolloutCorrection Advantages MicroBatches
begin

text \<open>
  What the trainer of \<open>verl/trainer/main_ppo_sync.py\<close> does with a sampled batch in which a session may
  have several trajectories: it finds the last one of every session, computes group relative
  advantages from those and spreads them over the session, pads the batch to a size the updates can
  split (\<open>verl/trainer/ppo/padding_utils.py\<close>), and balances it over the ranks.
\<close>

section \<open>Keys\<close>

text \<open>\<open>s.rsplit(c, n)\<close> for a separator of one character.\<close>

definition last_split :: "char \<Rightarrow> string \<Rightarrow> (string \<times> string) option" where
  "last_split c s =
     (let b = takeWhile (\<lambda>x. x \<noteq> c) (rev s)
      in if length b = length s then None else Some (rev (drop (Suc (length b)) (rev s)), rev b))"

fun py_rsplit :: "char \<Rightarrow> nat \<Rightarrow> string \<Rightarrow> string list" where
  "py_rsplit c 0 s = [s]"
| "py_rsplit c (Suc n) s = (case last_split c s of None \<Rightarrow> [s] | Some (a, b) \<Rightarrow> py_rsplit c n a @ [b])"

text \<open>\<open>int(s)\<close>.\<close>

definition py_int :: "string \<Rightarrow> int res" where
  "py_int s =
     (let (neg, t) = read_sign (py_strip s); (ds, rest) = digit_run t; v = int (digits_value ds)
      in if ds = [] \<or> rest \<noteq> [] then Inl ValueError else Inr (if neg then - v else v))"

section \<open>The last trajectory of every session\<close>

text \<open>\<open>final_sessions\<close>: for every session, in the order of its first row, the largest index and its row.\<close>

type_synonym sessions = "(string \<times> int \<times> nat) list"

definition note_session :: "string \<Rightarrow> int \<Rightarrow> nat \<Rightarrow> sessions \<Rightarrow> sessions" where
  "note_session session_key index i final =
     (case map_of final session_key of
        None \<Rightarrow> AList.update session_key (index, i) final
      | Some (best, row) \<Rightarrow> if best < index then AList.update session_key (index, i) final else final)"

fun scan_keys :: "nat \<Rightarrow> string list \<Rightarrow> sessions \<Rightarrow> string list \<Rightarrow> (sessions \<times> string list) res" where
  "scan_keys i [] final row_session_keys = Inr (final, row_session_keys)"
| "scan_keys i (key # rest) final row_session_keys =
     (case py_rsplit CHR ''_'' 2 key of
        [uid, session_id, index] \<Rightarrow>
          bind_res (py_int index) (\<lambda>n.
            let session_key = uid @ ''_'' @ session_id
            in scan_keys (Suc i) rest (note_session session_key n i final) (row_session_keys @ [session_key]))
      | _ \<Rightarrow> Inl AssertionError)"

definition local_index :: "sessions \<Rightarrow> string \<Rightarrow> nat res" where
  "local_index final session_key =
     (if session_key \<in> set (map fst final) then Inr (first_index session_key (map fst final)) else Inl KeyError)"

text \<open>The same search in the validation loop, where a key of another form stands for itself.\<close>

fun validation_scan :: "nat \<Rightarrow> string list \<Rightarrow> sessions \<Rightarrow> sessions res" where
  "validation_scan pos [] session_max = Inr session_max"
| "validation_scan pos (key # rest) session_max =
     (case py_rsplit CHR ''_'' 2 key of
        [uid, session_id, index] \<Rightarrow>
          bind_res (py_int index) (\<lambda>n.
            validation_scan (Suc pos) rest (note_session (uid @ ''_'' @ session_id) n pos session_max))
      | _ \<Rightarrow> validation_scan (Suc pos) rest (AList.update key (0, pos) session_max))"

definition validation_finals :: "string list \<Rightarrow> nat list res" where
  "validation_finals keys =
     bind_res (validation_scan 0 keys []) (\<lambda>session_max.
       Inr (map (\<lambda>(_, _, pos). pos) (sort_key (\<lambda>(_, _, pos). pos) session_max)))"

section \<open>Advantages\<close>

record traj_batch =
  tb_rewards :: tensor
  tb_mask :: tensor
  tb_uid :: "string list"
  tb_advantages :: tensor
  tb_returns :: tensor

text \<open>\<open>select_idxs\<close>, before there are advantages.\<close>

definition select_rows :: "nat list \<Rightarrow> traj_batch \<Rightarrow> traj_batch" where
  "select_rows idxs b =
     \<lparr>tb_rewards = map (nth (tb_rewards b)) idxs, tb_mask = map (nth (tb_mask b)) idxs, tb_uid = map (nth (tb_uid b)) idxs,
      tb_advantages = [], tb_returns = []\<rparr>"

definition grpo_epsilon :: rat where
  "grpo_epsilon = 1 / 10 ^ 6"

text \<open>\<open>compute_advantage\<close> for GRPO.\<close>

definition grpo_compute_advantage :: "(rat \<Rightarrow> rat) \<Rightarrow> bool \<Rightarrow> traj_batch \<Rightarrow> traj_batch res" where
  "grpo_compute_advantage rt norm_by_std b =
     bind_res (compute_grpo_outcome_advantage rt (tb_rewards b) (tb_mask b) (tb_uid b) grpo_epsilon norm_by_std)
       (\<lambda>adv. Inr (b\<lparr>tb_advantages := adv, tb_returns := adv\<rparr>))"

definition row_argmax :: "rat list \<Rightarrow> nat res" where
  "row_argmax xs = (if xs = [] then Inl IndexError else Inr (argmax_first xs))"

definition first_scores :: "traj_batch \<Rightarrow> rat list res" where
  "first_scores b =
     map_res (\<lambda>(row, ms). bind_res (row_argmax ms) (\<lambda>j. Inr (row ! j))) (zip (tb_advantages b) (tb_mask b))"

datatype adv_estimator = GRPO | OtherEstimator "traj_batch \<Rightarrow> traj_batch res"

definition compute_advantage_for_multi_trajectories ::
  "(rat \<Rightarrow> rat) \<Rightarrow> bool \<Rightarrow> adv_estimator \<Rightarrow> string list \<Rightarrow> traj_batch \<Rightarrow> traj_batch res" where
  "compute_advantage_for_multi_trajectories rt norm_by_std adv_est batch_keys data =
     (case adv_est of
        OtherEstimator compute_adv \<Rightarrow> compute_adv data
      | GRPO \<Rightarrow>
          bind_res (scan_keys 0 batch_keys [] []) (\<lambda>(final, row_session_keys).
          bind_res (map_res (local_index final) row_session_keys) (\<lambda>row_to_local_index.
          bind_res (grpo_compute_advantage rt norm_by_std (select_rows (map (snd \<circ> snd) final) data)) (\<lambda>final_data.
          bind_res (first_scores final_data) (\<lambda>final_scores.
            let scores = spread_scores (map (nth final_scores) row_to_local_index) (tb_mask data)
            in Inr (data\<lparr>tb_advantages := scores, tb_returns := scores\<rparr>))))))"

section \<open>Padding\<close>

text \<open>A sample of the queue: tensors by shape and entries, row by row.\<close>

datatype sample_value = VTensor "nat list" "rat list" | VInt int | VStr string | VDict "(string \<times> sample_value) list"

type_synonym sample = "(string \<times> sample_value) list"

definition row_position_ids :: "rat list \<Rightarrow> rat list" where
  "row_position_ids attention_mask =
     map (\<lambda>i. max 0 (sum_list (take (Suc i) attention_mask) - 1)) [0..<length attention_mask]"

definition build_padding_position_ids :: "sample_value option \<Rightarrow> rat list \<Rightarrow> sample_value" where
  "build_padding_position_ids source attention_mask =
     (let position_ids = row_position_ids attention_mask; flat = VTensor [length position_ids] position_ids
      in case source of
           Some (VTensor dims _) \<Rightarrow>
             if length dims \<le> 1 then flat
             else VTensor (butlast dims @ [length position_ids]) (concat (replicate (prod_list (butlast dims)) position_ids))
         | _ \<Rightarrow> flat)"

definition build_padding_routed_experts :: "sample_value option \<Rightarrow> nat \<Rightarrow> sample_value option" where
  "build_padding_routed_experts source seq_len =
     (case source of
        Some (VTensor dims _) \<Rightarrow>
          let dims' = (if dims = [] then [] else seq_len # tl dims)
          in Some (VTensor dims' (replicate (prod_list dims') 0))
      | _ \<Rightarrow> None)"

definition construct_minimal_padding_template :: "sample \<Rightarrow> tag \<Rightarrow> int \<Rightarrow> sample \<times> tag" where
  "construct_minimal_padding_template source_td source_tag eos_token_id =
     (let eos = of_int eos_token_id;
          position_ids = build_padding_position_ids (map_of source_td ''position_ids'') [1, 1];
          routed_experts = build_padding_routed_experts (map_of source_td ''routed_experts'') 2;
          t1 = dict_update source_td
            [(''prompts'', VTensor [1] [eos]), (''responses'', VTensor [1] [eos]), (''input_ids'', VTensor [2] [eos, eos]),
             (''attention_mask'', VTensor [2] [1, 1]), (''position_ids'', position_ids), (''num_turns'', VInt 0),
             (''response_mask'', VTensor [1] [0]), (''loss_mask'', VTensor [1] [0]),
             (''rm_scores'', VTensor [1] [0]), (''rollout_log_probs'', VTensor [1] [0])];
          t2 = (if map_of t1 ''multi_modal_inputs'' = None then t1 else AList.update ''multi_modal_inputs'' (VDict []) t1);
          t3 = (case routed_experts of Some r \<Rightarrow> AList.update ''routed_experts'' r t2 | None \<Rightarrow> AList.delete ''routed_experts'' t2);
          tag = dict_update source_tag
            [(''is_padding'', TBool True), (''prompt_len'', TInt 1), (''response_len'', TInt 1), (''seq_len'', TInt 2)]
      in (t3, tag))"

text \<open>
  The batch with its padding, and what is put into the queue; \<open>get\<close> reads a sample of the queue and
  \<open>pad_uid\<close> is the fresh identifier of the padding.
\<close>

definition upsample_batch_to_divisible_size ::
  "(string \<Rightarrow> sample) \<Rightarrow> string \<Rightarrow> tag_partition \<Rightarrow> nat \<Rightarrow> int \<Rightarrow> (tag_partition \<times> (string \<times> sample \<times> tag) list) res" where
  "upsample_batch_to_divisible_size get pad_uid batch batch_multiple eos_token_id =
     (if batch_multiple = 0 then Inl ZeroDivisionError
      else let remainder = length batch mod batch_multiple
      in if remainder = 0 then Inr (batch, [])
      else let (source_key, source_tag) = hd batch;
               (template, template_tag) = construct_minimal_padding_template (get source_key) source_tag eos_token_id;
               template_sample = AList.update ''uid'' (VStr pad_uid) template;
               pads = map (\<lambda>i. (trajectory_key pad_uid i 0,
                   (if map_of template_sample ''session_id'' = None then template_sample
                    else AList.update ''session_id'' (VInt (int i)) template_sample), template_tag))
                 [0..<batch_multiple - remainder]
      in Inr (batch @ map (\<lambda>(k, _, t). (k, t)) pads, pads))"

section \<open>Balancing\<close>

record sync_config =
  sc_use_critic :: bool
  sc_critic_mini :: nat
  sc_actor_mini :: nat
  sc_rollout_n :: nat
  sc_critic_warmup :: int

definition get_required_batch_multiple :: "sync_config \<Rightarrow> int \<Rightarrow> nat \<Rightarrow> nat" where
  "get_required_batch_multiple c global_steps ranks =
     (let m1 = (if sc_use_critic c then lcm ranks (sc_critic_mini c * sc_rollout_n c) else ranks)
      in if sc_critic_warmup c \<le> global_steps then lcm m1 (sc_actor_mini c * sc_rollout_n c) else m1)"

definition tag_seq_len :: "tag \<Rightarrow> int res" where
  "tag_seq_len t = (case map_of t ''seq_len'' of None \<Rightarrow> Inl KeyError | Some (TInt n) \<Rightarrow> Inr n | Some _ \<Rightarrow> Inl TypeError)"

definition balance_batch ::
  "(string \<Rightarrow> sample) \<Rightarrow> string \<Rightarrow> int \<Rightarrow> sync_config \<Rightarrow> int \<Rightarrow> nat \<Rightarrow> tag_partition \<Rightarrow> tag_partition res" where
  "balance_batch get pad_uid eos_token_id c global_steps ranks batch =
     bind_res (upsample_batch_to_divisible_size get pad_uid batch (get_required_batch_multiple c global_steps ranks) eos_token_id)
       (\<lambda>(batch', _).
     bind_res (map_res (tag_seq_len \<circ> snd) batch') (\<lambda>global_seqlen_lst.
     bind_res (get_seqlen_balanced_partitions (map calculate_workload global_seqlen_lst) ranks True) (\<lambda>partitions.
       Inr (map (nth batch') (concat partitions)))))"

text \<open>\<open>_compute_metrics\<close>: the rows that count, or all when there is no other than padding.\<close>

definition tag_truthy :: "tag_value option \<Rightarrow> bool" where
  "tag_truthy v = (case v of None \<Rightarrow> False | Some TNone \<Rightarrow> False | Some (TInt n) \<Rightarrow> n \<noteq> 0 | Some (TStr s) \<Rightarrow> s \<noteq> [] | Some (TBool b) \<Rightarrow> b)"

definition metric_rows :: "tag_partition \<Rightarrow> tag_partition" where
  "metric_rows batch =
     (let real = filter (\<lambda>(k, t). \<not> tag_truthy (map_of t ''is_padding'')) batch in if real = [] then batch else real)"

section \<open>Reading keys back\<close>

lemma last_split_append: "c \<notin> set b \<Longrightarrow> last_split c (a @ c # b) = Some (a, b)"
proof -
  assume b: "c \<notin> set b"
  then have "takeWhile (\<lambda>x. x \<noteq> c) (rev b @ c # rev a) = rev b" by (subst takeWhile_append2) auto
  then show ?thesis by (simp add: last_split_def)
qed

lemma str_nat_no_underscore: "CHR ''_'' \<notin> set (str_nat n)"
  using str_nat_digits by (fastforce simp: py_isdigit_def)

lemma rsplit_trajectory_key: "py_rsplit CHR ''_'' 2 (trajectory_key uid s i) = [uid, str_nat s, str_nat i]"
  using last_split_append [OF str_nat_no_underscore, of "uid @ ''_'' @ str_nat s" i]
    last_split_append [OF str_nat_no_underscore, of uid s]
  by (simp add: trajectory_key_def numeral_2_eq_2)

lemma digit_run_all: "\<forall>c\<in>set s. py_isdigit c \<Longrightarrow> digit_run s = (s, [])"
proof (induction s)
  case (Cons c s)
  have "take 1 s \<noteq> ''_''" using Cons.prems by (cases s) (auto simp: py_isdigit_def)
  then show ?case using Cons by (subst digit_run.simps) simp
qed (simp add: digit_run.simps)

lemma digit_not_space: "py_isdigit c \<Longrightarrow> \<not> py_isspace c"
  by (auto simp: py_isdigit_def py_isspace_def Let_def)

lemma dropWhile_none: "\<forall>c\<in>set s. \<not> P c \<Longrightarrow> dropWhile P s = s"
  by (cases s) auto

lemma py_strip_no_space: "\<forall>c\<in>set s. \<not> py_isspace c \<Longrightarrow> py_strip s = s"
  by (simp add: py_strip_def py_lstrip_def py_rstrip_def dropWhile_none)

lemma py_int_str_nat: "py_int (str_nat n) = Inr (int n)"
proof -
  have "py_strip (str_nat n) = str_nat n" using str_nat_digits digit_not_space by (blast intro: py_strip_no_space)
  moreover have "read_sign (str_nat n) = (False, str_nat n)"
    using str_nat_digits [of n] by (cases "str_nat n") (auto simp: read_sign_def py_isdigit_def)
  moreover have "digit_run (str_nat n) = (str_nat n, [])" by (rule digit_run_all) (rule str_nat_digits)
  ultimately show ?thesis by (simp add: py_int_def digits_value_str_nat)
qed

type_synonym row_id = "string \<times> nat \<times> nat"

definition row_key :: "row_id \<Rightarrow> string" where
  "row_key = (\<lambda>(uid, s, i). trajectory_key uid s i)"

definition row_session :: "row_id \<Rightarrow> string" where
  "row_session = (\<lambda>(uid, s, i). uid @ ''_'' @ str_nat s)"

definition row_index :: "row_id \<Rightarrow> nat" where
  "row_index = (\<lambda>(uid, s, i). i)"

lemma row_session_eq: "row_session a = row_session b \<longleftrightarrow> fst a = fst b \<and> fst (snd a) = fst (snd b)"
proof
  assume eq: "row_session a = row_session b"
  have split: "last_split CHR ''_'' (row_session r) = Some (fst r, str_nat (fst (snd r)))" for r
    using last_split_append [OF str_nat_no_underscore] by (simp add: row_session_def case_prod_beta)
  show "fst a = fst b \<and> fst (snd a) = fst (snd b)" using split [of a] split [of b] eq str_nat_inj by simp
qed (simp add: row_session_def case_prod_beta)

definition session_fold :: "nat \<Rightarrow> row_id list \<Rightarrow> sessions \<Rightarrow> sessions" where
  "session_fold i ids final = fold (\<lambda>(j, r). note_session (row_session r) (int (row_index r)) j) (enumerate i ids) final"

lemma scan_keys_ids:
  "scan_keys i (map row_key ids) final ks = Inr (session_fold i ids final, ks @ map row_session ids)"
proof (induction ids arbitrary: i final ks)
  case (Cons r ids)
  obtain u s n where r: "r = (u, s, n)" by (metis prod_cases3)
  show ?case using Cons
    by (simp add: r row_key_def rsplit_trajectory_key py_int_str_nat session_fold_def row_session_def row_index_def Let_def)
qed (simp add: session_fold_def)

text \<open>What the fold has found after \<open>n\<close> rows.\<close>

definition finals_ok :: "row_id list \<Rightarrow> nat \<Rightarrow> sessions \<Rightarrow> bool" where
  "finals_ok ids n final \<longleftrightarrow> distinct (map fst final) \<and>
     (\<forall>k. case map_of final k of
            None \<Rightarrow> \<forall>r<n. row_session (ids ! r) \<noteq> k
          | Some (best, row) \<Rightarrow> row < n \<and> row_session (ids ! row) = k \<and> best = int (row_index (ids ! row)) \<and>
              (\<forall>r<n. row_session (ids ! r) = k \<longrightarrow> row_index (ids ! r) \<le> row_index (ids ! row)))"

lemma note_session_map:
  "map_of (note_session k v i final) k' =
     (if k' = k \<and> (case map_of final k of None \<Rightarrow> True | Some (best, row) \<Rightarrow> best < v) then Some (v, i) else map_of final k')"
  by (auto simp: note_session_def AList.update_conv' split: option.split)

lemma note_session_distinct: "distinct (map fst final) \<Longrightarrow> distinct (map fst (note_session k v i final))"
  by (auto simp: note_session_def distinct_update split: option.split)

lemma finals_ok_step:
  assumes "finals_ok ids n final"
  shows "finals_ok ids (Suc n) (note_session (row_session (ids ! n)) (int (row_index (ids ! n))) n final)"
proof -
  let ?k = "row_session (ids ! n)"
  have old: "case map_of final k of None \<Rightarrow> \<forall>r<n. row_session (ids ! r) \<noteq> k
      | Some (best, row) \<Rightarrow> row < n \<and> row_session (ids ! row) = k \<and> best = int (row_index (ids ! row)) \<and>
          (\<forall>r<n. row_session (ids ! r) = k \<longrightarrow> row_index (ids ! r) \<le> row_index (ids ! row))" for k
    using assms by (simp add: finals_ok_def)
  have "case map_of (note_session ?k (int (row_index (ids ! n))) n final) k of
        None \<Rightarrow> \<forall>r<Suc n. row_session (ids ! r) \<noteq> k
      | Some (best, row) \<Rightarrow> row < Suc n \<and> row_session (ids ! row) = k \<and> best = int (row_index (ids ! row)) \<and>
          (\<forall>r<Suc n. row_session (ids ! r) = k \<longrightarrow> row_index (ids ! r) \<le> row_index (ids ! row))" for k
  proof (cases "k = ?k")
    case False
    then have "row_session (ids ! r) = k \<Longrightarrow> r < Suc n \<Longrightarrow> r < n" for r by (cases "r = n") auto
    then show ?thesis using old [of k] False unfolding note_session_map
      by (auto simp: less_Suc_eq split: option.splits)
  next
    case True
    show ?thesis
    proof (cases "map_of final ?k")
      case None
      then show ?thesis using old [of ?k] True unfolding note_session_map by (auto simp: less_Suc_eq)
    next
      case (Some v)
      obtain best row where v: "v = (best, row)" by fastforce
      have o: "row < n" "row_session (ids ! row) = ?k" "best = int (row_index (ids ! row))"
        "\<And>r. r < n \<Longrightarrow> row_session (ids ! r) = ?k \<Longrightarrow> row_index (ids ! r) \<le> row_index (ids ! row)"
        using old [of ?k] Some v by auto
      show ?thesis
        using o(1-3) o(4) Some v True unfolding note_session_map
        by (auto simp: less_Suc_eq intro: order_trans [OF _ less_imp_le])
    qed
  qed
  then show ?thesis using assms by (simp add: finals_ok_def note_session_distinct)
qed

lemma session_fold_ok: "n \<le> length ids \<Longrightarrow> finals_ok ids n (session_fold 0 (take n ids) [])"
proof (induction n)
  case 0
  then show ?case by (simp add: session_fold_def finals_ok_def)
next
  case (Suc n)
  have "session_fold 0 (take (Suc n) ids) [] =
      note_session (row_session (ids ! n)) (int (row_index (ids ! n))) n (session_fold 0 (take n ids) [])"
    using Suc.prems by (simp add: session_fold_def take_Suc_conv_app_nth enumerate_append_eq)
  then show ?case using finals_ok_step [OF Suc.IH] Suc.prems by simp
qed

text \<open>The last rows: those of the largest index in their session.\<close>

definition is_last :: "row_id list \<Rightarrow> nat \<Rightarrow> bool" where
  "is_last ids f \<longleftrightarrow> f < length ids \<and>
     (\<forall>r<length ids. row_session (ids ! r) = row_session (ids ! f) \<longrightarrow> row_index (ids ! r) \<le> row_index (ids ! f))"

lemma finals_rows:
  assumes "distinct ids"
  obtains final where "scan_keys 0 (map row_key ids) [] [] = Inr (final, map row_session ids)"
    "\<And>k row. (k, row) \<in> set (map (\<lambda>(k, best, row). (k, row)) final) \<Longrightarrow> row_session (ids ! row) = k"
    "distinct (map fst final)" "set (map fst final) = row_session ` set ids"
    "distinct (map (snd \<circ> snd) final)" "set (map (snd \<circ> snd) final) = {f. is_last ids f}"
proof -
  define final where "final = session_fold 0 ids []"
  have ok: "finals_ok ids (length ids) final" using session_fold_ok [of "length ids" ids] by (simp add: final_def)
  have d: "distinct (map fst final)" using ok by (simp add: finals_ok_def)
  have some: "row < length ids \<and> row_session (ids ! row) = k \<and> best = int (row_index (ids ! row)) \<and>
      (\<forall>r<length ids. row_session (ids ! r) = k \<longrightarrow> row_index (ids ! r) \<le> row_index (ids ! row))"
    if "(k, best, row) \<in> set final" for k best row
    using ok map_of_is_SomeI [OF d that] unfolding finals_ok_def by (auto dest: spec [of _ k])
  have none: "\<exists>best row. (k, best, row) \<in> set final" if k: "r < length ids" "row_session (ids ! r) = k" for k r
  proof (cases "map_of final k")
    case None
    have "\<forall>r<length ids. row_session (ids ! r) \<noteq> k"
      using conjunct2 [OF ok [unfolded finals_ok_def], THEN spec, of k] None by simp
    then show ?thesis using k by simp
  next
    case (Some v)
    then show ?thesis using map_of_SomeD [OF Some] by (cases v) auto
  qed
  show thesis
  proof (rule that [of final])
    show "scan_keys 0 (map row_key ids) [] [] = Inr (final, map row_session ids)"
      by (simp add: scan_keys_ids final_def)
    show "row_session (ids ! row) = k" if "(k, row) \<in> set (map (\<lambda>(k, best, row). (k, row)) final)" for k row
      using that some by fastforce
    show "distinct (map fst final)" by (rule d)
    show "set (map fst final) = row_session ` set ids"
    proof (intro equalityI subsetI)
      fix k assume "k \<in> set (map fst final)"
      then obtain best row where "(k, best, row) \<in> set final" by auto
      then show "k \<in> row_session ` set ids" using some nth_mem by blast
    next
      fix k assume "k \<in> row_session ` set ids"
      then obtain r where "r < length ids" "row_session (ids ! r) = k" by (auto simp: in_set_conv_nth)
      then show "k \<in> set (map fst final)" using none by force
    qed
    have key: "fst x = row_session (ids ! snd (snd x))" if "x \<in> set final" for x
      using some [of "fst x" "fst (snd x)" "snd (snd x)"] that by simp
    have eq: "map fst final = map (row_session \<circ> nth ids) (map (snd \<circ> snd) final)" using key by simp
    have "distinct (map (row_session \<circ> nth ids) (map (snd \<circ> snd) final))" using d unfolding eq .
    then show "distinct (map (snd \<circ> snd) final)" by (metis distinct_map)
    show "set (map (snd \<circ> snd) final) = {f. is_last ids f}"
    proof (intro equalityI subsetI)
      fix f assume "f \<in> set (map (snd \<circ> snd) final)"
      then obtain k best where "(k, best, f) \<in> set final" by auto
      then show "f \<in> {f. is_last ids f}" using some by (simp add: is_last_def)
    next
      fix f assume "f \<in> {f. is_last ids f}"
      then have f: "f < length ids" "\<And>r. r < length ids \<Longrightarrow> row_session (ids ! r) = row_session (ids ! f) \<Longrightarrow>
          row_index (ids ! r) \<le> row_index (ids ! f)" by (auto simp: is_last_def)
      obtain best row where row: "(row_session (ids ! f), best, row) \<in> set final" using none [OF f(1) refl] by blast
      note o = some [OF row]
      have "row_index (ids ! f) \<le> row_index (ids ! row)" using o f(1) by simp
      moreover have "row_index (ids ! row) \<le> row_index (ids ! f)" using o f(2) [of row] by simp
      ultimately have "ids ! f = ids ! row" using o row_session_eq [of "ids ! row" "ids ! f"]
        by (auto simp: row_index_def prod_eq_iff split: prod.splits)
      then have "f = row" using o f(1) assms by (simp add: nth_eq_iff_index_eq)
      then show "f \<in> set (map (snd \<circ> snd) final)" using row by force
    qed
  qed
qed

section \<open>Advantages of the last rows\<close>

definition grpo_score :: "(rat \<Rightarrow> rat) \<Rightarrow> bool \<Rightarrow> rat \<Rightarrow> rat list \<Rightarrow> rat" where
  "grpo_score rt norm_by_std s xs =
     (let mu = (if length xs = 1 then 0 else mean xs); sd = (if length xs = 1 then 1 else rt (variance xs))
      in if norm_by_std then (s - mu) / (sd + grpo_epsilon) else s - mu)"

lemma grpo_rows:
  assumes "\<forall>x. 0 \<le> rt x" "length index = length rewards"
  shows "compute_grpo_outcome_advantage rt rewards ms index grpo_epsilon norm_by_std =
    Inr (spread_scores (map (\<lambda>(k, s). grpo_score rt norm_by_std s (members index (map sum_list rewards) k))
      (zip index (map sum_list rewards))) ms)"
proof -
  have "by_group index (outcome_scores rewards) (\<lambda>s xs.
         bind_res (group_mean xs) (\<lambda>mu.
         bind_res (group_std rt xs) (\<lambda>sd.
           if norm_by_std then torch_div (s - mu) (sd + grpo_epsilon) else Inr (s - mu)))) =
    Inr (map (\<lambda>(k, s). grpo_score rt norm_by_std s (members index (outcome_scores rewards) k))
      (zip index (outcome_scores rewards)))"
  proof (rule by_group_Inr)
    fix k s assume "(k, s) \<in> set (zip index (outcome_scores rewards))"
    then have len: "0 < length (members index (outcome_scores rewards) k)"
      by (metis length_members_pos length_pos_if_in_set)
    then have "length (members index (outcome_scores rewards) k) = 1 \<or> 1 < length (members index (outcome_scores rewards) k)"
      by linarith
    then show "bind_res (group_mean (members index (outcome_scores rewards) k)) (\<lambda>mu.
         bind_res (group_std rt (members index (outcome_scores rewards) k)) (\<lambda>sd.
           if norm_by_std then torch_div (s - mu) (sd + grpo_epsilon) else Inr (s - mu))) =
      Inr (grpo_score rt norm_by_std s (members index (outcome_scores rewards) k))"
      using assms(1) by (auto simp: group_mean_def group_std_def grpo_score_def torch_div_def grpo_epsilon_def Let_def
          add_nonneg_eq_0_iff)
  qed
  then show ?thesis by (simp add: compute_grpo_outcome_advantage_def outcome_scores_def)
qed

lemma argmax_first_max:
  assumes "xs \<noteq> []"
  shows "argmax_first xs < length xs \<and> (\<forall>i<length xs. xs ! i \<le> xs ! argmax_first xs)"
proof -
  have "(fold (\<lambda>i b. if xs ! b < xs ! i then i else b) [0..<n] 0 < max 1 n) \<and>
      (\<forall>i<n. xs ! i \<le> xs ! fold (\<lambda>i b. if xs ! b < xs ! i then i else b) [0..<n] 0)" for n
    by (induction n) (auto simp: less_Suc_eq max_def split: if_splits)
  from this [of "length xs"] assms show ?thesis by (simp add: argmax_first_def max_def split: if_splits)
qed

lemma mask_argmax:
  assumes "ms \<noteq> []" "set ms \<subseteq> {0, 1 :: rat}"
  shows "row_argmax ms = Inr (argmax_first ms)" "argmax_first ms < length ms"
    "ms ! argmax_first ms = (if 1 \<in> set ms then 1 else 0)"
proof -
  note m = argmax_first_max [OF assms(1)]
  then show "argmax_first ms < length ms" by simp
  then have v: "ms ! argmax_first ms \<in> set ms" by (rule nth_mem)
  show "row_argmax ms = Inr (argmax_first ms)" using assms(1) by (simp add: row_argmax_def)
  show "ms ! argmax_first ms = (if 1 \<in> set ms then 1 else 0)"
  proof (cases "1 \<in> set ms")
    case True
    then obtain i where "i < length ms" "ms ! i = 1" by (auto simp: in_set_conv_nth)
    then have "1 \<le> ms ! argmax_first ms" using m by metis
    then show ?thesis using True v assms(2) by fastforce
  qed (use v assms(2) in fastforce)
qed

lemma first_scores_rows:
  assumes "tb_advantages b = spread_scores cs (tb_mask b)" "length cs = length (tb_mask b)"
    and "\<forall>ms\<in>set (tb_mask b). ms \<noteq> [] \<and> set ms \<subseteq> {0, 1}"
  shows "first_scores b = Inr (map2 (\<lambda>c ms. c * (if 1 \<in> set ms then 1 else 0)) cs (tb_mask b))"
proof -
  have ok: "bind_res (row_argmax ms) (\<lambda>j. Inr (map (\<lambda>m. c * m) ms ! j)) = Inr (c * (if 1 \<in> set ms then 1 else 0))"
    if "ms \<in> set (tb_mask b)" for c ms
    using mask_argmax [of ms] that assms(3) by simp
  have "map_res (\<lambda>(row, ms). bind_res (row_argmax ms) (\<lambda>j. Inr (row ! j))) (zip (spread_scores cs mss) mss) =
      Inr (map2 (\<lambda>c ms. c * (if 1 \<in> set ms then 1 else 0)) cs mss)"
    if "length cs = length mss" "set mss \<subseteq> set (tb_mask b)" for mss
    using that
  proof (induction cs mss rule: list_induct2)
    case (Cons c cs ms mss)
    then show ?case using ok [of ms c] by (simp add: spread_scores_def)
  qed (simp add: spread_scores_def)
  from this [OF assms(2) subset_refl] show ?thesis by (simp add: first_scores_def assms(1))
qed

lemma members_map_rows: "members (map f F) (map g F) k = [g r. r \<leftarrow> F, f r = k]"
  by (induction F) (auto simp: members_def)

text \<open>The score of a last row among the last rows of its prompt.\<close>

definition session_score :: "(rat \<Rightarrow> rat) \<Rightarrow> bool \<Rightarrow> traj_batch \<Rightarrow> row_id list \<Rightarrow> nat list \<Rightarrow> nat \<Rightarrow> rat" where
  "session_score rt norm_by_std b ids finals f =
     grpo_score rt norm_by_std (sum_list (tb_rewards b ! f))
       [sum_list (tb_rewards b ! g). g \<leftarrow> finals, fst (ids ! g) = fst (ids ! f)]"

lemma last_scores:
  assumes len: "length (tb_mask b) = length ids" "tb_uid b = map fst ids"
    and masks: "\<forall>ms\<in>set (tb_mask b). ms \<noteq> [] \<and> set ms \<subseteq> {0, 1}" and rt: "\<forall>x. 0 \<le> rt x"
    and fin: "\<And>f. f \<in> set finals \<Longrightarrow> f < length ids"
  shows "bind_res (grpo_compute_advantage rt norm_by_std (select_rows finals b)) first_scores =
    Inr (map (\<lambda>f. session_score rt norm_by_std b ids finals f * (if 1 \<in> set (tb_mask b ! f) then 1 else 0)) finals)"
proof -
  let ?sel = "select_rows finals b" and ?score = "session_score rt norm_by_std b ids finals"
  have uid: "map (nth (tb_uid b)) finals = map (\<lambda>f. fst (ids ! f)) finals" using fin by (simp add: len(2))
  have grpo: "grpo_compute_advantage rt norm_by_std ?sel =
      Inr (?sel\<lparr>tb_advantages := spread_scores (map ?score finals) (tb_mask ?sel), tb_returns := spread_scores (map ?score finals) (tb_mask ?sel)\<rparr>)"
    unfolding grpo_compute_advantage_def select_rows_def uid
    by (simp add: grpo_rows [OF rt] zip_map_map comp_def members_map_rows session_score_def [symmetric] zip_same_conv_map)
  have "\<forall>ms\<in>set (map (nth (tb_mask b)) finals). ms \<noteq> [] \<and> set ms \<subseteq> {0, 1}"
    using masks fin len(1) by simp
  then have "first_scores (?sel\<lparr>tb_advantages := spread_scores (map ?score finals) (tb_mask ?sel), tb_returns := a\<rparr>) =
      Inr (map (\<lambda>f. ?score f * (if 1 \<in> set (tb_mask b ! f) then 1 else 0)) finals)" for a
    by (subst first_scores_rows [of _ "map ?score finals"]) (simp_all add: select_rows_def zip_map_map zip_same_conv_map comp_def)
  then show ?thesis by (simp add: grpo)
qed

text \<open>C35. With GRPO, whatever the order in which trajectories come: every session is judged by its last
  trajectory alone, that is by the reward of that trajectory relative to the last trajectories of the
  other sessions of its prompt, and all its trajectories get that advantage on their response tokens.
  When the last trajectory has no response token left in its mask, all of them get zero.
\<close>

theorem session_advantages:
  assumes keys: "keys = map row_key ids" "distinct ids"
    and len: "length (tb_rewards b) = length ids" "length (tb_mask b) = length ids" "tb_uid b = map fst ids"
    and masks: "\<forall>ms\<in>set (tb_mask b). ms \<noteq> [] \<and> set ms \<subseteq> {0, 1}" and rt: "\<forall>x. 0 \<le> rt x"
  shows "\<exists>finals b'. compute_advantage_for_multi_trajectories rt norm_by_std GRPO keys b = Inr b' \<and>
    distinct finals \<and> set finals = {f. is_last ids f} \<and> length (tb_advantages b') = length ids \<and> tb_returns b' = tb_advantages b' \<and>
    (\<forall>r<length ids. \<exists>f\<in>set finals. row_session (ids ! f) = row_session (ids ! r) \<and>
      tb_advantages b' ! r = map (\<lambda>m. (if 1 \<in> set (tb_mask b ! f)
          then session_score rt norm_by_std b ids finals f else 0) * m) (tb_mask b ! r))"
proof -
  obtain final where scan: "scan_keys 0 (map row_key ids) [] [] = Inr (final, map row_session ids)"
    and key: "\<And>k row. (k, row) \<in> set (map (\<lambda>(k, best, row). (k, row)) final) \<Longrightarrow> row_session (ids ! row) = k"
    and dom: "set (map fst final) = row_session ` set ids"
    and F: "distinct (map (snd \<circ> snd) final)" "set (map (snd \<circ> snd) final) = {f. is_last ids f}"
    by (rule finals_rows [OF keys(2)]) blast
  define finals where "finals = map (snd \<circ> snd) final"
  have fin: "f < length ids" if "f \<in> set finals" for f using that F(2) by (auto simp: finals_def is_last_def)
  have locals: "map_res (local_index final) (map row_session ids) =
      Inr (map (\<lambda>k. first_index k (map fst final)) (map row_session ids))"
    by (rule map_res_Inr) (use dom in \<open>auto simp: local_index_def\<close>)
  define sc where "sc f = session_score rt norm_by_std b ids finals f * (if 1 \<in> set (tb_mask b ! f) then 1 else 0)" for f
  define scores where "scores = spread_scores (map (nth (map sc finals)) (map (\<lambda>k. first_index k (map fst final)) (map row_session ids))) (tb_mask b)"
  have last: "bind_res (grpo_compute_advantage rt norm_by_std (select_rows finals b)) first_scores = Inr (map sc finals)"
    using last_scores [OF len(2,3) masks rt fin, where finals = finals] by (simp add: sc_def [abs_def])
  have result: "compute_advantage_for_multi_trajectories rt norm_by_std GRPO keys b =
      Inr (b\<lparr>tb_advantages := scores, tb_returns := scores\<rparr>)"
    unfolding compute_advantage_for_multi_trajectories_def keys(1) adv_estimator.case scan locals bind_res_Inr prod.case
      bind_res_assoc [symmetric] finals_def [symmetric] last Let_def
    by (simp only: scores_def)
  have "\<exists>f\<in>set finals. row_session (ids ! f) = row_session (ids ! r) \<and> scores ! r = map (\<lambda>m. sc f * m) (tb_mask b ! r)"
    if r: "r < length ids" for r
  proof -
    define j where "j = first_index (row_session (ids ! r)) (map fst final)"
    have "row_session (ids ! r) \<in> set (map fst final)" using dom r by simp
    then have j: "j < length final" "fst (final ! j) = row_session (ids ! r)"
      using first_index_nth [of "row_session (ids ! r)" "map fst final"] by (auto simp: j_def)
    have f: "finals ! j \<in> set finals" and "final ! j \<in> set final" using j(1) by (simp_all add: finals_def)
    then have "row_session (ids ! (finals ! j)) = fst (final ! j)"
      by (intro key) (auto simp: finals_def j(1) image_iff intro!: bexI [of _ "final ! j"] split: prod.split)
    moreover have "scores ! r = map (\<lambda>m. sc (finals ! j) * m) (tb_mask b ! r)"
      using r j(1) len(2) by (simp add: scores_def spread_scores_def j_def [symmetric] finals_def)
    ultimately show ?thesis using f j(2) by auto
  qed
  moreover have "sc f = (if 1 \<in> set (tb_mask b ! f) then session_score rt norm_by_std b ids finals f else 0)" for f
    by (simp add: sc_def)
  moreover have "length scores = length ids" using len(2) by (simp add: scores_def spread_scores_def)
  ultimately show ?thesis
    by (intro exI [of _ finals] exI [of _ "b\<lparr>tb_advantages := scores, tb_returns := scores\<rparr>"])
      (use result F in \<open>simp add: finals_def [symmetric]\<close>)
qed

theorem session_advantages_witness:
  "\<exists>finals b'. compute_advantage_for_multi_trajectories abs False GRPO [''a_0_0'', ''a_1_0'', ''a_0_1'']
       \<lparr>tb_rewards = [[0, 9], [0, 1], [0, 3]], tb_mask = [[1, 1], [1, 0], [0, 1]], tb_uid = [''a'', ''a'', ''a''],
        tb_advantages = [], tb_returns = []\<rparr> = Inr b' \<and>
    distinct finals \<and> set finals = {f. is_last [(''a'', 0, 0), (''a'', 1, 0), (''a'', 0, 1)] f} \<and>
    tb_advantages b' = [[1, 1], [-1, 0], [0, 1]]"
proof -
  let ?ids = "[(''a'', 0, 0), (''a'', 1, 0), (''a'', 0, 1)] :: row_id list"
  let ?b = "\<lparr>tb_rewards = [[0, 9], [0, 1], [0, 3]], tb_mask = [[1, 1], [1, 0], [0, 1]], tb_uid = [''a'', ''a'', ''a''],
        tb_advantages = [], tb_returns = []\<rparr>"
  have keys: "[''a_0_0'', ''a_1_0'', ''a_0_1''] = map row_key ?ids"
    by (simp add: row_key_def trajectory_key_def str_nat_small)
  have calc: "(case compute_advantage_for_multi_trajectories abs False GRPO [''a_0_0'', ''a_1_0'', ''a_0_1''] ?b of
      Inr b' \<Rightarrow> tb_advantages b' | Inl e \<Rightarrow> []) = [[1, 1], [-1, 0], [0, 1]]" by code_simp
  obtain finals b' where "compute_advantage_for_multi_trajectories abs False GRPO [''a_0_0'', ''a_1_0'', ''a_0_1''] ?b = Inr b'"
    "distinct finals" "set finals = {f. is_last ?ids f}"
    using session_advantages [OF keys, of ?b abs False] by fastforce
  with calc show ?thesis by (intro exI [of _ finals] exI [of _ b']) simp
qed

section \<open>The balanced batch\<close>

lemma upsample_rows:
  assumes "0 < m" "batch \<noteq> []"
  obtains pads puts where "upsample_batch_to_divisible_size get pad_uid batch m eos = Inr (batch @ pads, puts)"
    "m dvd length (batch @ pads)" "length pads < m"
    "\<And>k t. (k, t) \<in> set pads \<Longrightarrow> map_of t ''is_padding'' = Some (TBool True) \<and> map_of t ''seq_len'' = Some (TInt 2)"
proof (cases "length batch mod m = 0")
  case True
  then show thesis using that [of "[]" "[]"] assms by (simp add: upsample_batch_to_divisible_size_def dvd_eq_mod_eq_0)
next
  case False
  define pad_tag where "pad_tag = snd (construct_minimal_padding_template (get (fst (hd batch))) (snd (hd batch)) eos)"
  define puts where "puts = snd (case upsample_batch_to_divisible_size get pad_uid batch m eos of Inr r \<Rightarrow> r | Inl e \<Rightarrow> ([], []))"
  define pads where "pads = map (\<lambda>(k, _, t). (k, t)) puts"
  have up: "upsample_batch_to_divisible_size get pad_uid batch m eos = Inr (batch @ pads, puts)"
    and len: "length pads = m - length batch mod m" and tags: "\<And>k t. (k, t) \<in> set pads \<Longrightarrow> t = pad_tag"
    using False assms by (auto simp: pads_def puts_def pad_tag_def upsample_batch_to_divisible_size_def Let_def split_beta)
  have pad: "map_of pad_tag ''is_padding'' = Some (TBool True) \<and> map_of pad_tag ''seq_len'' = Some (TInt 2)"
    by (simp add: pad_tag_def construct_minimal_padding_template_def Let_def map_of_dict_update overlay_def)
  have "length batch + (m - length batch mod m) = length batch div m * m + m"
    using assms(1) by (metis add.assoc div_mult_mod_eq le_add_diff_inverse mod_le_divisor)
  then have "m dvd length (batch @ pads)" by (simp add: len)
  moreover have "length pads < m" using False assms(1) by (simp add: len)
  ultimately show thesis using that [OF up] tags pad by blast
qed

lemma mset_nth_perm: "mset is = mset [0..<length xs] \<Longrightarrow> mset (map (nth xs) is) = mset xs"
  by (metis map_nth mset_map)

text \<open>C36. Balancing a sampled batch loses and repeats nothing: the result is the batch with less than one
  required multiple of padding rows, each of two tokens, reordered; its size is a multiple of the
  number of ranks and of the mini-batches of every update that will run; and the metrics count
  exactly the rows of the batch.
\<close>

theorem balanced_batch_whole:
  assumes pos: "0 < ranks" "0 < sc_critic_mini c" "0 < sc_actor_mini c" "0 < sc_rollout_n c" and ne: "batch \<noteq> []"
    and tags: "\<forall>(k, t)\<in>set batch. (\<exists>n\<ge>0. map_of t ''seq_len'' = Some (TInt n)) \<and> map_of t ''is_padding'' = None"
  shows "\<exists>batch' pads. balance_batch get pad_uid eos c global_steps ranks batch = Inr batch' \<and>
    mset batch' = mset (batch @ pads) \<and> length pads < get_required_batch_multiple c global_steps ranks \<and>
    (\<forall>(k, t)\<in>set pads. map_of t ''seq_len'' = Some (TInt 2)) \<and> mset (metric_rows batch') = mset batch \<and>
    ranks dvd length batch' \<and> (sc_use_critic c \<longrightarrow> sc_critic_mini c * sc_rollout_n c dvd length batch') \<and>
    (sc_critic_warmup c \<le> global_steps \<longrightarrow> sc_actor_mini c * sc_rollout_n c dvd length batch')"
proof -
  let ?m = "get_required_batch_multiple c global_steps ranks"
  have m: "0 < ?m" using pos by (auto simp: get_required_batch_multiple_def Let_def intro!: lcm_pos_nat)
  have div: "ranks dvd ?m" "sc_use_critic c \<Longrightarrow> sc_critic_mini c * sc_rollout_n c dvd ?m"
    "sc_critic_warmup c \<le> global_steps \<Longrightarrow> sc_actor_mini c * sc_rollout_n c dvd ?m"
    by (auto simp: get_required_batch_multiple_def Let_def intro: dvd_trans [OF _ dvd_lcm1])
  obtain pads puts where up: "upsample_batch_to_divisible_size get pad_uid batch ?m eos = Inr (batch @ pads, puts)"
    "?m dvd length (batch @ pads)" "length pads < ?m"
    and pads: "\<And>k t. (k, t) \<in> set pads \<Longrightarrow> map_of t ''is_padding'' = Some (TBool True) \<and> map_of t ''seq_len'' = Some (TInt 2)"
    by (rule upsample_rows [OF m ne]) blast
  define lens where "lens = map (\<lambda>(k, t). case map_of t ''seq_len'' of Some (TInt n) \<Rightarrow> n | _ \<Rightarrow> 0) (batch @ pads)"
  have seq: "\<exists>n\<ge>0. map_of t ''seq_len'' = Some (TInt n)" if "(k, t) \<in> set (batch @ pads)" for k t
    using that tags pads by fastforce
  have lens: "map_res (tag_seq_len \<circ> snd) (batch @ pads) = Inr lens"
    unfolding lens_def by (rule map_res_Inr) (use seq in \<open>force simp: tag_seq_len_def\<close>)
  have "\<forall>l\<in>set (map calculate_workload lens). 0 \<le> l"
    using seq by (fastforce simp: lens_def calculate_workload_def)
  moreover have "ranks dvd length (batch @ pads)" using div(1) up(2) by (rule dvd_trans)
  ultimately obtain ps where ps: "get_seqlen_balanced_partitions (map calculate_workload lens) ranks True = Inr ps"
    "is_partition (length lens) ranks True ps"
    using balanced.part_correct [of "map calculate_workload lens" ranks True] pos(1) ne
    by (auto simp: partition_input_def lens_def dvd_imp_le)
  define batch' where "batch' = map (nth (batch @ pads)) (concat ps)"
  have "mset (concat ps) = mset [0..<length (batch @ pads)]"
    using ps(2) by (simp add: is_partition_def is_index_perm_def lens_def)
  then have perm: "mset batch' = mset (batch @ pads)" unfolding batch'_def by (rule mset_nth_perm)
  let ?real = "\<lambda>(k, t). \<not> tag_truthy (map_of t ''is_padding'')"
  have "filter ?real batch = batch" "filter ?real pads = []"
    using tags pads by (auto simp: filter_id_conv filter_empty_conv tag_truthy_def)
  then have real: "mset (filter ?real batch') = mset batch" using perm by (metis append_Nil2 filter_append mset_filter)
  have "filter ?real batch' \<noteq> []"
  proof
    assume "filter ?real batch' = []"
    then show False using real ne by simp
  qed
  then have "metric_rows batch' = filter ?real batch'" by (simp add: metric_rows_def Let_def)
  moreover have "length batch' = length (batch @ pads)" using perm by (metis size_mset)
  moreover have "balance_batch get pad_uid eos c global_steps ranks batch = Inr batch'"
    by (simp add: balance_batch_def up(1) lens ps(1) batch'_def del: map_append)
  ultimately show ?thesis
    using up(2,3) perm real pads div dvd_trans [OF _ up(2)]
    by (intro exI [of _ batch'] exI [of _ pads]) auto
qed

theorem balanced_batch_whole_witness:
  "\<exists>batch' pads. balance_batch (\<lambda>_. []) ''pad'' 0 \<lparr>sc_use_critic = False, sc_critic_mini = 1, sc_actor_mini = 2, sc_rollout_n = 2,
        sc_critic_warmup = 0\<rparr> 1 2
      [(''a_0_0'', trajectory_tag 1 (2, 3)), (''a_1_0'', trajectory_tag 1 (4, 4)), (''b_0_0'', trajectory_tag 1 (1, 2))] = Inr batch' \<and>
    mset batch' = mset ([(''a_0_0'', trajectory_tag 1 (2, 3)), (''a_1_0'', trajectory_tag 1 (4, 4)), (''b_0_0'', trajectory_tag 1 (1, 2))] @ pads) \<and>
    length pads < 4 \<and> 4 dvd length batch'"
proof -
  let ?c = "\<lparr>sc_use_critic = False, sc_critic_mini = 1, sc_actor_mini = 2, sc_rollout_n = 2, sc_critic_warmup = 0\<rparr>"
  let ?batch = "[(''a_0_0'', trajectory_tag 1 (2, 3)), (''a_1_0'', trajectory_tag 1 (4, 4)), (''b_0_0'', trajectory_tag 1 (1, 2))]"
  have "lcm 2 4 = (4 :: nat)" by (simp add: lcm_nat_def)
  then have "get_required_batch_multiple ?c 1 2 = 4" by (simp add: get_required_batch_multiple_def)
  then show ?thesis
    using balanced_batch_whole [of 2 ?c ?batch "\<lambda>_. []" "''pad''" 0 1] by (auto simp: trajectory_tag_def)
qed

section \<open>Validation\<close>

lemma validation_scan_ids: "validation_scan i (map row_key ids) final = Inr (session_fold i ids final)"
proof (induction ids arbitrary: i final)
  case (Cons r ids)
  obtain u s n where r: "r = (u, s, n)" by (metis prod_cases3)
  show ?case using Cons
    by (simp add: r row_key_def rsplit_trajectory_key py_int_str_nat session_fold_def row_session_def row_index_def)
qed (simp add: session_fold_def)

text \<open>Validation reports the last trajectory of every session, in the order of the batch.\<close>

theorem validation_reports_last:
  assumes "distinct ids"
  shows "validation_finals (map row_key ids) = Inr (filter (is_last ids) [0..<length ids])"
proof -
  obtain final where scan: "scan_keys 0 (map row_key ids) [] [] = Inr (final, map row_session ids)"
    and F: "distinct (map (snd \<circ> snd) final)" "set (map (snd \<circ> snd) final) = {f. is_last ids f}"
    by (rule finals_rows [OF assms]) blast
  have final: "final = session_fold 0 ids []" using scan by (simp add: scan_keys_ids)
  have pos: "(\<lambda>(_, _, pos). pos) = (snd \<circ> snd :: string \<times> int \<times> nat \<Rightarrow> nat)" by (simp add: fun_eq_iff split_beta)
  let ?out = "map (snd \<circ> snd) (sort_key (snd \<circ> snd) final)"
  have "sorted ?out" by simp
  moreover have "distinct ?out" "set ?out = {f. is_last ids f}"
    using F by (simp_all add: distinct_map)
  moreover have "set (filter (is_last ids) [0..<length ids]) = {f. is_last ids f}" by (auto simp: is_last_def)
  ultimately have "?out = filter (is_last ids) [0..<length ids]"
    by (intro sorted_distinct_set_unique) (simp_all add: sorted_wrt_filter)
  then show ?thesis unfolding validation_finals_def validation_scan_ids final [symmetric] pos by simp
qed

text \<open>A step whose prompts have all failed has an empty batch, and balancing it raises.\<close>

lemma empty_batch_raises:
  assumes "0 < ranks" "0 < sc_critic_mini c" "0 < sc_actor_mini c" "0 < sc_rollout_n c"
  shows "balance_batch get pad_uid eos c global_steps ranks [] = Inl AssertionError"
proof -
  have "0 < get_required_batch_multiple c global_steps ranks"
    using assms by (auto simp: get_required_batch_multiple_def Let_def intro!: lcm_pos_nat)
  then show ?thesis
    using assms(1) by (simp add: balance_batch_def upsample_batch_to_divisible_size_def get_seqlen_balanced_partitions_def)
qed

end
