(* ===== verification/Hotpotqa.thy ===== *)
theory Hotpotqa
  imports PyString Complex_Main
begin

text \<open>
  The reward the memory agents are trained with (\<open>verl/utils/reward_score/hotpotqa.py\<close>): the last boxed
  answer of the solution is compared with every ground truth after a normalization, and a judge model
  may be asked when none agrees. The replies of the judge are an argument.
\<close>

definition bs :: char where "bs = CHR 0x5C"

definition BOXED :: string where "BOXED = bs # ''boxed''"

section \<open>Normalization\<close>

definition strip_string :: "string \<Rightarrow> string" where
  "strip_string string =
     (let s1 = py_replace [CHR 0x0A] [] string;
          s2 = py_replace [bs, CHR ''!''] [] s1;
          s3 = py_replace [bs, bs] [bs] s2;
          s4 = py_replace ''dfrac'' ''frac'' (py_replace ''tfrac'' ''frac'' s3);
          s5 = py_replace (bs # ''right'') [] (py_replace (bs # ''left'') [] s4);
          s6 = py_replace (CHR ''^'' # bs # ''circ'') [] (py_replace (''^{'' @ bs # ''circ}'') [] s5);
          s7 = py_replace [bs, CHR ''$''] [] s6;
          s8 = py_replace [bs, CHR ''%''] [] (py_replace [bs, CHR ''%''] [] s7);
          s9 = py_replace ''{.'' ''{0.'' (py_replace '' .'' '' 0.'' s8)
      in if s9 = [] then s9 else py_replace '' '' [] s9)"

text \<open>\<open>strip_string\<close> never raises on a string.\<close>

definition is_equiv :: "string option \<Rightarrow> string option \<Rightarrow> bool" where
  "is_equiv str1 str2 =
     (case (str1, str2) of
        (None, None) \<Rightarrow> True
      | (Some a, Some b) \<Rightarrow> strip_string a = strip_string b
      | _ \<Rightarrow> False)"

definition is_sub_str :: "string option \<Rightarrow> string option \<Rightarrow> bool" where
  "is_sub_str answer ground_truth =
     (case (answer, ground_truth) of
        (None, None) \<Rightarrow> True
      | (Some a, Some g) \<Rightarrow> py_in (strip_string g) (strip_string a)
      | _ \<Rightarrow> False)"

section \<open>The boxed answer\<close>

definition remove_boxed :: "string \<Rightarrow> string res" where
  "remove_boxed s =
     (if py_in (BOXED @ '' '') s
      then py_assert (py_startswith s (BOXED @ '' '')) (Inr (drop (length (BOXED @ '' '')) s))
      else py_assert (py_startswith s (BOXED @ ''{'')) (py_assert (last s = CHR ''}'')
             (Inr (butlast (drop (length (BOXED @ ''{'')) s)))))"

text \<open>The place, from the front of the string, of the brace that closes the first one opened.\<close>

fun right_brace :: "nat \<Rightarrow> int \<Rightarrow> string \<Rightarrow> nat option" where
  "right_brace i num_left_braces_open [] = None"
| "right_brace i num_left_braces_open (c # cs) =
     (let n = (if c = CHR ''{'' then num_left_braces_open + 1 else num_left_braces_open)
      in if c = CHR ''}'' then (if n - 1 = 0 then Some i else right_brace (Suc i) (n - 1) cs)
         else right_brace (Suc i) n cs)"

definition last_boxed_only_string :: "string \<Rightarrow> string option" where
  "last_boxed_only_string string =
     (if py_in (BOXED @ '' '') string
      then Some (BOXED @ '' '' @ hd (py_split ''$'' (last (py_split (BOXED @ '' '') string))))
      else case (case py_rfind BOXED string of Some i \<Rightarrow> Some i | None \<Rightarrow> py_rfind (bs # ''fbox'') string) of
             None \<Rightarrow> None
           | Some idx \<Rightarrow> map_option (\<lambda>r. take (Suc r) (drop idx string)) (right_brace 0 0 (drop idx string)))"

section \<open>The score\<close>

text \<open>One ground truth; an exception leaves the score at 0.\<close>

definition compute_score_single :: "string \<Rightarrow> string \<Rightarrow> rat" where
  "compute_score_single solution ground_truth =
     (case last_boxed_only_string solution of
        None \<Rightarrow> 0
      | Some boxed \<Rightarrow>
          (case remove_boxed boxed of
             Inl _ \<Rightarrow> 0
           | Inr answer \<Rightarrow> if is_equiv (Some answer) (Some (py_lower ground_truth)) then 1 else 0))"

definition extract_problem :: "string \<Rightarrow> string" where
  "extract_problem txt =
     (let start_tag = ''<problem>''; end_tag = ''</problem>''
      in if py_in start_tag txt \<and> py_in end_tag txt
         then (case py_find start_tag txt of
                 None \<Rightarrow> txt
               | Some i \<Rightarrow> py_strip (hd (py_split end_tag (drop (i + length start_tag) txt))))
         else txt)"

datatype judge_attempt = Answered "string option" | RateLimited | Failed

text \<open>
  Up to \<open>retry_count\<close> attempts; a failure other than a rate limit gives the empty list, here \<open>Some []\<close> as
  no text is in either. When all are refused, \<open>response\<close> is unbound (\<open>OtherError 1\<close>).
\<close>

fun call_oai_rm_llm :: "(nat \<Rightarrow> judge_attempt) \<Rightarrow> nat \<Rightarrow> nat \<Rightarrow> string option res" where
  "call_oai_rm_llm attempt_at i 0 = Inl (OtherError 1)"
| "call_oai_rm_llm attempt_at i (Suc retry_count) =
     (case attempt_at i of
        Answered content \<Rightarrow> Inr content
      | RateLimited \<Rightarrow> call_oai_rm_llm attempt_at (Suc i) retry_count
      | Failed \<Rightarrow> Inr (Some []))"

definition judge_question :: "string \<Rightarrow> string" where
  "judge_question problem =
     (if problem = [] then []
      else case (py_find ''</text>'' problem, py_find ''Format your response as follows:'' problem) of
             (Some start_index, Some end_index) \<Rightarrow>
               py_strip (py_replace ''</text>'' [] (take (end_index - start_index) (drop start_index problem)))
           | _ \<Rightarrow> py_strip problem)"

definition ORM_USER_TEMPLATE :: "string \<Rightarrow> string \<Rightarrow> string \<Rightarrow> string" where
  "ORM_USER_TEMPLATE problem answer_1 answer_2 =
     [CHR 0x0A] @ ''Problem: '' @ problem @ [CHR 0x0A] @ ''Answer 1: '' @ answer_1 @ [CHR 0x0A] @ ''Answer 2: '' @ answer_2 @ [CHR 0x0A]"

definition call_reward_model :: "(string \<Rightarrow> nat \<Rightarrow> judge_attempt) \<Rightarrow> string \<Rightarrow> string \<Rightarrow> string \<Rightarrow> rat res" where
  "call_reward_model judge problem model_answer ground_truth =
     bind_res (call_oai_rm_llm (judge (ORM_USER_TEMPLATE (judge_question problem) model_answer ground_truth)) 0 5) (\<lambda>response.
       case response of
         None \<Rightarrow> Inl TypeError
       | Some txt \<Rightarrow> Inr (if py_in ''YES'' txt then 1 else 0))"

definition py_max :: "rat list \<Rightarrow> rat res" where
  "py_max xs = (if xs = [] then Inl ValueError else Inr (Max (set xs)))"

definition answer_part :: "string \<Rightarrow> string" where
  "answer_part solution = (if py_in ''</think>'' solution then last (py_split ''</think>'' solution) else solution)"

text \<open>\<open>judge\<close> is \<open>None\<close> unless \<open>LLM_JUDGE\<close> is set.\<close>

definition compute_score :: "(string \<Rightarrow> nat \<Rightarrow> judge_attempt) option \<Rightarrow> string \<Rightarrow> string list \<Rightarrow> string option \<Rightarrow> rat res" where
  "compute_score judge solution_str ground_truth prompt_str =
     (let solution = py_lower (py_slice (Some (-300)) None (answer_part solution_str))
      in bind_res (py_max (map (compute_score_single solution) ground_truth)) (\<lambda>score.
           case judge of
             None \<Rightarrow> Inr score
           | Some ask \<Rightarrow>
               if score < 1
               then (case prompt_str of
                       None \<Rightarrow> Inl AssertionError
                     | Some prompt \<Rightarrow>
                         bind_res (map_res (\<lambda>gt. call_reward_model ask (extract_problem prompt) solution (py_lower gt)) ground_truth)
                           (\<lambda>rm_scores. bind_res (py_max rm_scores) (\<lambda>rm_score. Inr (max score rm_score))))
               else Inr score))"

section \<open>Finding the answer\<close>

fun balanced :: "nat \<Rightarrow> string \<Rightarrow> bool" where
  "balanced n [] = (n = 0)"
| "balanced n (c # cs) =
     (if c = CHR ''{'' then balanced (Suc n) cs
      else if c = CHR ''}'' then 0 < n \<and> balanced (n - 1) cs
      else balanced n cs)"

lemma right_brace_balanced:
  "balanced k ans \<Longrightarrow> 0 < m \<Longrightarrow> right_brace i (int k + m) (ans @ rest) = right_brace (i + length ans) m rest"
proof (induction k ans arbitrary: i rule: balanced.induct)
  case (2 n c cs)
  consider "c = CHR ''{''" | "c = CHR ''}''" | "c \<noteq> CHR ''{''" "c \<noteq> CHR ''}''" by blast
  then show ?case
  proof cases
    case 1
    then show ?thesis using "2.IH"(1) [of "Suc i"] "2.prems" by (simp add: algebra_simps)
  next
    case 2
    then have "0 < n" "balanced (n - 1) cs" using "2.prems" by simp_all
    then show ?thesis using "2.IH"(2) [of "Suc i"] "2.prems" 2 by (simp add: of_nat_diff algebra_simps)
  next
    case 3
    then show ?thesis using "2.IH"(3) [of "Suc i"] "2.prems" by simp
  qed
qed simp

lemma py_in_sub: "py_in p x \<Longrightarrow> py_in p (a @ x @ b)"
  by (metis append.assoc py_in_iff)

lemma py_rfind_prefix: "py_rfind sub t = Some i \<Longrightarrow> py_rfind sub (pre @ t) = Some (length pre + i)"
  by (induction pre) simp_all

lemma last_boxed:
  assumes "balanced 0 ans" "\<not> py_in BOXED (ans @ ''}'' @ post)"
    and "\<not> py_in (BOXED @ '' '') (pre @ BOXED @ ''{'' @ ans @ ''}'' @ post)"
  shows "last_boxed_only_string (pre @ BOXED @ ''{'' @ ans @ ''}'' @ post) = Some (BOXED @ ''{'' @ ans @ ''}'')"
    "remove_boxed (BOXED @ ''{'' @ ans @ ''}'') = Inr ans"
proof -
  have "py_rfind BOXED (ans @ ''}'' @ post) = None" using assms(2) by (simp only: py_rfind_None not_False_eq_True)
  then have "py_rfind BOXED (BOXED @ ''{'' @ ans @ ''}'' @ post) = Some 0" by (simp add: BOXED_def bs_def)
  then have idx: "py_rfind BOXED (pre @ BOXED @ ''{'' @ ans @ ''}'' @ post) = Some (length pre)"
    using py_rfind_prefix by fastforce
  have "right_brace 0 0 (BOXED @ ''{'' @ ans @ ''}'' @ post) = right_brace 7 1 (ans @ ''}'' @ post)"
    by (simp add: BOXED_def bs_def numeral_eq_Suc)
  also have "\<dots> = Some (7 + length ans)" using right_brace_balanced [OF assms(1), of 1 7] by simp
  finally have "right_brace 0 0 (BOXED @ ''{'' @ ans @ ''}'' @ post) = Some (7 + length ans)" .
  then show "last_boxed_only_string (pre @ BOXED @ ''{'' @ ans @ ''}'' @ post) = Some (BOXED @ ''{'' @ ans @ ''}'')"
    using assms(3) idx by (simp add: last_boxed_only_string_def) (simp add: BOXED_def)
  have "\<not> py_in (BOXED @ '' '') (BOXED @ ''{'' @ ans @ ''}'')"
    using assms(3) py_in_sub [of "BOXED @ '' ''" "BOXED @ ''{'' @ ans @ ''}''" pre post] by auto
  then show "remove_boxed (BOXED @ ''{'' @ ans @ ''}'') = Inr ans"
    by (simp add: remove_boxed_def) (simp add: BOXED_def)
qed

lemma py_max_scores:
  assumes "xs \<noteq> []" "set xs \<subseteq> {0, 1}"
  shows "py_max xs = Inr (if 1 \<in> set xs then 1 else 0)"
proof -
  have "Max (set xs) \<in> set xs" using assms(1) by simp
  moreover have "1 \<in> set xs \<Longrightarrow> 1 \<le> Max (set xs)" by simp
  ultimately have "Max (set xs) = (if 1 \<in> set xs then 1 else 0)" using assms(2) by fastforce
  then show ?thesis using assms(1) by (simp add: py_max_def)
qed

lemma py_lower_append: "py_lower (a @ b) = py_lower a @ py_lower b"
  by (simp add: py_lower_def)

lemma lower_char_same: "code_point d < 97 \<or> 122 < code_point d \<and> code_point d < 192 \<Longrightarrow> lower_char c = d \<Longrightarrow>
    \<not> (65 \<le> code_point d \<and> code_point d \<le> 90) \<Longrightarrow> c = d"
  by (auto simp: lower_char_def Let_def split: if_splits)

lemma lower_brace: "lower_char c = CHR ''{'' \<longleftrightarrow> c = CHR ''{''" "lower_char c = CHR ''}'' \<longleftrightarrow> c = CHR ''}''"
  using lower_char_same [of "CHR ''{''" c] lower_char_same [of "CHR ''}''" c]
  by (auto simp: lower_char_def Let_def)

lemma balanced_lower: "balanced n (py_lower s) = balanced n s"
  by (induction n s rule: balanced.induct) (simp_all add: py_lower_def lower_brace)

text \<open>A box written with a space is looked for first, wherever it stands.\<close>

lemma spaced_boxed:
  assumes "py_in (BOXED @ '' '') s"
  shows "last_boxed_only_string s = Some (BOXED @ '' '' @ hd (py_split ''$'' (last (py_split (BOXED @ '' '') s))))"
    "remove_boxed (BOXED @ '' '' @ x) = Inr x"
proof -
  show "last_boxed_only_string s = Some (BOXED @ '' '' @ hd (py_split ''$'' (last (py_split (BOXED @ '' '') s))))"
    using assms by (simp add: last_boxed_only_string_def)
  have "py_in (BOXED @ '' '') ([] @ (BOXED @ '' '') @ x)" by (rule py_in_sub) (simp add: BOXED_def bs_def)
  moreover have "py_startswith (BOXED @ '' '' @ x) (BOXED @ '' '')" by (simp add: BOXED_def)
  ultimately show "remove_boxed (BOXED @ '' '' @ x) = Inr x" by (simp add: remove_boxed_def)
qed

text \<open>C37. A solution whose last boxed answer has balanced braces and lies within the last 300 characters
  behind the reasoning gets the score 1 exactly when that answer equals one of the ground truths up to
  case and the normalization, and 0 otherwise, whatever comes before and after it, with one exception:
  when these characters hold a box written with a space, the text behind the last such box, up to the
  next dollar sign, is compared instead.
\<close>

theorem boxed_answer_scored:
  assumes sol: "answer_part solution = pre @ BOXED @ ''{'' @ ans @ ''}'' @ post" and len: "length ans + length post \<le> 292"
    and bal: "balanced 0 ans" and later: "\<not> py_in BOXED (py_lower (ans @ ''}'' @ post))" and gts: "gts \<noteq> []"
  shows "compute_score None solution gts prompt =
    (let end = py_lower (py_slice (Some (- 300)) None (answer_part solution));
         answer = (if py_in (BOXED @ '' '') end then hd (py_split ''$'' (last (py_split (BOXED @ '' '') end))) else py_lower ans)
     in Inr (if \<exists>g\<in>set gts. strip_string answer = strip_string (py_lower g) then 1 else 0))"
proof -
  let ?n = "length (answer_part solution) - 300"
  define low where "low = py_lower (drop ?n pre) @ BOXED @ ''{'' @ py_lower ans @ ''}'' @ py_lower post"
  define answer where "answer = (if py_in (BOXED @ '' '') low then hd (py_split ''$'' (last (py_split (BOXED @ '' '') low))) else py_lower ans)"
  have box: "py_lower BOXED = BOXED" "py_lower ''{'' = ''{''" "py_lower ''}'' = ''}''" by code_simp+
  have "length (BOXED @ ''{'' @ ans @ ''}'' @ post) \<le> 300" using len by (simp add: BOXED_def)
  then have cut: "drop ?n (answer_part solution) = drop ?n pre @ (BOXED @ ''{'') @ ans @ ''}'' @ post"
    unfolding sol by simp
  have "py_lower (drop ?n (answer_part solution)) = low"
    unfolding cut py_lower_append box low_def by simp
  then have slice: "py_lower (py_slice (Some (- 300)) None (answer_part solution)) = low"
    using py_slice_last [of 300 "answer_part solution"] by simp
  have later': "\<not> py_in BOXED (py_lower ans @ ''}'' @ py_lower post)"
    using later unfolding py_lower_append box .
  have bal': "balanced 0 (py_lower ans)" using bal by (simp only: balanced_lower)
  have "\<exists>boxed. last_boxed_only_string low = Some boxed \<and> remove_boxed boxed = Inr answer"
  proof (cases "py_in (BOXED @ '' '') low")
    case True
    then show ?thesis using spaced_boxed by (auto simp: answer_def)
  next
    case False
    then have "last_boxed_only_string low = Some (BOXED @ ''{'' @ py_lower ans @ ''}'')"
      "remove_boxed (BOXED @ ''{'' @ py_lower ans @ ''}'') = Inr (py_lower ans)"
      unfolding low_def using last_boxed [OF bal' later'] by blast+
    then show ?thesis using False by (auto simp: answer_def)
  qed
  then have single: "compute_score_single low = (\<lambda>g. if strip_string answer = strip_string (py_lower g) then 1 else 0)"
    by (auto simp: compute_score_single_def is_equiv_def)
  have "py_max (map (compute_score_single low) gts) =
      Inr (if \<exists>g\<in>set gts. strip_string answer = strip_string (py_lower g) then 1 else 0)"
    by (subst py_max_scores) (use gts in \<open>auto simp: single\<close>)
  then show ?thesis by (simp add: compute_score_def slice Let_def answer_def [symmetric])
qed

theorem boxed_answer_scored_witness:
  "compute_score None (''<think>a</think>The answer is '' @ BOXED @ ''{New York}.'') [''new york city'', ''NewYork''] None = Inr 1 \<and>
   compute_score None (''First '' @ BOXED @ '' 3$, but the answer is '' @ BOXED @ ''{5}.'') [''5''] None = Inr 0"
proof (rule conjI)
  let ?s = "''<think>a</think>The answer is '' @ BOXED @ ''{New York}.''"
  have part: "answer_part ?s = ''The answer is '' @ BOXED @ ''{'' @ ''New York'' @ ''}'' @ ''.''" by code_simp
  have run: "compute_score None ?s [''new york city'', ''NewYork''] None = (let end = py_lower (py_slice (Some (- 300)) None (answer_part ?s));
         answer = (if py_in (BOXED @ '' '') end then hd (py_split ''$'' (last (py_split (BOXED @ '' '') end))) else py_lower ''New York'')
     in Inr (if \<exists>g\<in>set [''new york city'', ''NewYork'']. strip_string answer = strip_string (py_lower g) then 1 else 0))"
    by (rule boxed_answer_scored [OF part]; code_simp)
  have no_space: "\<not> py_in (BOXED @ '' '') (py_lower (py_slice (Some (- 300)) None (answer_part ?s)))" by code_simp
  have same: "strip_string (py_lower ''New York'') = strip_string (py_lower ''NewYork'')" by code_simp
  show "compute_score None ?s [''new york city'', ''NewYork''] None = Inr 1"
    unfolding run Let_def using no_space same by simp
  let ?t = "''First '' @ BOXED @ '' 3$, but the answer is '' @ BOXED @ ''{5}.''"
  have part: "answer_part ?t = (''First '' @ BOXED @ '' 3$, but the answer is '') @ BOXED @ ''{'' @ ''5'' @ ''}'' @ ''.''" by code_simp
  have run: "compute_score None ?t [''5''] None = (let end = py_lower (py_slice (Some (- 300)) None (answer_part ?t));
         answer = (if py_in (BOXED @ '' '') end then hd (py_split ''$'' (last (py_split (BOXED @ '' '') end))) else py_lower ''5'')
     in Inr (if \<exists>g\<in>set [''5'']. strip_string answer = strip_string (py_lower g) then 1 else 0))"
    by (rule boxed_answer_scored [OF part]; code_simp)
  have space: "py_in (BOXED @ '' '') (py_lower (py_slice (Some (- 300)) None (answer_part ?t)))" by code_simp
  have three: "hd (py_split ''$'' (last (py_split (BOXED @ '' '') (py_lower (py_slice (Some (- 300)) None (answer_part ?t)))))) = ''3''" by code_simp
  have other: "strip_string ''3'' \<noteq> strip_string (py_lower ''5'')" by code_simp
  show "compute_score None ?t [''5''] None = Inr 0"
    unfolding run Let_def three using space other by simp
qed

section \<open>What the score gets wrong\<close>

text \<open>A box written with a space hides every later box, and a judge that says no is taken for a yes
  when its explanation holds the word.\<close>

lemma spaced_box_hides_answer:
  "compute_score None (''First '' @ BOXED @ '' 3$, but the answer is '' @ BOXED @ ''{5}.'') [''5''] None = Inr 0"
  by code_simp

lemma judge_explanation_counts:
  "compute_score (Some (\<lambda>_ _. Answered (Some ''YES would need the same city. [[NO]]''))) (BOXED @ ''{Rome}'') [''Paris''] (Some ''q'') = Inr 1"
  by code_simp

lemma judge_rate_limit_raises:
  "compute_score (Some (\<lambda>_ _. RateLimited)) (BOXED @ ''{Rome}'') [''Paris''] (Some ''q'') = Inl (OtherError 1)"
  by code_simp

lemma no_ground_truth_raises: "compute_score judge solution [] prompt = Inl ValueError"
  by (simp add: compute_score_def py_max_def Let_def)

end
