(* ===== verification/NoPadding.thy ===== *)
theory NoPadding
  imports TensorUtils
begin

text \<open>
  The two layouts of a batch (\<open>verl/workers/utils/padding.py\<close>): rows of one width, prompts padded on
  the left and responses on the right, and rows of their own length one after the other (nested
  tensors), which the engines compute on. The values an engine returns for every token are cut back
  to the responses, one place to the left, as the value at a token is about the next one.
\<close>

section \<open>Nested tensors\<close>

text \<open>A nested tensor is the list of its rows; a jagged one is cut out of its values at the offsets.\<close>

definition jagged :: "'a list \<Rightarrow> nat list \<Rightarrow> 'a list list" where
  "jagged values offsets = map2 (\<lambda>a b. take (b - a) (drop a values)) (butlast offsets) (tl offsets)"

fun nat_cumsum :: "nat \<Rightarrow> nat list \<Rightarrow> nat list" where
  "nat_cumsum a [] = []"
| "nat_cumsum a (x # xs) = (a + x) # nat_cumsum (a + x) xs"

text \<open>\<open>unpad_input\<close>: the places of the valid tokens in the flattened batch and the offsets of the rows.\<close>

definition index_first_axis :: "'a list list \<Rightarrow> nat list \<Rightarrow> 'a list" where
  "index_first_axis rows indices = map (nth (concat rows)) indices"

definition unpad_indices :: "nat list list \<Rightarrow> nat list" where
  "unpad_indices attention_mask =
     filter (\<lambda>i. concat attention_mask ! i \<noteq> 0) [0..<length (concat attention_mask)]"

definition cu_seqlens :: "nat list list \<Rightarrow> nat list" where
  "cu_seqlens attention_mask = 0 # nat_cumsum 0 (map sum_list attention_mask)"

definition unpad_rows :: "'a list list \<Rightarrow> nat list list \<Rightarrow> 'a list list" where
  "unpad_rows rows attention_mask = jagged (index_first_axis rows (unpad_indices attention_mask)) (cu_seqlens attention_mask)"

section \<open>From padded rows to nested ones\<close>

text \<open>The fields of a batch that the conversion looks at; \<open>None\<close> is a missing field.\<close>

record 'e padded_batch =
  pd_input_ids :: "int list list option"
  pd_attention_mask :: "nat list list option"
  pd_response_mask :: "nat list list option"
  pd_position_ids :: "int list list option"
  pd_routed_experts :: "'e list list option"
  pd_teacher_logprobs :: "'e list list option"
  pd_teacher_ids :: "'e list list option"

record 'e nested_batch =
  nd_input_ids :: "int list list"
  nd_position_ids :: "int list list"
  nd_loss_mask :: "nat list list"
  nd_max_seq_len :: nat
  nd_max_response_len :: nat
  nd_indices :: "nat list"
  nd_routed_experts :: "'e list list option"
  nd_teacher :: "('e list list \<times> 'e list list) option"

text \<open>\<open>t.shape[1]\<close> of a matrix without rows is not known; here it is 0.\<close>

definition row_width :: "'a list list \<Rightarrow> nat" where
  "row_width rows = (case rows of [] \<Rightarrow> 0 | r # _ \<Rightarrow> length r)"

definition bool_select :: "'a list \<Rightarrow> nat list \<Rightarrow> 'a list" where
  "bool_select row ms = map fst (filter (\<lambda>(x, m). m \<noteq> 0) (zip row ms))"

definition left_right_2_no_padding :: "'e padded_batch \<Rightarrow> 'e nested_batch res" where
  "left_right_2_no_padding d =
     (case (pd_input_ids d, pd_attention_mask d, pd_response_mask d, pd_position_ids d) of
        (Some input_ids, Some attention_mask, Some response_mask, Some position_ids) \<Rightarrow>
          Inr \<lparr>nd_input_ids = unpad_rows input_ids attention_mask,
            nd_position_ids = map2 bool_select position_ids attention_mask,
            nd_loss_mask = response_mask,
            nd_max_seq_len = row_width input_ids, nd_max_response_len = row_width response_mask,
            nd_indices = unpad_indices attention_mask,
            nd_routed_experts = map_option (\<lambda>r. unpad_rows r attention_mask) (pd_routed_experts d),
            nd_teacher = (case (pd_teacher_logprobs d, pd_teacher_ids d) of
                (Some l, Some t) \<Rightarrow> Some (unpad_rows l attention_mask, unpad_rows t attention_mask)
              | _ \<Rightarrow> None)\<rparr>
      | _ \<Rightarrow> Inl AssertionError)"

text \<open>\<open>embeds_padding_2_no_padding\<close>: embeddings and their masks, with those of the negative prompt if it has any.\<close>

definition embeds_to_nested :: "'v list list \<Rightarrow> nat list list \<Rightarrow> 'v list list \<times> nat list list" where
  "embeds_to_nested embeds ms = (map2 bool_select embeds ms, map2 bool_select ms ms)"

definition embeds_padding_2_no_padding ::
  "'v list list \<times> nat list list \<Rightarrow> ('v list list \<times> nat list list) option \<Rightarrow>
   ('v list list \<times> nat list list) \<times> ('v list list \<times> nat list list) option" where
  "embeds_padding_2_no_padding prompt negative_prompt =
     (embeds_to_nested (fst prompt) (snd prompt), map_option (\<lambda>(e, m). embeds_to_nested e m) negative_prompt)"

section \<open>Back to the responses\<close>

datatype 'a layout = Nested "'a list list" | Padded "'a list list"

text \<open>\<open>torch.pad\<close> at the end, which cuts when the size is negative.\<close>

definition pad_end :: "'a \<Rightarrow> nat \<Rightarrow> 'a list \<Rightarrow> 'a list" where
  "pad_end zero n xs = take n xs @ replicate (n - length xs) zero"

definition shifted_response :: "'a list \<Rightarrow> nat \<Rightarrow> nat \<Rightarrow> 'a list" where
  "shifted_response values resp_len seq_offset =
     py_slice (Some (int seq_offset - int resp_len - 1)) (Some (int seq_offset - 1)) values"

definition response_lengths :: "nat list list \<Rightarrow> int layout \<Rightarrow> int layout \<Rightarrow> int \<Rightarrow> (nat list \<times> nat list \<times> int) res" where
  "response_lengths attention_mask prompt_ids response_ids max_response_len =
     (case (prompt_ids, response_ids) of
        (Nested ps, Nested rs) \<Rightarrow>
          if max_response_len < 0
          then (if rs = [] then Inl RuntimeError else Inr (map length ps, map length rs, int (Max (set (map length rs)))))
          else Inr (map length ps, map length rs, max_response_len)
      | (Padded ps, Padded rs) \<Rightarrow>
          let n = row_width ps
          in Inr (map (\<lambda>m. sum_list (take n m)) attention_mask, map (\<lambda>m. sum_list (drop n m)) attention_mask, int (row_width rs))
      | _ \<Rightarrow> Inl RuntimeError)"

text \<open>\<open>max_response_len\<close> is -1 when the batch does not say it; \<open>values\<close> are those of all rows in turn.\<close>

definition no_padding_2_padding ::
  "'a \<Rightarrow> 'a list \<Rightarrow> nat list list \<Rightarrow> int layout \<Rightarrow> int layout \<Rightarrow> int \<Rightarrow> 'a list list res" where
  "no_padding_2_padding zero values attention_mask prompt_ids response_ids max_response_len =
     bind_res (response_lengths attention_mask prompt_ids response_ids max_response_len) (\<lambda>(prompt_lens, response_lens, max_len).
       let sequence_offsets = nat_cumsum 0 (map2 (+) prompt_lens response_lens)
       in if sequence_offsets = [] then Inl IndexError
       else py_assert (last sequence_offsets = length values) (py_assert (0 \<notin> set prompt_lens)
         (Inr (map2 (\<lambda>resp_len seq_offset. pad_end zero (nat max_len) (shifted_response values resp_len seq_offset))
            response_lens sequence_offsets))))"

section \<open>Nested responses\<close>

text \<open>A nested result has the offsets of its rows, whose lengths the response mask says.\<close>

definition response_from_nested :: "'a list list \<Rightarrow> nat list list \<Rightarrow> 'a list list res" where
  "response_from_nested rows response_mask =
     (if length rows \<noteq> length response_mask then Inl ValueError
      else Inr (map2 (\<lambda>m seq_offset. shifted_response (concat rows) (length m) seq_offset) response_mask
             (nat_cumsum 0 (map length rows))))"

definition response_to_nested :: "'a list list \<Rightarrow> nat list list \<Rightarrow> 'a list list res" where
  "response_to_nested rows response_mask =
     (if length response_mask < length rows then Inl IndexError
      else Inr (map2 (\<lambda>row m. take (length m) row) rows response_mask))"

section \<open>Unpadding keeps the valid tokens\<close>

lemma jagged_step: "jagged values (a # b # offsets) = take (b - a) (drop a values) # jagged values (b # offsets)"
  by (simp add: jagged_def)

lemma jagged_concat: "length pre = a \<Longrightarrow> jagged (pre @ concat rows) (a # nat_cumsum a (map length rows)) = rows"
proof (induction rows arbitrary: pre a)
  case Nil
  then show ?case by (simp add: jagged_def)
next
  case (Cons r rows)
  have "jagged ((pre @ r) @ concat rows) ((a + length r) # nat_cumsum (a + length r) (map length rows)) = rows"
    using Cons.prems by (intro Cons.IH) simp
  then show ?case using Cons.prems by (simp add: jagged_step)
qed

lemma bool_select_append:
  "length a = length m \<Longrightarrow> bool_select (a @ b) (m @ n) = bool_select a m @ bool_select b n"
  by (simp add: bool_select_def)

lemma bool_select_nth:
  "length xs = length ms \<Longrightarrow> map (nth xs) (filter (\<lambda>i. ms ! i \<noteq> 0) [0..<length ms]) = bool_select xs ms"
proof (induction xs arbitrary: ms rule: rev_induct)
  case (snoc x xs)
  then obtain ns m where ms: "ms = ns @ [m]" "length xs = length ns" by (cases ms rule: rev_cases) auto
  have "map (nth (xs @ [x])) (filter (\<lambda>i. (ns @ [m]) ! i \<noteq> 0) [0..<length ns]) =
      map (nth xs) (filter (\<lambda>i. ns ! i \<noteq> 0) [0..<length ns])"
    by (rule map_cong [OF filter_cong]) (auto simp: nth_append ms(2))
  then show ?case using snoc.IH [OF ms(2)] ms by (simp add: bool_select_append) (simp add: bool_select_def nth_append)
qed (simp add: bool_select_def)

lemma bool_select_concat:
  "list_all2 (\<lambda>r m. length r = length m) rows ms \<Longrightarrow> bool_select (concat rows) (concat ms) = concat (map2 bool_select rows ms)"
  by (induction rule: list_all2_induct) (simp_all add: bool_select_append bool_select_def [of "[]" "[]"])

lemma length_bool_select: "length r = length m \<Longrightarrow> set m \<subseteq> {0, 1} \<Longrightarrow> length (bool_select r m) = sum_list m"
  by (induction r m rule: list_induct2) (auto simp: bool_select_def)

text \<open>Cutting the values out of the flattened batch by indices and offsets selects in every row.\<close>

lemma unpad_rows_select:
  assumes "list_all2 (\<lambda>r m. length r = length m) rows ms" "\<forall>m\<in>set ms. set m \<subseteq> {0, 1}"
  shows "unpad_rows rows ms = map2 bool_select rows ms"
proof -
  have "length (concat rows) = length (concat ms)" using assms(1) by (induction rule: list_all2_induct) auto
  then have "index_first_axis rows (unpad_indices ms) = concat (map2 bool_select rows ms)"
    by (simp only: index_first_axis_def unpad_indices_def bool_select_nth bool_select_concat [OF assms(1)])
  moreover have "map sum_list ms = map length (map2 bool_select rows ms)"
    using assms by (induction rule: list_all2_induct) (auto simp: length_bool_select)
  ultimately show ?thesis using jagged_concat [of "[]" 0 "map2 bool_select rows ms"]
    by (simp add: unpad_rows_def cu_seqlens_def)
qed

section \<open>Responses\<close>

lemma shifted_response_row:
  assumes "r < length row"
  shows "shifted_response (pre @ row @ post) r (length pre + length row) = take r (drop (length row - r - 1) row)"
proof -
  have "int (length pre + length row) - int r - 1 = int (length pre + (length row - r - 1))"
    "int (length pre + length row) - 1 = int (length pre + (length row - 1))" using assms by simp_all
  then show ?thesis unfolding shifted_response_def by (simp only: py_slice_nat) (use assms in simp)
qed

lemma shifted_responses:
  assumes "list_all2 (\<lambda>r out. r < length out) rs outs" "length pre = a"
  shows "map2 (shifted_response (pre @ concat outs)) rs (nat_cumsum a (map length outs)) =
    map2 (\<lambda>r out. take r (drop (length out - r - 1) out)) rs outs"
  using assms
proof (induction arbitrary: pre a rule: list_all2_induct)
  case (Cons r rs out outs)
  have "map2 (shifted_response ((pre @ out) @ concat outs)) rs (nat_cumsum (a + length out) (map length outs)) =
      map2 (\<lambda>r out. take r (drop (length out - r - 1) out)) rs outs"
    using Cons.prems by (intro Cons.IH) simp
  then show ?case using shifted_response_row [OF Cons.hyps(1), of pre "concat outs"] Cons.prems by simp
qed simp

text \<open>A sample with its prompt and response, in the padded layout.\<close>

type_synonym prompt_response = "int list \<times> int list"

definition sample_ids :: "int \<Rightarrow> nat \<Rightarrow> nat \<Rightarrow> prompt_response \<Rightarrow> int list" where
  "sample_ids pad n m = (\<lambda>(p, r). replicate (n - length p) pad @ p @ r @ replicate (m - length r) pad)"

definition sample_mask :: "nat \<Rightarrow> nat \<Rightarrow> prompt_response \<Rightarrow> nat list" where
  "sample_mask n m = (\<lambda>(p, r). replicate (n - length p) 0 @ replicate (length p) 1 @ replicate (length r) 1 @ replicate (m - length r) 0)"

text \<open>What an engine says about the tokens of the response: its values one place earlier.\<close>

definition response_values :: "(int list \<Rightarrow> 'a list) \<Rightarrow> prompt_response \<Rightarrow> 'a list" where
  "response_values f = (\<lambda>(p, r). take (length r) (drop (length p - 1) (f (p @ r))))"

lemma bool_select_const:
  "bool_select (replicate k x) (replicate k 0) = []" "length xs = k \<Longrightarrow> bool_select xs (replicate k 1) = xs"
proof -
  show "bool_select (replicate k x) (replicate k 0) = []" by (induction k) (simp_all add: bool_select_def)
  show "length xs = k \<Longrightarrow> bool_select xs (replicate k 1) = xs"
    by (induction xs arbitrary: k) (auto simp: bool_select_def)
qed

lemma sample_select: "bool_select (sample_ids pad n m pr) (sample_mask n m pr) = fst pr @ snd pr"
  by (cases pr) (simp add: sample_ids_def sample_mask_def bool_select_append bool_select_const bool_select_const(2) [simplified])

definition fits :: "nat \<Rightarrow> nat \<Rightarrow> prompt_response \<Rightarrow> bool" where
  "fits n m = (\<lambda>(p, r). p \<noteq> [] \<and> length p \<le> n \<and> length r \<le> m)"

definition sample_prompt :: "int \<Rightarrow> nat \<Rightarrow> prompt_response \<Rightarrow> int list" where
  "sample_prompt pad n = (\<lambda>(p, r). replicate (n - length p) pad @ p)"

definition sample_response :: "int \<Rightarrow> nat \<Rightarrow> prompt_response \<Rightarrow> int list" where
  "sample_response pad m = (\<lambda>(p, r). r @ replicate (m - length r) pad)"

lemma sample_lengths:
  assumes "fits n m pr"
  shows "length (sample_ids pad n m pr) = length (sample_mask n m pr)" "set (sample_mask n m pr) \<subseteq> {0, 1}"
    "sum_list (take n (sample_mask n m pr)) = length (fst pr)" "sum_list (drop n (sample_mask n m pr)) = length (snd pr)"
    "length (sample_prompt pad n pr) = n" "length (sample_response pad m pr) = m"
  using assms by (cases pr; auto simp: fits_def sample_ids_def sample_mask_def sample_prompt_def sample_response_def sum_list_replicate)+

lemma row_width_map: "xs \<noteq> [] \<Longrightarrow> \<forall>x\<in>set xs. length (g x) = k \<Longrightarrow> row_width (map g xs) = k"
  by (cases xs) (simp_all add: row_width_def)

lemma nat_cumsum_Nil: "nat_cumsum a xs = [] \<longleftrightarrow> xs = []"
  by (cases xs) simp_all

lemma last_nat_cumsum: "xs \<noteq> [] \<Longrightarrow> last (nat_cumsum a xs) = a + sum_list xs"
proof (induction xs arbitrary: a)
  case (Cons x xs)
  then show ?case by (cases "xs = []") (simp_all add: nat_cumsum_Nil)
qed simp

lemma engine_rows:
  assumes "\<forall>pr\<in>set xs. fits n m pr" "\<And>ids. length (f ids) = length ids"
  shows "map2 (shifted_response (concat (map (\<lambda>pr. f (fst pr @ snd pr)) xs))) (map (length \<circ> snd) xs)
      (nat_cumsum 0 (map (\<lambda>pr. length (fst pr) + length (snd pr)) xs)) = map (response_values f) xs"
proof -
  let ?outs = "map (\<lambda>pr. f (fst pr @ snd pr)) xs"
  have "list_all2 (\<lambda>r out. r < length out) (map (length \<circ> snd) xs) ?outs"
    using assms by (auto simp: list.rel_map fits_def intro!: list.rel_refl_strong)
  from shifted_responses [OF this, of "[]" 0]
  have "map2 (shifted_response (concat ?outs)) (map (length \<circ> snd) xs) (nat_cumsum 0 (map length ?outs)) =
      map2 (\<lambda>r out. take r (drop (length out - r - 1) out)) (map (length \<circ> snd) xs) ?outs" by simp
  also have "\<dots> = map (response_values f) xs"
    by (simp add: zip_map_map zip_same_conv_map assms(2)) (auto simp: response_values_def)
  finally show ?thesis by (simp add: assms(2) comp_def)
qed

lemma response_fits:
  assumes "fits n m pr" "\<And>ids. length (f ids) = length ids"
  shows "length (response_values f pr) = length (snd pr)" "length (snd pr) \<le> m" "fst pr \<noteq> []"
  using assms by (cases pr; auto simp: response_values_def fits_def)+

lemma engine_rows_padded:
  assumes xs: "xs \<noteq> []" "\<forall>pr\<in>set xs. fits n m pr" and f: "\<And>ids. length (f ids) = length ids"
  shows "no_padding_2_padding zero (concat (map (\<lambda>pr. f (fst pr @ snd pr)) xs)) (map (sample_mask n m) xs)
      (Padded (map (sample_prompt pad n) xs)) (Padded (map (sample_response pad m) xs)) k =
    Inr (map (\<lambda>pr. response_values f pr @ replicate (m - length (snd pr)) zero) xs)"
proof -
  note lens = sample_lengths [OF bspec [OF xs(2)]] and short = response_fits [OF bspec [OF xs(2)], of _ f, OF _ f]
  note rows = engine_rows [OF xs(2), of f, OF f]
  have masks: "map (\<lambda>ms. sum_list (take n ms)) (map (sample_mask n m) xs) = map (length \<circ> fst) xs"
    "map (\<lambda>ms. sum_list (drop n ms)) (map (sample_mask n m) xs) = map (length \<circ> snd) xs" using lens by simp_all
  have widths: "row_width (map (sample_prompt pad n) xs) = n" "row_width (map (sample_response pad m) xs) = m"
    using lens xs(1) by (auto intro!: row_width_map)
  have offsets: "map2 (+) (map (length \<circ> fst) xs) (map (length \<circ> snd) xs) = map (\<lambda>pr. length (fst pr) + length (snd pr)) xs"
    by (simp add: zip_map_map zip_same_conv_map)
  have "last (nat_cumsum 0 (map (\<lambda>pr. length (fst pr) + length (snd pr)) xs)) = length (concat (map (\<lambda>pr. f (fst pr @ snd pr)) xs))"
    using last_nat_cumsum [of "map (\<lambda>pr. length (fst pr) + length (snd pr)) xs" 0] xs(1) by (simp add: length_concat comp_def f)
  moreover have "nat_cumsum 0 (map (\<lambda>pr. length (fst pr) + length (snd pr)) xs) \<noteq> []" using xs(1) by (simp add: nat_cumsum_Nil)
  moreover have "0 \<notin> set (map (length \<circ> fst) xs)" using short(3) by auto
  moreover have "map2 (\<lambda>resp_len seq_offset. pad_end zero m (shifted_response (concat (map (\<lambda>pr. f (fst pr @ snd pr)) xs)) resp_len seq_offset))
      (map (length \<circ> snd) xs) (nat_cumsum 0 (map (\<lambda>pr. length (fst pr) + length (snd pr)) xs)) =
    map (pad_end zero m) (map (response_values f) xs)"
    unfolding rows [symmetric] by (simp add: split_beta comp_def)
  moreover have "map (pad_end zero m) (map (response_values f) xs) =
      map (\<lambda>pr. response_values f pr @ replicate (m - length (snd pr)) zero) xs" using short by (simp add: pad_end_def)
  ultimately show ?thesis
    by (simp only: no_padding_2_padding_def response_lengths_def layout.case prod.case Let_def masks widths offsets
        bind_res_Inr simp_thms if_False py_assert_simps nat_int)
qed

text \<open>C38. Removing the padding, computing in the nested layout and cutting out the responses is free of
  the layout: for every function that gives one value per token of a sequence, a batch of samples
  padded in any way to the same widths is computed on the samples alone, and the result for a
  response token is the value at the token before it, with zeros behind the response. The nested
  path gives the same rows without the zeros, and cutting those off takes the one to the other.
\<close>

theorem engine_outputs_aligned:
  assumes xs: "xs \<noteq> []" "\<forall>pr\<in>set xs. fits n m pr" and f: "\<And>ids. length (f ids) = length ids"
    and d: "pd_input_ids d = Some (map (sample_ids pad n m) xs)" "pd_attention_mask d = Some (map (sample_mask n m) xs)"
      "pd_response_mask d = Some rm" "pd_position_ids d = Some pos"
  shows "\<exists>nested. left_right_2_no_padding d = Inr nested \<and> nd_input_ids nested = map (\<lambda>(p, r). p @ r) xs \<and>
    no_padding_2_padding zero (concat (map f (nd_input_ids nested))) (map (sample_mask n m) xs)
      (Padded (map (sample_prompt pad n) xs)) (Padded (map (sample_response pad m) xs)) (int (nd_max_response_len nested)) =
      Inr (map (\<lambda>pr. response_values f pr @ replicate (m - length (snd pr)) zero) xs) \<and>
    response_from_nested (map f (nd_input_ids nested)) (map (\<lambda>(p, r). replicate (length r) 1) xs) =
      Inr (map (response_values f) xs) \<and>
    response_to_nested (map (\<lambda>pr. response_values f pr @ replicate (m - length (snd pr)) zero) xs)
      (map (\<lambda>(p, r). replicate (length r) 1) xs) = Inr (map (response_values f) xs)"
proof -
  note lens = sample_lengths [OF bspec [OF xs(2)]]
  have unpad: "unpad_rows (map (sample_ids pad n m) xs) (map (sample_mask n m) xs) = map (\<lambda>(p, r). p @ r) xs"
    by (subst unpad_rows_select)
      (use lens in \<open>auto simp: list.rel_map zip_map_map zip_same_conv_map sample_select intro!: list.rel_refl_strong\<close>)
  have outs: "map f (map (\<lambda>(p, r). p @ r) xs) = map (\<lambda>pr. f (fst pr @ snd pr)) xs" by auto
  note rows = engine_rows [OF xs(2), of f, OF f]
  note short = response_fits [OF bspec [OF xs(2)], of _ f, OF _ f]
  note padded = engine_rows_padded [OF xs, of f, OF f]
  have nested: "response_from_nested (map (\<lambda>pr. f (fst pr @ snd pr)) xs) (map (\<lambda>(p, r). replicate (length r) 1) xs) =
      Inr (map (response_values f) xs)"
    using rows by (simp add: response_from_nested_def f comp_def split_beta zip_map1)
  have stripped: "response_to_nested (map (\<lambda>pr. response_values f pr @ replicate (m - length (snd pr)) zero) xs)
      (map (\<lambda>(p, r). replicate (length r) 1) xs) = Inr (map (response_values f) xs)"
    using short by (simp add: response_to_nested_def zip_map_map zip_same_conv_map split_beta)
  obtain rows' where "left_right_2_no_padding d = Inr rows'" and ids: "nd_input_ids rows' = map (\<lambda>(p, r). p @ r) xs"
    by (simp add: left_right_2_no_padding_def d unpad)
  then show ?thesis
    by (intro exI [of _ rows'] conjI) (simp_all only: ids outs padded nested stripped)
qed

theorem engine_outputs_aligned_witness:
  "\<exists>nested. left_right_2_no_padding \<lparr>pd_input_ids = Some [[0, 5, 6, 7], [1, 2, 3, 0]], pd_attention_mask = Some [[0, 1, 1, 1], [1, 1, 1, 0]],
        pd_response_mask = Some [[1, 1], [1, 0]], pd_position_ids = Some [[0, 0, 1, 2], [0, 1, 2, 2]], pd_routed_experts = None,
        pd_teacher_logprobs = None, pd_teacher_ids = None :: int list list option\<rparr> = Inr nested \<and>
    nd_input_ids nested = [[5, 6, 7], [1, 2, 3]] \<and>
    no_padding_2_padding 0 (concat (map (map (\<lambda>t. 10 * t)) (nd_input_ids nested))) [[0, 1, 1, 1], [1, 1, 1, 0]]
      (Padded [[0, 5], [1, 2]]) (Padded [[6, 7], [3, 0]]) (int (nd_max_response_len nested)) = Inr [[50, 60], [20, 0]]"
proof -
  let ?d = "\<lparr>pd_input_ids = Some [[0, 5, 6, 7], [1, 2, 3, 0]], pd_attention_mask = Some [[0, 1, 1, 1], [1, 1, 1, 0]],
        pd_response_mask = Some [[1, 1], [1, 0]], pd_position_ids = Some [[0, 0, 1, 2], [0, 1, 2, 2]], pd_routed_experts = None,
        pd_teacher_logprobs = None, pd_teacher_ids = None :: int list list option\<rparr>"
  show ?thesis
    using engine_outputs_aligned [of "[([5], [6, 7]), ([1, 2], [3])]" 2 2 "map (\<lambda>t. 10 * t)" ?d 0 "[[1, 1], [1, 0]]" "[[0, 0, 1, 2], [0, 1, 2, 2]]" 0]
    by (simp add: fits_def sample_ids_def sample_mask_def sample_prompt_def sample_response_def response_values_def numeral_2_eq_2) blast
qed

end
