(* ===== verification/WorkerLosses.thy ===== *)
theory WorkerLosses
  imports NoPadding PolicyLoss
begin

text \<open>
  The losses a worker computes for a micro-batch (\<open>verl/workers/utils/losses.py\<close>) and how their
  metrics are put together over micro-batches and ranks (\<open>verl/utils/metric/utils.py\<close>,
  \<open>append_to_dict\<close>): the loss that is reported is the loss of the batch.
\<close>

section \<open>Metrics\<close>

datatype aggregation_type = AggMean | AggSum | AggMin | AggMax

record agg_metric =
  am_aggregation :: aggregation_type
  am_values :: "rat list"

definition metric_new :: "aggregation_type \<Rightarrow> rat option \<Rightarrow> agg_metric" where
  "metric_new aggregation v = \<lparr>am_aggregation = aggregation, am_values = (case v of None \<Rightarrow> [] | Some x \<Rightarrow> [x])\<rparr>"

definition metric_append :: "rat \<Rightarrow> agg_metric \<Rightarrow> agg_metric" where
  "metric_append v m = m\<lparr>am_values := am_values m @ [v]\<rparr>"

definition metric_extend :: "agg_metric \<Rightarrow> agg_metric \<Rightarrow> agg_metric res" where
  "metric_extend values m =
     (if am_aggregation values \<noteq> am_aggregation m then Inl ValueError
      else Inr (m\<lparr>am_values := am_values m @ am_values values\<rparr>))"

text \<open>\<open>np.mean\<close> of nothing is NaN, outside the model; here, as the minimum and maximum, an error.\<close>

definition aggregate_values :: "aggregation_type \<Rightarrow> rat list \<Rightarrow> rat res" where
  "aggregate_values aggregation xs =
     (case aggregation of
        AggSum \<Rightarrow> Inr (sum_list xs)
      | AggMean \<Rightarrow> torch_div (sum_list xs) (of_nat (length xs))
      | AggMin \<Rightarrow> if xs = [] then Inl ValueError else Inr (Min (set xs))
      | AggMax \<Rightarrow> if xs = [] then Inl ValueError else Inr (Max (set xs)))"

definition metric_aggregate :: "agg_metric \<Rightarrow> rat res" where
  "metric_aggregate m = aggregate_values (am_aggregation m) (am_values m)"

definition mean_over_ranks :: "rat list list \<Rightarrow> rat list" where
  "mean_over_ranks value_lists =
     map (\<lambda>j. sum_list (map (\<lambda>vs. vs ! j) value_lists) / of_nat (length value_lists)) [0..<length (hd value_lists)]"

definition aggregate_dp :: "agg_metric list \<Rightarrow> rat res" where
  "aggregate_dp metric_lists =
     (if metric_lists = [] then Inl ValueError
      else let value_lists = map am_values metric_lists; aggregation = am_aggregation (hd metric_lists)
      in if \<not> (\<forall>vs\<in>set value_lists. length vs = length (hd value_lists)) then Inl ValueError
      else if aggregation \<in> {AggSum, AggMean} then aggregate_values aggregation (mean_over_ranks value_lists)
      else aggregate_values aggregation (concat value_lists))"

text \<open>\<open>append_to_dict\<close> for one key over the micro-batches of a rank: the first value makes the list.\<close>

definition collect_metric :: "agg_metric list \<Rightarrow> agg_metric option res" where
  "collect_metric ms =
     (case ms of
        [] \<Rightarrow> Inr None
      | m # _ \<Rightarrow> bind_res (fold (\<lambda>x r. bind_res r (metric_extend x)) ms (Inr (metric_new (am_aggregation m) None))) (\<lambda>r. Inr (Some r)))"

section \<open>Losses\<close>

text \<open>\<open>torch.roll(x, shifts=-1)\<close> of the flattened mask.\<close>

definition roll_left :: "'a list \<Rightarrow> 'a list" where
  "roll_left xs = (case xs of [] \<Rightarrow> [] | x # rest \<Rightarrow> rest @ [x])"

definition sum_product :: "rat list \<Rightarrow> rat list \<Rightarrow> rat" where
  "sum_product values weights = sum_list (map2 (*) values weights)"

definition sft_loss_nested :: "rat list list \<Rightarrow> rat list list \<Rightarrow> rat \<Rightarrow> nat \<Rightarrow> rat res" where
  "sft_loss_nested log_prob loss_mask batch_tokens dp =
     bind_res (torch_div (- sum_product (concat log_prob) (roll_left (concat loss_mask))) batch_tokens) (\<lambda>l. Inr (l * of_nat dp))"

definition sft_loss_padded :: "tensor \<Rightarrow> tensor \<Rightarrow> rat \<Rightarrow> nat \<Rightarrow> rat res" where
  "sft_loss_padded log_prob response_mask batch_tokens dp =
     bind_res (torch_div (- masked_sum log_prob response_mask) batch_tokens) (\<lambda>l. Inr (l * of_nat dp))"

record ppo_data =
  pp_attention_mask :: "nat list list"
  pp_prompts :: "int layout"
  pp_responses :: "int layout"
  pp_max_response_len :: int
  pp_response_mask :: tensor
  pp_old_log_probs :: tensor
  pp_advantages :: tensor
  pp_weights :: "tensor option"
  pp_ref_log_prob :: "tensor option"

record ppo_config =
  pc_info :: global_batch_info
  pc_loss_agg_mode :: string
  pc_entropy_coeff :: rat
  pc_kl_loss :: "(string \<times> rat) option"

text \<open>Metrics are summed when any count of the global batch is given.\<close>

definition metric_aggregation :: "global_batch_info \<Rightarrow> aggregation_type" where
  "metric_aggregation info =
     (if 1 < dp_size info \<or> batch_num_tokens info \<noteq> None \<or> global_batch_size info \<noteq> None \<or> loss_scale_factor info \<noteq> None
      then AggSum else AggMean)"

definition cut_responses :: "ppo_data \<Rightarrow> rat list \<Rightarrow> tensor res" where
  "cut_responses d values =
     no_padding_2_padding 0 values (pp_attention_mask d) (pp_prompts d) (pp_responses d) (pp_max_response_len d)"

text \<open>\<open>policy_loss\<close> is the loss of the configured mode, with the counts of the batch in it.\<close>

definition ppo_loss ::
  "(rat \<Rightarrow> rat) \<Rightarrow> (tensor \<Rightarrow> tensor \<Rightarrow> tensor \<Rightarrow> tensor \<Rightarrow> string \<Rightarrow> tensor option \<Rightarrow> rat res) \<Rightarrow> ppo_config \<Rightarrow>
   rat list \<Rightarrow> rat list option \<Rightarrow> ppo_data \<Rightarrow> (rat \<times> (string \<times> agg_metric) list) res" where
  "ppo_loss ex policy_loss c log_probs entropy d =
     (let info = pc_info c; mode = pc_loss_agg_mode c; new = (\<lambda>v. metric_new (metric_aggregation info) (Some v))
      in bind_res (cut_responses d log_probs) (\<lambda>log_prob.
         bind_res (case entropy of None \<Rightarrow> Inr None | Some e \<Rightarrow> map_sum id Some (cut_responses d e)) (\<lambda>ent.
         bind_res (policy_loss (pp_old_log_probs d) log_prob (pp_advantages d) (pp_response_mask d) mode (pp_weights d)) (\<lambda>pg_loss.
         bind_res (case ent of
             None \<Rightarrow> Inr (pg_loss, [(''actor/pg_loss'', new pg_loss)])
           | Some e \<Rightarrow> bind_res (agg_loss e (pp_response_mask d) mode info) (\<lambda>entropy_loss.
               Inr (pg_loss - pc_entropy_coeff c * entropy_loss,
                 [(''actor/pg_loss'', new pg_loss), (''actor/entropy_loss'', new entropy_loss)]))) (\<lambda>(loss, metrics).
         case pc_kl_loss c of
           None \<Rightarrow> Inr (loss, metrics)
         | Some (kind, coef) \<Rightarrow>
             (case pp_ref_log_prob d of
                None \<Rightarrow> Inl KeyError
              | Some ref_log_prob \<Rightarrow>
                  bind_res (kl_penalty ex log_prob ref_log_prob kind) (\<lambda>kld.
                  bind_res (agg_loss kld (pp_response_mask d) mode info) (\<lambda>kl_loss.
                    Inr (loss + kl_loss * coef, metrics @ [(''kl_loss'', new kl_loss)])))))))))"

definition value_loss :: "rat \<Rightarrow> string \<Rightarrow> rat list \<Rightarrow> tensor \<Rightarrow> tensor \<Rightarrow> ppo_data \<Rightarrow> (rat \<times> rat \<times> rat) res" where
  "value_loss cliprange_value mode values_out old_values rets d =
     bind_res (cut_responses d values_out) (\<lambda>vpreds.
     bind_res (compute_value_loss vpreds rets old_values (pp_response_mask d) cliprange_value mode) (\<lambda>(vf_loss, vf_clipfrac).
     bind_res (masked_mean vpreds (pp_response_mask d)) (\<lambda>vpred_mean. Inr (vf_loss, vf_clipfrac, vpred_mean))))"

text \<open>The losses of the micro-batches of a rank, and what the ranks report together.\<close>

definition rank_metric :: "global_batch_info \<Rightarrow> string \<Rightarrow> (tensor \<times> tensor) list \<Rightarrow> agg_metric option res" where
  "rank_metric info mode micros =
     bind_res (map_res (\<lambda>(l, m). bind_res (agg_loss l m mode info) (\<lambda>x. Inr (metric_new (metric_aggregation info) (Some x)))) micros)
       collect_metric"

definition reported_loss :: "global_batch_info \<Rightarrow> string \<Rightarrow> (tensor \<times> tensor) list list \<Rightarrow> rat res" where
  "reported_loss info mode parts =
     bind_res (map_res (rank_metric info mode) parts) (\<lambda>ms. aggregate_dp (concat (map (\<lambda>m. case m of None \<Rightarrow> [] | Some x \<Rightarrow> [x]) ms)))"

section \<open>The loss reported is the loss of the batch\<close>

lemma fold_extend:
  "fold (\<lambda>x r. bind_res r (metric_extend x)) (map (\<lambda>x. metric_new a (Some x)) xs) (Inr \<lparr>am_aggregation = a, am_values = ys\<rparr>) =
   Inr \<lparr>am_aggregation = a, am_values = ys @ xs\<rparr>"
  by (induction xs arbitrary: ys) (simp_all add: metric_extend_def metric_new_def)

lemma collect_new:
  "xs \<noteq> [] \<Longrightarrow> collect_metric (map (\<lambda>x. metric_new a (Some x)) xs) = Inr (Some \<lparr>am_aggregation = a, am_values = xs\<rparr>)"
  using fold_extend [of a xs "[]"] by (cases xs) (simp_all add: collect_metric_def metric_new_def metric_extend_def)

lemma sum_over_ranks:
  assumes "\<forall>vs\<in>set vss. length vs = k"
  shows "sum_list (map (\<lambda>j. sum_list (map (\<lambda>vs. vs ! j) vss)) [0..<k]) = (sum_list (map sum_list vss) :: rat)"
  using assms
proof (induction vss)
  case (Cons vs vss)
  have "map (\<lambda>j. vs ! j) [0..<k] = vs" by (metis Cons.prems list.set_intros(1) map_nth)
  then show ?case using Cons by (simp add: sum_list_addf)
qed (simp add: sum_list_triv)

lemma sum_concat: "sum_list (concat xss) = (sum_list (map sum_list xss) :: rat)"
  by (induction xss) simp_all

lemma sum_list_divide: "sum_list (map (\<lambda>x. f x / c) xs) = sum_list (map f xs) / (c :: rat)"
  by (induction xs) (simp_all add: add_divide_distrib)

text \<open>
  Without a \<open>loss_scale_factor\<close> the mode \<open>seq-mean-token-sum-norm\<close> divides by the width of the mask it
  is given.
\<close>

definition with_width :: "nat \<Rightarrow> global_batch_info \<Rightarrow> global_batch_info" where
  "with_width w info = (case loss_scale_factor info of None \<Rightarrow> info\<lparr>loss_scale_factor := Some (int w)\<rparr> | Some _ \<Rightarrow> info)"

definition one_width :: "nat \<Rightarrow> string \<Rightarrow> global_batch_info \<Rightarrow> tensor \<Rightarrow> bool" where
  "one_width w mode info m \<longleftrightarrow>
     (mode = ''seq-mean-token-sum-norm'' \<and> loss_scale_factor info = None \<longrightarrow> m \<noteq> [] \<and> (\<forall>row\<in>set m. length row = w))"

lemma agg_loss_with_width: "one_width w mode info m \<Longrightarrow> agg_loss l m mode info = agg_loss l m mode (with_width w info)"
proof (cases "loss_scale_factor info")
  case None
  assume "one_width w mode info m"
  then have "horizon m = of_nat w" if "mode = ''seq-mean-token-sum-norm''"
    using None that by (cases m) (simp_all add: one_width_def horizon_def)
  then show ?thesis by (simp add: agg_loss_def with_width_def None Let_def)
qed (simp add: with_width_def)

lemma with_width_simps [simp]:
  "dp_size (with_width w info) = dp_size info" "with_width w (info\<lparr>dp_size := d\<rparr>) = (with_width w info)\<lparr>dp_size := d\<rparr>"
  "one_width w mode (info\<lparr>dp_size := d\<rparr>) m = one_width w mode info m"
  by (simp_all add: with_width_def one_width_def split: option.split)

lemma counted_sums: "counted mode (with_width w info) \<Longrightarrow> metric_aggregation info = AggSum"
  by (auto simp: metric_aggregation_def counted_def with_width_def split: option.splits)

lemma one_width_concat: "ms \<noteq> [] \<Longrightarrow> \<forall>m\<in>set ms. one_width w mode info m \<Longrightarrow> one_width w mode info (concat ms)"
  by (cases ms) (auto simp: one_width_def)

text \<open>C39. The loss reported for a batch that is split over ranks and, on every rank, over the same number
  of micro-batches is the loss of the batch in one piece, in every mode of aggregation, when the counts
  of the global batch are given: each micro-batch divides by these counts and multiplies by the number
  of ranks, a rank adds its micro-batches, and the ranks are averaged. In the mode
  \<open>seq-mean-token-sum-norm\<close> without a \<open>loss_scale_factor\<close> the micro-batches must have the same width.
\<close>

theorem reported_loss_is_batch_loss:
  assumes parts: "parts \<noteq> []" "\<forall>micros\<in>set parts. length micros = k" "0 < k"
    and rows: "\<forall>(l, m)\<in>set (concat parts). length l = length m \<and> one_width w mode info m"
    and info: "counted mode (with_width w info)" "dp_size info = length parts"
  shows "reported_loss info mode parts =
    agg_loss (concat (map fst (concat parts))) (concat (map snd (concat parts))) mode (info\<lparr>dp_size := 1\<rparr>)"
proof -
  define v where "v = (\<lambda>(l, m). loss_sum mode l m * of_nat (length parts) / loss_unit mode (with_width w info))"
  note agg = counted_sums [OF info(1)]
  have rank: "rank_metric info mode micros = Inr (Some \<lparr>am_aggregation = AggSum, am_values = map v micros\<rparr>)" if "micros \<in> set parts" for micros
  proof -
    have loss: "agg_loss l m mode info = Inr (v (l, m))" if "(l, m) \<in> set micros" for l m
    proof -
      have "one_width w mode info m" using rows \<open>micros \<in> set parts\<close> that by auto
      then show ?thesis by (simp add: agg_loss_with_width agg_loss_counted [OF info(1)] v_def info(2))
    qed
    have "map_res (\<lambda>(l, m). bind_res (agg_loss l m mode info) (\<lambda>x. Inr (metric_new AggSum (Some x)))) micros =
        Inr (map (\<lambda>x. metric_new AggSum (Some x)) (map v micros))"
      unfolding map_map comp_def by (rule map_res_Inr) (auto simp: loss)
    moreover have "micros \<noteq> []" using that parts(2,3) by auto
    ultimately show ?thesis unfolding rank_metric_def agg by (simp only: bind_res_Inr) (simp add: collect_new del: map_map)
  qed
  have "map_res (rank_metric info mode) parts = Inr (map (\<lambda>micros. Some \<lparr>am_aggregation = AggSum, am_values = map v micros\<rparr>) parts)"
    by (rule map_res_Inr) (rule rank)
  then have "reported_loss info mode parts = aggregate_dp (map (\<lambda>micros. \<lparr>am_aggregation = AggSum, am_values = map v micros\<rparr>) parts)"
    by (simp add: reported_loss_def comp_def)
  also have "\<dots> = Inr (sum_list (mean_over_ranks (map (map v) parts)))"
    using parts by (cases parts) (auto simp: aggregate_dp_def aggregate_values_def comp_def)
  also have "sum_list (mean_over_ranks (map (map v) parts)) =
      sum_list (map (\<lambda>j. sum_list (map (\<lambda>vs. vs ! j) (map (map v) parts))) [0..<k]) / of_nat (length parts)"
    using parts(1,2) by (cases parts) (simp_all add: mean_over_ranks_def sum_list_divide comp_def)
  also have "\<dots> = sum_list (map v (concat parts)) / of_nat (length parts)"
    by (subst sum_over_ranks) (use parts(2) in \<open>auto simp: map_concat sum_concat comp_def\<close>)
  also have "sum_list (map v (concat parts)) = sum_list (map (\<lambda>(l, m). loss_sum mode l m) (concat parts)) * of_nat (length parts) / loss_unit mode (with_width w info)"
  proof -
    have "sum_list (map v ps) = sum_list (map (\<lambda>(l, m). loss_sum mode l m) ps) * of_nat (length parts) / loss_unit mode (with_width w info)" for ps
      by (induction ps) (auto simp: v_def add_divide_distrib distrib_right)
    then show ?thesis .
  qed
  also have "\<dots> / of_nat (length parts) = loss_sum mode (concat (map fst (concat parts))) (concat (map snd (concat parts))) / loss_unit mode (with_width w info)"
    using parts(1) loss_sum_concat [of "concat parts" mode] rows by fastforce
  also have "\<dots> = loss_sum mode (concat (map fst (concat parts))) (concat (map snd (concat parts))) * 1 / loss_unit mode (with_width w info)"
    by simp
  finally have loss: "reported_loss info mode parts =
      agg_loss (concat (map fst (concat parts))) (concat (map snd (concat parts))) mode ((with_width w info)\<lparr>dp_size := 1\<rparr>)"
    using agg_loss_counted [of mode "(with_width w info)\<lparr>dp_size := 1\<rparr>"] info(1) by (simp add: counted_def loss_unit_def)
  have "map snd (concat parts) \<noteq> []" using parts by (cases parts) auto
  then have "one_width w mode info (concat (map snd (concat parts)))"
    by (rule one_width_concat) (use rows in fastforce)
  then show ?thesis unfolding loss by (subst agg_loss_with_width [of w mode "info\<lparr>dp_size := 1\<rparr>"]) simp_all
qed

theorem reported_loss_is_batch_loss_witness:
  "reported_loss \<lparr>dp_size = 2, batch_num_tokens = Some 6, global_batch_size = Some 4, loss_scale_factor = None\<rparr> ''token-mean''
     [[([[1, 2]], [[1, 1]]), ([[3, 4]], [[1, 0]])], [([[5, 6]], [[1, 1]]), ([[7, 8]], [[0, 1]])]] = Inr (25 / 6)"
proof -
  let ?parts = "[[([[1, 2]], [[1, 1]]), ([[3, 4]], [[1, 0]])], [([[5, 6]], [[1, 1]]), ([[7, 8]], [[0, 1]])]] :: (tensor \<times> tensor) list list"
  let ?info = "\<lparr>dp_size = 2, batch_num_tokens = Some 6, global_batch_size = Some 4, loss_scale_factor = None\<rparr>"
  have "reported_loss ?info ''token-mean'' ?parts =
      agg_loss (concat (map fst (concat ?parts))) (concat (map snd (concat ?parts))) ''token-mean'' (?info\<lparr>dp_size := 1\<rparr>)"
    by (rule reported_loss_is_batch_loss [where k = 2 and w = 2]) (simp_all add: counted_def loss_agg_modes_def one_width_def with_width_def)
  also have "\<dots> = Inr (25 / 6)" by code_simp
  finally show ?thesis .
qed

section \<open>The loss of supervised fine-tuning\<close>

lemma sum_product_append: "length a = length m \<Longrightarrow> sum_product (a @ b) (m @ n) = sum_product a m + sum_product b n"
  by (simp add: sum_product_def)

lemma sum_product_last: "length l = Suc (length m) \<Longrightarrow> sum_product l (m @ [0]) = sum_product (butlast l) m"
  by (cases l rule: rev_cases) (simp_all add: sum_product_append, simp add: sum_product_def)

lemma sum_product_next:
  assumes "list_all2 (\<lambda>l m. length l = length m \<and> m \<noteq> [] \<and> hd m = 0) ls ms" "ls \<noteq> []"
  shows "sum_product (concat ls) (tl (concat ms) @ [0]) = sum_list (map2 (\<lambda>l m. sum_product (butlast l) (tl m)) ls ms)"
  using assms
proof (induction rule: list_all2_induct)
  case (Cons l ls m ms)
  have m: "length l = Suc (length (tl m))" "tl (m @ concat ms) = tl m @ concat ms" using Cons.hyps(1) by (cases m; simp)+
  note row = sum_product_last [OF m(1)]
  show ?case
  proof (cases "ls = []")
    case True
    then show ?thesis using Cons.hyps(2) m row by simp
  next
    case False
    then obtain m' ms' where ms: "ms = m' # ms'" "m' \<noteq> []" "hd m' = 0" using Cons.hyps(2) by (cases ms) (auto simp: list_all2_Cons2)
    then have split: "concat ms = 0 # tl (concat ms)" by (cases m') simp_all
    have "sum_product (l @ concat ls) ((tl m @ [0]) @ (tl (concat ms) @ [0])) =
        sum_product l (tl m @ [0]) + sum_product (concat ls) (tl (concat ms) @ [0])"
      by (rule sum_product_append) (simp add: m(1))
    moreover have "tl (m @ concat ms) @ [0] = (tl m @ [0]) @ (tl (concat ms) @ [0])"
      unfolding m(2) by (subst split) simp
    ultimately show ?thesis using Cons.IH [OF False] row by simp
  qed
qed simp

text \<open>
  Rolling the flattened mask moves the mask of a sample's first token onto the last token of the
  sample before it; as long as no first token is trained on, every token is weighted by the mask of
  the next token of its own sample.
\<close>

theorem sft_loss_next_token:
  assumes "list_all2 (\<lambda>l m. length l = length m \<and> m \<noteq> [] \<and> hd m = 0) log_prob loss_mask" "log_prob \<noteq> []" "batch_tokens \<noteq> 0"
  shows "sft_loss_nested log_prob loss_mask batch_tokens dp =
    Inr (- sum_list (map2 (\<lambda>l m. sum_product (butlast l) (tl m)) log_prob loss_mask) / batch_tokens * of_nat dp)"
proof -
  obtain m ms where ms: "loss_mask = m # ms" "m \<noteq> []" "hd m = 0"
    using assms(1,2) by (cases loss_mask) (auto simp: list_all2_Cons2)
  then have "roll_left (concat loss_mask) = tl (concat loss_mask) @ [0]"
    by (cases m) (simp_all add: roll_left_def)
  then show ?thesis using sum_product_next [OF assms(1,2)] assms(3) by (simp add: sft_loss_nested_def torch_div_def)
qed

text \<open>A sample without a prompt is trained to end like the sample after it begins.\<close>

lemma sft_loss_crosses_samples: "sft_loss_nested [[1, 5], [2]] [[0, 1], [1]] 1 1 = Inr (- 6)"
  by code_simp

section \<open>The policy loss of padded samples\<close>

text \<open>
  The loss of a micro-batch without entropy and penalty is the policy loss of the values at the
  token before each response token, whatever the padding of the prompts.
\<close>

theorem ppo_loss_of_samples:
  assumes xs: "xs \<noteq> []" "\<forall>pr\<in>set xs. fits n m pr" and f: "\<And>ids. length (f ids) = length ids"
    and d: "pp_attention_mask d = map (sample_mask n m) xs" "pp_prompts d = Padded (map (sample_prompt pad n) xs)"
      "pp_responses d = Padded (map (sample_response pad m) xs)" and c: "pc_kl_loss c = None"
  shows "ppo_loss ex policy_loss c (concat (map (\<lambda>pr. f (fst pr @ snd pr)) xs)) None d =
    bind_res (policy_loss (pp_old_log_probs d) (map (\<lambda>pr. response_values f pr @ replicate (m - length (snd pr)) 0) xs)
        (pp_advantages d) (pp_response_mask d) (pc_loss_agg_mode c) (pp_weights d))
      (\<lambda>pg_loss. Inr (pg_loss, [(''actor/pg_loss'', metric_new (metric_aggregation (pc_info c)) (Some pg_loss))]))"
  using engine_rows_padded [OF xs, of f, OF f] by (simp add: ppo_loss_def cut_responses_def d c Let_def)

end
