(* ===== verification/TensorDicts.thy ===== *)
theory TensorDicts
  imports Prelude "HOL-Library.AList" "HOL-Library.Multiset"
begin

text \<open>
  The batch container of the engine workers (\<open>verl/utils/tensordict_utils.py\<close>): a dictionary of
  tensors, nested tensors, stacks of values and single values, with a batch size. The container is
  the package \<open>tensordict\<close>; its own \<open>chunk\<close>, \<open>cat\<close> and prefix slice are parameters. Modelled is what
  the utilities do around them: nested tensors are split and joined by hand, rows are selected and
  iterated, batches are built from columns or rows and padded to a divisor.
\<close>

section \<open>Values\<close>

text \<open>
  A row is the list of its items along its first dimension (numbers, or rows of further dimensions),
  which is the ragged one of a nested tensor. Tensors with rows of one length, nested tensors,
  \<open>NonTensorStack\<close> and \<open>NonTensorData\<close>.
\<close>

datatype ('a, 'v) td_value = Dense "'a list list" | Jagged "'a list list" | Stack "'v list" | Data 'v

record ('a, 'v) tensordict =
  tn_size :: "nat option"
  tn_items :: "(string \<times> ('a, 'v) td_value) list"


text \<open>\<open>len(td)\<close>; a container without a batch size has length 0.\<close>

definition td_len :: "('a, 'v) tensordict \<Rightarrow> nat" where
  "td_len td = (case tn_size td of None \<Rightarrow> 0 | Some n \<Rightarrow> n)"


definition td_get :: "('a, 'v) tensordict \<Rightarrow> string \<Rightarrow> ('a, 'v) td_value res" where
  "td_get td key = (case map_of (tn_items td) key of None \<Rightarrow> Inl KeyError | Some v \<Rightarrow> Inr v)"



text \<open>\<open>nested_tensor_from_tensor_list\<close> on rows that are ragged in their first dimension.\<close>

definition nested_tensor_from_tensor_list :: "'a list list \<Rightarrow> ('a, 'v) td_value res" where
  "nested_tensor_from_tensor_list tensors = py_assert (tensors \<noteq> []) (Inr (Jagged tensors))"

section \<open>Joining\<close>





section \<open>Splitting\<close>

text \<open>
  The rows of chunk \<open>i\<close> of a nested tensor. \<open>unbinds\<close> says whether \<open>unbind\<close> works on it; if not,
  the rows are padded with zeros to one length, chunked, and cut to their lengths again.
\<close>

definition zero_padded_rows :: "'a \<Rightarrow> 'a list list \<Rightarrow> 'a list list" where
  "zero_padded_rows zero rows = (let m = foldr max (map length rows) 0 in map (\<lambda>r. r @ replicate (m - length r) zero) rows)"




section \<open>Selecting rows\<close>

text \<open>Rows by integer index; negative indices count from the end. A single value is kept.\<close>

fun select_value :: "int list \<Rightarrow> ('a, 'v) td_value \<Rightarrow> ('a, 'v) td_value res" where
  "select_value indices (Dense rs) = bind_res (map_res (py_get rs) indices) (\<lambda>xs. Inr (Dense xs))"
| "select_value indices (Jagged rs) = bind_res (map_res (py_get rs) indices) nested_tensor_from_tensor_list"
| "select_value indices (Stack vs) = bind_res (map_res (py_get vs) indices) (\<lambda>xs. Inr (Stack xs))"
| "select_value indices (Data v) = Inr (Data v)"

definition index_select_tensor_dict :: "('a, 'v) tensordict option \<Rightarrow> int list \<Rightarrow> ('a, 'v) tensordict option res" where
  "index_select_tensor_dict batch indices =
     (case batch of None \<Rightarrow> Inr None
      | Some td \<Rightarrow> bind_res (map_res (\<lambda>(k, v). bind_res (select_value indices v) (\<lambda>v'. Inr (k, v'))) (tn_items td)) (\<lambda>items.
          Inr (Some \<lparr>tn_size = Some (length indices), tn_items = items\<rparr>)))"

text \<open>
  \<open>loader n b e\<close> gives the index batches of size \<open>b\<close> that the \<open>DataLoader\<close> over \<open>0..n-1\<close> yields in
  epoch \<open>e\<close>.
\<close>

definition make_iterator ::
  "(nat \<Rightarrow> nat \<Rightarrow> nat \<Rightarrow> nat list list) \<Rightarrow> ('a, 'v) tensordict \<Rightarrow> nat \<Rightarrow> nat \<Rightarrow> ('a, 'v) tensordict option list res" where
  "make_iterator loader td mini_batch_size epochs =
     (case tn_size td of None \<Rightarrow> Inl IndexError
      | Some n \<Rightarrow>
          if mini_batch_size = 0 then Inl ZeroDivisionError
          else py_assert (n mod mini_batch_size = 0)
            (map_res (\<lambda>idx. index_select_tensor_dict (Some td) (map int idx))
               (concat (map (loader n mini_batch_size) [0..<epochs]))))"

section \<open>Padding\<close>

text \<open>\<open>pad_to_divisor\<close>: prefixes of the batch are appended until the padding is full.\<close>

fun padding_sizes :: "nat \<Rightarrow> nat \<Rightarrow> nat list" where
  "padding_sizes remaining_pad n =
     (if remaining_pad = 0 \<or> n = 0 then []
      else let take_size = min remaining_pad n in take_size # padding_sizes (remaining_pad - take_size) n)"

declare padding_sizes.simps [simp del]

definition pad_to_divisor ::
  "(('a, 'v) tensordict list \<Rightarrow> ('a, 'v) tensordict res) \<Rightarrow> (nat \<Rightarrow> ('a, 'v) tensordict \<Rightarrow> ('a, 'v) tensordict) \<Rightarrow>
   ('a, 'v) tensordict \<Rightarrow> nat \<Rightarrow> (('a, 'v) tensordict \<times> nat) res" where
  "pad_to_divisor td_cat td_take data size_divisor =
     (if size_divisor = 0 then Inl ZeroDivisionError
      else if td_len data mod size_divisor \<noteq> 0
      then (let pad_size = size_divisor - td_len data mod size_divisor
            in bind_res (td_cat (data # map (\<lambda>n. td_take n data) (padding_sizes pad_size (td_len data))))
                 (\<lambda>data_padded. Inr (data_padded, pad_size)))
      else Inr (data, 0))"

definition td_unpad ::
  "(nat \<Rightarrow> ('a, 'v) tensordict \<Rightarrow> ('a, 'v) tensordict) \<Rightarrow> ('a, 'v) tensordict \<Rightarrow> nat \<Rightarrow> ('a, 'v) tensordict" where
  "td_unpad td_take data pad_size = (if pad_size \<noteq> 0 then td_take (td_len data - pad_size) data else data)"

section \<open>Building and access\<close>

text \<open>What is given for a key: a value of the container, or a list or array that becomes a stack.\<close>

datatype ('a, 'v) td_input = Given "('a, 'v) td_value" | ListOf "'v list"

fun input_value :: "('a, 'v) td_input \<Rightarrow> (('a, 'v) td_value \<times> nat) res" where
  "input_value (ListOf vs) = Inr (Stack vs, length vs)"
| "input_value (Given (Stack vs)) = Inr (Stack vs, length vs)"
| "input_value (Given (Dense rs)) = Inr (Dense rs, length rs)"
| "input_value (Given (Jagged rs)) = Inr (Jagged rs, length rs)"
| "input_value (Given (Data v)) = Inl AssertionError"

text \<open>The loop over the inputs: the first fixes the batch size, the others must have it.\<close>

fun convert_inputs ::
  "nat option \<Rightarrow> (string \<times> ('a, 'v) td_input) list \<Rightarrow> (nat option \<times> (string \<times> ('a, 'v) td_value) list) res" where
  "convert_inputs batch_size [] = Inr (batch_size, [])"
| "convert_inputs batch_size ((key, val) # rest) =
     bind_res (input_value val) (\<lambda>(v, n).
       py_assert (batch_size = None \<or> batch_size = Some n)
         (bind_res (convert_inputs (Some n) rest) (\<lambda>(b, items). Inr (b, (key, v) # items))))"

definition get_tensordict :: "(string \<times> ('a, 'v) td_input) list \<Rightarrow> (string \<times> 'v) list \<Rightarrow> ('a, 'v) tensordict res" where
  "get_tensordict tensor_dict non_tensor_dict =
     bind_res (convert_inputs None tensor_dict) (\<lambda>(batch_size, items).
       py_assert (\<forall>key\<in>set (map fst non_tensor_dict). key \<notin> set (map fst tensor_dict))
         (Inr \<lparr>tn_size = batch_size, tn_items = items @ map (\<lambda>(k, v). (k, Data v)) non_tensor_dict\<rparr>))"

text \<open>\<open>get_keys\<close>: a stack goes back to a list and is stacked again.\<close>

fun split_keys ::
  "('a, 'v) tensordict \<Rightarrow> string list \<Rightarrow> (string \<times> ('a, 'v) td_input) list \<Rightarrow> (string \<times> 'v) list \<Rightarrow>
   ((string \<times> ('a, 'v) td_input) list \<times> (string \<times> 'v) list) res" where
  "split_keys td [] tensor_output non_tensor_output = Inr (tensor_output, non_tensor_output)"
| "split_keys td (key # keys) tensor_output non_tensor_output =
     bind_res (td_get td key) (\<lambda>v.
       case v of
         Data x \<Rightarrow> split_keys td keys tensor_output (AList.update key x non_tensor_output)
       | Stack vs \<Rightarrow> split_keys td keys (AList.update key (ListOf vs) tensor_output) non_tensor_output
       | _ \<Rightarrow> split_keys td keys (AList.update key (Given v) tensor_output) non_tensor_output)"

definition get_keys :: "('a, 'v) tensordict \<Rightarrow> string list \<Rightarrow> ('a, 'v) tensordict res" where
  "get_keys td keys = bind_res (split_keys td keys [] []) (\<lambda>(ts, ds). get_tensordict ts ds)"

text \<open>\<open>list_of_dict_to_tensordict\<close>: a cell is a tensor or another value; \<open>wrap\<close> is a tensor as a stack entry.\<close>

datatype ('a, 'v) cell = TensorCell "'a list" | OtherCell 'v

fun is_tensor :: "('a, 'v) cell \<Rightarrow> bool" where
  "is_tensor (TensorCell _) = True"
| "is_tensor (OtherCell _) = False"

fun cell_row :: "('a, 'v) cell \<Rightarrow> 'a list" where
  "cell_row (TensorCell r) = r"
| "cell_row (OtherCell _) = []"

fun cell_entry :: "('a list \<Rightarrow> 'v) \<Rightarrow> ('a, 'v) cell \<Rightarrow> 'v" where
  "cell_entry wrap (TensorCell r) = wrap r"
| "cell_entry wrap (OtherCell v) = v"

definition column_value :: "('a list \<Rightarrow> 'v) \<Rightarrow> ('a, 'v) cell list \<Rightarrow> ('a, 'v) td_value" where
  "column_value wrap val_list =
     (if \<forall>c\<in>set val_list. is_tensor c
      then (if \<forall>c\<in>set val_list. length (cell_row c) = length (cell_row (hd val_list))
            then Dense (map cell_row val_list) else Jagged (map cell_row val_list))
      else Stack (map (cell_entry wrap) val_list))"

definition list_of_dict_to_tensordict ::
  "('a list \<Rightarrow> 'v) \<Rightarrow> (string \<times> ('a, 'v) cell) list list \<Rightarrow> ('a, 'v) tensordict res" where
  "list_of_dict_to_tensordict wrap list_of_dicts =
     py_assert (list_of_dicts \<noteq> [])
       (bind_res (map_res (\<lambda>key.
            bind_res (map_res (\<lambda>d. case map_of d key of None \<Rightarrow> Inl KeyError | Some c \<Rightarrow> Inr c) list_of_dicts)
              (\<lambda>val_list. Inr (key, column_value wrap val_list))) (map fst (hd list_of_dicts)))
          (\<lambda>final_data. Inr \<lparr>tn_size = Some (length list_of_dicts), tn_items = final_data\<rparr>))"

section \<open>Chunks of nested tensors\<close>




lemma length_zero_padded_rows [simp]: "length (zero_padded_rows zero rows) = length rows"
  by (simp add: zero_padded_rows_def Let_def)



section \<open>Splitting and joining\<close>

































section \<open>Mini-batches and padding\<close>

fun rows_ok :: "nat \<Rightarrow> ('a, 'v) td_value \<Rightarrow> bool" where
  "rows_ok n (Dense rs) = (length rs = n)"
| "rows_ok n (Jagged rs) = (length rs = n)"
| "rows_ok n (Stack vs) = (length vs = n)"
| "rows_ok n (Data v) = True"

fun picked :: "nat list \<Rightarrow> ('a, 'v) td_value \<Rightarrow> ('a, 'v) td_value" where
  "picked idx (Dense rs) = Dense (map ((!) rs) idx)"
| "picked idx (Jagged rs) = Jagged (map ((!) rs) idx)"
| "picked idx (Stack vs) = Stack (map ((!) vs) idx)"
| "picked idx (Data v) = Data v"

lemma map_res_rows: "\<forall>i\<in>set idx. i < length xs \<Longrightarrow> map_res (\<lambda>i. py_get xs (int i)) idx = Inr (map ((!) xs) idx)"
  by (rule map_res_Inr) simp

lemma select_value_picked:
  "rows_ok n v \<Longrightarrow> \<forall>i\<in>set idx. i < n \<Longrightarrow> idx \<noteq> [] \<Longrightarrow> select_value (map int idx) v = Inr (picked idx v)"
  by (cases v) (simp_all add: map_res_rows nested_tensor_from_tensor_list_def)

definition td_rows :: "nat list \<Rightarrow> ('a, 'v) tensordict \<Rightarrow> ('a, 'v) tensordict" where
  "td_rows idx td = \<lparr>tn_size = Some (length idx), tn_items = map (\<lambda>(key, v). (key, picked idx v)) (tn_items td)\<rparr>"

lemma index_select_rows:
  assumes "\<forall>(key, v)\<in>set (tn_items td). rows_ok n v" "\<forall>i\<in>set idx. i < n" "idx \<noteq> []"
  shows "index_select_tensor_dict (Some td) (map int idx) = Inr (Some (td_rows idx td))"
proof -
  have "map_res (\<lambda>(key, v). bind_res (select_value (map int idx) v) (\<lambda>v'. Inr (key, v'))) (tn_items td) =
      Inr (map (\<lambda>(key, v). (key, picked idx v)) (tn_items td))"
    by (rule map_res_Inr) (use assms select_value_picked in fastforce)
  then show ?thesis by (simp add: index_select_tensor_dict_def td_rows_def)
qed

text \<open>
  With a loader that goes through a permutation of the rows in batches of the given size, the iterator
  yields these rows, epoch after epoch, in mini-batches that all have the size.
\<close>

theorem iterator_covers_rows:
  assumes "tn_size td = Some n" "\<forall>(key, v)\<in>set (tn_items td). rows_ok n v" "0 < b" "n mod b = 0"
    and "\<And>e. is_index_perm n (perm e) \<and> loader n b e = chunks_of b (perm e)"
  shows "\<exists>parts. make_iterator loader td b epochs = Inr (map (\<lambda>idx. Some (td_rows idx td)) parts) \<and>
    concat parts = concat (map perm [0..<epochs]) \<and> (\<forall>idx\<in>set parts. tn_size (td_rows idx td) = Some b)"
proof -
  let ?parts = "concat (map (\<lambda>e. chunks_of b (perm e)) [0..<epochs])"
  have chunk: "length idx = b \<and> (\<forall>i\<in>set idx. i < n)" if "idx \<in> set (chunks_of b (perm e))" for idx e
  proof -
    have "length (perm e) = n" "set (perm e) = {..<n}" using assms(5) index_perm_length index_perm_set by blast+
    moreover have "set idx \<subseteq> set (concat (chunks_of b (perm e)))" using that by auto
    ultimately show ?thesis
      using chunks_of_all_full [OF assms(3) _ that] assms(3,4) by (auto simp: concat_chunks_of)
  qed
  have "map_res (\<lambda>idx. index_select_tensor_dict (Some td) (map int idx)) ?parts = Inr (map (\<lambda>idx. Some (td_rows idx td)) ?parts)"
  proof (rule map_res_Inr)
    fix idx
    assume "idx \<in> set ?parts"
    then obtain e where "idx \<in> set (chunks_of b (perm e))" by auto
    from chunk [OF this] assms(3) show "index_select_tensor_dict (Some td) (map int idx) = Inr (Some (td_rows idx td))"
      by (intro index_select_rows [OF assms(2)]) auto
  qed
  moreover have "loader n b = (\<lambda>e. chunks_of b (perm e))" using assms(5) by (intro ext) blast
  ultimately have "make_iterator loader td b epochs = Inr (map (\<lambda>idx. Some (td_rows idx td)) ?parts)"
    using assms(1,3,4) by (simp add: make_iterator_def)
  moreover have "concat ?parts = concat (map perm [0..<epochs])"
    by (induction epochs) (simp_all add: concat_chunks_of [OF assms(3)])
  moreover have "\<forall>idx\<in>set ?parts. tn_size (td_rows idx td) = Some b" using chunk by (auto simp: td_rows_def)
  ultimately show ?thesis by blast
qed

text \<open>The padding is full and made of prefixes.\<close>

lemma padding_sizes_full:
  "0 < n \<Longrightarrow> sum_list (padding_sizes r n) = r \<and> (\<forall>k\<in>set (padding_sizes r n). 0 < k \<and> k \<le> n)"
proof (induction r n rule: padding_sizes.induct)
  case (1 r n)
  show ?case
  proof (cases "r = 0")
    case True
    then show ?thesis by (simp add: padding_sizes.simps)
  next
    case False
    let ?k = "min r n"
    have eq: "padding_sizes r n = ?k # padding_sizes (r - ?k) n"
      using False 1(2) by (subst padding_sizes.simps) (simp add: Let_def)
    have rest: "sum_list (padding_sizes (r - ?k) n) = r - ?k" "\<forall>k\<in>set (padding_sizes (r - ?k) n). 0 < k \<and> k \<le> n"
      using 1(1) [OF _ refl 1(2)] False 1(2) by blast+
    have k: "?k + (r - ?k) = r" "0 < ?k" "?k \<le> n" using False 1(2) by simp_all
    show ?thesis
      unfolding eq using rest(2) k(2,3) by (simp only: sum_list.Cons rest(1) k(1) list.set) blast
  qed
qed

theorem pad_to_divisor_even:
  assumes "0 < d" "0 < td_len td" "td_len td mod d \<noteq> 0"
    and cat: "\<And>tds. \<exists>p. td_cat tds = Inr p \<and> td_len p = sum_list (map td_len tds)"
    and take: "\<And>k. k \<le> td_len td \<Longrightarrow> td_len (td_take k td) = k"
  shows "\<exists>p r. pad_to_divisor td_cat td_take td d = Inr (p, r) \<and> td_len p = td_len td + r \<and> r < d \<and> td_len p mod d = 0"
proof -
  let ?r = "d - td_len td mod d"
  let ?ks = "padding_sizes ?r (td_len td)"
  obtain p where p: "td_cat (td # map (\<lambda>k. td_take k td) ?ks) = Inr p"
    "td_len p = sum_list (map td_len (td # map (\<lambda>k. td_take k td) ?ks))"
    using cat by blast
  note full = padding_sizes_full [OF assms(2), of ?r]
  have "map td_len (map (\<lambda>k. td_take k td) ?ks) = map (\<lambda>k. k) ?ks"
    unfolding map_map comp_def using full take by (intro map_cong) auto
  then have len: "td_len p = td_len td + ?r" using p(2) full by simp
  have "td_len td mod d < d" using assms(1) by simp
  then have "td_len td + ?r = d * (td_len td div d) + d" using mult_div_mod_eq [of d "td_len td"] by linarith
  then have "td_len p mod d = 0" unfolding len by simp
  then show ?thesis
    using p(1) len assms by (intro exI [of _ p] exI [of _ ?r]) (simp add: pad_to_divisor_def Let_def)
qed

end
