(* ===== verification/Spec2Isabelle.thy ===== *)
theory Spec2Isabelle
  imports MicroBatches TokenTemplate TensorUtils DataProtoRows AsyncMemory AsyncGeneration
    ToolAgentTrace ToolAgent AgentLoopBatch MessageQueue LoadBalancer RateLimiter Dispatch RecurrentTrainer
    FullyAsync PartialRollout ReplicaManager AsyncTrainer ParallelEval RolloutCorrection ReplayBuffer
    MultiTrajectory Hotpotqa NoPadding WorkerLosses TensorDicts
begin

text \<open>
  PI-Mem trains long-context agents that read a document in chunks, keep a memory of what they read
  and answer from it. \<open>src/recurrent\<close> holds the agents and their rollout loops, \<open>src/verl\<close> the
  reinforcement learning library they run on, \<open>src/taskutils/memory_eval\<close> the clients that evaluate
  them. This development models the parts that carry the program's own logic and proves what makes
  them correct. \<open>PROJECT.json\<close> maps every definition to the lines it translates.

  \<^bold>\<open>How the parts interact.\<close> A trainer step takes a batch of prompts. In the recurrent modes a generation
  manager drives an agent over it: the batched agent yields one message per active sample and turn
  (chunk, merge, final), the manager pads the messages for the workers, dispatches them and returns
  every turn as a row with the index of its sample; the asynchronous agent asks a server per sample,
  and its conversations are turned into the same rows. The trainer scores the final rows, shares the
  score with the other rows of the sample, computes advantages, drops samples without signal, pads and
  splits the batch over ranks and micro-batches of balanced length, and sums the losses of the parts. In
  the fully asynchronous mode a rollouter feeds agent loops whose requests a load balancer spreads over
  servers, puts finished samples in a bounded queue and waits when too many are stale; a trainer
  takes them from the queue, counts versions and tells the rollouter to reset, which interrupts
  requests that the client resumes.

  \<^bold>\<open>Conventions\<close> (theories \<open>Prelude\<close>, \<open>PyString\<close>). An exception is a value of \<open>py_error\<close>; a function
  that may raise returns \<open>py_error + 'a\<close>, sequenced by \<open>bind_res\<close>. Python's integers are \<open>int\<close> or, where
  the code keeps them nonnegative, \<open>nat\<close>; slices, negative indices and floor division are spelled out.
  Strings are lists of Latin-1 characters. A tensor is the list of its rows. Mutable objects are
  records returned changed; concurrent components are step relations over the critical sections of
  the source. Tokenizers, chat templates, engines, tools, reward functions and workers are not under
  \<open>src/\<close>: they are arguments, and what a property needs of them is its hypothesis. Floating point
  arithmetic is exact arithmetic over an ordered field, with exponential, square root and sigmoid as
  parameters; so rounding, overflow and NaN are outside the model.

  \<^bold>\<open>Memory agents\<close> (\<open>src/recurrent\<close>).
  \<open>TokenTemplate\<close>: templates over tokens (\<open>utils.py\<close>); decoding what they yield gives the formatted text, for a
  tokenizer that gets its texts back.
  \<open>TensorUtils\<close>: padding and position ids (\<open>utils.py\<close>).
  \<open>MemoryConfig\<close>: budgets, dataset items, templates, merging of memories (\<open>impls/memory.py\<close>).
  \<open>MemoryAgent\<close>: the state machine of the batched agent, with a well-formedness invariant and a rank
  that every action and update decreases.
  \<open>GenerationManager\<close>: the loop of \<open>generation_manager.py\<close> over any agent that meets the contract of
  locale \<open>ragent\<close>, interpreted on the memory agent; a run terminates with one final turn per sample.
  \<open>Sampling\<close>, \<open>AsyncMemory\<close>, \<open>AsyncGeneration\<close>: sampling parameters and the chat proxy (\<open>interface.py\<close>,
  \<open>async_utils.py\<close>), one rollout of \<open>impls/async_memory.py\<close>, and the training rows made of it
  (\<open>async_generation_manager.py\<close>).
  \<open>ParallelEval\<close>: the evaluation client \<open>parallel_boxed.py\<close>, proved to do what the training rollout does
  on the same tokens when its requests are answered.
  \<open>Json\<close>, \<open>JsonRoundTrip\<close>, \<open>Gsm8k\<close>, \<open>ToolAgent\<close>: the tool agents (\<open>tool.py\<close>, \<open>impls/async_tool_gsm8k.py\<close>,
  \<open>impls/async_trival.py\<close>), the JSON they exchange and the gsm8k reward.
  \<open>Hotpotqa\<close>: the reward of the memory agents (\<open>verl/utils/reward_score/hotpotqa.py\<close>), over the replies of a judge.

  \<^bold>\<open>Batches and dispatch\<close> (\<open>src/verl\<close>).
  \<open>DataProto\<close>, \<open>DataProtoRows\<close>: the batch container of \<open>protocol.py\<close> and what its operations do to rows.
  \<open>Heapq\<close>, \<open>SeqlenBalancing\<close>, \<open>MicroBatches\<close>: \<open>utils/seqlen_balancing.py\<close>; the partitioners return
  partitions, the greedy one within the largest item of the best, and restoring undoes splitting.
  \<open>NoPadding\<close>: padded and nested batches (\<open>workers/utils/padding.py\<close>); the values an engine computes without
  padding come back aligned with the response tokens.
  \<open>TensorDicts\<close>: what \<open>utils/tensordict_utils.py\<close> adds to the container of the engine workers: nested tensors
  are split and joined, rows selected and iterated, batches padded to a divisor.
  \<open>Dispatch\<close>: calls on worker groups (\<open>single_controller\<close>), equal to one call on the whole batch.

  \<^bold>\<open>Agent loops and servers\<close> (\<open>src/verl/experimental\<close>, \<open>src/verl/workers/rollout\<close>).
  \<open>ToolAgentLoop\<close>, \<open>ToolAgentTrace\<close>: the multi-turn tool agent and its runs as a labelled step relation.
  \<open>AgentLoopBatch\<close>: padding and alignment of its outputs.
  \<open>LoadBalancer\<close>: sticky sessions and in-flight counts, over a cache given by the laws \<open>cache_ok\<close>.
  \<open>RateLimiter\<close>: the token bucket of the rate limited reward manager.
  \<open>MessageQueue\<close>: the queue between rollouter and trainer, as interleaved critical sections.
  \<open>FullyAsync\<close>: the rollouter over that queue; \<open>AsyncTrainer\<close>: its consumer;
  \<open>PartialRollout\<close>: the client that resumes interrupted requests;
  \<open>ReplicaManager\<close>: servers that come and go.
  \<open>ReplayBuffer\<close>: prompts, trajectories and the polled buffer of \<open>main_ppo_sync.py\<close>, over any transfer
  queue with the laws of locale \<open>tag_table\<close>, interpreted on the buffer's own operations.
  \<open>MultiTrajectory\<close>: batches with several trajectories per session: advantages from the last ones, padding
  (\<open>padding_utils.py\<close>) and balancing.

  \<^bold>\<open>Learning\<close> (\<open>src/verl/trainer/ppo\<close>).
  \<open>Advantages\<close>, \<open>PolicyLoss\<close>: estimators, losses and penalties of \<open>core_algos.py\<close>.
  \<open>RolloutCorrection\<close>: rejection masks, importance weights and the bypass loss of \<open>rollout_corr_helper.py\<close>.
  \<open>WorkerLosses\<close>: the losses of a worker (\<open>workers/utils/losses.py\<close>) and how their metrics are put together.
  \<open>RecurrentTrainer\<close>: what \<open>ray_trainer.py\<close> adds for agents with a memory, up to the loss of an update.

  \<^bold>\<open>Bounds and fuel.\<close> \<open>run_llm_loop\<close> takes fuel; \<open>memory_run_terminates\<close> gives the number of turns that is
  enough from the configuration (passes, chunks, merges). The asynchronous passes recurse on the number of
  passes left and need none. The tool agent loop takes fuel; \<open>tool_loop_terminates\<close> computes a sufficient
  one from the limit on assistant turns, or from that on the response for a server that never answers
  with no token. The resumed generation of
  \<open>PartialRollout\<close> may go on for ever and is a \<open>partial_function\<close>; \<open>partial_rollout_invisible\<close> shows that it
  returns once the interruptions end. Heap operations, scans and the partitioners are structural or
  have a measure.

  \<^bold>\<open>Not modelled.\<close> Forward and backward passes, optimizers, sharding and checkpoints
  (\<open>verl/workers/engine\<close>, \<open>verl/models\<close>, \<open>verl/utils/megatron*\<close>, \<open>verl/utils/fsdp*\<close>, \<open>verl/utils/kernel\<close>,
  \<open>verl/checkpoint_engine\<close>) are calls of tensor libraries with no logic that can be stated without them.
  Server adapters (\<open>verl/workers/rollout\<close> but the load balancer and the token limit, \<open>src/serve\<close>) start and
  configure third-party engines. Ray placement, logging, profiling and progress output have no effect
  on results. \<open>src/memagent\<close> is an older copy of \<open>src/recurrent\<close>. The data sets, their preparation and the
  benchmark scripts (\<open>src/taskutils\<close> but the evaluation client, \<open>src/examples\<close>, \<open>src/scripts\<close>) call download
  and scoring libraries. Partly modelled parts say in \<open>PROJECT.json\<close> what they leave out.
\<close>

end
